(* ===== verification/Prelude.thy ===== *)
theory Prelude
  imports Main "HOL-Library.Multiset" "HOL-Library.AList" "HOL-Library.List_Lexorder"
    "HOL-Library.Char_ord"
begin

text \<open>
  What every theory of the development shares: results with an error, Go's comparison
  functions and the sort of its \<open>slices\<close> package, and Go maps as association lists.

  A Go function that returns \<open>(T, error)\<close> is a value of \<open>'e + 'a\<close>: \<open>Inl e\<close> is an error
  whose sentinel is \<open>e\<close> (the text an error carries is not modelled), \<open>Inr v\<close> a result.
  A Go map is an association list with distinct keys; the order of the list stands for the
  unspecified iteration order of a Go map, so a result that must not depend on that order
  is proved to be the same for every permutation of the list.
\<close>

named_theorems go_defs "definitions of the model that unfold to their code"
named_theorems go_valid "what a validated value satisfies"

subsection \<open>Results\<close>

definition rbind :: "'e + 'a \<Rightarrow> ('a \<Rightarrow> 'e + 'b) \<Rightarrow> 'e + 'b" where
  "rbind r f = (case r of Inl e \<Rightarrow> Inl e | Inr v \<Rightarrow> f v)"

lemma rbind_simps [simp]:
  "rbind (Inl e) f = Inl e"
  "rbind (Inr v) f = f v"
  by (simp_all add: rbind_def)

lemma rbind_Inr_iff: "rbind r f = Inr w \<longleftrightarrow> (\<exists>v. r = Inr v \<and> f v = Inr w)"
  by (cases r) auto

definition is_ok :: "'e + 'a \<Rightarrow> bool" where
  "is_ok r \<longleftrightarrow> (case r of Inl _ \<Rightarrow> False | Inr _ \<Rightarrow> True)"

lemma is_ok_simps [simp]: "\<not> is_ok (Inl e)" "is_ok (Inr v)"
  by (simp_all add: is_ok_def)

lemma is_ok_iff: "is_ok r \<longleftrightarrow> (\<exists>v. r = Inr v)"
  by (cases r) auto

text \<open>A step that fails leaves the state as it is at that point.\<close>

definition and_then :: "('e + 'a) \<times> 's \<Rightarrow> ('a \<Rightarrow> 's \<Rightarrow> ('e + 'b) \<times> 's) \<Rightarrow> ('e + 'b) \<times> 's" where
  "and_then x f = (case x of (Inl e, s) \<Rightarrow> (Inl e, s) | (Inr v, s) \<Rightarrow> f v s)"

lemma and_then_Inr: "and_then x f = (Inr v, s) \<longleftrightarrow> (\<exists>w t. x = (Inr w, t) \<and> f w t = (Inr v, s))"
  by (auto simp: and_then_def split: prod.splits sum.splits)

lemma and_then_simps [simp]: "and_then (Inl e, s) f = (Inl e, s)" "and_then (Inr v, s) f = f v s"
  by (simp_all add: and_then_def)

text \<open>Go's early return inside a loop: stop at the first error, collect the results.\<close>

fun traverse :: "('a \<Rightarrow> 'e + 'b) \<Rightarrow> 'a list \<Rightarrow> 'e + 'b list" where
  "traverse f [] = Inr []"
| "traverse f (x # xs) =
     (case f x of Inl e \<Rightarrow> Inl e
      | Inr y \<Rightarrow> (case traverse f xs of Inl e \<Rightarrow> Inl e | Inr ys \<Rightarrow> Inr (y # ys)))"

lemma traverse_Inr_iff:
  "traverse f xs = Inr ys \<longleftrightarrow> list_all2 (\<lambda>x y. f x = Inr y) xs ys"
proof (induction xs arbitrary: ys)
  case Nil
  then show ?case by auto
next
  case (Cons x xs)
  show ?case
  proof (cases ys)
    case Nil
    then show ?thesis by (simp split: sum.split)
  next
    case (Cons y ys')
    then show ?thesis
      using Cons.IH [of ys'] by (auto split: sum.split)
  qed
qed

subsection \<open>Comparison functions\<close>

text \<open>\<open>cmp.Compare\<close> on an ordered type, and the chaining of comparisons that Go code writes
  as \<open>if c := ...; c != 0 { return c }\<close>.\<close>

definition go_compare :: "'a::linorder \<Rightarrow> 'a \<Rightarrow> int" where
  "go_compare x y = (if x < y then -1 else if x = y then 0 else 1)"

definition cmp_then :: "int \<Rightarrow> int \<Rightarrow> int" where
  "cmp_then c d = (if c \<noteq> 0 then c else d)"

lemma go_compare_zero [simp]: "go_compare x y = 0 \<longleftrightarrow> x = y"
  by (simp add: go_compare_def)

lemma go_compare_le [simp]: "go_compare x y \<le> 0 \<longleftrightarrow> x \<le> y"
  by (auto simp: go_compare_def)

lemma cmp_then_zero [simp]: "cmp_then c d = 0 \<longleftrightarrow> c = 0 \<and> d = 0"
  by (simp add: cmp_then_def)

text \<open>The stable sort of \<open>slices.SortStableFunc\<close>. \<open>slices.SortFunc\<close> is not stable; where the
  code calls it the model uses the same function, and \<open>sorted_perm_unique\<close> below shows that
  any sort gives that list when the comparison ties equal elements only.\<close>

fun go_insert :: "('a \<Rightarrow> 'a \<Rightarrow> int) \<Rightarrow> 'a \<Rightarrow> 'a list \<Rightarrow> 'a list" where
  "go_insert cmp x [] = [x]"
| "go_insert cmp x (y # ys) = (if cmp x y \<le> 0 then x # y # ys else y # go_insert cmp x ys)"

fun go_sort :: "('a \<Rightarrow> 'a \<Rightarrow> int) \<Rightarrow> 'a list \<Rightarrow> 'a list" where
  "go_sort cmp [] = []"
| "go_sort cmp (x # xs) = go_insert cmp x (go_sort cmp xs)"

lemma mset_go_insert [simp]: "mset (go_insert cmp x xs) = add_mset x (mset xs)"
  by (induction xs) auto

lemma mset_go_sort [simp]: "mset (go_sort cmp xs) = mset xs"
  by (induction xs) auto

lemma set_go_sort [simp]: "set (go_sort cmp xs) = set xs"
  by (metis mset_go_sort set_mset_mset)

lemma length_go_sort [simp]: "length (go_sort cmp xs) = length xs"
  by (metis mset_go_sort size_mset)

lemma distinct_go_sort [simp]: "distinct (go_sort cmp xs) = distinct xs"
  by (metis mset_go_sort mset_eq_imp_distinct_iff)

lemma go_sort_Nil_iff [simp]: "go_sort cmp xs = [] \<longleftrightarrow> xs = []"
  by (metis length_0_conv length_go_sort)

text \<open>What Go asks of a comparison function.\<close>

locale comparator =
  fixes cmp :: "'a \<Rightarrow> 'a \<Rightarrow> int"
  assumes cmp_flip: "sgn (cmp x y) = - sgn (cmp y x)"
    and cmp_trans: "cmp x y \<le> 0 \<Longrightarrow> cmp y z \<le> 0 \<Longrightarrow> cmp x z \<le> 0"
begin

lemma cmp_total: "cmp x y \<le> 0 \<or> cmp y x \<le> 0"
  using cmp_flip [of x y] by (cases "cmp x y" "0::int" rule: linorder_cases) (auto simp: sgn_if split: if_splits)

lemma cmp_pos: "0 < cmp x y \<longleftrightarrow> cmp y x < 0"
  using cmp_flip [of x y] by (auto simp: sgn_if split: if_splits)

lemma cmp_zero_sym: "cmp x y = 0 \<longleftrightarrow> cmp y x = 0"
  using cmp_flip [of x y] by (auto simp: sgn_if split: if_splits)

lemma cmp_antisym: "cmp x y \<le> 0 \<Longrightarrow> cmp y x \<le> 0 \<Longrightarrow> cmp x y = 0"
  using cmp_flip [of x y] by (auto simp: sgn_if split: if_splits)

lemma cmp_refl: "cmp x x = 0"
  using cmp_flip [of x x] by (auto simp: sgn_if split: if_splits)

lemma go_insert_sorted:
  "sorted_wrt (\<lambda>x y. cmp x y \<le> 0) xs \<Longrightarrow> sorted_wrt (\<lambda>x y. cmp x y \<le> 0) (go_insert cmp x xs)"
proof (induction xs)
  case Nil
  then show ?case by simp
next
  case (Cons y ys)
  have "set (go_insert cmp x ys) = insert x (set ys)"
    by (metis mset_go_insert set_mset_add_mset_insert set_mset_mset)
  then show ?case
    using Cons cmp_total [of x y] by (auto intro: cmp_trans)
qed

lemma go_sort_sorted: "sorted_wrt (\<lambda>x y. cmp x y \<le> 0) (go_sort cmp xs)"
  by (induction xs) (auto intro: go_insert_sorted)

text \<open>Two sorted lists with the same elements are equal when only equal elements tie.\<close>

lemma sorted_perm_unique:
  assumes "sorted_wrt (\<lambda>x y. cmp x y \<le> 0) xs" "sorted_wrt (\<lambda>x y. cmp x y \<le> 0) ys"
    and "mset xs = mset ys"
    and "\<And>x y. x \<in> set xs \<Longrightarrow> y \<in> set xs \<Longrightarrow> cmp x y = 0 \<Longrightarrow> x = y"
  shows "xs = ys"
  using assms
proof (induction xs arbitrary: ys)
  case Nil
  then show ?case by simp
next
  case (Cons x xs)
  then obtain y ys' where ys: "ys = y # ys'"
    by (cases ys) auto
  have sets: "set (x # xs) = set ys"
    using Cons.prems(3) by (metis set_mset_mset)
  have "y \<in> set (x # xs)" "x \<in> set (y # ys')"
    using sets ys by auto
  then have "cmp x y \<le> 0" and "cmp y x \<le> 0"
    using Cons.prems(1,2) ys cmp_refl by auto
  then have "cmp x y = 0"
    by (intro cmp_antisym)
  then have "x = y"
    using Cons.prems(4) sets ys by auto
  have "xs = ys'"
    using Cons.IH [of ys'] Cons.prems ys \<open>x = y\<close> by auto
  then show ?case
    using ys \<open>x = y\<close> by simp
qed

lemma go_sort_perm:
  assumes "mset xs = mset ys"
    and "\<And>x y. x \<in> set xs \<Longrightarrow> y \<in> set xs \<Longrightarrow> cmp x y = 0 \<Longrightarrow> x = y"
  shows "go_sort cmp xs = go_sort cmp ys"
  by (rule sorted_perm_unique) (use assms in \<open>auto simp: go_sort_sorted\<close>)

lemma go_sort_id: "sorted_wrt (\<lambda>x y. cmp x y \<le> 0) xs \<Longrightarrow> go_sort cmp xs = xs"
proof (induction xs)
  case Nil
  then show ?case by simp
next
  case (Cons x xs)
  then show ?case by (cases xs) auto
qed

text \<open>The sort is stable: elements that tie keep their order.\<close>

lemma go_insert_tie:
  "filter (\<lambda>y. cmp a y = 0) (go_insert cmp x xs) =
     (if cmp a x = 0 then x # filter (\<lambda>y. cmp a y = 0) xs else filter (\<lambda>y. cmp a y = 0) xs)"
proof (induction xs)
  case Nil
  then show ?case by simp
next
  case (Cons y ys)
  have "cmp x y \<le> 0" if "cmp a x = 0" "cmp a y = 0"
    using that cmp_zero_sym [of a x] cmp_trans [of x a y] by simp
  then show ?case using Cons by auto
qed

lemma go_sort_stable: "filter (\<lambda>y. cmp a y = 0) (go_sort cmp xs) = filter (\<lambda>y. cmp a y = 0) xs"
  by (induction xs) (auto simp: go_insert_tie)

lemma go_sort_idem: "go_sort cmp (go_sort cmp xs) = go_sort cmp xs"
  by (rule go_sort_id) (rule go_sort_sorted)

end

lemma comparator_by: "comparator (\<lambda>x y. go_compare (f x) (f y))"
  by unfold_locales (auto simp: go_compare_def split: if_splits)

lemma comparator_by_desc: "comparator (\<lambda>x y. go_compare (f y) (f x))"
  by unfold_locales (auto simp: go_compare_def split: if_splits)

lemma comparator_then:
  assumes "comparator c" and "comparator d"
  shows "comparator (\<lambda>x y. cmp_then (c x y) (d x y))"
proof
  fix x y
  show "sgn (cmp_then (c x y) (d x y)) = - sgn (cmp_then (c y x) (d y x))"
    using comparator.cmp_flip [OF assms(1), of x y] comparator.cmp_flip [OF assms(2), of x y]
    by (auto simp: cmp_then_def sgn_if split: if_splits)
next
  fix x y z
  assume xy: "cmp_then (c x y) (d x y) \<le> 0" and yz: "cmp_then (c y z) (d y z) \<le> 0"
  have cle: "c x y \<le> 0" "c y z \<le> 0"
    using xy yz by (auto simp: cmp_then_def split: if_splits)
  then have cxz: "c x z \<le> 0"
    by (rule comparator.cmp_trans [OF assms(1)])
  show "cmp_then (c x z) (d x z) \<le> 0"
  proof (cases "c x z = 0")
    case True
    then have zx: "c z x \<le> 0"
      using comparator.cmp_zero_sym [OF assms(1), of x z] by simp
    have "c y x \<le> 0" "c z y \<le> 0"
      using comparator.cmp_trans [OF assms(1), of y z x] comparator.cmp_trans [OF assms(1), of z x y]
        cle zx by auto
    then have "c x y = 0" "c y z = 0"
      using cle comparator.cmp_antisym [OF assms(1)] by auto
    then have "d x y \<le> 0" "d y z \<le> 0"
      using xy yz by (auto simp: cmp_then_def)
    then show ?thesis
      using True comparator.cmp_trans [OF assms(2), of x y z] by (simp add: cmp_then_def)
  next
    case False
    then show ?thesis using cxz by (simp add: cmp_then_def)
  qed
qed

interpretation natural: comparator "go_compare :: 'a::linorder \<Rightarrow> 'a \<Rightarrow> int"
  by (rule comparator_by [where f = "\<lambda>x. x"])

lemma go_sort_natural: "go_sort go_compare xs = sort xs"
proof (rule natural.sorted_perm_unique)
  show "sorted_wrt (\<lambda>x y. go_compare x y \<le> 0) (go_sort go_compare xs)"
    by (rule natural.go_sort_sorted)
  show "sorted_wrt (\<lambda>x y. go_compare x y \<le> 0) (sort xs)"
    by simp
qed auto

subsection \<open>Removing duplicates in order of first appearance\<close>

fun dedup_from :: "'a set \<Rightarrow> 'a list \<Rightarrow> 'a list" where
  "dedup_from seen [] = []"
| "dedup_from seen (x # xs) =
     (if x \<in> seen then dedup_from seen xs else x # dedup_from (insert x seen) xs)"

abbreviation dedup :: "'a list \<Rightarrow> 'a list" where
  "dedup \<equiv> dedup_from {}"

lemma set_dedup_from: "set (dedup_from seen xs) = set xs - seen"
  by (induction xs arbitrary: seen) auto

lemma set_dedup [simp]: "set (dedup xs) = set xs"
  by (simp add: set_dedup_from)

lemma distinct_dedup_from [simp]: "distinct (dedup_from seen xs)"
  by (induction xs arbitrary: seen) (auto simp: set_dedup_from)

lemma dedup_from_id: "distinct xs \<Longrightarrow> set xs \<inter> seen = {} \<Longrightarrow> dedup_from seen xs = xs"
  by (induction xs arbitrary: seen) auto

lemma dedup_Nil_iff [simp]: "dedup xs = [] \<longleftrightarrow> xs = []"
  by (metis set_dedup set_empty)

lemma sort_Nil_iff [simp]: "sort xs = [] \<longleftrightarrow> xs = []"
  by (metis set_empty set_sort)

lemma sort_dedup_sorted: "sorted xs \<Longrightarrow> distinct xs \<Longrightarrow> sort (dedup xs) = (xs :: 'a::linorder list)"
  by (simp add: dedup_from_id sorted_sort_id)

lemma sort_set_unique:
  fixes xs ys :: "'a::linorder list"
  assumes "distinct xs" "distinct ys" "set xs = set ys"
  shows "sort xs = sort ys"
proof (rule properties_for_sort)
  show "mset (sort ys) = mset xs"
    using assms by (simp add: set_eq_iff_mset_eq_distinct [symmetric])
qed simp

lemma sort_dedup_unique:
  "set xs = set ys \<Longrightarrow> sort (dedup xs) = sort (dedup (ys :: 'a::linorder list))"
  by (rule sort_set_unique) simp_all

subsection \<open>Association lists as Go maps\<close>

lemma map_of_set_eq:
  assumes "distinct (map fst xs)" "distinct (map fst ys)" "map_of xs = map_of ys"
  shows "set xs = set ys"
  using assms by (metis map_of_eq_Some_iff subrelI subset_antisym)

lemma map_of_keys_eq: "map_of xs = map_of ys \<Longrightarrow> fst ` set xs = fst ` set ys"
  by (metis dom_map_of_conv_image_fst)

lemma set_alist_update: "(z, w) \<in> set (AList.update k v al) \<Longrightarrow> (z, w) = (k, v) \<or> (z, w) \<in> set al"
  by (induction al) (auto split: if_splits)

lemma map_of_distinct_iff:
  "distinct (map fst al) \<Longrightarrow> map_of al k = Some v \<longleftrightarrow> (k, v) \<in> set al"
  by simp

lemma distinct_count_list: "distinct xs \<Longrightarrow> count_list xs x = (if x \<in> set xs then 1 else 0)"
  by (induction xs) auto

lemma map_Some_keys:
  "map Some xs = map f ys \<Longrightarrow> (\<And>y e. y \<in> set ys \<Longrightarrow> f y = Some e \<Longrightarrow> k e = y) \<Longrightarrow> map k xs = ys"
proof (induction xs arbitrary: ys)
  case Nil
  then show ?case by simp
next
  case (Cons x xs)
  then show ?case by (cases ys) auto
qed

text \<open>The loop that groups elements by a key, in a map with the keys in order of appearance.\<close>

type_synonym ('k, 'a) grouping = "'k list \<times> ('k \<times> 'a list) list"

definition bucket :: "('k \<times> 'a list) list \<Rightarrow> 'k \<Rightarrow> 'a list" where
  "bucket m k = (case map_of m k of None \<Rightarrow> [] | Some xs \<Rightarrow> xs)"

definition group_step :: "('a \<Rightarrow> 'k) \<Rightarrow> 'a \<Rightarrow> ('k, 'a) grouping \<Rightarrow> ('k, 'a) grouping" where
  "group_step key x st =
     ((if map_of (snd st) (key x) = None then fst st @ [key x] else fst st),
      AList.update (key x) (bucket (snd st) (key x) @ [x]) (snd st))"

definition group_by :: "('a \<Rightarrow> 'k) \<Rightarrow> 'a list \<Rightarrow> ('k, 'a) grouping" where
  "group_by key xs = fold (group_step key) xs ([], [])"

lemma bucket_update: "bucket (AList.update k v m) j = (if j = k then v else bucket m j)"
  unfolding bucket_def AList.update_conv by simp

lemma map_of_update_None: "map_of (AList.update k v m) j = None \<longleftrightarrow> j \<noteq> k \<and> map_of m j = None"
  unfolding AList.update_conv by simp

lemma group_by_spec:
  "distinct (fst (group_by key xs)) \<and> set (fst (group_by key xs)) = key ` set xs
   \<and> (\<forall>k. map_of (snd (group_by key xs)) k = None \<longleftrightarrow> k \<notin> key ` set xs)
   \<and> (\<forall>k. bucket (snd (group_by key xs)) k = filter (\<lambda>x. key x = k) xs)"
proof (induction xs rule: rev_induct)
  case Nil
  then show ?case by (simp add: group_by_def bucket_def)
next
  case (snoc x xs)
  have "group_by key (xs @ [x]) = group_step key x (group_by key xs)"
    by (simp add: group_by_def)
  then show ?case
    using snoc by (auto simp: group_step_def map_of_update_None bucket_update)
qed

lemmas group_by_keys = conjunct1 [OF group_by_spec] conjunct1 [OF conjunct2 [OF group_by_spec]]

lemma group_by_None: "map_of (snd (group_by key xs)) k = None \<longleftrightarrow> k \<notin> key ` set xs"
  using group_by_spec by metis

lemma group_by_bucket: "bucket (snd (group_by key xs)) k = filter (\<lambda>x. key x = k) xs"
  using group_by_spec by metis

text \<open>Joining strings that do not hold the separator is injective.\<close>

definition terminated :: "'a \<Rightarrow> 'a list list \<Rightarrow> 'a list" where
  "terminated d xs = concat (map (\<lambda>x. x @ [d]) xs)"

lemma terminated_inj:
  assumes "\<forall>x\<in>set xs. d \<notin> set x" "\<forall>y\<in>set ys. d \<notin> set y" "terminated d xs = terminated d ys"
  shows "xs = ys"
  using assms
proof (induction xs arbitrary: ys)
  case Nil
  then show ?case by (cases ys) (auto simp: terminated_def)
next
  case (Cons x xs)
  then obtain y ys' where ys: "ys = y # ys'"
    by (cases ys) (auto simp: terminated_def)
  have eq: "x @ d # terminated d xs = y @ d # terminated d ys'"
    using Cons.prems(3) by (simp add: ys terminated_def)
  have tw: "takeWhile (\<lambda>c. c \<noteq> d) (z @ d # zs) = z" if "d \<notin> set z" for z zs
    using that by (induction z) auto
  have "x = y"
    using arg_cong [OF eq, of "takeWhile (\<lambda>c. c \<noteq> d)"] Cons.prems(1,2) by (simp add: tw ys)
  then show ?case
    using Cons.IH [of ys'] Cons.prems(1,2) eq ys by simp
qed

lemma map_go_sort: "map f (go_sort (\<lambda>a b. cmp (f a) (f b)) xs) = go_sort cmp (map f xs)"
proof -
  have "map f (go_insert (\<lambda>a b. cmp (f a) (f b)) x xs) = go_insert cmp (f x) (map f xs)" for x xs
    by (induction xs) auto
  then show ?thesis by (induction xs) auto
qed

end
