(* ===== verification/GoText.thy ===== *)
theory GoText
  imports Prelude
begin

text \<open>
  Go's strings and the part of its standard library the program uses on them. A Go string
  is a list of bytes, a \<open>string\<close> of HOL whose characters are the bytes; comparison is
  bytewise, which is the lexicographic order of the list. The runes of a string are
  decoded as \<open>for _, r := range s\<close> does: an invalid byte is U+FFFD with width 1.
\<close>

abbreviation code :: "char \<Rightarrow> nat" where
  "code c \<equiv> of_char c"

subsection \<open>UTF-8 (package \<open>unicode/utf8\<close>)\<close>

definition rune_error :: nat where
  "rune_error = 65533"

definition continuation :: "nat \<Rightarrow> nat \<Rightarrow> nat \<Rightarrow> bool" where
  "continuation lo hi b \<longleftrightarrow> lo \<le> b \<and> b \<le> hi"

text \<open>One rune and its width, with the ranges of the second byte that rule out overlong
  forms, surrogates and code points past U+10FFFF.\<close>

definition decode_two :: "nat \<Rightarrow> nat list \<Rightarrow> (nat \<times> nat) option" where
  "decode_two b0 r =
     (case r of
        b1 # _ \<Rightarrow>
          if continuation 128 191 b1 then Some ((b0 - 192) * 64 + (b1 - 128), 2) else None
      | [] \<Rightarrow> None)"

definition decode_three :: "nat \<Rightarrow> nat list \<Rightarrow> (nat \<times> nat) option" where
  "decode_three b0 r =
     (case r of
        b1 # b2 # _ \<Rightarrow>
          if continuation (if b0 = 224 then 160 else 128) (if b0 = 237 then 159 else 191) b1
             \<and> continuation 128 191 b2
          then Some ((b0 - 224) * 4096 + (b1 - 128) * 64 + (b2 - 128), 3) else None
      | _ \<Rightarrow> None)"

definition decode_four :: "nat \<Rightarrow> nat list \<Rightarrow> (nat \<times> nat) option" where
  "decode_four b0 r =
     (case r of
        b1 # b2 # b3 # _ \<Rightarrow>
          if continuation (if b0 = 240 then 144 else 128) (if b0 = 244 then 143 else 191) b1
             \<and> continuation 128 191 b2 \<and> continuation 128 191 b3
          then Some ((b0 - 240) * 262144 + (b1 - 128) * 4096 + (b2 - 128) * 64 + (b3 - 128), 4)
          else None
      | _ \<Rightarrow> None)"

definition decode_multi :: "nat \<Rightarrow> nat list \<Rightarrow> (nat \<times> nat) option" where
  "decode_multi b0 r =
     (if 194 \<le> b0 \<and> b0 \<le> 223 then decode_two b0 r
      else if 224 \<le> b0 \<and> b0 \<le> 239 then decode_three b0 r
      else if 240 \<le> b0 \<and> b0 \<le> 244 then decode_four b0 r
      else None)"

definition decode_rune :: "nat list \<Rightarrow> nat \<times> nat" where
  "decode_rune bs =
     (case bs of
        [] \<Rightarrow> (rune_error, 0)
      | b0 # r \<Rightarrow>
          if b0 < 128 then (b0, 1)
          else (case decode_multi b0 r of Some rw \<Rightarrow> rw | None \<Rightarrow> (rune_error, 1)))"

text \<open>The runes of a string, each with the bytes it was decoded from.\<close>

function runes :: "string \<Rightarrow> (nat \<times> string) list" where
  "runes [] = []"
| "runes (c # cs) =
     (let (r, w) = decode_rune (map of_char (c # cs))
      in (r, take w (c # cs)) # runes (drop (w - 1) cs))"
  by pat_completeness auto
termination
  by (relation "measure length") auto

definition valid_utf8 :: "string \<Rightarrow> bool" where
  "valid_utf8 s \<longleftrightarrow> list_all (\<lambda>(r, bs). \<not> (r = rune_error \<and> length bs = 1)) (runes s)"

text \<open>\<open>unicode.IsSpace\<close> and \<open>unicode.IsControl\<close>.\<close>

definition rune_is_space :: "nat \<Rightarrow> bool" where
  "rune_is_space r \<longleftrightarrow>
     (9 \<le> r \<and> r \<le> 13) \<or> r = 32 \<or> r = 133 \<or> r = 160 \<or> r = 5760 \<or> (8192 \<le> r \<and> r \<le> 8202)
     \<or> r = 8232 \<or> r = 8233 \<or> r = 8239 \<or> r = 8287 \<or> r = 12288"

definition rune_is_control :: "nat \<Rightarrow> bool" where
  "rune_is_control r \<longleftrightarrow> r < 32 \<or> (127 \<le> r \<and> r < 160)"

text \<open>\<open>strings.TrimSpace\<close>.\<close>

definition trim_space :: "string \<Rightarrow> string" where
  "trim_space s =
     concat (map snd (rev (dropWhile (rune_is_space \<circ> fst)
       (rev (dropWhile (rune_is_space \<circ> fst) (runes s))))))"

text \<open>\<open>for _, r := range s { if p(r) ... }\<close>.\<close>

definition any_rune :: "(nat \<Rightarrow> bool) \<Rightarrow> string \<Rightarrow> bool" where
  "any_rune p s \<longleftrightarrow> list_ex (p \<circ> fst) (runes s)"

subsection \<open>Facts about runes\<close>

lemma decode_multi_tail:
  assumes "decode_multi b0 r = Some (x, w)"
  shows "1 \<le> w \<and> w \<le> Suc (length r) \<and> (\<forall>b\<in>set (take (w - 1) r). 128 \<le> b)"
proof -
  have two: "decode_two b0 r = Some (x, w) \<Longrightarrow> ?thesis"
    by (cases r) (auto simp: decode_two_def continuation_def split: if_split_asm)
  have three: "decode_three b0 r = Some (x, w) \<Longrightarrow> ?thesis"
    by (cases r; cases "tl r")
      (auto simp: decode_three_def continuation_def numeral_2_eq_2 numeral_3_eq_3 split: if_split_asm)
  have four: "decode_four b0 r = Some (x, w) \<Longrightarrow> ?thesis"
    by (cases r; cases "tl r"; cases "tl (tl r)")
      (auto simp: decode_four_def continuation_def numeral_3_eq_3 split: if_split_asm)
  have "decode_two b0 r = Some (x, w) \<or> decode_three b0 r = Some (x, w) \<or> decode_four b0 r = Some (x, w)"
    using assms by (auto simp: decode_multi_def split: if_split_asm)
  then show ?thesis
    using two three four by blast
qed

lemma decode_rune_width:
  "bs \<noteq> [] \<Longrightarrow> 1 \<le> snd (decode_rune bs) \<and> snd (decode_rune bs) \<le> length bs"
  using decode_multi_tail by (cases bs) (fastforce simp: decode_rune_def split: option.split)+

lemma decode_rune_ascii: "b < 128 \<Longrightarrow> decode_rune (b # bs) = (b, 1)"
  by (simp add: decode_rune_def)

lemma decode_rune_tail_high:
  "b \<in> set (take (snd (decode_rune (b0 # bs)) - 1) bs) \<Longrightarrow> 128 \<le> b"
  using decode_multi_tail [of b0 bs]
  by (cases "decode_multi b0 bs") (auto simp: decode_rune_def split: if_split_asm)

lemma runes_concat: "concat (map snd (runes s)) = s"
proof (induction s rule: runes.induct)
  case 1
  then show ?case by simp
next
  case (2 c cs)
  obtain r w where rw: "decode_rune (map of_char (c # cs)) = (r, w)"
    by (cases "decode_rune (map of_char (c # cs))")
  then have "1 \<le> w"
    using decode_rune_width [of "map of_char (c # cs)"] by simp
  moreover have "concat (map snd (runes (drop (w - 1) cs))) = drop (w - 1) cs"
    using 2 [of "(r, w)" r w] rw by simp
  ultimately show ?case
    using rw by (cases w) simp_all
qed

lemma runes_Nil_iff [simp]: "runes s = [] \<longleftrightarrow> s = []"
  by (cases s) (auto simp: Let_def split: prod.splits)

text \<open>An ASCII byte of a string is a rune of its own.\<close>

lemma runes_ascii: "c \<in> set s \<Longrightarrow> code c < 128 \<Longrightarrow> (code c, [c]) \<in> set (runes s)"
proof (induction s rule: runes.induct)
  case 1
  then show ?case by simp
next
  case (2 d cs)
  obtain r w where rw: "decode_rune (map of_char (d # cs)) = (r, w)"
    by (cases "decode_rune (map of_char (d # cs))")
  show ?case
  proof (cases "c = d")
    case True
    with 2(3) show ?thesis
      by (simp add: decode_rune_ascii)
  next
    case False
    then have c: "c \<in> set cs"
      using 2 by simp
    have "c \<in> set (drop (w - 1) cs)"
    proof (rule ccontr)
      assume "c \<notin> set (drop (w - 1) cs)"
      then have "c \<in> set (take (w - 1) cs)"
        using c by (metis UnE append_take_drop_id set_append)
      then have "code c \<in> set (take (snd (decode_rune (of_char d # map of_char cs)) - 1) (map of_char cs))"
        using rw by (simp add: take_map)
      then show False
        using decode_rune_tail_high 2(3) by fastforce
    qed
    then have "(code c, [c]) \<in> set (runes (drop (w - 1) cs))"
      using 2(1) [of "(r, w)" r w] rw 2(3) by simp
    then show ?thesis
      using rw by simp
  qed
qed

lemma runes_all_ascii: "list_all (\<lambda>c. code c < 128) s \<Longrightarrow> runes s = map (\<lambda>c. (code c, [c])) s"
  by (induction s) (simp_all add: decode_rune_ascii)

lemma valid_utf8_ascii: "list_all (\<lambda>c. code c < 128) s \<Longrightarrow> valid_utf8 s"
  by (auto simp: valid_utf8_def runes_all_ascii list_all_iff rune_error_def)

lemma trim_space_all_ascii:
  "list_all (\<lambda>c. code c < 128 \<and> \<not> rune_is_space (code c)) s \<Longrightarrow> trim_space s = s"
proof -
  assume a: "list_all (\<lambda>c. code c < 128 \<and> \<not> rune_is_space (code c)) s"
  then have r: "runes s = map (\<lambda>c. (code c, [c])) s"
    by (intro runes_all_ascii) (simp add: list_all_iff)
  have "dropWhile (rune_is_space \<circ> fst) (runes s) = runes s"
    "dropWhile (rune_is_space \<circ> fst) (rev (runes s)) = rev (runes s)"
    using a by (auto simp: r dropWhile_eq_self_iff list_all_iff hd_map hd_rev last_map simp flip: rev_map)
  then show ?thesis
    by (simp add: trim_space_def runes_concat)
qed

lemma trim_space_Nil [simp]: "trim_space [] = []"
  by (simp add: trim_space_def)

subsection \<open>Package \<open>strings\<close>\<close>

fun has_prefix :: "string \<Rightarrow> string \<Rightarrow> bool" where
  "has_prefix s [] = True"
| "has_prefix [] (p # ps) = False"
| "has_prefix (c # s) (p # ps) = (c = p \<and> has_prefix s ps)"

definition has_suffix :: "string \<Rightarrow> string \<Rightarrow> bool" where
  "has_suffix s p \<longleftrightarrow> has_prefix (rev s) (rev p)"

lemma has_prefix_iff: "has_prefix s p \<longleftrightarrow> (\<exists>t. s = p @ t)"
  by (induction s p rule: has_prefix.induct) auto

lemma has_suffix_iff: "has_suffix s p \<longleftrightarrow> (\<exists>t. s = t @ p)"
  by (metis has_prefix_iff has_suffix_def rev_append rev_rev_ident)

fun contains_str :: "string \<Rightarrow> string \<Rightarrow> bool" where
  "contains_str [] p = (p = [])"
| "contains_str (c # s) p = (has_prefix (c # s) p \<or> contains_str s p)"

lemma contains_str_iff: "contains_str s p \<longleftrightarrow> (\<exists>a b. s = a @ p @ b)"
proof (induction s)
  case Nil
  then show ?case by simp
next
  case (Cons c s)
  show ?case
    by (auto simp: has_prefix_iff Cons.IH) (metis append_Cons append_Nil list.inject neq_Nil_conv)+
qed

text \<open>\<open>strings.Split\<close> and \<open>strings.Cut\<close> with a separator of one byte.\<close>

fun split_on :: "char \<Rightarrow> string \<Rightarrow> string list" where
  "split_on d [] = [[]]"
| "split_on d (c # s) =
     (if c = d then [] # split_on d s
      else (case split_on d s of [] \<Rightarrow> [[c]] | x # xs \<Rightarrow> (c # x) # xs))"

fun cut_at :: "char \<Rightarrow> string \<Rightarrow> string \<times> string \<times> bool" where
  "cut_at d [] = ([], [], False)"
| "cut_at d (c # s) =
     (if c = d then ([], s, True)
      else (case cut_at d s of (a, b, f) \<Rightarrow> (c # a, b, f)))"

lemma split_on_nonempty [simp]: "split_on d s \<noteq> []"
  by (cases s) (auto split: list.splits)

lemma split_on_no_sep: "d \<notin> set s \<Longrightarrow> split_on d s = [s]"
  by (induction s) auto

lemma split_on_append: "d \<notin> set a \<Longrightarrow> split_on d (a @ d # b) = a # split_on d b"
  by (induction a) auto

lemma split_on_segments: "x \<in> set (split_on d s) \<Longrightarrow> set x \<subseteq> set s - {d}"
proof (induction s arbitrary: x)
  case Nil
  then show ?case by simp
next
  case (Cons c s)
  show ?case
  proof (cases "c = d")
    case True
    then show ?thesis using Cons by fastforce
  next
    case False
    obtain y ys where ys: "split_on d s = y # ys"
      by (cases "split_on d s") auto
    then show ?thesis
      using Cons False by (fastforce simp: ys)
  qed
qed

lemma split_on_chars: "set s \<subseteq> insert d (\<Union>x\<in>set (split_on d s). set x)"
proof (induction s)
  case Nil
  then show ?case by simp
next
  case (Cons c s)
  obtain y ys where ys: "split_on d s = y # ys"
    by (cases "split_on d s") auto
  then show ?case using Cons by auto
qed

lemma cut_at_found: "cut_at d s = (a, b, True) \<Longrightarrow> s = a @ d # b \<and> d \<notin> set a"
  by (induction s arbitrary: a) (auto split: if_splits prod.splits)

lemma cut_at_absent: "cut_at d s = (a, b, False) \<Longrightarrow> a = s \<and> d \<notin> set s"
  by (induction s arbitrary: a b) (auto split: if_splits prod.splits)

lemma cut_at_append: "d \<notin> set a \<Longrightarrow> cut_at d (a @ d # b) = (a, b, True)"
  by (induction a) auto

text \<open>\<open>strings.Join\<close>.\<close>

fun join_with :: "string \<Rightarrow> string list \<Rightarrow> string" where
  "join_with sep [] = []"
| "join_with sep [x] = x"
| "join_with sep (x # xs) = x @ sep @ join_with sep xs"

subsection \<open>Byte classes\<close>

definition is_lower :: "char \<Rightarrow> bool" where
  "is_lower c \<longleftrightarrow> 97 \<le> code c \<and> code c \<le> 122"

definition is_upper :: "char \<Rightarrow> bool" where
  "is_upper c \<longleftrightarrow> 65 \<le> code c \<and> code c \<le> 90"

definition is_digit :: "char \<Rightarrow> bool" where
  "is_digit c \<longleftrightarrow> 48 \<le> code c \<and> code c \<le> 57"

subsection \<open>Decimal numerals (package \<open>strconv\<close>)\<close>

text \<open>\<open>strconv.FormatUint(n, 10)\<close>.\<close>

definition digit_char :: "nat \<Rightarrow> char" where
  "digit_char d = char_of (48 + d)"

fun show_nat :: "nat \<Rightarrow> string" where
  "show_nat n = (if n < 10 then [digit_char n] else show_nat (n div 10) @ [digit_char (n mod 10)])"

declare show_nat.simps [simp del]

definition digit_value :: "char \<Rightarrow> nat" where
  "digit_value c = code c - 48"

text \<open>The value of a string of digits, of any length.\<close>

definition decimal_value :: "string \<Rightarrow> nat" where
  "decimal_value s = foldl (\<lambda>acc c. acc * 10 + digit_value c) 0 s"

lemma digit_char_facts [simp]: "d < 10 \<Longrightarrow> is_digit (digit_char d) \<and> digit_value (digit_char d) = d"
  by (simp add: is_digit_def digit_char_def digit_value_def)

lemma decimal_value_snoc [simp]: "decimal_value (s @ [c]) = decimal_value s * 10 + digit_value c"
  by (simp add: decimal_value_def)

lemma decimal_value_show_nat [simp]: "decimal_value (show_nat n) = n"
proof (induction n rule: show_nat.induct)
  case (1 n)
  then show ?case
    by (cases "n < 10") (simp_all add: show_nat.simps [of n] decimal_value_def)
qed

lemma show_nat_digits: "list_all is_digit (show_nat n)"
proof (induction n rule: show_nat.induct)
  case (1 n)
  then show ?case
    by (cases "n < 10") (simp_all add: show_nat.simps [of n])
qed

lemma show_nat_nonempty [simp]: "show_nat n \<noteq> []"
  by (subst show_nat.simps) simp

lemma show_nat_inj: "show_nat m = show_nat n \<Longrightarrow> m = n"
  by (metis decimal_value_show_nat)

subsection \<open>The separator of joined identifiers\<close>

text \<open>The NUL byte separates joined identifiers; no control character passes validation.\<close>

definition NUL :: char where
  "NUL = CHR 0x00"

lemma code_NUL [simp]: "code NUL = 0"
  by (simp add: NUL_def)

end
