(* ===== verification/Names.thy ===== *)
theory Names
  imports GoText
begin

text \<open>
  Package \<open>internal/domain\<close>: the sentinel errors (\<open>errors.go\<close>, \<open>graph.go\<close>, \<open>report.go\<close>), the
  validators of identifiers and prose (\<open>evidenceid.go\<close>, \<open>finding.go\<close>), dotted names (\<open>names.go\<close>),
  finding codes (\<open>findingcode.go\<close>) and service ids (\<open>serviceid.go\<close>). The label a validator takes
  only reaches the error's text and is left out.
\<close>

datatype domain_error = ErrInvalidValue | ErrInvalidGraph | ErrInvalidReport

type_synonym evidence_id = string
type_synonym step_name = string
type_synonym attribute_key = string
type_synonym finding_code = string
type_synonym service_id = string

subsection \<open>Identifiers and prose\<close>

definition validate_identifier :: "string \<Rightarrow> domain_error + unit" where
  "validate_identifier s =
     (if s = [] then Inl ErrInvalidValue
      else if \<not> valid_utf8 s then Inl ErrInvalidValue
      else if trim_space s \<noteq> s then Inl ErrInvalidValue
      else if any_rune rune_is_control s then Inl ErrInvalidValue
      else Inr ())"

definition validate_prose :: "string \<Rightarrow> domain_error + unit" where
  "validate_prose s =
     (if \<not> valid_utf8 s then Inl ErrInvalidValue
      else if trim_space s = [] then Inl ErrInvalidValue
      else if trim_space s \<noteq> s then Inl ErrInvalidValue
      else if any_rune (\<lambda>r. r \<noteq> 10 \<and> rune_is_control r) s then Inl ErrInvalidValue
      else Inr ())"

definition new_evidence_id :: "string \<Rightarrow> domain_error + evidence_id" where
  "new_evidence_id s = rbind (validate_identifier s) (\<lambda>_. Inr s)"

definition evidence_id_valid :: "evidence_id \<Rightarrow> bool" where
  "evidence_id_valid s \<longleftrightarrow> is_ok (validate_identifier s)"

lemma validate_identifier_ok:
  "is_ok (validate_identifier s) \<longleftrightarrow>
     s \<noteq> [] \<and> valid_utf8 s \<and> trim_space s = s \<and> \<not> any_rune rune_is_control s"
  by (simp add: validate_identifier_def)

lemma validate_identifier_cases:
  "validate_identifier s = Inr () \<and> is_ok (validate_identifier s)
   \<or> validate_identifier s = Inl ErrInvalidValue \<and> \<not> is_ok (validate_identifier s)"
  by (simp add: validate_identifier_def)

lemma validate_identifier_Inr: "validate_identifier s = Inr u \<longleftrightarrow> is_ok (validate_identifier s)"
  using validate_identifier_cases [of s] by (cases u) auto

lemma validate_identifier_Inl:
  "validate_identifier s = Inl e \<longleftrightarrow> \<not> is_ok (validate_identifier s) \<and> e = ErrInvalidValue"
  using validate_identifier_cases [of s] by auto

lemma rbind_validate_identifier:
  "rbind (validate_identifier s) f =
     (if is_ok (validate_identifier s) then f () else Inl ErrInvalidValue)"
  by (simp add: validate_identifier_def)

text \<open>No ASCII control character is in an identifier, the NUL byte least of all: joining
  identifiers with NUL is therefore injective.\<close>

lemma identifier_no_control:
  assumes "is_ok (validate_identifier s)" "c \<in> set s"
  shows "32 \<le> code c"
proof (rule ccontr)
  assume c: "\<not> 32 \<le> code c"
  then have "(code c, [c]) \<in> set (runes s)"
    using assms(2) by (intro runes_ascii) simp_all
  moreover have "rune_is_control (code c)"
    using c by (simp add: rune_is_control_def)
  ultimately have "any_rune rune_is_control s"
    by (force simp: any_rune_def list_ex_iff)
  then show False
    using assms(1) by (simp add: validate_identifier_ok)
qed

lemma identifier_no_NUL: "is_ok (validate_identifier s) \<Longrightarrow> NUL \<notin> set s"
  using identifier_no_control by fastforce

lemma rbind_validate_prose:
  "rbind (validate_prose s) f = (if is_ok (validate_prose s) then f () else Inl ErrInvalidValue)"
  by (simp add: validate_prose_def)

lemma prose_no_NUL:
  assumes "is_ok (validate_prose s)"
  shows "NUL \<notin> set s"
proof
  assume "NUL \<in> set s"
  then have "(code NUL, [NUL]) \<in> set (runes s)"
    by (intro runes_ascii) simp_all
  then have "any_rune (\<lambda>r. r \<noteq> 10 \<and> rune_is_control r) s"
    by (force simp: any_rune_def list_ex_iff rune_is_control_def)
  then show False
    using assms by (simp add: validate_prose_def split: if_splits)
qed

lemma identifier_ascii:
  assumes "s \<noteq> []" and "list_all (\<lambda>c. 33 \<le> code c \<and> code c < 127) s"
  shows "is_ok (validate_identifier s)"
proof -
  have a: "list_all (\<lambda>c. code c < 128) s"
    using assms(2) by (auto simp: list_all_iff)
  have "trim_space s = s"
    by (rule trim_space_all_ascii) (use assms(2) in \<open>auto simp: list_all_iff rune_is_space_def\<close>)
  moreover have "\<not> any_rune rune_is_control s"
    using assms(2)
    by (auto simp: any_rune_def list_ex_iff runes_all_ascii [OF a] rune_is_control_def list_all_iff)
  ultimately show ?thesis
    using assms(1) valid_utf8_ascii [OF a] by (simp add: validate_identifier_ok)
qed

text \<open>The equations that evaluate the validators on a concrete string.\<close>

lemmas eval_runes = valid_utf8_def decode_rune_def decode_multi_def decode_two_def decode_three_def
  decode_four_def continuation_def Let_def rune_error_def any_rune_def trim_space_def
  rune_is_space_def rune_is_control_def

lemmas eval_identifier = validate_identifier_def eval_runes

lemmas rbind_validators = rbind_validate_identifier rbind_validate_prose

subsection \<open>Dotted names: steps and attribute keys\<close>

definition dotted_char :: "char \<Rightarrow> bool" where
  "dotted_char c \<longleftrightarrow> is_lower c \<or> is_digit c \<or> c = CHR ''_''"

definition validate_dotted_name :: "string \<Rightarrow> domain_error + unit" where
  "validate_dotted_name s =
     (if s = [] then Inl ErrInvalidValue
      else if list_ex (\<lambda>seg. seg = [] \<or> \<not> list_all dotted_char seg) (split_on CHR ''.'' s)
      then Inl ErrInvalidValue
      else Inr ())"

definition new_step :: "string \<Rightarrow> domain_error + step_name" where
  "new_step s = rbind (validate_dotted_name s) (\<lambda>_. Inr s)"

definition step_valid :: "step_name \<Rightarrow> bool" where
  "step_valid s \<longleftrightarrow> is_ok (validate_dotted_name s)"

definition new_attribute_key :: "string \<Rightarrow> domain_error + attribute_key" where
  "new_attribute_key s = rbind (validate_dotted_name s) (\<lambda>_. Inr s)"

definition attribute_key_valid :: "attribute_key \<Rightarrow> bool" where
  "attribute_key_valid s \<longleftrightarrow> is_ok (validate_dotted_name s)"

lemma validate_dotted_name_ok:
  "is_ok (validate_dotted_name s) \<longleftrightarrow>
     s \<noteq> [] \<and> (\<forall>seg\<in>set (split_on CHR ''.'' s). seg \<noteq> [] \<and> list_all dotted_char seg)"
  by (auto simp: validate_dotted_name_def list_ex_iff)

lemma validate_dotted_name_Inl:
  "validate_dotted_name s = Inl e \<longleftrightarrow> \<not> is_ok (validate_dotted_name s) \<and> e = ErrInvalidValue"
  by (auto simp: validate_dotted_name_def)

lemma rbind_validate_dotted_name:
  "rbind (validate_dotted_name s) f =
     (if is_ok (validate_dotted_name s) then f () else Inl ErrInvalidValue)"
  by (simp add: validate_dotted_name_def)

lemma dotted_name_identifier:
  assumes "is_ok (validate_dotted_name s)"
  shows "is_ok (validate_identifier s)"
proof (rule identifier_ascii)
  show "s \<noteq> []"
    using assms by (simp add: validate_dotted_name_ok)
  have "set s \<subseteq> insert CHR ''.'' (\<Union>x\<in>set (split_on CHR ''.'' s). set x)"
    by (rule split_on_chars)
  then have "\<forall>c\<in>set s. c = CHR ''.'' \<or> dotted_char c"
    using assms by (fastforce simp: validate_dotted_name_ok list_all_iff)
  then show "list_all (\<lambda>c. 33 \<le> code c \<and> code c < 127) s"
    by (fastforce simp: list_all_iff dotted_char_def is_lower_def is_digit_def)
qed

lemmas eval_dotted = validate_dotted_name_def dotted_char_def is_lower_def is_digit_def

subsection \<open>Finding codes\<close>

definition code_char :: "char \<Rightarrow> bool" where
  "code_char c \<longleftrightarrow> is_upper c \<or> is_digit c"

definition validate_finding_code :: "string \<Rightarrow> domain_error + unit" where
  "validate_finding_code s =
     (case s of
        [] \<Rightarrow> Inl ErrInvalidValue
      | c # _ \<Rightarrow>
          if \<not> is_upper c then Inl ErrInvalidValue
          else (let segments = split_on CHR ''_'' s in
            if length segments < 2 then Inl ErrInvalidValue
            else if list_ex (\<lambda>seg. seg = [] \<or> \<not> list_all code_char seg) segments
            then Inl ErrInvalidValue
            else Inr ()))"

definition new_finding_code :: "string \<Rightarrow> domain_error + finding_code" where
  "new_finding_code s = rbind (validate_finding_code s) (\<lambda>_. Inr s)"

definition finding_code_valid :: "finding_code \<Rightarrow> bool" where
  "finding_code_valid c \<longleftrightarrow> is_ok (validate_finding_code c)"

definition finding_code_namespace :: "finding_code \<Rightarrow> string" where
  "finding_code_namespace c =
     (if \<not> finding_code_valid c then [] else (case cut_at CHR ''_'' c of (n, _, _) \<Rightarrow> n))"

lemma finding_code_ok:
  "finding_code_valid s \<longleftrightarrow>
     s \<noteq> [] \<and> is_upper (hd s) \<and> 2 \<le> length (split_on CHR ''_'' s)
     \<and> (\<forall>seg\<in>set (split_on CHR ''_'' s). seg \<noteq> [] \<and> list_all code_char seg)"
  by (cases s) (auto simp: finding_code_valid_def validate_finding_code_def Let_def list_ex_iff)

lemma finding_code_identifier:
  assumes "finding_code_valid s"
  shows "is_ok (validate_identifier s)"
proof (rule identifier_ascii)
  show "s \<noteq> []"
    using assms by (simp add: finding_code_ok)
  have "set s \<subseteq> insert CHR ''_'' (\<Union>x\<in>set (split_on CHR ''_'' s). set x)"
    by (rule split_on_chars)
  then have "\<forall>c\<in>set s. c = CHR ''_'' \<or> code_char c"
    using assms by (fastforce simp: finding_code_ok list_all_iff)
  then show "list_all (\<lambda>c. 33 \<le> code c \<and> code c < 127) s"
    by (fastforce simp: list_all_iff code_char_def is_upper_def is_digit_def)
qed

lemma split_on_hd_cut:
  "cut_at d s = (a, b, True) \<Longrightarrow> hd (split_on d s) = a \<and> tl (split_on d s) = split_on d b"
proof (induction s arbitrary: a)
  case Nil
  then show ?case by simp
next
  case (Cons c s)
  then show ?case
    by (cases "split_on d s") (auto split: if_splits prod.splits)
qed

lemma namespace_of_valid:
  assumes "finding_code_valid s"
  shows "\<exists>rest. s = finding_code_namespace s @ CHR ''_'' # rest
    \<and> finding_code_namespace s \<noteq> [] \<and> list_all code_char (finding_code_namespace s)"
proof -
  obtain a b f where cut: "cut_at CHR ''_'' s = (a, b, f)"
    by (metis prod_cases3)
  have "f"
  proof (rule ccontr)
    assume "\<not> f"
    then have "CHR ''_'' \<notin> set s"
      using cut cut_at_absent [of "CHR ''_''" s a b] by simp
    then show False
      using assms by (simp add: finding_code_ok split_on_no_sep)
  qed
  then have s: "s = a @ CHR ''_'' # b" and hd: "hd (split_on CHR ''_'' s) = a"
    using cut cut_at_found [of "CHR ''_''" s a b] split_on_hd_cut [of "CHR ''_''" s a b] by auto
  have "a \<in> set (split_on CHR ''_'' s)"
    using hd by (metis hd_in_set split_on_nonempty)
  then show ?thesis
    using assms s cut by (auto simp: finding_code_namespace_def finding_code_ok)
qed

subsection \<open>Service ids\<close>

definition new_service_id :: "string \<Rightarrow> domain_error + service_id" where
  "new_service_id s =
     (if s = [] then Inl ErrInvalidValue
      else if \<not> list_all dotted_char s then Inl ErrInvalidValue
      else Inr s)"

definition service_id_valid :: "service_id \<Rightarrow> bool" where
  "service_id_valid s \<longleftrightarrow> is_ok (new_service_id s)"

lemma service_id_ok: "service_id_valid s \<longleftrightarrow> s \<noteq> [] \<and> list_all dotted_char s"
  by (simp add: service_id_valid_def new_service_id_def)

end
