(* ===== verification/Enums.thy ===== *)
theory Enums
  imports Names
begin

text \<open>
  The enumerations of \<open>internal/domain\<close>. Each is a \<open>uint8\<close> with named constants; a value
  that is none of the constants is \<open>...Out n\<close>, which stands for the \<open>n\<close>-th number past the
  last constant, so that the model keeps the values the \<open>Valid\<close> methods are there to refuse.
  \<open>..._code\<close> is the number, \<open>..._valid\<close>, \<open>..._string\<close> and \<open>..._json\<close> the methods \<open>Valid\<close>,
  \<open>String\<close> and \<open>MarshalJSON\<close>. The types the code compares with \<open>cmp.Compare\<close> are linearly
  ordered by their number.
\<close>

text \<open>What a \<open>MarshalJSON\<close> method produces, before it is written as text.\<close>

datatype json =
    JNull
  | JBool bool
  | JNum int
  | JStr string
  | JArr "json list"
  | JObj "(string \<times> json) list"

text \<open>The contract the enumerations share.\<close>

locale go_enum =
  fixes enum_code :: "'a \<Rightarrow> nat" and first_code past_code :: nat
    and enum_valid :: "'a \<Rightarrow> bool"
  assumes code_inj: "enum_code x = enum_code y \<Longrightarrow> x = y"
    and valid_iff: "enum_valid x \<longleftrightarrow> first_code \<le> enum_code x \<and> enum_code x < past_code"
begin

lemma finite_valid: "finite {x. enum_valid x}"
proof (rule finite_imageD)
  show "finite (enum_code ` {x. enum_valid x})"
    by (rule finite_subset [of _ "{..<past_code}"]) (auto simp: valid_iff)
  show "inj_on enum_code {x. enum_valid x}"
    by (auto intro: inj_onI code_inj)
qed

end

locale json_enum = go_enum +
  fixes enum_string :: "'a \<Rightarrow> string" and enum_json :: "'a \<Rightarrow> domain_error + json"
  assumes json_eq:
    "enum_json x = (if enum_valid x then Inr (JStr (enum_string x)) else Inl ErrInvalidValue)"
begin

lemma json_ok: "is_ok (enum_json x) \<longleftrightarrow> enum_valid x"
  by (simp add: json_eq)

lemma json_string: "enum_json x = Inr j \<Longrightarrow> j = JStr (enum_string x)"
  by (simp add: json_eq split: if_splits)

end

subsection \<open>\<open>State\<close> (\<open>state.go\<close>)\<close>

datatype state =
    StateUnknown | StatePass | StateFail | StateDegraded | StateSkipped | StateOut nat

fun state_code :: "state \<Rightarrow> nat" where
  "state_code StateUnknown = 0"
| "state_code StatePass = 1"
| "state_code StateFail = 2"
| "state_code StateDegraded = 3"
| "state_code StateSkipped = 4"
| "state_code (StateOut n) = 5 + n"

definition state_valid :: "state \<Rightarrow> bool" where
  "state_valid x \<longleftrightarrow> state_code x < 5"

fun state_string :: "state \<Rightarrow> string" where
  "state_string StateUnknown = ''UNKNOWN''"
| "state_string StatePass = ''PASS''"
| "state_string StateFail = ''FAIL''"
| "state_string StateDegraded = ''DEGRADED''"
| "state_string StateSkipped = ''SKIPPED''"
| "state_string (StateOut n) = ''State('' @ show_nat (5 + n) @ '')''"

definition state_json :: "state \<Rightarrow> domain_error + json" where
  "state_json x = (if state_valid x then Inr (JStr (state_string x)) else Inl ErrInvalidValue)"

lemma state_code_inj: "state_code x = state_code y \<Longrightarrow> x = y"
  by (cases x; cases y) simp_all

interpretation state_enum: json_enum state_code 0 5 state_valid state_string state_json
  by unfold_locales (auto simp: state_valid_def state_json_def dest: state_code_inj)

subsection \<open>\<open>Layer\<close> (\<open>layer.go\<close>)\<close>

datatype layer =
    LayerUnspecified | LayerInput | LayerDNS | LayerTCP | LayerTLS | LayerProtocol | LayerAuth
  | LayerTopology | LayerOut nat

fun layer_code :: "layer \<Rightarrow> nat" where
  "layer_code LayerUnspecified = 0"
| "layer_code LayerInput = 1"
| "layer_code LayerDNS = 2"
| "layer_code LayerTCP = 3"
| "layer_code LayerTLS = 4"
| "layer_code LayerProtocol = 5"
| "layer_code LayerAuth = 6"
| "layer_code LayerTopology = 7"
| "layer_code (LayerOut n) = 8 + n"

definition layer_valid :: "layer \<Rightarrow> bool" where
  "layer_valid x \<longleftrightarrow> layer_code x \<noteq> 0 \<and> layer_code x < 8"

fun layer_string :: "layer \<Rightarrow> string" where
  "layer_string LayerUnspecified = ''UNSPECIFIED''"
| "layer_string LayerInput = ''L0''"
| "layer_string LayerDNS = ''L1''"
| "layer_string LayerTCP = ''L2''"
| "layer_string LayerTLS = ''L3''"
| "layer_string LayerProtocol = ''L4''"
| "layer_string LayerAuth = ''L5''"
| "layer_string LayerTopology = ''L6''"
| "layer_string (LayerOut n) = ''Layer('' @ show_nat (8 + n) @ '')''"

fun layer_label :: "layer \<Rightarrow> string" where
  "layer_label LayerUnspecified = ''unspecified''"
| "layer_label LayerInput = ''input''"
| "layer_label LayerDNS = ''dns''"
| "layer_label LayerTCP = ''tcp''"
| "layer_label LayerTLS = ''tls''"
| "layer_label LayerProtocol = ''protocol''"
| "layer_label LayerAuth = ''auth''"
| "layer_label LayerTopology = ''topology''"
| "layer_label (LayerOut n) = layer_string (LayerOut n)"

definition layer_json :: "layer \<Rightarrow> domain_error + json" where
  "layer_json x = (if layer_valid x then Inr (JStr (layer_string x)) else Inl ErrInvalidValue)"

lemma layer_code_inj: "layer_code x = layer_code y \<Longrightarrow> x = y"
  by (cases x; cases y) simp_all

interpretation layer_enum: json_enum layer_code 1 8 layer_valid layer_string layer_json
  by unfold_locales (auto simp: layer_valid_def layer_json_def dest: layer_code_inj)

instantiation layer :: linorder
begin

definition less_eq_layer :: "layer \<Rightarrow> layer \<Rightarrow> bool" where
  "less_eq_layer x y \<longleftrightarrow> layer_code x \<le> layer_code y"

definition less_layer :: "layer \<Rightarrow> layer \<Rightarrow> bool" where
  "less_layer x y \<longleftrightarrow> layer_code x < layer_code y"

instance
  by standard (auto simp: less_eq_layer_def less_layer_def dest: layer_code_inj)

end

subsection \<open>\<open>FailureClass\<close> (\<open>failureclass.go\<close>)\<close>

datatype failure_class =
    FailureNone | FailureDNSNXDomain | FailureDNSNoAddress | FailureDNSTimeout
  | FailureDNSResolverFailure | FailureTCPConnectionRefused | FailureTCPConnectionTimeout
  | FailureTCPConnectionReset | FailureTCPNetworkUnreachable | FailureTCPHostUnreachable
  | FailureTCPConnectionFailed | FailureTLSHandshakeFailure | FailureTLSCertificateExpired
  | FailureTLSCertificateNotYetValid | FailureTLSUnknownAuthority | FailureTLSHostnameMismatch
  | FailureTLSVersionMismatch | FailureTLSClientCertificateRequired
  | FailureTLSClientCertificateRejected | FailureTLSPeerNotTLS
  | FailureProtocolUnexpectedResponse | FailureProtocolUnsupportedVersion
  | FailureProtocolUnsupportedCapability | FailureProtocolMalformedResponse
  | FailureProtocolPeerClosed | FailureAuthMechanismUnsupported
  | FailureAuthMechanismNotOffered | FailureAuthCredentialsRejected
  | FailureAuthPeerVerificationFailed | FailureAuthzDenied | FailureAuthzScopeInsufficient
  | FailureAuthzNotPermitted | FailureResourceNotFound | FailureResourceLimitReached
  | FailureExecLocalTimeout | FailureExecCancelled | FailureExecUnsupportedBySvcdoctor
  | FailureExecInsufficientPrivilege | FailureExecRequiredInputMissing
  | FailureExecSkippedByPolicy | FailureExecSkippedPrerequisiteFailed | FailureExecDepthLimit
  | FailureClassOut nat

fun failure_class_code :: "failure_class \<Rightarrow> nat" where
  "failure_class_code FailureNone = 0"
| "failure_class_code FailureDNSNXDomain = 1"
| "failure_class_code FailureDNSNoAddress = 2"
| "failure_class_code FailureDNSTimeout = 3"
| "failure_class_code FailureDNSResolverFailure = 4"
| "failure_class_code FailureTCPConnectionRefused = 5"
| "failure_class_code FailureTCPConnectionTimeout = 6"
| "failure_class_code FailureTCPConnectionReset = 7"
| "failure_class_code FailureTCPNetworkUnreachable = 8"
| "failure_class_code FailureTCPHostUnreachable = 9"
| "failure_class_code FailureTCPConnectionFailed = 10"
| "failure_class_code FailureTLSHandshakeFailure = 11"
| "failure_class_code FailureTLSCertificateExpired = 12"
| "failure_class_code FailureTLSCertificateNotYetValid = 13"
| "failure_class_code FailureTLSUnknownAuthority = 14"
| "failure_class_code FailureTLSHostnameMismatch = 15"
| "failure_class_code FailureTLSVersionMismatch = 16"
| "failure_class_code FailureTLSClientCertificateRequired = 17"
| "failure_class_code FailureTLSClientCertificateRejected = 18"
| "failure_class_code FailureTLSPeerNotTLS = 19"
| "failure_class_code FailureProtocolUnexpectedResponse = 20"
| "failure_class_code FailureProtocolUnsupportedVersion = 21"
| "failure_class_code FailureProtocolUnsupportedCapability = 22"
| "failure_class_code FailureProtocolMalformedResponse = 23"
| "failure_class_code FailureProtocolPeerClosed = 24"
| "failure_class_code FailureAuthMechanismUnsupported = 25"
| "failure_class_code FailureAuthMechanismNotOffered = 26"
| "failure_class_code FailureAuthCredentialsRejected = 27"
| "failure_class_code FailureAuthPeerVerificationFailed = 28"
| "failure_class_code FailureAuthzDenied = 29"
| "failure_class_code FailureAuthzScopeInsufficient = 30"
| "failure_class_code FailureAuthzNotPermitted = 31"
| "failure_class_code FailureResourceNotFound = 32"
| "failure_class_code FailureResourceLimitReached = 33"
| "failure_class_code FailureExecLocalTimeout = 34"
| "failure_class_code FailureExecCancelled = 35"
| "failure_class_code FailureExecUnsupportedBySvcdoctor = 36"
| "failure_class_code FailureExecInsufficientPrivilege = 37"
| "failure_class_code FailureExecRequiredInputMissing = 38"
| "failure_class_code FailureExecSkippedByPolicy = 39"
| "failure_class_code FailureExecSkippedPrerequisiteFailed = 40"
| "failure_class_code FailureExecDepthLimit = 41"
| "failure_class_code (FailureClassOut n) = 42 + n"

definition failure_class_valid :: "failure_class \<Rightarrow> bool" where
  "failure_class_valid x \<longleftrightarrow> failure_class_code x < 42"

fun failure_class_string :: "failure_class \<Rightarrow> string" where
  "failure_class_string FailureNone = ''NONE''"
| "failure_class_string FailureDNSNXDomain = ''DNS_NXDOMAIN''"
| "failure_class_string FailureDNSNoAddress = ''DNS_NO_ADDRESS''"
| "failure_class_string FailureDNSTimeout = ''DNS_TIMEOUT''"
| "failure_class_string FailureDNSResolverFailure = ''DNS_RESOLVER_FAILURE''"
| "failure_class_string FailureTCPConnectionRefused = ''TCP_CONNECTION_REFUSED''"
| "failure_class_string FailureTCPConnectionTimeout = ''TCP_CONNECTION_TIMEOUT''"
| "failure_class_string FailureTCPConnectionReset = ''TCP_CONNECTION_RESET''"
| "failure_class_string FailureTCPNetworkUnreachable = ''TCP_NETWORK_UNREACHABLE''"
| "failure_class_string FailureTCPHostUnreachable = ''TCP_HOST_UNREACHABLE''"
| "failure_class_string FailureTCPConnectionFailed = ''TCP_CONNECTION_FAILED''"
| "failure_class_string FailureTLSHandshakeFailure = ''TLS_HANDSHAKE_FAILURE''"
| "failure_class_string FailureTLSCertificateExpired = ''TLS_CERTIFICATE_EXPIRED''"
| "failure_class_string FailureTLSCertificateNotYetValid = ''TLS_CERTIFICATE_NOT_YET_VALID''"
| "failure_class_string FailureTLSUnknownAuthority = ''TLS_UNKNOWN_AUTHORITY''"
| "failure_class_string FailureTLSHostnameMismatch = ''TLS_HOSTNAME_MISMATCH''"
| "failure_class_string FailureTLSVersionMismatch = ''TLS_VERSION_MISMATCH''"
| "failure_class_string FailureTLSClientCertificateRequired = ''TLS_CLIENT_CERTIFICATE_REQUIRED''"
| "failure_class_string FailureTLSClientCertificateRejected = ''TLS_CLIENT_CERTIFICATE_REJECTED''"
| "failure_class_string FailureTLSPeerNotTLS = ''TLS_PEER_NOT_TLS''"
| "failure_class_string FailureProtocolUnexpectedResponse = ''PROTOCOL_UNEXPECTED_RESPONSE''"
| "failure_class_string FailureProtocolUnsupportedVersion = ''PROTOCOL_UNSUPPORTED_VERSION''"
| "failure_class_string FailureProtocolUnsupportedCapability = ''PROTOCOL_UNSUPPORTED_CAPABILITY''"
| "failure_class_string FailureProtocolMalformedResponse = ''PROTOCOL_MALFORMED_RESPONSE''"
| "failure_class_string FailureProtocolPeerClosed = ''PROTOCOL_PEER_CLOSED''"
| "failure_class_string FailureAuthMechanismUnsupported = ''AUTH_MECHANISM_UNSUPPORTED''"
| "failure_class_string FailureAuthMechanismNotOffered = ''AUTH_MECHANISM_NOT_OFFERED''"
| "failure_class_string FailureAuthCredentialsRejected = ''AUTH_CREDENTIALS_REJECTED''"
| "failure_class_string FailureAuthPeerVerificationFailed = ''AUTH_PEER_VERIFICATION_FAILED''"
| "failure_class_string FailureAuthzDenied = ''AUTHZ_DENIED''"
| "failure_class_string FailureAuthzScopeInsufficient = ''AUTHZ_SCOPE_INSUFFICIENT''"
| "failure_class_string FailureAuthzNotPermitted = ''AUTHZ_NOT_PERMITTED''"
| "failure_class_string FailureResourceNotFound = ''RESOURCE_NOT_FOUND''"
| "failure_class_string FailureResourceLimitReached = ''RESOURCE_LIMIT_REACHED''"
| "failure_class_string FailureExecLocalTimeout = ''EXEC_LOCAL_TIMEOUT''"
| "failure_class_string FailureExecCancelled = ''EXEC_CANCELLED''"
| "failure_class_string FailureExecUnsupportedBySvcdoctor = ''EXEC_UNSUPPORTED_BY_SVCDOCTOR''"
| "failure_class_string FailureExecInsufficientPrivilege = ''EXEC_INSUFFICIENT_PRIVILEGE''"
| "failure_class_string FailureExecRequiredInputMissing = ''EXEC_REQUIRED_INPUT_MISSING''"
| "failure_class_string FailureExecSkippedByPolicy = ''EXEC_SKIPPED_BY_POLICY''"
| "failure_class_string FailureExecSkippedPrerequisiteFailed = ''EXEC_SKIPPED_PREREQUISITE_FAILED''"
| "failure_class_string FailureExecDepthLimit = ''EXEC_DEPTH_LIMIT''"
| "failure_class_string (FailureClassOut n) = ''FailureClass('' @ show_nat (42 + n) @ '')''"

definition failure_class_json :: "failure_class \<Rightarrow> domain_error + json" where
  "failure_class_json x = (if failure_class_valid x then Inr (JStr (failure_class_string x)) else Inl ErrInvalidValue)"

lemma failure_class_code_inj: "failure_class_code x = failure_class_code y \<Longrightarrow> x = y"
  by (cases x; cases y) simp_all

interpretation failure_class_enum: json_enum failure_class_code 0 42 failure_class_valid failure_class_string failure_class_json
  by unfold_locales (auto simp: failure_class_valid_def failure_class_json_def dest: failure_class_code_inj)

subsection \<open>\<open>SubjectKind\<close> (\<open>subject.go\<close>)\<close>

datatype subject_kind =
    SubjectKindUnspecified | SubjectKindTarget | SubjectKindEndpoint | SubjectKindOut nat

fun subject_kind_code :: "subject_kind \<Rightarrow> nat" where
  "subject_kind_code SubjectKindUnspecified = 0"
| "subject_kind_code SubjectKindTarget = 1"
| "subject_kind_code SubjectKindEndpoint = 2"
| "subject_kind_code (SubjectKindOut n) = 3 + n"

definition subject_kind_valid :: "subject_kind \<Rightarrow> bool" where
  "subject_kind_valid x \<longleftrightarrow> subject_kind_code x \<noteq> 0 \<and> subject_kind_code x < 3"

fun subject_kind_string :: "subject_kind \<Rightarrow> string" where
  "subject_kind_string SubjectKindUnspecified = ''UNSPECIFIED''"
| "subject_kind_string SubjectKindTarget = ''TARGET''"
| "subject_kind_string SubjectKindEndpoint = ''ENDPOINT''"
| "subject_kind_string (SubjectKindOut n) = ''SubjectKind('' @ show_nat (3 + n) @ '')''"

definition subject_kind_json :: "subject_kind \<Rightarrow> domain_error + json" where
  "subject_kind_json x = (if subject_kind_valid x then Inr (JStr (subject_kind_string x)) else Inl ErrInvalidValue)"

lemma subject_kind_code_inj: "subject_kind_code x = subject_kind_code y \<Longrightarrow> x = y"
  by (cases x; cases y) simp_all

interpretation subject_kind_enum: json_enum subject_kind_code 1 3 subject_kind_valid subject_kind_string subject_kind_json
  by unfold_locales (auto simp: subject_kind_valid_def subject_kind_json_def dest: subject_kind_code_inj)

instantiation subject_kind :: linorder
begin

definition less_eq_subject_kind :: "subject_kind \<Rightarrow> subject_kind \<Rightarrow> bool" where
  "less_eq_subject_kind x y \<longleftrightarrow> subject_kind_code x \<le> subject_kind_code y"

definition less_subject_kind :: "subject_kind \<Rightarrow> subject_kind \<Rightarrow> bool" where
  "less_subject_kind x y \<longleftrightarrow> subject_kind_code x < subject_kind_code y"

instance
  by standard (auto simp: less_eq_subject_kind_def less_subject_kind_def dest: subject_kind_code_inj)

end

subsection \<open>\<open>AttrKind\<close> (\<open>attribute.go\<close>)\<close>

datatype attr_kind =
    AttrKindInvalid | AttrKindString | AttrKindInt | AttrKindBool | AttrKindDuration
  | AttrKindTime | AttrKindStringList | AttrKindHost | AttrKindHostList | AttrKindIdentity
  | AttrKindOut nat

fun attr_kind_code :: "attr_kind \<Rightarrow> nat" where
  "attr_kind_code AttrKindInvalid = 0"
| "attr_kind_code AttrKindString = 1"
| "attr_kind_code AttrKindInt = 2"
| "attr_kind_code AttrKindBool = 3"
| "attr_kind_code AttrKindDuration = 4"
| "attr_kind_code AttrKindTime = 5"
| "attr_kind_code AttrKindStringList = 6"
| "attr_kind_code AttrKindHost = 7"
| "attr_kind_code AttrKindHostList = 8"
| "attr_kind_code AttrKindIdentity = 9"
| "attr_kind_code (AttrKindOut n) = 10 + n"

definition attr_kind_valid :: "attr_kind \<Rightarrow> bool" where
  "attr_kind_valid x \<longleftrightarrow> attr_kind_code x \<noteq> 0 \<and> attr_kind_code x < 10"

fun attr_kind_string :: "attr_kind \<Rightarrow> string" where
  "attr_kind_string AttrKindInvalid = ''invalid''"
| "attr_kind_string AttrKindString = ''string''"
| "attr_kind_string AttrKindInt = ''int''"
| "attr_kind_string AttrKindBool = ''bool''"
| "attr_kind_string AttrKindDuration = ''duration''"
| "attr_kind_string AttrKindTime = ''time''"
| "attr_kind_string AttrKindStringList = ''stringList''"
| "attr_kind_string AttrKindHost = ''host''"
| "attr_kind_string AttrKindHostList = ''hostList''"
| "attr_kind_string AttrKindIdentity = ''identity''"
| "attr_kind_string (AttrKindOut n) = ''AttrKind('' @ show_nat (10 + n) @ '')''"

lemma attr_kind_code_inj: "attr_kind_code x = attr_kind_code y \<Longrightarrow> x = y"
  by (cases x; cases y) simp_all

interpretation attr_kind_enum: go_enum attr_kind_code 1 10 attr_kind_valid
  by unfold_locales (auto simp: attr_kind_valid_def dest: attr_kind_code_inj)

subsection \<open>\<open>FindingKind\<close> (\<open>findingkind.go\<close>)\<close>

datatype finding_kind =
    FindingKindUnspecified | FindingKindConfirmed | FindingKindHypothesis | FindingKindOut nat

fun finding_kind_code :: "finding_kind \<Rightarrow> nat" where
  "finding_kind_code FindingKindUnspecified = 0"
| "finding_kind_code FindingKindConfirmed = 1"
| "finding_kind_code FindingKindHypothesis = 2"
| "finding_kind_code (FindingKindOut n) = 3 + n"

definition finding_kind_valid :: "finding_kind \<Rightarrow> bool" where
  "finding_kind_valid x \<longleftrightarrow> finding_kind_code x \<noteq> 0 \<and> finding_kind_code x < 3"

fun finding_kind_string :: "finding_kind \<Rightarrow> string" where
  "finding_kind_string FindingKindUnspecified = ''UNSPECIFIED''"
| "finding_kind_string FindingKindConfirmed = ''CONFIRMED''"
| "finding_kind_string FindingKindHypothesis = ''HYPOTHESIS''"
| "finding_kind_string (FindingKindOut n) = ''FindingKind('' @ show_nat (3 + n) @ '')''"

definition finding_kind_json :: "finding_kind \<Rightarrow> domain_error + json" where
  "finding_kind_json x = (if finding_kind_valid x then Inr (JStr (finding_kind_string x)) else Inl ErrInvalidValue)"

lemma finding_kind_code_inj: "finding_kind_code x = finding_kind_code y \<Longrightarrow> x = y"
  by (cases x; cases y) simp_all

interpretation finding_kind_enum: json_enum finding_kind_code 1 3 finding_kind_valid finding_kind_string finding_kind_json
  by unfold_locales (auto simp: finding_kind_valid_def finding_kind_json_def dest: finding_kind_code_inj)

instantiation finding_kind :: linorder
begin

definition less_eq_finding_kind :: "finding_kind \<Rightarrow> finding_kind \<Rightarrow> bool" where
  "less_eq_finding_kind x y \<longleftrightarrow> finding_kind_code x \<le> finding_kind_code y"

definition less_finding_kind :: "finding_kind \<Rightarrow> finding_kind \<Rightarrow> bool" where
  "less_finding_kind x y \<longleftrightarrow> finding_kind_code x < finding_kind_code y"

instance
  by standard (auto simp: less_eq_finding_kind_def less_finding_kind_def dest: finding_kind_code_inj)

end

subsection \<open>\<open>Severity\<close> (\<open>severity.go\<close>)\<close>

datatype severity =
    SeverityUnspecified | SeverityInfo | SeverityWarn | SeverityError | SeverityCritical
  | SeverityOut nat

fun severity_code :: "severity \<Rightarrow> nat" where
  "severity_code SeverityUnspecified = 0"
| "severity_code SeverityInfo = 1"
| "severity_code SeverityWarn = 2"
| "severity_code SeverityError = 3"
| "severity_code SeverityCritical = 4"
| "severity_code (SeverityOut n) = 5 + n"

definition severity_valid :: "severity \<Rightarrow> bool" where
  "severity_valid x \<longleftrightarrow> severity_code x \<noteq> 0 \<and> severity_code x < 5"

fun severity_string :: "severity \<Rightarrow> string" where
  "severity_string SeverityUnspecified = ''UNSPECIFIED''"
| "severity_string SeverityInfo = ''INFO''"
| "severity_string SeverityWarn = ''WARN''"
| "severity_string SeverityError = ''ERROR''"
| "severity_string SeverityCritical = ''CRITICAL''"
| "severity_string (SeverityOut n) = ''Severity('' @ show_nat (5 + n) @ '')''"

definition severity_json :: "severity \<Rightarrow> domain_error + json" where
  "severity_json x = (if severity_valid x then Inr (JStr (severity_string x)) else Inl ErrInvalidValue)"

lemma severity_code_inj: "severity_code x = severity_code y \<Longrightarrow> x = y"
  by (cases x; cases y) simp_all

interpretation severity_enum: json_enum severity_code 1 5 severity_valid severity_string severity_json
  by unfold_locales (auto simp: severity_valid_def severity_json_def dest: severity_code_inj)

instantiation severity :: linorder
begin

definition less_eq_severity :: "severity \<Rightarrow> severity \<Rightarrow> bool" where
  "less_eq_severity x y \<longleftrightarrow> severity_code x \<le> severity_code y"

definition less_severity :: "severity \<Rightarrow> severity \<Rightarrow> bool" where
  "less_severity x y \<longleftrightarrow> severity_code x < severity_code y"

instance
  by standard (auto simp: less_eq_severity_def less_severity_def dest: severity_code_inj)

end

subsection \<open>\<open>Confidence\<close> (\<open>confidence.go\<close>)\<close>

datatype confidence =
    ConfidenceUnspecified | ConfidenceLow | ConfidenceMedium | ConfidenceHigh
  | ConfidenceOut nat

fun confidence_code :: "confidence \<Rightarrow> nat" where
  "confidence_code ConfidenceUnspecified = 0"
| "confidence_code ConfidenceLow = 1"
| "confidence_code ConfidenceMedium = 2"
| "confidence_code ConfidenceHigh = 3"
| "confidence_code (ConfidenceOut n) = 4 + n"

definition confidence_valid :: "confidence \<Rightarrow> bool" where
  "confidence_valid x \<longleftrightarrow> confidence_code x \<noteq> 0 \<and> confidence_code x < 4"

fun confidence_string :: "confidence \<Rightarrow> string" where
  "confidence_string ConfidenceUnspecified = ''UNSPECIFIED''"
| "confidence_string ConfidenceLow = ''LOW''"
| "confidence_string ConfidenceMedium = ''MEDIUM''"
| "confidence_string ConfidenceHigh = ''HIGH''"
| "confidence_string (ConfidenceOut n) = ''Confidence('' @ show_nat (4 + n) @ '')''"

definition confidence_json :: "confidence \<Rightarrow> domain_error + json" where
  "confidence_json x = (if confidence_valid x then Inr (JStr (confidence_string x)) else Inl ErrInvalidValue)"

lemma confidence_code_inj: "confidence_code x = confidence_code y \<Longrightarrow> x = y"
  by (cases x; cases y) simp_all

interpretation confidence_enum: json_enum confidence_code 1 4 confidence_valid confidence_string confidence_json
  by unfold_locales (auto simp: confidence_valid_def confidence_json_def dest: confidence_code_inj)

instantiation confidence :: linorder
begin

definition less_eq_confidence :: "confidence \<Rightarrow> confidence \<Rightarrow> bool" where
  "less_eq_confidence x y \<longleftrightarrow> confidence_code x \<le> confidence_code y"

definition less_confidence :: "confidence \<Rightarrow> confidence \<Rightarrow> bool" where
  "less_confidence x y \<longleftrightarrow> confidence_code x < confidence_code y"

instance
  by standard (auto simp: less_eq_confidence_def less_confidence_def dest: confidence_code_inj)

end

subsection \<open>\<open>RecommendationKind\<close> (\<open>recommendationkind.go\<close>)\<close>

datatype recommendation_kind =
    RecommendationKindUnspecified | RecommendationKindNextEvidence
  | RecommendationKindRemediation | RecommendationKindOut nat

fun recommendation_kind_code :: "recommendation_kind \<Rightarrow> nat" where
  "recommendation_kind_code RecommendationKindUnspecified = 0"
| "recommendation_kind_code RecommendationKindNextEvidence = 1"
| "recommendation_kind_code RecommendationKindRemediation = 2"
| "recommendation_kind_code (RecommendationKindOut n) = 3 + n"

definition recommendation_kind_valid :: "recommendation_kind \<Rightarrow> bool" where
  "recommendation_kind_valid x \<longleftrightarrow> recommendation_kind_code x \<noteq> 0 \<and> recommendation_kind_code x < 3"

fun recommendation_kind_string :: "recommendation_kind \<Rightarrow> string" where
  "recommendation_kind_string RecommendationKindUnspecified = ''UNSPECIFIED''"
| "recommendation_kind_string RecommendationKindNextEvidence = ''NEXT_EVIDENCE''"
| "recommendation_kind_string RecommendationKindRemediation = ''REMEDIATION''"
| "recommendation_kind_string (RecommendationKindOut n) = ''RecommendationKind('' @ show_nat (3 + n) @ '')''"

definition recommendation_kind_json :: "recommendation_kind \<Rightarrow> domain_error + json" where
  "recommendation_kind_json x = (if recommendation_kind_valid x then Inr (JStr (recommendation_kind_string x)) else Inl ErrInvalidValue)"

lemma recommendation_kind_code_inj: "recommendation_kind_code x = recommendation_kind_code y \<Longrightarrow> x = y"
  by (cases x; cases y) simp_all

interpretation recommendation_kind_enum: json_enum recommendation_kind_code 1 3 recommendation_kind_valid recommendation_kind_string recommendation_kind_json
  by unfold_locales (auto simp: recommendation_kind_valid_def recommendation_kind_json_def dest: recommendation_kind_code_inj)

subsection \<open>\<open>SafetyClass\<close> (\<open>recommendationkind.go\<close>)\<close>

datatype safety_class =
    SafetyUnspecified | SafetyObserve | SafetyVerify | SafetyCompare | SafetyConfigChange
  | SafetyRestart | SafetyDisruptive | SafetySecurityWeakening | SafetyClassOut nat

fun safety_class_code :: "safety_class \<Rightarrow> nat" where
  "safety_class_code SafetyUnspecified = 0"
| "safety_class_code SafetyObserve = 1"
| "safety_class_code SafetyVerify = 2"
| "safety_class_code SafetyCompare = 3"
| "safety_class_code SafetyConfigChange = 4"
| "safety_class_code SafetyRestart = 5"
| "safety_class_code SafetyDisruptive = 6"
| "safety_class_code SafetySecurityWeakening = 7"
| "safety_class_code (SafetyClassOut n) = 8 + n"

definition safety_class_valid :: "safety_class \<Rightarrow> bool" where
  "safety_class_valid x \<longleftrightarrow> safety_class_code x \<noteq> 0 \<and> safety_class_code x < 8"

fun safety_class_string :: "safety_class \<Rightarrow> string" where
  "safety_class_string SafetyUnspecified = ''UNSPECIFIED''"
| "safety_class_string SafetyObserve = ''OBSERVE''"
| "safety_class_string SafetyVerify = ''VERIFY''"
| "safety_class_string SafetyCompare = ''COMPARE''"
| "safety_class_string SafetyConfigChange = ''CONFIG_CHANGE''"
| "safety_class_string SafetyRestart = ''RESTART''"
| "safety_class_string SafetyDisruptive = ''DISRUPTIVE''"
| "safety_class_string SafetySecurityWeakening = ''SECURITY_WEAKENING''"
| "safety_class_string (SafetyClassOut n) = ''SafetyClass('' @ show_nat (8 + n) @ '')''"

definition safety_class_json :: "safety_class \<Rightarrow> domain_error + json" where
  "safety_class_json x = (if safety_class_valid x then Inr (JStr (safety_class_string x)) else Inl ErrInvalidValue)"

lemma safety_class_code_inj: "safety_class_code x = safety_class_code y \<Longrightarrow> x = y"
  by (cases x; cases y) simp_all

interpretation safety_class_enum: json_enum safety_class_code 1 8 safety_class_valid safety_class_string safety_class_json
  by unfold_locales (auto simp: safety_class_valid_def safety_class_json_def dest: safety_class_code_inj)

subsection \<open>\<open>SummaryStatus\<close> (\<open>summary.go\<close>)\<close>

datatype summary_status =
    SummaryStatusUnspecified | SummaryStatusOK | SummaryStatusProblemsFound
  | SummaryStatusOut nat

fun summary_status_code :: "summary_status \<Rightarrow> nat" where
  "summary_status_code SummaryStatusUnspecified = 0"
| "summary_status_code SummaryStatusOK = 1"
| "summary_status_code SummaryStatusProblemsFound = 2"
| "summary_status_code (SummaryStatusOut n) = 3 + n"

definition summary_status_valid :: "summary_status \<Rightarrow> bool" where
  "summary_status_valid x \<longleftrightarrow> summary_status_code x \<noteq> 0 \<and> summary_status_code x < 3"

fun summary_status_string :: "summary_status \<Rightarrow> string" where
  "summary_status_string SummaryStatusUnspecified = ''UNSPECIFIED''"
| "summary_status_string SummaryStatusOK = ''OK''"
| "summary_status_string SummaryStatusProblemsFound = ''PROBLEMS_FOUND''"
| "summary_status_string (SummaryStatusOut n) = ''SummaryStatus('' @ show_nat (3 + n) @ '')''"

definition summary_status_json :: "summary_status \<Rightarrow> domain_error + json" where
  "summary_status_json x = (if summary_status_valid x then Inr (JStr (summary_status_string x)) else Inl ErrInvalidValue)"

lemma summary_status_code_inj: "summary_status_code x = summary_status_code y \<Longrightarrow> x = y"
  by (cases x; cases y) simp_all

interpretation summary_status_enum: json_enum summary_status_code 1 3 summary_status_valid summary_status_string summary_status_json
  by unfold_locales (auto simp: summary_status_valid_def summary_status_json_def dest: summary_status_code_inj)

subsection \<open>\<open>OutputMode\<close> (\<open>reportsecurity.go\<close>)\<close>

datatype output_mode =
    OutputModeUnspecified | OutputModeLocalFull | OutputModeShareableRedacted
  | OutputModeOut nat

fun output_mode_code :: "output_mode \<Rightarrow> nat" where
  "output_mode_code OutputModeUnspecified = 0"
| "output_mode_code OutputModeLocalFull = 1"
| "output_mode_code OutputModeShareableRedacted = 2"
| "output_mode_code (OutputModeOut n) = 3 + n"

definition output_mode_valid :: "output_mode \<Rightarrow> bool" where
  "output_mode_valid x \<longleftrightarrow> output_mode_code x \<noteq> 0 \<and> output_mode_code x < 3"

fun output_mode_string :: "output_mode \<Rightarrow> string" where
  "output_mode_string OutputModeUnspecified = ''UNSPECIFIED''"
| "output_mode_string OutputModeLocalFull = ''LOCAL_FULL''"
| "output_mode_string OutputModeShareableRedacted = ''SHAREABLE_REDACTED''"
| "output_mode_string (OutputModeOut n) = ''OutputMode('' @ show_nat (3 + n) @ '')''"

definition output_mode_json :: "output_mode \<Rightarrow> domain_error + json" where
  "output_mode_json x = (if output_mode_valid x then Inr (JStr (output_mode_string x)) else Inl ErrInvalidValue)"

lemma output_mode_code_inj: "output_mode_code x = output_mode_code y \<Longrightarrow> x = y"
  by (cases x; cases y) simp_all

interpretation output_mode_enum: json_enum output_mode_code 1 3 output_mode_valid output_mode_string output_mode_json
  by unfold_locales (auto simp: output_mode_valid_def output_mode_json_def dest: output_mode_code_inj)

subsection \<open>\<open>VantageSource\<close> (\<open>vantage.go\<close>)\<close>

datatype vantage_source =
    VantageSourceUnspecified | VantageSourceLocalHost | VantageSourceOut nat

fun vantage_source_code :: "vantage_source \<Rightarrow> nat" where
  "vantage_source_code VantageSourceUnspecified = 0"
| "vantage_source_code VantageSourceLocalHost = 1"
| "vantage_source_code (VantageSourceOut n) = 2 + n"

definition vantage_source_valid :: "vantage_source \<Rightarrow> bool" where
  "vantage_source_valid x \<longleftrightarrow> vantage_source_code x \<noteq> 0 \<and> vantage_source_code x < 2"

fun vantage_source_string :: "vantage_source \<Rightarrow> string" where
  "vantage_source_string VantageSourceUnspecified = ''UNSPECIFIED''"
| "vantage_source_string VantageSourceLocalHost = ''LOCAL_HOST''"
| "vantage_source_string (VantageSourceOut n) = ''VantageSource('' @ show_nat (2 + n) @ '')''"

definition vantage_source_json :: "vantage_source \<Rightarrow> domain_error + json" where
  "vantage_source_json x = (if vantage_source_valid x then Inr (JStr (vantage_source_string x)) else Inl ErrInvalidValue)"

lemma vantage_source_code_inj: "vantage_source_code x = vantage_source_code y \<Longrightarrow> x = y"
  by (cases x; cases y) simp_all

interpretation vantage_source_enum: json_enum vantage_source_code 1 2 vantage_source_valid vantage_source_string vantage_source_json
  by unfold_locales (auto simp: vantage_source_valid_def vantage_source_json_def dest: vantage_source_code_inj)

subsection \<open>\<open>ExecutionState\<close> (\<open>executionstate.go\<close>)\<close>

datatype execution_state =
    ExecutionStateUnspecified | ExecutionStateCompleted | ExecutionStateNotStarted
  | ExecutionStateCancelled | ExecutionStateExecutionFailed | ExecutionStateOut nat

fun execution_state_code :: "execution_state \<Rightarrow> nat" where
  "execution_state_code ExecutionStateUnspecified = 0"
| "execution_state_code ExecutionStateCompleted = 1"
| "execution_state_code ExecutionStateNotStarted = 2"
| "execution_state_code ExecutionStateCancelled = 3"
| "execution_state_code ExecutionStateExecutionFailed = 4"
| "execution_state_code (ExecutionStateOut n) = 5 + n"

definition execution_state_valid :: "execution_state \<Rightarrow> bool" where
  "execution_state_valid x \<longleftrightarrow> execution_state_code x \<noteq> 0 \<and> execution_state_code x < 5"

fun execution_state_string :: "execution_state \<Rightarrow> string" where
  "execution_state_string ExecutionStateUnspecified = ''UNSPECIFIED''"
| "execution_state_string ExecutionStateCompleted = ''COMPLETED''"
| "execution_state_string ExecutionStateNotStarted = ''NOT_STARTED''"
| "execution_state_string ExecutionStateCancelled = ''CANCELLED''"
| "execution_state_string ExecutionStateExecutionFailed = ''EXECUTION_FAILED''"
| "execution_state_string (ExecutionStateOut n) = ''ExecutionState('' @ show_nat (5 + n) @ '')''"

definition execution_state_json :: "execution_state \<Rightarrow> domain_error + json" where
  "execution_state_json x = (if execution_state_valid x then Inr (JStr (execution_state_string x)) else Inl ErrInvalidValue)"

lemma execution_state_code_inj: "execution_state_code x = execution_state_code y \<Longrightarrow> x = y"
  by (cases x; cases y) simp_all

interpretation execution_state_enum: json_enum execution_state_code 1 5 execution_state_valid execution_state_string execution_state_json
  by unfold_locales (auto simp: execution_state_valid_def execution_state_json_def dest: execution_state_code_inj)

subsection \<open>\<open>ExecutionErrorClass\<close> (\<open>executionstate.go\<close>)\<close>

datatype execution_error_class =
    ExecutionErrorUnspecified | ExecutionErrorCredentialResolution | ExecutionErrorInternal
  | ExecutionErrorClassOut nat

fun execution_error_class_code :: "execution_error_class \<Rightarrow> nat" where
  "execution_error_class_code ExecutionErrorUnspecified = 0"
| "execution_error_class_code ExecutionErrorCredentialResolution = 1"
| "execution_error_class_code ExecutionErrorInternal = 2"
| "execution_error_class_code (ExecutionErrorClassOut n) = 3 + n"

definition execution_error_class_valid :: "execution_error_class \<Rightarrow> bool" where
  "execution_error_class_valid x \<longleftrightarrow> execution_error_class_code x \<noteq> 0 \<and> execution_error_class_code x < 3"

fun execution_error_class_string :: "execution_error_class \<Rightarrow> string" where
  "execution_error_class_string ExecutionErrorUnspecified = ''UNSPECIFIED''"
| "execution_error_class_string ExecutionErrorCredentialResolution = ''CREDENTIAL_RESOLUTION''"
| "execution_error_class_string ExecutionErrorInternal = ''INTERNAL''"
| "execution_error_class_string (ExecutionErrorClassOut n) = ''ExecutionErrorClass('' @ show_nat (3 + n) @ '')''"

definition execution_error_class_json :: "execution_error_class \<Rightarrow> domain_error + json" where
  "execution_error_class_json x = (if execution_error_class_valid x then Inr (JStr (execution_error_class_string x)) else Inl ErrInvalidValue)"

lemma execution_error_class_code_inj: "execution_error_class_code x = execution_error_class_code y \<Longrightarrow> x = y"
  by (cases x; cases y) simp_all

interpretation execution_error_class_enum: json_enum execution_error_class_code 1 3 execution_error_class_valid execution_error_class_string execution_error_class_json
  by unfold_locales (auto simp: execution_error_class_valid_def execution_error_class_json_def dest: execution_error_class_code_inj)

subsection \<open>\<open>StoppedReason\<close> (\<open>executionstate.go\<close>)\<close>

datatype stopped_reason =
    StoppedReasonNone | StoppedReasonRunBudgetExhausted | StoppedReasonCancelled
  | StoppedReasonOut nat

fun stopped_reason_code :: "stopped_reason \<Rightarrow> nat" where
  "stopped_reason_code StoppedReasonNone = 0"
| "stopped_reason_code StoppedReasonRunBudgetExhausted = 1"
| "stopped_reason_code StoppedReasonCancelled = 2"
| "stopped_reason_code (StoppedReasonOut n) = 3 + n"

definition stopped_reason_valid :: "stopped_reason \<Rightarrow> bool" where
  "stopped_reason_valid x \<longleftrightarrow> stopped_reason_code x < 3"

fun stopped_reason_string :: "stopped_reason \<Rightarrow> string" where
  "stopped_reason_string StoppedReasonNone = ''NONE''"
| "stopped_reason_string StoppedReasonRunBudgetExhausted = ''RUN_BUDGET_EXHAUSTED''"
| "stopped_reason_string StoppedReasonCancelled = ''CANCELLED''"
| "stopped_reason_string (StoppedReasonOut n) = ''StoppedReason('' @ show_nat (3 + n) @ '')''"

definition stopped_reason_json :: "stopped_reason \<Rightarrow> domain_error + json" where
  "stopped_reason_json x = (if stopped_reason_valid x then Inr (JStr (stopped_reason_string x)) else Inl ErrInvalidValue)"

lemma stopped_reason_code_inj: "stopped_reason_code x = stopped_reason_code y \<Longrightarrow> x = y"
  by (cases x; cases y) simp_all

interpretation stopped_reason_enum: json_enum stopped_reason_code 0 3 stopped_reason_valid stopped_reason_string stopped_reason_json
  by unfold_locales (auto simp: stopped_reason_valid_def stopped_reason_json_def dest: stopped_reason_code_inj)

end
