(* ===== verification/Evidence.thy ===== *)
theory Evidence
  imports Enums
begin

text \<open>
  Package \<open>internal/domain\<close>: subjects (\<open>subject.go\<close>), typed attribute values
  (\<open>attribute.go\<close>), elapsed time (\<open>elapsed.go\<close>) and evidence (\<open>evidence.go\<close>).

  A \<open>time.Time\<close> is its instant, in nanoseconds after the zero time, so \<open>IsZero\<close> is \<open>t = 0\<close>
  and \<open>UTC\<close> changes nothing. Attributes, a Go map, are an association list.
\<close>

type_synonym go_time = int
type_synonym go_duration = int

subsection \<open>Subjects\<close>

record subject =
  subj_kind :: subject_kind
  subj_ref :: string

definition zero_subject :: subject where
  "zero_subject = \<lparr>subj_kind = SubjectKindUnspecified, subj_ref = []\<rparr>"

definition new_subject :: "subject_kind \<Rightarrow> string \<Rightarrow> domain_error + subject" where
  "new_subject k ref =
     rbind (validate_identifier ref) (\<lambda>_. Inr \<lparr>subj_kind = k, subj_ref = ref\<rparr>)"

definition new_target_subject :: "string \<Rightarrow> domain_error + subject" where
  "new_target_subject ref = new_subject SubjectKindTarget ref"

definition new_endpoint_subject :: "string \<Rightarrow> domain_error + subject" where
  "new_endpoint_subject ref = new_subject SubjectKindEndpoint ref"

definition subject_is_zero :: "subject \<Rightarrow> bool" where
  "subject_is_zero s \<longleftrightarrow> s = zero_subject"

definition subject_string :: "subject \<Rightarrow> string" where
  "subject_string s =
     (if subject_is_zero s then ''<invalid subject>''
      else subject_kind_string (subj_kind s) @ '':'' @ subj_ref s)"

definition subject_json :: "subject \<Rightarrow> domain_error + json" where
  "subject_json s =
     (if subject_is_zero s then Inl ErrInvalidValue
      else rbind (subject_kind_json (subj_kind s)) (\<lambda>k.
        Inr (JObj [(''kind'', k), (''ref'', JStr (subj_ref s))])))"

text \<open>A subject made by a constructor.\<close>

definition subject_wf :: "subject \<Rightarrow> bool" where
  "subject_wf s \<longleftrightarrow> subject_kind_valid (subj_kind s) \<and> is_ok (validate_identifier (subj_ref s))"

lemma new_subject_wf:
  "subject_kind_valid k \<Longrightarrow> new_subject k ref = Inr s \<Longrightarrow>
     subject_wf s \<and> subj_kind s = k \<and> subj_ref s = ref"
  by (auto simp: new_subject_def subject_wf_def rbind_validators split: if_splits)

lemma subject_wf_not_zero: "subject_wf s \<Longrightarrow> \<not> subject_is_zero s"
  by (auto simp: subject_wf_def subject_is_zero_def zero_subject_def subject_kind_valid_def)

text \<open>\<open>compareSubjects\<close> of \<open>internal/diagnosis/graphquery.go\<close>: by kind, then by reference.\<close>

definition compare_subjects :: "subject \<Rightarrow> subject \<Rightarrow> int" where
  "compare_subjects a b =
     cmp_then (go_compare (subj_kind a) (subj_kind b)) (go_compare (subj_ref a) (subj_ref b))"

interpretation subject_order: comparator compare_subjects
  unfolding compare_subjects_def by (intro comparator_then comparator_by)

lemma compare_subjects_zero [simp]: "compare_subjects a b = 0 \<longleftrightarrow> a = b"
  by (auto simp: compare_subjects_def)

subsection \<open>Attribute values\<close>

record attr_value =
  av_kind :: attr_kind
  av_str :: string
  av_num :: int
  av_flag :: bool
  av_ts :: go_time
  av_list :: "string list"

definition zero_attr :: attr_value where
  "zero_attr = \<lparr>av_kind = AttrKindInvalid, av_str = [], av_num = 0, av_flag = False, av_ts = 0,
     av_list = []\<rparr>"

definition string_attr :: "string \<Rightarrow> attr_value" where
  "string_attr v = zero_attr\<lparr>av_kind := AttrKindString, av_str := v\<rparr>"

definition int_attr :: "int \<Rightarrow> attr_value" where
  "int_attr v = zero_attr\<lparr>av_kind := AttrKindInt, av_num := v\<rparr>"

definition bool_attr :: "bool \<Rightarrow> attr_value" where
  "bool_attr v = zero_attr\<lparr>av_kind := AttrKindBool, av_flag := v\<rparr>"

definition duration_attr :: "go_duration \<Rightarrow> attr_value" where
  "duration_attr v = zero_attr\<lparr>av_kind := AttrKindDuration, av_num := v\<rparr>"

definition time_attr :: "go_time \<Rightarrow> attr_value" where
  "time_attr v = zero_attr\<lparr>av_kind := AttrKindTime, av_ts := v\<rparr>"

definition string_list_attr :: "string list \<Rightarrow> attr_value" where
  "string_list_attr v = zero_attr\<lparr>av_kind := AttrKindStringList, av_list := v\<rparr>"

definition host_attr :: "string \<Rightarrow> attr_value" where
  "host_attr v = zero_attr\<lparr>av_kind := AttrKindHost, av_str := v\<rparr>"

definition host_list_attr :: "string list \<Rightarrow> attr_value" where
  "host_list_attr v = zero_attr\<lparr>av_kind := AttrKindHostList, av_list := v\<rparr>"

definition identity_attr :: "string \<Rightarrow> attr_value" where
  "identity_attr v = zero_attr\<lparr>av_kind := AttrKindIdentity, av_str := v\<rparr>"

definition attr_valid :: "attr_value \<Rightarrow> bool" where
  "attr_valid v \<longleftrightarrow> attr_kind_valid (av_kind v)"

text \<open>The typed reads. Each returns the value and whether the attribute has that kind.\<close>

definition attr_get_str :: "attr_value \<Rightarrow> string \<times> bool" where
  "attr_get_str v = (av_str v, av_kind v = AttrKindString)"

definition attr_get_int :: "attr_value \<Rightarrow> int \<times> bool" where
  "attr_get_int v = (av_num v, av_kind v = AttrKindInt)"

definition attr_get_bool :: "attr_value \<Rightarrow> bool \<times> bool" where
  "attr_get_bool v = (av_flag v, av_kind v = AttrKindBool)"

definition attr_get_duration :: "attr_value \<Rightarrow> go_duration \<times> bool" where
  "attr_get_duration v = (av_num v, av_kind v = AttrKindDuration)"

definition attr_get_time :: "attr_value \<Rightarrow> go_time \<times> bool" where
  "attr_get_time v = (av_ts v, av_kind v = AttrKindTime)"

definition attr_get_host :: "attr_value \<Rightarrow> string \<times> bool" where
  "attr_get_host v = (av_str v, av_kind v = AttrKindHost)"

definition attr_get_identity :: "attr_value \<Rightarrow> string \<times> bool" where
  "attr_get_identity v = (av_str v, av_kind v = AttrKindIdentity)"

definition attr_get_host_list :: "attr_value \<Rightarrow> string list \<times> bool" where
  "attr_get_host_list v =
     (if av_kind v \<noteq> AttrKindHostList then ([], False) else (av_list v, True))"

definition attr_get_string_list :: "attr_value \<Rightarrow> string list \<times> bool" where
  "attr_get_string_list v =
     (if av_kind v \<noteq> AttrKindStringList then ([], False) else (av_list v, True))"

lemmas attr_constructors =
  string_attr_def int_attr_def bool_attr_def duration_attr_def time_attr_def string_list_attr_def
  host_attr_def host_list_attr_def identity_attr_def zero_attr_def

lemmas attr_readers =
  attr_get_str_def attr_get_int_def attr_get_bool_def attr_get_duration_def attr_get_time_def
  attr_get_host_def attr_get_identity_def attr_get_host_list_def attr_get_string_list_def

text \<open>A host name, an identity and a plain string share one field; only the kind keeps a
  reader of one from seeing another, which is what redaction relies on.\<close>

lemma attr_kinds_separate:
  "snd (attr_get_str v) \<Longrightarrow> \<not> snd (attr_get_host v) \<and> \<not> snd (attr_get_identity v)"
  "snd (attr_get_host v) \<Longrightarrow> \<not> snd (attr_get_identity v)"
  by (auto simp: attr_readers)

subsection \<open>Elapsed time\<close>

record elapsed =
  el_d :: go_duration
  el_measured :: bool

definition measured :: "go_duration \<Rightarrow> elapsed" where
  "measured d = \<lparr>el_d = d, el_measured = True\<rparr>"

definition unmeasured :: elapsed where
  "unmeasured = \<lparr>el_d = 0, el_measured = False\<rparr>"

definition elapsed_duration :: "elapsed \<Rightarrow> go_duration \<times> bool" where
  "elapsed_duration e = (el_d e, el_measured e)"

subsection \<open>Evidence\<close>

record evidence =
  ev_id :: evidence_id
  ev_subject :: subject
  ev_layer :: layer
  ev_step :: step_name
  ev_state :: state
  ev_failure :: failure_class
  ev_attributes :: "(attribute_key \<times> attr_value) list"
  ev_started :: go_time
  ev_elapsed :: elapsed

text \<open>\<open>EvidenceInput\<close> has the fields of \<open>Evidence\<close>.\<close>

type_synonym evidence_input = evidence

definition copy_attributes ::
    "(attribute_key \<times> attr_value) list \<Rightarrow> domain_error + (attribute_key \<times> attr_value) list" where
  "copy_attributes kvs =
     (if kvs = [] then Inr []
      else traverse (\<lambda>(key, value).
        rbind (validate_dotted_name key) (\<lambda>_.
          if \<not> attr_valid value then Inl ErrInvalidValue else Inr (key, value))) kvs)"

definition new_evidence :: "evidence_input \<Rightarrow> domain_error + evidence" where
  "new_evidence e =
     rbind (validate_identifier (ev_id e)) (\<lambda>_.
     if subject_is_zero (ev_subject e) then Inl ErrInvalidValue
     else if \<not> subject_kind_valid (subj_kind (ev_subject e)) then Inl ErrInvalidValue
     else if \<not> layer_valid (ev_layer e) then Inl ErrInvalidValue
     else rbind (validate_dotted_name (ev_step e)) (\<lambda>_.
     if \<not> state_valid (ev_state e) then Inl ErrInvalidValue
     else if \<not> failure_class_valid (ev_failure e) then Inl ErrInvalidValue
     else if ev_state e = StatePass \<and> ev_failure e \<noteq> FailureNone then Inl ErrInvalidValue
     else if ev_state e = StateFail \<and> ev_failure e = FailureNone then Inl ErrInvalidValue
     else if ev_started e = 0 then Inl ErrInvalidValue
     else if snd (elapsed_duration (ev_elapsed e)) \<and> fst (elapsed_duration (ev_elapsed e)) < 0
       then Inl ErrInvalidValue
     else rbind (copy_attributes (ev_attributes e)) (\<lambda>attributes.
       Inr (e\<lparr>ev_attributes := attributes\<rparr>))))"

definition evidence_is_zero :: "evidence \<Rightarrow> bool" where
  "evidence_is_zero e \<longleftrightarrow> ev_id e = [] \<and> subject_is_zero (ev_subject e)"

definition evidence_attribute :: "evidence \<Rightarrow> attribute_key \<Rightarrow> attr_value \<times> bool" where
  "evidence_attribute e key =
     (case map_of (ev_attributes e) key of Some v \<Rightarrow> (v, True) | None \<Rightarrow> (zero_attr, False))"

definition evidence_attribute_count :: "evidence \<Rightarrow> nat" where
  "evidence_attribute_count e = length (ev_attributes e)"

definition evidence_string :: "evidence \<Rightarrow> string" where
  "evidence_string e =
     (if evidence_is_zero e then ''<invalid evidence>''
      else ev_id e @ '' '' @ layer_string (ev_layer e) @ '' '' @ ev_step e @ '' ''
        @ state_string (ev_state e)
        @ (if ev_failure e \<noteq> FailureNone then '' '' @ failure_class_string (ev_failure e) else []))"

text \<open>What every constructed evidence satisfies.\<close>

definition evidence_wf :: "evidence \<Rightarrow> bool" where
  "evidence_wf e \<longleftrightarrow>
     is_ok (validate_identifier (ev_id e))
     \<and> \<not> subject_is_zero (ev_subject e) \<and> subject_kind_valid (subj_kind (ev_subject e))
     \<and> layer_valid (ev_layer e) \<and> step_valid (ev_step e)
     \<and> state_valid (ev_state e) \<and> failure_class_valid (ev_failure e)
     \<and> (ev_state e = StatePass \<longrightarrow> ev_failure e = FailureNone)
     \<and> (ev_state e = StateFail \<longrightarrow> ev_failure e \<noteq> FailureNone)
     \<and> ev_started e \<noteq> 0
     \<and> (el_measured (ev_elapsed e) \<longrightarrow> 0 \<le> el_d (ev_elapsed e))
     \<and> (\<forall>(key, value)\<in>set (ev_attributes e). attribute_key_valid key \<and> attr_valid value)"

lemma copy_attributes_eq:
  "copy_attributes kvs =
     (if \<forall>(key, value)\<in>set kvs. attribute_key_valid key \<and> attr_valid value
      then Inr kvs else Inl ErrInvalidValue)"
proof -
  let ?f = "\<lambda>(key, value). rbind (validate_dotted_name key) (\<lambda>_.
    if \<not> attr_valid value then Inl ErrInvalidValue else Inr (key, value))"
  have f: "?f kv = (if attribute_key_valid (fst kv) \<and> attr_valid (snd kv) then Inr kv
      else Inl ErrInvalidValue)" for kv
    by (cases kv) (simp add: attribute_key_valid_def rbind_validate_dotted_name)
  have "traverse ?f kvs =
     (if \<forall>kv\<in>set kvs. attribute_key_valid (fst kv) \<and> attr_valid (snd kv)
      then Inr kvs else Inl ErrInvalidValue)"
    by (induction kvs) (simp_all add: f del: rbind_simps)
  then show ?thesis
    by (auto simp: copy_attributes_def case_prod_beta)
qed

lemma new_evidence_eq:
  "new_evidence e = (if evidence_wf e then Inr e else Inl ErrInvalidValue)"
  unfolding new_evidence_def evidence_wf_def rbind_validate_identifier rbind_validate_dotted_name
    copy_attributes_eq elapsed_duration_def step_valid_def fst_conv snd_conv
  by (simp only: if_distrib [of "\<lambda>r. rbind r f" for f] rbind_simps) (simp add: not_less)

lemma new_evidence_Inr [simp]: "new_evidence e = Inr e' \<longleftrightarrow> evidence_wf e \<and> e' = e"
  by (auto simp: new_evidence_eq)

lemma evidence_wf_not_zero: "evidence_wf e \<Longrightarrow> \<not> evidence_is_zero e"
  by (auto simp: evidence_wf_def evidence_is_zero_def validate_identifier_ok)

end
