(* ===== verification/Graph.thy ===== *)
theory Graph
  imports Evidence
begin

text \<open>
  Package \<open>internal/domain\<close>: the builder of the evidence graph (\<open>graphbuilder.go\<close>) and the
  frozen graph (\<open>graph.go\<close>).

  The builder's maps are association lists. A relation, in Go a map from an id to a set of
  ids, is a list of pairs of an id and its targets. The two graph walks are the code's: the
  stack of \<open>reachable\<close> is a list whose head is its top, and the recursion of \<open>findCycle\<close>
  takes fuel, one more than the number of ids that have targets, which \<open>find_cycle_total\<close>
  shows to be enough.
\<close>

subsection \<open>Relations between ids\<close>

type_synonym relation = "(evidence_id \<times> evidence_id list) list"

definition rel_get :: "relation \<Rightarrow> evidence_id \<Rightarrow> evidence_id list" where
  "rel_get rel x = (case map_of rel x of None \<Rightarrow> [] | Some ys \<Rightarrow> ys)"

definition edges :: "relation \<Rightarrow> (evidence_id \<times> evidence_id) set" where
  "edges rel = {(x, y). y \<in> set (rel_get rel x)}"

definition add_to_set :: "relation \<Rightarrow> evidence_id \<Rightarrow> evidence_id \<Rightarrow> relation" where
  "add_to_set rel x y = AList.update x (List.insert y (rel_get rel x)) rel"

lemma edges_iff [simp]: "(x, y) \<in> edges rel \<longleftrightarrow> y \<in> set (rel_get rel x)"
  by (simp add: edges_def)

lemma rel_get_key: "y \<in> set (rel_get rel x) \<Longrightarrow> x \<in> fst ` set rel"
  by (cases "map_of rel x") (auto simp: rel_get_def dest: map_of_SomeD intro: rev_image_eqI)

lemma rel_get_add_to_set:
  "rel_get (add_to_set rel x y) z = (if z = x then List.insert y (rel_get rel x) else rel_get rel z)"
  unfolding add_to_set_def rel_get_def [of "AList.update x v r" for v r] AList.update_conv
  by (cases "z = x") (simp_all add: rel_get_def [of rel z])

lemma edges_add_to_set: "edges (add_to_set rel x y) = insert (x, y) (edges rel)"
  by (auto simp: edges_def rel_get_add_to_set split: if_splits)

subsection \<open>Reachability\<close>

function reach_loop :: "relation \<Rightarrow> evidence_id \<Rightarrow> evidence_id list \<Rightarrow> evidence_id list \<Rightarrow> bool" where
  "reach_loop rel target seen [] = False"
| "reach_loop rel target seen (current # stack) =
     (if current \<in> set seen then reach_loop rel target seen stack
      else if target \<in> set (rel_get rel current) then True
      else reach_loop rel target (current # seen) (rev (rel_get rel current) @ stack))"
  by pat_completeness auto
termination
proof (relation "measures [\<lambda>(rel, target, seen, stack). card (fst ` set rel - set seen),
    \<lambda>(rel, target, seen, stack). length stack]", goal_cases)
  case 1
  show ?case by simp
next
  case (2 rel target seen current stack)
  then show ?case by simp
next
  case (3 rel target seen current stack)
  show ?case
  proof (cases "current \<in> fst ` set rel")
    case True
    then have "fst ` set rel - set (current # seen) \<subset> fst ` set rel - set seen"
      using 3 by auto
    then show ?thesis
      by (simp add: psubset_card_mono)
  next
    case False
    then have "rel_get rel current = []"
      using rel_get_key by (metis ex_in_conv set_empty)
    moreover have "fst ` set rel - set (current # seen) = fst ` set rel - set seen"
      using False by auto
    ultimately show ?thesis by simp
  qed
qed

definition reachable_id :: "relation \<Rightarrow> evidence_id \<Rightarrow> evidence_id \<Rightarrow> bool" where
  "reachable_id rel start target = (start = target \<or> reach_loop rel target [] [start])"

lemma reach_loop_sound:
  "reach_loop rel target seen stack \<Longrightarrow> \<exists>x\<in>set stack. (x, target) \<in> (edges rel)\<^sup>+"
proof (induction rel target seen stack rule: reach_loop.induct)
  case (1 rel target seen)
  then show ?case by simp
next
  case (2 rel target seen current stack)
  show ?case
  proof (cases "current \<in> set seen")
    case True
    have "reach_loop rel target seen stack"
      using 2(3) True by simp
    from 2(1) [OF True this] show ?thesis
      by (meson list.set_intros(2))
  next
    case new: False
    show ?thesis
    proof (cases "target \<in> set (rel_get rel current)")
      case True
      then have "(current, target) \<in> (edges rel)\<^sup>+"
        by (intro r_into_trancl) simp
      then show ?thesis by (meson list.set_intros(1))
    next
      case False
      have "reach_loop rel target (current # seen) (rev (rel_get rel current) @ stack)"
        using 2(3) new False by simp
      from 2(2) [OF new False this]
      obtain x where x: "x \<in> set (rev (rel_get rel current) @ stack)" "(x, target) \<in> (edges rel)\<^sup>+"
        by (elim bexE)
      show ?thesis
      proof (cases "x \<in> set stack")
        case True
        with x(2) show ?thesis by (meson list.set_intros(2))
      next
        case False
        then have "x \<in> set (rel_get rel current)"
          using x(1) by (simp only: set_append set_rev Un_iff simp_thms)
        then have "(current, x) \<in> edges rel"
          by (simp only: edges_iff)
        then have "(current, target) \<in> (edges rel)\<^sup>+"
          using x(2) by (rule trancl_into_trancl2)
        then show ?thesis by (meson list.set_intros(1))
      qed
    qed
  qed
qed

lemma reach_loop_complete:
  assumes "\<not> reach_loop rel target seen stack"
    and "\<And>x y. x \<in> set seen \<Longrightarrow> (x, y) \<in> edges rel \<Longrightarrow> y \<noteq> target \<and> y \<in> set seen \<union> set stack"
  shows "\<exists>S. set seen \<union> set stack \<subseteq> S
    \<and> (\<forall>x\<in>S. \<forall>y. (x, y) \<in> edges rel \<longrightarrow> y \<in> S \<and> y \<noteq> target)"
  using assms
proof (induction rel target seen stack rule: reach_loop.induct)
  case (1 rel target seen)
  then show ?case by (intro exI [of _ "set seen"]) auto
next
  case (2 rel target seen current stack)
  show ?case
  proof (cases "current \<in> set seen")
    case True
    then have eq: "set seen \<union> set (current # stack) = set seen \<union> set stack"
      by auto
    show ?thesis
      unfolding eq
    proof (rule 2(1) [OF True])
      show "\<not> reach_loop rel target seen stack"
        using 2(3) True by simp
      show "y \<noteq> target \<and> y \<in> set seen \<union> set stack" if "x \<in> set seen" "(x, y) \<in> edges rel" for x y
        using 2(4) [OF that] eq by blast
    qed
  next
    case False
    with 2(3) have t: "target \<notin> set (rel_get rel current)"
      by (auto split: if_splits)
    have "\<exists>S. set (current # seen) \<union> set (rev (rel_get rel current) @ stack) \<subseteq> S
        \<and> (\<forall>x\<in>S. \<forall>y. (x, y) \<in> edges rel \<longrightarrow> y \<in> S \<and> y \<noteq> target)"
    proof (rule 2(2) [OF False t])
      show "\<not> reach_loop rel target (current # seen) (rev (rel_get rel current) @ stack)"
        using 2(3) False t by simp
      show "y \<noteq> target \<and> y \<in> set (current # seen) \<union> set (rev (rel_get rel current) @ stack)"
        if "x \<in> set (current # seen)" "(x, y) \<in> edges rel" for x y
        using that t 2(4) [of x y] by auto
    qed
    then obtain S where S: "set (current # seen) \<union> set (rev (rel_get rel current) @ stack) \<subseteq> S"
      "\<forall>x\<in>S. \<forall>y. (x, y) \<in> edges rel \<longrightarrow> y \<in> S \<and> y \<noteq> target"
      by (elim exE conjE)
    then have "set seen \<union> set (current # stack) \<subseteq> S"
      by auto
    with S(2) show ?thesis by (intro exI [of _ S] conjI)
  qed
qed

lemma reachable_id_iff: "reachable_id rel start target \<longleftrightarrow> (start, target) \<in> (edges rel)\<^sup>*"
proof
  assume "reachable_id rel start target"
  then show "(start, target) \<in> (edges rel)\<^sup>*"
    using reach_loop_sound [of rel target "[]" "[start]"]
    by (auto simp: reachable_id_def trancl_into_rtrancl)
next
  assume path: "(start, target) \<in> (edges rel)\<^sup>*"
  show "reachable_id rel start target"
  proof (rule ccontr)
    assume no: "\<not> reachable_id rel start target"
    then obtain S where S: "start \<in> S"
      "\<forall>x\<in>S. \<forall>y. (x, y) \<in> edges rel \<longrightarrow> y \<in> S \<and> y \<noteq> target"
      using reach_loop_complete [of rel target "[]" "[start]"] by (auto simp: reachable_id_def)
    have "z \<in> S \<and> (z = target \<longrightarrow> start = target)" if "(start, z) \<in> (edges rel)\<^sup>*" for z
      using that
    proof (induction rule: rtrancl_induct)
      case base
      show ?case using S(1) by simp
    next
      case (step y z)
      then show ?case using S(2) by blast
    qed
    then show False
      using path no by (auto simp: reachable_id_def)
  qed
qed

subsection \<open>Cycle detection\<close>

datatype mark = OnPath | Finished

type_synonym marks = "evidence_id \<rightharpoonup> mark"

fun visit :: "nat \<Rightarrow> relation \<Rightarrow> evidence_id \<Rightarrow> marks \<Rightarrow> (marks \<times> evidence_id option) option"
  and visit_all :: "nat \<Rightarrow> relation \<Rightarrow> evidence_id list \<Rightarrow> marks \<Rightarrow> (marks \<times> evidence_id option) option"
where
  "visit 0 rel x mark = None"
| "visit (Suc fuel) rel x mark =
     (case mark x of
        Some OnPath \<Rightarrow> Some (mark, Some x)
      | Some Finished \<Rightarrow> Some (mark, None)
      | None \<Rightarrow>
          (case visit_all fuel rel (sort (rel_get rel x)) (mark(x \<mapsto> OnPath)) of
             None \<Rightarrow> None
           | Some (m, Some c) \<Rightarrow> Some (m, Some c)
           | Some (m, None) \<Rightarrow> Some (m(x \<mapsto> Finished), None)))"
| "visit_all fuel rel [] mark = Some (mark, None)"
| "visit_all fuel rel (x # xs) mark =
     (case visit fuel rel x mark of
        None \<Rightarrow> None
      | Some (m, Some c) \<Rightarrow> Some (m, Some c)
      | Some (m, None) \<Rightarrow> visit_all fuel rel xs m)"

definition find_cycle :: "relation \<Rightarrow> evidence_id option option" where
  "find_cycle rel =
     map_option snd (visit_all (Suc (length rel)) rel (sort (map fst rel)) Map.empty)"

text \<open>Marks only grow, and the fuel is enough while ids with targets are unmarked.\<close>

lemma visit_dom:
  "visit fuel rel x mark = Some (m, r) \<Longrightarrow> dom mark \<subseteq> dom m"
  "visit_all fuel rel xs mark = Some (m, r) \<Longrightarrow> dom mark \<subseteq> dom m"
proof (induction fuel rel x mark and fuel rel xs mark arbitrary: m r and m r
    rule: visit_visit_all.induct)
  case (2 fuel rel x mark)
  then show ?case
    by (fastforce split: option.splits mark.splits prod.splits)
next
  case (4 fuel rel x xs mark)
  then show ?case
    by (fastforce split: option.splits prod.splits)
qed simp_all

lemma visit_total:
  "card (fst ` set rel - dom mark) < fuel \<Longrightarrow> visit fuel rel x mark \<noteq> None"
  "card (fst ` set rel - dom mark) < fuel \<or> xs = [] \<Longrightarrow> visit_all fuel rel xs mark \<noteq> None"
proof (induction fuel rel x mark and fuel rel xs mark rule: visit_visit_all.induct)
  case (2 fuel rel x mark)
  show ?case
  proof (cases "mark x")
    case None
    have "visit_all fuel rel (sort (rel_get rel x)) (mark(x \<mapsto> OnPath)) \<noteq> None"
    proof (rule 2(1) [OF None])
      show "card (fst ` set rel - dom (mark(x \<mapsto> OnPath))) < fuel \<or> sort (rel_get rel x) = []"
      proof (cases "x \<in> fst ` set rel")
        case True
        then have "fst ` set rel - dom (mark(x \<mapsto> OnPath)) \<subset> fst ` set rel - dom mark"
          using None by auto
        then have "card (fst ` set rel - dom (mark(x \<mapsto> OnPath))) < card (fst ` set rel - dom mark)"
          by (intro psubset_card_mono) simp_all
        then show ?thesis using 2(2) by simp
      next
        case False
        then have "rel_get rel x = []"
          using rel_get_key by (metis ex_in_conv set_empty)
        then show ?thesis by simp
      qed
    qed
    then show ?thesis
      using None by (auto split: option.split prod.split)
  qed (auto split: mark.split)
next
  case (4 fuel rel x xs mark)
  have c: "card (fst ` set rel - dom mark) < fuel"
    using 4(3) by simp
  then obtain m r where v: "visit fuel rel x mark = Some (m, r)"
    using 4(1) by auto
  show ?case
  proof (cases r)
    case None
    have "card (fst ` set rel - dom m) \<le> card (fst ` set rel - dom mark)"
      using visit_dom(1) [OF v] by (intro card_mono) auto
    then show ?thesis
      using 4(2) [OF v [unfolded None] refl refl] c v None by simp
  qed (simp add: v)
qed simp_all

lemma find_cycle_total: "find_cycle rel \<noteq> None"
proof -
  have "card (fst ` set rel) < Suc (length rel)"
    by (metis card_length le_imp_less_Suc length_map set_map)
  then have "visit_all (Suc (length rel)) rel (sort (map fst rel)) Map.empty \<noteq> None"
    by (intro visit_total(2)) simp
  then show ?thesis by (simp add: find_cycle_def)
qed

text \<open>A finished visit leaves the path as it was, and its finished ids are closed under the
  relation and on no cycle.\<close>

definition marked :: "mark \<Rightarrow> marks \<Rightarrow> evidence_id set" where
  "marked k m = {x. m x = Some k}"

definition finished_ok :: "relation \<Rightarrow> marks \<Rightarrow> bool" where
  "finished_ok rel m \<longleftrightarrow> (\<forall>x\<in>marked Finished m. (x, x) \<notin> (edges rel)\<^sup>+
     \<and> (\<forall>y. (x, y) \<in> edges rel \<longrightarrow> y \<in> marked Finished m))"

lemma marked_upd:
  "marked k (m(x \<mapsto> j)) = (if k = j then insert x (marked k m) else marked k m - {x})"
  by (auto simp: marked_def)

lemma closed_trancl:
  assumes "(x, y) \<in> R\<^sup>+" "x \<in> S" "\<And>a b. a \<in> S \<Longrightarrow> (a, b) \<in> R \<Longrightarrow> b \<in> S"
  shows "y \<in> S"
  using assms(1,2) by (induction rule: trancl_induct) (auto intro: assms(3))

lemma finish_ok:
  assumes "finished_ok rel m" "set (rel_get rel x) \<subseteq> marked Finished m" "x \<notin> marked Finished m"
  shows "finished_ok rel (m(x \<mapsto> Finished))"
proof -
  have acyc: "(x, x) \<notin> (edges rel)\<^sup>+"
  proof
    assume "(x, x) \<in> (edges rel)\<^sup>+"
    then obtain y where y: "(x, y) \<in> edges rel" "y = x \<or> (y, x) \<in> (edges rel)\<^sup>+"
      by (metis converse_tranclE)
    then have "y \<in> marked Finished m"
      using assms(2) by auto
    then have "x \<in> marked Finished m"
      using y(2) assms(1) closed_trancl [of y x "edges rel" "marked Finished m"]
      by (auto simp: finished_ok_def)
    then show False using assms(3) by simp
  qed
  show ?thesis
    using assms acyc by (auto simp: finished_ok_def marked_upd)
qed

lemma visit_finished:
  "visit fuel rel x mark = Some (m, None) \<Longrightarrow> finished_ok rel mark \<Longrightarrow>
     finished_ok rel m \<and> x \<in> marked Finished m \<and> marked OnPath m = marked OnPath mark
     \<and> marked Finished mark \<subseteq> marked Finished m"
  "visit_all fuel rel xs mark = Some (m, None) \<Longrightarrow> finished_ok rel mark \<Longrightarrow>
     finished_ok rel m \<and> set xs \<subseteq> marked Finished m \<and> marked OnPath m = marked OnPath mark
     \<and> marked Finished mark \<subseteq> marked Finished m"
proof (induction fuel rel x mark and fuel rel xs mark arbitrary: m and m
    rule: visit_visit_all.induct)
  case (2 fuel rel x mark)
  show ?case
  proof (cases "mark x")
    case None
    obtain m' where m': "visit_all fuel rel (sort (rel_get rel x)) (mark(x \<mapsto> OnPath)) = Some (m', None)"
      and m: "m = m'(x \<mapsto> Finished)"
      using 2(2) None by (auto split: option.splits prod.splits)
    have fin: "marked Finished (mark(x \<mapsto> OnPath)) = marked Finished mark"
      using None by (auto simp: marked_def)
    then have ok: "finished_ok rel (mark(x \<mapsto> OnPath))"
      using 2(3) by (simp add: finished_ok_def)
    from 2(1) [OF None m' ok]
    have IH: "finished_ok rel m'" "set (rel_get rel x) \<subseteq> marked Finished m'"
      "marked OnPath m' = insert x (marked OnPath mark)" "marked Finished mark \<subseteq> marked Finished m'"
      unfolding fin unfolding marked_upd by simp_all
    have "x \<in> marked OnPath m'"
      using IH(3) by simp
    then have "x \<notin> marked Finished m'" "x \<notin> marked OnPath mark"
      using None by (simp_all add: marked_def)
    then have "finished_ok rel m" "x \<in> marked Finished m"
        "marked OnPath m = marked OnPath m' - {x}" "marked Finished m' \<subseteq> marked Finished m"
      unfolding m using finish_ok [OF IH(1,2)] by (simp_all add: marked_upd subset_insertI)
    with IH \<open>x \<notin> marked OnPath mark\<close> show ?thesis
      by auto
  next
    case (Some k)
    then show ?thesis
      using 2(2,3) by (cases k) (auto simp: marked_def)
  qed
next
  case (4 fuel rel x xs mark)
  obtain m' where m': "visit fuel rel x mark = Some (m', None)"
    and rest: "visit_all fuel rel xs m' = Some (m, None)"
    using 4(3) by (auto split: option.splits prod.splits)
  show ?case
    using 4(1) [OF m' 4(4)] 4(2) [OF m' refl refl rest] by auto
qed simp_all

text \<open>A reported id is on a cycle: every id on the path reaches the id being visited.\<close>

lemma visit_found:
  "visit fuel rel x mark = Some (m, Some c) \<Longrightarrow> finished_ok rel mark \<Longrightarrow>
     \<forall>p\<in>marked OnPath mark. (p, x) \<in> (edges rel)\<^sup>+ \<Longrightarrow> (c, c) \<in> (edges rel)\<^sup>+"
  "visit_all fuel rel xs mark = Some (m, Some c) \<Longrightarrow> finished_ok rel mark \<Longrightarrow>
     \<forall>p\<in>marked OnPath mark. \<forall>y\<in>set xs. (p, y) \<in> (edges rel)\<^sup>+ \<Longrightarrow> (c, c) \<in> (edges rel)\<^sup>+"
proof (induction fuel rel x mark and fuel rel xs mark arbitrary: m c and m c
    rule: visit_visit_all.induct)
  case (2 fuel rel x mark)
  show ?case
  proof (cases "mark x")
    case None
    obtain m' where m': "visit_all fuel rel (sort (rel_get rel x)) (mark(x \<mapsto> OnPath)) = Some (m', Some c)"
      using 2(2) None by (auto split: option.splits prod.splits)
    have "finished_ok rel (mark(x \<mapsto> OnPath))"
      using 2(3) None by (auto simp: finished_ok_def marked_def)
    moreover have "(p, y) \<in> (edges rel)\<^sup>+" if "p \<in> marked OnPath (mark(x \<mapsto> OnPath))"
      "y \<in> set (sort (rel_get rel x))" for p y
    proof -
      have xy: "(x, y) \<in> edges rel"
        using that(2) by simp
      show ?thesis
      proof (cases "p = x")
        case True
        then show ?thesis using xy by blast
      next
        case False
        then have "(p, x) \<in> (edges rel)\<^sup>+"
          using that(1) 2(4) by (simp add: marked_upd)
        then show ?thesis using xy by (rule trancl_into_trancl)
      qed
    qed
    ultimately show ?thesis
      using 2(1) [OF None m'] by blast
  next
    case (Some k)
    then show ?thesis
      using 2(2,4) by (cases k) (auto simp: marked_def)
  qed
next
  case (4 fuel rel x xs mark)
  consider "visit fuel rel x mark = Some (m, Some c)"
    | m' where "visit fuel rel x mark = Some (m', None)" "visit_all fuel rel xs m' = Some (m, Some c)"
    using 4(3) by (auto split: option.splits prod.splits)
  then show ?case
  proof cases
    case 1
    then show ?thesis using 4(1,4,5) by simp
  next
    case 2
    have "finished_ok rel m'" "marked OnPath m' = marked OnPath mark"
      using visit_finished(1) [OF 2(1) 4(4)] by auto
    then show ?thesis
      using 4(2) [OF 2(1) refl refl 2(2)] 4(5) by simp
  qed
qed simp_all

lemma find_cycle_acyclic: "find_cycle rel = Some None \<longleftrightarrow> acyclic (edges rel)"
proof
  assume "find_cycle rel = Some None"
  then obtain m where v: "visit_all (Suc (length rel)) rel (sort (map fst rel)) Map.empty = Some (m, None)"
    by (auto simp: find_cycle_def)
  have "finished_ok rel Map.empty"
    by (simp add: finished_ok_def marked_def)
  from visit_finished(2) [OF v this]
  have ok: "finished_ok rel m" and keys: "fst ` set rel \<subseteq> marked Finished m"
    by auto
  show "acyclic (edges rel)"
    unfolding acyclic_def
  proof (intro allI notI)
    fix x assume cyc: "(x, x) \<in> (edges rel)\<^sup>+"
    then obtain y where "(x, y) \<in> edges rel"
      by (metis converse_tranclE)
    then have "x \<in> fst ` set rel"
      using rel_get_key by simp
    then show False
      using ok keys cyc by (auto simp: finished_ok_def)
  qed
next
  assume acyc: "acyclic (edges rel)"
  obtain r where r: "find_cycle rel = Some r"
    using find_cycle_total by auto
  show "find_cycle rel = Some None"
  proof (cases r)
    case (Some c)
    then obtain m where "visit_all (Suc (length rel)) rel (sort (map fst rel)) Map.empty = Some (m, Some c)"
      using r by (auto simp: find_cycle_def)
    then have "(c, c) \<in> (edges rel)\<^sup>+"
      by (rule visit_found(2)) (simp_all add: finished_ok_def marked_def)
    then show ?thesis using acyc by (simp add: acyclic_def)
  qed (use r in simp)
qed

subsection \<open>The builder\<close>

record builder =
  gb_nodes :: "(evidence_id \<times> evidence) list"
  gb_parents :: relation
  gb_blocked :: relation

definition new_graph_builder :: builder where
  "new_graph_builder = \<lparr>gb_nodes = [], gb_parents = [], gb_blocked = []\<rparr>"

definition require_node :: "builder \<Rightarrow> evidence_id \<Rightarrow> domain_error + unit" where
  "require_node b x = (if map_of (gb_nodes b) x = None then Inl ErrInvalidGraph else Inr ())"

definition add_evidence :: "builder \<Rightarrow> evidence \<Rightarrow> domain_error + builder" where
  "add_evidence b e =
     (if evidence_is_zero e then Inl ErrInvalidGraph
      else if map_of (gb_nodes b) (ev_id e) \<noteq> None then Inl ErrInvalidGraph
      else Inr (b\<lparr>gb_nodes := AList.update (ev_id e) e (gb_nodes b)\<rparr>))"

definition add_parent :: "builder \<Rightarrow> evidence_id \<Rightarrow> evidence_id \<Rightarrow> domain_error + builder" where
  "add_parent b child parent =
     rbind (require_node b child) (\<lambda>_.
     rbind (require_node b parent) (\<lambda>_.
     if child = parent then Inl ErrInvalidGraph
     else if reachable_id (gb_parents b) parent child then Inl ErrInvalidGraph
     else Inr (b\<lparr>gb_parents := add_to_set (gb_parents b) child parent\<rparr>)))"

text \<open>The state of a node, \<open>b.nodes[id].State()\<close>: an absent id reads the zero \<open>Evidence\<close>, whose
  state is UNKNOWN.\<close>

definition node_state :: "(evidence_id \<times> evidence) list \<Rightarrow> evidence_id \<Rightarrow> state" where
  "node_state nodes x = (case map_of nodes x of Some e \<Rightarrow> ev_state e | None \<Rightarrow> StateUnknown)"

definition add_blocked_by :: "builder \<Rightarrow> evidence_id \<Rightarrow> evidence_id \<Rightarrow> domain_error + builder" where
  "add_blocked_by b skipped blocker =
     rbind (require_node b skipped) (\<lambda>_.
     rbind (require_node b blocker) (\<lambda>_.
     if skipped = blocker then Inl ErrInvalidGraph
     else if node_state (gb_nodes b) skipped \<noteq> StateSkipped then Inl ErrInvalidGraph
     else if reachable_id (gb_blocked b) blocker skipped then Inl ErrInvalidGraph
     else Inr (b\<lparr>gb_blocked := add_to_set (gb_blocked b) skipped blocker\<rparr>)))"

subsection \<open>Freezing\<close>

record graph =
  g_order :: "evidence_id list"
  g_nodes :: "(evidence_id \<times> evidence) list"
  g_parents :: relation
  g_children :: relation
  g_blocked :: relation

definition freeze_relation :: "builder \<Rightarrow> relation \<Rightarrow> domain_error + relation" where
  "freeze_relation b rel =
     rbind (traverse (\<lambda>(x, targets).
         if map_of (gb_nodes b) x = None then Inl ErrInvalidGraph
         else rbind (traverse (\<lambda>y.
             if map_of (gb_nodes b) y = None then Inl ErrInvalidGraph
             else if y = x then Inl ErrInvalidGraph
             else Inr y) targets) (\<lambda>ids. Inr (x, sort ids))) rel) (\<lambda>out.
     if find_cycle rel \<noteq> Some None then Inl ErrInvalidGraph else Inr out)"

definition add_child :: "evidence_id \<Rightarrow> evidence_id \<Rightarrow> relation \<Rightarrow> relation" where
  "add_child child parent rel = AList.update parent (rel_get rel parent @ [child]) rel"

definition freeze_children :: "evidence_id list \<Rightarrow> relation \<Rightarrow> relation" where
  "freeze_children order parents =
     map (\<lambda>(p, cs). (p, sort cs))
       (fold (\<lambda>child. fold (add_child child) (rel_get parents child)) order [])"

definition freeze :: "builder \<Rightarrow> domain_error + graph" where
  "freeze b =
     (let order = sort (map fst (gb_nodes b)) in
      rbind (freeze_relation b (gb_parents b)) (\<lambda>parents.
      rbind (freeze_relation b (gb_blocked b)) (\<lambda>blocked.
      if list_ex (\<lambda>(x, _). node_state (gb_nodes b) x \<noteq> StateSkipped) (gb_blocked b)
      then Inl ErrInvalidGraph
      else Inr \<lparr>g_order = order, g_nodes = gb_nodes b, g_parents = parents,
        g_children = freeze_children order parents, g_blocked = blocked\<rparr>)))"

subsection \<open>The frozen graph\<close>

definition zero_evidence :: evidence where
  "zero_evidence = \<lparr>ev_id = [], ev_subject = zero_subject, ev_layer = LayerUnspecified,
     ev_step = [], ev_state = StateUnknown, ev_failure = FailureNone, ev_attributes = [],
     ev_started = 0, ev_elapsed = unmeasured\<rparr>"

definition graph_len :: "graph \<Rightarrow> nat" where
  "graph_len g = length (g_order g)"

definition graph_node :: "graph \<Rightarrow> evidence_id \<Rightarrow> evidence option" where
  "graph_node g x = map_of (g_nodes g) x"

definition graph_nodes :: "graph \<Rightarrow> evidence list" where
  "graph_nodes g =
     map (\<lambda>x. case map_of (g_nodes g) x of Some e \<Rightarrow> e | None \<Rightarrow> zero_evidence) (g_order g)"

definition graph_parents :: "graph \<Rightarrow> evidence_id \<Rightarrow> evidence_id list" where
  "graph_parents g x = rel_get (g_parents g) x"

definition graph_children :: "graph \<Rightarrow> evidence_id \<Rightarrow> evidence_id list" where
  "graph_children g x = rel_get (g_children g) x"

definition graph_blocked_by :: "graph \<Rightarrow> evidence_id \<Rightarrow> evidence_id list" where
  "graph_blocked_by g x = rel_get (g_blocked g) x"

definition empty_graph :: graph where
  "empty_graph = \<lparr>g_order = [], g_nodes = [], g_parents = [], g_children = [], g_blocked = []\<rparr>"

subsection \<open>The builder's invariant\<close>

definition relation_wf :: "(evidence_id \<times> evidence) list \<Rightarrow> relation \<Rightarrow> bool" where
  "relation_wf nodes rel \<longleftrightarrow>
     distinct (map fst rel) \<and> (\<forall>(x, ys)\<in>set rel. distinct ys \<and> ys \<noteq> [])
     \<and> edges rel \<subseteq> dom (map_of nodes) \<times> dom (map_of nodes) \<and> acyclic (edges rel)"

definition builder_wf :: "builder \<Rightarrow> bool" where
  "builder_wf b \<longleftrightarrow>
     distinct (map fst (gb_nodes b))
     \<and> (\<forall>(x, e)\<in>set (gb_nodes b). ev_id e = x \<and> evidence_wf e)
     \<and> relation_wf (gb_nodes b) (gb_parents b) \<and> relation_wf (gb_nodes b) (gb_blocked b)
     \<and> (\<forall>(x, ys)\<in>set (gb_blocked b). node_state (gb_nodes b) x = StateSkipped)"

text \<open>What calls to the builder can reach, with evidence that \<open>NewEvidence\<close> made. A call that
  fails changes nothing.\<close>

inductive builder_step :: "builder \<Rightarrow> builder \<Rightarrow> bool" where
  evidence: "new_evidence i = Inr e \<Longrightarrow> add_evidence b e = Inr b' \<Longrightarrow> builder_step b b'"
| parent: "add_parent b child parent = Inr b' \<Longrightarrow> builder_step b b'"
| blocked: "add_blocked_by b skipped blocker = Inr b' \<Longrightarrow> builder_step b b'"

inductive built :: "builder \<Rightarrow> bool" where
  start: "built new_graph_builder"
| step: "built b \<Longrightarrow> builder_step b b' \<Longrightarrow> built b'"

lemma relation_wf_entry:
  assumes "relation_wf nodes rel" "(x, ys) \<in> set rel"
  shows "rel_get rel x = ys" "distinct ys" "ys \<noteq> []"
  using assms by (auto simp: relation_wf_def rel_get_def)

lemma relation_wf_dom:
  assumes "relation_wf nodes rel" "y \<in> set (rel_get rel x)"
  shows "x \<in> dom (map_of nodes) \<and> y \<in> dom (map_of nodes)"
proof -
  have "(x, y) \<in> edges rel"
    using assms(2) by simp
  then show ?thesis
    using assms(1) unfolding relation_wf_def by blast
qed

lemma relation_wf_distinct:
  assumes "relation_wf nodes rel"
  shows "distinct (rel_get rel x)"
proof (cases "map_of rel x")
  case (Some ys)
  then show ?thesis
    using relation_wf_entry(2) [OF assms map_of_SomeD [OF Some]] by (simp add: rel_get_def)
qed (simp add: rel_get_def)

lemma relation_wf_Nil [simp]: "relation_wf nodes []"
proof -
  have "edges [] = {}"
    by (auto simp: edges_def rel_get_def)
  then show ?thesis by (simp add: relation_wf_def acyclic_def)
qed

lemma relation_wf_mono:
  "relation_wf nodes rel \<Longrightarrow> dom (map_of nodes) \<subseteq> dom (map_of nodes') \<Longrightarrow> relation_wf nodes' rel"
  unfolding relation_wf_def by blast

lemma relation_wf_add:
  assumes wf: "relation_wf nodes rel" and "x \<in> dom (map_of nodes)" "y \<in> dom (map_of nodes)"
    and no: "\<not> reachable_id rel y x"
  shows "relation_wf nodes (add_to_set rel x y)"
  unfolding relation_wf_def
proof (intro conjI)
  show "distinct (map fst (add_to_set rel x y))"
    using wf by (simp add: relation_wf_def add_to_set_def distinct_update)
  show "\<forall>(z, zs)\<in>set (add_to_set rel x y). distinct zs \<and> zs \<noteq> []"
  proof (rule ballI, clarify)
    fix z zs assume z: "(z, zs) \<in> set (add_to_set rel x y)"
    have "distinct (map fst (add_to_set rel x y))"
      using wf by (simp add: relation_wf_def add_to_set_def distinct_update)
    then have "rel_get (add_to_set rel x y) z = zs"
      using z by (simp add: rel_get_def)
    then have zs: "zs = (if z = x then List.insert y (rel_get rel x) else rel_get rel z)"
      by (simp add: rel_get_add_to_set)
    have d: "distinct (rel_get rel u)" for u
      by (rule relation_wf_distinct [OF wf])
    show "distinct zs \<and> zs \<noteq> []"
    proof (cases "z = x")
      case True
      then show ?thesis using zs d by (auto simp: List.insert_def)
    next
      case False
      then have "(z, zs) \<in> set rel"
        using z by (auto simp: add_to_set_def dest: set_alist_update)
      then show ?thesis using relation_wf_entry [OF wf] by auto
    qed
  qed
  show "edges (add_to_set rel x y) \<subseteq> dom (map_of nodes) \<times> dom (map_of nodes)"
    using assms(1,2,3) by (auto simp: edges_add_to_set relation_wf_def)
  show "acyclic (edges (add_to_set rel x y))"
    using wf no by (simp add: edges_add_to_set acyclic_insert reachable_id_iff relation_wf_def)
qed

lemma rbind_require_node:
  "rbind (require_node b x) f =
     (if x \<in> dom (map_of (gb_nodes b)) then f () else Inl ErrInvalidGraph)"
  by (auto simp: require_node_def)

lemma builder_wf_new: "builder_wf new_graph_builder"
  by (simp add: builder_wf_def new_graph_builder_def)

lemma builder_wf_add_evidence:
  assumes "builder_wf b" "evidence_wf e" "add_evidence b e = Inr b'"
  shows "builder_wf b'"
proof -
  have new: "map_of (gb_nodes b) (ev_id e) = None"
    and b': "b' = b\<lparr>gb_nodes := AList.update (ev_id e) e (gb_nodes b)\<rparr>"
    using assms(3) by (auto simp: add_evidence_def split: if_splits)
  have sub: "dom (map_of (gb_nodes b)) \<subseteq> dom (map_of (gb_nodes b'))"
    by (auto simp: b' update_conv')
  have same: "node_state (gb_nodes b') x = node_state (gb_nodes b) x"
    if ys: "(x, ys) \<in> set (gb_blocked b)" for x ys
  proof -
    have wf: "relation_wf (gb_nodes b) (gb_blocked b)"
      using assms(1) by (simp add: builder_wf_def)
    then obtain y where "y \<in> set (rel_get (gb_blocked b) x)"
      using relation_wf_entry [OF wf ys] by (cases ys) auto
    then have "x \<in> dom (map_of (gb_nodes b))"
      using relation_wf_dom [OF wf] by blast
    then show ?thesis
      using new by (auto simp: b' node_state_def update_conv')
  qed
  have "distinct (map fst (gb_nodes b'))"
    using assms(1) by (simp add: b' builder_wf_def distinct_update)
  moreover have "\<forall>(x, ev)\<in>set (gb_nodes b'). ev_id ev = x \<and> evidence_wf ev"
    using assms(1,2) by (auto simp: b' builder_wf_def dest!: set_alist_update)
  moreover have "relation_wf (gb_nodes b') (gb_parents b')" "relation_wf (gb_nodes b') (gb_blocked b')"
    using assms(1) relation_wf_mono [OF _ sub] by (simp_all add: builder_wf_def b')
  moreover have "\<forall>(x, ys)\<in>set (gb_blocked b'). node_state (gb_nodes b') x = StateSkipped"
    using assms(1) same by (auto simp: builder_wf_def b')
  ultimately show ?thesis
    by (simp add: builder_wf_def)
qed

lemma builder_wf_add_parent:
  assumes "builder_wf b" "add_parent b child parent = Inr b'"
  shows "builder_wf b'"
  using assms relation_wf_add [of "gb_nodes b" "gb_parents b" child parent]
  by (auto simp: add_parent_def rbind_require_node builder_wf_def split: if_splits)

lemma builder_wf_add_blocked_by:
  assumes "builder_wf b" "add_blocked_by b skipped blocker = Inr b'"
  shows "builder_wf b'"
  using assms relation_wf_add [of "gb_nodes b" "gb_blocked b" skipped blocker]
  by (auto simp: add_blocked_by_def rbind_require_node builder_wf_def add_to_set_def
      split: if_splits dest!: set_alist_update)

lemma built_wf: "built b \<Longrightarrow> builder_wf b"
proof (induction rule: built.induct)
  case start
  show ?case by (rule builder_wf_new)
next
  case (step b b')
  from step.hyps(2) step.IH show ?case
    by cases (auto intro: builder_wf_add_evidence builder_wf_add_parent builder_wf_add_blocked_by)
qed

subsection \<open>Freezing succeeds on what was built\<close>

lemma freeze_relation_ok:
  assumes wf: "relation_wf (gb_nodes b) rel"
  shows "freeze_relation b rel = Inr (map (\<lambda>(x, ys). (x, sort ys)) rel)"
proof -
  let ?g = "\<lambda>x y. if map_of (gb_nodes b) y = None then Inl ErrInvalidGraph
             else if y = x then Inl ErrInvalidGraph else Inr y"
  let ?f = "\<lambda>(x, targets). if map_of (gb_nodes b) x = None then Inl ErrInvalidGraph
         else rbind (traverse (?g x) targets) (\<lambda>ids. Inr (x, sort ids))"
  have edge: "x \<in> dom (map_of (gb_nodes b)) \<and> y \<in> dom (map_of (gb_nodes b)) \<and> y \<noteq> x"
    if "(x, ys) \<in> set rel" "y \<in> set ys" for x ys y
  proof -
    have e: "(x, y) \<in> edges rel"
      using relation_wf_entry(1) [OF wf that(1)] that(2) by simp
    moreover have "(x, x) \<notin> edges rel"
      using wf r_into_trancl [of x x "edges rel"] unfolding relation_wf_def acyclic_def by metis
    ultimately show ?thesis
      using relation_wf_dom [OF wf, of y x] by auto
  qed
  have entry: "?f (x, ys) = Inr (x, sort ys)" if m: "(x, ys) \<in> set rel" for x ys
  proof -
    have "ys \<noteq> []" by (rule relation_wf_entry(3) [OF wf m])
    then have x: "x \<in> dom (map_of (gb_nodes b))"
      using edge [OF m] by (cases ys) auto
    have "traverse (?g x) ys = Inr ys"
      using edge [OF m] by (auto simp: traverse_Inr_iff list_all2_same)
    then show ?thesis using x by auto
  qed
  have "traverse ?f rel = Inr (map (\<lambda>(x, ys). (x, sort ys)) rel)"
    using entry by (force simp: traverse_Inr_iff list_all2_map2 list_all2_same)
  moreover have "find_cycle rel = Some None"
    using wf by (simp add: find_cycle_acyclic relation_wf_def)
  ultimately show ?thesis
    by (simp add: freeze_relation_def)
qed

lemma rel_get_map_sort: "rel_get (map (\<lambda>(x, ys). (x, sort ys)) rel) z = sort (rel_get rel z)"
  by (simp add: rel_get_def map_of_map split: option.split)

text \<open>The frozen graph, in terms of the builder it came from.\<close>

definition frozen :: "builder \<Rightarrow> graph" where
  "frozen b =
     (let order = sort (map fst (gb_nodes b));
          parents = map (\<lambda>(x, ys). (x, sort ys)) (gb_parents b)
      in \<lparr>g_order = order, g_nodes = gb_nodes b, g_parents = parents,
          g_children = freeze_children order parents,
          g_blocked = map (\<lambda>(x, ys). (x, sort ys)) (gb_blocked b)\<rparr>)"

lemma freeze_ok: "builder_wf b \<Longrightarrow> freeze b = Inr (frozen b)"
  by (auto simp: freeze_def builder_wf_def freeze_relation_ok frozen_def Let_def list_ex_iff)

lemma rel_get_add_children:
  "rel_get (fold (add_child c) ps acc) p = rel_get acc p @ replicate (count_list ps p) c"
proof (induction ps arbitrary: acc)
  case Nil
  then show ?case by simp
next
  case (Cons q ps)
  have "rel_get (add_child c q acc) p = (if p = q then rel_get acc p @ [c] else rel_get acc p)"
    by (simp add: add_child_def rel_get_def update_conv')
  then show ?case
    using Cons by (simp add: replicate_app_Cons_same)
qed

lemma rel_get_freeze_children:
  assumes "\<And>c. distinct (rel_get parents c)" "sorted order"
  shows "rel_get (freeze_children order parents) p = filter (\<lambda>c. p \<in> set (rel_get parents c)) order"
proof -
  have "rel_get (fold (\<lambda>child. fold (add_child child) (rel_get parents child)) order acc) p
      = rel_get acc p @ filter (\<lambda>c. p \<in> set (rel_get parents c)) order" for acc
  proof (induction order arbitrary: acc)
    case Nil
    then show ?case by simp
  next
    case (Cons c order)
    have "replicate (count_list (rel_get parents c) p) c = (if p \<in> set (rel_get parents c) then [c] else [])"
      using assms(1) [of c] by (auto simp: distinct_count_list)
    then show ?case
      using Cons by (simp add: rel_get_add_children)
  qed
  then show ?thesis
    using assms(2) by (simp add: freeze_children_def rel_get_map_sort rel_get_def [of "[]"] sorted_wrt_filter sorted_sort_id)
qed

subsection \<open>What a reader of a graph may rely on\<close>

text \<open>The contract of the read methods of \<open>Graph\<close>: \<open>order\<close> is the order in which \<open>Nodes\<close> lists
  the evidence.\<close>

locale evidence_view =
  fixes good :: "'g \<Rightarrow> bool" and order :: "'g \<Rightarrow> evidence_id list"
    and node :: "'g \<Rightarrow> evidence_id \<Rightarrow> evidence option" and nodes :: "'g \<Rightarrow> evidence list"
    and parents children blocked_by :: "'g \<Rightarrow> evidence_id \<Rightarrow> evidence_id list"
  assumes order_sorted: "good g \<Longrightarrow> sorted (order g) \<and> distinct (order g)"
    and node_known: "good g \<Longrightarrow> node g x \<noteq> None \<longleftrightarrow> x \<in> set (order g)"
    and node_made: "good g \<Longrightarrow> node g x = Some e \<Longrightarrow> ev_id e = x \<and> evidence_wf e"
    and nodes_order: "good g \<Longrightarrow> map Some (nodes g) = map (node g) (order g)"
    and relations_sorted: "good g \<Longrightarrow> sorted (parents g x) \<and> distinct (parents g x)
      \<and> sorted (children g x) \<and> distinct (children g x)
      \<and> sorted (blocked_by g x) \<and> distinct (blocked_by g x)"
    and parent_child: "good g \<Longrightarrow> p \<in> set (parents g c) \<longleftrightarrow> c \<in> set (children g p)"
    and parent_known: "good g \<Longrightarrow> p \<in> set (parents g c) \<Longrightarrow> {p, c} \<subseteq> set (order g)"
    and blocker_known: "good g \<Longrightarrow> y \<in> set (blocked_by g x) \<Longrightarrow> {x, y} \<subseteq> set (order g)"
    and blocked_skipped:
      "good g \<Longrightarrow> node g x = Some e \<Longrightarrow> blocked_by g x \<noteq> [] \<Longrightarrow> ev_state e = StateSkipped"
    and parents_acyclic: "good g \<Longrightarrow> acyclic {(c, p). p \<in> set (parents g c)}"
    and blocked_acyclic: "good g \<Longrightarrow> acyclic {(x, y). y \<in> set (blocked_by g x)}"
begin

lemma nodes_ids:
  assumes "good g"
  shows "map ev_id (nodes g) = order g"
  by (rule map_Some_keys [OF nodes_order [OF assms]]) (use node_made [OF assms] in auto)

lemma nodes_iff:
  assumes "good g"
  shows "e \<in> set (nodes g) \<longleftrightarrow> node g (ev_id e) = Some e"
proof
  assume "e \<in> set (nodes g)"
  then have "Some e \<in> set (map (node g) (order g))"
    using nodes_order [OF assms] by (metis image_eqI list.set_map)
  then obtain x where "node g x = Some e"
    by auto
  then show "node g (ev_id e) = Some e"
    using node_made [OF assms] by auto
next
  assume e: "node g (ev_id e) = Some e"
  then have "ev_id e \<in> set (order g)"
    using node_known [OF assms] by auto
  then have "Some e \<in> set (map Some (nodes g))"
    unfolding nodes_order [OF assms] using e by (force simp: image_iff)
  then show "e \<in> set (nodes g)"
    by auto
qed

lemma nodes_wf: "good g \<Longrightarrow> e \<in> set (nodes g) \<Longrightarrow> evidence_wf e"
  using node_made nodes_iff by metis

lemma nodes_distinct: "good g \<Longrightarrow> distinct (map ev_id (nodes g))"
  using order_sorted by (simp add: nodes_ids)

text \<open>Every node has an ancestor without parents.\<close>

lemma root_ancestor:
  assumes "good g"
  shows "\<exists>r. (x, r) \<in> {(c, p). p \<in> set (parents g c)}\<^sup>* \<and> parents g r = []"
proof -
  let ?R = "{(c, p). p \<in> set (parents g c)}"
  have "?R \<subseteq> set (order g) \<times> set (order g)"
    using parent_known [OF assms] by blast
  then have "finite ?R"
    by (rule finite_subset) simp
  then have "wf (?R\<inverse>)"
    using parents_acyclic [OF assms] by (simp add: finite_acyclic_wf_converse)
  then show ?thesis
  proof (induction x rule: wf_induct_rule)
    case (less x)
    show ?case
    proof (cases "parents g x")
      case (Cons p ps)
      then obtain r where "(p, r) \<in> ?R\<^sup>*" "parents g r = []"
        using less [of p] by auto
      moreover have "(x, p) \<in> ?R"
        using Cons by simp
      ultimately show ?thesis
        by (meson converse_rtrancl_into_rtrancl)
    qed auto
  qed
qed

end

definition graph_wf :: "graph \<Rightarrow> bool" where
  "graph_wf g \<longleftrightarrow> (\<exists>b. built b \<and> freeze b = Inr g)"

lemma frozen_relation:
  assumes "relation_wf nodes rel"
  shows "acyclic {(x, y). y \<in> set (rel_get (map (\<lambda>(x, ys). (x, sort ys)) rel) x)}"
proof -
  have "{(x, y). y \<in> set (rel_get (map (\<lambda>(x, ys). (x, sort ys)) rel) x)} = edges rel"
    by (auto simp: rel_get_map_sort)
  then show ?thesis
    using assms by (simp add: relation_wf_def)
qed

lemma graph_wf_frozen:
  assumes "graph_wf g"
  obtains b where "builder_wf b" "g = frozen b"
proof -
  obtain b where b: "built b" "freeze b = Inr g"
    using assms unfolding graph_wf_def by blast
  then have "builder_wf b"
    by (intro built_wf)
  with b(2) that show thesis
    by (simp add: freeze_ok)
qed

lemma frozen_reads:
  assumes "builder_wf b"
  shows "g_order (frozen b) = sort (map fst (gb_nodes b))"
    and "graph_node (frozen b) x = map_of (gb_nodes b) x"
    and "graph_parents (frozen b) x = sort (rel_get (gb_parents b) x)"
    and "graph_blocked_by (frozen b) x = sort (rel_get (gb_blocked b) x)"
    and "graph_children (frozen b) x
      = filter (\<lambda>c. x \<in> set (rel_get (gb_parents b) c)) (sort (map fst (gb_nodes b)))"
proof -
  have "distinct (rel_get (gb_parents b) c)" for c
    using assms relation_wf_distinct by (auto simp: builder_wf_def)
  then show "graph_children (frozen b) x
      = filter (\<lambda>c. x \<in> set (rel_get (gb_parents b) c)) (sort (map fst (gb_nodes b)))"
    by (simp add: graph_children_def frozen_def Let_def rel_get_freeze_children rel_get_map_sort)
qed (simp_all add: graph_node_def graph_parents_def graph_blocked_by_def frozen_def Let_def
    rel_get_map_sort)

lemma frozen_sorted:
  assumes "builder_wf b"
  shows "sorted_wrt (<) (graph_parents (frozen b) x)"
    and "sorted_wrt (<) (graph_children (frozen b) x)"
    and "sorted_wrt (<) (graph_blocked_by (frozen b) x)"
proof -
  have "distinct (rel_get (gb_parents b) x)" "distinct (rel_get (gb_blocked b) x)"
    using assms relation_wf_distinct by (auto simp: builder_wf_def)
  then show "sorted_wrt (<) (graph_parents (frozen b) x)"
    "sorted_wrt (<) (graph_children (frozen b) x)" "sorted_wrt (<) (graph_blocked_by (frozen b) x)"
    using assms by (simp_all add: frozen_reads builder_wf_def strict_sorted_iff sorted_wrt_filter distinct_filter)
qed

lemma frozen_nodes:
  assumes "builder_wf b"
  shows "map Some (graph_nodes (frozen b)) = map (graph_node (frozen b)) (g_order (frozen b))"
proof -
  have "map_of (gb_nodes b) x = Some (case map_of (gb_nodes b) x of Some e \<Rightarrow> e | None \<Rightarrow> zero_evidence)"
    if "x \<in> set (map fst (gb_nodes b))" for x
    using that by (cases "map_of (gb_nodes b) x") (simp_all add: map_of_eq_None_iff)
  then have "map (map_of (gb_nodes b)) (sort (map fst (gb_nodes b)))
    = map (\<lambda>x. Some (case map_of (gb_nodes b) x of Some e \<Rightarrow> e | None \<Rightarrow> zero_evidence))
        (sort (map fst (gb_nodes b)))"
    by (intro map_cong) simp_all
  then show ?thesis
    by (simp add: graph_nodes_def graph_node_def frozen_def Let_def o_def)
qed

interpretation graph_view: evidence_view graph_wf g_order graph_node graph_nodes graph_parents
    graph_children graph_blocked_by
proof (unfold_locales, goal_cases)
  case (1 g)
  then obtain b where b: "builder_wf b" "g = frozen b" by (rule graph_wf_frozen)
  then show ?case by (simp add: frozen_reads builder_wf_def)
next
  case (2 g x)
  then obtain b where b: "builder_wf b" "g = frozen b" by (rule graph_wf_frozen)
  then show ?case by (simp add: frozen_reads map_of_eq_None_iff)
next
  case (3 g x e)
  then obtain b where b: "builder_wf b" "g = frozen b" using graph_wf_frozen by blast
  then show ?case using 3(2) by (auto simp: frozen_reads builder_wf_def dest!: map_of_SomeD)
next
  case (4 g)
  then obtain b where b: "builder_wf b" "g = frozen b" by (rule graph_wf_frozen)
  then show ?case by (simp add: frozen_nodes)
next
  case (5 g x)
  then obtain b where b: "builder_wf b" "g = frozen b" by (rule graph_wf_frozen)
  have "distinct (rel_get (gb_parents b) x)" "distinct (rel_get (gb_blocked b) x)"
    using b relation_wf_distinct by (auto simp: builder_wf_def)
  then show ?case using b by (simp add: frozen_reads builder_wf_def sorted_wrt_filter)
next
  case (6 g p c)
  then obtain b where b: "builder_wf b" "g = frozen b" by (rule graph_wf_frozen)
  then have "relation_wf (gb_nodes b) (gb_parents b)"
    by (simp add: builder_wf_def)
  from relation_wf_dom [OF this, of p c] b show ?case
    by (auto simp: frozen_reads dom_map_of_conv_image_fst)
next
  case (7 g p c)
  then obtain b where b: "builder_wf b" "g = frozen b" using graph_wf_frozen by blast
  then have "relation_wf (gb_nodes b) (gb_parents b)"
    by (simp add: builder_wf_def)
  from relation_wf_dom [OF this, of p c] b 7(2) show ?case
    by (auto simp: frozen_reads dom_map_of_conv_image_fst)
next
  case (8 g y x)
  then obtain b where b: "builder_wf b" "g = frozen b" using graph_wf_frozen by blast
  then have "relation_wf (gb_nodes b) (gb_blocked b)"
    by (simp add: builder_wf_def)
  from relation_wf_dom [OF this, of y x] b 8(2) show ?case
    by (auto simp: frozen_reads dom_map_of_conv_image_fst)
next
  case (9 g x e)
  then obtain b where b: "builder_wf b" "g = frozen b" using graph_wf_frozen by blast
  then obtain y where "y \<in> set (rel_get (gb_blocked b) x)"
    using 9(3) by (cases "rel_get (gb_blocked b) x") (auto simp: frozen_reads)
  then have "x \<in> fst ` set (gb_blocked b)"
    by (rule rel_get_key)
  then show ?case
    using b 9(2) by (force simp: frozen_reads builder_wf_def node_state_def)
next
  case (10 g)
  then obtain b where b: "builder_wf b" "g = frozen b" by (rule graph_wf_frozen)
  then show ?case
    using frozen_relation [of "gb_nodes b" "gb_parents b"]
    by (simp add: frozen_reads builder_wf_def rel_get_map_sort)
next
  case (11 g)
  then obtain b where b: "builder_wf b" "g = frozen b" by (rule graph_wf_frozen)
  then show ?case
    using frozen_relation [of "gb_nodes b" "gb_blocked b"]
    by (simp add: frozen_reads builder_wf_def rel_get_map_sort)
qed

subsection \<open>A small graph\<close>

text \<open>A name lookup that passed, a connection that failed, and a handshake that was therefore
  skipped: the concrete input of the witnesses.\<close>

definition demo_subject :: subject where
  "demo_subject = \<lparr>subj_kind = SubjectKindEndpoint, subj_ref = ''db:5432''\<rparr>"

definition demo_evidence :: "string \<Rightarrow> layer \<Rightarrow> state \<Rightarrow> failure_class \<Rightarrow> evidence" where
  "demo_evidence x l st f = \<lparr>ev_id = x, ev_subject = demo_subject, ev_layer = l, ev_step = x,
     ev_state = st, ev_failure = f, ev_attributes = [(''n'', int_attr 1)], ev_started = 1,
     ev_elapsed = measured 5\<rparr>"

definition demo_dns :: evidence where
  "demo_dns = demo_evidence ''dns'' LayerDNS StatePass FailureNone"

definition demo_tcp :: evidence where
  "demo_tcp = demo_evidence ''tcp'' LayerTCP StateFail FailureTCPConnectionRefused"

definition demo_tls :: evidence where
  "demo_tls = demo_evidence ''tls'' LayerTLS StateSkipped FailureExecSkippedPrerequisiteFailed"

definition demo_run :: "domain_error + builder" where
  "demo_run =
     rbind (add_evidence new_graph_builder demo_dns) (\<lambda>b.
     rbind (add_evidence b demo_tcp) (\<lambda>b.
     rbind (add_evidence b demo_tls) (\<lambda>b.
     rbind (add_parent b ''tcp'' ''dns'') (\<lambda>b.
     rbind (add_parent b ''tls'' ''tcp'') (\<lambda>b.
     add_blocked_by b ''tls'' ''tcp'')))))"

definition demo_builder :: builder where
  "demo_builder = \<lparr>gb_nodes = [(''dns'', demo_dns), (''tcp'', demo_tcp), (''tls'', demo_tls)],
     gb_parents = [(''tcp'', [''dns'']), (''tls'', [''tcp''])], gb_blocked = [(''tls'', [''tcp''])]\<rparr>"

lemmas eval_demo = demo_dns_def demo_tcp_def demo_tls_def demo_evidence_def demo_subject_def

lemmas eval_evidence = evidence_wf_def subject_is_zero_def zero_subject_def subject_kind_valid_def
  layer_valid_def state_valid_def failure_class_valid_def attribute_key_valid_def attr_valid_def
  attr_kind_valid_def step_valid_def measured_def int_attr_def zero_attr_def eval_dotted

lemma demo_evidence_wf: "evidence_wf demo_dns" "evidence_wf demo_tcp" "evidence_wf demo_tls"
  by (simp_all add: eval_demo eval_evidence eval_identifier)

lemma demo_run_ok: "demo_run = Inr demo_builder"
  by (simp add: demo_run_def demo_builder_def eval_demo add_evidence_def evidence_is_zero_def
      new_graph_builder_def add_parent_def add_blocked_by_def rbind_require_node reachable_id_def
      rel_get_def add_to_set_def node_state_def)

lemma demo_built: "built demo_builder"
proof -
  obtain b1 b2 b3 b4 b5 where
    "add_evidence new_graph_builder demo_dns = Inr b1" "add_evidence b1 demo_tcp = Inr b2"
    "add_evidence b2 demo_tls = Inr b3" "add_parent b3 ''tcp'' ''dns'' = Inr b4"
    "add_parent b4 ''tls'' ''tcp'' = Inr b5" "add_blocked_by b5 ''tls'' ''tcp'' = Inr demo_builder"
    using demo_run_ok by (auto simp: demo_run_def rbind_Inr_iff)
  then show ?thesis
    using demo_evidence_wf new_evidence_Inr built.intros builder_step.intros by metis
qed

definition demo_graph :: graph where
  "demo_graph = \<lparr>g_order = [''dns'', ''tcp'', ''tls''], g_nodes = gb_nodes demo_builder,
     g_parents = [(''tcp'', [''dns'']), (''tls'', [''tcp''])],
     g_children = [(''dns'', [''tcp'']), (''tcp'', [''tls''])],
     g_blocked = [(''tls'', [''tcp''])]\<rparr>"

lemma demo_freeze: "freeze demo_builder = Inr demo_graph"
  by (simp add: freeze_def freeze_relation_def find_cycle_def demo_builder_def demo_graph_def
      rel_get_def freeze_children_def add_child_def node_state_def eval_demo Let_def)

lemma demo_graph_wf: "graph_wf demo_graph"
  unfolding graph_wf_def using demo_built demo_freeze by blast

subsection \<open>Properties\<close>

text \<open>The worklist walk of \<open>reachable\<close> always ends and answers exactly whether the target can
  be reached from the start along the relation, whatever the iteration order of the maps.\<close>

theorem reachable_decides:
  "reachable_id rel start target \<longleftrightarrow> (start, target) \<in> {(x, y). y \<in> set (rel_get rel x)}\<^sup>*"
  using reachable_id_iff by (simp add: edges_def)

text \<open>C31: \<open>findCycle\<close> always returns; it reports nothing exactly for an acyclic relation, and the id
  it reports otherwise lies on a cycle.\<close>

theorem find_cycle_correct:
  "find_cycle rel \<noteq> None
   \<and> (find_cycle rel = Some None \<longleftrightarrow> acyclic (edges rel))
   \<and> (\<forall>c. find_cycle rel = Some (Some c) \<longrightarrow> (c, c) \<in> (edges rel)\<^sup>+)"
proof (intro conjI allI impI)
  show "find_cycle rel \<noteq> None" by (rule find_cycle_total)
  show "find_cycle rel = Some None \<longleftrightarrow> acyclic (edges rel)" by (rule find_cycle_acyclic)
next
  fix c assume "find_cycle rel = Some (Some c)"
  then obtain m where "visit_all (Suc (length rel)) rel (sort (map fst rel)) Map.empty = Some (m, Some c)"
    by (auto simp: find_cycle_def)
  then show "(c, c) \<in> (edges rel)\<^sup>+"
    by (rule visit_found(2)) (simp_all add: finished_ok_def marked_def)
qed

theorem find_cycle_correct_witness:
  "find_cycle [(''a'', [''b'']), (''b'', [''a''])] = Some (Some ''a'')
   \<and> (''a'', ''a'') \<in> (edges [(''a'', [''b'']), (''b'', [''a''])])\<^sup>+"
proof -
  have f: "find_cycle [(''a'', [''b'']), (''b'', [''a''])] = Some (Some ''a'')"
    by (simp add: find_cycle_def rel_get_def)
  then show ?thesis
    using find_cycle_correct [of "[(''a'', [''b'']), (''b'', [''a''])]"] by blast
qed

text \<open>C25: On a builder made by builder calls, \<open>AddParent\<close> succeeds exactly when both nodes are in
  the graph and the new edge leaves the parent relation acyclic; it then adds that edge and
  changes nothing else.\<close>

theorem add_parent_exact:
  assumes "built b"
  shows "(is_ok (add_parent b child parent) \<longleftrightarrow>
      {child, parent} \<subseteq> dom (map_of (gb_nodes b))
      \<and> acyclic (insert (child, parent) (edges (gb_parents b))))
    \<and> (\<forall>b'. add_parent b child parent = Inr b' \<longrightarrow>
      edges (gb_parents b') = insert (child, parent) (edges (gb_parents b))
      \<and> gb_nodes b' = gb_nodes b \<and> gb_blocked b' = gb_blocked b)"
proof -
  have "acyclic (edges (gb_parents b))"
    using built_wf [OF assms] by (simp add: builder_wf_def relation_wf_def)
  then show ?thesis
    by (auto simp: add_parent_def rbind_require_node reachable_id_iff acyclic_insert edges_add_to_set)
qed

theorem add_parent_exact_witness:
  "is_ok (add_parent demo_builder ''tls'' ''dns'') \<and> \<not> is_ok (add_parent demo_builder ''dns'' ''tls'')
   \<and> acyclic (insert (''tls'', ''dns'') (edges (gb_parents demo_builder)))"
proof -
  have "is_ok (add_parent demo_builder ''tls'' ''dns'')" "\<not> is_ok (add_parent demo_builder ''dns'' ''tls'')"
    by (simp_all add: add_parent_def rbind_require_node demo_builder_def reachable_id_def rel_get_def)
  then show ?thesis
    using add_parent_exact [OF demo_built, of "''tls''" "''dns''"] by blast
qed

text \<open>C26: Whatever sequence of builder calls was made, \<open>Freeze\<close> succeeds, and the graph has the
  builder's nodes, listed in the order of their ids, parents and blockers as recorded, and
  children that are exactly the inverse of the parents; all three are listed in the order of the ids
  and without repetition; both relations are acyclic and only SKIPPED evidence is blocked.\<close>

theorem freeze_total:
  assumes "built b"
  shows "\<exists>g. freeze b = Inr g
    \<and> g_order g = sort (map fst (gb_nodes b)) \<and> map ev_id (graph_nodes g) = g_order g
    \<and> (\<forall>x. graph_node g x = map_of (gb_nodes b) x)
    \<and> (\<forall>x. set (graph_parents g x) = {p. (x, p) \<in> edges (gb_parents b)})
    \<and> (\<forall>x. set (graph_children g x) = {c. (c, x) \<in> edges (gb_parents b)})
    \<and> (\<forall>x. set (graph_blocked_by g x) = {y. (x, y) \<in> edges (gb_blocked b)})
    \<and> (\<forall>x. sorted_wrt (<) (graph_parents g x) \<and> sorted_wrt (<) (graph_children g x)
        \<and> sorted_wrt (<) (graph_blocked_by g x))
    \<and> acyclic {(c, p). p \<in> set (graph_parents g c)}
    \<and> acyclic {(x, y). y \<in> set (graph_blocked_by g x)}
    \<and> (\<forall>e\<in>set (graph_nodes g). graph_blocked_by g (ev_id e) \<noteq> [] \<longrightarrow> ev_state e = StateSkipped)"
proof -
  have wf: "builder_wf b"
    by (rule built_wf [OF assms])
  then have f: "freeze b = Inr (frozen b)"
    by (rule freeze_ok)
  then have g: "graph_wf (frozen b)"
    using assms by (auto simp: graph_wf_def)
  have "set (graph_children (frozen b) x) = {c. (c, x) \<in> edges (gb_parents b)}" for x
    using graph_view.parent_child [OF g, of x] frozen_reads(3) [OF wf] by auto
  then show ?thesis
    using f frozen_reads(1-4) [OF wf] frozen_sorted [OF wf] graph_view.nodes_ids [OF g]
      graph_view.parents_acyclic [OF g] graph_view.blocked_acyclic [OF g] graph_view.blocked_skipped [OF g]
      graph_view.nodes_iff [OF g]
    by (intro exI [of _ "frozen b"]) auto
qed

theorem freeze_total_witness:
  "\<exists>g. freeze demo_builder = Inr g \<and> g_order g = [''dns'', ''tcp'', ''tls'']
    \<and> set (graph_children g ''dns'') = {''tcp''}"
  using freeze_total [OF demo_built] by (force simp: demo_builder_def edges_def rel_get_def)

text \<open>The order in which a graph was built does not show: two builders that hold the same nodes
  and the same edges freeze to graphs with the same reads, lists included.\<close>

theorem freeze_order_independent:
  assumes "built b1" "built b2"
    and "map_of (gb_nodes b1) = map_of (gb_nodes b2)"
    and "edges (gb_parents b1) = edges (gb_parents b2)"
    and "edges (gb_blocked b1) = edges (gb_blocked b2)"
    and "freeze b1 = Inr g1" "freeze b2 = Inr g2"
  shows "graph_nodes g1 = graph_nodes g2 \<and> graph_node g1 = graph_node g2
    \<and> graph_parents g1 = graph_parents g2 \<and> graph_children g1 = graph_children g2
    \<and> graph_blocked_by g1 = graph_blocked_by g2"
proof -
  have wf: "builder_wf b1" "builder_wf b2"
    using assms(1,2) by (simp_all add: built_wf)
  then have g: "g1 = frozen b1" "g2 = frozen b2"
    using assms(6,7) by (simp_all add: freeze_ok)
  have order: "sort (map fst (gb_nodes b1)) = sort (map fst (gb_nodes b2))"
    using wf map_of_keys_eq [OF assms(3)] by (intro sort_set_unique) (auto simp: builder_wf_def)
  have d: "distinct (rel_get (gb_parents b) x) \<and> distinct (rel_get (gb_blocked b) x)"
    if "builder_wf b" for b x
    using that relation_wf_distinct by (auto simp: builder_wf_def)
  have par: "set (rel_get (gb_parents b1) x) = set (rel_get (gb_parents b2) x)" for x
    using assms(4) by (auto simp: edges_def)
  have blk: "set (rel_get (gb_blocked b1) x) = set (rel_get (gb_blocked b2) x)" for x
    using assms(5) by (auto simp: edges_def)
  have parents: "sort (rel_get (gb_parents b1) x) = sort (rel_get (gb_parents b2) x)" for x
    using d [OF wf(1)] d [OF wf(2)] par by (intro sort_set_unique) auto
  have blocked: "sort (rel_get (gb_blocked b1) x) = sort (rel_get (gb_blocked b2) x)" for x
    using d [OF wf(1)] d [OF wf(2)] blk by (intro sort_set_unique) auto
  have node: "graph_node g1 = graph_node g2"
    using assms(3) by (simp add: g fun_eq_iff frozen_reads(2) wf)
  have "map Some (graph_nodes g1) = map Some (graph_nodes g2)"
    using frozen_nodes [OF wf(1)] frozen_nodes [OF wf(2)] node order
    by (simp add: g frozen_reads(1) wf)
  then have "graph_nodes g1 = graph_nodes g2"
    by (simp add: inj_map_eq_map)
  then show ?thesis
    using node parents blocked par order by (simp add: g fun_eq_iff frozen_reads wf)
qed

definition demo_builder_reordered :: "domain_error + builder" where
  "demo_builder_reordered =
     rbind (add_evidence new_graph_builder demo_tls) (\<lambda>b.
     rbind (add_evidence b demo_tcp) (\<lambda>b.
     rbind (add_blocked_by b ''tls'' ''tcp'') (\<lambda>b.
     rbind (add_parent b ''tls'' ''tcp'') (\<lambda>b.
     rbind (add_evidence b demo_dns) (\<lambda>b.
     add_parent b ''tcp'' ''dns'')))))"

theorem freeze_order_independent_witness:
  "\<exists>b2 g2. demo_builder_reordered = Inr b2 \<and> gb_nodes b2 \<noteq> gb_nodes demo_builder
     \<and> freeze b2 = Inr g2 \<and> graph_nodes g2 = graph_nodes demo_graph"
proof -
  define b2 :: builder where
    "b2 = \<lparr>gb_nodes = [(''tls'', demo_tls), (''tcp'', demo_tcp), (''dns'', demo_dns)],
       gb_parents = [(''tls'', [''tcp'']), (''tcp'', [''dns''])], gb_blocked = [(''tls'', [''tcp''])]\<rparr>"
  have run: "demo_builder_reordered = Inr b2"
    by (simp add: demo_builder_reordered_def b2_def eval_demo add_evidence_def evidence_is_zero_def
      new_graph_builder_def add_parent_def add_blocked_by_def rbind_require_node reachable_id_def
      rel_get_def add_to_set_def node_state_def)
  then obtain c1 c2 c3 c4 c5 where
    "add_evidence new_graph_builder demo_tls = Inr c1" "add_evidence c1 demo_tcp = Inr c2"
    "add_blocked_by c2 ''tls'' ''tcp'' = Inr c3" "add_parent c3 ''tls'' ''tcp'' = Inr c4"
    "add_evidence c4 demo_dns = Inr c5" "add_parent c5 ''tcp'' ''dns'' = Inr b2"
    by (auto simp: demo_builder_reordered_def rbind_Inr_iff)
  then have built: "built b2"
    using demo_evidence_wf new_evidence_Inr built.intros builder_step.intros by metis
  obtain g2 where g2: "freeze b2 = Inr g2"
    using freeze_ok [OF built_wf [OF built]] by blast
  have "map_of (gb_nodes b2) = map_of (gb_nodes demo_builder)"
    by (auto simp: b2_def demo_builder_def fun_eq_iff)
  moreover have "edges (gb_parents b2) = edges (gb_parents demo_builder)"
    by (auto simp: b2_def demo_builder_def edges_def rel_get_def split: if_splits)
  moreover have "edges (gb_blocked b2) = edges (gb_blocked demo_builder)"
    by (simp add: b2_def demo_builder_def)
  ultimately have "graph_nodes g2 = graph_nodes demo_graph"
    using freeze_order_independent [OF built demo_built _ _ _ g2 demo_freeze] by blast
  then show ?thesis
    using run g2 by (auto simp: b2_def demo_builder_def eval_demo)
qed

end
