(* ===== verification/Finding.thy ===== *)
theory Finding
  imports Graph
begin

text \<open>
  Package \<open>internal/domain\<close>: recommendations (\<open>recommendation.go\<close>, the predicates of
  \<open>recommendationkind.go\<close>), findings (\<open>finding.go\<close>) and the canonical order of findings
  (\<open>SortFindings\<close> of \<open>report.go\<close>).
\<close>

subsection \<open>Recommendations\<close>

fun safety_producible :: "safety_class \<Rightarrow> bool" where
  "safety_producible SafetyObserve = True"
| "safety_producible SafetyVerify = True"
| "safety_producible SafetyCompare = True"
| "safety_producible SafetyConfigChange = True"
| "safety_producible _ = False"

fun safety_changes_nothing :: "safety_class \<Rightarrow> bool" where
  "safety_changes_nothing SafetyObserve = True"
| "safety_changes_nothing SafetyVerify = True"
| "safety_changes_nothing SafetyCompare = True"
| "safety_changes_nothing _ = False"

record recommendation =
  rec_action :: string
  rec_kind :: recommendation_kind
  rec_safety :: safety_class
  rec_rationale :: string
  rec_self_collectable :: bool

type_synonym recommendation_input = recommendation

definition new_recommendation :: "string \<Rightarrow> domain_error + recommendation" where
  "new_recommendation action =
     rbind (validate_identifier action) (\<lambda>_.
     Inr \<lparr>rec_action = action, rec_kind = RecommendationKindUnspecified,
       rec_safety = SafetyUnspecified, rec_rationale = [], rec_self_collectable = False\<rparr>)"

definition new_classified_recommendation ::
    "recommendation_input \<Rightarrow> domain_error + recommendation" where
  "new_classified_recommendation r =
     rbind (validate_identifier (rec_action r)) (\<lambda>_.
     if \<not> recommendation_kind_valid (rec_kind r) then Inl ErrInvalidValue
     else if \<not> safety_class_valid (rec_safety r) then Inl ErrInvalidValue
     else if \<not> safety_producible (rec_safety r) then Inl ErrInvalidValue
     else if rec_kind r = RecommendationKindNextEvidence \<and> \<not> safety_changes_nothing (rec_safety r)
       then Inl ErrInvalidValue
     else if rec_kind r = RecommendationKindRemediation \<and> rec_self_collectable r
       then Inl ErrInvalidValue
     else rbind (validate_identifier (rec_rationale r)) (\<lambda>_. Inr r))"

definition rec_classified :: "recommendation \<Rightarrow> bool" where
  "rec_classified r \<longleftrightarrow> recommendation_kind_valid (rec_kind r)"

definition rec_is_zero :: "recommendation \<Rightarrow> bool" where
  "rec_is_zero r \<longleftrightarrow> rec_action r = []"

definition rec_string :: "recommendation \<Rightarrow> string" where
  "rec_string r = (if rec_is_zero r then ''<invalid recommendation>'' else rec_action r)"

text \<open>The \<open>omitempty\<close> fields: kind and safety are numbers, left out when zero; a pointer is left
  out when nil.\<close>

definition rec_json :: "recommendation \<Rightarrow> domain_error + json" where
  "rec_json r =
     (if rec_is_zero r then Inl ErrInvalidValue
      else rbind (if rec_kind r = RecommendationKindUnspecified then Inr []
                  else rbind (recommendation_kind_json (rec_kind r)) (\<lambda>j. Inr [(''kind'', j)])) (\<lambda>kind.
           rbind (if rec_safety r = SafetyUnspecified then Inr []
                  else rbind (safety_class_json (rec_safety r)) (\<lambda>j. Inr [(''safety'', j)])) (\<lambda>safety.
           Inr (JObj ([(''action'', JStr (rec_action r))] @ kind @ safety
             @ (if rec_rationale r = [] then [] else [(''rationale'', JStr (rec_rationale r))])
             @ (if rec_kind r = RecommendationKindNextEvidence
                then [(''selfCollectable'', JBool (rec_self_collectable r))] else []))))))"

text \<open>What a recommendation made by either constructor satisfies.\<close>

definition rec_wf :: "recommendation \<Rightarrow> bool" where
  "rec_wf r \<longleftrightarrow>
     is_ok (validate_identifier (rec_action r))
     \<and> (rec_kind r = RecommendationKindUnspecified \<and> rec_safety r = SafetyUnspecified
          \<and> rec_rationale r = [] \<and> \<not> rec_self_collectable r
        \<or> recommendation_kind_valid (rec_kind r) \<and> safety_producible (rec_safety r)
          \<and> (rec_kind r = RecommendationKindNextEvidence \<longrightarrow> safety_changes_nothing (rec_safety r))
          \<and> (rec_kind r = RecommendationKindRemediation \<longrightarrow> \<not> rec_self_collectable r)
          \<and> is_ok (validate_identifier (rec_rationale r)))"

lemma safety_producible_valid: "safety_producible c \<Longrightarrow> safety_class_valid c"
  by (cases c) (simp_all add: safety_class_valid_def)

lemma new_recommendation_wf: "new_recommendation a = Inr r \<Longrightarrow> rec_wf r \<and> rec_action r = a"
  by (auto simp: new_recommendation_def rbind_validators rec_wf_def split: if_splits)

lemma new_classified_recommendation_Inr:
  "new_classified_recommendation i = Inr r \<longleftrightarrow> r = i \<and> rec_wf i \<and> rec_classified i"
  unfolding new_classified_recommendation_def rec_wf_def rec_classified_def rbind_validators
  using safety_producible_valid [of "rec_safety i"]
  by (auto simp: recommendation_kind_valid_def)

lemma rec_wf_not_zero: "rec_wf r \<Longrightarrow> \<not> rec_is_zero r"
  by (auto simp: rec_wf_def rec_is_zero_def validate_identifier_ok)

lemma rec_wf_json_ok: "rec_wf r \<Longrightarrow> is_ok (rec_json r)"
  using rec_wf_not_zero [of r] safety_producible_valid [of "rec_safety r"]
  by (auto simp: rec_json_def rec_wf_def recommendation_kind_json_def safety_class_json_def
      recommendation_kind_valid_def safety_class_valid_def)

subsection \<open>Findings\<close>

record finding =
  f_code :: finding_code
  f_kind :: finding_kind
  f_severity :: severity
  f_confidence :: confidence
  f_layer :: layer
  f_subject :: subject
  f_summary :: string
  f_detail :: string
  f_refs :: "evidence_id list"
  f_recs :: "recommendation list"
  f_vantage :: bool
  f_discriminator :: string

text \<open>\<open>FindingInput\<close> has the fields of \<open>Finding\<close>.\<close>

type_synonym finding_input = finding

definition normalize_evidence_refs :: "evidence_id list \<Rightarrow> domain_error + evidence_id list" where
  "normalize_evidence_refs ids =
     (if ids = [] then Inl ErrInvalidValue
      else rbind (traverse (\<lambda>x. rbind (validate_identifier x) (\<lambda>_. Inr x)) ids) (\<lambda>checked.
        Inr (sort (dedup checked))))"

definition copy_recommendations :: "recommendation list \<Rightarrow> domain_error + recommendation list" where
  "copy_recommendations rs =
     (if rs = [] then Inr []
      else traverse (\<lambda>r. if rec_is_zero r then Inl ErrInvalidValue else Inr r) rs)"

definition new_finding :: "finding_input \<Rightarrow> domain_error + finding" where
  "new_finding f =
     (if \<not> finding_code_valid (f_code f) then Inl ErrInvalidValue
      else if \<not> finding_kind_valid (f_kind f) then Inl ErrInvalidValue
      else if \<not> severity_valid (f_severity f) then Inl ErrInvalidValue
      else if \<not> confidence_valid (f_confidence f) then Inl ErrInvalidValue
      else if \<not> layer_valid (f_layer f) then Inl ErrInvalidValue
      else if \<not> subject_is_zero (f_subject f) \<and> \<not> subject_kind_valid (subj_kind (f_subject f))
        then Inl ErrInvalidValue
      else rbind (validate_identifier (f_summary f)) (\<lambda>_.
        rbind (if f_detail f \<noteq> [] then validate_prose (f_detail f) else Inr ()) (\<lambda>_.
        rbind (if f_discriminator f \<noteq> [] then validate_identifier (f_discriminator f) else Inr ()) (\<lambda>_.
        if f_kind f = FindingKindConfirmed \<and> f_discriminator f \<noteq> [] then Inl ErrInvalidValue
        else rbind (normalize_evidence_refs (f_refs f)) (\<lambda>refs.
          rbind (copy_recommendations (f_recs f)) (\<lambda>recs.
          Inr (f\<lparr>f_refs := refs, f_recs := recs\<rparr>)))))))"

definition finding_is_zero :: "finding \<Rightarrow> bool" where
  "finding_is_zero f \<longleftrightarrow> f_code f = [] \<and> f_summary f = []"

definition finding_string :: "finding \<Rightarrow> string" where
  "finding_string f =
     (if finding_is_zero f then ''<invalid finding>''
      else f_code f @ '' '' @ layer_string (f_layer f) @ '' '' @ severity_string (f_severity f) @ ''/''
        @ confidence_string (f_confidence f) @ '' '' @ finding_kind_string (f_kind f) @ '': '' @ f_summary f)"

definition finding_json :: "finding \<Rightarrow> domain_error + json" where
  "finding_json f =
     (if finding_is_zero f then Inl ErrInvalidValue
      else rbind (finding_kind_json (f_kind f)) (\<lambda>kind.
        rbind (severity_json (f_severity f)) (\<lambda>sev.
        rbind (confidence_json (f_confidence f)) (\<lambda>conf.
        rbind (layer_json (f_layer f)) (\<lambda>lay.
        rbind (if subject_is_zero (f_subject f) then Inr []
               else rbind (subject_json (f_subject f)) (\<lambda>j. Inr [(''subject'', j)])) (\<lambda>subj.
        rbind (traverse rec_json (f_recs f)) (\<lambda>recs.
        Inr (JObj ([(''code'', JStr (f_code f)), (''kind'', kind), (''severity'', sev),
            (''confidence'', conf), (''layer'', lay)] @ subj @ [(''summary'', JStr (f_summary f))]
          @ (if f_detail f = [] then [] else [(''detail'', JStr (f_detail f))])
          @ [(''evidenceRefs'', JArr (map JStr (f_refs f)))]
          @ (if recs = [] then [] else [(''recommendations'', JArr recs)])
          @ [(''vantageDependent'', JBool (f_vantage f))]
          @ (if f_discriminator f = [] then []
             else [(''discriminator'', JStr (f_discriminator f))]))))))))))"

text \<open>What every constructed finding satisfies.\<close>

definition finding_fields_ok :: "finding \<Rightarrow> bool" where
  "finding_fields_ok f \<longleftrightarrow>
     finding_code_valid (f_code f) \<and> finding_kind_valid (f_kind f) \<and> severity_valid (f_severity f)
     \<and> confidence_valid (f_confidence f) \<and> layer_valid (f_layer f)
     \<and> (subject_is_zero (f_subject f) \<or> subject_kind_valid (subj_kind (f_subject f)))
     \<and> is_ok (validate_identifier (f_summary f))
     \<and> (f_detail f \<noteq> [] \<longrightarrow> is_ok (validate_prose (f_detail f)))
     \<and> (f_discriminator f \<noteq> [] \<longrightarrow> is_ok (validate_identifier (f_discriminator f)))
     \<and> (f_kind f = FindingKindConfirmed \<longrightarrow> f_discriminator f = [])
     \<and> f_refs f \<noteq> [] \<and> (\<forall>x\<in>set (f_refs f). is_ok (validate_identifier x))
     \<and> (\<forall>r\<in>set (f_recs f). \<not> rec_is_zero r)"

definition finding_wf :: "finding \<Rightarrow> bool" where
  "finding_wf f \<longleftrightarrow> finding_fields_ok f \<and> sorted (f_refs f) \<and> distinct (f_refs f)"

lemma traverse_check:
  "traverse (\<lambda>x. if p x then Inr x else Inl e) xs = (if \<forall>x\<in>set xs. p x then Inr xs else Inl e)"
  by (induction xs) auto

lemma normalize_evidence_refs_eq:
  "normalize_evidence_refs ids =
     (if ids \<noteq> [] \<and> (\<forall>x\<in>set ids. is_ok (validate_identifier x))
      then Inr (sort (dedup ids)) else Inl ErrInvalidValue)"
  by (simp add: normalize_evidence_refs_def rbind_validators traverse_check)

lemma copy_recommendations_eq:
  "copy_recommendations rs =
     (if \<forall>r\<in>set rs. \<not> rec_is_zero r then Inr rs else Inl ErrInvalidValue)"
proof -
  have "traverse (\<lambda>r. if rec_is_zero r then Inl ErrInvalidValue else Inr r) rs =
     (if \<forall>r\<in>set rs. \<not> rec_is_zero r then Inr rs else Inl ErrInvalidValue)"
    by (induction rs) auto
  then show ?thesis
    by (auto simp: copy_recommendations_def)
qed

lemma new_finding_eq:
  "new_finding f =
     (if finding_fields_ok f then Inr (f\<lparr>f_refs := sort (dedup (f_refs f))\<rparr>) else Inl ErrInvalidValue)"
proof -
  have d: "rbind (if c then v else Inr ()) k = (if c then rbind v k else k ())"
    for c and v :: "domain_error + unit" and k :: "unit \<Rightarrow> domain_error + finding"
    by simp
  have upd: "f\<lparr>f_refs := r, f_recs := f_recs f\<rparr> = f\<lparr>f_refs := r\<rparr>" for r
    by (cases f) simp
  let ?pre = "finding_code_valid (f_code f) \<and> finding_kind_valid (f_kind f)
    \<and> severity_valid (f_severity f) \<and> confidence_valid (f_confidence f) \<and> layer_valid (f_layer f)
    \<and> (subject_is_zero (f_subject f) \<or> subject_kind_valid (subj_kind (f_subject f)))"
  show ?thesis
  proof (cases ?pre)
    case True
    then show ?thesis
      by (simp add: new_finding_def finding_fields_ok_def d rbind_validators
          normalize_evidence_refs_eq copy_recommendations_eq upd)
  next
    case False
    have chain: "(if \<not> a then v else if \<not> b then v else if \<not> c then v else if \<not> d then v
        else if \<not> e then v else if g then v else w) = v" if "\<not> (a \<and> b \<and> c \<and> d \<and> e) \<or> g"
      for a b c d e g and v w :: "domain_error + finding"
      using that by auto
    have "new_finding f = Inl ErrInvalidValue"
      unfolding new_finding_def by (rule chain) (use False in blast)
    moreover have "\<not> finding_fields_ok f"
      using False unfolding finding_fields_ok_def by blast
    ultimately show ?thesis by simp
  qed
qed

lemma new_finding_wf:
  assumes "new_finding i = Inr f"
  shows "finding_wf f"
proof -
  have ok: "finding_fields_ok i" and f: "f = i\<lparr>f_refs := sort (dedup (f_refs i))\<rparr>"
    using assms by (simp_all add: new_finding_eq split: if_split_asm)
  have "finding_fields_ok f = finding_fields_ok i"
    by (simp add: finding_fields_ok_def f)
  then show ?thesis
    using ok by (simp add: finding_wf_def f)
qed

lemma new_finding_id: "finding_wf f \<Longrightarrow> new_finding f = Inr f"
  by (simp add: new_finding_eq finding_wf_def sort_dedup_sorted)

lemma finding_wf_not_zero: "finding_wf f \<Longrightarrow> \<not> finding_is_zero f"
  by (auto simp: finding_wf_def finding_fields_ok_def finding_is_zero_def validate_identifier_ok)

subsection \<open>The canonical order\<close>

definition join_ids :: "evidence_id list \<Rightarrow> string" where
  "join_ids ids = join_with [NUL] ids"

definition compare_findings :: "finding \<Rightarrow> finding \<Rightarrow> int" where
  "compare_findings a b =
     cmp_then (go_compare (f_severity b) (f_severity a))
    (cmp_then (go_compare (f_layer a) (f_layer b))
    (cmp_then (go_compare (f_code a) (f_code b))
    (cmp_then (go_compare (subj_ref (f_subject a)) (subj_ref (f_subject b)))
    (cmp_then (go_compare (f_summary a) (f_summary b))
       (go_compare (join_ids (f_refs a)) (join_ids (f_refs b)))))))"

definition sort_findings :: "finding list \<Rightarrow> finding list" where
  "sort_findings fs = go_sort compare_findings fs"

interpretation finding_order: comparator compare_findings
  unfolding compare_findings_def by (intro comparator_then comparator_by comparator_by_desc)

lemma join_ids_inj:
  assumes "\<forall>x\<in>set xs. NUL \<notin> set x \<and> x \<noteq> []" "\<forall>y\<in>set ys. NUL \<notin> set y \<and> y \<noteq> []"
    and "join_ids xs = join_ids ys"
  shows "xs = ys"
  using assms
proof (induction xs arbitrary: ys)
  case Nil
  then show ?case
    by (cases ys; cases "tl ys") (auto simp: join_ids_def)
next
  case (Cons x xs)
  then obtain y ys' where ys: "ys = y # ys'"
    by (cases ys; cases xs) (auto simp: join_ids_def)
  have split: "join_with [NUL] (z # zs) = z @ (if zs = [] then [] else NUL # join_with [NUL] zs)" for z zs
    by (cases zs) auto
  have eq: "x @ (if xs = [] then [] else NUL # join_ids xs) = y @ (if ys' = [] then [] else NUL # join_ids ys')"
    using Cons.prems(3) by (simp only: ys join_ids_def split)
  have x: "NUL \<notin> set x" and y: "NUL \<notin> set y"
    using Cons.prems ys by auto
  have tw: "takeWhile (\<lambda>c. c \<noteq> NUL) (z @ (if b then [] else NUL # zs)) = z" if "NUL \<notin> set z" for z b zs
    using that by (induction z) auto
  have "x = y"
    using arg_cong [OF eq, of "takeWhile (\<lambda>c. c \<noteq> NUL)"] by (simp only: tw [OF x] tw [OF y])
  then have tails: "xs = [] \<longleftrightarrow> ys' = []" "xs \<noteq> [] \<Longrightarrow> join_ids xs = join_ids ys'"
    using eq by (auto split: if_splits)
  show ?case
  proof (cases "xs = []")
    case False
    then have "xs = ys'"
      using Cons.IH [of ys'] Cons.prems ys tails by auto
    then show ?thesis using ys \<open>x = y\<close> by simp
  qed (use tails ys \<open>x = y\<close> in simp)
qed

lemma finding_wf_refs: "finding_wf f \<Longrightarrow> x \<in> set (f_refs f) \<Longrightarrow> NUL \<notin> set x \<and> x \<noteq> []"
  unfolding finding_wf_def finding_fields_ok_def
  by (metis identifier_no_NUL is_ok_iff is_ok_simps(1) validate_identifier_ok)

lemma refs_tie:
  assumes "finding_wf f" "finding_wf g" "join_ids (f_refs f) = join_ids (f_refs g)"
  shows "f_refs f = f_refs g"
  using assms finding_wf_refs by (intro join_ids_inj) blast+

text \<open>The fields the canonical order looks at.\<close>

definition finding_sort_key ::
    "finding \<Rightarrow> severity \<times> layer \<times> finding_code \<times> string \<times> string \<times> evidence_id list" where
  "finding_sort_key f =
     (f_severity f, f_layer f, f_code f, subj_ref (f_subject f), f_summary f, f_refs f)"

lemma compare_findings_tie:
  assumes "finding_wf f" "finding_wf g"
  shows "compare_findings f g = 0 \<longleftrightarrow> finding_sort_key f = finding_sort_key g"
  using refs_tie [OF assms] by (auto simp: compare_findings_def finding_sort_key_def)

lemma sort_findings_set [simp]: "set (sort_findings fs) = set fs"
  by (simp add: sort_findings_def)

lemma sort_findings_perm:
  assumes "mset fs = mset gs" "\<And>f. f \<in> set fs \<Longrightarrow> finding_wf f"
    and "inj_on finding_sort_key (set fs)"
  shows "sort_findings fs = sort_findings gs"
  unfolding sort_findings_def
  by (rule finding_order.go_sort_perm)
    (use assms compare_findings_tie in \<open>auto dest: inj_onD\<close>)

lemma compare_findings_severity: "compare_findings f g \<le> 0 \<Longrightarrow> f_severity g \<le> f_severity f"
  by (auto simp: compare_findings_def cmp_then_def go_compare_def split: if_splits)

subsection \<open>Properties\<close>

definition demo_finding :: finding where
  "demo_finding = \<lparr>f_code = ''TCP_REFUSED'', f_kind = FindingKindConfirmed, f_severity = SeverityError,
     f_confidence = ConfidenceHigh, f_layer = LayerTCP, f_subject = demo_subject,
     f_summary = ''refused'', f_detail = [], f_refs = [''tcp'', ''dns'', ''tcp''], f_recs = [],
     f_vantage = True, f_discriminator = []\<rparr>"

lemmas eval_finding = finding_fields_ok_def finding_code_ok code_char_def is_upper_def is_digit_def
  finding_kind_valid_def severity_valid_def confidence_valid_def layer_valid_def
  subject_is_zero_def zero_subject_def subject_kind_valid_def demo_subject_def

lemma demo_finding_made:
  "new_finding demo_finding = Inr (demo_finding\<lparr>f_refs := [''dns'', ''tcp'']\<rparr>)"
  by (simp add: new_finding_eq demo_finding_def eval_finding eval_identifier)

text \<open>What \<open>NewFinding\<close> returns cites each given evidence id once, in order, and at least one;
  a CONFIRMED finding carries no discriminator; nothing else is altered, and constructing the
  result again returns it unchanged.\<close>

theorem new_finding_normalises:
  assumes "new_finding i = Inr f"
  shows "f_refs f \<noteq> [] \<and> set (f_refs f) = set (f_refs i) \<and> sorted (f_refs f) \<and> distinct (f_refs f)
    \<and> (f_kind f = FindingKindConfirmed \<longrightarrow> f_discriminator f = [])
    \<and> f\<lparr>f_refs := f_refs i\<rparr> = i \<and> new_finding f = Inr f"
proof -
  have wf: "finding_wf f"
    using assms by (rule new_finding_wf)
  have f: "f = i\<lparr>f_refs := sort (dedup (f_refs i))\<rparr>"
    using assms by (simp add: new_finding_eq split: if_split_asm)
  have "f\<lparr>f_refs := f_refs i\<rparr> = i"
    by (cases i) (simp add: f)
  then show ?thesis
    using wf new_finding_id [OF wf] f by (simp add: finding_wf_def finding_fields_ok_def)
qed

theorem new_finding_normalises_witness:
  "\<exists>f. new_finding demo_finding = Inr f \<and> f_refs f = [''dns'', ''tcp''] \<and> new_finding f = Inr f"
  using new_finding_normalises [OF demo_finding_made] demo_finding_made by simp

text \<open>\<open>SortFindings\<close> lists the same findings, most severe first, and its result does not depend
  on the order they came in when no two of them agree in every field the order looks at.\<close>

theorem sort_findings_canonical:
  assumes "\<forall>f\<in>set fs. finding_wf f" and "inj_on finding_sort_key (set fs)"
    and "mset gs = mset fs"
  shows "sort_findings gs = sort_findings fs \<and> mset (sort_findings fs) = mset fs
    \<and> sorted_wrt (\<lambda>f g. f_severity g \<le> f_severity f) (sort_findings fs)"
proof (intro conjI)
  show "sort_findings gs = sort_findings fs"
    using sort_findings_perm [of fs gs] assms by simp
  show "mset (sort_findings fs) = mset fs"
    by (simp add: sort_findings_def)
  show "sorted_wrt (\<lambda>f g. f_severity g \<le> f_severity f) (sort_findings fs)"
    unfolding sort_findings_def
    by (rule sorted_wrt_mono_rel [OF _ finding_order.go_sort_sorted])
      (simp add: compare_findings_severity)
qed

theorem sort_findings_canonical_witness:
  "let f = demo_finding\<lparr>f_refs := [''dns'', ''tcp'']\<rparr>; g = f\<lparr>f_severity := SeverityCritical\<rparr>
   in sort_findings [f, g] = [g, f] \<and> sort_findings [g, f] = sort_findings [f, g]"
proof -
  define f where "f = demo_finding\<lparr>f_refs := [''dns'', ''tcp'']\<rparr>"
  define g where "g = f\<lparr>f_severity := SeverityCritical\<rparr>"
  have wf: "\<forall>h\<in>set [f, g]. finding_wf h"
    by (simp add: f_def g_def finding_wf_def demo_finding_def eval_finding eval_identifier)
  have inj: "inj_on finding_sort_key (set [f, g])"
    by (auto simp: inj_on_def f_def g_def finding_sort_key_def demo_finding_def)
  have "sort_findings [f, g] = [g, f]"
    by (simp add: sort_findings_def compare_findings_def cmp_then_def go_compare_def f_def g_def
        demo_finding_def less_severity_def)
  moreover have "sort_findings [g, f] = sort_findings [f, g]"
    using sort_findings_canonical [OF wf inj, of "[g, f]"] by (simp add: add_mset_commute)
  ultimately show ?thesis
    by (simp add: Let_def f_def g_def)
qed

end
