(* ===== verification/Report.thy ===== *)
theory Report
  imports Finding
begin

text \<open>
  Package \<open>internal/domain\<close>: the summary of a run (\<open>summary.go\<close>), its target, metadata and
  vantage (\<open>target.go\<close>, \<open>run.go\<close>, \<open>vantage.go\<close>), what a report says about its own security
  (\<open>reportsecurity.go\<close>) and the report (\<open>report.go\<close>). A Go \<open>int\<close> that counts elements of a
  list in memory is an \<open>int\<close> here: it cannot reach the bound of the machine type.
\<close>

subsection \<open>The summary\<close>

record severity_counts =
  sc_info :: int
  sc_warn :: int
  sc_error :: int
  sc_critical :: int

definition severity_total :: "severity_counts \<Rightarrow> int" where
  "severity_total c = sc_info c + sc_warn c + sc_error c + sc_critical c"

record summary =
  sm_status :: summary_status
  sm_first_broken :: layer
  sm_counts :: severity_counts
  sm_skipped :: int
  sm_unknown :: int

definition zero_summary :: summary where
  "zero_summary = \<lparr>sm_status = SummaryStatusUnspecified, sm_first_broken = LayerUnspecified,
     sm_counts = \<lparr>sc_info = 0, sc_warn = 0, sc_error = 0, sc_critical = 0\<rparr>, sm_skipped = 0,
     sm_unknown = 0\<rparr>"

fun summary_count_finding :: "finding \<Rightarrow> summary \<Rightarrow> summary" where
  "summary_count_finding f s =
     (let c = sm_counts s in
      case f_severity f of
        SeverityInfo \<Rightarrow> s\<lparr>sm_counts := c\<lparr>sc_info := sc_info c + 1\<rparr>\<rparr>
      | SeverityWarn \<Rightarrow> s\<lparr>sm_counts := c\<lparr>sc_warn := sc_warn c + 1\<rparr>\<rparr>
      | SeverityError \<Rightarrow> s\<lparr>sm_counts := c\<lparr>sc_error := sc_error c + 1\<rparr>,
          sm_status := SummaryStatusProblemsFound\<rparr>
      | SeverityCritical \<Rightarrow> s\<lparr>sm_counts := c\<lparr>sc_critical := sc_critical c + 1\<rparr>,
          sm_status := SummaryStatusProblemsFound\<rparr>
      | _ \<Rightarrow> s)"

fun summary_count_evidence :: "evidence \<Rightarrow> summary \<Rightarrow> summary" where
  "summary_count_evidence e s =
     (case ev_state e of
        StateFail \<Rightarrow>
          (if sm_first_broken s = LayerUnspecified \<or> ev_layer e < sm_first_broken s
           then s\<lparr>sm_first_broken := ev_layer e\<rparr> else s)
      | StateSkipped \<Rightarrow> s\<lparr>sm_skipped := sm_skipped s + 1\<rparr>
      | StateUnknown \<Rightarrow> s\<lparr>sm_unknown := sm_unknown s + 1\<rparr>
      | _ \<Rightarrow> s)"

definition derive_summary :: "graph \<Rightarrow> finding list \<Rightarrow> summary" where
  "derive_summary g findings =
     fold summary_count_evidence (graph_nodes g)
       (fold summary_count_finding findings (zero_summary\<lparr>sm_status := SummaryStatusOK\<rparr>))"

definition summary_is_zero :: "summary \<Rightarrow> bool" where
  "summary_is_zero s \<longleftrightarrow> s = zero_summary"

definition severity_counts_json :: "severity_counts \<Rightarrow> json" where
  "severity_counts_json c =
     JObj [(''info'', JNum (sc_info c)), (''warn'', JNum (sc_warn c)),
       (''error'', JNum (sc_error c)), (''critical'', JNum (sc_critical c))]"

definition summary_json :: "summary \<Rightarrow> domain_error + json" where
  "summary_json s =
     (if \<not> summary_status_valid (sm_status s) then Inl ErrInvalidValue
      else rbind (summary_status_json (sm_status s)) (\<lambda>status.
        rbind (if layer_valid (sm_first_broken s)
               then rbind (layer_json (sm_first_broken s)) (\<lambda>j. Inr [(''firstBrokenLayer'', j)])
               else Inr []) (\<lambda>broken.
        Inr (JObj ([(''status'', status)] @ broken
          @ [(''findingCountsBySeverity'', severity_counts_json (sm_counts s)),
             (''skippedEvidenceCount'', JNum (sm_skipped s)),
             (''unknownEvidenceCount'', JNum (sm_unknown s))])))))"

text \<open>What the summary of a graph and its findings is, without the loops.\<close>

definition first_broken :: "evidence list \<Rightarrow> layer" where
  "first_broken es =
     (let broken = map ev_layer (filter (\<lambda>e. ev_state e = StateFail) es)
      in if broken = [] then LayerUnspecified else Min (set broken))"

definition count_severity :: "severity \<Rightarrow> finding list \<Rightarrow> int" where
  "count_severity v fs = int (length (filter (\<lambda>f. f_severity f = v) fs))"

definition count_state :: "state \<Rightarrow> evidence list \<Rightarrow> int" where
  "count_state st es = int (length (filter (\<lambda>e. ev_state e = st) es))"

definition is_problem :: "finding \<Rightarrow> bool" where
  "is_problem f \<longleftrightarrow> f_severity f \<in> {SeverityError, SeverityCritical}"

lemma summary_count_findings:
  "fold summary_count_finding fs s = s\<lparr>
     sm_status := (if list_ex is_problem fs then SummaryStatusProblemsFound else sm_status s),
     sm_counts := \<lparr>sc_info = sc_info (sm_counts s) + count_severity SeverityInfo fs,
       sc_warn = sc_warn (sm_counts s) + count_severity SeverityWarn fs,
       sc_error = sc_error (sm_counts s) + count_severity SeverityError fs,
       sc_critical = sc_critical (sm_counts s) + count_severity SeverityCritical fs\<rparr>\<rparr>"
proof (induction fs arbitrary: s)
  case (Cons f fs)
  show ?case
    by (simp only: fold_simps comp_apply Cons.IH, cases "f_severity f")
      (simp_all add: count_severity_def is_problem_def Let_def)
qed (simp add: count_severity_def)

lemma Min_set_Cons: "Min (set (x # xs)) = (if xs = [] then x else min x (Min (set xs)))"
  by (cases "xs = []") (simp_all add: Min_insert)

lemma summary_count_evidences:
  assumes "\<And>e. e \<in> set es \<Longrightarrow> layer_valid (ev_layer e)"
  shows "fold summary_count_evidence es s = s\<lparr>
     sm_first_broken :=
       (if first_broken es = LayerUnspecified then sm_first_broken s
        else if sm_first_broken s = LayerUnspecified then first_broken es
        else min (sm_first_broken s) (first_broken es)),
     sm_skipped := sm_skipped s + count_state StateSkipped es,
     sm_unknown := sm_unknown s + count_state StateUnknown es\<rparr>"
  using assms
proof (induction es arbitrary: s)
  case Nil
  then show ?case by (simp add: first_broken_def count_state_def)
next
  case (Cons e es)
  have valid: "ev_layer e \<noteq> LayerUnspecified"
    using Cons.prems [of e] by (auto simp: layer_valid_def)
  have unspec: "first_broken es = LayerUnspecified \<longleftrightarrow> filter (\<lambda>e. ev_state e = StateFail) es = []"
  proof -
    have "Min (set (map ev_layer (filter (\<lambda>e. ev_state e = StateFail) es))) \<noteq> LayerUnspecified"
      if "filter (\<lambda>e. ev_state e = StateFail) es \<noteq> []"
    proof
      assume a: "Min (set (map ev_layer (filter (\<lambda>e. ev_state e = StateFail) es))) = LayerUnspecified"
      have "Min (set (map ev_layer (filter (\<lambda>e. ev_state e = StateFail) es)))
          \<in> set (map ev_layer (filter (\<lambda>e. ev_state e = StateFail) es))"
        by (rule Min_in) (use that in \<open>simp_all only: finite_set set_empty map_is_Nil_conv not_False_eq_True\<close>)
      then obtain e' where "e' \<in> set es" "ev_layer e' = LayerUnspecified" unfolding a by auto
      then show False using Cons.prems [of e'] by (simp add: layer_valid_def)
    qed
    then show ?thesis by (auto simp: first_broken_def Let_def)
  qed
  have step: "first_broken (e # es) =
      (if ev_state e \<noteq> StateFail then first_broken es
       else if first_broken es = LayerUnspecified then ev_layer e
       else min (ev_layer e) (first_broken es))"
    unfolding unspec by (simp add: first_broken_def Let_def Min_set_Cons del: list.set set_map set_filter)
  have IH: "fold summary_count_evidence es s' = s'\<lparr>
     sm_first_broken :=
       (if first_broken es = LayerUnspecified then sm_first_broken s'
        else if sm_first_broken s' = LayerUnspecified then first_broken es
        else min (sm_first_broken s') (first_broken es)),
     sm_skipped := sm_skipped s' + count_state StateSkipped es,
     sm_unknown := sm_unknown s' + count_state StateUnknown es\<rparr>" for s'
    by (rule Cons.IH) (simp add: Cons.prems)
  have c: "count_state v (e # es) = (if ev_state e = v then 1 else 0) + count_state v es" for v
    by (simp add: count_state_def)
  show ?case
    using valid by (simp only: fold_simps comp_apply IH step c, cases "ev_state e")
      (auto simp: min_def)
qed

lemma derive_summary_eq:
  assumes "graph_wf g"
  shows "derive_summary g fs = \<lparr>
     sm_status = (if list_ex is_problem fs then SummaryStatusProblemsFound else SummaryStatusOK),
     sm_first_broken = first_broken (graph_nodes g),
     sm_counts = \<lparr>sc_info = count_severity SeverityInfo fs, sc_warn = count_severity SeverityWarn fs,
       sc_error = count_severity SeverityError fs, sc_critical = count_severity SeverityCritical fs\<rparr>,
     sm_skipped = count_state StateSkipped (graph_nodes g),
     sm_unknown = count_state StateUnknown (graph_nodes g)\<rparr>"
proof -
  have v: "e \<in> set (graph_nodes g) \<Longrightarrow> layer_valid (ev_layer e)" for e
    using graph_view.nodes_wf [OF assms, of e] by (simp add: evidence_wf_def)
  show ?thesis
    unfolding derive_summary_def summary_count_findings
    by (subst summary_count_evidences [OF v]) (simp_all add: zero_summary_def)
qed

subsection \<open>Target, run and vantage\<close>

record target =
  tg_requested :: string
  tg_normalized :: "string list"

definition new_target :: "string \<Rightarrow> string list \<Rightarrow> domain_error + target" where
  "new_target requested normalized =
     rbind (validate_identifier requested) (\<lambda>_.
     rbind (traverse validate_identifier normalized) (\<lambda>_.
     Inr \<lparr>tg_requested = requested, tg_normalized = normalized\<rparr>))"

definition target_is_zero :: "target \<Rightarrow> bool" where
  "target_is_zero t \<longleftrightarrow> tg_requested t = []"

definition target_string :: "target \<Rightarrow> string" where
  "target_string t = (if target_is_zero t then ''<invalid target>'' else tg_requested t)"

definition target_json :: "target \<Rightarrow> domain_error + json" where
  "target_json t =
     (if target_is_zero t then Inl ErrInvalidValue
      else Inr (JObj ([(''requested'', JStr (tg_requested t))]
        @ (if tg_normalized t = [] then []
           else [(''normalized'', JArr (map JStr (tg_normalized t)))]))))"

record run_metadata =
  rm_version :: string
  rm_started :: go_time
  rm_duration :: go_duration
  rm_service :: service_id

definition new_run_metadata ::
    "string \<Rightarrow> go_time \<Rightarrow> go_duration \<Rightarrow> service_id \<Rightarrow> domain_error + run_metadata" where
  "new_run_metadata version started duration service =
     rbind (validate_identifier version) (\<lambda>_.
     if started = 0 then Inl ErrInvalidValue
     else if duration < 0 then Inl ErrInvalidValue
     else if \<not> service_id_valid service then Inl ErrInvalidValue
     else Inr \<lparr>rm_version = version, rm_started = started, rm_duration = duration,
       rm_service = service\<rparr>)"

definition run_is_zero :: "run_metadata \<Rightarrow> bool" where
  "run_is_zero r \<longleftrightarrow> r = \<lparr>rm_version = [], rm_started = 0, rm_duration = 0, rm_service = []\<rparr>"

record vantage =
  vt_source :: vantage_source
  vt_host :: string

definition new_local_vantage :: "string \<Rightarrow> domain_error + vantage" where
  "new_local_vantage h =
     (let host = trim_space h in
      if host = [] then Inl ErrInvalidValue
      else Inr \<lparr>vt_source = VantageSourceLocalHost, vt_host = host\<rparr>)"

definition vantage_is_zero :: "vantage \<Rightarrow> bool" where
  "vantage_is_zero v \<longleftrightarrow> v = \<lparr>vt_source = VantageSourceUnspecified, vt_host = []\<rparr>"

definition vantage_string :: "vantage \<Rightarrow> string" where
  "vantage_string v =
     (if vantage_is_zero v then ''<invalid vantage>''
      else vantage_source_string (vt_source v) @ '':'' @ vt_host v)"

definition vantage_json :: "vantage \<Rightarrow> domain_error + json" where
  "vantage_json v =
     (if vantage_is_zero v then Inl ErrInvalidValue
      else rbind (vantage_source_json (vt_source v)) (\<lambda>j.
        Inr (JObj [(''source'', j), (''host'', JStr (vt_host v))])))"

lemma new_target_ok:
  "new_target r ns = Inr t \<Longrightarrow> tg_requested t = r \<and> tg_normalized t = ns \<and> \<not> target_is_zero t"
  by (auto simp: new_target_def rbind_validators target_is_zero_def validate_identifier_ok rbind_Inr_iff
      split: if_splits)

lemma new_run_metadata_ok: "new_run_metadata v s d i = Inr r \<Longrightarrow> \<not> run_is_zero r \<and> 0 \<le> rm_duration r"
  by (auto simp: new_run_metadata_def rbind_validators run_is_zero_def split: if_splits)

lemma new_local_vantage_ok: "new_local_vantage h = Inr v \<Longrightarrow> \<not> vantage_is_zero v \<and> is_ok (vantage_json v)"
  by (auto simp: new_local_vantage_def vantage_is_zero_def vantage_json_def vantage_source_json_def
      vantage_source_valid_def Let_def split: if_splits)

subsection \<open>What a report says about its security\<close>

record redaction_counts =
  rc_hostname :: int
  rc_ip :: int
  rc_evidence_id :: int
  rc_prose :: int
  rc_identity :: int

definition zero_redactions :: redaction_counts where
  "zero_redactions = \<lparr>rc_hostname = 0, rc_ip = 0, rc_evidence_id = 0, rc_prose = 0, rc_identity = 0\<rparr>"

definition redactions_total :: "redaction_counts \<Rightarrow> int" where
  "redactions_total c = rc_hostname c + rc_ip c + rc_evidence_id c + rc_prose c + rc_identity c"

record report_security =
  rs_mode :: output_mode
  rs_tls_off :: bool
  rs_forwarding :: bool
  rs_redactions :: redaction_counts

definition new_report_security :: "output_mode \<Rightarrow> bool \<Rightarrow> bool \<Rightarrow> domain_error + report_security" where
  "new_report_security mode tls_off forwarding =
     (if \<not> output_mode_valid mode then Inl ErrInvalidValue
      else if mode = OutputModeShareableRedacted then Inl ErrInvalidValue
      else Inr \<lparr>rs_mode = mode, rs_tls_off = tls_off, rs_forwarding = forwarding,
        rs_redactions = zero_redactions\<rparr>)"

definition security_is_zero :: "report_security \<Rightarrow> bool" where
  "security_is_zero s \<longleftrightarrow> s = \<lparr>rs_mode = OutputModeUnspecified, rs_tls_off = False,
     rs_forwarding = False, rs_redactions = zero_redactions\<rparr>"

definition new_shareable_report_security ::
    "report_security \<Rightarrow> redaction_counts \<Rightarrow> domain_error + report_security" where
  "new_shareable_report_security from_sec c =
     (if security_is_zero from_sec then Inl ErrInvalidValue
      else if rs_mode from_sec \<noteq> OutputModeLocalFull then Inl ErrInvalidValue
      else if rc_hostname c < 0 \<or> rc_ip c < 0 \<or> rc_evidence_id c < 0 \<or> rc_prose c < 0
          \<or> rc_identity c < 0 then Inl ErrInvalidValue
      else Inr \<lparr>rs_mode = OutputModeShareableRedacted, rs_tls_off = rs_tls_off from_sec,
        rs_forwarding = rs_forwarding from_sec, rs_redactions = c\<rparr>)"

definition redaction_counts_json :: "redaction_counts \<Rightarrow> json" where
  "redaction_counts_json c =
     JObj [(''hostname'', JNum (rc_hostname c)), (''ipAddress'', JNum (rc_ip c)),
       (''evidenceId'', JNum (rc_evidence_id c)), (''prose'', JNum (rc_prose c)),
       (''identity'', JNum (rc_identity c))]"

definition security_json :: "report_security \<Rightarrow> domain_error + json" where
  "security_json s =
     (if security_is_zero s then Inl ErrInvalidValue
      else rbind (output_mode_json (rs_mode s)) (\<lambda>mode.
        Inr (JObj ([(''outputMode'', mode), (''tlsVerificationDisabled'', JBool (rs_tls_off s)),
            (''credentialForwardingEnabled'', JBool (rs_forwarding s))]
          @ (if rs_mode s = OutputModeShareableRedacted
             then [(''redactions'', redaction_counts_json (rs_redactions s))] else [])))))"

lemma new_report_security_ok:
  "new_report_security m t f = Inr s \<longleftrightarrow> m = OutputModeLocalFull
     \<and> s = \<lparr>rs_mode = m, rs_tls_off = t, rs_forwarding = f, rs_redactions = zero_redactions\<rparr>"
  by (cases m) (auto simp: new_report_security_def output_mode_valid_def)

subsection \<open>The report\<close>

record report =
  rp_run :: run_metadata
  rp_target :: target
  rp_vantage :: vantage
  rp_graph :: graph
  rp_findings :: "finding list"
  rp_summary :: summary
  rp_security :: report_security

record report_input =
  ri_run :: run_metadata
  ri_target :: target
  ri_vantage :: vantage
  ri_graph :: graph
  ri_findings :: "finding list"
  ri_security :: report_security

definition validate_evidence_refs :: "graph \<Rightarrow> finding list \<Rightarrow> domain_error + unit" where
  "validate_evidence_refs g findings =
     rbind (traverse (\<lambda>f. traverse (\<lambda>ref.
         case graph_node g ref of None \<Rightarrow> Inl ErrInvalidReport | Some _ \<Rightarrow> Inr ()) (f_refs f)) findings)
       (\<lambda>_. Inr ())"

definition new_report :: "report_input \<Rightarrow> domain_error + report" where
  "new_report i =
     (if run_is_zero (ri_run i) then Inl ErrInvalidValue
      else if target_is_zero (ri_target i) then Inl ErrInvalidValue
      else if vantage_is_zero (ri_vantage i) then Inl ErrInvalidValue
      else if security_is_zero (ri_security i) then Inl ErrInvalidValue
      else if list_ex finding_is_zero (ri_findings i) then Inl ErrInvalidValue
      else rbind (validate_evidence_refs (ri_graph i) (ri_findings i)) (\<lambda>_.
        let findings = sort_findings (ri_findings i) in
        Inr \<lparr>rp_run = ri_run i, rp_target = ri_target i, rp_vantage = ri_vantage i,
          rp_graph = ri_graph i, rp_findings = findings,
          rp_summary = derive_summary (ri_graph i) findings, rp_security = ri_security i\<rparr>))"

definition report_is_zero :: "report \<Rightarrow> bool" where
  "report_is_zero r \<longleftrightarrow> run_is_zero (rp_run r) \<and> target_is_zero (rp_target r)"

definition report_string :: "report \<Rightarrow> string" where
  "report_string r =
     (if report_is_zero r then ''<invalid report>''
      else ''svcdoctor report: service='' @ rm_service (rp_run r) @ '' target='' @ target_string (rp_target r)
        @ '' status='' @ summary_status_string (sm_status (rp_summary r))
        @ '' findings='' @ show_nat (length (rp_findings r))
        @ '' evidence='' @ show_nat (graph_len (rp_graph r)))"

text \<open>The parts of a report the constructor asks for.\<close>

definition report_parts_ok :: "report_input \<Rightarrow> bool" where
  "report_parts_ok i \<longleftrightarrow> \<not> run_is_zero (ri_run i) \<and> \<not> target_is_zero (ri_target i)
     \<and> \<not> vantage_is_zero (ri_vantage i) \<and> \<not> security_is_zero (ri_security i)
     \<and> (\<forall>f\<in>set (ri_findings i). \<not> finding_is_zero f)"

definition refs_recorded :: "graph \<Rightarrow> finding \<Rightarrow> bool" where
  "refs_recorded g f \<longleftrightarrow> (\<forall>x\<in>set (f_refs f). graph_node g x \<noteq> None)"

lemma traverse_fail_eq:
  assumes "\<And>x. x \<in> set xs \<Longrightarrow> f x = (if p x then Inr (h x) else Inl e)"
  shows "traverse f xs = (if \<forall>x\<in>set xs. p x then Inr (map h xs) else Inl e)"
  using assms by (induction xs) auto

lemma validate_evidence_refs_eq:
  "validate_evidence_refs g fs =
     (if \<forall>f\<in>set fs. refs_recorded g f then Inr () else Inl ErrInvalidReport)"
proof -
  have inner: "traverse (\<lambda>ref. case graph_node g ref of None \<Rightarrow> Inl ErrInvalidReport | Some _ \<Rightarrow> Inr ())
      (f_refs f) = (if refs_recorded g f then Inr (map (\<lambda>_. ()) (f_refs f)) else Inl ErrInvalidReport)" for f
    unfolding refs_recorded_def by (rule traverse_fail_eq) (simp split: option.split)
  show ?thesis
    unfolding validate_evidence_refs_def
    by (subst traverse_fail_eq [OF inner]) simp
qed

lemma new_report_eq:
  "new_report i =
     (if \<not> report_parts_ok i then Inl ErrInvalidValue
      else if \<not> (\<forall>f\<in>set (ri_findings i). refs_recorded (ri_graph i) f) then Inl ErrInvalidReport
      else Inr \<lparr>rp_run = ri_run i, rp_target = ri_target i, rp_vantage = ri_vantage i,
          rp_graph = ri_graph i, rp_findings = sort_findings (ri_findings i),
          rp_summary = derive_summary (ri_graph i) (sort_findings (ri_findings i)),
          rp_security = ri_security i\<rparr>)"
  by (simp add: new_report_def report_parts_ok_def validate_evidence_refs_eq list_ex_iff Let_def)

lemma count_severity_mset: "mset fs = mset gs \<Longrightarrow> count_severity v fs = count_severity v gs"
  unfolding count_severity_def by (metis mset_filter size_mset)

lemma derive_summary_perm:
  assumes "graph_wf g" "mset fs = mset gs"
  shows "derive_summary g fs = derive_summary g gs"
proof -
  have "set fs = set gs"
    using assms(2) by (rule mset_eq_setD)
  then show ?thesis
    using count_severity_mset [OF assms(2)] by (simp add: derive_summary_eq assms(1) list_ex_iff)
qed

subsection \<open>Properties\<close>

definition demo_report_input :: "finding list \<Rightarrow> report_input" where
  "demo_report_input fs = \<lparr>
     ri_run = \<lparr>rm_version = ''1.0'', rm_started = 1, rm_duration = 2, rm_service = ''postgres''\<rparr>,
     ri_target = \<lparr>tg_requested = ''db:5432'', tg_normalized = []\<rparr>,
     ri_vantage = \<lparr>vt_source = VantageSourceLocalHost, vt_host = ''here''\<rparr>,
     ri_graph = demo_graph, ri_findings = fs,
     ri_security = \<lparr>rs_mode = OutputModeLocalFull, rs_tls_off = False, rs_forwarding = False,
       rs_redactions = zero_redactions\<rparr>\<rparr>"

definition demo_critical :: finding where
  "demo_critical = demo_finding\<lparr>f_severity := SeverityCritical, f_refs := [''dns'', ''tcp'']\<rparr>"

definition demo_error :: finding where
  "demo_error = demo_finding\<lparr>f_refs := [''dns'', ''tcp'']\<rparr>"

lemmas eval_report = demo_report_input_def demo_critical_def demo_error_def demo_finding_def
  report_parts_ok_def run_is_zero_def target_is_zero_def vantage_is_zero_def security_is_zero_def
  finding_is_zero_def refs_recorded_def graph_node_def demo_graph_def demo_builder_def

lemma demo_finding_wfs: "finding_wf demo_error" "finding_wf demo_critical"
  by (simp_all add: demo_error_def demo_critical_def finding_wf_def demo_finding_def eval_finding
      eval_identifier)

lemma demo_order: "sort_findings [demo_error, demo_critical] = [demo_critical, demo_error]"
  by (simp add: sort_findings_def compare_findings_def cmp_then_def go_compare_def less_severity_def
      demo_error_def demo_critical_def demo_finding_def)

text \<open>The summary of a frozen graph and any findings says PROBLEMS_FOUND exactly when a finding
  is an ERROR or CRITICAL, counts the findings of each severity and the SKIPPED and UNKNOWN
  evidence, and names the lowest layer that has FAIL evidence, or none when there is none.\<close>

theorem derive_summary_exact:
  assumes "graph_wf g" and "s = derive_summary g fs"
  shows "(sm_status s = SummaryStatusProblemsFound \<longleftrightarrow>
        (\<exists>f\<in>set fs. f_severity f = SeverityError \<or> f_severity f = SeverityCritical))
    \<and> (sm_status s = SummaryStatusOK \<longleftrightarrow> sm_status s \<noteq> SummaryStatusProblemsFound)
    \<and> sc_info (sm_counts s) = count_severity SeverityInfo fs
    \<and> sc_warn (sm_counts s) = count_severity SeverityWarn fs
    \<and> sc_error (sm_counts s) = count_severity SeverityError fs
    \<and> sc_critical (sm_counts s) = count_severity SeverityCritical fs
    \<and> sm_skipped s = int (card {e \<in> set (graph_nodes g). ev_state e = StateSkipped})
    \<and> sm_unknown s = int (card {e \<in> set (graph_nodes g). ev_state e = StateUnknown})
    \<and> (let broken = ev_layer ` {e \<in> set (graph_nodes g). ev_state e = StateFail}
       in sm_first_broken s = (if broken = {} then LayerUnspecified else Min broken))"
proof -
  have d: "distinct (graph_nodes g)"
    using graph_view.nodes_distinct [OF assms(1)] by (simp add: distinct_map)
  have card: "count_state v (graph_nodes g) = int (card {e \<in> set (graph_nodes g). ev_state e = v})" for v
    using distinct_card [OF distinct_filter [OF d, of "\<lambda>e. ev_state e = v"]] by (simp add: count_state_def)
  have broken: "ev_layer ` {e \<in> set (graph_nodes g). ev_state e = StateFail}
      = set (map ev_layer (filter (\<lambda>e. ev_state e = StateFail) (graph_nodes g)))"
    by auto
  have first: "sm_first_broken s =
      (if set (map ev_layer (filter (\<lambda>e. ev_state e = StateFail) (graph_nodes g))) = {}
       then LayerUnspecified
       else Min (set (map ev_layer (filter (\<lambda>e. ev_state e = StateFail) (graph_nodes g)))))"
    by (simp only: assms(2) derive_summary_eq [OF assms(1)] summary.simps first_broken_def Let_def set_empty)
  show ?thesis
    unfolding broken Let_def first [symmetric]
    by (simp add: assms(2) derive_summary_eq [OF assms(1)] card list_ex_iff is_problem_def)
qed

theorem derive_summary_exact_witness:
  "sm_status (derive_summary demo_graph [demo_error]) = SummaryStatusProblemsFound
   \<and> sm_first_broken (derive_summary demo_graph [demo_error]) = LayerTCP
   \<and> sm_skipped (derive_summary demo_graph [demo_error]) = 1"
proof -
  have nodes: "graph_nodes demo_graph = [demo_dns, demo_tcp, demo_tls]"
    by (simp add: graph_nodes_def demo_graph_def demo_builder_def)
  have "{e \<in> set (graph_nodes demo_graph). ev_state e = StateFail} = {demo_tcp}"
    by (auto simp: nodes eval_demo)
  then have broken: "ev_layer ` {e \<in> set (graph_nodes demo_graph). ev_state e = StateFail} = {LayerTCP}"
    by (simp add: eval_demo)
  have skipped: "{e \<in> set (graph_nodes demo_graph). ev_state e = StateSkipped} = {demo_tls}"
    by (auto simp: nodes eval_demo)
  show ?thesis
    using derive_summary_exact [OF demo_graph_wf refl, of "[demo_error]"]
    unfolding broken skipped by (simp add: Let_def demo_error_def demo_finding_def)
qed

text \<open>C27: \<open>NewReport\<close> refuses an input exactly when a part or a finding is the zero value or some
  finding cites evidence that is not in the graph; a report it returns has the input's parts, its
  findings in canonical order with every cited id a node of its graph, and the derived summary.\<close>

theorem new_report_exact:
  "(case new_report i of
      Inl ErrInvalidValue \<Rightarrow> \<not> report_parts_ok i
    | Inl ErrInvalidReport \<Rightarrow> report_parts_ok i
        \<and> (\<exists>f\<in>set (ri_findings i). \<exists>x\<in>set (f_refs f). graph_node (ri_graph i) x = None)
    | Inl ErrInvalidGraph \<Rightarrow> False
    | Inr r \<Rightarrow> report_parts_ok i
        \<and> rp_run r = ri_run i \<and> rp_target r = ri_target i \<and> rp_vantage r = ri_vantage i
        \<and> rp_graph r = ri_graph i \<and> rp_security r = ri_security i
        \<and> mset (rp_findings r) = mset (ri_findings i)
        \<and> rp_findings r = sort_findings (rp_findings r)
        \<and> sorted_wrt (\<lambda>f g. f_severity g \<le> f_severity f) (rp_findings r)
        \<and> (\<forall>f\<in>set (rp_findings r). \<forall>x\<in>set (f_refs f). graph_node (rp_graph r) x \<noteq> None)
        \<and> rp_summary r = derive_summary (rp_graph r) (rp_findings r))"
proof -
  have "sorted_wrt (\<lambda>f g. f_severity g \<le> f_severity f) (sort_findings fs)" for fs
    unfolding sort_findings_def
    by (rule sorted_wrt_mono_rel [OF _ finding_order.go_sort_sorted]) (simp add: compare_findings_severity)
  moreover have "sort_findings (sort_findings fs) = sort_findings fs" for fs
    by (simp add: sort_findings_def finding_order.go_sort_idem)
  moreover have "mset (sort_findings fs) = mset fs" for fs
    by (simp add: sort_findings_def)
  ultimately show ?thesis
    by (simp add: new_report_eq refs_recorded_def)
qed

theorem new_report_exact_witness:
  "\<exists>r. new_report (demo_report_input [demo_error]) = Inr r \<and> rp_findings r = [demo_error]
     \<and> new_report (demo_report_input [demo_error\<lparr>f_refs := [''gone'']\<rparr>]) = Inl ErrInvalidReport"
proof -
  let ?good = "demo_report_input [demo_error]"
  let ?bad = "demo_report_input [demo_error\<lparr>f_refs := [''gone'']\<rparr>]"
  have "\<exists>r. new_report ?good = Inr r \<and> rp_findings r = [demo_error]"
  proof (cases "new_report ?good")
    case (Inl e)
    moreover have "report_parts_ok ?good" "\<forall>f\<in>set (ri_findings ?good). refs_recorded (ri_graph ?good) f"
      by (simp_all add: eval_report)
    ultimately show ?thesis
      using new_report_exact [of ?good] by (cases e) (fastforce simp: refs_recorded_def)+
  next
    case (Inr r)
    then show ?thesis
      using new_report_exact [of ?good] by (auto simp: demo_report_input_def)
  qed
  moreover have "new_report ?bad = Inl ErrInvalidReport"
  proof (cases "new_report ?bad")
    case (Inl e)
    moreover have "report_parts_ok ?bad"
      by (simp add: eval_report)
    ultimately show ?thesis
      using new_report_exact [of ?bad] by (cases e) auto
  next
    case (Inr r)
    then have "mset (rp_findings r) = mset (ri_findings ?bad)" and "rp_graph r = ri_graph ?bad"
      and "\<forall>f\<in>set (rp_findings r). \<forall>x\<in>set (f_refs f). graph_node (rp_graph r) x \<noteq> None"
      using new_report_exact [of ?bad] unfolding Inr sum.case by blast+
    moreover from this(1) have "set (rp_findings r) = set (ri_findings ?bad)"
      by (rule mset_eq_setD)
    ultimately have "\<forall>f\<in>set (ri_findings ?bad). \<forall>x\<in>set (f_refs f). graph_node (ri_graph ?bad) x \<noteq> None"
      by simp
    then show ?thesis
      by (simp add: eval_report)
  qed
  ultimately show ?thesis by blast
qed

text \<open>Two runs whose findings are the same up to order produce the same report, when no two of
  the findings agree in every field the canonical order looks at.\<close>

theorem new_report_order_independent:
  assumes "graph_wf (ri_graph i)" and "\<forall>f\<in>set (ri_findings i). finding_wf f"
    and "inj_on finding_sort_key (set (ri_findings i))" and "mset fs = mset (ri_findings i)"
  shows "new_report (i\<lparr>ri_findings := fs\<rparr>) = new_report i"
proof -
  have s: "set fs = set (ri_findings i)"
    using assms(4) by (rule mset_eq_setD)
  have "sort_findings fs = sort_findings (ri_findings i)"
    using sort_findings_perm [of "ri_findings i" fs] assms by simp
  then show ?thesis
    by (simp add: new_report_eq report_parts_ok_def s)
qed

theorem new_report_order_independent_witness:
  "\<exists>r. new_report (demo_report_input [demo_error, demo_critical]) = Inr r
     \<and> new_report (demo_report_input [demo_critical, demo_error]) = Inr r
     \<and> rp_findings r = [demo_critical, demo_error]"
proof -
  let ?i = "demo_report_input [demo_error, demo_critical]"
  have "graph_wf (ri_graph ?i)"
    by (simp add: demo_report_input_def demo_graph_wf)
  moreover have "\<forall>f\<in>set (ri_findings ?i). finding_wf f"
    by (simp add: demo_report_input_def demo_finding_wfs)
  moreover have "inj_on finding_sort_key (set (ri_findings ?i))"
    by (simp add: demo_report_input_def inj_on_def finding_sort_key_def demo_error_def
        demo_critical_def demo_finding_def)
  moreover have "mset [demo_critical, demo_error] = mset (ri_findings ?i)"
    by (simp add: demo_report_input_def add_mset_commute)
  ultimately have "new_report (?i\<lparr>ri_findings := [demo_critical, demo_error]\<rparr>) = new_report ?i"
    by (rule new_report_order_independent)
  moreover have "?i\<lparr>ri_findings := [demo_critical, demo_error]\<rparr> = demo_report_input [demo_critical, demo_error]"
    by (simp add: demo_report_input_def)
  moreover have "report_parts_ok ?i" "\<forall>f\<in>set (ri_findings ?i). refs_recorded (ri_graph ?i) f"
    by (simp_all add: eval_report)
  then have "\<exists>r. new_report ?i = Inr r \<and> rp_findings r = [demo_critical, demo_error]"
    using demo_order by (simp add: new_report_eq demo_report_input_def)
  ultimately show ?thesis by auto
qed

text \<open>Security metadata of a SHAREABLE_REDACTED report exists only as the derivative of LOCAL_FULL
  metadata, whose TLS and forwarding flags it keeps, and no redaction count in it is negative;
  it cannot be derived a second time.\<close>

theorem shareable_security_derives:
  "(case new_shareable_report_security s c of
      Inl e \<Rightarrow> e = ErrInvalidValue
        \<and> (rs_mode s \<noteq> OutputModeLocalFull \<or> rc_hostname c < 0 \<or> rc_ip c < 0 \<or> rc_evidence_id c < 0
           \<or> rc_prose c < 0 \<or> rc_identity c < 0)
    | Inr s' \<Rightarrow> rs_mode s = OutputModeLocalFull \<and> rs_mode s' = OutputModeShareableRedacted
        \<and> rs_tls_off s' = rs_tls_off s \<and> rs_forwarding s' = rs_forwarding s
        \<and> rs_redactions s' = c \<and> 0 \<le> redactions_total c
        \<and> (\<forall>c'. new_shareable_report_security s' c' = Inl ErrInvalidValue)
        \<and> (\<forall>m t f. new_report_security m t f \<noteq> Inr s'))"
  by (auto simp: new_shareable_report_security_def security_is_zero_def redactions_total_def
      new_report_security_ok)

theorem shareable_security_derives_witness:
  "\<exists>s s'. new_report_security OutputModeLocalFull True False = Inr s
     \<and> new_shareable_report_security s (zero_redactions\<lparr>rc_prose := 2\<rparr>) = Inr s'
     \<and> rs_mode s' = OutputModeShareableRedacted \<and> rs_tls_off s'
     \<and> new_shareable_report_security s' zero_redactions = Inl ErrInvalidValue"
proof -
  let ?s = "\<lparr>rs_mode = OutputModeLocalFull, rs_tls_off = True, rs_forwarding = False,
    rs_redactions = zero_redactions\<rparr>"
  have s: "new_report_security OutputModeLocalFull True False = Inr ?s"
    by (simp add: new_report_security_ok)
  obtain s' where s': "new_shareable_report_security ?s (zero_redactions\<lparr>rc_prose := 2\<rparr>) = Inr s'"
    by (simp add: new_shareable_report_security_def security_is_zero_def zero_redactions_def)
  then show ?thesis
    using shareable_security_derives [of ?s "zero_redactions\<lparr>rc_prose := 2\<rparr>"] s by auto
qed

end
