(* ===== verification/GraphQuery.thy ===== *)
theory GraphQuery
  imports Report
begin

text \<open>
  Package \<open>internal/diagnosis\<close>: the questions a rule asks of the evidence graph
  (\<open>graphquery.go\<close>). \<open>BlockedChain\<close> is a breadth-first search over the inverted blocked-by
  relation; \<open>SiblingOutcome\<close> sorts the subjects below a node into passed, failed and not
  measured.
\<close>

subsection \<open>Nodes and subjects\<close>

definition compare_nodes :: "evidence \<Rightarrow> evidence \<Rightarrow> int" where
  "compare_nodes a b =
     cmp_then (go_compare (ev_layer a) (ev_layer b))
    (cmp_then (go_compare (ev_step a) (ev_step b))
       (go_compare (ev_id a) (ev_id b)))"

definition sort_by_layer :: "evidence list \<Rightarrow> evidence list" where
  "sort_by_layer nodes = go_sort compare_nodes nodes"

definition nodes_for_subject :: "graph \<Rightarrow> subject \<Rightarrow> evidence list" where
  "nodes_for_subject g s =
     (if subject_is_zero s then []
      else sort_by_layer (filter (\<lambda>node. ev_subject node = s) (graph_nodes g)))"

fun collect_subjects :: "subject list \<Rightarrow> evidence list \<Rightarrow> subject list" where
  "collect_subjects out [] = out"
| "collect_subjects out (node # nodes) =
     (if subject_is_zero (ev_subject node) \<or> ev_subject node \<in> set out
      then collect_subjects out nodes
      else collect_subjects (out @ [ev_subject node]) nodes)"

definition subjects :: "graph \<Rightarrow> subject list" where
  "subjects g = go_sort compare_subjects (collect_subjects [] (graph_nodes g))"

interpretation node_order: comparator compare_nodes
  unfolding compare_nodes_def by (intro comparator_then comparator_by)

lemma compare_nodes_zero: "compare_nodes a b = 0 \<longleftrightarrow>
    ev_layer a = ev_layer b \<and> ev_step a = ev_step b \<and> ev_id a = ev_id b"
  by (auto simp: compare_nodes_def)

lemma compare_nodes_layer: "compare_nodes a b \<le> 0 \<Longrightarrow> ev_layer a \<le> ev_layer b"
  by (auto simp: compare_nodes_def cmp_then_def go_compare_def split: if_splits)

lemma set_collect_subjects:
  "set (collect_subjects out nodes) =
     set out \<union> {s. \<not> subject_is_zero s \<and> s \<in> ev_subject ` set nodes}"
  by (induction out nodes rule: collect_subjects.induct) auto

lemma distinct_collect_subjects: "distinct out \<Longrightarrow> distinct (collect_subjects out nodes)"
  by (induction out nodes rule: collect_subjects.induct) auto

lemma set_subjects:
  "set (subjects g) = {s. \<not> subject_is_zero s \<and> s \<in> ev_subject ` set (graph_nodes g)}"
  by (simp add: subjects_def set_collect_subjects)

lemma distinct_subjects: "distinct (subjects g)"
  by (simp add: subjects_def distinct_collect_subjects)

lemma set_nodes_for_subject:
  "set (nodes_for_subject g s) =
     (if subject_is_zero s then {} else {e \<in> set (graph_nodes g). ev_subject e = s})"
  by (auto simp: nodes_for_subject_def sort_by_layer_def)

lemma nodes_for_subject_sorted: "sorted_wrt (\<lambda>a b. compare_nodes a b \<le> 0) (nodes_for_subject g s)"
  by (simp add: nodes_for_subject_def sort_by_layer_def node_order.go_sort_sorted)

subsection \<open>What a node blocks\<close>

definition add_block :: "evidence_id \<Rightarrow> evidence_id \<Rightarrow> relation \<Rightarrow> relation" where
  "add_block blocked blocker rel = AList.update blocker (rel_get rel blocker @ [blocked]) rel"

definition invert_blocks :: "graph \<Rightarrow> relation" where
  "invert_blocks g =
     fold (\<lambda>node rel. fold (add_block (ev_id node)) (graph_blocked_by g (ev_id node)) rel)
       (graph_nodes g) []"

text \<open>The inner loop: what is new goes to \<open>visited\<close>, to the output and to the queue.\<close>

fun chain_push :: "evidence_id list \<Rightarrow> evidence_id list \<times> evidence_id list \<times> evidence_id list \<Rightarrow>
    evidence_id list \<times> evidence_id list \<times> evidence_id list" where
  "chain_push [] st = st"
| "chain_push (blocked # bs) (visited, out, queue) =
     (if blocked \<in> set visited then chain_push bs (visited, out, queue)
      else chain_push bs (blocked # visited, out @ [blocked], queue @ [blocked]))"

lemma chain_push_new:
  "\<exists>new. chain_push bs (visited, out, queue) = (rev new @ visited, out @ new, queue @ new)
     \<and> distinct new \<and> set new = set bs - set visited"
proof (induction bs arbitrary: visited out queue)
  case (Cons b bs)
  show ?case
  proof (cases "b \<in> set visited")
    case True
    then show ?thesis using Cons.IH [of visited out queue] by auto
  next
    case False
    obtain new where new:
      "chain_push bs (b # visited, out @ [b], queue @ [b]) =
         (rev new @ b # visited, (out @ [b]) @ new, (queue @ [b]) @ new)"
      "distinct new" "set new = set bs - insert b (set visited)"
      using Cons.IH [of "b # visited" "out @ [b]" "queue @ [b]"] by auto
    show ?thesis
      by (rule exI [of _ "b # new"]) (use False new in auto)
  qed
qed simp

function chain_loop :: "relation \<Rightarrow> evidence_id list \<Rightarrow> evidence_id list \<Rightarrow> evidence_id list \<Rightarrow>
    evidence_id list" where
  "chain_loop blocks visited out [] = out"
| "chain_loop blocks visited out (current # queue) =
     (case chain_push (rel_get blocks current) (visited, out, queue) of
        (visited', out', queue') \<Rightarrow> chain_loop blocks visited' out' queue')"
  by pat_completeness auto

lemma rel_get_values: "set (rel_get rel x) \<subseteq> (\<Union>ys\<in>snd ` set rel. set ys)"
  by (cases "map_of rel x") (auto simp: rel_get_def dest!: map_of_SomeD intro!: bexI)

lemma chain_step_decreases:
  assumes "chain_push (rel_get blocks current) (visited, out, queue) = (visited', out', queue')"
  shows "length queue' + card ((\<Union>ys\<in>snd ` set blocks. set ys) - set visited')
    < length (current # queue) + card ((\<Union>ys\<in>snd ` set blocks. set ys) - set visited)"
proof -
  let ?all = "\<Union>ys\<in>snd ` set blocks. set ys"
  obtain new where new: "visited' = rev new @ visited" "queue' = queue @ new" "distinct new"
      "set new = set (rel_get blocks current) - set visited"
    using chain_push_new [of "rel_get blocks current" visited out queue] assms by auto
  have fin: "finite (?all - set visited)" by simp
  have sub: "set new \<subseteq> ?all - set visited"
    using new(4) rel_get_values [of blocks current] by auto
  have "card ((?all - set visited) - set new) = card (?all - set visited) - length new"
    using sub by (simp add: card_Diff_subset distinct_card new(3))
  moreover have "length new \<le> card (?all - set visited)"
    using card_mono [OF fin sub] by (simp add: distinct_card new(3))
  moreover have "?all - set visited' = (?all - set visited) - set new"
    using new(1) by auto
  ultimately show ?thesis using new(2) by simp
qed

termination chain_loop
proof (relation "measure (\<lambda>(blocks, visited, out, queue).
    length queue + card ((\<Union>ys\<in>snd ` set blocks. set ys) - set visited))", goal_cases)
  case (2 blocks visited out current queue x y xa ya)
  then have push: "chain_push (rel_get blocks current) (visited, out, queue) = (x, xa, ya)"
    by simp
  show ?case
    using chain_step_decreases [OF push] by (simp add: push)
qed simp

definition blocked_chain :: "graph \<Rightarrow> evidence_id \<Rightarrow> evidence_id list" where
  "blocked_chain g x = sort (chain_loop (invert_blocks g) [x] [] [x])"

text \<open>The search finds what the start reaches, the start itself left out.\<close>

lemma chain_loop_reaches:
  assumes "set visited = insert x (set out)" "x \<notin> set out" "distinct out"
    and "set queue \<subseteq> set visited" "set visited \<subseteq> (edges blocks)\<^sup>* `` {x}"
    and "\<And>v w. v \<in> set visited \<Longrightarrow> v \<notin> set queue \<Longrightarrow> (v, w) \<in> edges blocks \<Longrightarrow> w \<in> set visited"
  shows "distinct (chain_loop blocks visited out queue)
    \<and> set (chain_loop blocks visited out queue) = (edges blocks)\<^sup>* `` {x} - {x}"
  using assms
proof (induction blocks visited out queue rule: chain_loop.induct)
  case (1 blocks visited out)
  have "y \<in> set visited" if "(x, y) \<in> (edges blocks)\<^sup>*" for y
    using that by (induction rule: rtrancl_induct) (use 1 in auto)
  then have "set visited = (edges blocks)\<^sup>* `` {x}"
    using 1(5) by auto
  then show ?case using 1 by auto
next
  case (2 blocks visited out current queue)
  obtain new where push: "chain_push (rel_get blocks current) (visited, out, queue)
        = (rev new @ visited, out @ new, queue @ new)"
    and new: "distinct new" "set new = set (rel_get blocks current) - set visited"
    using chain_push_new by blast
  have "(x, current) \<in> (edges blocks)\<^sup>*"
    using 2(5,6) by auto
  then have reach: "set new \<subseteq> (edges blocks)\<^sup>* `` {x}"
    using new(2) by (auto intro: rtrancl_into_rtrancl)
  have "distinct (chain_loop blocks (rev new @ visited) (out @ new) (queue @ new))
    \<and> set (chain_loop blocks (rev new @ visited) (out @ new) (queue @ new))
      = (edges blocks)\<^sup>* `` {x} - {x}"
  proof (rule 2(1) [OF push [symmetric] refl])
    show "set (rev new @ visited) = insert x (set (out @ new))" "x \<notin> set (out @ new)"
      "distinct (out @ new)"
      using 2(2-4) new by auto
    show "set (queue @ new) \<subseteq> set (rev new @ visited)"
      "set (rev new @ visited) \<subseteq> (edges blocks)\<^sup>* `` {x}"
      using 2(5,6) reach by auto
    show "w \<in> set (rev new @ visited)"
      if "v \<in> set (rev new @ visited)" "v \<notin> set (queue @ new)" "(v, w) \<in> edges blocks" for v w
    proof (cases "v = current")
      case True
      then show ?thesis using that(3) new(2) by auto
    next
      case False
      then show ?thesis using that 2(7) [of v w] by auto
    qed
  qed
  then show ?case by (simp add: push)
qed

lemma edges_add_block: "edges (add_block x y rel) = insert (y, x) (edges rel)"
proof -
  have "rel_get (add_block x y rel) z = (if z = y then rel_get rel y @ [x] else rel_get rel z)" for z
    unfolding add_block_def rel_get_def [of "AList.update k v r" for k v r] AList.update_conv
    by (cases "z = y") (simp_all add: rel_get_def [of rel z])
  then show ?thesis by (auto simp: edges_def split: if_splits)
qed

lemma edges_invert_blocks:
  "edges (invert_blocks g) =
     {(y, x). x \<in> ev_id ` set (graph_nodes g) \<and> y \<in> set (graph_blocked_by g x)}"
proof -
  have inner: "edges (fold (add_block x) ys rel) = edges rel \<union> {(y, x) |y. y \<in> set ys}" for x ys rel
    by (induction ys arbitrary: rel) (auto simp: edges_add_block)
  have outer: "edges (fold (\<lambda>node rel. fold (add_block (ev_id node)) (graph_blocked_by g (ev_id node)) rel)
        nodes rel)
      = edges rel \<union> {(y, x). x \<in> ev_id ` set nodes \<and> y \<in> set (graph_blocked_by g x)}" for nodes rel
    by (induction nodes arbitrary: rel) (auto simp: inner)
  have "edges [] = {}"
    by (auto simp: edges_def rel_get_def)
  then show ?thesis
    unfolding invert_blocks_def outer by simp
qed

lemma blocked_chain_reaches:
  "distinct (blocked_chain g x) \<and> sorted (blocked_chain g x)
   \<and> set (blocked_chain g x) = (edges (invert_blocks g))\<^sup>* `` {x} - {x}"
proof -
  have "distinct (chain_loop (invert_blocks g) [x] [] [x])
    \<and> set (chain_loop (invert_blocks g) [x] [] [x]) = (edges (invert_blocks g))\<^sup>* `` {x} - {x}"
  proof (rule chain_loop_reaches)
    show "set [x] = insert x (set [])" by simp
    show "x \<notin> set []" by simp
    show "distinct ([] :: evidence_id list)" by simp
    show "set [x] \<subseteq> set [x]" by simp
    show "set [x] \<subseteq> (edges (invert_blocks g))\<^sup>* `` {x}" by auto
    show "\<And>v w. v \<in> set [x] \<Longrightarrow> v \<notin> set [x] \<Longrightarrow> (v, w) \<in> edges (invert_blocks g) \<Longrightarrow> w \<in> set [x]"
      by blast
  qed
  then show ?thesis
    by (simp add: blocked_chain_def del: chain_loop.simps)
qed

text \<open>On a frozen graph: the ids whose chain of blockers leads to \<open>x\<close>.\<close>

lemma set_blocked_chain:
  assumes "graph_wf g"
  shows "set (blocked_chain g x) = {y. (y, x) \<in> {(a, b). b \<in> set (graph_blocked_by g a)}\<^sup>+}"
proof -
  let ?R = "{(a, b). b \<in> set (graph_blocked_by g a)}"
  have "edges (invert_blocks g) = ?R\<inverse>"
  proof -
    have "a \<in> ev_id ` set (graph_nodes g)" if "b \<in> set (graph_blocked_by g a)" for a b
      using graph_view.blocker_known [OF assms that] graph_view.nodes_ids [OF assms]
      by (metis insert_subset list.set_map)
    then show ?thesis by (auto simp: edges_invert_blocks)
  qed
  moreover have "acyclic ?R"
    by (rule graph_view.blocked_acyclic [OF assms])
  then have "(y, x) \<in> ?R\<^sup>* \<and> y \<noteq> x \<longleftrightarrow> (y, x) \<in> ?R\<^sup>+" for y
    by (auto simp: acyclic_def rtrancl_eq_or_trancl)
  ultimately show ?thesis
    using blocked_chain_reaches [of g x] by (auto simp: rtrancl_converse)
qed

subsection \<open>How the subjects below a node fared\<close>

record sibling_counts =
  sb_passed :: "subject list"
  sb_failed :: "subject list"
  sb_not_measured :: "subject list"

definition siblings_total :: "sibling_counts \<Rightarrow> nat" where
  "siblings_total c = length (sb_passed c) + length (sb_failed c) + length (sb_not_measured c)"

definition classify_subject :: "evidence list \<Rightarrow> state" where
  "classify_subject nodes =
     (if list_ex (\<lambda>n. ev_state n = StateFail \<or> ev_state n = StateDegraded) nodes then StateFail
      else if list_ex (\<lambda>n. ev_state n = StateUnknown \<or> ev_state n = StateSkipped) nodes
      then StateUnknown
      else if list_ex (\<lambda>n. ev_state n = StatePass) nodes then StatePass
      else StateUnknown)"

type_synonym subject_groups = "(subject \<times> evidence list) list"

definition group_child :: "graph \<Rightarrow> evidence_id \<Rightarrow> (subject, evidence) grouping \<Rightarrow> (subject, evidence) grouping" where
  "group_child g child st =
     (case graph_node g child of
        None \<Rightarrow> st
      | Some node \<Rightarrow> if subject_is_zero (ev_subject node) then st else group_step ev_subject node st)"

definition count_sibling :: "subject_groups \<Rightarrow> subject \<Rightarrow> sibling_counts \<Rightarrow> sibling_counts" where
  "count_sibling m s c =
     (case classify_subject (bucket m s) of
        StateFail \<Rightarrow> c\<lparr>sb_failed := sb_failed c @ [s]\<rparr>
      | StatePass \<Rightarrow> c\<lparr>sb_passed := sb_passed c @ [s]\<rparr>
      | _ \<Rightarrow> c\<lparr>sb_not_measured := sb_not_measured c @ [s]\<rparr>)"

definition sibling_outcome :: "graph \<Rightarrow> evidence_id \<Rightarrow> sibling_counts" where
  "sibling_outcome g x =
     (case fold (group_child g) (graph_children g x) ([], []) of (subs, m) \<Rightarrow>
        fold (count_sibling m) (go_sort compare_subjects subs)
          \<lparr>sb_passed = [], sb_failed = [], sb_not_measured = []\<rparr>)"

text \<open>The child nodes that carry a subject, in order.\<close>

definition child_nodes :: "graph \<Rightarrow> evidence_id list \<Rightarrow> evidence list" where
  "child_nodes g ids =
     filter (\<lambda>e. \<not> subject_is_zero (ev_subject e)) (List.map_filter (graph_node g) ids)"

lemma group_children: "fold (group_child g) ids st = fold (group_step ev_subject) (child_nodes g ids) st"
proof (induction ids arbitrary: st)
  case (Cons x ids)
  then show ?case
    by (cases "graph_node g x") (simp_all add: group_child_def child_nodes_def List.map_filter_simps)
qed (simp add: child_nodes_def List.map_filter_simps)

lemma count_siblings:
  "fold (count_sibling m) ss c = \<lparr>
     sb_passed = sb_passed c @ filter (\<lambda>s. classify_subject (bucket m s) = StatePass) ss,
     sb_failed = sb_failed c @ filter (\<lambda>s. classify_subject (bucket m s) = StateFail) ss,
     sb_not_measured = sb_not_measured c @ filter (\<lambda>s. classify_subject (bucket m s) = StateUnknown) ss\<rparr>"
proof (induction ss arbitrary: c)
  case (Cons s ss)
  have "classify_subject es \<in> {StatePass, StateFail, StateUnknown}" for es
    by (simp add: classify_subject_def)
  then consider "classify_subject (bucket m s) = StatePass"
    | "classify_subject (bucket m s) = StateFail" | "classify_subject (bucket m s) = StateUnknown"
    by blast
  then show ?case
    by cases (simp_all only: fold_simps comp_apply Cons.IH, simp_all add: count_sibling_def)
qed simp

lemma sibling_outcome_eq:
  "\<exists>ss. distinct ss \<and> set ss = ev_subject ` set (child_nodes g (graph_children g x))
     \<and> sorted_wrt (\<lambda>a b. compare_subjects a b \<le> 0) ss
     \<and> sibling_outcome g x =
         (let verdict = \<lambda>s. classify_subject
                (filter (\<lambda>e. ev_subject e = s) (child_nodes g (graph_children g x)))
          in \<lparr>sb_passed = filter (\<lambda>s. verdict s = StatePass) ss,
              sb_failed = filter (\<lambda>s. verdict s = StateFail) ss,
              sb_not_measured = filter (\<lambda>s. verdict s = StateUnknown) ss\<rparr>)"
proof -
  let ?groups = "group_by ev_subject (child_nodes g (graph_children g x))"
  obtain subs m where st: "?groups = (subs, m)" by fastforce
  have g: "distinct subs" "set subs = ev_subject ` set (child_nodes g (graph_children g x))"
    and m: "\<And>s. bucket m s = filter (\<lambda>e. ev_subject e = s) (child_nodes g (graph_children g x))"
    using group_by_spec [of ev_subject "child_nodes g (graph_children g x)"] by (simp_all add: st)
  have st': "fold (group_child g) (graph_children g x) ([], []) = (subs, m)"
    using st by (simp add: group_children group_by_def)
  show ?thesis
    by (rule exI [of _ "go_sort compare_subjects subs"])
      (simp add: g subject_order.go_sort_sorted sibling_outcome_def st' count_siblings m)
qed

subsection \<open>Properties\<close>

text \<open>\<open>BlockedChain\<close> lists, once each and in order, exactly the evidence whose chain of blockers
  leads to the given id; the id itself is never among them.\<close>

theorem blocked_chain_exact:
  assumes "graph_wf g"
  shows "sorted (blocked_chain g x) \<and> distinct (blocked_chain g x)
    \<and> set (blocked_chain g x) = {y. (y, x) \<in> {(a, b). b \<in> set (graph_blocked_by g a)}\<^sup>+}
    \<and> x \<notin> set (blocked_chain g x)"
  using blocked_chain_reaches [of g x] set_blocked_chain [OF assms] by auto

lemma demo_graph_blocked: "graph_blocked_by demo_graph x = (if x = ''tls'' then [''tcp''] else [])"
  by (simp add: graph_blocked_by_def demo_graph_def rel_get_def)

theorem blocked_chain_exact_witness:
  "blocked_chain demo_graph ''tcp'' = [''tls''] \<and> blocked_chain demo_graph ''dns'' = []"
proof -
  let ?R = "{(a, b). b \<in> set (graph_blocked_by demo_graph a)}"
  have R: "?R = {(''tls'', ''tcp'')}"
    by (auto simp: demo_graph_blocked split: if_splits)
  have "(y, z) \<in> ?R\<^sup>+ \<longleftrightarrow> y = ''tls'' \<and> z = ''tcp''" for y z
  proof
    assume "(y, z) \<in> ?R\<^sup>+"
    then show "y = ''tls'' \<and> z = ''tcp''"
      by (induction rule: trancl_induct) (auto simp: R)
  qed (auto simp: R)
  then have "set (blocked_chain demo_graph ''tcp'') = {''tls''}" "set (blocked_chain demo_graph ''dns'') = {}"
    and "distinct (blocked_chain demo_graph ''tcp'')"
    using blocked_chain_exact [OF demo_graph_wf, of "''tcp''"]
      blocked_chain_exact [OF demo_graph_wf, of "''dns''"] by auto
  then show ?thesis
    by (cases "blocked_chain demo_graph ''tcp''"; cases "tl (blocked_chain demo_graph ''tcp'')") auto
qed

lemma set_map_filter_iff: "y \<in> set (List.map_filter f xs) \<longleftrightarrow> (\<exists>x\<in>set xs. f x = Some y)"
  by (force simp: List.map_filter_def)

lemma set_child_nodes:
  assumes "graph_wf g"
  shows "set (child_nodes g ids) = {e \<in> set (graph_nodes g). ev_id e \<in> set ids}"
proof -
  have made: "ev_id e = x \<and> \<not> subject_is_zero (ev_subject e)" if "graph_node g x = Some e" for x e
    using graph_view.node_made [OF assms that] by (simp add: evidence_wf_def)
  have "e \<in> set (child_nodes g ids) \<longleftrightarrow> ev_id e \<in> set ids \<and> graph_node g (ev_id e) = Some e" for e
    unfolding child_nodes_def set_filter mem_Collect_eq set_map_filter_iff using made by metis
  then show ?thesis
    using graph_view.nodes_iff [OF assms] by blast
qed

lemma classify_subject_range: "classify_subject es \<in> {StatePass, StateFail, StateUnknown}"
  by (simp add: classify_subject_def)

lemma classify_subject_states:
  assumes "st = ev_state ` set es" "es \<noteq> []" "\<And>e. e \<in> set es \<Longrightarrow> state_valid (ev_state e)"
  shows "(classify_subject es = StateFail \<longleftrightarrow> StateFail \<in> st \<or> StateDegraded \<in> st)
    \<and> (classify_subject es = StateUnknown \<longleftrightarrow>
         StateFail \<notin> st \<and> StateDegraded \<notin> st \<and> (StateUnknown \<in> st \<or> StateSkipped \<in> st))
    \<and> (classify_subject es = StatePass \<longleftrightarrow> st = {StatePass})"
proof -
  have five: "st \<subseteq> {StateUnknown, StatePass, StateFail, StateDegraded, StateSkipped}" "st \<noteq> {}"
  proof -
    have "v \<in> {StateUnknown, StatePass, StateFail, StateDegraded, StateSkipped}" if "state_valid v" for v
      using that by (cases v) (simp_all add: state_valid_def)
    then show "st \<subseteq> {StateUnknown, StatePass, StateFail, StateDegraded, StateSkipped}"
      using assms(1,3) by blast
  qed (simp add: assms)
  have ex: "list_ex (\<lambda>n. ev_state n = v) es \<longleftrightarrow> v \<in> st"
    "list_ex (\<lambda>n. ev_state n = v \<or> ev_state n = w) es \<longleftrightarrow> v \<in> st \<or> w \<in> st" for v w
    by (auto simp: assms(1) list_ex_iff)
  show ?thesis
    unfolding classify_subject_def ex using five by auto
qed

text \<open>\<open>SiblingOutcome\<close> puts every subject of the children of a node in exactly one of its three
  lists: failed when some child of that subject is FAIL or DEGRADED, otherwise not measured when
  some is UNKNOWN or SKIPPED, and passed only when every child of that subject is PASS.\<close>

theorem sibling_outcome_partition:
  assumes "graph_wf g" and "c = sibling_outcome g x"
    and "kids = {e \<in> set (graph_nodes g). ev_id e \<in> set (graph_children g x)}"
  shows "set (sb_passed c) \<union> set (sb_failed c) \<union> set (sb_not_measured c) = ev_subject ` kids
    \<and> distinct (sb_passed c @ sb_failed c @ sb_not_measured c)
    \<and> (\<forall>s\<in>ev_subject ` kids. let st = {ev_state e |e. e \<in> kids \<and> ev_subject e = s} in
        (s \<in> set (sb_failed c) \<longleftrightarrow> StateFail \<in> st \<or> StateDegraded \<in> st)
        \<and> (s \<in> set (sb_not_measured c) \<longleftrightarrow>
            StateFail \<notin> st \<and> StateDegraded \<notin> st \<and> (StateUnknown \<in> st \<or> StateSkipped \<in> st))
        \<and> (s \<in> set (sb_passed c) \<longleftrightarrow> st = {StatePass}))"
proof -
  let ?ns = "child_nodes g (graph_children g x)"
  have wf: "e \<in> kids \<Longrightarrow> evidence_wf e" for e
    using graph_view.nodes_wf [OF assms(1)] assms(3) by blast
  have kids: "set ?ns = kids"
    unfolding assms(3) by (rule set_child_nodes [OF assms(1)])
  obtain ss where ss: "distinct ss" "set ss = ev_subject ` kids"
    and c: "c = (let verdict = \<lambda>s. classify_subject (filter (\<lambda>e. ev_subject e = s) ?ns)
          in \<lparr>sb_passed = filter (\<lambda>s. verdict s = StatePass) ss,
              sb_failed = filter (\<lambda>s. verdict s = StateFail) ss,
              sb_not_measured = filter (\<lambda>s. verdict s = StateUnknown) ss\<rparr>)"
    using sibling_outcome_eq [of g x] unfolding assms(2) kids by blast
  have in_lists: "s \<in> set (sb_passed c) \<longleftrightarrow> s \<in> set ss \<and> classify_subject (filter (\<lambda>e. ev_subject e = s) ?ns) = StatePass"
    "s \<in> set (sb_failed c) \<longleftrightarrow> s \<in> set ss \<and> classify_subject (filter (\<lambda>e. ev_subject e = s) ?ns) = StateFail"
    "s \<in> set (sb_not_measured c) \<longleftrightarrow> s \<in> set ss \<and> classify_subject (filter (\<lambda>e. ev_subject e = s) ?ns) = StateUnknown"
    for s
    by (simp_all add: c Let_def conj_commute)
  have all: "set (sb_passed c) \<union> set (sb_failed c) \<union> set (sb_not_measured c) = ev_subject ` kids"
    unfolding ss(2) [symmetric] using classify_subject_range by (auto simp: in_lists) blast
  have dist: "distinct (sb_passed c @ sb_failed c @ sb_not_measured c)"
    using ss(1) by (auto simp: c Let_def)
  have each: "(s \<in> set (sb_failed c) \<longleftrightarrow> StateFail \<in> st \<or> StateDegraded \<in> st)
      \<and> (s \<in> set (sb_not_measured c) \<longleftrightarrow>
            StateFail \<notin> st \<and> StateDegraded \<notin> st \<and> (StateUnknown \<in> st \<or> StateSkipped \<in> st))
      \<and> (s \<in> set (sb_passed c) \<longleftrightarrow> st = {StatePass})"
    if s: "s \<in> ev_subject ` kids" and st: "st = {ev_state e |e. e \<in> kids \<and> ev_subject e = s}" for s st
  proof -
    let ?es = "filter (\<lambda>e. ev_subject e = s) ?ns"
    have "st = ev_state ` set ?es" "?es \<noteq> []" "\<And>e. e \<in> set ?es \<Longrightarrow> state_valid (ev_state e)"
      using s wf by (auto simp: st kids filter_empty_conv evidence_wf_def)
    from classify_subject_states [OF this] show ?thesis
      using s by (simp add: in_lists ss(2))
  qed
  show ?thesis
    unfolding Let_def
    by (rule conjI [OF all], rule conjI [OF dist], rule ballI, rule each, assumption, rule refl)
qed

theorem sibling_outcome_partition_witness:
  "demo_subject \<in> set (sb_failed (sibling_outcome demo_graph ''dns''))
   \<and> sb_passed (sibling_outcome demo_graph ''dns'') = []"
proof -
  have nodes: "set (graph_nodes demo_graph) = {demo_dns, demo_tcp, demo_tls}"
    by (simp add: graph_nodes_def demo_graph_def demo_builder_def)
  have "graph_children demo_graph ''dns'' = [''tcp'']"
    by (simp add: graph_children_def demo_graph_def rel_get_def)
  then have kids: "{demo_tcp} = {e \<in> set (graph_nodes demo_graph).
      ev_id e \<in> set (graph_children demo_graph ''dns'')}"
    unfolding nodes by (auto simp: eval_demo)
  have "ev_subject demo_tcp = demo_subject" "ev_state demo_tcp = StateFail"
    by (simp_all add: eval_demo)
  note t = sibling_outcome_partition [OF demo_graph_wf refl kids]
  have "set (sb_passed (sibling_outcome demo_graph ''dns'')) \<subseteq> {demo_subject}"
    using conjunct1 [OF t] by (auto simp: \<open>ev_subject demo_tcp = demo_subject\<close>)
  moreover have "demo_subject \<in> set (sb_failed (sibling_outcome demo_graph ''dns''))"
      "demo_subject \<notin> set (sb_passed (sibling_outcome demo_graph ''dns''))"
    using conjunct2 [OF conjunct2 [OF t]] \<open>ev_subject demo_tcp = demo_subject\<close>
      \<open>ev_state demo_tcp = StateFail\<close> by (auto simp: Let_def)
  ultimately show ?thesis
    by (metis set_empty singletonI subset_singletonD)
qed

end
