(* ===== verification/Prose.thy ===== *)
theory Prose
  imports Names
begin

text \<open>
  Which ASCII texts the validators of \<open>internal/domain\<close> accept: the summaries and details the
  diagnosis rules write are of this form, so the constructors never refuse them.
\<close>

definition edges_printable :: "string \<Rightarrow> bool" where
  "edges_printable s \<longleftrightarrow> s \<noteq> [] \<and> hd s \<noteq> CHR '' '' \<and> last s \<noteq> CHR '' ''
     \<and> 32 \<le> code (hd s) \<and> 32 \<le> code (last s)"

definition line_char :: "char \<Rightarrow> bool" where
  "line_char c \<longleftrightarrow> 32 \<le> code c \<and> code c < 127"

definition text_char :: "char \<Rightarrow> bool" where
  "text_char c \<longleftrightarrow> line_char c \<or> c = CHR 0x0A"

definition line_text :: "string \<Rightarrow> bool" where
  "line_text s \<longleftrightarrow> edges_printable s \<and> list_all line_char s"

definition prose_text :: "string \<Rightarrow> bool" where
  "prose_text s \<longleftrightarrow> edges_printable s \<and> list_all text_char s"

lemma text_char_ascii: "text_char c \<Longrightarrow> code c < 128"
  by (auto simp: text_char_def line_char_def)

lemma text_edge_not_space:
  assumes "text_char c" "c \<noteq> CHR '' ''" "32 \<le> code c"
  shows "\<not> rune_is_space (code c)"
proof -
  have "code c \<noteq> 32"
  proof
    assume "code c = 32"
    then have "code c = code (CHR '' '')" by simp
    then show False using assms(2) by (simp only: of_char_eq_iff)
  qed
  then show ?thesis
    using text_char_ascii [OF assms(1)] assms(3) by (auto simp: rune_is_space_def)
qed

lemma trim_space_text:
  assumes "prose_text s"
  shows "trim_space s = s"
proof -
  have a: "list_all (\<lambda>c. code c < 128) s"
    using assms by (auto simp: prose_text_def list_all_iff dest: text_char_ascii)
  then have r: "runes s = map (\<lambda>c. (code c, [c])) s"
    by (rule runes_all_ascii)
  have ne: "s \<noteq> []" and "hd s \<in> set s" "last s \<in> set s"
    using assms by (auto simp: prose_text_def edges_printable_def)
  then have "text_char (hd s)" "text_char (last s)"
    using assms by (auto simp: prose_text_def list_all_iff)
  then have "\<not> rune_is_space (code (hd s))" "\<not> rune_is_space (code (last s))"
    using assms text_edge_not_space by (auto simp: prose_text_def edges_printable_def)
  then have "dropWhile (rune_is_space \<circ> fst) (runes s) = runes s"
    "dropWhile (rune_is_space \<circ> fst) (rev (runes s)) = rev (runes s)"
    using ne by (auto simp: r dropWhile_eq_self_iff hd_map hd_rev last_map simp flip: rev_map)
  then show ?thesis
    by (simp add: trim_space_def runes_concat)
qed

lemma prose_text_valid:
  assumes "prose_text s"
  shows "is_ok (validate_prose s)"
proof -
  have a: "list_all (\<lambda>c. code c < 128) s" and t: "list_all text_char s" and "s \<noteq> []"
    using assms by (auto simp: prose_text_def edges_printable_def list_all_iff dest: text_char_ascii)
  have "\<not> any_rune (\<lambda>r. r \<noteq> 10 \<and> rune_is_control r) s"
    using t by (auto simp: any_rune_def list_ex_iff runes_all_ascii [OF a] list_all_iff text_char_def
        line_char_def rune_is_control_def)
  then show ?thesis
    using valid_utf8_ascii [OF a] trim_space_text [OF assms] \<open>s \<noteq> []\<close> by (simp add: validate_prose_def)
qed

lemma line_text_prose: "line_text s \<Longrightarrow> prose_text s"
  by (auto simp: line_text_def prose_text_def text_char_def list_all_iff)

lemma line_text_valid:
  assumes "line_text s"
  shows "is_ok (validate_identifier s)"
proof -
  have a: "list_all (\<lambda>c. code c < 128) s" and t: "list_all line_char s" and "s \<noteq> []"
    using assms by (auto simp: line_text_def edges_printable_def list_all_iff line_char_def)
  have "\<not> any_rune rune_is_control s"
    using t by (auto simp: any_rune_def list_ex_iff runes_all_ascii [OF a] list_all_iff
        line_char_def rune_is_control_def)
  then show ?thesis
    using valid_utf8_ascii [OF a] trim_space_text [OF line_text_prose [OF assms]] \<open>s \<noteq> []\<close>
    by (simp add: validate_identifier_ok)
qed

text \<open>Building such texts from pieces.\<close>

lemma edges_printable_append:
  "edges_printable a \<Longrightarrow> edges_printable b \<Longrightarrow> edges_printable (a @ m @ b)"
  by (simp add: edges_printable_def)

lemma line_text_append:
  "line_text a \<Longrightarrow> list_all line_char m \<Longrightarrow> line_text b \<Longrightarrow> line_text (a @ m @ b)"
  by (simp add: line_text_def edges_printable_append)

lemma prose_text_append:
  "prose_text a \<Longrightarrow> list_all text_char m \<Longrightarrow> prose_text b \<Longrightarrow> prose_text (a @ m @ b)"
  by (simp add: prose_text_def edges_printable_append)

lemmas eval_text = line_text_def prose_text_def edges_printable_def text_char_def line_char_def

end
