(* ===== verification/Boundary.thy ===== *)
theory Boundary
  imports GraphQuery Prose
begin

text \<open>
  Package \<open>internal/diagnosis\<close>: where observation of a subject stopped succeeding
  (\<open>boundary.go\<close>) and the rule that reports it (\<open>failureboundary.go\<close>). The empty id stands for
  no confirmed-good evidence, as in the code.
\<close>

subsection \<open>Boundaries\<close>

record boundary =
  bd_subject :: subject
  bd_last_good :: evidence_id
  bd_first_failure :: evidence_id
  bd_blocked :: "evidence_id list"
  bd_not_measured :: "evidence_id list"

definition last_confirmed_good :: "boundary \<Rightarrow> evidence_id \<times> bool" where
  "last_confirmed_good b = (bd_last_good b, bd_last_good b \<noteq> [])"

definition boundary_is_zero :: "boundary \<Rightarrow> bool" where
  "boundary_is_zero b \<longleftrightarrow> subject_is_zero (bd_subject b) \<and> bd_first_failure b = []"

definition broken :: "evidence \<Rightarrow> bool" where
  "broken e \<longleftrightarrow> ev_state e = StateFail \<or> ev_state e = StateDegraded"

definition unmeasured_node :: "evidence \<Rightarrow> bool" where
  "unmeasured_node e \<longleftrightarrow> ev_state e = StateUnknown \<or> ev_state e = StateSkipped"

fun failure_at :: "evidence list \<Rightarrow> nat option" where
  "failure_at [] = None"
| "failure_at (n # ns) = (if broken n then Some 0 else map_option Suc (failure_at ns))"

definition confirms :: "layer \<Rightarrow> evidence \<Rightarrow> bool" where
  "confirms l e \<longleftrightarrow> ev_state e = StatePass \<and> ev_layer e < l"

text \<open>The loop from the failure back to the first node.\<close>

fun good_below :: "layer \<Rightarrow> evidence list \<Rightarrow> evidence_id" where
  "good_below l [] = []"
| "good_below l (n # ns) = (if confirms l n then ev_id n else good_below l ns)"

definition boundary_for :: "graph \<Rightarrow> subject \<Rightarrow> boundary option" where
  "boundary_for g s =
     (let nodes = nodes_for_subject g s in
      case failure_at nodes of
        None \<Rightarrow> None
      | Some i \<Rightarrow>
          (let failing = nodes ! i in
           Some \<lparr>bd_subject = s,
             bd_last_good = good_below (ev_layer failing) (rev (take i nodes)),
             bd_first_failure = ev_id failing,
             bd_blocked = blocked_chain g (ev_id failing),
             bd_not_measured = sort (map ev_id (filter unmeasured_node nodes))\<rparr>))"

definition boundaries :: "graph \<Rightarrow> boundary list" where
  "boundaries g = List.map_filter (boundary_for g) (subjects g)"

lemma failure_at_Some:
  "failure_at ns = Some i \<Longrightarrow> i < length ns \<and> broken (ns ! i) \<and> (\<forall>j<i. \<not> broken (ns ! j))"
proof (induction ns arbitrary: i)
  case (Cons n ns)
  show ?case
  proof (cases "broken n")
    case True
    then show ?thesis using Cons.prems by simp
  next
    case False
    then obtain k where k: "failure_at ns = Some k" "i = Suc k"
      using Cons.prems by auto
    then show ?thesis
      using Cons.IH [OF k(1)] False by (auto simp: nth_Cons split: nat.splits)
  qed
qed simp

lemma failure_at_None: "failure_at ns = None \<longleftrightarrow> (\<forall>e\<in>set ns. \<not> broken e)"
  by (induction ns) auto

lemma good_below_rev:
  assumes "sorted_wrt R ns" "\<And>x. R x x"
  shows "good_below l (rev ns) = [] \<and> (\<forall>q\<in>set ns. \<not> confirms l q)
    \<or> (\<exists>p\<in>set ns. good_below l (rev ns) = ev_id p \<and> confirms l p \<and> (\<forall>q\<in>set ns. confirms l q \<longrightarrow> R q p))"
  using assms(1)
proof (induction ns rule: rev_induct)
  case (snoc n ns)
  show ?case
  proof (cases "confirms l n")
    case True
    have "\<forall>x\<in>set (ns @ [n]). R x n"
      using snoc.prems assms(2) by (auto simp: sorted_wrt_append)
    then show ?thesis using True by simp
  next
    case False
    then have "good_below l (rev (ns @ [n])) = good_below l (rev ns)" by simp
    moreover have "sorted_wrt R ns"
      using snoc.prems by (simp add: sorted_wrt_append)
    ultimately show ?thesis
      using snoc.IH False by auto
  qed
qed simp

text \<open>What a boundary of a subject is, in terms of the subject's evidence.\<close>

definition subject_evidence :: "graph \<Rightarrow> subject \<Rightarrow> evidence set" where
  "subject_evidence g s = {e \<in> set (graph_nodes g). ev_subject e = s}"

definition confirmed_below :: "graph \<Rightarrow> subject \<Rightarrow> layer \<Rightarrow> evidence set" where
  "confirmed_below g s l = {e \<in> subject_evidence g s. confirms l e}"

definition is_boundary :: "graph \<Rightarrow> subject \<Rightarrow> boundary \<Rightarrow> bool" where
  "is_boundary g s b \<longleftrightarrow>
     bd_subject b = s
     \<and> (\<exists>f\<in>subject_evidence g s. broken f \<and> bd_first_failure b = ev_id f
         \<and> (\<forall>e\<in>subject_evidence g s. broken e \<longrightarrow> compare_nodes f e \<le> 0)
         \<and> (if confirmed_below g s (ev_layer f) = {} then bd_last_good b = []
            else \<exists>p\<in>confirmed_below g s (ev_layer f). bd_last_good b = ev_id p
              \<and> (\<forall>q\<in>confirmed_below g s (ev_layer f). compare_nodes q p \<le> 0)))
     \<and> set (bd_not_measured b) = ev_id ` {e \<in> subject_evidence g s. unmeasured_node e}
     \<and> sorted (bd_not_measured b)
     \<and> bd_blocked b = blocked_chain g (bd_first_failure b)"

lemma subject_evidence_nonzero:
  assumes "graph_wf g" "e \<in> subject_evidence g s"
  shows "\<not> subject_is_zero s" "ev_id e \<noteq> []" "layer_valid (ev_layer e)" "graph_node g (ev_id e) = Some e"
  using graph_view.nodes_wf [OF assms(1), of e] graph_view.nodes_iff [OF assms(1), of e] assms(2)
  by (auto simp: subject_evidence_def evidence_wf_def validate_identifier_ok)

lemma nodes_for_subject_evidence:
  assumes "graph_wf g"
  shows "set (nodes_for_subject g s) = subject_evidence g s"
  using subject_evidence_nonzero(1) [OF assms, of _ s]
  by (auto simp: set_nodes_for_subject subject_evidence_def)

lemma boundary_for_spec:
  assumes g: "graph_wf g"
  shows "case boundary_for g s of None \<Rightarrow> \<forall>e\<in>subject_evidence g s. \<not> broken e | Some b \<Rightarrow> is_boundary g s b"
proof -
  let ?ns = "nodes_for_subject g s"
  have set: "set ?ns = subject_evidence g s"
    by (rule nodes_for_subject_evidence [OF g])
  have srt: "sorted_wrt (\<lambda>a b. compare_nodes a b \<le> 0) ?ns"
    by (rule nodes_for_subject_sorted)
  show ?thesis
  proof (cases "failure_at ?ns")
    case None
    then show ?thesis
      using failure_at_None [of ?ns] by (simp add: boundary_for_def set)
  next
    case (Some i)
    let ?f = "?ns ! i" and ?pre = "take i ?ns"
    have i: "i < length ?ns" "broken ?f" "\<And>j. j < i \<Longrightarrow> \<not> broken (?ns ! j)"
      using failure_at_Some [OF Some] by auto
    have f: "?f \<in> subject_evidence g s"
      using i(1) set nth_mem by blast
    have later: "compare_nodes ?f (?ns ! j) \<le> 0" if "i \<le> j" "j < length ?ns" for j
      using that sorted_wrt_nth_less [OF srt, of i j] node_order.cmp_refl [of ?f] by (cases "i = j") auto
    have least: "compare_nodes ?f e \<le> 0" if e: "e \<in> subject_evidence g s" "broken e" for e
    proof -
      obtain j where j: "j < length ?ns" "?ns ! j = e"
        using e(1) unfolding set [symmetric] in_set_conv_nth by blast
      have "i \<le> j"
        using i(3) [of j] e(2) unfolding j(2) [symmetric] by (rule_tac leI) blast
      then show ?thesis unfolding j(2) [symmetric] using j(1) by (rule later)
    qed
    have pre: "{q \<in> set ?pre. confirms (ev_layer ?f) q} = confirmed_below g s (ev_layer ?f)"
    proof -
      have "q \<in> set ?pre" if q: "q \<in> subject_evidence g s" "confirms (ev_layer ?f) q" for q
      proof -
        obtain j where j: "j < length ?ns" "?ns ! j = q"
          using q(1) unfolding set [symmetric] in_set_conv_nth by blast
        have "\<not> i \<le> j"
        proof
          assume "i \<le> j"
          then have "compare_nodes ?f q \<le> 0"
            unfolding j(2) [symmetric] using j(1) by (rule later)
          then show False
            using compare_nodes_layer q(2) by (fastforce simp: confirms_def)
        qed
        then have "?pre ! j = q" "j < length ?pre"
          using j by simp_all
        then show ?thesis by (metis nth_mem)
      qed
      moreover have "set ?pre \<subseteq> subject_evidence g s"
        unfolding set [symmetric] by (rule set_take_subset)
      ultimately show ?thesis unfolding confirmed_below_def by blast
    qed
    have "sorted_wrt (\<lambda>a b. compare_nodes a b \<le> 0) ?pre"
      using srt by (rule sorted_wrt_take)
    note gb = good_below_rev [OF this, of "ev_layer ?f", OF eq_refl [OF node_order.cmp_refl]]
    have good: "if confirmed_below g s (ev_layer ?f) = {} then good_below (ev_layer ?f) (rev ?pre) = []
      else \<exists>p\<in>confirmed_below g s (ev_layer ?f). good_below (ev_layer ?f) (rev ?pre) = ev_id p
        \<and> (\<forall>q\<in>confirmed_below g s (ev_layer ?f). compare_nodes q p \<le> 0)"
      using gb
    proof (elim disjE)
      assume "good_below (ev_layer ?f) (rev ?pre) = [] \<and> (\<forall>q\<in>set ?pre. \<not> confirms (ev_layer ?f) q)"
      moreover from this have "confirmed_below g s (ev_layer ?f) = {}"
        using pre by blast
      ultimately show ?thesis by simp
    next
      assume "\<exists>p\<in>set ?pre. good_below (ev_layer ?f) (rev ?pre) = ev_id p \<and> confirms (ev_layer ?f) p
        \<and> (\<forall>q\<in>set ?pre. confirms (ev_layer ?f) q \<longrightarrow> compare_nodes q p \<le> 0)"
      then obtain p where p: "p \<in> set ?pre" "good_below (ev_layer ?f) (rev ?pre) = ev_id p"
          "confirms (ev_layer ?f) p" "\<And>q. q \<in> set ?pre \<Longrightarrow> confirms (ev_layer ?f) q \<Longrightarrow> compare_nodes q p \<le> 0"
        by blast
      moreover have "p \<in> confirmed_below g s (ev_layer ?f)"
        using pre p by blast
      moreover have "\<forall>q\<in>confirmed_below g s (ev_layer ?f). compare_nodes q p \<le> 0"
        using pre p(4) by blast
      ultimately show ?thesis by auto
    qed
    have nm: "set (sort (map ev_id (filter unmeasured_node ?ns)))
        = ev_id ` {e \<in> subject_evidence g s. unmeasured_node e}"
      by (simp add: set [symmetric])
    have "is_boundary g s \<lparr>bd_subject = s,
        bd_last_good = good_below (ev_layer ?f) (rev ?pre), bd_first_failure = ev_id ?f,
        bd_blocked = blocked_chain g (ev_id ?f),
        bd_not_measured = sort (map ev_id (filter unmeasured_node ?ns))\<rparr>"
      unfolding is_boundary_def boundary.simps nm
    proof (intro conjI bexI [of _ ?f])
      show "\<forall>e\<in>subject_evidence g s. broken e \<longrightarrow> compare_nodes ?f e \<le> 0"
        using least by blast
    qed (use f i(2) good in simp_all)
    then show ?thesis
      by (simp add: boundary_for_def Let_def Some)
  qed
qed

lemma set_boundaries:
  "b \<in> set (boundaries g) \<longleftrightarrow> (\<exists>s\<in>set (subjects g). boundary_for g s = Some b)"
  by (simp add: boundaries_def set_map_filter_iff)

lemma boundary_for_subject: "boundary_for g s = Some b \<Longrightarrow> bd_subject b = s"
  by (auto simp: boundary_for_def Let_def split: option.splits)

lemma boundaries_subjects:
  "map bd_subject (boundaries g) = filter (\<lambda>s. boundary_for g s \<noteq> None) (subjects g)"
proof -
  have "map bd_subject (List.map_filter (boundary_for g) ss) = filter (\<lambda>s. boundary_for g s \<noteq> None) ss" for ss
  proof (induction ss)
    case (Cons s ss)
    then show ?case
      by (cases "boundary_for g s") (simp_all add: List.map_filter_simps boundary_for_subject)
  qed (simp add: List.map_filter_simps)
  then show ?thesis by (simp add: boundaries_def)
qed

subsection \<open>The rule that reports a boundary\<close>

record rule_context =
  ctx_graph :: graph
  ctx_vantage :: vantage
  ctx_incomplete :: bool

definition code_failure_boundary :: finding_code where
  "code_failure_boundary = ''DIAG_FAILURE_BOUNDARY''"

definition summary_boundary_contrast :: "string \<Rightarrow> string \<Rightarrow> string" where
  "summary_boundary_contrast good failing =
     ''Observation of this subject last succeeded at the '' @ good @ '' stage ''
     @ ''and first failed at the '' @ failing @ '' stage''"

definition summary_boundary_first_stage :: "string \<Rightarrow> string" where
  "summary_boundary_first_stage failing =
     ''The first stage measured for this subject, '' @ failing @ '', failed''"

definition detail_boundary_meaning :: string where
  "detail_boundary_meaning =
     ''This states where observation stopped succeeding and nothing ''
     @ ''about why. It does not claim that this stage caused the failure, and it is not a ''
     @ ''statement about any other stage.''"

definition detail_boundary_no_last_good :: string where
  "detail_boundary_no_last_good =
     CHR 0x0A # ''Nothing for this subject succeeded before it, so there is no ''
     @ ''confirmed-good stage to contrast it against; the absence is reported rather than ''
     @ ''filled in.''"

definition detail_boundary_not_measured :: string where
  "detail_boundary_not_measured =
     CHR 0x0A # ''Some stages for this subject were not measured. A stage that ''
     @ ''did not run was neither proven to work nor proven to fail, and none of them is ''
     @ ''cited here.''"

fun vantage_dependent_layer :: "layer \<Rightarrow> bool" where
  "vantage_dependent_layer LayerDNS = True"
| "vantage_dependent_layer LayerTCP = True"
| "vantage_dependent_layer LayerTLS = True"
| "vantage_dependent_layer _ = False"

definition boundary_input :: "boundary \<Rightarrow> evidence \<Rightarrow> evidence_id list \<Rightarrow> string \<Rightarrow> string \<Rightarrow> finding_input" where
  "boundary_input b failing refs summary detail = \<lparr>
     f_code = code_failure_boundary, f_kind = FindingKindConfirmed, f_severity = SeverityInfo,
     f_confidence = ConfidenceHigh, f_layer = ev_layer failing, f_subject = bd_subject b,
     f_summary = summary, f_detail = detail, f_refs = refs, f_recs = [],
     f_vantage = vantage_dependent_layer (ev_layer failing), f_discriminator = []\<rparr>"

definition boundary_finding :: "graph \<Rightarrow> boundary \<Rightarrow> finding option" where
  "boundary_finding g b =
     (case graph_node g (bd_first_failure b) of
        None \<Rightarrow> None
      | Some failing \<Rightarrow>
          (let finish = (\<lambda>(refs, summary, detail).
             case new_finding (boundary_input b failing refs summary
                 (if bd_not_measured b \<noteq> [] then detail @ detail_boundary_not_measured else detail)) of
               Inl _ \<Rightarrow> None | Inr f \<Rightarrow> Some f) in
           case last_confirmed_good b of
             (last_good, True) \<Rightarrow>
               (case graph_node g last_good of
                  None \<Rightarrow> None
                | Some good \<Rightarrow> finish ([ev_id failing, ev_id good],
                    summary_boundary_contrast (layer_label (ev_layer good)) (layer_label (ev_layer failing)),
                    detail_boundary_meaning))
           | (_, False) \<Rightarrow> finish ([ev_id failing],
               summary_boundary_first_stage (layer_label (ev_layer failing)),
               detail_boundary_meaning @ detail_boundary_no_last_good)))"

definition failure_boundary :: "rule_context \<Rightarrow> finding list" where
  "failure_boundary ctx = List.map_filter (boundary_finding (ctx_graph ctx)) (boundaries (ctx_graph ctx))"

text \<open>The texts of the rule are accepted by the validators of findings.\<close>

lemma layer_label_text: "layer_valid l \<Longrightarrow> line_text (layer_label l)"
  by (cases l) (simp_all add: layer_valid_def eval_text)

lemma summary_contrast_ok:
  "layer_valid l \<Longrightarrow> layer_valid k \<Longrightarrow>
     is_ok (validate_identifier (summary_boundary_contrast (layer_label l) (layer_label k)))"
  using layer_label_text [of l] layer_label_text [of k]
  by (intro line_text_valid)
    (simp add: summary_boundary_contrast_def line_text_def edges_printable_def line_char_def)

lemma summary_first_stage_ok:
  "layer_valid k \<Longrightarrow> is_ok (validate_identifier (summary_boundary_first_stage (layer_label k)))"
  using layer_label_text [of k]
  by (intro line_text_valid)
    (simp add: summary_boundary_first_stage_def line_text_def edges_printable_def line_char_def)

lemma prose_text_tail:
  "prose_text a \<Longrightarrow> list_all text_char m \<Longrightarrow> m \<noteq> [] \<Longrightarrow> last m = CHR ''.'' \<Longrightarrow> prose_text (a @ m)"
  by (simp add: prose_text_def edges_printable_def)

lemma detail_meaning_text: "prose_text detail_boundary_meaning"
  by (simp add: detail_boundary_meaning_def eval_text)

lemma detail_no_last_good_text:
  "list_all text_char detail_boundary_no_last_good" "detail_boundary_no_last_good \<noteq> []"
  "last detail_boundary_no_last_good = CHR ''.''"
  by (simp_all add: detail_boundary_no_last_good_def text_char_def line_char_def)

lemma detail_not_measured_text:
  "list_all text_char detail_boundary_not_measured" "detail_boundary_not_measured \<noteq> []"
  "last detail_boundary_not_measured = CHR ''.''"
  by (simp_all add: detail_boundary_not_measured_def text_char_def line_char_def)

lemmas detail_text = detail_meaning_text prose_text_tail [OF _ detail_no_last_good_text]
  prose_text_tail [OF _ detail_not_measured_text]

lemma boundary_input_ok:
  assumes "evidence_wf failing" "ev_subject failing = bd_subject b"
    and "refs \<noteq> []" "\<forall>x\<in>set refs. is_ok (validate_identifier x)"
    and "is_ok (validate_identifier summary)" "prose_text detail"
  shows "new_finding (boundary_input b failing refs summary detail)
    = Inr (boundary_input b failing (sort (dedup refs)) summary detail)"
proof -
  have "finding_code_valid code_failure_boundary"
    by (simp add: code_failure_boundary_def finding_code_ok code_char_def is_upper_def is_digit_def)
  then have "finding_fields_ok (boundary_input b failing refs summary detail)"
    using assms prose_text_valid [OF assms(6)]
    by (auto simp: finding_fields_ok_def boundary_input_def evidence_wf_def finding_kind_valid_def
        severity_valid_def confidence_valid_def)
  then show ?thesis
    by (simp add: new_finding_eq boundary_input_def)
qed

lemma boundary_finding_made:
  assumes g: "graph_wf g" and b: "boundary_for g s = Some b"
  shows "\<exists>f summary detail failing. boundary_finding g b = Some f
    \<and> f = boundary_input b failing (sort (dedup (filter (\<lambda>x. x \<noteq> []) [bd_first_failure b, bd_last_good b])))
        summary detail
    \<and> graph_node g (bd_first_failure b) = Some failing \<and> finding_wf f"
proof -
  have ib: "is_boundary g s b"
    using boundary_for_spec [OF g, of s] b by simp
  then obtain failing where failing: "failing \<in> subject_evidence g s" "bd_first_failure b = ev_id failing"
    and last: "if confirmed_below g s (ev_layer failing) = {} then bd_last_good b = []
      else \<exists>p\<in>confirmed_below g s (ev_layer failing). bd_last_good b = ev_id p
        \<and> (\<forall>q\<in>confirmed_below g s (ev_layer failing). compare_nodes q p \<le> 0)"
    and subj: "bd_subject b = s"
    unfolding is_boundary_def by blast
  have node: "graph_node g (ev_id failing) = Some failing" and id: "ev_id failing \<noteq> []"
    and lay: "layer_valid (ev_layer failing)"
    using subject_evidence_nonzero [OF g failing(1)] by simp_all
  have wf: "evidence_wf failing" and sub: "ev_subject failing = bd_subject b"
    using graph_view.nodes_wf [OF g] failing(1) subj by (auto simp: subject_evidence_def)
  let ?detail = "\<lambda>d. if bd_not_measured b \<noteq> [] then d @ detail_boundary_not_measured else d"
  show ?thesis
  proof (cases "bd_last_good b = []")
    case True
    let ?summary = "summary_boundary_first_stage (layer_label (ev_layer failing))"
    let ?d = "?detail (detail_boundary_meaning @ detail_boundary_no_last_good)"
    have d: "prose_text ?d"
      by (cases "bd_not_measured b = []") (simp_all del: append_assoc add: detail_text)
    have made: "new_finding (boundary_input b failing [ev_id failing] ?summary ?d)
        = Inr (boundary_input b failing (sort (dedup [ev_id failing])) ?summary ?d)"
      by (rule boundary_input_ok [OF wf sub _ _ _ d])
        (use wf lay summary_first_stage_ok in \<open>simp_all add: evidence_wf_def\<close>)
    then have "boundary_finding g b = Some (boundary_input b failing (sort (dedup [ev_id failing])) ?summary ?d)"
      by (simp add: boundary_finding_def failing(2) node last_confirmed_good_def True Let_def)
    then show ?thesis
      using new_finding_wf [OF made] failing(2) True node id by auto
  next
    case False
    then obtain p where p: "p \<in> confirmed_below g s (ev_layer failing)" "bd_last_good b = ev_id p"
      using last by (auto split: if_splits)
    then have ps: "p \<in> subject_evidence g s"
      by (simp add: confirmed_below_def)
    have pnode: "graph_node g (ev_id p) = Some p" and pl: "layer_valid (ev_layer p)"
      using subject_evidence_nonzero [OF g ps] by simp_all
    have pwf: "evidence_wf p"
      using graph_view.nodes_wf [OF g] ps by (auto simp: subject_evidence_def)
    let ?summary = "summary_boundary_contrast (layer_label (ev_layer p)) (layer_label (ev_layer failing))"
    let ?d = "?detail detail_boundary_meaning"
    have d: "prose_text ?d"
      by (cases "bd_not_measured b = []") (simp_all del: append_assoc add: detail_text)
    have made: "new_finding (boundary_input b failing [ev_id failing, ev_id p] ?summary ?d)
        = Inr (boundary_input b failing (sort (dedup [ev_id failing, ev_id p])) ?summary ?d)"
      by (rule boundary_input_ok [OF wf sub _ _ _ d])
        (use wf pwf lay pl summary_contrast_ok in \<open>simp_all add: evidence_wf_def\<close>)
    have "last_confirmed_good b = (ev_id p, True)"
      using False p(2) by (simp add: last_confirmed_good_def)
    then have "boundary_finding g b
        = Some (boundary_input b failing (sort (dedup [ev_id failing, ev_id p])) ?summary ?d)"
      using made by (simp add: boundary_finding_def failing(2) node pnode Let_def)
    moreover have "filter (\<lambda>x. x \<noteq> []) [bd_first_failure b, bd_last_good b] = [ev_id failing, ev_id p]"
      using failing(2) p(2) False id by simp
    ultimately show ?thesis
      using new_finding_wf [OF made] failing(2) node by metis
  qed
qed

subsection \<open>Properties\<close>

lemma list_all2_map_eq:
  "list_all2 P xs ys \<Longrightarrow> (\<And>x y. x \<in> set xs \<Longrightarrow> P x y \<Longrightarrow> f y = g x) \<Longrightarrow> map f ys = map g xs"
  by (induction rule: list_all2_induct) auto

lemma failure_boundary_list:
  assumes "graph_wf (ctx_graph ctx)"
  shows "\<exists>fs. failure_boundary ctx = fs
    \<and> list_all2 (\<lambda>b f. boundary_finding (ctx_graph ctx) b = Some f) (boundaries (ctx_graph ctx)) fs"
proof -
  let ?g = "ctx_graph ctx"
  have "\<exists>f. boundary_finding ?g b = Some f" if "b \<in> set (boundaries ?g)" for b
    using boundary_finding_made [OF assms] that by (fastforce simp: set_boundaries)
  then have "list_all2 (\<lambda>b f. boundary_finding ?g b = Some f) bs (List.map_filter (boundary_finding ?g) bs)"
    if "set bs \<subseteq> set (boundaries ?g)" for bs
    using that by (induction bs) (fastforce simp: List.map_filter_simps)+
  then show ?thesis by (simp add: failure_boundary_def)
qed

text \<open>C40: A subject of a frozen graph has a boundary exactly when some evidence of it is FAIL or
  DEGRADED. The boundary names the first such evidence by layer, step and id; the last PASS evidence
  of the subject at a strictly lower layer, or nothing when there is none; every UNKNOWN or SKIPPED
  evidence of the subject, in order; and what the failure blocks.\<close>

theorem boundary_for_exact:
  assumes "graph_wf g"
  shows "case boundary_for g s of
      None \<Rightarrow> \<forall>e\<in>subject_evidence g s. ev_state e \<noteq> StateFail \<and> ev_state e \<noteq> StateDegraded
    | Some b \<Rightarrow> bd_subject b = s
        \<and> (\<exists>f\<in>subject_evidence g s. broken f \<and> bd_first_failure b = ev_id f
            \<and> (\<forall>e\<in>subject_evidence g s. broken e \<longrightarrow> compare_nodes f e \<le> 0)
            \<and> (if confirmed_below g s (ev_layer f) = {} then bd_last_good b = []
               else \<exists>p\<in>confirmed_below g s (ev_layer f). bd_last_good b = ev_id p
                 \<and> (\<forall>q\<in>confirmed_below g s (ev_layer f). compare_nodes q p \<le> 0)))
        \<and> set (bd_not_measured b) = ev_id ` {e \<in> subject_evidence g s. unmeasured_node e}
        \<and> sorted (bd_not_measured b)
        \<and> bd_blocked b = blocked_chain g (bd_first_failure b)"
  using boundary_for_spec [OF assms, of s]
  by (cases "boundary_for g s") (simp_all add: is_boundary_def broken_def)

lemma demo_nodes: "set (graph_nodes demo_graph) = {demo_dns, demo_tcp, demo_tls}"
  by (simp add: graph_nodes_def demo_graph_def demo_builder_def)

lemma demo_subject_evidence: "subject_evidence demo_graph demo_subject = {demo_dns, demo_tcp, demo_tls}"
  unfolding subject_evidence_def demo_nodes by (auto simp: eval_demo)

theorem boundary_for_exact_witness:
  "\<exists>b. boundary_for demo_graph demo_subject = Some b \<and> bd_first_failure b = ''tcp''
     \<and> bd_last_good b = ''dns'' \<and> set (bd_not_measured b) = {''tls''}"
proof -
  note t = boundary_for_exact [OF demo_graph_wf, of demo_subject, unfolded demo_subject_evidence]
  have fail: "ev_state demo_tcp = StateFail" and ids: "ev_id demo_tcp = ''tcp''" "ev_id demo_tls = ''tls''" "ev_id demo_dns = ''dns''"
    by (simp_all add: eval_demo)
  obtain b where b: "boundary_for demo_graph demo_subject = Some b"
    using t fail by (cases "boundary_for demo_graph demo_subject") auto
  have br: "broken f \<longleftrightarrow> f = demo_tcp" if "f \<in> {demo_dns, demo_tcp, demo_tls}" for f
    using that by (auto simp: broken_def eval_demo)
  have below: "confirmed_below demo_graph demo_subject (ev_layer demo_tcp) = {demo_dns}"
    unfolding confirmed_below_def demo_subject_evidence
    by (auto simp: confirms_def eval_demo less_layer_def)
  have unm: "{e \<in> {demo_dns, demo_tcp, demo_tls}. unmeasured_node e} = {demo_tls}"
    by (auto simp: unmeasured_node_def eval_demo)
  from t b have "bd_first_failure b = ev_id demo_tcp \<and> bd_last_good b = ev_id demo_dns"
    using br below by auto
  moreover from t b have "set (bd_not_measured b) = {ev_id demo_tls}"
    by (simp only: option.case unm) simp
  ultimately show ?thesis using b ids by simp
qed

text \<open>The failure-boundary rule reports every subject with FAIL or DEGRADED evidence exactly
  once, in the order of the subjects. Every finding it makes is valid, a CONFIRMED INFO claim of HIGH
  confidence without advice that cites exactly the first failure and the last confirmed-good
  evidence, which are nodes of the graph.\<close>

theorem failure_boundary_reports:
  assumes g: "graph_wf (ctx_graph ctx)"
  shows "map f_subject (failure_boundary ctx) =
        filter (\<lambda>s. \<exists>e\<in>subject_evidence (ctx_graph ctx) s. broken e) (subjects (ctx_graph ctx))
    \<and> set (subjects (ctx_graph ctx)) = ev_subject ` set (graph_nodes (ctx_graph ctx))
    \<and> distinct (subjects (ctx_graph ctx))
    \<and> (\<forall>f\<in>set (failure_boundary ctx). finding_wf f \<and> refs_recorded (ctx_graph ctx) f
        \<and> f_code f = code_failure_boundary \<and> f_kind f = FindingKindConfirmed
        \<and> f_severity f = SeverityInfo \<and> f_confidence f = ConfidenceHigh \<and> f_recs f = []
        \<and> (\<exists>b. boundary_for (ctx_graph ctx) (f_subject f) = Some b
            \<and> set (f_refs f) = {bd_first_failure b, bd_last_good b} - {[]}))"
proof -
  let ?g = "ctx_graph ctx"
  have bound: "boundary_for ?g s \<noteq> None \<longleftrightarrow> (\<exists>e\<in>subject_evidence ?g s. broken e)" for s
    using boundary_for_spec [OF g, of s] by (cases "boundary_for ?g s") (auto simp: is_boundary_def)
  have la: "list_all2 (\<lambda>b f. boundary_finding ?g b = Some f) (boundaries ?g) (failure_boundary ctx)"
    using failure_boundary_list [OF g] by simp
  have made: "f_subject f = bd_subject b \<and> finding_wf f \<and> refs_recorded ?g f
        \<and> f_code f = code_failure_boundary \<and> f_kind f = FindingKindConfirmed
        \<and> f_severity f = SeverityInfo \<and> f_confidence f = ConfidenceHigh \<and> f_recs f = []
        \<and> set (f_refs f) = {bd_first_failure b, bd_last_good b} - {[]}"
    if b: "boundary_for ?g s = Some b" and f: "boundary_finding ?g b = Some f" for s b f
  proof -
    obtain summary detail failing where fe: "f = boundary_input b failing
        (sort (dedup (filter (\<lambda>x. x \<noteq> []) [bd_first_failure b, bd_last_good b]))) summary detail"
      and wf: "finding_wf f"
      using boundary_finding_made [OF g b] f by auto
    have refs: "set (f_refs f) = {bd_first_failure b, bd_last_good b} - {[]}"
      by (auto simp: fe boundary_input_def)
    have "\<forall>x\<in>{bd_first_failure b, bd_last_good b} - {[]}. graph_node ?g x \<noteq> None"
      using boundary_for_spec [OF g, of s] subject_evidence_nonzero(4) [OF g, of _ s]
      by (auto simp: b is_boundary_def confirmed_below_def split: if_splits)
    then show ?thesis
      using refs wf by (simp add: refs_recorded_def fe boundary_input_def)
  qed
  have subj: "map f_subject (failure_boundary ctx) = map bd_subject (boundaries ?g)"
    using la by (rule list_all2_map_eq) (use made in \<open>fastforce simp: set_boundaries\<close>)
  have zero: "set (subjects ?g) = ev_subject ` set (graph_nodes ?g)"
    using graph_view.nodes_wf [OF g] by (auto simp: set_subjects evidence_wf_def)
  have each: "\<forall>f\<in>set (failure_boundary ctx). finding_wf f \<and> refs_recorded ?g f
        \<and> f_code f = code_failure_boundary \<and> f_kind f = FindingKindConfirmed
        \<and> f_severity f = SeverityInfo \<and> f_confidence f = ConfidenceHigh \<and> f_recs f = []
        \<and> (\<exists>b. boundary_for ?g (f_subject f) = Some b
            \<and> set (f_refs f) = {bd_first_failure b, bd_last_good b} - {[]})"
  proof
    fix f assume "f \<in> set (failure_boundary ctx)"
    then obtain b where "b \<in> set (boundaries ?g)" and f: "boundary_finding ?g b = Some f"
      by (auto simp: failure_boundary_def set_map_filter_iff)
    then obtain s where b: "boundary_for ?g s = Some b"
      by (auto simp: set_boundaries)
    then have "boundary_for ?g (bd_subject b) = Some b"
      using boundary_for_subject by metis
    then show "finding_wf f \<and> refs_recorded ?g f
        \<and> f_code f = code_failure_boundary \<and> f_kind f = FindingKindConfirmed
        \<and> f_severity f = SeverityInfo \<and> f_confidence f = ConfidenceHigh \<and> f_recs f = []
        \<and> (\<exists>b. boundary_for ?g (f_subject f) = Some b
            \<and> set (f_refs f) = {bd_first_failure b, bd_last_good b} - {[]})"
      using made [OF b f] by metis
  qed
  have "map f_subject (failure_boundary ctx)
      = filter (\<lambda>s. \<exists>e\<in>subject_evidence ?g s. broken e) (subjects ?g)"
    unfolding subj boundaries_subjects bound by (rule refl)
  then show ?thesis
    using zero distinct_subjects [of ?g] each by blast
qed

theorem failure_boundary_reports_witness:
  "let ctx = \<lparr>ctx_graph = demo_graph, ctx_vantage = \<lparr>vt_source = VantageSourceLocalHost, vt_host = ''h''\<rparr>,
      ctx_incomplete = False\<rparr> in
   map f_subject (failure_boundary ctx) = [demo_subject]
   \<and> (\<forall>f\<in>set (failure_boundary ctx). f_refs f \<noteq> [])"
proof -
  let ?ctx = "\<lparr>ctx_graph = demo_graph, ctx_vantage = \<lparr>vt_source = VantageSourceLocalHost, vt_host = ''h''\<rparr>,
      ctx_incomplete = False\<rparr>"
  have wf: "graph_wf (ctx_graph ?ctx)"
    by (simp add: demo_graph_wf)
  note t = failure_boundary_reports [OF wf, unfolded rule_context.simps]
  have "ev_subject ` set (graph_nodes demo_graph) = {demo_subject}"
    unfolding demo_nodes by (simp add: eval_demo)
  with t have "set (subjects demo_graph) = {demo_subject}" "distinct (subjects demo_graph)"
    by auto
  then have "subjects demo_graph = [demo_subject]"
    by (cases "subjects demo_graph"; cases "tl (subjects demo_graph)") auto
  moreover have "\<exists>e\<in>subject_evidence demo_graph demo_subject. broken e"
    unfolding demo_subject_evidence by (auto simp: broken_def eval_demo)
  ultimately have "map f_subject (failure_boundary ?ctx) = [demo_subject]"
    using t by simp
  moreover have "\<forall>f\<in>set (failure_boundary ?ctx). f_refs f \<noteq> []"
    using t by (auto simp: finding_wf_def finding_fields_ok_def)
  ultimately show ?thesis by (simp add: Let_def)
qed

end
