(* ===== verification/Registry.thy ===== *)
theory Registry
  imports Boundary
begin

text \<open>
  Package \<open>internal/diagnosis\<close>: the identity of a rule (\<open>ruleid.go\<close>) and the registry of
  rules a composition root assembles (\<open>registry.go\<close>). A rule is a function of the context; one
  that panics gives \<open>None\<close>. A nil function value is \<open>None\<close> in place of the rule.
\<close>

datatype diag_error =
    ErrInvalidRuleID
  | ErrInvalidRuleSet
  | ErrCannotConverge
  | ErrInvalidBasis
  | ErrUnsupportedClaim
  | ErrUnsafeAdvice
  | ErrInvalidRuleOutput
  | ErrDomain domain_error

type_synonym rule_id = string

subsection \<open>Rule identities\<close>

definition max_rule_id_part :: nat where
  "max_rule_id_part = 48"

text \<open>The loop over the bytes of a part; \<open>prev\<close> is the byte before, if any.\<close>

fun rule_id_chars :: "char option \<Rightarrow> string \<Rightarrow> bool" where
  "rule_id_chars prev [] = True"
| "rule_id_chars prev (c # cs) =
     (if is_lower c then rule_id_chars (Some c) cs
      else if is_digit c then prev \<noteq> None \<and> rule_id_chars (Some c) cs
      else if c = CHR ''-'' then
        \<not> (prev = None \<or> cs = [] \<or> prev = Some CHR ''-'') \<and> rule_id_chars (Some c) cs
      else False)"

definition validate_rule_id_part :: "string \<Rightarrow> diag_error + unit" where
  "validate_rule_id_part s =
     (if s = [] then Inl ErrInvalidRuleID
      else if length s > max_rule_id_part then Inl ErrInvalidRuleID
      else if rule_id_chars None s then Inr () else Inl ErrInvalidRuleID)"

definition new_rule_id :: "string \<Rightarrow> diag_error + rule_id" where
  "new_rule_id s =
     (case cut_at CHR ''/'' s of (owner, name, found) \<Rightarrow>
        if \<not> found then Inl ErrInvalidRuleID
        else if CHR ''/'' \<in> set name then Inl ErrInvalidRuleID
        else rbind (validate_rule_id_part owner) (\<lambda>_.
          rbind (validate_rule_id_part name) (\<lambda>_. Inr s)))"

definition rule_id_valid :: "rule_id \<Rightarrow> bool" where
  "rule_id_valid s \<longleftrightarrow> is_ok (new_rule_id s)"

definition rule_id_owner :: "rule_id \<Rightarrow> string" where
  "rule_id_owner s = (case cut_at CHR ''/'' s of (owner, _, found) \<Rightarrow> if found then owner else [])"

definition rule_id_name :: "rule_id \<Rightarrow> string" where
  "rule_id_name s = (case cut_at CHR ''/'' s of (_, name, found) \<Rightarrow> if found then name else [])"

text \<open>A part, as a reader would state it: words of lower-case letters and digits, joined by single
  hyphens, the first beginning with a letter.\<close>

definition word_char :: "char \<Rightarrow> bool" where
  "word_char c \<longleftrightarrow> is_lower c \<or> is_digit c"

definition rule_id_part :: "string \<Rightarrow> bool" where
  "rule_id_part s \<longleftrightarrow> length s \<le> max_rule_id_part \<and> s \<noteq> [] \<and> is_lower (hd s)
     \<and> (\<forall>w\<in>set (split_on CHR ''-'' s). w \<noteq> [] \<and> list_all word_char w)"

lemma rule_id_chars_words:
  "rule_id_chars (Some p) s \<longleftrightarrow>
     (case split_on CHR ''-'' s of [] \<Rightarrow> False
      | w # ws \<Rightarrow> list_all word_char w \<and> (p = CHR ''-'' \<and> s \<noteq> [] \<longrightarrow> w \<noteq> [])
          \<and> (\<forall>v\<in>set ws. v \<noteq> [] \<and> list_all word_char v))"
proof (induction s arbitrary: p)
  case (Cons c s)
  obtain w ws where sp: "split_on CHR ''-'' s = w # ws"
    by (cases "split_on CHR ''-'' s") auto
  have hyphen: "\<not> is_lower CHR ''-''" "\<not> is_digit CHR ''-''"
    by (simp_all add: is_lower_def is_digit_def)
  have empty: "s = [] \<Longrightarrow> w = [] \<and> ws = []"
    using sp by simp
  consider "c = CHR ''-''" | "c \<noteq> CHR ''-''" "word_char c" | "c \<noteq> CHR ''-''" "\<not> word_char c"
    by blast
  then show ?case
  proof cases
    case 1
    then show ?thesis
      using Cons.IH [of c] empty by (cases "s = []") (auto simp: sp hyphen)
  next
    case 2
    then have "rule_id_chars (Some p) (c # s) = rule_id_chars (Some c) s"
      by (auto simp: word_char_def)
    then show ?thesis
      using 2 by (simp add: Cons.IH sp)
  next
    case 3
    then show ?thesis
      by (simp add: sp word_char_def)
  qed
qed simp

lemma validate_rule_id_part_ok: "is_ok (validate_rule_id_part s) \<longleftrightarrow> rule_id_part s"
proof (cases s)
  case Nil
  then show ?thesis by (simp add: validate_rule_id_part_def rule_id_part_def)
next
  case (Cons c cs)
  obtain w ws where sp: "split_on CHR ''-'' cs = w # ws"
    by (cases "split_on CHR ''-'' cs") auto
  have hyphen: "\<not> is_lower CHR ''-''" "\<not> is_digit CHR ''-''"
    by (simp_all add: is_lower_def is_digit_def)
  have "rule_id_chars None s \<longleftrightarrow> is_lower c
      \<and> (\<forall>w\<in>set (split_on CHR ''-'' s). w \<noteq> [] \<and> list_all word_char w)"
    using rule_id_chars_words [of c cs] by (auto simp: Cons sp hyphen word_char_def)
  then show ?thesis
    by (simp add: validate_rule_id_part_def rule_id_part_def Cons)
qed

lemma validate_rule_id_part_cases:
  "validate_rule_id_part s = (if rule_id_part s then Inr () else Inl ErrInvalidRuleID)"
  using validate_rule_id_part_ok [of s] by (auto simp: validate_rule_id_part_def split: if_splits)

lemma rule_id_part_no_slash: "rule_id_part s \<Longrightarrow> CHR ''/'' \<notin> set s"
proof
  assume r: "rule_id_part s" and "CHR ''/'' \<in> set s"
  then obtain w where "w \<in> set (split_on CHR ''-'' s)" "CHR ''/'' \<in> set w"
    using split_on_chars [of s "CHR ''-''"] by auto
  then have "word_char CHR ''/''"
    using r by (auto simp: rule_id_part_def list_all_iff)
  then show False
    by (simp add: word_char_def is_lower_def is_digit_def)
qed

lemma rule_id_valid_iff:
  "rule_id_valid s \<longleftrightarrow> (\<exists>owner name. s = owner @ CHR ''/'' # name \<and> rule_id_part owner \<and> rule_id_part name)"
proof
  assume "rule_id_valid s"
  then obtain owner name where "cut_at CHR ''/'' s = (owner, name, True)" "rule_id_part owner" "rule_id_part name"
    by (auto simp: rule_id_valid_def new_rule_id_def validate_rule_id_part_cases split: prod.splits if_splits)
  then show "\<exists>owner name. s = owner @ CHR ''/'' # name \<and> rule_id_part owner \<and> rule_id_part name"
    using cut_at_found by blast
next
  assume "\<exists>owner name. s = owner @ CHR ''/'' # name \<and> rule_id_part owner \<and> rule_id_part name"
  then obtain owner name where s: "s = owner @ CHR ''/'' # name" "rule_id_part owner" "rule_id_part name"
    by blast
  then show "rule_id_valid s"
    using cut_at_append [OF rule_id_part_no_slash [OF s(2)], of name] rule_id_part_no_slash [OF s(3)]
    by (simp add: rule_id_valid_def new_rule_id_def validate_rule_id_part_cases)
qed

lemma new_rule_id_eq: "new_rule_id s = (if rule_id_valid s then Inr s else Inl ErrInvalidRuleID)"
  by (auto simp: rule_id_valid_def new_rule_id_def validate_rule_id_part_cases split: prod.splits)

subsection \<open>The rule set and the registry\<close>

type_synonym rule = "rule_context \<Rightarrow> finding list option"

record registered_rule =
  rr_id :: rule_id
  rr_eval :: "rule option"

definition registered_is_zero :: "registered_rule \<Rightarrow> bool" where
  "registered_is_zero r \<longleftrightarrow> rr_id r = [] \<and> rr_eval r = None"

record rule_set =
  rs_rules :: "registered_rule list"
  rs_seen :: "rule_id list"
  rs_err :: "diag_error option"

definition new_rule_set :: rule_set where
  "new_rule_set = \<lparr>rs_rules = [], rs_seen = [], rs_err = None\<rparr>"

definition rule_set_add :: "string \<Rightarrow> rule option \<Rightarrow> rule_set \<Rightarrow> rule_set" where
  "rule_set_add i eval s =
     (if rs_err s \<noteq> None then s
      else case new_rule_id i of
        Inl e \<Rightarrow> s\<lparr>rs_err := Some e\<rparr>
      | Inr rid \<Rightarrow>
          if eval = None then s\<lparr>rs_err := Some ErrInvalidRuleSet\<rparr>
          else if rid \<in> set (rs_seen s) then s\<lparr>rs_err := Some ErrInvalidRuleSet\<rparr>
          else s\<lparr>rs_seen := rid # rs_seen s, rs_rules := rs_rules s @ [\<lparr>rr_id = rid, rr_eval = eval\<rparr>]\<rparr>)"

text \<open>A registry is the list of its rules.\<close>

type_synonym registry = "registered_rule list"

fun freeze_rules :: "rule_id list \<Rightarrow> registered_rule list \<Rightarrow> diag_error + registry" where
  "freeze_rules seen [] = Inr []"
| "freeze_rules seen (r # rs) =
     (if registered_is_zero r then Inl ErrInvalidRuleSet
      else if \<not> rule_id_valid (rr_id r) then Inl ErrInvalidRuleID
      else if rr_eval r = None then Inl ErrInvalidRuleSet
      else if rr_id r \<in> set seen then Inl ErrInvalidRuleSet
      else rbind (freeze_rules (rr_id r # seen) rs) (\<lambda>out. Inr (r # out)))"

definition rule_set_freeze :: "rule_set \<Rightarrow> diag_error + registry" where
  "rule_set_freeze s =
     (case rs_err s of Some e \<Rightarrow> Inl e | None \<Rightarrow> freeze_rules [] (rs_rules s))"

definition registry_ids :: "registry \<Rightarrow> rule_id list" where
  "registry_ids r = map rr_id r"

definition registry_has :: "registry \<Rightarrow> rule_id \<Rightarrow> bool" where
  "registry_has r i \<longleftrightarrow> list_ex (\<lambda>rule. rr_id rule = i) r"

text \<open>What every registry satisfies.\<close>

definition registry_wf :: "registry \<Rightarrow> bool" where
  "registry_wf r \<longleftrightarrow> distinct (registry_ids r) \<and> (\<forall>x\<in>set r. rule_id_valid (rr_id x) \<and> rr_eval x \<noteq> None)"

lemma freeze_rules_Inr:
  "freeze_rules seen rs = Inr out \<longleftrightarrow> out = rs \<and> registry_wf rs \<and> set (registry_ids rs) \<inter> set seen = {}"
  by (induction rs arbitrary: seen out)
    (auto simp: registry_wf_def registry_ids_def registered_is_zero_def rbind_Inr_iff rule_id_valid_iff)

text \<open>A run of calls of \<open>Add\<close>.\<close>

definition add_all :: "(string \<times> rule option) list \<Rightarrow> rule_set" where
  "add_all calls = fold (\<lambda>(i, eval) s. rule_set_add i eval s) calls new_rule_set"

lemma add_all_snoc: "add_all (cs @ [c]) = rule_set_add (fst c) (snd c) (add_all cs)"
  by (simp add: add_all_def case_prod_beta)

lemma add_all_state:
  "if distinct (map fst cs) \<and> (\<forall>c\<in>set cs. rule_id_valid (fst c) \<and> snd c \<noteq> None)
   then add_all cs = \<lparr>rs_rules = map (\<lambda>(i, eval). \<lparr>rr_id = i, rr_eval = eval\<rparr>) cs,
     rs_seen = rev (map fst cs), rs_err = None\<rparr>
   else rs_err (add_all cs) \<noteq> None"
proof (induction cs rule: rev_induct)
  case Nil
  then show ?case by (simp add: add_all_def new_rule_set_def)
next
  case (snoc c cs)
  then show ?case
    by (auto simp: add_all_snoc rule_set_add_def new_rule_id_eq case_prod_beta split: if_splits)
qed

lemma add_all_sticky: "rs_err (add_all cs) = Some e \<Longrightarrow> rs_err (add_all (cs @ ds)) = Some e"
proof (induction ds rule: rev_induct)
  case (snoc d ds)
  then have "add_all (cs @ ds @ [d]) = rule_set_add (fst d) (snd d) (add_all (cs @ ds))"
    using add_all_snoc [of "cs @ ds" d] by simp
  then show ?case
    using snoc by (simp add: rule_set_add_def)
qed simp

subsection \<open>Properties\<close>

text \<open>\<open>NewRuleID\<close> accepts exactly \<open>owner/name\<close> where both parts are at most 48 bytes of words
  of lower-case letters and digits joined by single hyphens, the first starting with a letter; the
  parts of an accepted id are read back by \<open>Owner\<close> and \<open>Name\<close>.\<close>

theorem new_rule_id_exact:
  "new_rule_id s = (if \<exists>owner name. s = owner @ CHR ''/'' # name \<and> rule_id_part owner \<and> rule_id_part name
      then Inr s else Inl ErrInvalidRuleID)
   \<and> (\<forall>owner name. rule_id_part owner \<longrightarrow>
        rule_id_owner (owner @ CHR ''/'' # name) = owner \<and> rule_id_name (owner @ CHR ''/'' # name) = name)"
  using cut_at_append rule_id_part_no_slash
  by (simp add: new_rule_id_eq rule_id_valid_iff rule_id_owner_def rule_id_name_def)

lemmas eval_rule_id = rule_id_part_def max_rule_id_part_def word_char_def is_lower_def is_digit_def

theorem new_rule_id_exact_witness:
  "new_rule_id ''kafka/metadata-2'' = Inr ''kafka/metadata-2''
   \<and> rule_id_owner ''kafka/metadata-2'' = ''kafka'' \<and> rule_id_name ''kafka/metadata-2'' = ''metadata-2''"
proof -
  have parts: "rule_id_part ''kafka''" "rule_id_part ''metadata-2''"
    by (simp_all add: eval_rule_id)
  have s: "''kafka/metadata-2'' = ''kafka'' @ CHR ''/'' # ''metadata-2''"
    by simp
  have "\<exists>owner name. ''kafka/metadata-2'' = owner @ CHR ''/'' # name \<and> rule_id_part owner \<and> rule_id_part name"
    using s parts by blast
  then have "new_rule_id ''kafka/metadata-2'' = Inr ''kafka/metadata-2''"
    using new_rule_id_exact [of "''kafka/metadata-2''"] by argo
  moreover have "rule_id_owner (''kafka'' @ CHR ''/'' # ''metadata-2'') = ''kafka''
      \<and> rule_id_name (''kafka'' @ CHR ''/'' # ''metadata-2'') = ''metadata-2''"
    using new_rule_id_exact parts(1) by blast
  ultimately show ?thesis by simp
qed

text \<open>Freezing a rule set after any run of \<open>Add\<close> calls succeeds exactly when every call gave a
  valid id and a rule and no id came twice; the registry then holds the calls' rules in order. The
  first refused call decides the error, whatever is added after it.\<close>

theorem rule_set_freeze_exact:
  "(if distinct (map fst calls) \<and> (\<forall>c\<in>set calls. rule_id_valid (fst c) \<and> snd c \<noteq> None)
    then \<exists>r. rule_set_freeze (add_all calls) = Inr r \<and> registry_wf r
      \<and> map (\<lambda>x. (rr_id x, rr_eval x)) r = calls
    else \<exists>e. rule_set_freeze (add_all calls) = Inl e)
   \<and> (\<forall>e more. rule_set_freeze (add_all calls) = Inl e \<longrightarrow>
        rule_set_freeze (add_all (calls @ more)) = Inl e)"
proof (cases "distinct (map fst calls) \<and> (\<forall>c\<in>set calls. rule_id_valid (fst c) \<and> snd c \<noteq> None)")
  case True
  let ?r = "map (\<lambda>(i, eval). \<lparr>rr_id = i, rr_eval = eval\<rparr>) calls"
  have "registry_ids ?r = map fst calls"
    by (simp add: registry_ids_def case_prod_beta comp_def)
  then have "registry_wf ?r"
    using True by (auto simp: registry_wf_def)
  then have "rule_set_freeze (add_all calls) = Inr ?r"
    using add_all_state [of calls] True by (simp add: rule_set_freeze_def freeze_rules_Inr)
  moreover have "map (\<lambda>x. (rr_id x, rr_eval x)) ?r = calls"
    by (simp add: case_prod_beta comp_def)
  ultimately show ?thesis
    using True \<open>registry_wf ?r\<close> by auto
next
  case False
  then obtain e where e: "rs_err (add_all calls) = Some e"
    using add_all_state [of calls] by (auto split: if_splits)
  then show ?thesis
    using False add_all_sticky [OF e] by (auto simp: rule_set_freeze_def)
qed

definition quiet_rule :: rule where
  "quiet_rule ctx = Some []"

theorem rule_set_freeze_exact_witness:
  "\<exists>r e. rule_set_freeze (add_all [(''diag/boundary'', Some quiet_rule)]) = Inr r
     \<and> registry_ids r = [''diag/boundary'']
     \<and> rule_set_freeze (add_all [(''diag/x'', None), (''diag/boundary'', Some quiet_rule)]) = Inl e"
proof -
  have valid: "rule_id_valid ''diag/boundary''"
    unfolding rule_id_valid_iff
    by (intro exI [of _ "''diag''"] exI [of _ "''boundary''"]) (simp add: eval_rule_id)
  have good: "distinct (map fst [(''diag/boundary'', Some quiet_rule)])
      \<and> (\<forall>c\<in>set [(''diag/boundary'', Some quiet_rule)]. rule_id_valid (fst c) \<and> snd c \<noteq> None)"
    using valid by simp
  obtain r where r: "rule_set_freeze (add_all [(''diag/boundary'', Some quiet_rule)]) = Inr r"
      and m: "map (\<lambda>x. (rr_id x, rr_eval x)) r = [(''diag/boundary'', Some quiet_rule)]"
    using conjunct1 [OF rule_set_freeze_exact [of "[(''diag/boundary'', Some quiet_rule)]",
        unfolded if_P [OF good]]] by (elim exE conjE)
  have ids: "registry_ids r = [''diag/boundary'']"
    using m by (auto simp: registry_ids_def map_eq_Cons_conv)
  have bad: "\<not> (distinct (map fst [(''diag/x'', None)]) \<and> (\<forall>c\<in>set [(''diag/x'', None :: rule option)].
      rule_id_valid (fst c) \<and> snd c \<noteq> None))"
    by simp
  obtain e where "rule_set_freeze (add_all [(''diag/x'', None)]) = Inl e"
    using rule_set_freeze_exact [of "[(''diag/x'', None)]"] unfolding if_not_P [OF bad] by blast
  then have "rule_set_freeze (add_all ([(''diag/x'', None)] @ [(''diag/boundary'', Some quiet_rule)])) = Inl e"
    using rule_set_freeze_exact by blast
  with r ids show ?thesis by auto
qed

end
