(* ===== verification/Converge.thy ===== *)
theory Converge
  imports Registry
begin

text \<open>
  Package \<open>internal/diagnosis\<close>: convergence (\<open>converge.go\<close>). Findings with one identity and one
  claim are merged into one finding; a hypothesis without a discriminator joins the only one
  that has the same claim and a discriminator. The rule names that come with the findings are
  checked and then play no part in the result.
\<close>

subsection \<open>Identities and merge keys\<close>

record semantic_identity =
  si_code :: finding_code
  si_subject :: subject

definition identity_of :: "finding \<Rightarrow> semantic_identity" where
  "identity_of f = \<lparr>si_code = f_code f, si_subject = f_subject f\<rparr>"

definition identity_is_zero :: "semantic_identity \<Rightarrow> bool" where
  "identity_is_zero i \<longleftrightarrow> si_code i = [] \<and> subject_is_zero (si_subject i)"

definition identity_string :: "semantic_identity \<Rightarrow> string" where
  "identity_string i =
     (if subject_is_zero (si_subject i) then si_code i @ ''@<run>''
      else si_code i @ ''@'' @ subject_string (si_subject i))"

definition compare_identity :: "semantic_identity \<Rightarrow> semantic_identity \<Rightarrow> int" where
  "compare_identity i j =
     cmp_then (go_compare (si_code i) (si_code j))
    (cmp_then (go_compare (subj_kind (si_subject i)) (subj_kind (si_subject j)))
       (go_compare (subj_ref (si_subject i)) (subj_ref (si_subject j))))"

record attributed_finding =
  af_rule :: rule_id
  af_finding :: finding

record merge_key =
  mk_layer :: layer
  mk_summary :: string
  mk_detail :: string
  mk_discriminator :: string

definition mergeable :: "finding \<Rightarrow> merge_key" where
  "mergeable f = \<lparr>mk_layer = f_layer f, mk_summary = f_summary f, mk_detail = f_detail f,
     mk_discriminator = f_discriminator f\<rparr>"

definition same_claim_as :: "merge_key \<Rightarrow> merge_key \<Rightarrow> bool" where
  "same_claim_as k other \<longleftrightarrow>
     mk_layer k = mk_layer other \<and> mk_summary k = mk_summary other \<and> mk_detail k = mk_detail other"

definition compare_merge_key :: "merge_key \<Rightarrow> merge_key \<Rightarrow> int" where
  "compare_merge_key k other =
     cmp_then (go_compare (mk_layer k) (mk_layer other))
    (cmp_then (go_compare (mk_summary k) (mk_summary other))
    (cmp_then (go_compare (mk_detail k) (mk_detail other))
       (go_compare (mk_discriminator k) (mk_discriminator other))))"

interpretation identity_order: comparator compare_identity
  unfolding compare_identity_def by (intro comparator_then comparator_by)

interpretation key_order: comparator compare_merge_key
  unfolding compare_merge_key_def by (intro comparator_then comparator_by)

lemma compare_identity_zero: "compare_identity i j = 0 \<longleftrightarrow> i = j"
  by (auto simp: compare_identity_def)

lemma compare_merge_key_zero: "compare_merge_key k j = 0 \<longleftrightarrow> k = j"
  by (auto simp: compare_merge_key_def)

subsection \<open>The order of content\<close>

definition join_refs :: "finding \<Rightarrow> string" where
  "join_refs f = concat (map (\<lambda>ref. ref @ [NUL]) (f_refs f))"

definition join_advice :: "finding \<Rightarrow> string" where
  "join_advice f =
     concat (map (\<lambda>r. rec_action r @ [NUL] @ recommendation_kind_string (rec_kind r) @ [NUL]
       @ safety_class_string (rec_safety r) @ [NUL] @ rec_rationale r @ [NUL]
       @ (if rec_self_collectable r then ''1'' else ''0'') @ [NUL]) (f_recs f))"

definition compare_by_content :: "finding \<Rightarrow> finding \<Rightarrow> int" where
  "compare_by_content a b =
     cmp_then (go_compare (join_refs a) (join_refs b))
    (cmp_then (go_compare (f_kind a) (f_kind b))
    (cmp_then (go_compare (f_severity a) (f_severity b))
    (cmp_then (go_compare (f_confidence a) (f_confidence b))
    (cmp_then (go_compare (f_discriminator a) (f_discriminator b))
    (cmp_then (if f_vantage a \<noteq> f_vantage b then if f_vantage a then 1 else -1 else 0)
       (go_compare (join_advice a) (join_advice b)))))))"

lemma comparator_bool: "comparator (\<lambda>a b. if p a \<noteq> p b then if p a then 1 else -1 else 0)"
  by unfold_locales (auto split: if_splits)

interpretation content_order: comparator compare_by_content
  unfolding compare_by_content_def by (intro comparator_then comparator_by comparator_bool)

subsection \<open>Merging one group\<close>

text \<open>The loop that looks for the group's discriminator.\<close>

fun common_discriminator :: "string \<Rightarrow> attributed_finding list \<Rightarrow> diag_error + string" where
  "common_discriminator d [] = Inr d"
| "common_discriminator d (af # afs) =
     (let got = f_discriminator (af_finding af) in
      if got \<noteq> [] then
        if d \<noteq> [] \<and> d \<noteq> got then Inl ErrCannotConverge else common_discriminator got afs
      else common_discriminator d afs)"

record merge_state =
  ms_input :: finding_input
  ms_refs :: "evidence_id list"
  ms_recs :: "recommendation list"

text \<open>One turn of the merging loop. A recommendation already taken is skipped; the set \<open>seen\<close> of
  the code holds what the list holds.\<close>

definition merge_step :: "attributed_finding \<Rightarrow> merge_state \<Rightarrow> merge_state" where
  "merge_step af st =
     (let f = af_finding af; i = ms_input st in
      \<lparr>ms_input = i\<lparr>f_severity := max (f_severity i) (f_severity f),
         f_confidence := max (f_confidence i) (f_confidence f),
         f_vantage := (f_vantage i \<or> f_vantage f),
         f_kind := (if f_kind f = FindingKindConfirmed then FindingKindConfirmed else f_kind i)\<rparr>,
       ms_refs = ms_refs st @ f_refs f,
       ms_recs = fold (\<lambda>r rs. if r \<in> set rs then rs else rs @ [r]) (f_recs f) (ms_recs st)\<rparr>)"

definition merge_group :: "attributed_finding list \<Rightarrow> diag_error + finding" where
  "merge_group grp =
     (if length grp = 1 then Inr (af_finding (hd grp))
      else let rep = af_finding (hd grp) in
        if list_ex (\<lambda>af. f_layer (af_finding af) \<noteq> f_layer rep
             \<or> f_summary (af_finding af) \<noteq> f_summary rep
             \<or> f_detail (af_finding af) \<noteq> f_detail rep) grp
        then Inl ErrCannotConverge
        else rbind (common_discriminator [] grp) (\<lambda>d.
          let start = rep\<lparr>f_discriminator := d, f_refs := [], f_recs := []\<rparr>;
              rest = go_sort (\<lambda>a b. compare_by_content (af_finding a) (af_finding b)) grp;
              st = fold merge_step rest \<lparr>ms_input = start, ms_refs = [], ms_recs = []\<rparr>;
              i = ms_input st;
              i' = (if f_kind i = FindingKindConfirmed then i\<lparr>f_discriminator := []\<rparr> else i)
          in case new_finding (i'\<lparr>f_refs := ms_refs st, f_recs := ms_recs st\<rparr>) of
               Inl _ \<Rightarrow> Inl ErrCannotConverge
             | Inr f \<Rightarrow> Inr f))"

subsection \<open>The partition of one identity\<close>

text \<open>The turn of the absorbing loop for one key. A deleted bucket leaves the map.\<close>

definition absorb_key :: "merge_key list \<Rightarrow> merge_key \<Rightarrow> (merge_key \<times> attributed_finding list) list \<Rightarrow>
    (merge_key \<times> attributed_finding list) list" where
  "absorb_key keys key buckets =
     (if mk_discriminator key \<noteq> [] then buckets
      else case filter (\<lambda>other. mk_discriminator other \<noteq> [] \<and> same_claim_as other key) keys of
        [host] \<Rightarrow> AList.delete key (AList.update host (bucket buckets host @ bucket buckets key) buckets)
      | _ \<Rightarrow> buckets)"

definition partition_by_compatibility :: "attributed_finding list \<Rightarrow> attributed_finding list list" where
  "partition_by_compatibility grp =
     (if length grp \<le> 1 then [grp]
      else case group_by (mergeable \<circ> af_finding) grp of (keys, buckets) \<Rightarrow>
        let merged = fold (absorb_key keys) keys buckets;
            remaining = go_sort compare_merge_key (filter (\<lambda>key. map_of merged key \<noteq> None) keys)
        in map (bucket merged) remaining)"

subsection \<open>\<open>Converge\<close>\<close>

definition check_attributed :: "attributed_finding \<Rightarrow> diag_error + attributed_finding" where
  "check_attributed af =
     (if finding_is_zero (af_finding af) then Inl ErrCannotConverge
      else if \<not> rule_id_valid (af_rule af) then Inl ErrCannotConverge
      else Inr af)"

definition converge :: "attributed_finding list \<Rightarrow> diag_error + finding list" where
  "converge afs =
     (if afs = [] then Inr []
      else rbind (traverse check_attributed afs) (\<lambda>checked.
        case group_by (identity_of \<circ> af_finding) checked of (order, groups) \<Rightarrow>
          rbind (traverse merge_group
              (concat (map (\<lambda>i. partition_by_compatibility (bucket groups i))
                (go_sort compare_identity order))))
            (\<lambda>out. Inr (sort_findings out))))"

subsection \<open>What merging a group gives\<close>

text \<open>A finding as the constructors make it, recommendations included.\<close>

definition finding_made :: "finding \<Rightarrow> bool" where
  "finding_made f \<longleftrightarrow> finding_wf f \<and> (\<forall>r\<in>set (f_recs f). rec_wf r)"

text \<open>Findings that may be merged: one identity, one claim, no two discriminators.\<close>

definition compatible :: "finding list \<Rightarrow> bool" where
  "compatible fs \<longleftrightarrow> fs \<noteq> [] \<and>
     (\<forall>f\<in>set fs. \<forall>g\<in>set fs. identity_of f = identity_of g \<and> same_claim_as (mergeable f) (mergeable g)
        \<and> (f_discriminator f \<noteq> [] \<and> f_discriminator g \<noteq> [] \<longrightarrow> f_discriminator f = f_discriminator g))"

definition group_discriminator :: "finding list \<Rightarrow> string" where
  "group_discriminator fs =
     (case filter (\<lambda>d. d \<noteq> []) (map f_discriminator fs) of [] \<Rightarrow> [] | d # _ \<Rightarrow> d)"

definition any_confirmed :: "finding list \<Rightarrow> bool" where
  "any_confirmed fs \<longleftrightarrow> (\<exists>f\<in>set fs. f_kind f = FindingKindConfirmed)"

definition merged :: "finding list \<Rightarrow> finding" where
  "merged fs = (hd fs)\<lparr>
     f_kind := (if any_confirmed fs then FindingKindConfirmed else f_kind (hd fs)),
     f_severity := Max (f_severity ` set fs),
     f_confidence := Max (f_confidence ` set fs),
     f_refs := sort (dedup (concat (map f_refs fs))),
     f_recs := dedup (concat (map f_recs (go_sort compare_by_content fs))),
     f_vantage := (\<exists>f\<in>set fs. f_vantage f),
     f_discriminator := (if any_confirmed fs then [] else group_discriminator fs)\<rparr>"

definition merge_of :: "finding list \<Rightarrow> finding" where
  "merge_of fs = (if length fs = 1 then hd fs else merged fs)"

lemma fold_take_new:
  "fold (\<lambda>r rs. if r \<in> set rs then rs else rs @ [r]) xs acc = acc @ dedup_from (set acc) xs"
  by (induction xs arbitrary: acc) auto

lemma merge_steps:
  "fold merge_step afs st =
     (let fs = map af_finding afs; i = ms_input st in
      \<lparr>ms_input = i\<lparr>f_severity := fold max (map f_severity fs) (f_severity i),
         f_confidence := fold max (map f_confidence fs) (f_confidence i),
         f_vantage := (f_vantage i \<or> (\<exists>f\<in>set fs. f_vantage f)),
         f_kind := (if any_confirmed fs then FindingKindConfirmed else f_kind i)\<rparr>,
       ms_refs = ms_refs st @ concat (map f_refs fs),
       ms_recs = ms_recs st @ dedup_from (set (ms_recs st)) (concat (map f_recs fs))\<rparr>)"
proof (induction afs arbitrary: st)
  case Nil
  then show ?case by (simp add: any_confirmed_def)
next
  case (Cons af afs)
  have dd: "dedup_from seen (xs @ ys) = dedup_from seen xs @ dedup_from (seen \<union> set xs) ys"
    for seen and xs ys :: "recommendation list"
    by (induction xs arbitrary: seen) (auto simp: insert_absorb Un_commute)
  have du: "seen \<union> set (dedup_from seen xs) = seen \<union> set xs" for seen and xs :: "recommendation list"
    by (auto simp: set_dedup_from)
  show ?case
    by (simp only: fold_simps comp_apply Cons.IH)
      (simp add: Let_def merge_step_def fold_take_new dd du any_confirmed_def max.commute)
qed

lemma common_discriminator_eq:
  assumes "\<forall>f\<in>set fs. f_discriminator f \<noteq> [] \<longrightarrow> d = [] \<or> f_discriminator f = d"
    and "\<forall>f\<in>set fs. \<forall>g\<in>set fs. f_discriminator f \<noteq> [] \<and> f_discriminator g \<noteq> []
      \<longrightarrow> f_discriminator f = f_discriminator g"
    and "fs = map af_finding afs"
  shows "common_discriminator d afs = Inr (if d \<noteq> [] then d else group_discriminator fs)"
  using assms
proof (induction afs arbitrary: d fs)
  case Nil
  then show ?case by (simp add: group_discriminator_def)
next
  case (Cons af afs)
  let ?f = "af_finding af"
  show ?case
  proof (cases "f_discriminator ?f = []")
    case True
    then show ?thesis
      using Cons by (simp add: group_discriminator_def)
  next
    case False
    then have "d = [] \<or> d = f_discriminator ?f"
      using Cons.prems(1,3) by auto
    moreover have "common_discriminator (f_discriminator ?f) afs = Inr (f_discriminator ?f)"
      using Cons.IH [of "map af_finding afs" "f_discriminator ?f"] Cons.prems(2,3) False by simp
    ultimately show ?thesis
      using False Cons.prems(3) by (auto simp: group_discriminator_def Let_def)
  qed
qed

lemma group_discriminator_in:
  "group_discriminator fs = [] \<or> group_discriminator fs \<in> f_discriminator ` set fs"
proof (cases "filter (\<lambda>d. d \<noteq> []) (map f_discriminator fs)")
  case (Cons d ds)
  then have "d \<in> set (filter (\<lambda>d. d \<noteq> []) (map f_discriminator fs))"
    by (simp only: list.set_intros)
  then have "d \<in> f_discriminator ` set fs"
    by simp
  then show ?thesis
    by (simp add: group_discriminator_def Cons)
qed (simp add: group_discriminator_def)

lemma Max_fold:
  "x \<in> set ys \<Longrightarrow> fold max ys x = Max (set ys)" for x :: "'a::linorder"
  using Max.set_eq_fold [of x ys] by (simp add: insert_absorb)

lemma merged_fields_ok:
  assumes "fs \<noteq> []" "\<forall>f\<in>set fs. finding_made f"
  shows "finding_fields_ok (merged fs)"
proof -
  have ok: "finding_fields_ok f" if "f \<in> set fs" for f
    using assms(2) that by (simp add: finding_made_def finding_wf_def)
  have hd: "finding_fields_ok (hd fs)"
    using ok assms(1) by simp
  have "Max (f_severity ` set fs) \<in> f_severity ` set fs" "Max (f_confidence ` set fs) \<in> f_confidence ` set fs"
    using assms(1) by (intro Max_in; simp)+
  then have "severity_valid (Max (f_severity ` set fs))" "confidence_valid (Max (f_confidence ` set fs))"
    using ok by (auto simp: finding_fields_ok_def)
  moreover have "group_discriminator fs \<noteq> [] \<Longrightarrow> is_ok (validate_identifier (group_discriminator fs))"
    using group_discriminator_in [of fs] ok by (auto simp: finding_fields_ok_def)
  moreover have "concat (map f_refs fs) \<noteq> []"
    using assms(1) hd by (cases fs) (simp_all add: finding_fields_ok_def)
  moreover have "\<forall>x\<in>set (concat (map f_refs fs)). is_ok (validate_identifier x)"
    "\<forall>r\<in>set (concat (map f_recs fs)). \<not> rec_is_zero r"
    using ok by (auto simp: finding_fields_ok_def)
  moreover have "f_kind (hd fs) = FindingKindConfirmed \<Longrightarrow> any_confirmed fs"
    using assms(1) by (auto simp: any_confirmed_def)
  moreover have "finding_kind_valid FindingKindConfirmed"
    by (simp add: finding_kind_valid_def)
  ultimately show ?thesis
    using hd unfolding finding_fields_ok_def merged_def by auto
qed

lemma merge_group_eq:
  assumes fs: "fs = map af_finding grp" and c: "compatible fs" and made: "\<forall>f\<in>set fs. finding_made f"
  shows "merge_group grp = Inr (merge_of fs)"
proof (cases "length grp = 1")
  case True
  then show ?thesis
    by (cases grp) (simp_all add: merge_group_def merge_of_def fs)
next
  case False
  let ?rep = "af_finding (hd grp)"
  let ?rest = "go_sort (\<lambda>a b. compare_by_content (af_finding a) (af_finding b)) grp"
  have ne: "grp \<noteq> []" "fs \<noteq> []"
    using c by (auto simp: compatible_def fs)
  then have rep: "?rep = hd fs" "?rep \<in> set fs"
    by (simp_all add: fs hd_map)
  have claim: "\<not> list_ex (\<lambda>af. f_layer (af_finding af) \<noteq> f_layer ?rep
      \<or> f_summary (af_finding af) \<noteq> f_summary ?rep \<or> f_detail (af_finding af) \<noteq> f_detail ?rep) grp"
  proof -
    have "same_claim_as (mergeable (af_finding af)) (mergeable ?rep)" if "af \<in> set grp" for af
      using c rep(2) that unfolding compatible_def by (simp add: fs)
    then show ?thesis
      by (auto simp: list_ex_iff same_claim_as_def mergeable_def)
  qed
  have d: "common_discriminator [] grp = Inr (group_discriminator fs)"
  proof -
    have "common_discriminator [] grp
        = Inr (if [] \<noteq> ([] :: string) then [] else group_discriminator fs)"
    proof (rule common_discriminator_eq [OF _ _ fs])
      show "\<forall>f\<in>set fs. \<forall>g\<in>set fs. f_discriminator f \<noteq> [] \<and> f_discriminator g \<noteq> []
        \<longrightarrow> f_discriminator f = f_discriminator g"
        using c unfolding compatible_def by blast
    qed simp
    then show ?thesis by simp
  qed
  have rest: "map af_finding ?rest = go_sort compare_by_content fs"
    by (simp add: map_go_sort fs)
  have srt: "set (go_sort compare_by_content fs) = set fs" by simp
  have sev: "fold max (map f_severity (go_sort compare_by_content fs)) (f_severity ?rep) = Max (f_severity ` set fs)"
    "fold max (map f_confidence (go_sort compare_by_content fs)) (f_confidence ?rep) = Max (f_confidence ` set fs)"
    using Max_fold [of "f_severity ?rep" "map f_severity (go_sort compare_by_content fs)"]
      Max_fold [of "f_confidence ?rep" "map f_confidence (go_sort compare_by_content fs)"] rep(2) by simp_all
  have conf: "any_confirmed (go_sort compare_by_content fs) = any_confirmed fs"
    by (simp add: any_confirmed_def)
  have vant: "(f_vantage ?rep \<or> (\<exists>f\<in>set fs. f_vantage f)) = (\<exists>f\<in>set fs. f_vantage f)"
    using rep(2) by blast
  let ?i = "(?rep\<lparr>f_discriminator := group_discriminator fs, f_refs := [], f_recs := []\<rparr>)
    \<lparr>f_severity := Max (f_severity ` set fs), f_confidence := Max (f_confidence ` set fs),
     f_vantage := (\<exists>f\<in>set fs. f_vantage f),
     f_kind := (if any_confirmed fs then FindingKindConfirmed else f_kind ?rep)\<rparr>"
  have steps: "fold merge_step ?rest \<lparr>ms_input = ?rep\<lparr>f_discriminator := group_discriminator fs,
        f_refs := [], f_recs := []\<rparr>, ms_refs = [], ms_recs = []\<rparr>
      = \<lparr>ms_input = ?i, ms_refs = concat (map f_refs (go_sort compare_by_content fs)),
         ms_recs = dedup (concat (map f_recs (go_sort compare_by_content fs)))\<rparr>"
    by (simp add: merge_steps rest Let_def sev conf vant)
  let ?refs = "concat (map f_refs (go_sort compare_by_content fs))"
  have kind: "f_kind ?i = FindingKindConfirmed \<longleftrightarrow> any_confirmed fs"
    using rep(2) by (auto simp: any_confirmed_def)
  let ?in = "(if f_kind ?i = FindingKindConfirmed then ?i\<lparr>f_discriminator := []\<rparr> else ?i)
    \<lparr>f_refs := ?refs, f_recs := dedup (concat (map f_recs (go_sort compare_by_content fs)))\<rparr>"
  have refs: "sort (dedup ?refs) = sort (dedup (concat (map f_refs fs)))"
    by (rule sort_dedup_unique) simp
  have input: "?in\<lparr>f_refs := sort (dedup ?refs)\<rparr> = merged fs"
    unfolding kind refs merged_def rep(1) [symmetric] by (cases ?rep) simp
  have fields: "finding_fields_ok ?in \<longleftrightarrow> finding_fields_ok (merged fs)"
    unfolding input [symmetric] by (simp add: finding_fields_ok_def)
  have new: "new_finding ?in = Inr (merged fs)"
  proof -
    have ok: "finding_fields_ok ?in"
      using merged_fields_ok [OF ne(2) made] fields by blast
    have "f_refs ?in = ?refs" by simp
    then show ?thesis
      unfolding new_finding_eq if_P [OF ok] by (simp only: input)
  qed
  have "merge_group grp = (case new_finding ?in of Inl _ \<Rightarrow> Inl ErrCannotConverge | Inr f \<Rightarrow> Inr f)"
    using False claim by (simp only: merge_group_def if_False Let_def d rbind_simps steps merge_state.simps)
  then have "merge_group grp = Inr (merged fs)"
    unfolding new by simp
  then show ?thesis
    using False by (simp add: merge_of_def fs)
qed

subsection \<open>Merging does not depend on the order of the group\<close>

definition advice_fields :: "recommendation \<Rightarrow> string list" where
  "advice_fields r = [rec_action r, recommendation_kind_string (rec_kind r),
     safety_class_string (rec_safety r), rec_rationale r,
     (if rec_self_collectable r then ''1'' else ''0'')]"

lemma join_refs_terminated: "join_refs f = terminated NUL (f_refs f)"
  by (simp add: join_refs_def terminated_def)

lemma join_advice_terminated:
  "join_advice f = terminated NUL (concat (map advice_fields (f_recs f)))"
proof -
  have "concat (map (\<lambda>r. rec_action r @ [NUL] @ recommendation_kind_string (rec_kind r) @ [NUL]
       @ safety_class_string (rec_safety r) @ [NUL] @ rec_rationale r @ [NUL]
       @ (if rec_self_collectable r then ''1'' else ''0'') @ [NUL]) rs)
    = terminated NUL (concat (map advice_fields rs))" for rs
    by (induction rs) (simp_all add: terminated_def advice_fields_def)
  then show ?thesis by (simp add: join_advice_def)
qed

lemma rec_wf_cases:
  assumes "rec_wf r"
  shows "rec_kind r \<in> {RecommendationKindUnspecified, RecommendationKindNextEvidence, RecommendationKindRemediation}"
    and "rec_safety r \<in> {SafetyUnspecified, SafetyObserve, SafetyVerify, SafetyCompare, SafetyConfigChange}"
    and "NUL \<notin> set (rec_action r)" and "NUL \<notin> set (rec_rationale r)"
proof -
  show "rec_kind r \<in> {RecommendationKindUnspecified, RecommendationKindNextEvidence, RecommendationKindRemediation}"
    using assms by (cases "rec_kind r") (auto simp: rec_wf_def recommendation_kind_valid_def)
  show "rec_safety r \<in> {SafetyUnspecified, SafetyObserve, SafetyVerify, SafetyCompare, SafetyConfigChange}"
    using assms by (cases "rec_safety r") (auto simp: rec_wf_def)
  show "NUL \<notin> set (rec_action r)" "NUL \<notin> set (rec_rationale r)"
    using assms identifier_no_NUL by (auto simp: rec_wf_def)
qed

lemma advice_fields_inj:
  assumes "rec_wf r" "rec_wf q" "advice_fields r = advice_fields q"
  shows "r = q"
proof -
  have "rec_kind r = rec_kind q" "rec_safety r = rec_safety q"
    using rec_wf_cases(1,2) [OF assms(1)] rec_wf_cases(1,2) [OF assms(2)] assms(3)
    by (auto simp: advice_fields_def)
  then show ?thesis
    using assms(3) by (cases r; cases q) (simp add: advice_fields_def split: if_splits)
qed

lemma advice_fields_no_NUL:
  assumes "rec_wf r" "x \<in> set (advice_fields r)"
  shows "NUL \<notin> set x"
proof -
  have "NUL \<notin> set (recommendation_kind_string (rec_kind r))"
    using rec_wf_cases(1) [OF assms(1)] by (auto simp: NUL_def)
  moreover have "NUL \<notin> set (safety_class_string (rec_safety r))"
    using rec_wf_cases(2) [OF assms(1)] by (auto simp: NUL_def)
  ultimately show ?thesis
    using assms(2) rec_wf_cases(3,4) [OF assms(1)]
    unfolding advice_fields_def by (auto simp: NUL_def split: if_splits)
qed

lemma join_advice_tie:
  assumes "\<forall>r\<in>set (f_recs f). rec_wf r" "\<forall>r\<in>set (f_recs g). rec_wf r"
    and "join_advice f = join_advice g"
  shows "f_recs f = f_recs g"
proof -
  have len: "length (concat (map advice_fields rs)) = 5 * length rs" for rs
    by (induction rs) (simp_all add: advice_fields_def)
  have cat: "concat (map advice_fields (f_recs f)) = concat (map advice_fields (f_recs g))"
    by (rule terminated_inj [OF _ _ assms(3) [unfolded join_advice_terminated]])
      (use assms(1,2) advice_fields_no_NUL in \<open>auto\<close>)
  then have "length (f_recs f) = length (f_recs g)"
    using len by (metis mult_cancel1 zero_neq_numeral)
  then have "map advice_fields (f_recs f) = map advice_fields (f_recs g)"
    by (intro concat_injective [OF cat])
      (auto simp: set_zip advice_fields_def)
  then show ?thesis
    by (rule list.inj_map_strong [rotated]) (use assms(1,2) advice_fields_inj in blast)
qed

lemma content_tie:
  assumes "finding_made f" "finding_made g" "identity_of f = identity_of g"
    and "same_claim_as (mergeable f) (mergeable g)" "compare_by_content f g = 0"
  shows "f = g"
proof -
  have "join_refs f = join_refs g" "join_advice f = join_advice g"
    using assms(5) by (simp_all add: compare_by_content_def)
  moreover have "\<forall>x\<in>set (f_refs f). NUL \<notin> set x" "\<forall>x\<in>set (f_refs g). NUL \<notin> set x"
    using assms(1,2) finding_wf_refs by (auto simp: finding_made_def)
  ultimately have "f_refs f = f_refs g" "f_recs f = f_recs g"
    using terminated_inj [of "f_refs f" NUL "f_refs g"] join_advice_tie [of f g] assms(1,2)
    by (simp_all add: finding_made_def join_refs_terminated)
  then show ?thesis
    using assms(3-5) unfolding compare_by_content_def
    by (cases f; cases g)
      (simp add: identity_of_def mergeable_def same_claim_as_def split: if_splits)
qed

lemma compatibleD:
  assumes "compatible fs" "f \<in> set fs" "g \<in> set fs"
  shows "identity_of f = identity_of g" "same_claim_as (mergeable f) (mergeable g)"
    "f_discriminator f \<noteq> [] \<Longrightarrow> f_discriminator g \<noteq> [] \<Longrightarrow> f_discriminator f = f_discriminator g"
  using assms unfolding compatible_def by blast+

lemma group_discriminator_unique:
  assumes "compatible fs" "f \<in> set fs" "f_discriminator f \<noteq> []"
  shows "group_discriminator fs = f_discriminator f"
proof -
  have "filter (\<lambda>d. d \<noteq> []) (map f_discriminator fs) \<noteq> []"
    using assms(2,3) by (auto simp: filter_empty_conv)
  then obtain d ds where ds: "filter (\<lambda>d. d \<noteq> []) (map f_discriminator fs) = d # ds"
    by (meson neq_Nil_conv)
  then have "d \<in> set (filter (\<lambda>d. d \<noteq> []) (map f_discriminator fs))"
    by (simp only: list.set_intros)
  then obtain g where "g \<in> set fs" "d = f_discriminator g" "d \<noteq> []"
    by auto
  then show ?thesis
    using compatibleD(3) [OF assms(1) assms(2) _ assms(3), of g] by (simp add: group_discriminator_def ds)
qed

lemma merge_of_perm:
  assumes c: "compatible fs" and made: "\<forall>f\<in>set fs. finding_made f" and m: "mset fs = mset gs"
  shows "merge_of fs = merge_of gs"
proof (cases "length fs = 1")
  case True
  then obtain f where "fs = [f]"
    by (cases fs) auto
  then show ?thesis using m by (cases gs) simp_all
next
  case False
  have s: "set fs = set gs" and l: "length fs = length gs"
    using mset_eq_setD [OF m] mset_eq_length [OF m] by blast+
  have "fs \<noteq> []"
    using c unfolding compatible_def by blast
  then have "gs \<noteq> []"
    using l by auto
  then have c': "compatible gs"
    using c unfolding compatible_def s by blast
  let ?f = "hd fs" and ?g = "hd gs"
  have hd: "?f \<in> set fs" "?g \<in> set fs"
    using hd_in_set [OF \<open>fs \<noteq> []\<close>] hd_in_set [OF \<open>gs \<noteq> []\<close>] by (simp_all only: s)
  have same: "identity_of ?f = identity_of ?g" "same_claim_as (mergeable ?f) (mergeable ?g)"
    by (rule compatibleD [OF c hd])+
  have tie: "x = y" if "x \<in> set fs" "y \<in> set fs" "compare_by_content x y = 0" for x y
    using content_tie [OF _ _ compatibleD(1,2) [OF c that(1,2)] that(3)] made that(1,2) by blast
  have rest: "go_sort compare_by_content fs = go_sort compare_by_content gs"
    by (rule content_order.go_sort_perm [OF m tie])
  have conf: "any_confirmed fs = any_confirmed gs"
    by (simp add: any_confirmed_def s)
  have kind: "(if any_confirmed gs then FindingKindConfirmed else f_kind ?f)
      = (if any_confirmed gs then FindingKindConfirmed else f_kind ?g)"
  proof -
    have "f_kind x = FindingKindHypothesis" if "x \<in> set fs" "\<not> any_confirmed gs" for x
    proof -
      have "finding_kind_valid (f_kind x)"
        using made that(1) by (simp add: finding_made_def finding_wf_def finding_fields_ok_def)
      moreover have "f_kind x \<noteq> FindingKindConfirmed"
        using that conf by (auto simp: any_confirmed_def)
      ultimately show ?thesis
        by (cases "f_kind x") (simp_all add: finding_kind_valid_def)
    qed
    then show ?thesis using hd by simp
  qed
  have disc: "group_discriminator fs = group_discriminator gs"
  proof (cases "\<exists>x\<in>set fs. f_discriminator x \<noteq> []")
    case True
    then obtain x where x: "x \<in> set fs" "f_discriminator x \<noteq> []" by blast
    then show ?thesis
      using group_discriminator_unique [OF c x] group_discriminator_unique [OF c' _ x(2)] s by simp
  next
    case False
    then show ?thesis
      using group_discriminator_in [of fs] group_discriminator_in [of gs] s by auto
  qed
  have refs: "sort (dedup (concat (map f_refs fs))) = sort (dedup (concat (map f_refs gs)))"
    by (rule sort_dedup_unique) (simp add: s)
  have "merged fs = merged gs"
    using same unfolding merged_def rest refs conf disc s kind
    by (cases ?f; cases ?g) (simp add: identity_of_def same_claim_as_def mergeable_def)
  then show ?thesis
    using False l by (simp add: merge_of_def)
qed

end
