(* ===== verification/ConvergePlan.thy ===== *)
theory ConvergePlan
  imports Converge
begin

text \<open>
  Convergence as a whole (\<open>Converge\<close> of \<open>internal/diagnosis/converge.go\<close>): which finding ends in
  which group, that the groups and so the result depend on the findings alone, and what the
  result holds. The operations are defined in \<open>Converge\<close>.
\<close>

subsection \<open>What the partition does\<close>

definition hosts :: "merge_key set \<Rightarrow> merge_key \<Rightarrow> merge_key set" where
  "hosts K k = {other \<in> K. mk_discriminator other \<noteq> [] \<and> same_claim_as other k}"

definition absorbed :: "merge_key set \<Rightarrow> merge_key \<Rightarrow> bool" where
  "absorbed K k \<longleftrightarrow> mk_discriminator k = [] \<and> (\<exists>h. hosts K k = {h})"

text \<open>The key of the bucket a finding with key \<open>k\<close> ends in.\<close>

definition final_key :: "merge_key set \<Rightarrow> merge_key \<Rightarrow> merge_key" where
  "final_key K k = (if absorbed K k then the_elem (hosts K k) else k)"

lemma final_key_absorbed:
  assumes "absorbed K k"
  shows "final_key K k \<in> K" "mk_discriminator (final_key K k) \<noteq> []" "same_claim_as (final_key K k) k"
    "hosts K k = {final_key K k}" "\<not> absorbed K (final_key K k)"
proof -
  obtain h where h: "hosts K k = {h}"
    using assms by (auto simp: absorbed_def)
  then have "final_key K k = h"
    using assms by (simp add: final_key_def)
  moreover have "h \<in> hosts K k"
    using h by simp
  ultimately show "final_key K k \<in> K" "mk_discriminator (final_key K k) \<noteq> []"
    "same_claim_as (final_key K k) k" "hosts K k = {final_key K k}" "\<not> absorbed K (final_key K k)"
    using h by (simp_all add: hosts_def absorbed_def)
qed

lemma final_key_not_absorbed: "\<not> absorbed K (final_key K k)"
  by (cases "absorbed K k") (simp_all add: final_key_absorbed(5), simp add: final_key_def)

lemma final_key_fixed: "\<not> absorbed K k \<Longrightarrow> final_key K k = k"
  by (simp add: final_key_def)

lemma absorb_key_eq:
  assumes "distinct keys"
  shows "absorb_key keys key m =
    (if absorbed (set keys) key
     then AList.delete key (AList.update (final_key (set keys) key)
       (bucket m (final_key (set keys) key) @ bucket m key) m)
     else m)"
proof -
  let ?l = "filter (\<lambda>other. mk_discriminator other \<noteq> [] \<and> same_claim_as other key) keys"
  have l: "distinct ?l" "set ?l = hosts (set keys) key"
    using assms by (auto simp: hosts_def)
  have one: "(\<exists>h. hosts (set keys) key = {h}) \<longleftrightarrow> (\<exists>h. ?l = [h])"
  proof
    assume "\<exists>h. hosts (set keys) key = {h}"
    then obtain h where h: "set ?l = {h}"
      using l(2) by auto
    then have "length ?l = 1"
      using distinct_card [OF l(1)] by simp
    then show "\<exists>h. ?l = [h]"
      unfolding One_nat_def length_Suc_conv length_0_conv by blast
  next
    assume "\<exists>h. ?l = [h]"
    then obtain h where "?l = [h]" by blast
    then have "set ?l = {h}" by simp
    then show "\<exists>h. hosts (set keys) key = {h}"
      unfolding l(2) by blast
  qed
  show ?thesis
  proof (cases "absorbed (set keys) key")
    case True
    then obtain h where h: "?l = [h]"
      using one by (auto simp: absorbed_def)
    then have "hosts (set keys) key = {h}"
      using l(2) by (metis empty_set list.simps(15))
    then have "final_key (set keys) key = h"
      using True by (simp add: final_key_def)
    then show ?thesis
      using True h by (simp add: absorb_key_def absorbed_def)
  next
    case False
    then have "mk_discriminator key \<noteq> [] \<or> (\<nexists>h. ?l = [h])"
      using one by (auto simp: absorbed_def)
    then show ?thesis
      using False by (auto simp: absorb_key_def split: list.split)
  qed
qed

lemma bucket_delete: "bucket (AList.delete k m) j = (if j = k then [] else bucket m j)"
  unfolding bucket_def AList.delete_conv by simp

lemma map_of_delete_None: "map_of (AList.delete k m) j = None \<longleftrightarrow> j = k \<or> map_of m j = None"
  unfolding AList.delete_conv by simp

definition key_after :: "merge_key set \<Rightarrow> merge_key list \<Rightarrow> merge_key \<Rightarrow> merge_key" where
  "key_after K done k = (if k \<in> set done then final_key K k else k)"

lemma absorb_fold:
  assumes "distinct keys" "distinct done" "set done \<subseteq> set keys"
    and "\<And>k. map_of m k = None \<longleftrightarrow> k \<notin> set keys"
    and "\<And>k. mset (bucket m k) = filter_mset (\<lambda>x. key x = k) M"
  shows "(\<forall>k. map_of (fold (absorb_key keys) done m) k = None \<longleftrightarrow>
        k \<notin> set keys \<or> k \<in> set done \<and> absorbed (set keys) k)
    \<and> (\<forall>k. mset (bucket (fold (absorb_key keys) done m) k) =
        filter_mset (\<lambda>x. key_after (set keys) done (key x) = k) M)"
  using assms(2,3)
proof (induction "done" rule: rev_induct)
  case Nil
  then show ?case using assms(4,5) by (simp add: key_after_def)
next
  case (snoc j ks)
  let ?K = "set keys"
  let ?m = "fold (absorb_key keys) ks m"
  have IH: "map_of ?m k = None \<longleftrightarrow> k \<notin> ?K \<or> k \<in> set ks \<and> absorbed ?K k"
    "mset (bucket ?m k) = filter_mset (\<lambda>x. key_after ?K ks (key x) = k) M" for k
    using snoc by auto
  have j: "j \<notin> set ks" "j \<in> ?K"
    using snoc.prems by auto
  show ?case
  proof (cases "absorbed ?K j")
    case False
    then have "key_after ?K (ks @ [j]) k = key_after ?K ks k" for k
      using j(1) by (auto simp: key_after_def final_key_def)
    moreover have "fold (absorb_key keys) (ks @ [j]) m = ?m"
      using False by (simp add: absorb_key_eq [OF assms(1), of j])
    ultimately show ?thesis
      using IH False by auto
  next
    case True
    let ?h = "final_key ?K j"
    note h = final_key_absorbed [OF True]
    have jh: "j \<noteq> ?h"
      using h(5) True by metis
    have m': "fold (absorb_key keys) (ks @ [j]) m
        = AList.delete j (AList.update ?h (bucket ?m ?h @ bucket ?m j) ?m)"
      using True by (simp add: absorb_key_eq [OF assms(1), of j])
    have after: "key_after ?K (ks @ [j]) k = (if k = j then ?h else key_after ?K ks k)" for k
      by (simp add: key_after_def)
    have jout: "key_after ?K ks k = j \<longleftrightarrow> k = j" for k
    proof
      assume a: "key_after ?K ks k = j"
      show "k = j"
      proof (rule ccontr)
        assume "k \<noteq> j"
        then have "final_key ?K k = j"
          using a by (auto simp: key_after_def split: if_splits)
        then show False
          using final_key_not_absorbed [of ?K k] True by simp
      qed
    qed (simp add: key_after_def j(1))
    have none: "map_of (fold (absorb_key keys) (ks @ [j]) m) k = None \<longleftrightarrow>
        k \<notin> ?K \<or> k \<in> set (ks @ [j]) \<and> absorbed ?K k" for k
      using IH(1) [of k] True j(2) h(1,5) unfolding m' map_of_delete_None map_of_update_None by auto
    have buck: "mset (bucket (fold (absorb_key keys) (ks @ [j]) m) k) =
        filter_mset (\<lambda>x. key_after ?K (ks @ [j]) (key x) = k) M" for k
    proof (cases "k = ?h")
      case True
      have "filter_mset (\<lambda>x. key_after ?K (ks @ [j]) (key x) = ?h) M
          = filter_mset (\<lambda>x. key_after ?K ks (key x) = ?h) M + filter_mset (\<lambda>x. key x = j) M"
      proof -
        have "filter_mset (\<lambda>x. P x \<or> Q x) M = filter_mset P M + filter_mset Q M"
          if "\<And>x. \<not> (P x \<and> Q x)" for P Q
          using that by (intro multiset_eqI) auto
        moreover have "\<not> (key_after ?K ks (key x) = ?h \<and> key x = j)" for x
          using jout jh by metis
        moreover have "key_after ?K (ks @ [j]) (key x) = ?h \<longleftrightarrow> key_after ?K ks (key x) = ?h \<or> key x = j" for x
          unfolding after by auto
        ultimately show ?thesis by simp
      qed
      then show ?thesis
        using True jh IH(2) [of ?h] IH(2) [of j] jout unfolding m' bucket_delete bucket_update by simp
    next
      case False
      have "key_after ?K (ks @ [j]) y = k \<longleftrightarrow> k \<noteq> j \<and> key_after ?K ks y = k" for y
        using False jout [of y] unfolding after by auto
      then show ?thesis
        using False IH(2) [of k] unfolding m' bucket_delete bucket_update by simp
    qed
    show ?thesis using none buck by blast
  qed
qed

lemma partition_spec:
  assumes "grp \<noteq> []" and K: "K = (mergeable \<circ> af_finding) ` set grp"
  shows "\<exists>ks. distinct ks \<and> set ks = final_key K ` K
    \<and> sorted_wrt (\<lambda>k l. compare_merge_key k l \<le> 0) ks
    \<and> map mset (partition_by_compatibility grp) =
        map (\<lambda>k. filter_mset (\<lambda>af. final_key K (mergeable (af_finding af)) = k) (mset grp)) ks"
proof (cases "length grp \<le> 1")
  case True
  then obtain x where x: "grp = [x]"
    using assms(1) by (cases grp) auto
  have "\<not> absorbed K (mergeable (af_finding x))"
  proof
    assume a: "absorbed K (mergeable (af_finding x))"
    have "final_key K (mergeable (af_finding x)) = mergeable (af_finding x)"
      using final_key_absorbed(1) [OF a] by (simp add: K x)
    then have "mk_discriminator (mergeable (af_finding x)) \<noteq> []"
      using final_key_absorbed(2) [OF a] by simp
    then show False
      using conjunct1 [OF a [unfolded absorbed_def]] by simp
  qed
  then have "final_key K (mergeable (af_finding x)) = mergeable (af_finding x)"
    by (rule final_key_fixed)
  then show ?thesis
    by (intro exI [of _ "[mergeable (af_finding x)]"]) (simp add: x K partition_by_compatibility_def)
next
  case False
  let ?key = "mergeable \<circ> af_finding"
  obtain keys buckets where gb: "group_by ?key grp = (keys, buckets)"
    by fastforce
  have keys: "distinct keys" "set keys = K"
    using group_by_keys [of ?key grp] by (simp_all add: gb K)
  let ?m = "fold (absorb_key keys) keys buckets"
  have "(\<forall>k. map_of ?m k = None \<longleftrightarrow> k \<notin> set keys \<or> k \<in> set keys \<and> absorbed (set keys) k)
      \<and> (\<forall>k. mset (bucket ?m k) = filter_mset (\<lambda>x. key_after (set keys) keys (?key x) = k) (mset grp))"
  proof (rule absorb_fold [OF keys(1) keys(1) order_refl])
    show "map_of buckets k = None \<longleftrightarrow> k \<notin> set keys" for k
      using group_by_None [of ?key grp k] by (simp add: gb keys K)
    show "mset (bucket buckets k) = filter_mset (\<lambda>x. ?key x = k) (mset grp)" for k
      using group_by_bucket [of ?key grp k] by (simp add: gb)
  qed
  then have none: "map_of ?m k = None \<longleftrightarrow> k \<notin> K \<or> absorbed K k"
    and bucks: "mset (bucket ?m k) = filter_mset (\<lambda>x. key_after K keys (?key x) = k) (mset grp)" for k
    unfolding keys by blast+
  have "key_after K keys (?key x) = final_key K (mergeable (af_finding x))" if "x \<in># mset grp" for x
    using that by (simp add: key_after_def keys K)
  then have bucks': "mset (bucket ?m k)
      = filter_mset (\<lambda>x. final_key K (mergeable (af_finding x)) = k) (mset grp)" for k
    unfolding bucks by (intro filter_mset_cong) simp_all
  let ?ks = "go_sort compare_merge_key (filter (\<lambda>key. map_of ?m key \<noteq> None) keys)"
  have "set ?ks = {k \<in> K. \<not> absorbed K k}"
    using none by (auto simp: keys)
  also have "\<dots> = final_key K ` K"
  proof (intro equalityI subsetI)
    fix k assume "k \<in> {k \<in> K. \<not> absorbed K k}"
    then show "k \<in> final_key K ` K"
      using final_key_fixed [of K k] by force
  next
    fix k assume "k \<in> final_key K ` K"
    then obtain j where j: "j \<in> K" "k = final_key K j" by blast
    then have "k \<in> K"
      using final_key_absorbed(1) [of K j] final_key_fixed [of K j] by (cases "absorbed K j") auto
    then show "k \<in> {k \<in> K. \<not> absorbed K k}"
      using j(2) final_key_not_absorbed by simp
  qed
  finally have ks: "set ?ks = final_key K ` K" .
  show ?thesis
  proof (intro exI [of _ ?ks] conjI)
    show "distinct ?ks"
      using keys(1) by simp
    show "set ?ks = final_key K ` K"
      by (rule ks)
    show "sorted_wrt (\<lambda>k l. compare_merge_key k l \<le> 0) ?ks"
      by (rule key_order.go_sort_sorted)
    show "map mset (partition_by_compatibility grp) =
        map (\<lambda>k. filter_mset (\<lambda>af. final_key K (mergeable (af_finding af)) = k) (mset grp)) ?ks"
      using False by (simp add: partition_by_compatibility_def gb Let_def bucks')
  qed
qed

subsection \<open>The plan of a convergence\<close>

text \<open>Where a finding ends among the findings \<open>F\<close>: its identity and its final key.\<close>

type_synonym slot = "semantic_identity \<times> merge_key"

definition rivals :: "finding set \<Rightarrow> semantic_identity \<Rightarrow> merge_key set" where
  "rivals F i = mergeable ` {g \<in> F. identity_of g = i}"

definition slot_of :: "finding set \<Rightarrow> finding \<Rightarrow> slot" where
  "slot_of F f = (identity_of f, final_key (rivals F (identity_of f)) (mergeable f))"

definition compare_slot :: "slot \<Rightarrow> slot \<Rightarrow> int" where
  "compare_slot s t = cmp_then (compare_identity (fst s) (fst t)) (compare_merge_key (snd s) (snd t))"

lemma comparator_on: "comparator c \<Longrightarrow> comparator (\<lambda>x y. c (f x) (f y))"
  unfolding comparator_def by blast

interpretation slot_order: comparator compare_slot
  unfolding compare_slot_def
  by (rule comparator_then [OF comparator_on [OF identity_order.comparator_axioms]
        comparator_on [OF key_order.comparator_axioms]])

lemma compare_slot_zero: "compare_slot s t = 0 \<longleftrightarrow> s = t"
  by (cases s; cases t) (simp add: compare_slot_def compare_identity_zero compare_merge_key_zero)

lemma slots_sorted:
  assumes "sorted_wrt (\<lambda>i j. compare_identity i j \<le> 0) so" "distinct so"
    and "\<And>i. i \<in> set so \<Longrightarrow> sorted_wrt (\<lambda>k l. compare_merge_key k l \<le> 0) (ksf i) \<and> distinct (ksf i)"
  shows "sorted_wrt (\<lambda>s t. compare_slot s t \<le> 0) (concat (map (\<lambda>i. map (Pair i) (ksf i)) so))
    \<and> distinct (concat (map (\<lambda>i. map (Pair i) (ksf i)) so))"
  using assms
proof (induction so)
  case (Cons i so)
  have within: "sorted_wrt (\<lambda>s t. compare_slot s t \<le> 0) (map (Pair i) (ksf i))" "distinct (map (Pair i) (ksf i))"
    using Cons.prems(3) [of i]
    by (simp_all add: sorted_wrt_map compare_slot_def cmp_then_def identity_order.cmp_refl
        distinct_map inj_on_def)
  have across: "compare_slot (i, k) (j, l) \<le> 0" if "j \<in> set so" for k j l
  proof -
    have "compare_identity i j \<noteq> 0"
      using Cons.prems(2) that by (auto simp: compare_identity_zero)
    then show ?thesis
      using Cons.prems(1) that by (auto simp: compare_slot_def cmp_then_def)
  qed
  have "sorted_wrt (\<lambda>s t. compare_slot s t \<le> 0) (concat (map (\<lambda>i. map (Pair i) (ksf i)) so))
      \<and> distinct (concat (map (\<lambda>i. map (Pair i) (ksf i)) so))"
    using Cons by auto
  then show ?case
    using within across Cons.prems(2) by (auto simp: sorted_wrt_append)
qed simp

definition attributed_ok :: "attributed_finding list \<Rightarrow> bool" where
  "attributed_ok afs \<longleftrightarrow> (\<forall>af\<in>set afs. finding_made (af_finding af) \<and> rule_id_valid (af_rule af))"

text \<open>\<open>is_plan fs slots parts\<close>: the slots of the findings in order, and for each slot a list of the
  findings that end there.\<close>

definition is_plan :: "finding list \<Rightarrow> slot list \<Rightarrow> finding list list \<Rightarrow> bool" where
  "is_plan fs slots parts \<longleftrightarrow>
     distinct slots \<and> set slots = slot_of (set fs) ` set fs
     \<and> sorted_wrt (\<lambda>s t. compare_slot s t \<le> 0) slots
     \<and> map mset parts = map (\<lambda>s. filter_mset (\<lambda>f. slot_of (set fs) f = s) (mset fs)) slots"

lemma slot_compatible:
  assumes "p \<noteq> []" "\<And>f. f \<in> set p \<Longrightarrow> slot_of F f = s"
  shows "compatible p"
  unfolding compatible_def
proof (intro conjI ballI)
  fix f g assume fg: "f \<in> set p" "g \<in> set p"
  then have i: "identity_of f = identity_of g"
    using assms(2) [of f] assms(2) [of g] by (auto simp: slot_of_def)
  let ?K = "rivals F (identity_of g)"
  have k: "final_key ?K (mergeable f) = final_key ?K (mergeable g)"
    using assms(2) [OF fg(1)] assms(2) [OF fg(2)] i by (auto simp: slot_of_def)
  have claim: "same_claim_as (final_key ?K k) k" for k
    by (cases "absorbed ?K k") (rule final_key_absorbed(3), assumption,
        simp add: final_key_fixed same_claim_as_def)
  have "same_claim_as (mergeable f) (mergeable g)"
    using claim [of "mergeable f"] claim [of "mergeable g"] k by (simp add: same_claim_as_def)
  moreover have "f_discriminator f = f_discriminator g"
    if "f_discriminator f \<noteq> [] \<and> f_discriminator g \<noteq> []"
  proof -
    have "final_key ?K (mergeable x) = mergeable x" if "f_discriminator x \<noteq> []" for x
      using that by (intro final_key_fixed) (simp add: absorbed_def mergeable_def)
    then have "mergeable f = mergeable g"
      using that k by metis
    then show ?thesis by (simp add: mergeable_def)
  qed
  ultimately show "identity_of f = identity_of g" "same_claim_as (mergeable f) (mergeable g)"
    "f_discriminator f \<noteq> [] \<and> f_discriminator g \<noteq> [] \<longrightarrow> f_discriminator f = f_discriminator g"
    using i by blast+
qed (rule assms(1))

lemma plan_parts:
  assumes "is_plan fs slots parts" "p \<in> set parts"
  shows "p \<noteq> []" "set p \<subseteq> set fs" "compatible p" "\<exists>s\<in>set slots. \<forall>f\<in>set p. slot_of (set fs) f = s"
proof -
  have "mset p \<in> set (map mset parts)"
    using assms(2) by simp
  also have "map mset parts = map (\<lambda>s. filter_mset (\<lambda>f. slot_of (set fs) f = s) (mset fs)) slots"
    using assms(1) by (simp only: is_plan_def)
  finally obtain s where s: "s \<in> set slots" "mset p = filter_mset (\<lambda>f. slot_of (set fs) f = s) (mset fs)"
    unfolding set_map by blast
  then have set: "set p = {f \<in> set fs. slot_of (set fs) f = s}"
    by (metis mset_filter mset_eq_setD set_filter)
  have "s \<in> slot_of (set fs) ` set fs"
    using assms(1) s(1) by (auto simp: is_plan_def)
  then have "set p \<noteq> {}"
    unfolding set by blast
  then show "p \<noteq> []" by auto
  show "set p \<subseteq> set fs" "\<exists>s\<in>set slots. \<forall>f\<in>set p. slot_of (set fs) f = s"
    using set s(1) by blast+
  show "compatible p"
    by (rule slot_compatible [OF \<open>p \<noteq> []\<close>, of "set fs" s]) (simp add: set)
qed

lemma converge_plan:
  assumes ok: "attributed_ok afs" and fs: "fs = map af_finding afs"
  shows "\<exists>slots parts. is_plan fs slots parts
    \<and> converge afs = Inr (sort_findings (map merge_of parts))"
proof (cases "afs = []")
  case True
  then show ?thesis
    by (intro exI [of _ "[]"]) (simp add: is_plan_def fs converge_def sort_findings_def)
next
  case False
  let ?id = "identity_of \<circ> af_finding"
  let ?F = "set fs"
  obtain order groups where gb: "group_by ?id afs = (order, groups)"
    by fastforce
  have order: "distinct order" "set order = identity_of ` ?F"
    using group_by_keys [of ?id afs] by (simp_all add: gb fs image_comp)
  have grp: "bucket groups i = filter (\<lambda>af. identity_of (af_finding af) = i) afs" for i
    using group_by_bucket [of ?id afs i] by (simp add: gb)
  let ?so = "go_sort compare_identity order"
  let ?K = "rivals ?F"
  have "\<exists>ks. distinct ks \<and> set ks = final_key (?K i) ` ?K i
      \<and> sorted_wrt (\<lambda>k l. compare_merge_key k l \<le> 0) ks
      \<and> map mset (partition_by_compatibility (bucket groups i)) =
        map (\<lambda>k. filter_mset (\<lambda>af. final_key (?K i) (mergeable (af_finding af)) = k)
          (mset (bucket groups i))) ks" if "i \<in> set ?so" for i
  proof (rule partition_spec)
    show "bucket groups i \<noteq> []"
      using that order(2) by (auto simp: grp fs filter_empty_conv)
    show "?K i = (mergeable \<circ> af_finding) ` set (bucket groups i)"
      by (auto simp: grp fs rivals_def)
  qed
  then obtain ksf where ksf: "\<And>i. i \<in> set ?so \<Longrightarrow> distinct (ksf i) \<and> set (ksf i) = final_key (?K i) ` ?K i
      \<and> sorted_wrt (\<lambda>k l. compare_merge_key k l \<le> 0) (ksf i)
      \<and> map mset (partition_by_compatibility (bucket groups i)) =
        map (\<lambda>k. filter_mset (\<lambda>af. final_key (?K i) (mergeable (af_finding af)) = k)
          (mset (bucket groups i))) (ksf i)"
    by metis
  let ?slots = "concat (map (\<lambda>i. map (Pair i) (ksf i)) ?so)"
  let ?grps = "concat (map (\<lambda>i. partition_by_compatibility (bucket groups i)) ?so)"
  let ?parts = "map (map af_finding) ?grps"
  have srt: "sorted_wrt (\<lambda>s t. compare_slot s t \<le> 0) ?slots \<and> distinct ?slots"
    by (rule slots_sorted [OF identity_order.go_sort_sorted]) (use order(1) ksf in auto)
  have slots: "set ?slots = slot_of ?F ` ?F"
  proof (intro equalityI subsetI)
    fix s assume "s \<in> set ?slots"
    then obtain i f where "s = (i, final_key (?K i) (mergeable f))" "f \<in> ?F" "identity_of f = i"
      using ksf by (auto simp: rivals_def)
    then show "s \<in> slot_of ?F ` ?F"
      by (auto simp: slot_of_def)
  next
    fix s assume "s \<in> slot_of ?F ` ?F"
    then obtain f where f: "f \<in> ?F" "s = (identity_of f, final_key (?K (identity_of f)) (mergeable f))"
      by (auto simp: slot_of_def)
    then have i: "identity_of f \<in> set ?so"
      using order(2) by simp
    then have "final_key (?K (identity_of f)) (mergeable f) \<in> set (ksf (identity_of f))"
      using ksf [OF i] f(1) by (auto simp: rivals_def)
    then show "s \<in> set ?slots"
      using i f(2) by auto
  qed
  have part: "map (\<lambda>p. mset (map af_finding p)) (partition_by_compatibility (bucket groups i)) =
      map (\<lambda>k. filter_mset (\<lambda>f. slot_of ?F f = (i, k)) (mset fs)) (ksf i)" if "i \<in> set ?so" for i
  proof -
    have "map (\<lambda>p. mset (map af_finding p)) (partition_by_compatibility (bucket groups i))
        = map (image_mset af_finding) (map mset (partition_by_compatibility (bucket groups i)))"
      by simp
    also have "\<dots> = map (\<lambda>k. image_mset af_finding
        (filter_mset (\<lambda>af. final_key (?K i) (mergeable (af_finding af)) = k) (mset (bucket groups i)))) (ksf i)"
      using ksf [OF that] by simp
    also have "\<dots> = map (\<lambda>k. filter_mset (\<lambda>f. slot_of ?F f = (i, k)) (mset fs)) (ksf i)"
    proof (intro map_cong refl)
      fix k
      have "filter_mset (\<lambda>af. final_key (?K i) (mergeable (af_finding af)) = k) (mset (bucket groups i))
          = mset (filter (\<lambda>af. slot_of ?F (af_finding af) = (i, k)) afs)"
        by (auto simp: grp slot_of_def conj_commute simp flip: mset_filter
            intro!: arg_cong [of _ _ mset] filter_cong)
      then show "image_mset af_finding
          (filter_mset (\<lambda>af. final_key (?K i) (mergeable (af_finding af)) = k) (mset (bucket groups i)))
          = filter_mset (\<lambda>f. slot_of ?F f = (i, k)) (mset fs)"
        by (simp add: fs filter_map comp_def flip: mset_filter mset_map)
    qed
    finally show ?thesis .
  qed
  have plan: "is_plan fs ?slots ?parts"
    unfolding is_plan_def
  proof (intro conjI)
    have "map (\<lambda>p. mset (map af_finding p)) (concat (map (\<lambda>i. partition_by_compatibility (bucket groups i)) is))
        = map (\<lambda>s. filter_mset (\<lambda>f. slot_of ?F f = s) (mset fs)) (concat (map (\<lambda>i. map (Pair i) (ksf i)) is))"
      if "set is \<subseteq> set ?so" for "is"
      using that part by (induction "is") (simp_all add: comp_def)
    from this [OF order_refl] show "map mset ?parts
        = map (\<lambda>s. filter_mset (\<lambda>f. slot_of ?F f = s) (mset fs)) ?slots"
      by (simp add: comp_def)
  qed (use srt slots in blast)+
  have made: "finding_made f" if "f \<in> ?F" for f
    using ok that by (auto simp: attributed_ok_def fs)
  have merge: "traverse merge_group ?grps = Inr (map merge_of ?parts)"
  proof -
    have "merge_group p = Inr (merge_of (map af_finding p))" if "p \<in> set ?grps" for p
    proof (rule merge_group_eq [OF refl])
      have p: "map af_finding p \<in> set ?parts"
        using that by simp
      show "compatible (map af_finding p)"
        by (rule plan_parts(3) [OF plan p])
      show "\<forall>f\<in>set (map af_finding p). finding_made f"
        using plan_parts(2) [OF plan p] made by blast
    qed
    then have "traverse merge_group ps = Inr (map (merge_of \<circ> map af_finding) ps)" if "set ps \<subseteq> set ?grps" for ps
      using that by (induction ps) simp_all
    then show ?thesis by (simp add: comp_def)
  qed
  have "traverse check_attributed afs = Inr afs"
    using ok unfolding attributed_ok_def
    by (induction afs) (auto simp: check_attributed_def finding_made_def finding_wf_not_zero)
  then have "converge afs = Inr (sort_findings (map merge_of ?parts))"
    using False merge by (simp add: converge_def gb)
  then show ?thesis
    using plan by blast
qed

subsection \<open>What a merged finding carries\<close>

definition carries :: "finding \<Rightarrow> finding \<Rightarrow> bool" where
  "carries g f \<longleftrightarrow> identity_of g = identity_of f \<and> same_claim_as (mergeable g) (mergeable f)
     \<and> set (f_refs f) \<subseteq> set (f_refs g) \<and> set (f_recs f) \<subseteq> set (f_recs g)
     \<and> f_severity f \<le> f_severity g \<and> f_confidence f \<le> f_confidence g
     \<and> (f_kind f = FindingKindConfirmed \<longrightarrow> f_kind g = FindingKindConfirmed)
     \<and> (f_vantage f \<longrightarrow> f_vantage g)"

definition made_from :: "finding \<Rightarrow> finding set \<Rightarrow> bool" where
  "made_from g p \<longleftrightarrow> p \<noteq> {} \<and> (\<forall>f\<in>p. carries g f)
     \<and> set (f_refs g) = (\<Union>f\<in>p. set (f_refs f)) \<and> set (f_recs g) = (\<Union>f\<in>p. set (f_recs f))
     \<and> f_severity g \<in> f_severity ` p \<and> f_confidence g \<in> f_confidence ` p
     \<and> (f_kind g = FindingKindConfirmed \<longleftrightarrow> (\<exists>f\<in>p. f_kind f = FindingKindConfirmed))
     \<and> (f_vantage g \<longleftrightarrow> (\<exists>f\<in>p. f_vantage f))
     \<and> (f_discriminator g \<noteq> [] \<longrightarrow> f_discriminator g \<in> f_discriminator ` p)
     \<and> (f_kind g \<noteq> FindingKindConfirmed \<longrightarrow>
          (\<forall>f\<in>p. f_discriminator f \<noteq> [] \<longrightarrow> f_discriminator g = f_discriminator f))"

lemma made_fromD:
  assumes "made_from g p"
  shows "p \<noteq> {}" "set (f_refs g) = (\<Union>f\<in>p. set (f_refs f))" "f_severity g \<in> f_severity ` p"
  using assms unfolding made_from_def by simp_all

lemma merged_simps:
  "f_code (merged fs) = f_code (hd fs)" "f_subject (merged fs) = f_subject (hd fs)"
  "f_layer (merged fs) = f_layer (hd fs)" "f_summary (merged fs) = f_summary (hd fs)"
  "f_detail (merged fs) = f_detail (hd fs)"
  "f_severity (merged fs) = Max (f_severity ` set fs)"
  "f_confidence (merged fs) = Max (f_confidence ` set fs)"
  "set (f_refs (merged fs)) = (\<Union>f\<in>set fs. set (f_refs f))"
  "set (f_recs (merged fs)) = (\<Union>f\<in>set fs. set (f_recs f))"
  "f_vantage (merged fs) \<longleftrightarrow> (\<exists>f\<in>set fs. f_vantage f)"
  "f_discriminator (merged fs) = (if any_confirmed fs then [] else group_discriminator fs)"
  by (simp_all add: merged_def)

lemma merged_kind:
  assumes "fs \<noteq> []"
  shows "f_kind (merged fs) = FindingKindConfirmed \<longleftrightarrow> any_confirmed fs"
  using hd_in_set [OF assms] by (auto simp: merged_def any_confirmed_def)

lemma merged_made_from:
  assumes c: "compatible fs"
  shows "made_from (merged fs) (set fs)"
proof -
  have ne: "fs \<noteq> []"
    using c unfolding compatible_def by blast
  have hd: "hd fs \<in> set fs"
    using ne by simp
  note kind = merged_kind [OF ne]
  have carry: "carries (merged fs) f" if f: "f \<in> set fs" for f
  proof -
    have "identity_of (merged fs) = identity_of f" "same_claim_as (mergeable (merged fs)) (mergeable f)"
      using compatibleD(1,2) [OF c hd f]
      by (simp_all add: identity_of_def mergeable_def same_claim_as_def merged_simps)
    moreover have "f_kind f = FindingKindConfirmed \<Longrightarrow> any_confirmed fs"
      using f unfolding any_confirmed_def by blast
    ultimately show ?thesis
      using f kind unfolding carries_def merged_simps by auto
  qed
  have "Max (f_severity ` set fs) \<in> f_severity ` set fs" "Max (f_confidence ` set fs) \<in> f_confidence ` set fs"
    using ne by (intro Max_in; simp)+
  moreover have "f_kind (merged fs) = FindingKindConfirmed \<longleftrightarrow> (\<exists>f\<in>set fs. f_kind f = FindingKindConfirmed)"
    using kind by (simp add: any_confirmed_def)
  moreover have "f_discriminator (merged fs) \<noteq> [] \<longrightarrow> f_discriminator (merged fs) \<in> f_discriminator ` set fs"
    using group_discriminator_in [of fs] by (auto simp: merged_simps)
  moreover have "f_discriminator (merged fs) = f_discriminator f"
    if "f_kind (merged fs) \<noteq> FindingKindConfirmed" "f \<in> set fs" "f_discriminator f \<noteq> []" for f
    using group_discriminator_unique [OF c that(2,3)] that(1) kind by (simp add: merged_simps)
  ultimately show ?thesis
    using ne carry unfolding made_from_def by (simp add: merged_simps)
qed

lemma merge_of_made_from:
  assumes "compatible fs"
  shows "made_from (merge_of fs) (set fs)"
proof (cases "length fs = 1")
  case True
  then obtain f where "fs = [f]"
    by (cases fs) auto
  then show ?thesis
    by (simp add: merge_of_def made_from_def carries_def same_claim_as_def)
next
  case False
  then show ?thesis
    using merged_made_from [OF assms] by (simp add: merge_of_def)
qed

lemma merge_of_made:
  assumes c: "compatible fs" and made: "\<forall>f\<in>set fs. finding_made f"
  shows "finding_made (merge_of fs)"
proof (cases "length fs = 1")
  case True
  then show ?thesis
    using made by (cases fs) (simp_all add: merge_of_def)
next
  case False
  have ne: "fs \<noteq> []"
    using c unfolding compatible_def by blast
  have "finding_wf (merged fs)"
    using merged_fields_ok [OF ne made] by (simp add: finding_wf_def) (simp add: merged_def)
  moreover have "\<forall>r\<in>set (f_recs (merged fs)). rec_wf r"
    using made by (auto simp: merged_simps finding_made_def)
  ultimately show ?thesis
    using False by (simp add: merge_of_def finding_made_def)
qed

lemma plan_unique:
  assumes f: "is_plan fs slots parts" and g: "is_plan gs slots' parts'" and m: "mset fs = mset gs"
    and made: "\<forall>f\<in>set fs. finding_made f"
  shows "map merge_of parts = map merge_of parts'"
proof -
  have s: "set fs = set gs"
    using m by (rule mset_eq_setD)
  have "slots = slots'"
  proof (rule slot_order.sorted_perm_unique)
    show "sorted_wrt (\<lambda>s t. compare_slot s t \<le> 0) slots" "sorted_wrt (\<lambda>s t. compare_slot s t \<le> 0) slots'"
      using f g by (simp_all only: is_plan_def)
    have "distinct slots" "distinct slots'" "set slots = set slots'"
      using f g s by (simp_all add: is_plan_def)
    then show "mset slots = mset slots'"
      by (simp add: set_eq_iff_mset_eq_distinct [symmetric])
  qed (simp add: compare_slot_zero)
  moreover have "map mset parts = map (\<lambda>s. filter_mset (\<lambda>f. slot_of (set fs) f = s) (mset fs)) slots"
    "map mset parts' = map (\<lambda>s. filter_mset (\<lambda>f. slot_of (set gs) f = s) (mset gs)) slots'"
    using f g by (simp_all only: is_plan_def)
  ultimately have p: "map mset parts = map mset parts'"
    by (simp only: s m)
  then have len: "length parts = length parts'"
    by (metis length_map)
  show ?thesis
  proof (rule nth_equalityI)
    fix i assume "i < length (map merge_of parts)"
    then have i: "i < length parts" "i < length parts'"
      using len by simp_all
    have "mset (parts ! i) = mset (parts' ! i)"
      using arg_cong [OF p, of "\<lambda>xs. xs ! i"] i by simp
    moreover have "compatible (parts ! i)" "\<forall>f\<in>set (parts ! i). finding_made f"
      using plan_parts(2,3) [OF f nth_mem [OF i(1)]] made by blast+
    ultimately have "merge_of (parts ! i) = merge_of (parts' ! i)"
      by (intro merge_of_perm)
    then show "map merge_of parts ! i = map merge_of parts' ! i"
      using i by simp
  qed (use len in simp)
qed

lemma plan_covers:
  assumes "is_plan fs slots parts"
  shows "(\<Union>p\<in>set parts. set p) = set fs"
proof (intro equalityI subsetI)
  fix f assume f: "f \<in> set fs"
  let ?s = "slot_of (set fs) f"
  have "?s \<in> set slots"
    using assms f by (simp add: is_plan_def)
  then have "filter_mset (\<lambda>g. slot_of (set fs) g = ?s) (mset fs) \<in> set (map mset parts)"
    using assms by (auto simp: is_plan_def)
  then obtain p where p: "p \<in> set parts" "mset p = filter_mset (\<lambda>g. slot_of (set fs) g = ?s) (mset fs)"
    by auto
  then have "f \<in># mset p"
    using f by simp
  then show "f \<in> (\<Union>p\<in>set parts. set p)"
    using p(1) by auto
qed (use plan_parts(2) [OF assms] in blast)

subsection \<open>No two findings of the result claim the same\<close>

definition output_key :: "finding \<Rightarrow> slot" where
  "output_key f = (identity_of f, mergeable f)"

lemma merge_key_eqI:
  "same_claim_as k j \<Longrightarrow> mk_discriminator k = mk_discriminator j \<Longrightarrow> k = j"
  by (cases k; cases j) (simp add: same_claim_as_def)

lemma same_claim_sym: "same_claim_as k j \<Longrightarrow> same_claim_as j k"
  by (simp add: same_claim_as_def)

lemma same_claim_trans: "same_claim_as k j \<Longrightarrow> same_claim_as j l \<Longrightarrow> same_claim_as k l"
  by (simp add: same_claim_as_def)

lemma final_key_claim: "same_claim_as (final_key K k) k"
  by (cases "absorbed K k") (rule final_key_absorbed(3), assumption,
      simp add: final_key_fixed same_claim_as_def)

lemma final_key_disc: "mk_discriminator k \<noteq> [] \<Longrightarrow> final_key K k = k"
  by (rule final_key_fixed) (simp add: absorbed_def)

lemma final_key_in: "k \<in> K \<Longrightarrow> final_key K k \<in> K"
  by (cases "absorbed K k") (simp_all add: final_key_absorbed(1) final_key_fixed)

text \<open>Everything about one part of a plan that its output key depends on.\<close>

lemma part_output:
  assumes made: "\<forall>f\<in>F. finding_made f" and p: "p = {f \<in> F. slot_of F f = (i, k)}" "p \<noteq> {}"
    and g: "made_from g p" "finding_made g"
  shows "identity_of g = i" "same_claim_as (mergeable g) k" "k \<in> rivals F i" "\<not> absorbed (rivals F i) k"
    and "f_kind g \<noteq> FindingKindConfirmed \<Longrightarrow> f_discriminator g = mk_discriminator k"
    and "f_kind g = FindingKindConfirmed \<Longrightarrow> f_discriminator g = []
      \<and> (mk_discriminator k \<noteq> [] \<longrightarrow> (\<exists>j. mk_discriminator j = [] \<and> same_claim_as j k
            \<and> hosts (rivals F i) j = {k} \<and> absorbed (rivals F i) j))"
proof -
  let ?K = "rivals F i"
  have mem: "identity_of f = i \<and> final_key ?K (mergeable f) = k \<and> mergeable f \<in> ?K" if "f \<in> p" for f
    using that by (auto simp: p(1) slot_of_def rivals_def)
  obtain f where f: "f \<in> p" using p(2) by blast
  have carry: "carries g f" if "f \<in> p" for f
    using g(1) that unfolding made_from_def by blast
  show "identity_of g = i"
    using carry [OF f] mem [OF f] by (simp add: carries_def)
  have "same_claim_as (mergeable g) (mergeable f)"
    using carry [OF f] by (simp add: carries_def)
  then show "same_claim_as (mergeable g) k"
    using final_key_claim [of ?K "mergeable f"] mem [OF f] by (auto simp: same_claim_as_def)
  show k: "k \<in> ?K" and na: "\<not> absorbed ?K k"
    using mem [OF f] final_key_in [of "mergeable f" ?K] final_key_not_absorbed [of ?K "mergeable f"] by auto
  show "f_discriminator g = mk_discriminator k" if "f_kind g \<noteq> FindingKindConfirmed"
  proof (cases "mk_discriminator k = []")
    case False
    obtain h where h: "h \<in> F" "identity_of h = i" "mergeable h = k"
      using k by (auto simp: rivals_def)
    then have "h \<in> p"
      using final_key_fixed [OF na] by (simp add: p(1) slot_of_def)
    moreover have "f_discriminator h = mk_discriminator k"
      using h(3) by (auto simp: mergeable_def)
    ultimately show ?thesis
      using g(1) that False unfolding made_from_def by metis
  next
    case True
    have "f_discriminator h = []" if "h \<in> p" for h
    proof (rule ccontr)
      assume "f_discriminator h \<noteq> []"
      then have "final_key ?K (mergeable h) = mergeable h"
        by (intro final_key_disc) (simp add: mergeable_def)
      then show False
        using mem [OF that] True \<open>f_discriminator h \<noteq> []\<close> by (auto simp: mergeable_def)
    qed
    then have "f_discriminator g = []"
      using g(1) unfolding made_from_def by (metis image_iff)
    then show ?thesis using True by simp
  qed
  show "f_discriminator g = [] \<and> (mk_discriminator k \<noteq> [] \<longrightarrow> (\<exists>j. mk_discriminator j = []
      \<and> same_claim_as j k \<and> hosts ?K j = {k} \<and> absorbed ?K j))" if c: "f_kind g = FindingKindConfirmed"
  proof (intro conjI impI)
    show "f_discriminator g = []"
      using g(2) c by (simp add: finding_made_def finding_wf_def finding_fields_ok_def)
    assume d: "mk_discriminator k \<noteq> []"
    obtain h where h: "h \<in> p" "f_kind h = FindingKindConfirmed"
      using g(1) c unfolding made_from_def by blast
    then have "mk_discriminator (mergeable h) = []"
      using made by (auto simp: p(1) mergeable_def finding_made_def finding_wf_def finding_fields_ok_def)
    moreover from this have a: "absorbed ?K (mergeable h)"
      using mem [OF h(1)] d final_key_fixed [of ?K "mergeable h"] by metis
    moreover have "hosts ?K (mergeable h) = {k}"
      using final_key_absorbed(4) [OF a] mem [OF h(1)] by simp
    moreover have "same_claim_as (mergeable h) k"
      using final_key_absorbed(3) [OF a] mem [OF h(1)] by (simp add: same_claim_as_def)
    ultimately show "\<exists>j. mk_discriminator j = [] \<and> same_claim_as j k \<and> hosts ?K j = {k} \<and> absorbed ?K j"
      by blast
  qed
qed

lemma part_output_inj:
  assumes made: "\<forall>f\<in>F. finding_made f"
    and p: "p = {f \<in> F. slot_of F f = (i, k)}" "p \<noteq> {}" "made_from g p" "finding_made g"
    and q: "q = {f \<in> F. slot_of F f = (j, l)}" "q \<noteq> {}" "made_from h q" "finding_made h"
    and eq: "output_key g = output_key h"
  shows "(i, k) = (j, l)"
proof -
  note P = part_output [OF made p] and Q = part_output [OF made q]
  have ij: "i = j" and gh: "mergeable g = mergeable h"
    using eq P(1) Q(1) by (auto simp: output_key_def)
  have d: "f_discriminator g = f_discriminator h"
    using gh by (simp add: mergeable_def)
  have claim: "same_claim_as k l"
    using P(2) Q(2) gh by (auto simp: same_claim_as_def)
  let ?K = "rivals F i"
  text \<open>A confirmed part with a discriminated slot leaves no other slot of its claim.\<close>
  have only: "k' = l'"
    if o: "mk_discriminator k' \<noteq> []" "\<exists>j. mk_discriminator j = [] \<and> same_claim_as j k' \<and> hosts ?K j = {k'} \<and> absorbed ?K j"
      "l' \<in> ?K" "\<not> absorbed ?K l'" "same_claim_as k' l'" for k' l'
  proof -
    obtain a where a: "mk_discriminator a = []" "same_claim_as a k'" "hosts ?K a = {k'}" "absorbed ?K a"
      using o(2) by blast
    have al: "same_claim_as l' a"
      using a(2) o(5) by (simp add: same_claim_as_def)
    show ?thesis
    proof (cases "mk_discriminator l' = []")
      case True
      then have "l' = a"
        using merge_key_eqI [OF al] a(1) by simp
      then show ?thesis using o(4) a(4) by simp
    next
      case False
      then have "l' \<in> hosts ?K a"
        using o(3) al by (simp add: hosts_def)
      then show ?thesis using a(3) by simp
    qed
  qed
  have "k = l"
  proof (cases "f_kind g = FindingKindConfirmed \<and> mk_discriminator k \<noteq> []")
    case True
    then show ?thesis
      using only [of k l] P(6) Q(3,4) ij claim by blast
  next
    case g: False
    show ?thesis
    proof (cases "f_kind h = FindingKindConfirmed \<and> mk_discriminator l \<noteq> []")
      case True
      then show ?thesis
        using only [of l k] Q(6) P(3,4) ij same_claim_sym [OF claim] by blast
    next
      case False
      have "f_discriminator g = mk_discriminator k"
        using g P(5,6) by metis
      moreover have "f_discriminator h = mk_discriminator l"
        using False Q(5,6) by metis
      ultimately have "mk_discriminator k = mk_discriminator l"
        using d by metis
      then show ?thesis
        by (rule merge_key_eqI [OF claim])
    qed
  qed
  then show ?thesis using ij by simp
qed

lemma plan_parts_sets:
  assumes pl: "is_plan fs slots parts"
  shows "length parts = length slots
    \<and> (\<forall>n<length parts. set (parts ! n) = {f \<in> set fs. slot_of (set fs) f = slots ! n})"
proof -
  have eq: "map mset parts = map (\<lambda>s. filter_mset (\<lambda>f. slot_of (set fs) f = s) (mset fs)) slots"
    using pl by (simp only: is_plan_def)
  then have len: "length parts = length slots"
    by (metis length_map)
  have "set (parts ! n) = {f \<in> set fs. slot_of (set fs) f = slots ! n}" if "n < length parts" for n
  proof -
    have "mset (parts ! n) = filter_mset (\<lambda>f. slot_of (set fs) f = slots ! n) (mset fs)"
      using arg_cong [OF eq, of "\<lambda>xs. xs ! n"] that len by simp
    then have "mset (parts ! n) = mset (filter (\<lambda>f. slot_of (set fs) f = slots ! n) fs)"
      by simp
    then have "set (parts ! n) = set (filter (\<lambda>f. slot_of (set fs) f = slots ! n) fs)"
      by (rule mset_eq_setD)
    then show ?thesis by simp
  qed
  then show ?thesis using len by blast
qed

lemma plan_distinct_outputs:
  assumes pl: "is_plan fs slots parts" and made: "\<forall>f\<in>set fs. finding_made f"
  shows "distinct (map output_key (map merge_of parts))"
proof -
  have sets: "length parts = length slots"
    "\<And>n. n < length parts \<Longrightarrow> set (parts ! n) = {f \<in> set fs. slot_of (set fs) f = slots ! n}"
    using plan_parts_sets [OF pl] by blast+
  have "output_key (merge_of (parts ! m)) \<noteq> output_key (merge_of (parts ! n))"
    if mn: "m < length parts" "n < length parts" "m \<noteq> n" for m n
  proof
    assume eq: "output_key (merge_of (parts ! m)) = output_key (merge_of (parts ! n))"
    have facts: "set (parts ! l) \<noteq> {}" "made_from (merge_of (parts ! l)) (set (parts ! l))"
        "finding_made (merge_of (parts ! l))" if l: "l < length parts" for l
    proof -
      note pp = plan_parts [OF pl nth_mem [OF l]]
      show "set (parts ! l) \<noteq> {}" "made_from (merge_of (parts ! l)) (set (parts ! l))"
        using pp(1) merge_of_made_from [OF pp(3)] by simp_all
      show "finding_made (merge_of (parts ! l))"
        using merge_of_made [OF pp(3)] pp(2) made by blast
    qed
    have "(fst (slots ! m), snd (slots ! m)) = (fst (slots ! n), snd (slots ! n))"
      by (rule part_output_inj [OF made _ facts [OF mn(1)] _ facts [OF mn(2)] eq])
        (simp_all add: sets(2) mn)
    then have "slots ! m = slots ! n" by simp
    moreover have "distinct slots"
      using pl by (simp only: is_plan_def)
    ultimately show False
      using mn sets(1) by (simp add: nth_eq_iff_index_eq)
  qed
  then show ?thesis
    by (simp add: distinct_conv_nth)
qed

subsection \<open>Properties\<close>

text \<open>C15: On findings the constructors made, attributed to valid rule ids, the result of \<open>Converge\<close>
  depends neither on the order the findings arrive in nor on which rules they are attributed to.\<close>

theorem converge_order_independent:
  assumes "attributed_ok xs" "attributed_ok ys"
    and "mset (map af_finding xs) = mset (map af_finding ys)"
  shows "converge xs = converge ys"
proof -
  obtain slots parts where x: "is_plan (map af_finding xs) slots parts"
      "converge xs = Inr (sort_findings (map merge_of parts))"
    using converge_plan [OF assms(1) refl] by blast
  obtain slots' parts' where y: "is_plan (map af_finding ys) slots' parts'"
      "converge ys = Inr (sort_findings (map merge_of parts'))"
    using converge_plan [OF assms(2) refl] by blast
  have "\<forall>f\<in>set (map af_finding xs). finding_made f"
    using assms(1) by (simp add: attributed_ok_def)
  from plan_unique [OF x(1) y(1) assms(3) this] show ?thesis
    using x(2) y(2) by simp
qed

definition demo_af :: "string \<Rightarrow> finding \<Rightarrow> attributed_finding" where
  "demo_af i f = \<lparr>af_rule = i, af_finding = f\<rparr>"

lemma demo_rule_ids: "rule_id_valid ''a/x''" "rule_id_valid ''b/y''"
  unfolding rule_id_valid_iff
  by (intro exI [of _ "''a''"] exI [of _ "''x''"], simp add: eval_rule_id,
      intro exI [of _ "''b''"] exI [of _ "''y''"], simp add: eval_rule_id)

lemma demo_attributed_ok:
  "attributed_ok [demo_af ''a/x'' demo_error, demo_af ''b/y'' demo_critical]"
  "attributed_ok [demo_af ''a/x'' demo_critical, demo_af ''b/y'' demo_error]"
  using demo_finding_wfs demo_rule_ids
  by (simp_all add: attributed_ok_def demo_af_def finding_made_def demo_error_def demo_critical_def
      demo_finding_def)

theorem converge_order_independent_witness:
  "converge [demo_af ''a/x'' demo_error, demo_af ''b/y'' demo_critical]
   = converge [demo_af ''a/x'' demo_critical, demo_af ''b/y'' demo_error]"
  by (rule converge_order_independent [OF demo_attributed_ok])
    (simp add: demo_af_def add_mset_commute)

text \<open>C14: \<open>Converge\<close> does not fail on such findings, and it neither loses nor invents anything: every
  finding that comes in is carried by a finding of the result with its identity and claim, all its
  evidence and recommendations and at least its severity and confidence; and every finding of the
  result has exactly the evidence and recommendations of some of the findings, and the severity and
  confidence of one of them. A recommendation counts by its whole value, as in \<open>mergeGroup\<close>; the comment
  of \<open>Converge\<close> says by action text, which would lose one of two that differ in their rationale.\<close>

theorem converge_conserves:
  assumes "attributed_ok afs" and "F = set (map af_finding afs)"
  shows "\<exists>out. converge afs = Inr out \<and> sort_findings out = out \<and> (\<forall>g\<in>set out. finding_made g)
    \<and> (\<forall>f\<in>F. \<exists>g\<in>set out. carries g f)
    \<and> (\<forall>g\<in>set out. \<exists>p\<subseteq>F. made_from g p)
    \<and> (\<Union>g\<in>set out. set (f_refs g)) = (\<Union>f\<in>F. set (f_refs f))"
proof -
  let ?fs = "map af_finding afs"
  obtain slots parts where pl: "is_plan ?fs slots parts"
      and out: "converge afs = Inr (sort_findings (map merge_of parts))"
    using converge_plan [OF assms(1) refl] by blast
  have made: "\<forall>f\<in>set ?fs. finding_made f"
    using assms(1) by (simp add: attributed_ok_def)
  let ?out = "sort_findings (map merge_of parts)"
  have from_part: "made_from (merge_of p) (set p) \<and> set p \<subseteq> F \<and> finding_made (merge_of p)" if "p \<in> set parts" for p
    using plan_parts [OF pl that] merge_of_made_from merge_of_made made assms(2) by blast
  have cover: "(\<Union>p\<in>set parts. set p) = F"
    using plan_covers [OF pl] assms(2) by simp
  have "\<exists>g\<in>set ?out. carries g f" if f: "f \<in> F" for f
  proof -
    obtain p where p: "p \<in> set parts" "f \<in> set p"
      using f cover by blast
    then have "carries (merge_of p) f"
      using from_part [OF p(1)] unfolding made_from_def by blast
    then show ?thesis using p(1) by auto
  qed
  moreover have "\<exists>p\<subseteq>F. made_from g p" "finding_made g" if g: "g \<in> set ?out" for g
    using g from_part by auto
  moreover have "(\<Union>g\<in>set ?out. set (f_refs g)) = (\<Union>f\<in>F. set (f_refs f))"
  proof -
    have "set (f_refs (merge_of p)) = (\<Union>f\<in>set p. set (f_refs f))" if "p \<in> set parts" for p
      using from_part [OF that] unfolding made_from_def by blast
    then have "(\<Union>g\<in>set ?out. set (f_refs g)) = (\<Union>p\<in>set parts. \<Union>f\<in>set p. set (f_refs f))"
      by simp
    also have "\<dots> = (\<Union>f\<in>F. set (f_refs f))"
      using cover by blast
    finally show ?thesis .
  qed
  moreover have "sort_findings ?out = ?out"
    by (simp add: sort_findings_def finding_order.go_sort_idem)
  ultimately show ?thesis
    using out by blast
qed

theorem converge_conserves_witness:
  "\<exists>out. converge [demo_af ''a/x'' demo_error, demo_af ''b/y'' demo_critical] = Inr out
     \<and> (\<exists>g\<in>set out. f_severity g = SeverityCritical \<and> set (f_refs g) = {''dns'', ''tcp''})"
proof -
  let ?F = "set (map af_finding [demo_af ''a/x'' demo_error, demo_af ''b/y'' demo_critical])"
  obtain out where out: "converge [demo_af ''a/x'' demo_error, demo_af ''b/y'' demo_critical] = Inr out"
      and c: "\<forall>f\<in>?F. \<exists>g\<in>set out. carries g f" and m: "\<forall>g\<in>set out. \<exists>p\<subseteq>?F. made_from g p"
    using converge_conserves [OF demo_attributed_ok(1) refl] by blast
  have F: "?F = {demo_error, demo_critical}"
    by (simp add: demo_af_def)
  obtain g where g: "g \<in> set out" "carries g demo_critical"
    using c unfolding F by blast
  obtain p where p: "p \<subseteq> {demo_error, demo_critical}" "made_from g p"
    using m g(1) unfolding F by blast
  have refs: "set (f_refs f) = {''dns'', ''tcp''}" and sev: "f_severity f \<in> {SeverityError, SeverityCritical}"
    if "f \<in> {demo_error, demo_critical}" for f
    using that by (auto simp: demo_error_def demo_critical_def demo_finding_def)
  have all: "set (f_refs f) = {''dns'', ''tcp''}" if "f \<in> p" for f
    by (rule refs) (rule subsetD [OF p(1) that])
  have "set (f_refs g) = {''dns'', ''tcp''}"
    unfolding made_fromD(2) [OF p(2)] using made_fromD(1) [OF p(2)] all by (simp only: UN_constant if_False SUP_cong) 
  moreover have "f_severity g \<in> {SeverityError, SeverityCritical}"
  proof -
    from made_fromD(3) [OF p(2)] obtain f where f: "f_severity g = f_severity f" "f \<in> p"
      by (rule imageE)
    show ?thesis
      unfolding f(1) by (rule sev) (rule subsetD [OF p(1) f(2)])
  qed
  moreover have "SeverityCritical \<le> f_severity g"
    using g(2) by (simp add: carries_def demo_critical_def demo_finding_def)
  then have "f_severity g \<noteq> SeverityError"
    by (auto simp: less_eq_severity_def)
  ultimately show ?thesis
    using out g(1) by blast
qed

text \<open>The result of \<open>Converge\<close> is fully merged: no two findings of it share identity, layer,
  summary, detail and discriminator.\<close>

theorem converge_fully_merged:
  assumes "attributed_ok afs" and "converge afs = Inr out"
  shows "distinct (map (\<lambda>f. (identity_of f, mergeable f)) out)"
proof -
  let ?fs = "map af_finding afs"
  obtain slots parts where pl: "is_plan ?fs slots parts"
      and out: "out = sort_findings (map merge_of parts)"
    using converge_plan [OF assms(1) refl] assms(2) by auto
  have "distinct (map output_key (map merge_of parts))"
    by (rule plan_distinct_outputs [OF pl]) (use assms(1) in \<open>simp add: attributed_ok_def\<close>)
  moreover have "mset (map output_key out) = mset (map output_key (map merge_of parts))"
    by (simp add: out sort_findings_def multiset.map_comp)
  ultimately have "distinct (map output_key out)"
    using mset_eq_imp_distinct_iff by blast
  then show ?thesis
    by (simp add: output_key_def [abs_def])
qed

theorem converge_fully_merged_witness:
  "\<exists>out. converge [demo_af ''a/x'' demo_error, demo_af ''b/y'' demo_critical] = Inr out
     \<and> length out = 1"
proof -
  let ?afs = "[demo_af ''a/x'' demo_error, demo_af ''b/y'' demo_critical]"
  let ?fs = "map af_finding ?afs"
  obtain slots parts where pl: "is_plan ?fs slots parts"
      and out: "converge ?afs = Inr (sort_findings (map merge_of parts))"
    using converge_plan [OF demo_attributed_ok(1) refl] by blast
  let ?out = "sort_findings (map merge_of parts)"
  have d: "distinct (map (\<lambda>f. (identity_of f, mergeable f)) ?out)"
    by (rule converge_fully_merged [OF demo_attributed_ok(1) out])
  have made: "\<forall>f\<in>set ?fs. finding_made f"
    using demo_attributed_ok(1) by (simp add: attributed_ok_def)
  have one: "(identity_of g, mergeable g) = (identity_of demo_error, mergeable demo_error)" if gin: "g \<in> set ?out" for g
  proof -
    obtain p where p: "p \<in> set parts" "g = merge_of p"
      using gin by auto
    then obtain f where f: "f \<in> set p" "f \<in> set ?fs"
      using plan_parts(1,2) [OF pl p(1)] by (meson list.set_sel(1) subsetD)
    have g: "made_from g (set p)" "finding_made g"
      using merge_of_made_from [OF plan_parts(3) [OF pl p(1)]] merge_of_made [OF plan_parts(3) [OF pl p(1)]]
        plan_parts(2) [OF pl p(1)] made p(2) by blast+
    have c: "carries g f"
      using g(1) f(1) unfolding made_from_def by blast
    have fk: "f_kind f = FindingKindConfirmed" "identity_of f = identity_of demo_error"
      "same_claim_as (mergeable f) (mergeable demo_error)" "mk_discriminator (mergeable demo_error) = []"
      using f(2) by (auto simp: demo_af_def demo_error_def demo_critical_def demo_finding_def identity_of_def
          mergeable_def same_claim_as_def)
    then have "f_discriminator g = []"
      using c g(2) by (simp add: carries_def finding_made_def finding_wf_def finding_fields_ok_def)
    then show ?thesis
      using c fk merge_key_eqI [of "mergeable g" "mergeable demo_error"]
        same_claim_trans [of "mergeable g" "mergeable f" "mergeable demo_error"]
      by (simp add: carries_def mergeable_def)
  qed
  have "?out \<noteq> []"
    using plan_covers [OF pl] by (auto simp: sort_findings_def)
  then obtain g gs where "?out = g # gs"
    by (meson neq_Nil_conv)
  then have "gs = []"
    using d one by (cases gs) auto
  then show ?thesis
    using out \<open>?out = g # gs\<close> by auto
qed

end
