(* ===== verification/Engine.thy ===== *)
theory Engine
  imports ConvergePlan
begin

text \<open>
  Package \<open>internal/diagnosis\<close>: the engine that runs the rules of a registry (\<open>engine.go\<close>), what
  it returns (\<open>outcome.go\<close>) and the check of a rule's output (\<open>validate.go\<close>). A rule that panics
  gives \<open>None\<close>, which \<open>evaluateOne\<close> turns into a discarded result.
\<close>

subsection \<open>The engine\<close>

record outcome =
  oc_findings :: "finding list"
  oc_failures :: "rule_id list"

definition rule_failure_string :: "rule_id \<Rightarrow> string" where
  "rule_failure_string r =
     (if r = [] then ''<no rule failure>''
      else ''rule '' @ r @ '' failed and its output was discarded'')"

definition outcome_failed :: "outcome \<Rightarrow> bool" where
  "outcome_failed o' \<longleftrightarrow> 0 < length (oc_failures o')"

definition convergence_failure :: rule_id where
  "convergence_failure = ''diag/convergence''"

text \<open>A nil rule would panic when it is called.\<close>

definition evaluate_one :: "registered_rule \<Rightarrow> rule_context \<Rightarrow> finding list option" where
  "evaluate_one r ctx = (case rr_eval r of None \<Rightarrow> None | Some rule \<Rightarrow> rule ctx)"

definition evaluate_step :: "rule_context \<Rightarrow> registered_rule \<Rightarrow>
    rule_id list \<times> attributed_finding list \<Rightarrow> rule_id list \<times> attributed_finding list" where
  "evaluate_step ctx r st =
     (case evaluate_one r ctx of
        None \<Rightarrow> (fst st @ [rr_id r], snd st)
      | Some fs \<Rightarrow> (fst st, snd st @ map (\<lambda>f. \<lparr>af_rule = rr_id r, af_finding = f\<rparr>) fs))"

definition evaluate :: "registry \<Rightarrow> rule_context \<Rightarrow> outcome" where
  "evaluate registry ctx =
     (case fold (evaluate_step ctx) registry ([], []) of (failures, produced) \<Rightarrow>
        if produced = [] then \<lparr>oc_findings = [], oc_failures = failures\<rparr>
        else case converge produced of
          Inl _ \<Rightarrow> \<lparr>oc_findings = [], oc_failures = failures @ [convergence_failure]\<rparr>
        | Inr fs \<Rightarrow> \<lparr>oc_findings = sort_findings fs, oc_failures = failures\<rparr>)"

definition diagnose :: "registry \<Rightarrow> rule_context \<Rightarrow> finding list" where
  "diagnose registry ctx = oc_findings (evaluate registry ctx)"

subsection \<open>Checking a rule's output\<close>

fun adjacent_repeat :: "'a list \<Rightarrow> bool" where
  "adjacent_repeat (x # y # xs) \<longleftrightarrow> x = y \<or> adjacent_repeat (y # xs)"
| "adjacent_repeat _ \<longleftrightarrow> False"

definition validate_finding :: "finding \<Rightarrow> graph \<Rightarrow> diag_error + unit" where
  "validate_finding f g =
     (if finding_is_zero f then Inl ErrInvalidRuleOutput
      else if f_refs f = [] then Inl ErrInvalidRuleOutput
      else if list_ex (\<lambda>ref. graph_node g ref = None) (f_refs f) \<or> adjacent_repeat (f_refs f)
      then Inl ErrInvalidRuleOutput
      else Inr ())"

definition validate_findings :: "finding list \<Rightarrow> graph \<Rightarrow> diag_error + unit" where
  "validate_findings fs g = rbind (traverse (\<lambda>f. validate_finding f g) fs) (\<lambda>_. Inr ())"

lemma adjacent_repeat_distinct: "distinct xs \<Longrightarrow> \<not> adjacent_repeat xs"
  by (induction xs rule: adjacent_repeat.induct) auto

lemma validate_finding_ok:
  "finding_wf f \<Longrightarrow> is_ok (validate_finding f g) \<longleftrightarrow> refs_recorded g f"
  using finding_wf_not_zero [of f] adjacent_repeat_distinct [of "f_refs f"]
  by (auto simp: validate_finding_def finding_wf_def finding_fields_ok_def refs_recorded_def list_ex_iff)

subsection \<open>What an evaluation is\<close>

definition panicked :: "rule_context \<Rightarrow> registered_rule \<Rightarrow> bool" where
  "panicked ctx r \<longleftrightarrow> evaluate_one r ctx = None"

definition output_of :: "rule_context \<Rightarrow> registered_rule \<Rightarrow> finding list" where
  "output_of ctx r = (case evaluate_one r ctx of None \<Rightarrow> [] | Some fs \<Rightarrow> fs)"

definition attributed_output :: "rule_context \<Rightarrow> registered_rule \<Rightarrow> attributed_finding list" where
  "attributed_output ctx r = map (\<lambda>f. \<lparr>af_rule = rr_id r, af_finding = f\<rparr>) (output_of ctx r)"

lemma evaluate_steps:
  "fold (evaluate_step ctx) rs (failures, produced) =
     (failures @ map rr_id (filter (panicked ctx) rs), produced @ concat (map (attributed_output ctx) rs))"
proof (induction rs arbitrary: failures produced)
  case (Cons r rs)
  show ?case
    by (simp only: fold_simps comp_apply)
      (cases "evaluate_one r ctx"; simp add: evaluate_step_def Cons.IH panicked_def attributed_output_def
        output_of_def)
qed simp

text \<open>Rules whose output the constructors made.\<close>

definition rules_sound :: "registry \<Rightarrow> rule_context \<Rightarrow> bool" where
  "rules_sound registry ctx \<longleftrightarrow>
     (\<forall>r\<in>set registry. \<forall>f\<in>set (output_of ctx r). finding_made f)"

lemma produced_ok:
  assumes "registry_wf registry" "rules_sound registry ctx"
  shows "attributed_ok (concat (map (attributed_output ctx) registry))"
  using assms by (auto simp: attributed_ok_def attributed_output_def registry_wf_def rules_sound_def)

lemma produced_findings:
  "map af_finding (concat (map (attributed_output ctx) rs)) = concat (map (output_of ctx) rs)"
  by (simp add: map_concat attributed_output_def comp_def)

lemma evaluate_eq:
  assumes "registry_wf registry" "rules_sound registry ctx"
  shows "\<exists>out. converge (concat (map (attributed_output ctx) registry)) = Inr out
    \<and> evaluate registry ctx
      = \<lparr>oc_findings = out, oc_failures = map rr_id (filter (panicked ctx) registry)\<rparr>"
proof -
  obtain out where out: "converge (concat (map (attributed_output ctx) registry)) = Inr out"
      "sort_findings out = out"
    using converge_plan [OF produced_ok [OF assms] refl]
    by (auto simp: sort_findings_def finding_order.go_sort_idem)
  have "evaluate registry ctx = \<lparr>oc_findings = out, oc_failures = map rr_id (filter (panicked ctx) registry)\<rparr>"
    using out by (auto simp: evaluate_def evaluate_steps converge_def)
  then show ?thesis using out(1) by blast
qed

subsection \<open>Properties\<close>

lemma output_of_panicked: "panicked ctx r \<Longrightarrow> output_of ctx r = []"
  by (simp add: panicked_def output_of_def)

lemma converge_same_findings:
  assumes "registry_wf rs" "rules_sound rs ctx" "registry_wf qs" "rules_sound qs ctx"
    and "mset (concat (map (output_of ctx) rs)) = mset (concat (map (output_of ctx) qs))"
  shows "oc_findings (evaluate rs ctx) = oc_findings (evaluate qs ctx)"
proof -
  let ?x = "concat (map (attributed_output ctx) rs)" and ?y = "concat (map (attributed_output ctx) qs)"
  obtain slots parts where x: "is_plan (map af_finding ?x) slots parts"
      "converge ?x = Inr (sort_findings (map merge_of parts))"
    using converge_plan [OF produced_ok [OF assms(1,2)] refl] by blast
  obtain slots' parts' where y: "is_plan (map af_finding ?y) slots' parts'"
      "converge ?y = Inr (sort_findings (map merge_of parts'))"
    using converge_plan [OF produced_ok [OF assms(3,4)] refl] by blast
  have "mset (map af_finding ?x) = mset (map af_finding ?y)"
    unfolding produced_findings by (rule assms(5))
  moreover have "\<forall>f\<in>set (map af_finding ?x). finding_made f"
    using produced_ok [OF assms(1,2)] by (simp add: attributed_ok_def)
  ultimately have "map merge_of parts = map merge_of parts'"
    by (rule plan_unique [OF x(1) y(1)])
  then have "converge ?x = converge ?y"
    using x(2) y(2) by simp
  then show ?thesis
    using evaluate_eq [OF assms(1,2)] evaluate_eq [OF assms(3,4)] by auto
qed

lemma registry_wf_mset: "mset rs = mset qs \<Longrightarrow> registry_wf rs \<Longrightarrow> registry_wf qs"
  unfolding registry_wf_def registry_ids_def
  by (metis mset_eq_imp_distinct_iff mset_eq_setD mset_map)

lemma registry_wf_filter: "registry_wf rs \<Longrightarrow> registry_wf (filter p rs)"
  by (auto simp: registry_wf_def registry_ids_def distinct_map_filter)

text \<open>C32: The order rules were registered in does not reach the findings: two registries with the
  same rules give the same findings, and the same rules fail.\<close>

theorem evaluate_order_independent:
  assumes "registry_wf rs" "rules_sound rs ctx" "mset rs = mset qs"
  shows "oc_findings (evaluate rs ctx) = oc_findings (evaluate qs ctx)
    \<and> mset (oc_failures (evaluate rs ctx)) = mset (oc_failures (evaluate qs ctx))"
proof -
  have q: "registry_wf qs" "rules_sound qs ctx"
    using registry_wf_mset [OF assms(3,1)] assms(2) mset_eq_setD [OF assms(3)] by (simp_all add: rules_sound_def)
  have cat: "mset (concat (map (output_of ctx) xs)) = (\<Sum>r\<in>#mset xs. mset (output_of ctx r))" for xs
    by (induction xs) simp_all
  have "oc_findings (evaluate rs ctx) = oc_findings (evaluate qs ctx)"
    by (rule converge_same_findings [OF assms(1,2) q]) (simp only: cat assms(3))
  moreover have "mset (oc_failures (evaluate rs ctx)) = mset (oc_failures (evaluate qs ctx))"
    using evaluate_eq [OF assms(1,2)] evaluate_eq [OF q] assms(3) by auto
  ultimately show ?thesis by blast
qed

definition demo_rule :: "finding \<Rightarrow> rule" where
  "demo_rule f ctx = Some [f]"

definition panicking_rule :: rule where
  "panicking_rule ctx = None"

definition demo_registry :: registry where
  "demo_registry = [\<lparr>rr_id = ''a/x'', rr_eval = Some (demo_rule demo_error)\<rparr>,
     \<lparr>rr_id = ''b/y'', rr_eval = Some panicking_rule\<rparr>]"

lemma demo_registry_ok: "registry_wf demo_registry" "rules_sound demo_registry ctx"
proof -
  show "registry_wf demo_registry"
    using demo_rule_ids by (simp add: registry_wf_def registry_ids_def demo_registry_def)
  have "finding_made demo_error"
    using demo_attributed_ok(1) by (simp add: attributed_ok_def demo_af_def)
  then show "rules_sound demo_registry ctx"
    by (simp add: rules_sound_def demo_registry_def output_of_def evaluate_one_def demo_rule_def
        panicking_rule_def)
qed

definition demo_context :: rule_context where
  "demo_context = \<lparr>ctx_graph = demo_graph,
     ctx_vantage = \<lparr>vt_source = VantageSourceLocalHost, vt_host = ''h''\<rparr>, ctx_incomplete = False\<rparr>"

theorem evaluate_order_independent_witness:
  "oc_findings (evaluate demo_registry demo_context)
     = oc_findings (evaluate (rev demo_registry) demo_context)"
  using evaluate_order_independent [OF demo_registry_ok, of "rev demo_registry" demo_context] by simp

text \<open>Every finding is made from a part of what the rules gave, and the parts lose nothing.\<close>

lemma evaluate_parts:
  assumes "registry_wf rs" "rules_sound rs ctx"
  obtains parts where "oc_findings (evaluate rs ctx) = sort_findings (map merge_of parts)"
    "\<And>p. p \<in> set parts \<Longrightarrow> made_from (merge_of p) (set p) \<and> finding_made (merge_of p)"
    "(\<Union>p\<in>set parts. set p) = (\<Union>r\<in>set rs. set (output_of ctx r))"
proof -
  obtain out where out: "converge (concat (map (attributed_output ctx) rs)) = Inr out"
      "evaluate rs ctx = \<lparr>oc_findings = out, oc_failures = map rr_id (filter (panicked ctx) rs)\<rparr>"
    using evaluate_eq [OF assms] by blast
  obtain slots parts where pl: "is_plan (concat (map (output_of ctx) rs)) slots parts"
      "out = sort_findings (map merge_of parts)"
    using converge_plan [OF produced_ok [OF assms] refl] out(1) by (auto simp: produced_findings)
  have part: "made_from (merge_of p) (set p) \<and> finding_made (merge_of p)" if "p \<in> set parts" for p
  proof -
    have "\<forall>f\<in>set p. finding_made f"
      using plan_parts(2) [OF pl(1) that] assms(2) by (auto simp: rules_sound_def)
    then show ?thesis
      using merge_of_made_from merge_of_made plan_parts(3) [OF pl(1) that] by blast
  qed
  have "(\<Union>p\<in>set parts. set p) = (\<Union>r\<in>set rs. set (output_of ctx r))"
    unfolding plan_covers [OF pl(1)] by simp
  with that part show thesis using out(2) pl(2) by simp
qed

text \<open>C16: A rule that panics costs its own findings and nothing else: the failures are exactly the
  ids of the rules that panicked, in order, the findings are those of the registry without these
  rules, and every finding of a rule that did not panic is carried by one of them.\<close>

theorem evaluate_isolates_failures:
  assumes "registry_wf rs" "rules_sound rs ctx"
  shows "oc_failures (evaluate rs ctx) = map rr_id (filter (panicked ctx) rs)
    \<and> evaluate (filter (\<lambda>r. \<not> panicked ctx r) rs) ctx
        = \<lparr>oc_findings = oc_findings (evaluate rs ctx), oc_failures = []\<rparr>
    \<and> (\<forall>r\<in>set rs. \<not> panicked ctx r \<longrightarrow>
        (\<forall>f\<in>set (output_of ctx r). \<exists>g\<in>set (oc_findings (evaluate rs ctx)). carries g f))
    \<and> (\<forall>g\<in>set (oc_findings (evaluate rs ctx)). finding_made g)"
proof -
  let ?qs = "filter (\<lambda>r. \<not> panicked ctx r) rs"
  have q: "registry_wf ?qs" "rules_sound ?qs ctx"
    using registry_wf_filter [OF assms(1)] assms(2) by (auto simp: rules_sound_def)
  have "concat (map (output_of ctx) ?qs) = concat (map (output_of ctx) rs)"
    by (induction rs) (simp_all add: output_of_panicked)
  then have same: "oc_findings (evaluate ?qs ctx) = oc_findings (evaluate rs ctx)"
    by (intro converge_same_findings [OF q assms]) simp
  have out: "oc_failures (evaluate rs ctx) = map rr_id (filter (panicked ctx) rs)"
    using evaluate_eq [OF assms] by auto
  have none: "filter (panicked ctx) ?qs = []"
    by (simp add: filter_empty_conv)
  have quiet: "evaluate ?qs ctx = \<lparr>oc_findings = oc_findings (evaluate rs ctx), oc_failures = []\<rparr>"
    using evaluate_eq [OF q] same none by auto
  obtain parts where p: "oc_findings (evaluate rs ctx) = sort_findings (map merge_of parts)"
    "\<And>p. p \<in> set parts \<Longrightarrow> made_from (merge_of p) (set p) \<and> finding_made (merge_of p)"
    "(\<Union>p\<in>set parts. set p) = (\<Union>r\<in>set rs. set (output_of ctx r))"
    using evaluate_parts [OF assms] by blast
  have img: "set (oc_findings (evaluate rs ctx)) = merge_of ` set parts"
    by (auto simp: p(1) sort_findings_def)
  have carry: "\<exists>g\<in>set (oc_findings (evaluate rs ctx)). carries g f" if "r \<in> set rs" "f \<in> set (output_of ctx r)" for r f
  proof -
    have "f \<in> (\<Union>p\<in>set parts. set p)"
      unfolding p(3) using that by blast
    then obtain q where q: "q \<in> set parts" "f \<in> set q" by blast
    then have "carries (merge_of q) f"
      using p(2) [OF q(1)] unfolding made_from_def by blast
    then show ?thesis using q(1) unfolding img by blast
  qed
  have "\<forall>g\<in>set (oc_findings (evaluate rs ctx)). finding_made g"
    unfolding img using p(2) by blast
  then show ?thesis
    using quiet carry out by simp
qed

theorem evaluate_isolates_failures_witness:
  "oc_failures (evaluate demo_registry demo_context) = [''b/y'']
   \<and> (\<exists>g\<in>set (oc_findings (evaluate demo_registry demo_context)). carries g demo_error)"
  using evaluate_isolates_failures [OF demo_registry_ok, of demo_context]
  by (simp add: demo_registry_def panicked_def evaluate_one_def demo_rule_def panicking_rule_def output_of_def)

end
