(* ===== verification/Basis.thy ===== *)
theory Basis
  imports Engine
begin

text \<open>
  Package \<open>internal/diagnosis\<close>: the evidential basis of a claim (\<open>basis.go\<close>) and the confidence
  it admits (\<open>confidence.go\<close>).
\<close>

subsection \<open>How evidence bears on a claim\<close>

datatype evidence_relation =
    RelationUnspecified | RelationSupporting | RelationContradicting | RelationMissing
  | RelationBlocked | RelationOut nat

fun relation_valid :: "evidence_relation \<Rightarrow> bool" where
  "relation_valid RelationUnspecified = False"
| "relation_valid (RelationOut _) = False"
| "relation_valid _ = True"

fun relation_string :: "evidence_relation \<Rightarrow> string" where
  "relation_string RelationUnspecified = ''UNSPECIFIED''"
| "relation_string RelationSupporting = ''SUPPORTING''"
| "relation_string RelationContradicting = ''CONTRADICTING''"
| "relation_string RelationMissing = ''MISSING''"
| "relation_string RelationBlocked = ''BLOCKED''"
| "relation_string (RelationOut n) = ''EvidenceRelation('' @ show_nat (5 + n) @ '')''"

text \<open>\<open>EvidenceBasis\<close>, and \<open>BasisBuilder\<close>, which has the same fields.\<close>

record evidence_basis =
  eb_supporting :: "evidence_id list"
  eb_contradicting :: "evidence_id list"
  eb_blocked :: "evidence_id list"
  eb_missing :: "step_name list"

type_synonym basis_builder = evidence_basis

definition new_basis :: basis_builder where
  "new_basis = \<lparr>eb_supporting = [], eb_contradicting = [], eb_blocked = [], eb_missing = []\<rparr>"

definition basis_support :: "evidence_id list \<Rightarrow> basis_builder \<Rightarrow> basis_builder" where
  "basis_support ids b = b\<lparr>eb_supporting := eb_supporting b @ ids\<rparr>"

definition basis_contradict :: "evidence_id list \<Rightarrow> basis_builder \<Rightarrow> basis_builder" where
  "basis_contradict ids b = b\<lparr>eb_contradicting := eb_contradicting b @ ids\<rparr>"

definition basis_block :: "evidence_id list \<Rightarrow> basis_builder \<Rightarrow> basis_builder" where
  "basis_block ids b = b\<lparr>eb_blocked := eb_blocked b @ ids\<rparr>"

definition basis_miss :: "step_name list \<Rightarrow> basis_builder \<Rightarrow> basis_builder" where
  "basis_miss steps b = b\<lparr>eb_missing := eb_missing b @ steps\<rparr>"

definition basis_is_zero :: "evidence_basis \<Rightarrow> bool" where
  "basis_is_zero b \<longleftrightarrow> eb_supporting b = [] \<and> eb_contradicting b = [] \<and> eb_blocked b = []
     \<and> eb_missing b = []"

text \<open>The loops of the two normalisers: check each element, keep it when it is new.\<close>

fun keep_new :: "('a \<Rightarrow> bool) \<Rightarrow> 'a list \<Rightarrow> 'a list \<Rightarrow> diag_error + 'a list" where
  "keep_new ok out [] = Inr out"
| "keep_new ok out (x # xs) =
     (if \<not> ok x then Inl ErrInvalidBasis
      else keep_new ok (if x \<in> set out then out else out @ [x]) xs)"

definition normalize_basis_ids :: "graph \<Rightarrow> evidence_id list \<Rightarrow> diag_error + evidence_id list" where
  "normalize_basis_ids g ids =
     (if ids = [] then Inr []
      else rbind (keep_new (\<lambda>x. graph_node g x \<noteq> None) [] ids) (\<lambda>out. Inr (sort out)))"

definition normalize_missing :: "step_name list \<Rightarrow> diag_error + step_name list" where
  "normalize_missing steps =
     (if steps = [] then Inr []
      else rbind (keep_new step_valid [] steps) (\<lambda>out. Inr (sort out)))"

definition both_in :: "evidence_id list \<Rightarrow> evidence_id list \<Rightarrow> bool" where
  "both_in left right \<longleftrightarrow> list_ex (\<lambda>x. x \<in> set right) left"

definition basis_freeze :: "graph \<Rightarrow> basis_builder \<Rightarrow> diag_error + evidence_basis" where
  "basis_freeze g b =
     rbind (normalize_basis_ids g (eb_supporting b)) (\<lambda>supporting.
     rbind (normalize_basis_ids g (eb_contradicting b)) (\<lambda>contradicting.
     rbind (normalize_basis_ids g (eb_blocked b)) (\<lambda>blocked.
     if both_in supporting contradicting \<or> both_in supporting blocked \<or> both_in contradicting blocked
     then Inl ErrInvalidBasis
     else if list_ex (\<lambda>x. graph_blocked_by g x = []) blocked then Inl ErrInvalidBasis
     else if list_ex (\<lambda>x. graph_blocked_by g x \<noteq> []) (supporting @ contradicting)
     then Inl ErrInvalidBasis
     else rbind (normalize_missing (eb_missing b)) (\<lambda>missing.
       Inr \<lparr>eb_supporting = supporting, eb_contradicting = contradicting, eb_blocked = blocked,
         eb_missing = missing\<rparr>))))"

lemma keep_new_eq:
  "distinct out \<Longrightarrow> keep_new ok out xs =
     (if \<forall>x\<in>set xs. ok x then Inr (out @ dedup_from (set out) xs) else Inl ErrInvalidBasis)"
  by (induction xs arbitrary: out) (auto simp: insert_absorb)

lemma normalize_basis_ids_eq:
  "normalize_basis_ids g ids =
     (if \<forall>x\<in>set ids. graph_node g x \<noteq> None then Inr (sort (dedup ids)) else Inl ErrInvalidBasis)"
  by (auto simp: normalize_basis_ids_def keep_new_eq)

lemma normalize_missing_eq:
  "normalize_missing steps =
     (if \<forall>x\<in>set steps. step_valid x then Inr (sort (dedup steps)) else Inl ErrInvalidBasis)"
  by (auto simp: normalize_missing_def keep_new_eq)

text \<open>What a basis must be to freeze on a graph.\<close>

definition basis_ok :: "graph \<Rightarrow> evidence_basis \<Rightarrow> bool" where
  "basis_ok g b \<longleftrightarrow>
     (\<forall>x\<in>set (eb_supporting b) \<union> set (eb_contradicting b) \<union> set (eb_blocked b). graph_node g x \<noteq> None)
     \<and> set (eb_supporting b) \<inter> set (eb_contradicting b) = {}
     \<and> (\<forall>x\<in>set (eb_blocked b). graph_blocked_by g x \<noteq> [])
     \<and> (\<forall>x\<in>set (eb_supporting b) \<union> set (eb_contradicting b). graph_blocked_by g x = [])
     \<and> (\<forall>x\<in>set (eb_missing b). step_valid x)"

definition basis_normal :: "evidence_basis \<Rightarrow> evidence_basis" where
  "basis_normal b = \<lparr>eb_supporting = sort (dedup (eb_supporting b)),
     eb_contradicting = sort (dedup (eb_contradicting b)), eb_blocked = sort (dedup (eb_blocked b)),
     eb_missing = sort (dedup (eb_missing b))\<rparr>"

lemma basis_freeze_eq:
  "basis_freeze g b = (if basis_ok g b then Inr (basis_normal b) else Inl ErrInvalidBasis)"
proof -
  have both: "both_in (sort (dedup xs)) (sort (dedup ys)) \<longleftrightarrow> set xs \<inter> set ys \<noteq> {}" for xs ys
    by (auto simp: both_in_def list_ex_iff)
  have ex: "list_ex P (sort (dedup xs)) \<longleftrightarrow> (\<exists>x\<in>set xs. P x)"
    "list_ex P (sort (dedup xs) @ sort (dedup ys)) \<longleftrightarrow> (\<exists>x\<in>set xs \<union> set ys. P x)"
    for P and xs ys :: "evidence_id list"
    by (auto simp: list_ex_iff)
  show ?thesis
  proof (cases "basis_ok g b")
    case True
    then have "set (eb_supporting b) \<inter> set (eb_blocked b) = {}" "set (eb_contradicting b) \<inter> set (eb_blocked b) = {}"
      by (auto simp: basis_ok_def)
    then show ?thesis
      using True unfolding basis_freeze_def normalize_basis_ids_eq normalize_missing_eq
      by (simp add: both ex basis_ok_def basis_normal_def)
  next
    case False
    then consider
        "\<not> (\<forall>x\<in>set (eb_supporting b). graph_node g x \<noteq> None)"
      | "\<not> (\<forall>x\<in>set (eb_contradicting b). graph_node g x \<noteq> None)"
      | "\<not> (\<forall>x\<in>set (eb_blocked b). graph_node g x \<noteq> None)"
      | "set (eb_supporting b) \<inter> set (eb_contradicting b) \<noteq> {}"
      | "\<exists>x\<in>set (eb_blocked b). graph_blocked_by g x = []"
      | "\<exists>x\<in>set (eb_supporting b) \<union> set (eb_contradicting b). graph_blocked_by g x \<noteq> []"
      | "\<not> (\<forall>x\<in>set (eb_missing b). step_valid x)"
      unfolding basis_ok_def by blast
    then have "basis_freeze g b = Inl ErrInvalidBasis"
      unfolding basis_freeze_def normalize_basis_ids_eq normalize_missing_eq
      by cases (simp_all only: if_False rbind_simps both ex if_True simp_thms split: if_split)
    then show ?thesis using False by simp
  qed
qed

subsection \<open>Confidence\<close>

datatype authority = AuthorityNone | AuthorityDirect | AuthorityCompleteContrast | AuthorityOut nat

fun authority_valid :: "authority \<Rightarrow> bool" where
  "authority_valid (AuthorityOut _) = False"
| "authority_valid _ = True"

fun authority_string :: "authority \<Rightarrow> string" where
  "authority_string AuthorityNone = ''NONE''"
| "authority_string AuthorityDirect = ''DIRECT''"
| "authority_string AuthorityCompleteContrast = ''COMPLETE_CONTRAST''"
| "authority_string (AuthorityOut n) = ''Authority('' @ show_nat (3 + n) @ '')''"

definition admit_confidence :: "finding_kind \<Rightarrow> authority \<Rightarrow> evidence_basis \<Rightarrow> diag_error + confidence" where
  "admit_confidence kind auth basis =
     (if \<not> finding_kind_valid kind then Inl (ErrDomain ErrInvalidValue)
      else if \<not> authority_valid auth then Inl (ErrDomain ErrInvalidValue)
      else if length (eb_supporting basis) = 0 then Inl ErrUnsupportedClaim
      else if auth = AuthorityCompleteContrast \<and> 0 < length (eb_missing basis)
      then Inl ErrInvalidBasis
      else if 0 < length (eb_contradicting basis) then Inr ConfidenceLow
      else case auth of
          AuthorityDirect \<Rightarrow> Inr ConfidenceHigh
        | AuthorityCompleteContrast \<Rightarrow>
            if kind = FindingKindConfirmed then Inr ConfidenceHigh else Inr ConfidenceMedium
        | AuthorityNone \<Rightarrow>
            if 2 \<le> length (eb_supporting basis) then Inr ConfidenceMedium else Inr ConfidenceLow
        | AuthorityOut _ \<Rightarrow> Inl (ErrDomain ErrInvalidValue))"

subsection \<open>Properties\<close>

text \<open>\<open>Freeze\<close> accepts a basis on a frozen graph exactly when every id it cites is a node, no
  id both supports and contradicts, the ids cited as blocked are blocked in the graph, no supporting
  or contradicting id is, and the missing steps are steps. The frozen basis cites the same ids and
  steps, sorted and once; its three sets of ids are disjoint, what it cites as blocked is SKIPPED
  evidence, and freezing it again changes nothing.\<close>

theorem basis_freeze_exact:
  assumes "graph_wf g"
  shows "case basis_freeze g b of
      Inl e \<Rightarrow> e = ErrInvalidBasis \<and> \<not> basis_ok g b
    | Inr r \<Rightarrow> basis_ok g b \<and> r = basis_normal b
        \<and> set (eb_supporting r) \<inter> set (eb_contradicting r) = {}
        \<and> set (eb_supporting r) \<inter> set (eb_blocked r) = {}
        \<and> set (eb_contradicting r) \<inter> set (eb_blocked r) = {}
        \<and> (\<forall>x\<in>set (eb_blocked r). \<exists>e. graph_node g x = Some e \<and> ev_state e = StateSkipped)
        \<and> basis_freeze g r = Inr r"
proof (cases "basis_ok g b")
  case True
  have ok: "basis_ok g (basis_normal b)"
    using True by (simp add: basis_ok_def basis_normal_def)
  have norm: "basis_normal (basis_normal b) = basis_normal b"
    by (simp add: basis_normal_def sort_dedup_sorted)
  have "\<exists>e. graph_node g x = Some e \<and> ev_state e = StateSkipped" if x: "x \<in> set (eb_blocked b)" for x
  proof -
    have "graph_node g x \<noteq> None"
      using True x by (auto simp: basis_ok_def)
    then obtain e where e: "graph_node g x = Some e" by blast
    have "graph_blocked_by g x \<noteq> []"
      using True x by (simp add: basis_ok_def)
    then show ?thesis
      using graph_view.blocked_skipped [OF assms e] e by simp
  qed
  then show ?thesis
    using True ok norm by (auto simp: basis_freeze_eq) (auto simp: basis_ok_def basis_normal_def)
qed (simp add: basis_freeze_eq)

definition demo_basis :: basis_builder where
  "demo_basis = basis_block [''tls''] (basis_contradict [''dns''] (basis_support [''tcp'', ''tcp''] new_basis))"

theorem basis_freeze_exact_witness:
  "\<exists>r. basis_freeze demo_graph demo_basis = Inr r \<and> eb_supporting r = [''tcp'']
     \<and> basis_freeze demo_graph r = Inr r
     \<and> basis_freeze demo_graph (basis_support [''tls''] new_basis) = Inl ErrInvalidBasis"
proof -
  have b: "demo_basis = \<lparr>eb_supporting = [''tcp'', ''tcp''], eb_contradicting = [''dns''],
      eb_blocked = [''tls''], eb_missing = []\<rparr>"
    by (simp add: demo_basis_def basis_block_def basis_contradict_def basis_support_def new_basis_def)
  have nodes: "graph_node demo_graph ''tcp'' \<noteq> None" "graph_node demo_graph ''dns'' \<noteq> None"
    "graph_node demo_graph ''tls'' \<noteq> None"
    by (simp_all add: graph_node_def demo_graph_def demo_builder_def)
  have ok: "basis_ok demo_graph demo_basis"
    using nodes by (simp add: b basis_ok_def demo_graph_blocked)
  have bad: "\<not> basis_ok demo_graph (basis_support [''tls''] new_basis)"
    by (simp add: basis_ok_def demo_graph_blocked basis_support_def new_basis_def)
  have "\<exists>r. basis_freeze demo_graph demo_basis = Inr r \<and> r = basis_normal demo_basis
      \<and> basis_freeze demo_graph r = Inr r"
    using basis_freeze_exact [OF demo_graph_wf, of demo_basis] ok by (simp split: sum.splits)
  moreover have "basis_freeze demo_graph (basis_support [''tls''] new_basis) = Inl ErrInvalidBasis"
    using basis_freeze_exact [OF demo_graph_wf, of "basis_support [''tls''] new_basis"] bad
    by (simp split: sum.splits)
  moreover have "eb_supporting (basis_normal demo_basis) = [''tcp'']"
    by (simp add: basis_normal_def b)
  ultimately show ?thesis by auto
qed

text \<open>C28: \<open>AdmitConfidence\<close> gives HIGH exactly to an uncontradicted claim with support whose authority
  is direct, or complete contrast for a CONFIRMED claim with nothing missing. Contradiction only
  lowers a confidence, more than two supporting ids change nothing, and missing steps either change
  nothing or make the declared authority an error.\<close>

theorem admit_confidence_ladder:
  "(admit_confidence kind auth b = Inr ConfidenceHigh \<longleftrightarrow>
      finding_kind_valid kind \<and> eb_supporting b \<noteq> [] \<and> eb_contradicting b = []
      \<and> (auth = AuthorityDirect
         \<or> auth = AuthorityCompleteContrast \<and> kind = FindingKindConfirmed \<and> eb_missing b = []))
   \<and> (\<forall>xs c d. admit_confidence kind auth b = Inr c
        \<and> admit_confidence kind auth (b\<lparr>eb_contradicting := eb_contradicting b @ xs\<rparr>) = Inr d \<longrightarrow> d \<le> c)
   \<and> (\<forall>xs. 2 \<le> length (eb_supporting b) \<longrightarrow>
        admit_confidence kind auth (b\<lparr>eb_supporting := eb_supporting b @ xs\<rparr>) = admit_confidence kind auth b)
   \<and> (\<forall>steps c. admit_confidence kind auth (b\<lparr>eb_missing := steps\<rparr>) = Inr c \<longrightarrow>
        admit_confidence kind auth (b\<lparr>eb_missing := []\<rparr>) = Inr c)
   \<and> admit_confidence kind auth b \<noteq> Inr ConfidenceUnspecified"
proof (cases auth)
  case AuthorityNone
  then show ?thesis
    by (auto simp: admit_confidence_def less_eq_confidence_def)
next
  case AuthorityDirect
  then show ?thesis
    by (auto simp: admit_confidence_def less_eq_confidence_def)
next
  case AuthorityCompleteContrast
  then show ?thesis
    by (auto simp: admit_confidence_def less_eq_confidence_def)
next
  case (AuthorityOut n)
  then show ?thesis
    by (auto simp: admit_confidence_def)
qed

theorem admit_confidence_ladder_witness:
  "admit_confidence FindingKindConfirmed AuthorityDirect (basis_support [''tcp''] new_basis) = Inr ConfidenceHigh
   \<and> admit_confidence FindingKindHypothesis AuthorityCompleteContrast (basis_support [''tcp''] new_basis)
       \<noteq> Inr ConfidenceHigh"
  using admit_confidence_ladder [of FindingKindConfirmed AuthorityDirect "basis_support [''tcp''] new_basis"]
    admit_confidence_ladder [of FindingKindHypothesis AuthorityCompleteContrast "basis_support [''tcp''] new_basis"]
  by (simp add: basis_support_def new_basis_def finding_kind_valid_def)

end
