(* ===== verification/GoInt.thy ===== *)
theory GoInt
  imports GoText
begin

text \<open>
  Go's 64-bit signed integers as \<open>int\<close> with the wrap-around written out, and
  \<open>strconv.ParseInt(s, 10, 64)\<close>, which \<open>strconv.Atoi\<close> agrees with where \<open>int\<close> has 64 bits.
\<close>

definition int64 :: "int \<Rightarrow> int" where
  "int64 x = (x + 2 ^ 63) mod 2 ^ 64 - 2 ^ 63"

definition in_int64 :: "int \<Rightarrow> bool" where
  "in_int64 x \<longleftrightarrow> - (2 ^ 63) \<le> x \<and> x < 2 ^ 63"

lemma int64_id: "in_int64 x \<Longrightarrow> int64 x = x"
  by (simp add: int64_def in_int64_def)

lemma in_int64_int64: "in_int64 (int64 x)"
  using pos_mod_bound [of "2 ^ 64" "x + 2 ^ 63"] pos_mod_sign [of "2 ^ 64" "x + 2 ^ 63"]
  by (simp add: int64_def in_int64_def)

lemma int64_overflow: "2 ^ 63 \<le> x \<Longrightarrow> x < 2 ^ 63 + 2 ^ 63 \<Longrightarrow> int64 x = x - 2 ^ 64"
  using mod_pos_pos_trivial [of "x - 2 ^ 63" "2 ^ 64 :: int"] mod_add_self2 [of "x - 2 ^ 63" "2 ^ 64 :: int"]
  by (simp add: int64_def add.commute)

definition unsigned_digits :: "string \<Rightarrow> nat option" where
  "unsigned_digits s = (if s \<noteq> [] \<and> list_all is_digit s then Some (decimal_value s) else None)"

definition split_sign :: "string \<Rightarrow> bool \<times> string" where
  "split_sign s = (case s of [] \<Rightarrow> (False, [])
     | c # cs \<Rightarrow> if c = CHR ''-'' then (True, cs) else if c = CHR ''+'' then (False, cs) else (False, s))"

definition parse_int64 :: "string \<Rightarrow> int option" where
  "parse_int64 s = (case unsigned_digits (snd (split_sign s)) of
       None \<Rightarrow> None
     | Some n \<Rightarrow>
         let v = if fst (split_sign s) then - int n else int n
         in if in_int64 v then Some v else None)"

lemma parse_int64_range: "parse_int64 s = Some v \<Longrightarrow> in_int64 v"
  by (auto simp: parse_int64_def Let_def split: option.splits if_splits)

lemma parse_int64_chars:
  assumes "parse_int64 s = Some v"
  shows "\<forall>c\<in>set s. is_digit c \<or> c = CHR ''-'' \<or> c = CHR ''+''"
proof -
  have "list_all is_digit (snd (split_sign s))"
    using assms by (auto simp: parse_int64_def unsigned_digits_def split: option.splits if_splits)
  then show ?thesis
    by (cases s) (auto simp: split_sign_def list_all_iff split: if_splits)
qed

lemma parse_int64_show_nat [simp]:
  assumes "n < 2 ^ 63"
  shows "parse_int64 (show_nat n) = Some (int n)"
proof -
  obtain c cs where s: "show_nat n = c # cs"
    by (cases "show_nat n") auto
  have d: "list_all is_digit (show_nat n)" by (rule show_nat_digits)
  then have "is_digit c" by (simp add: s)
  then have "c \<noteq> CHR ''-''" "c \<noteq> CHR ''+''" by (auto simp: is_digit_def)
  then have "split_sign (show_nat n) = (False, show_nat n)"
    by (simp add: s split_sign_def)
  then show ?thesis
    using assms d by (simp add: parse_int64_def unsigned_digits_def in_int64_def)
qed

end
