(* ===== verification/NetAddr.thy ===== *)
theory NetAddr
  imports GoText GoInt
begin

text \<open>
  Which texts \<open>netip.ParseAddr\<close> accepts, and the endpoint references of
  \<open>internal/security/redaction/pseudonym.go\<close>: \<open>host:port\<close> with brackets around a host that has a
  colon.
\<close>

subsection \<open>\<open>netip.ParseAddr\<close>\<close>

text \<open>Dotted decimal: four octets without leading zeros.\<close>

definition octet_ok :: "string \<Rightarrow> bool" where
  "octet_ok s \<longleftrightarrow> s \<noteq> [] \<and> list_all is_digit s \<and> length s \<le> 3 \<and> decimal_value s \<le> 255
     \<and> (hd s = CHR ''0'' \<longrightarrow> length s = 1)"

definition parse_ipv4 :: "string \<Rightarrow> bool" where
  "parse_ipv4 s \<longleftrightarrow> (let parts = split_on (CHR ''.'') s in length parts = 4 \<and> list_all octet_ok parts)"

definition is_hex :: "char \<Rightarrow> bool" where
  "is_hex c \<longleftrightarrow> is_digit c \<or> (97 \<le> code c \<and> code c \<le> 102) \<or> (65 \<le> code c \<and> code c \<le> 70)"

text \<open>The groups of an IPv6 address, from \<open>i\<close> bytes already read and with or without an ellipsis seen.
  A group has at most four hexadecimal digits; a dotted quad may stand for the last four bytes; an
  ellipsis stands for at least one group.\<close>

definition v6_complete :: "bool \<Rightarrow> nat \<Rightarrow> bool" where
  "v6_complete ellipsis i \<longleftrightarrow> (if i < 16 then ellipsis else \<not> ellipsis)"

function v6_groups :: "bool \<Rightarrow> nat \<Rightarrow> string \<Rightarrow> bool" where
  "v6_groups ellipsis i s =
     (if 16 \<le> i then s = [] \<and> v6_complete ellipsis i
      else let digits = takeWhile is_hex s; rest = dropWhile is_hex s in
        if digits = [] \<or> 4 < length digits then False
        else (case rest of
            [] \<Rightarrow> v6_complete ellipsis (i + 2)
          | c # more \<Rightarrow>
              if c = CHR ''.'' then
                (if \<not> ellipsis \<and> i \<noteq> 12 then False
                 else if 16 < i + 4 then False
                 else parse_ipv4 s \<and> v6_complete ellipsis (i + 4))
              else if c \<noteq> CHR '':'' then False
              else (case more of
                  [] \<Rightarrow> False
                | d # more' \<Rightarrow>
                    if d = CHR '':'' then
                      (if ellipsis then False
                       else if more' = [] then v6_complete True (i + 2)
                       else v6_groups True (i + 2) more')
                    else v6_groups ellipsis (i + 2) more)))"
  by pat_completeness auto
termination v6_groups
proof (relation "measure (\<lambda>(ellipsis, i, s). length s)", goal_cases)
  case (2 ellipsis i s digits rest c more d more')
  then have "dropWhile is_hex s = c # d # more'" by simp
  then show ?case using length_dropWhile_le [of is_hex s] by simp
next
  case (3 ellipsis i s digits rest c more d more')
  then have "dropWhile is_hex s = c # d # more'" by simp
  then show ?case using 3 length_dropWhile_le [of is_hex s] by simp
qed simp

declare v6_groups.simps [simp del]

definition parse_ipv6 :: "string \<Rightarrow> bool" where
  "parse_ipv6 text =
     (case cut_at (CHR ''%'') text of (s, zone, found) \<Rightarrow>
        if found \<and> zone = [] then False
        else if has_prefix s ''::'' then drop 2 s = [] \<or> v6_groups True 0 (drop 2 s)
        else v6_groups False 0 s)"

fun parse_addr_from :: "string \<Rightarrow> string \<Rightarrow> bool" where
  "parse_addr_from text [] = False"
| "parse_addr_from text (c # s) =
     (if c = CHR ''.'' then parse_ipv4 text
      else if c = CHR '':'' then parse_ipv6 text
      else if c = CHR ''%'' then False
      else parse_addr_from text s)"

definition parse_addr :: "string \<Rightarrow> bool" where
  "parse_addr text = parse_addr_from text text"

subsection \<open>Endpoint references\<close>

text \<open>\<open>strings.LastIndex\<close> of a byte: what is before and after its last occurrence.\<close>

fun cut_last :: "char \<Rightarrow> string \<Rightarrow> (string \<times> string) option" where
  "cut_last d [] = None"
| "cut_last d (c # s) =
     (case cut_last d s of
        Some (a, b) \<Rightarrow> Some (c # a, b)
      | None \<Rightarrow> if c = d then Some ([], s) else None)"

definition endpoint_parts :: "string \<Rightarrow> string \<times> string \<times> bool" where
  "endpoint_parts ref =
     (if has_prefix ref ''['' then
        (case cut_last (CHR '']'') ref of
           None \<Rightarrow> (ref, [], False)
         | Some (inside, rest) \<Rightarrow>
             if \<not> has_prefix rest '':'' then (ref, [], False)
             else (drop 1 inside, drop 1 rest, True))
      else
        (case cut_last (CHR '':'') ref of
           None \<Rightarrow> (ref, [], False)
         | Some (host, port) \<Rightarrow>
             if CHR '':'' \<in> set host then (ref, [], False) else (host, port, True)))"

definition valid_port :: "string \<Rightarrow> bool" where
  "valid_port p \<longleftrightarrow>
     (if p = [] then False
      else (case parse_int64 p of None \<Rightarrow> False | Some n \<Rightarrow> 0 < n \<and> n \<le> 65535))"

definition looks_like_endpoint :: "string \<Rightarrow> bool" where
  "looks_like_endpoint s \<longleftrightarrow>
     (case endpoint_parts s of (host, port, has_port) \<Rightarrow> has_port \<and> host \<noteq> [] \<and> valid_port port)"

definition join_host_port :: "string \<Rightarrow> string \<Rightarrow> string" where
  "join_host_port host port =
     (if CHR '':'' \<in> set host then ''['' @ host @ '']:'' @ port else host @ '':'' @ port)"

lemma cut_last_None: "cut_last d s = None \<longleftrightarrow> d \<notin> set s"
  by (induction s) (auto split: option.splits)

lemma cut_last_Some: "cut_last d s = Some (a, b) \<longleftrightarrow> s = a @ d # b \<and> d \<notin> set b"
proof (induction s arbitrary: a)
  case (Cons c s)
  show ?case
  proof (cases "d \<in> set s")
    case False
    then show ?thesis
      using cut_last_None [of d s] by (cases a) auto
  next
    case True
    then obtain u v where "cut_last d s = Some (u, v)" using cut_last_None [of d s] by force
    then show ?thesis
      using Cons.IH True by (cases a) auto
  qed
qed simp

end
