(* ===== verification/NetIp.thy ===== *)
theory NetIp
  imports NetAddr Names "HOL-Library.List_Lexorder"
begin

text \<open>
  Addresses of package \<open>net/netip\<close> as values: what \<open>ParseAddr\<close> reads, what \<open>String\<close> writes,
  \<open>Unmap\<close>, \<open>Compare\<close> and \<open>AddrPort\<close>, as far as the probes use them. An IPv4 address is its four
  octets, an IPv6 address its eight groups of 16 bits and its zone.

  The lemmas show that parsing accepts exactly the texts of \<open>parse_addr\<close> and that it reads back
  what \<open>String\<close> writes of an address.
\<close>

subsection \<open>Addresses\<close>

datatype ip_addr = IP4 "nat list" | IP6 "nat list" string

fun ip_ok :: "ip_addr \<Rightarrow> bool" where
  "ip_ok (IP4 octets) \<longleftrightarrow> length octets = 4 \<and> list_all (\<lambda>b. b < 256) octets"
| "ip_ok (IP6 groups zone) \<longleftrightarrow> length groups = 8 \<and> list_all (\<lambda>g. g < 65536) groups"

fun ip_zone :: "ip_addr \<Rightarrow> string" where
  "ip_zone (IP4 octets) = []"
| "ip_zone (IP6 groups zone) = zone"

definition mapped_prefix :: "nat list" where
  "mapped_prefix = [0, 0, 0, 0, 0, 65535]"

definition octets_of :: "nat list \<Rightarrow> nat list" where
  "octets_of groups = concat (map (\<lambda>g. [g div 256, g mod 256]) groups)"

fun is_4in6 :: "ip_addr \<Rightarrow> bool" where
  "is_4in6 (IP4 octets) = False"
| "is_4in6 (IP6 groups zone) = (take 6 groups = mapped_prefix)"

fun unmap :: "ip_addr \<Rightarrow> ip_addr" where
  "unmap (IP4 octets) = IP4 octets"
| "unmap (IP6 groups zone) =
     (if take 6 groups = mapped_prefix then IP4 (octets_of (drop 6 groups)) else IP6 groups zone)"

text \<open>\<open>Compare\<close>: IPv4 before IPv6, then the address, then the zone.\<close>

fun compare_ip :: "ip_addr \<Rightarrow> ip_addr \<Rightarrow> int" where
  "compare_ip (IP4 a) (IP4 b) = go_compare a b"
| "compare_ip (IP4 a) (IP6 b z) = - 1"
| "compare_ip (IP6 a y) (IP4 b) = 1"
| "compare_ip (IP6 a y) (IP6 b z) = cmp_then (go_compare a b) (go_compare y z)"

interpretation ip_order: comparator compare_ip
proof (unfold_locales, goal_cases)
  case (1 x y)
  then show ?case by (cases x; cases y) (auto simp: go_compare_def cmp_then_def)
next
  case (2 x y z)
  then show ?case
    by (cases x; cases y; cases z) (auto simp: go_compare_def cmp_then_def split: if_splits)
qed

lemma compare_ip_zero [simp]: "compare_ip a b = 0 \<longleftrightarrow> a = b"
  by (cases a; cases b) auto

subsection \<open>\<open>String\<close>\<close>

definition hex_char :: "nat \<Rightarrow> char" where
  "hex_char d = (if d < 10 then digit_char d else char_of (87 + d))"

fun show_hex :: "nat \<Rightarrow> string" where
  "show_hex n = (if n < 16 then [hex_char n] else show_hex (n div 16) @ [hex_char (n mod 16)])"

declare show_hex.simps [simp del]

text \<open>The longest run of at least two zero groups, the first of that length: where it starts and
  how long it is.\<close>

definition zeros_at :: "nat list \<Rightarrow> nat \<Rightarrow> nat" where
  "zeros_at groups i = length (takeWhile (\<lambda>g. g = 0) (drop i groups))"

definition longer_run :: "nat list \<Rightarrow> nat \<Rightarrow> nat \<times> nat \<Rightarrow> nat \<times> nat" where
  "longer_run groups i best =
     (let l = zeros_at groups i in if 2 \<le> l \<and> snd best < l then (i, l) else best)"

definition zero_run :: "nat list \<Rightarrow> nat \<times> nat" where
  "zero_run groups = fold (longer_run groups) [0..<8] (8, 0)"

definition hex_groups :: "nat list \<Rightarrow> string" where
  "hex_groups groups = join_with '':'' (map show_hex groups)"

definition v6_text :: "nat list \<Rightarrow> string" where
  "v6_text groups =
     (case zero_run groups of (start, l) \<Rightarrow>
        if l = 0 then hex_groups groups
        else hex_groups (take start groups) @ ''::'' @ hex_groups (drop (start + l) groups))"

definition v4_text :: "nat list \<Rightarrow> string" where
  "v4_text octets = join_with ''.'' (map show_nat octets)"

definition zone_text :: "string \<Rightarrow> string" where
  "zone_text zone = (if zone = [] then [] else CHR ''%'' # zone)"

fun ip_string :: "ip_addr \<Rightarrow> string" where
  "ip_string (IP4 octets) = v4_text octets"
| "ip_string (IP6 groups zone) =
     (if take 6 groups = mapped_prefix then ''::ffff:'' @ v4_text (octets_of (drop 6 groups))
      else v6_text groups) @ zone_text zone"

subsection \<open>\<open>ParseAddr\<close>\<close>

definition hex_value :: "string \<Rightarrow> nat" where
  "hex_value s = foldl (\<lambda>acc c. acc * 16 +
     (if is_digit c then code c - 48 else if 97 \<le> code c then code c - 87 else code c - 55)) 0 s"

definition v4_octets :: "string \<Rightarrow> nat list option" where
  "v4_octets s = (if parse_ipv4 s then Some (map decimal_value (split_on (CHR ''.'') s)) else None)"

text \<open>The groups read, with the place of the ellipsis filled by zeros.\<close>

definition fill_ellipsis :: "nat option \<Rightarrow> nat list \<Rightarrow> nat list option" where
  "fill_ellipsis ellipsis groups =
     (case ellipsis of
        None \<Rightarrow> if length groups < 8 then None else Some groups
      | Some k \<Rightarrow>
          if length groups < 8
          then Some (take k groups @ replicate (8 - length groups) 0 @ drop k groups) else None)"

definition paired :: "nat list \<Rightarrow> nat list" where
  "paired octets = (case octets of [a, b, c, d] \<Rightarrow> [a * 256 + b, c * 256 + d] | _ \<Rightarrow> [])"

function v6_values :: "nat option \<Rightarrow> nat list \<Rightarrow> string \<Rightarrow> nat list option" where
  "v6_values ellipsis groups s =
     (if 8 \<le> length groups then (if s = [] then fill_ellipsis ellipsis groups else None)
      else let digits = takeWhile is_hex s; rest = dropWhile is_hex s;
               groups' = groups @ [hex_value digits] in
        if digits = [] \<or> 4 < length digits then None
        else (case rest of
            [] \<Rightarrow> fill_ellipsis ellipsis groups'
          | c # more \<Rightarrow>
              if c = CHR ''.'' then
                (if ellipsis = None \<and> length groups \<noteq> 6 then None
                 else if 8 < length groups + 2 then None
                 else (case v4_octets s of
                     None \<Rightarrow> None
                   | Some octets \<Rightarrow> fill_ellipsis ellipsis (groups @ paired octets)))
              else if c \<noteq> CHR '':'' then None
              else (case more of
                  [] \<Rightarrow> None
                | d # more' \<Rightarrow>
                    if d = CHR '':'' then
                      (if ellipsis \<noteq> None then None
                       else if more' = [] then fill_ellipsis (Some (length groups')) groups'
                       else v6_values (Some (length groups')) groups' more')
                    else v6_values ellipsis groups' more)))"
  by pat_completeness auto
termination v6_values
proof (relation "measure (\<lambda>(ellipsis, groups, s). length s)", goal_cases)
  case (2 ellipsis groups s digits rest groups' c more d more')
  then have "dropWhile is_hex s = c # d # more'" by simp
  then show ?case using length_dropWhile_le [of is_hex s] by simp
next
  case (3 ellipsis groups s digits rest groups' c more d more')
  then have "dropWhile is_hex s = c # d # more'" by simp
  then show ?case using 3 length_dropWhile_le [of is_hex s] by simp
qed simp

declare v6_values.simps [simp del]

definition parse_ip6 :: "string \<Rightarrow> ip_addr option" where
  "parse_ip6 txt =
     (case cut_at (CHR ''%'') txt of (s, zone, found) \<Rightarrow>
        if found \<and> zone = [] then None
        else map_option (\<lambda>groups. IP6 groups zone)
          (if has_prefix s ''::'' then
             (if drop 2 s = [] then Some (replicate 8 0) else v6_values (Some 0) [] (drop 2 s))
           else v6_values None [] s))"

fun parse_ip_from :: "string \<Rightarrow> string \<Rightarrow> ip_addr option" where
  "parse_ip_from txt [] = None"
| "parse_ip_from txt (c # s) =
     (if c = CHR ''.'' then map_option IP4 (v4_octets txt)
      else if c = CHR '':'' then parse_ip6 txt
      else if c = CHR ''%'' then None
      else parse_ip_from txt s)"

definition parse_ip :: "string \<Rightarrow> ip_addr option" where
  "parse_ip txt = parse_ip_from txt txt"

text \<open>The zero \<open>Addr\<close> is \<open>None\<close>; \<open>AddrPort\<close> may hold it.\<close>

definition addr_string :: "ip_addr option \<Rightarrow> string" where
  "addr_string a = (case a of None \<Rightarrow> ''invalid IP'' | Some ip \<Rightarrow> ip_string ip)"

record addr_port =
  ap_addr :: "ip_addr option"
  ap_port :: nat

definition addr_port_string :: "addr_port \<Rightarrow> string" where
  "addr_port_string a =
     (case ap_addr a of
        None \<Rightarrow> ''invalid AddrPort''
      | Some (IP4 octets) \<Rightarrow> ip_string (IP4 octets) @ '':'' @ show_nat (ap_port a)
      | Some (IP6 groups zone) \<Rightarrow> ''['' @ ip_string (IP6 groups zone) @ '']:'' @ show_nat (ap_port a))"

text \<open>\<open>AddrFromSlice\<close>.\<close>

fun join_octets :: "nat list \<Rightarrow> nat list" where
  "join_octets (a # b # bs) = (a * 256 + b) # join_octets bs"
| "join_octets bs = []"

definition addr_from_slice :: "nat list \<Rightarrow> ip_addr option" where
  "addr_from_slice bs =
     (if length bs = 4 then Some (IP4 bs)
      else if length bs = 16 then Some (IP6 (join_octets bs) []) else None)"

text \<open>\<open>slices.SortFunc\<close> with \<open>Compare\<close>, then \<open>slices.Compact\<close>.\<close>

definition canonical_ips :: "ip_addr list \<Rightarrow> ip_addr list" where
  "canonical_ips ips = remdups_adj (go_sort compare_ip ips)"

subsection \<open>Parsing accepts the texts of \<open>parse_addr\<close>\<close>

lemma fill_ellipsis_complete:
  "fill_ellipsis ellipsis groups \<noteq> None \<longleftrightarrow> v6_complete (ellipsis \<noteq> None) (2 * length groups)"
  by (auto simp: fill_ellipsis_def v6_complete_def split: option.splits)

lemma parse_ipv4_split: "parse_ipv4 s \<Longrightarrow> \<exists>a b c d. split_on (CHR ''.'') s = [a, b, c, d]"
  by (auto simp: parse_ipv4_def Let_def length_Suc_conv numeral_eq_Suc)

lemma v4_octets_paired: "v4_octets s = Some octets \<Longrightarrow> length (paired octets) = 2"
  using parse_ipv4_split [of s] by (auto simp: v4_octets_def paired_def split: if_splits)

lemma v4_octets_None: "v4_octets s = None \<longleftrightarrow> \<not> parse_ipv4 s"
  by (simp add: v4_octets_def)

lemma v6_values_accepts:
  "v6_values ellipsis groups s \<noteq> None \<longleftrightarrow> v6_groups (ellipsis \<noteq> None) (2 * length groups) s"
proof (induction ellipsis groups s rule: v6_values.induct)
  case (1 ellipsis groups s)
  show ?case
  proof (cases "8 \<le> length groups")
    case True
    then show ?thesis
      using fill_ellipsis_complete [of ellipsis groups]
      by (simp del: not_None_eq add: v6_values.simps [of ellipsis groups s] v6_groups.simps [of "ellipsis \<noteq> None" "2 * length groups" s])
  next
    case few: False
    define digits where "digits = takeWhile is_hex s"
    define rest where "rest = dropWhile is_hex s"
    define groups' where "groups' = groups @ [hex_value digits]"
    have len4: "4 + 2 * length groups = Suc (Suc (2 * length groups'))" "2 * length groups + 4 = Suc (Suc (2 * length groups'))"
      by (simp_all add: groups'_def)
    have seven: "7 < length groups' \<longleftrightarrow> 6 < length groups" by (simp add: groups'_def)
    have len: "Suc (Suc (2 * length groups)) = 2 * length groups'" by (simp add: groups'_def)
    note unfold = v6_values.simps [of ellipsis groups s] v6_groups.simps [of "ellipsis \<noteq> None" "2 * length groups" s]
      digits_def [symmetric] rest_def [symmetric] groups'_def [symmetric] Let_def len
    show ?thesis
    proof (cases "digits = [] \<or> 4 < length digits")
      case True
      then show ?thesis using few by (simp del: not_None_eq add: unfold)
    next
      case ok: False
      show ?thesis
      proof (cases rest)
        case Nil
        then show ?thesis using few ok fill_ellipsis_complete [of ellipsis groups'] by (simp del: not_None_eq add: unfold)
      next
        case (Cons c more)
        show ?thesis
        proof (cases "c = CHR ''.''")
          case True
          then show ?thesis
            using few ok Cons fill_ellipsis_complete [of ellipsis "groups @ paired (the (v4_octets s))"]
              v4_octets_paired [of s] v4_octets_None [of s]
            by (cases "v4_octets s") (simp_all del: not_None_eq add: unfold len4 seven)
        next
          case nodot: False
          show ?thesis
          proof (cases "c = CHR '':''")
            case False
            then show ?thesis using few ok Cons nodot by (simp del: not_None_eq add: unfold)
          next
            case colon: True
            show ?thesis
            proof (cases more)
              case Nil
              then show ?thesis using few ok Cons colon by (simp del: not_None_eq add: unfold)
            next
              case (Cons d more')
              note ih = 1 [OF few digits_def rest_def groups'_def ok \<open>rest = c # more\<close> nodot _ Cons]
              show ?thesis
              proof (cases "d = CHR '':''")
                case True
                then show ?thesis
                  using few ok \<open>rest = c # more\<close> Cons colon ih(1) fill_ellipsis_complete [of "Some (length groups')" groups']
                  by (auto simp del: not_None_eq simp: unfold)
              next
                case False
                then show ?thesis
                  using few ok \<open>rest = c # more\<close> Cons colon ih(2) by (simp del: not_None_eq add: unfold)
              qed
            qed
          qed
        qed
      qed
    qed
  qed
qed

lemma parse_ip_from_accepts: "parse_ip_from txt s \<noteq> None \<longleftrightarrow> parse_addr_from txt s"
proof (induction s)
  case (Cons c s)
  have v6: "parse_ip6 txt \<noteq> None \<longleftrightarrow> parse_ipv6 txt"
    using v6_values_accepts [of "Some 0" "[]"] v6_values_accepts [of None "[]"]
    by (auto simp: parse_ip6_def parse_ipv6_def split: prod.splits)
  show ?case
    using Cons v6 by (simp add: v4_octets_def)
qed simp

lemma parse_ip_accepts: "parse_ip txt \<noteq> None \<longleftrightarrow> parse_addr txt"
  unfolding parse_ip_def parse_addr_def by (rule parse_ip_from_accepts)

subsection \<open>Parsing reads back what \<open>String\<close> writes\<close>

lemma hex_char_facts:
  assumes "d < 16"
  shows "is_hex (hex_char d)"
    "(if is_digit (hex_char d) then code (hex_char d) - 48
      else if 97 \<le> code (hex_char d) then code (hex_char d) - 87 else code (hex_char d) - 55) = d"
  using assms by (auto simp: hex_char_def is_hex_def digit_char_def is_digit_def)

lemma hex_value_show_hex [simp]: "hex_value (show_hex n) = n"
proof (induction n rule: show_hex.induct)
  case (1 n)
  then show ?case
    by (cases "n < 16") (simp_all only: show_hex.simps [of n] hex_value_def if_True if_False foldl_append
        foldl_Cons foldl_Nil hex_char_facts(2) mod_less_divisor, simp_all)
qed

lemma show_hex_hex: "list_all is_hex (show_hex n)"
proof (induction n rule: show_hex.induct)
  case (1 n)
  then show ?case
    by (cases "n < 16") (simp_all add: show_hex.simps [of n] hex_char_facts)
qed

lemma show_hex_nonempty [simp]: "show_hex n \<noteq> []"
  by (subst show_hex.simps) simp

lemma show_hex_length: "n < 16 ^ k \<Longrightarrow> 0 < k \<Longrightarrow> length (show_hex n) \<le> k"
proof (induction k arbitrary: n)
  case (Suc k)
  show ?case
  proof (cases "n < 16")
    case False
    then have "0 < k" using Suc.prems by (cases k) auto
    moreover have "n div 16 < 16 ^ k" using Suc.prems by (simp add: less_mult_imp_div_less mult.commute)
    ultimately have "length (show_hex (n div 16)) \<le> k" by (rule Suc.IH [rotated])
    then show ?thesis using False by (simp add: show_hex.simps [of n])
  qed (simp add: show_hex.simps [of n])
qed simp

lemma show_hex_group: "g < 65536 \<Longrightarrow> length (show_hex g) \<le> 4"
  by (rule show_hex_length) simp_all

lemma not_hex [simp]: "\<not> is_hex (CHR '':'')" "\<not> is_hex (CHR ''.'')" "\<not> is_hex (CHR ''%'')"
  by (simp_all add: is_hex_def is_digit_def)

lemma take_hex [simp]:
  "takeWhile is_hex (show_hex g @ CHR '':'' # s) = show_hex g"
  "dropWhile is_hex (show_hex g @ CHR '':'' # s) = CHR '':'' # s"
  "takeWhile is_hex (show_hex g) = show_hex g" "dropWhile is_hex (show_hex g) = []"
  using show_hex_hex [of g] by (simp_all add: takeWhile_append2 dropWhile_append2 list_all_iff takeWhile_eq_all_conv)

lemma hex_groups_Cons: "hex_groups (g # gs) = show_hex g @ (if gs = [] then [] else CHR '':'' # hex_groups gs)"
  by (cases gs) (simp_all add: hex_groups_def)

lemma hex_groups_head: "gs \<noteq> [] \<Longrightarrow> \<exists>c s. hex_groups gs = c # s \<and> is_hex c"
  using show_hex_hex [of "hd gs"] by (cases gs; cases "show_hex (hd gs)") (auto simp: hex_groups_Cons)

lemma hex_not_colon: "is_hex c \<Longrightarrow> c \<noteq> CHR '':'' \<and> c \<noteq> CHR ''.'' \<and> c \<noteq> CHR ''%''"
  by auto

lemma v6_values_groups:
  assumes "gs \<noteq> []" "length acc + length gs \<le> 8" "list_all (\<lambda>g. g < 65536) gs"
  shows "v6_values ellipsis acc (hex_groups gs) = fill_ellipsis ellipsis (acc @ gs)"
  using assms
proof (induction gs arbitrary: acc)
  case (Cons g gs)
  have len: "length (show_hex g) \<le> 4" using Cons.prems by (intro show_hex_group) simp
  show ?case
  proof (cases "gs = []")
    case True
    then show ?thesis using Cons.prems len
      by (simp add: v6_values.simps [of ellipsis acc] hex_groups_Cons Let_def)
  next
    case False
    obtain c s where cs: "hex_groups gs = c # s" "is_hex c" using hex_groups_head [OF False] by auto
    have "v6_values ellipsis (acc @ [g]) (hex_groups gs) = fill_ellipsis ellipsis ((acc @ [g]) @ gs)"
      using Cons.prems False by (intro Cons.IH) auto
    then show ?thesis
      using Cons.prems len False cs hex_not_colon [OF cs(2)]
      by (simp add: v6_values.simps [of ellipsis acc] hex_groups_Cons [of g gs] Let_def)
  qed
qed simp

lemma v6_values_ellipsis:
  assumes "pre \<noteq> []" "length acc + length pre + length post \<le> 7"
    "list_all (\<lambda>g. g < 65536) pre" "list_all (\<lambda>g. g < 65536) post"
  shows "v6_values None acc (hex_groups pre @ ''::'' @ hex_groups post) =
    fill_ellipsis (Some (length (acc @ pre))) (acc @ pre @ post)"
  using assms
proof (induction pre arbitrary: acc)
  case (Cons g pre)
  have len: "length (show_hex g) \<le> 4" using Cons.prems by (intro show_hex_group) simp
  show ?case
  proof (cases "pre = []")
    case True
    show ?thesis
    proof (cases "post = []")
      case True
      then show ?thesis using Cons.prems len \<open>pre = []\<close>
        by (simp add: v6_values.simps [of None acc] hex_groups_Cons Let_def hex_groups_def [of "[]"])
    next
      case False
      have "hex_groups post \<noteq> []" using hex_groups_head [OF False] by auto
      then show ?thesis using Cons.prems len \<open>pre = []\<close> False
          v6_values_groups [of post "acc @ [g]" "Some (length (acc @ [g]))"]
        by (simp add: v6_values.simps [of None acc] hex_groups_Cons [of g] Let_def)
    qed
  next
    case False
    obtain c s where cs: "hex_groups pre = c # s" "is_hex c" using hex_groups_head [OF False] by auto
    have "v6_values None (acc @ [g]) (hex_groups pre @ ''::'' @ hex_groups post) =
        fill_ellipsis (Some (length ((acc @ [g]) @ pre))) ((acc @ [g]) @ pre @ post)"
      using Cons.prems False by (intro Cons.IH) auto
    then show ?thesis
      using Cons.prems len False cs hex_not_colon [OF cs(2)]
      by (simp add: v6_values.simps [of None acc] hex_groups_Cons [of g pre] Let_def)
  qed
qed simp

lemma zeros_at_spec:
  assumes "i \<le> length groups"
  shows "i + zeros_at groups i \<le> length groups \<and> take (zeros_at groups i) (drop i groups) = replicate (zeros_at groups i) 0"
proof -
  let ?z = "takeWhile (\<lambda>g. g = 0) (drop i groups)"
  have "length ?z \<le> length (drop i groups)" by (rule length_takeWhile_le)
  moreover have "take (length ?z) (drop i groups) = ?z" by (metis takeWhile_eq_take)
  moreover have "?z = replicate (length ?z) 0" by (intro replicate_eqI) (auto dest: set_takeWhileD)
  ultimately show ?thesis using assms by (simp add: zeros_at_def)
qed

lemma zero_run_spec:
  assumes "length groups = 8" "zero_run groups = (start, l)" "l \<noteq> 0"
  shows "2 \<le> l \<and> start + l \<le> 8 \<and> groups = take start groups @ replicate l 0 @ drop (start + l) groups"
proof -
  have "(case fold (longer_run groups) is (8, 0) of (start, l) \<Rightarrow>
      l \<noteq> 0 \<longrightarrow> 2 \<le> l \<and> start + l \<le> 8 \<and> take l (drop start groups) = replicate l 0)"
    if "list_all (\<lambda>i. i \<le> 8) is" for "is"
    using that
  proof (induction "is" rule: rev_induct)
    case (snoc i js)
    then show ?case
      using zeros_at_spec [of i groups] assms(1)
      by (auto simp: longer_run_def Let_def split: prod.splits)
  qed simp
  from this [of "[0..<8]"] assms(2,3) have run: "2 \<le> l \<and> start + l \<le> 8 \<and> take l (drop start groups) = replicate l 0"
    by (simp add: zero_run_def list_all_iff split: prod.splits)
  moreover have "groups = take start groups @ take l (drop start groups) @ drop (start + l) groups"
    by (metis add.commute append_take_drop_id drop_drop)
  ultimately show ?thesis by simp
qed

lemma hex_groups_chars: "set (hex_groups gs) \<subseteq> insert (CHR '':'') (Collect is_hex)"
proof (induction gs)
  case (Cons g gs)
  then show ?case using show_hex_hex [of g] by (auto simp: hex_groups_Cons list_all_iff)
qed (simp add: hex_groups_def)

lemma v6_text_chars: "set (v6_text gs) \<subseteq> insert (CHR '':'') (Collect is_hex)"
  using hex_groups_chars by (auto simp: v6_text_def split: prod.splits)

lemma parse_ip_from_colon: "list_all is_hex a \<Longrightarrow> parse_ip_from txt (a @ CHR '':'' # b) = parse_ip6 txt"
  by (induction a) (auto dest: hex_not_colon)

definition v6_read :: "string \<Rightarrow> nat list option" where
  "v6_read s =
     (if has_prefix s ''::'' then
        (if drop 2 s = [] then Some (replicate 8 0) else v6_values (Some 0) [] (drop 2 s))
      else v6_values None [] s)"

lemma v6_read_plain:
  assumes "length gs = 8" "list_all (\<lambda>g. g < 65536) gs"
  shows "v6_read (hex_groups gs) = Some gs"
proof -
  have ne: "gs \<noteq> []" using assms by auto
  obtain c s where cs: "hex_groups gs = c # s" "is_hex c" using hex_groups_head [OF ne] by auto
  then have "\<not> has_prefix (hex_groups gs) ''::''" using hex_not_colon by (simp add:)
  then show ?thesis
    using assms v6_values_groups [OF ne, of "[]" None] by (simp add: v6_read_def fill_ellipsis_def)
qed

lemma v6_read_ellipsis:
  assumes "length pre + length post \<le> 6" "list_all (\<lambda>g. g < 65536) (pre @ post)"
  shows "v6_read (hex_groups pre @ ''::'' @ hex_groups post) =
    Some (pre @ replicate (8 - length pre - length post) 0 @ post)"
proof (cases "pre = []")
  case True
  show ?thesis
  proof (cases "post = []")
    case True
    then show ?thesis using \<open>pre = []\<close> by (simp add: v6_read_def hex_groups_def)
  next
    case False
    have "hex_groups post \<noteq> []" using hex_groups_head [OF False] by auto
    then show ?thesis
      using assms v6_values_groups [OF False, of "[]" "Some 0"] \<open>pre = []\<close>
      by (simp add: v6_read_def hex_groups_def [of "[]"] fill_ellipsis_def)
  qed
next
  case False
  obtain c s where cs: "hex_groups pre = c # s" "is_hex c" using hex_groups_head [OF False] by auto
  then have "\<not> has_prefix (hex_groups pre @ ''::'' @ hex_groups post) ''::''"
    using hex_not_colon by (simp add:)
  then show ?thesis
    using assms v6_values_ellipsis [OF False, of "[]" post]
    by (simp add: v6_read_def fill_ellipsis_def)
qed

lemma v6_read_text:
  assumes "length gs = 8" "list_all (\<lambda>g. g < 65536) gs"
  shows "v6_read (v6_text gs) = Some gs"
proof -
  obtain start l where run: "zero_run gs = (start, l)" by (cases "zero_run gs")
  show ?thesis
  proof (cases "l = 0")
    case True
    then show ?thesis using run v6_read_plain [OF assms] by (simp add: v6_text_def)
  next
    case False
    note spec = zero_run_spec [OF assms(1) run False]
    have "list_all (\<lambda>g. g < 65536) (take start gs @ drop (start + l) gs)"
      using assms(2) by (auto simp: list_all_iff dest: in_set_takeD in_set_dropD)
    moreover have few: "length (take start gs) + length (drop (start + l) gs) \<le> 6"
        "8 - length (take start gs) - length (drop (start + l) gs) = l"
      using conjunct1 [OF spec] conjunct1 [OF conjunct2 [OF spec]] assms(1) by simp_all
    ultimately have "v6_read (hex_groups (take start gs) @ ''::'' @ hex_groups (drop (start + l) gs)) =
        Some (take start gs @ replicate l 0 @ drop (start + l) gs)"
      using v6_read_ellipsis [of "take start gs" "drop (start + l) gs"] by (simp only: few)
    moreover have "v6_text gs = hex_groups (take start gs) @ ''::'' @ hex_groups (drop (start + l) gs)"
      using run False by (simp add: v6_text_def)
    ultimately show ?thesis using spec by (simp only:)
  qed
qed

lemma cut_at_none: "d \<notin> set s \<Longrightarrow> cut_at d s = (s, [], False)"
  by (induction s) auto

lemma digits_no_dot: "CHR ''.'' \<notin> set (show_nat n)"
  using show_nat_digits [of n] by (auto simp: list_all_iff is_digit_def)

lemma octet_ok_show: "b < 256 \<Longrightarrow> octet_ok (show_nat b)"
proof -
  assume b: "b < 256"
  have "length (show_nat b) \<le> 3"
    using b by (auto simp: show_nat.simps [of b] show_nat.simps [of "b div 10"] show_nat.simps [of "b div 10 div 10"])
  moreover have "hd (show_nat b) = CHR ''0'' \<longrightarrow> length (show_nat b) = 1"
  proof -
    have nz: "d < 10 \<Longrightarrow> digit_char d = CHR ''0'' \<Longrightarrow> d = 0" for d
      using digit_char_facts [of d] by (simp add: digit_value_def)
    show ?thesis
      using b by (auto simp: show_nat.simps [of b] show_nat.simps [of "b div 10"] show_nat.simps [of "b div 10 div 10"]
          hd_append dest!: nz)
  qed
  ultimately show ?thesis
    using b show_nat_digits [of b] by (simp add: octet_ok_def)
qed

lemma v4_octets_text:
  assumes "length octets = 4" "list_all (\<lambda>b. b < 256) octets"
  shows "v4_octets (v4_text octets) = Some octets"
proof -
  obtain a b c d where o: "octets = [a, b, c, d]"
    using assms(1) by (auto simp: length_Suc_conv numeral_eq_Suc)
  have "split_on (CHR ''.'') (v4_text octets) = map show_nat octets"
    by (simp add: o v4_text_def split_on_append split_on_no_sep digits_no_dot)
  then show ?thesis
    using assms by (simp add: v4_octets_def parse_ipv4_def o octet_ok_show)
qed

lemma parse_ip_from_dot: "list_all is_digit a \<Longrightarrow> parse_ip_from txt (a @ CHR ''.'' # b) = map_option IP4 (v4_octets txt)"
  by (induction a) (auto simp: is_digit_def)

lemma parse_ip_string:
  assumes "ip_ok a" "\<not> is_4in6 a"
  shows "parse_ip (ip_string a) = Some a"
proof (cases a)
  case (IP4 octets)
  obtain x y z u where o: "octets = [x, y, z, u]"
    using assms(1) by (auto simp: IP4 length_Suc_conv numeral_eq_Suc)
  have "parse_ip_from w (v4_text octets) = map_option IP4 (v4_octets w)" for w
    using show_nat_digits [of x] by (simp add: o v4_text_def parse_ip_from_dot)
  then show ?thesis
    using assms v4_octets_text [of octets] by (simp add: IP4 parse_ip_def)
next
  case (IP6 groups zone)
  let ?s = "v6_text groups"
  have read: "v6_read ?s = Some groups"
    using assms by (intro v6_read_text) (simp_all add: IP6)
  have nozone: "CHR ''%'' \<notin> set ?s" using v6_text_chars [of groups] by auto
  have "CHR '':'' \<in> set ?s"
  proof (rule ccontr)
    assume no: "CHR '':'' \<notin> set ?s"
    then have "list_all is_hex ?s" using v6_text_chars [of groups] by (auto simp: list_all_iff)
    then have hex: "takeWhile is_hex ?s = ?s" "dropWhile is_hex ?s = []"
      by (simp_all add: takeWhile_eq_all_conv list_all_iff)
    have "\<not> has_prefix ?s ''::''" using no by (auto simp: has_prefix_iff)
    then show False
      using read by (simp add: hex v6_read_def v6_values.simps [of None "[]"] Let_def fill_ellipsis_def split: if_splits)
  qed
  then obtain u v where uv: "?s = u @ CHR '':'' # v" "CHR '':'' \<notin> set u" by (meson split_list_first)
  then have "list_all is_hex u" using v6_text_chars [of groups] by (auto simp: list_all_iff)
  then have scan: "parse_ip_from w (?s @ t) = parse_ip6 w" for w t
    using parse_ip_from_colon [of u w "v @ t"] by (simp add: uv(1))
  have "parse_ip6 (?s @ zone_text zone) = map_option (\<lambda>gs. IP6 gs zone) (v6_read ?s)"
  proof (cases "zone = []")
    case True
    have "cut_at (CHR ''%'') ?s = (?s, [], False)" using nozone by (rule cut_at_none)
    then show ?thesis using True by (simp add: zone_text_def parse_ip6_def v6_read_def)
  next
    case False
    then show ?thesis
      using cut_at_append [OF nozone, of zone] by (simp add: zone_text_def parse_ip6_def v6_read_def)
  qed
  then show ?thesis
    using read assms by (simp add: IP6 parse_ip_def scan)
qed

end
