(* ===== verification/GoContext.thy ===== *)
theory GoContext
  imports Main
begin

text \<open>
  The state of a \<open>context.Context\<close> as \<open>Err\<close> reports it, and errors as far as the program looks into
  them: an \<open>error\<close> is what \<open>errors.Is\<close> and \<open>errors.As\<close> find in its chain.
\<close>

datatype ctx_state = CtxLive | CtxDeadlineExceeded | CtxCanceled

datatype errno = ECONNREFUSED | ECONNRESET | ENETUNREACH | EHOSTUNREACH | ETIMEDOUT

text \<open>A certificate as the handshake probe reads it: \<open>NotBefore\<close>, \<open>NotAfter\<close>, the names and the addresses, raw.\<close>

record certificate =
  cert_not_before :: int
  cert_not_after :: int
  cert_dns_names :: "string list"
  cert_ips :: "nat list list"

text \<open>\<open>ge_dns\<close> is \<open>IsTimeout\<close> and \<open>IsNotFound\<close> of a \<open>*net.DNSError\<close>; \<open>ge_net\<close> is \<open>Timeout()\<close> of a
  \<open>net.Error\<close>; \<open>ge_verification\<close> holds the certificates of a \<open>*tls.CertificateVerificationError\<close>;
  \<open>ge_invalid\<close> says of an \<open>x509.CertificateInvalidError\<close> whether its reason is \<open>Expired\<close> and gives
  \<open>NotBefore\<close> of its certificate, when it has one.\<close>

record go_error =
  ge_canceled :: bool
  ge_deadline :: bool
  ge_os_deadline :: bool
  ge_net :: "bool option"
  ge_dns :: "(bool \<times> bool) option"
  ge_errnos :: "errno list"
  ge_record_header :: bool
  ge_verification :: "certificate list option"
  ge_hostname :: bool
  ge_invalid :: "(bool \<times> int option) option"

definition plain_error :: go_error where
  "plain_error = \<lparr>ge_canceled = False, ge_deadline = False, ge_os_deadline = False, ge_net = None, ge_dns = None,
     ge_errnos = [], ge_record_header = False, ge_verification = None, ge_hostname = False, ge_invalid = None\<rparr>"

text \<open>\<open>isTimeout\<close> of \<open>internal/probe/tcp\<close> and \<open>internal/probe/tls\<close>.\<close>

definition is_timeout :: "go_error \<Rightarrow> bool" where
  "is_timeout e \<longleftrightarrow> ge_net e = Some True \<or> ge_os_deadline e"

text \<open>The two branches every observation starts with: an error that says the caller cancelled, or that our own
  deadline passed, or a context that says so.\<close>

definition cancelled_locally :: "go_error \<Rightarrow> ctx_state \<Rightarrow> bool" where
  "cancelled_locally e ctx_err \<longleftrightarrow> ge_canceled e \<or> ctx_err = CtxCanceled"

definition out_of_time_locally :: "go_error \<Rightarrow> ctx_state \<Rightarrow> bool" where
  "out_of_time_locally e ctx_err \<longleftrightarrow> ge_deadline e \<or> ctx_err = CtxDeadlineExceeded"

end
