(* ===== verification/Probe.thy ===== *)
theory Probe
  imports NetIp Names GoContext
begin

text \<open>
  Package \<open>internal/probe\<close>: the label that tells sweeps apart (\<open>sweepscope.go\<close>), the ids of evidence
  (\<open>evidenceid.go\<close>) and hosts (\<open>host.go\<close>).

  The lemmas show that an id determines the step, the scope and the components it was minted from, as long as a
  step always has the same number of components.
\<close>

datatype probe_error =
  ErrUnsupportedHost | ErrInvalidSweepScope | ErrDnsInput | ErrTcpInput | ErrTlsInput | ErrTransportInput
  | ErrNotTaken | ErrProbeDomain domain_error

subsection \<open>Sweep scopes\<close>

text \<open>A scope is its label; the empty label is the zero scope.\<close>

type_synonym sweep_scope = string

definition new_sweep_scope :: "string \<Rightarrow> probe_error + sweep_scope" where
  "new_sweep_scope label =
     (if label = [] then Inl ErrInvalidSweepScope
      else if \<not> valid_utf8 label then Inl ErrInvalidSweepScope
      else if trim_space label \<noteq> label then Inl ErrInvalidSweepScope
      else if any_rune rune_is_control label then Inl ErrInvalidSweepScope
      else Inr label)"

definition scope_is_zero :: "sweep_scope \<Rightarrow> bool" where
  "scope_is_zero s \<longleftrightarrow> s = []"

subsection \<open>Evidence ids\<close>

definition separator :: char where "separator = CHR ''/''"

definition escape_char :: "char \<Rightarrow> string" where
  "escape_char c = (if c = CHR ''%'' then ''%25'' else if c = separator then ''%2F'' else [c])"

definition escape :: "string \<Rightarrow> string" where
  "escape s = (if CHR ''%'' \<notin> set s \<and> separator \<notin> set s then s else concat (map escape_char s))"

definition scoped_evidence_id :: "sweep_scope \<Rightarrow> step_name \<Rightarrow> string list \<Rightarrow> evidence_id" where
  "scoped_evidence_id scope step components =
     escape step @ (if scope_is_zero scope then [] else separator # escape scope)
       @ concat (map (\<lambda>c. separator # escape c) components)"

definition unscoped_evidence_id :: "step_name \<Rightarrow> string list \<Rightarrow> evidence_id" where
  "unscoped_evidence_id step components = scoped_evidence_id [] step components"

lemma escape_concat: "escape s = concat (map escape_char s)"
proof -
  have "CHR ''%'' \<notin> set s \<Longrightarrow> separator \<notin> set s \<Longrightarrow> concat (map escape_char s) = s"
    by (induction s) (auto simp: escape_char_def)
  then show ?thesis by (simp add: escape_def)
qed

lemma escape_char_cancel: "escape_char c @ s = escape_char d @ t \<Longrightarrow> c = d \<and> s = t"
  by (auto simp: escape_char_def separator_def split: if_splits)

lemma escape_char_nonempty [simp]: "escape_char c \<noteq> []"
  by (simp add: escape_char_def)

lemma escape_no_separator: "separator \<notin> set (escape s)"
  by (auto simp: escape_concat escape_char_def separator_def split: if_splits)

lemma escape_inj: "escape s = escape t \<longleftrightarrow> s = t"
proof
  show "escape s = escape t \<Longrightarrow> s = t"
    unfolding escape_concat
  proof (induction s arbitrary: t)
    case Nil
    then show ?case by (cases t) simp_all
  next
    case (Cons c s)
    then show ?case
      by (cases t) (simp_all, use escape_char_cancel in blast)
  qed
qed simp

text \<open>The parts of an id, each ended by a separator.\<close>

definition id_parts :: "sweep_scope \<Rightarrow> step_name \<Rightarrow> string list \<Rightarrow> string list" where
  "id_parts scope step components = step # (if scope_is_zero scope then [] else [scope]) @ components"

lemma scoped_evidence_id_terminated:
  "scoped_evidence_id scope step components @ [separator] =
     terminated separator (map escape (id_parts scope step components))"
proof -
  have "concat (map (\<lambda>c. separator # escape c) cs) @ [separator] = separator # terminated separator (map escape cs)" for cs
    by (induction cs) (simp_all add: terminated_def)
  then show ?thesis
    by (simp add: scoped_evidence_id_def id_parts_def terminated_def)
qed

lemma scoped_evidence_id_parts:
  "scoped_evidence_id scope step cs = scoped_evidence_id scope' step' cs' \<longleftrightarrow>
     id_parts scope step cs = id_parts scope' step' cs'"
proof
  assume "scoped_evidence_id scope step cs = scoped_evidence_id scope' step' cs'"
  then have "terminated separator (map escape (id_parts scope step cs)) =
      terminated separator (map escape (id_parts scope' step' cs'))"
    by (simp add: scoped_evidence_id_terminated [symmetric])
  then have "map escape (id_parts scope step cs) = map escape (id_parts scope' step' cs')"
    by (rule terminated_inj [rotated 2]) (auto simp: escape_no_separator)
  then show "id_parts scope step cs = id_parts scope' step' cs'"
    by (simp add: inj_on_def escape_inj inj_map_eq_map)
next
  assume "id_parts scope step cs = id_parts scope' step' cs'"
  then have "scoped_evidence_id scope step cs @ [separator] = scoped_evidence_id scope' step' cs' @ [separator]"
    by (simp add: scoped_evidence_id_terminated)
  then show "scoped_evidence_id scope step cs = scoped_evidence_id scope' step' cs'" by simp
qed

lemma scoped_evidence_id_inj:
  "length cs = length cs' \<Longrightarrow>
     scoped_evidence_id scope step cs = scoped_evidence_id scope' step' cs' \<longleftrightarrow>
     scope = scope' \<and> step = step' \<and> cs = cs'"
  by (auto simp: scoped_evidence_id_parts id_parts_def scope_is_zero_def dest: arg_cong [of _ _ length])

subsection \<open>Hosts\<close>

text \<open>\<open>ho_addr\<close> is the address of a host that is an address literal.\<close>

record host =
  ho_name :: string
  ho_addr :: "ip_addr option"

definition parse_host :: "string \<Rightarrow> probe_error + host" where
  "parse_host name =
     (if name = [] then Inl ErrUnsupportedHost
      else (case parse_ip name of
          None \<Rightarrow> Inr \<lparr>ho_name = name, ho_addr = None\<rparr>
        | Some addr \<Rightarrow>
            if ip_zone addr \<noteq> [] then Inl ErrUnsupportedHost
            else Inr \<lparr>ho_name = ip_string (unmap addr), ho_addr = Some (unmap addr)\<rparr>))"

definition host_is_zero :: "host \<Rightarrow> bool" where
  "host_is_zero h \<longleftrightarrow> ho_name h = []"

subsection \<open>Labels\<close>

text \<open>\<open>validateLabel\<close> of \<open>probe/tls\<close>, \<open>validateEndpoint\<close> of \<open>probe/tcp\<close> and, with the check for inner
  white space, \<open>validateHost\<close> of \<open>probe/dns\<close>.\<close>

definition label_ok :: "string \<Rightarrow> bool" where
  "label_ok value \<longleftrightarrow> value \<noteq> [] \<and> trim_space value = value \<and> \<not> any_rune rune_is_control value"

subsection \<open>Property\<close>

text \<open>C39: Two evidence ids are equal only when step, scope and components are: for the same number of components the
  id determines all of them, whatever separators and percent signs they hold and whether or not a scope is set.\<close>

theorem evidence_id_injective:
  assumes "length components = length components'"
  shows "scoped_evidence_id scope step components = scoped_evidence_id scope' step' components' \<longleftrightarrow>
    scope = scope' \<and> step = step' \<and> components = components'"
  using assms by (rule scoped_evidence_id_inj)

theorem evidence_id_injective_witness:
  "scoped_evidence_id ''a/b'' ''tcp.connect'' [''h:1'', ''c''] \<noteq> scoped_evidence_id ''a'' ''tcp.connect'' [''b/h:1'', ''c'']"
  using evidence_id_injective [of "[''h:1'', ''c'']" "[''b/h:1'', ''c'']"] by simp

end
