(* ===== verification/Credential.thy ===== *)
theory Credential
  imports NetIp GoInt
begin

text \<open>
  Package \<open>internal/security\<close>: what a channel is known to protect (\<open>channel.go\<close>), the policy that says where a
  credential may travel (\<open>credentialtransport.go\<close>) and that forwarding is opt-in (\<open>policy.go\<close>), normalized
  endpoints (\<open>endpoint.go\<close>), secrets (\<open>secret.go\<close>, \<open>reveal.go\<close>) and credentials bound to one endpoint
  (\<open>credential.go\<close>).

  The enumerations are an \<open>int\<close>; a number that is none of the constants is \<open>...Out n\<close>.
\<close>

subsection \<open>Channels\<close>

datatype channel =
  ChannelUnknown | ChannelPlaintext | ChannelTLSUnverified | ChannelTLSVerified | ChannelOut int

definition channel_valid :: "channel \<Rightarrow> bool" where
  "channel_valid c \<longleftrightarrow> (case c of ChannelOut _ \<Rightarrow> False | _ \<Rightarrow> True)"

definition channel_string :: "channel \<Rightarrow> string" where
  "channel_string c =
     (case c of
        ChannelUnknown \<Rightarrow> ''unknown''
      | ChannelPlaintext \<Rightarrow> ''plaintext''
      | ChannelTLSUnverified \<Rightarrow> ''tls-unverified''
      | ChannelTLSVerified \<Rightarrow> ''tls-verified''
      | ChannelOut _ \<Rightarrow> ''unknown'')"

definition identity_verified :: "channel \<Rightarrow> bool" where
  "identity_verified c \<longleftrightarrow> c = ChannelTLSVerified"

subsection \<open>Policies\<close>

datatype transport_policy = RequireVerifiedTLS | TransportPolicyOut int

definition transport_policy_string :: "transport_policy \<Rightarrow> string" where
  "transport_policy_string p = ''require-verified-tls''"

definition permits_credentials :: "transport_policy \<Rightarrow> channel \<Rightarrow> bool" where
  "permits_credentials p c \<longleftrightarrow> (if p \<noteq> RequireVerifiedTLS then False else identity_verified c)"

datatype forwarding_policy = ForwardDeny | ForwardAllowExplicit | ForwardOut int

definition forwarding_policy_string :: "forwarding_policy \<Rightarrow> string" where
  "forwarding_policy_string p =
     (case p of ForwardDeny \<Rightarrow> ''deny'' | ForwardAllowExplicit \<Rightarrow> ''allow-explicit'' | ForwardOut _ \<Rightarrow> ''deny'')"

definition allows_forwarding :: "forwarding_policy \<Rightarrow> bool" where
  "allows_forwarding p \<longleftrightarrow> p = ForwardAllowExplicit"

subsection \<open>Endpoints\<close>

record sec_endpoint =
  se_host :: string
  se_port :: nat

definition zero_endpoint :: sec_endpoint where
  "zero_endpoint = \<lparr>se_host = [], se_port = 0\<rparr>"

datatype security_error = ErrInvalidEndpoint | ErrEndpointMismatch | ErrUnboundCredential

definition ascii_lower :: "string \<Rightarrow> string" where
  "ascii_lower s = map (\<lambda>c. if is_upper c then char_of (code c + 32) else c) s"

definition normalize_host :: "string \<Rightarrow> string" where
  "normalize_host host =
     (case parse_ip host of
        Some addr \<Rightarrow> ip_string addr
      | None \<Rightarrow>
          ascii_lower (if 1 < length host \<and> has_suffix host ''.'' then take (length host - 1) host else host))"

definition new_endpoint :: "string \<Rightarrow> nat \<Rightarrow> security_error + sec_endpoint" where
  "new_endpoint host port =
     (if host = [] then Inl ErrInvalidEndpoint
      else if port = 0 then Inl ErrInvalidEndpoint
      else Inr \<lparr>se_host = normalize_host host, se_port = port\<rparr>)"

definition endpoint_is_zero :: "sec_endpoint \<Rightarrow> bool" where
  "endpoint_is_zero e \<longleftrightarrow> e = zero_endpoint"

definition sec_endpoint_string :: "sec_endpoint \<Rightarrow> string" where
  "sec_endpoint_string e =
     (if endpoint_is_zero e then ''<invalid endpoint>''
      else if CHR '':'' \<in> set (se_host e) then ''['' @ se_host e @ '']:'' @ show_nat (se_port e)
      else se_host e @ '':'' @ show_nat (se_port e))"

definition sec_endpoint_equal :: "sec_endpoint \<Rightarrow> sec_endpoint \<Rightarrow> bool" where
  "sec_endpoint_equal a b \<longleftrightarrow> a = b"

subsection \<open>Secrets\<close>

text \<open>A secret is a pointer to its text.\<close>

type_synonym secret = "string option"

definition mask :: string where "mask = ''***''"

definition quoted_mask :: string where "quoted_mask = CHR 0x22 # mask @ [CHR 0x22]"

definition new_secret :: "string \<Rightarrow> secret" where
  "new_secret plaintext = (if plaintext = [] then None else Some plaintext)"

definition secret_is_empty :: "secret \<Rightarrow> bool" where
  "secret_is_empty s \<longleftrightarrow> s = None \<or> s = Some []"

definition reveal :: "secret \<Rightarrow> string" where
  "reveal s = (case s of None \<Rightarrow> [] | Some v \<Rightarrow> v)"

definition secret_string :: "secret \<Rightarrow> string" where
  "secret_string s = mask"

definition secret_go_string :: "secret \<Rightarrow> string" where
  "secret_go_string s = ''security.Secret{/* redacted */}''"

text \<open>\<open>Format\<close>: what is written for a verb, with or without the sharp flag.\<close>

definition secret_format :: "char \<Rightarrow> bool \<Rightarrow> secret \<Rightarrow> string" where
  "secret_format verb sharp s =
     (if verb = CHR ''v'' \<and> sharp then secret_go_string s
      else if verb = CHR ''q'' then quoted_mask
      else mask)"

definition secret_json :: "secret \<Rightarrow> string" where
  "secret_json s = quoted_mask"

definition secret_text :: "secret \<Rightarrow> string" where
  "secret_text s = mask"

subsection \<open>Credentials\<close>

record credential =
  cr_endpoint :: sec_endpoint
  cr_identity :: string
  cr_secret :: secret

definition new_credential :: "sec_endpoint \<Rightarrow> string \<Rightarrow> secret \<Rightarrow> security_error + credential" where
  "new_credential endpoint identity secret =
     (if endpoint_is_zero endpoint then Inl ErrUnboundCredential
      else Inr \<lparr>cr_endpoint = endpoint, cr_identity = identity, cr_secret = secret\<rparr>)"

definition credential_is_zero :: "credential \<Rightarrow> bool" where
  "credential_is_zero c \<longleftrightarrow> endpoint_is_zero (cr_endpoint c)"

definition secret_for :: "credential \<Rightarrow> sec_endpoint \<Rightarrow> security_error + secret" where
  "secret_for c endpoint =
     (if credential_is_zero c then Inl ErrUnboundCredential
      else if \<not> sec_endpoint_equal (cr_endpoint c) endpoint then Inl ErrEndpointMismatch
      else Inr (cr_secret c))"

definition credential_string :: "credential \<Rightarrow> string" where
  "credential_string c =
     (if credential_is_zero c then ''<invalid credential>''
      else ''Credential{endpoint: '' @ sec_endpoint_string (cr_endpoint c) @ '', identity: '' @
        (if cr_identity c = [] then ''<none>'' else cr_identity c) @ '', secret: '' @ mask @ ''}'')"

subsection \<open>What the types keep\<close>

lemma permits_credentials_iff: "permits_credentials p c \<longleftrightarrow> p = RequireVerifiedTLS \<and> c = ChannelTLSVerified"
  by (simp add: permits_credentials_def identity_verified_def)

lemma secret_for_Inr_iff:
  "secret_for c e = Inr s \<longleftrightarrow> \<not> endpoint_is_zero e \<and> cr_endpoint c = e \<and> s = cr_secret c"
  by (auto simp: secret_for_def credential_is_zero_def sec_endpoint_equal_def)

lemma ascii_lower_idem: "ascii_lower (ascii_lower s) = ascii_lower s"
  by (auto simp: ascii_lower_def is_upper_def)

end
