(* ===== verification/Measure.thy ===== *)
theory Measure
  imports Probe Credential Graph
begin

text \<open>
  The three transport probes: \<open>internal/probe/dns\<close> (\<open>lookup.go\<close>), \<open>internal/probe/tcp\<close> (\<open>connect.go\<close>,
  \<open>result.go\<close>) and \<open>internal/probe/tls\<close> (\<open>handshake.go\<close>, \<open>params.go\<close>, \<open>result.go\<close>).

  What the probes ask of the world is an \<open>env\<close>: the clock, the caller's context and the context of the
  current step, the resolver, the dialer, the TLS handshake of \<open>crypto/tls\<close> and its name for a cipher suite.
  Every question takes the number of questions asked before it, so the world may answer differently each time.
  A connection is the number of the question that opened it; wrapping it in TLS keeps the number, since closing
  the wrapper closes it. The log says which connections were opened and closed.

  The arguments \<open>ctx\<close> and \<open>builder\<close> are never nil in the model.
\<close>

subsection \<open>The world\<close>

record tls_params =
  tp_endpoint :: string
  tp_scope :: sweep_scope
  tp_address :: addr_port
  tp_server_name :: string
  tp_roots :: "nat option"
  tp_min_version :: nat
  tp_max_version :: nat
  tp_insecure :: bool

record tls_state =
  ts_version :: nat
  ts_cipher :: nat
  ts_peers :: "certificate list"

record env =
  en_now :: "nat \<Rightarrow> go_time"
  en_ctx :: "nat \<Rightarrow> ctx_state"
  en_step :: "nat \<Rightarrow> ctx_state"
  en_lookup :: "nat \<Rightarrow> string \<Rightarrow> go_error option \<times> ip_addr option list"
  en_dial :: "nat \<Rightarrow> addr_port \<Rightarrow> go_error option \<times> bool"
  en_handshake :: "nat \<Rightarrow> tls_params \<Rightarrow> go_error + tls_state"
  en_cipher_name :: "nat \<Rightarrow> string"

datatype net_event = Opened nat | Closed nat

record world =
  wd_tick :: nat
  wd_builder :: builder
  wd_log :: "net_event list"

definition ask :: "(nat \<Rightarrow> 'a) \<Rightarrow> world \<Rightarrow> 'a \<times> world" where
  "ask f w = (f (wd_tick w), w\<lparr>wd_tick := Suc (wd_tick w)\<rparr>)"

definition log_event :: "net_event \<Rightarrow> world \<Rightarrow> world" where
  "log_event x w = w\<lparr>wd_log := wd_log w @ [x]\<rparr>"

subsection \<open>Owned connections\<close>

text \<open>The fields \<open>conn\<close>, \<open>taken\<close> and \<open>closed\<close> that every result of a probe and every session has.\<close>

record owned =
  ow_conn :: "nat option"
  ow_taken :: bool
  ow_closed :: bool

definition own :: "nat option \<Rightarrow> owned" where
  "own conn = \<lparr>ow_conn = conn, ow_taken = False, ow_closed = False\<rparr>"

definition available :: "owned \<Rightarrow> bool" where
  "available r \<longleftrightarrow> ow_conn r \<noteq> None \<and> \<not> ow_taken r \<and> \<not> ow_closed r"

definition take_conn :: "owned \<Rightarrow> (nat \<times> owned) option" where
  "take_conn r = (if \<not> available r then None else Some (the (ow_conn r), r\<lparr>ow_taken := True\<rparr>))"

definition close_owned :: "owned \<Rightarrow> world \<Rightarrow> owned \<times> world" where
  "close_owned r w =
     (case ow_conn r of
        None \<Rightarrow> (r, w)
      | Some c \<Rightarrow>
          if ow_taken r \<or> ow_closed r then (r, w)
          else (r\<lparr>ow_closed := True\<rparr>, log_event (Closed c) w))"

text \<open>\<open>conn.Close\<close> on a connection that may be nil.\<close>

definition close_conn :: "nat option \<Rightarrow> world \<Rightarrow> world" where
  "close_conn conn w = (case conn of None \<Rightarrow> w | Some c \<Rightarrow> log_event (Closed c) w)"

text \<open>The step that anchors a run in its graph (\<open>internal/vocabulary\<close>).\<close>

definition step_target_requested :: step_name where "step_target_requested = ''target.requested''"

subsection \<open>Lookup (\<open>internal/probe/dns\<close>)\<close>

definition step_dns_lookup :: step_name where "step_dns_lookup = ''dns.lookup''"
definition attr_dns_answers :: attribute_key where "attr_dns_answers = ''dns.answers''"

definition validate_host :: "string \<Rightarrow> probe_error + unit" where
  "validate_host host =
     (if host = [] then Inl ErrDnsInput
      else if trim_space host \<noteq> host then Inl ErrDnsInput
      else if any_rune (\<lambda>r. rune_is_control r \<or> rune_is_space r) host then Inl ErrDnsInput
      else Inr ())"

record dns_observation =
  do_host :: string
  do_scope :: sweep_scope
  do_addrs :: "ip_addr option list"
  do_err :: "go_error option"
  do_ctx :: ctx_state
  do_started :: go_time
  do_duration :: go_duration

definition observe_dns :: "env \<Rightarrow> string \<Rightarrow> sweep_scope \<Rightarrow> world \<Rightarrow> dns_observation \<times> world" where
  "observe_dns e host scope w =
     (let (started, w1) = ask (en_now e) w;
          ((err, addrs), w2) = ask (\<lambda>n. en_lookup e n host) w1;
          (ended, w3) = ask (en_now e) w2;
          (ctx, w4) = ask (en_step e) w3
      in (\<lparr>do_host = host, do_scope = scope, do_addrs = addrs, do_err = err, do_ctx = ctx,
            do_started = started, do_duration = ended - started\<rparr>, w4))"

definition dns_answers :: "dns_observation \<Rightarrow> string list" where
  "dns_answers ob =
     (if do_addrs ob = [] then []
      else map ip_string (canonical_ips (map (unmap \<circ> the) (filter (\<lambda>a. a \<noteq> None) (do_addrs ob)))))"

definition classify_resolver_error :: "go_error \<Rightarrow> failure_class" where
  "classify_resolver_error err =
     (case ge_dns err of
        Some (timed_out, not_found) \<Rightarrow>
          if timed_out then FailureDNSTimeout
          else if not_found then FailureDNSNoAddress
          else FailureDNSResolverFailure
      | None \<Rightarrow> FailureDNSResolverFailure)"

definition classify_dns :: "dns_observation \<Rightarrow> nat \<Rightarrow> state \<times> failure_class" where
  "classify_dns ob answer_count =
     (case do_err ob of
        None \<Rightarrow> if answer_count = 0 then (StateFail, FailureDNSNoAddress) else (StatePass, FailureNone)
      | Some err \<Rightarrow>
          if cancelled_locally err (do_ctx ob) then (StateUnknown, FailureExecCancelled)
          else if out_of_time_locally err (do_ctx ob) then (StateUnknown, FailureExecLocalTimeout)
          else (StateFail, classify_resolver_error err))"

definition dns_evidence :: "dns_observation \<Rightarrow> probe_error + evidence" where
  "dns_evidence ob =
     (case new_endpoint_subject (do_host ob) of
        Inl _ \<Rightarrow> Inl ErrDnsInput
      | Inr subject \<Rightarrow>
          (let answers = dns_answers ob; (state, failure) = classify_dns ob (length answers)
           in case new_evidence \<lparr>ev_id = scoped_evidence_id (do_scope ob) step_dns_lookup [do_host ob],
                ev_subject = subject, ev_layer = LayerDNS, ev_step = step_dns_lookup, ev_state = state,
                ev_failure = failure,
                ev_attributes = (if answers = [] then [] else [(attr_dns_answers, host_list_attr answers)]),
                ev_started = do_started ob, ev_elapsed = measured (do_duration ob)\<rparr> of
              Inl err \<Rightarrow> Inl (ErrProbeDomain err)
            | Inr ev \<Rightarrow> Inr ev))"

definition dns_lookup :: "env \<Rightarrow> string \<Rightarrow> sweep_scope \<Rightarrow> world \<Rightarrow> (probe_error + evidence) \<times> world" where
  "dns_lookup e host scope w =
     (case validate_host host of
        Inl err \<Rightarrow> (Inl err, w)
      | Inr _ \<Rightarrow> (case observe_dns e host scope w of (ob, w') \<Rightarrow> (dns_evidence ob, w')))"

subsection \<open>Connect (\<open>internal/probe/tcp\<close>)\<close>

definition step_tcp_connect :: step_name where "step_tcp_connect = ''tcp.connect''"

definition validate_endpoint :: "string \<Rightarrow> probe_error + unit" where
  "validate_endpoint endpoint =
     (if endpoint = [] then Inl ErrTcpInput
      else if trim_space endpoint \<noteq> endpoint then Inl ErrTcpInput
      else if any_rune rune_is_control endpoint then Inl ErrTcpInput
      else Inr ())"

definition normalize_addr :: "addr_port \<Rightarrow> probe_error + addr_port" where
  "normalize_addr a =
     (case ap_addr a of
        None \<Rightarrow> Inl ErrTcpInput
      | Some ip \<Rightarrow> if ap_port a = 0 then Inl ErrTcpInput else Inr (a\<lparr>ap_addr := Some (unmap ip)\<rparr>))"

record tcp_observation =
  to_addr :: addr_port
  to_conn :: "nat option"
  to_err :: "go_error option"
  to_ctx :: ctx_state
  to_started :: go_time
  to_duration :: go_duration

text \<open>A dialer that returns a connection has opened it.\<close>

definition dial :: "env \<Rightarrow> addr_port \<Rightarrow> world \<Rightarrow> (go_error option \<times> nat option) \<times> world" where
  "dial e addr w =
     (case ask (\<lambda>n. en_dial e n addr) w of ((err, connected), w1) \<Rightarrow>
        if connected then ((err, Some (wd_tick w)), log_event (Opened (wd_tick w)) w1)
        else ((err, None), w1))"

definition observe_tcp :: "env \<Rightarrow> addr_port \<Rightarrow> world \<Rightarrow> tcp_observation \<times> world" where
  "observe_tcp e addr w =
     (let (started, w1) = ask (en_now e) w;
          ((err, conn), w2) = dial e addr w1;
          (ended, w3) = ask (en_now e) w2;
          (ctx, w4) = ask (en_step e) w3
      in (\<lparr>to_addr = addr, to_conn = conn, to_err = err, to_ctx = ctx, to_started = started,
            to_duration = ended - started\<rparr>, w4))"

definition classify_dial_error :: "go_error \<Rightarrow> failure_class option" where
  "classify_dial_error err =
     (if ECONNREFUSED \<in> set (ge_errnos err) then Some FailureTCPConnectionRefused
      else if ECONNRESET \<in> set (ge_errnos err) then Some FailureTCPConnectionReset
      else if ENETUNREACH \<in> set (ge_errnos err) then Some FailureTCPNetworkUnreachable
      else if EHOSTUNREACH \<in> set (ge_errnos err) then Some FailureTCPHostUnreachable
      else if ETIMEDOUT \<in> set (ge_errnos err) then Some FailureTCPConnectionTimeout
      else None)"

definition classify_tcp :: "tcp_observation \<Rightarrow> state \<times> failure_class" where
  "classify_tcp ob =
     (case to_err ob of
        None \<Rightarrow> if to_conn ob = None then (StateUnknown, FailureNone) else (StatePass, FailureNone)
      | Some err \<Rightarrow>
          if cancelled_locally err (to_ctx ob) then (StateUnknown, FailureExecCancelled)
          else if out_of_time_locally err (to_ctx ob) then (StateUnknown, FailureExecLocalTimeout)
          else (case classify_dial_error err of
              Some failure \<Rightarrow> (StateFail, failure)
            | None \<Rightarrow>
                if is_timeout err then (StateUnknown, FailureExecLocalTimeout)
                else (StateFail, FailureTCPConnectionFailed)))"

definition tcp_evidence :: "tcp_observation \<Rightarrow> string \<Rightarrow> sweep_scope \<Rightarrow> probe_error + evidence" where
  "tcp_evidence ob endpoint scope =
     (case new_endpoint_subject (addr_port_string (to_addr ob)) of
        Inl _ \<Rightarrow> Inl ErrTcpInput
      | Inr subject \<Rightarrow>
          (case classify_tcp ob of (state, failure) \<Rightarrow>
             (case new_evidence \<lparr>ev_id = scoped_evidence_id scope step_tcp_connect [endpoint, addr_string (ap_addr (to_addr ob))],
                  ev_subject = subject, ev_layer = LayerTCP, ev_step = step_tcp_connect, ev_state = state,
                  ev_failure = failure, ev_attributes = [], ev_started = to_started ob,
                  ev_elapsed = measured (to_duration ob)\<rparr> of
                Inl err \<Rightarrow> Inl (ErrProbeDomain err)
              | Inr ev \<Rightarrow> Inr ev)))"

record tcp_result =
  tr_evidence :: evidence
  tr_owned :: owned

definition new_tcp_result ::
    "tcp_observation \<Rightarrow> string \<Rightarrow> sweep_scope \<Rightarrow> world \<Rightarrow> (probe_error + tcp_result) \<times> world" where
  "new_tcp_result ob endpoint scope w =
     (case tcp_evidence ob endpoint scope of
        Inl err \<Rightarrow> (Inl err, close_conn (to_conn ob) w)
      | Inr ev \<Rightarrow> (Inr \<lparr>tr_evidence = ev, tr_owned = own (to_conn ob)\<rparr>, w))"

definition tcp_connect ::
    "env \<Rightarrow> string \<Rightarrow> addr_port \<Rightarrow> sweep_scope \<Rightarrow> world \<Rightarrow> (probe_error + tcp_result) \<times> world" where
  "tcp_connect e endpoint addr scope w =
     (case validate_endpoint endpoint of
        Inl err \<Rightarrow> (Inl err, w)
      | Inr _ \<Rightarrow>
          (case normalize_addr addr of
             Inl err \<Rightarrow> (Inl err, w)
           | Inr addr' \<Rightarrow> (case observe_tcp e addr' w of (ob, w') \<Rightarrow> new_tcp_result ob endpoint scope w')))"

subsection \<open>Handshake (\<open>internal/probe/tls\<close>)\<close>

definition step_tls_handshake :: step_name where "step_tls_handshake = ''tls.handshake''"
definition attr_server_name :: attribute_key where "attr_server_name = ''tls.server_name''"
definition attr_tls_verified :: attribute_key where "attr_tls_verified = ''tls.verified''"
definition attr_trust_source :: attribute_key where "attr_trust_source = ''tls.trust_source''"
definition attr_tls_version :: attribute_key where "attr_tls_version = ''tls.version''"
definition attr_cipher_suite :: attribute_key where "attr_cipher_suite = ''tls.cipher_suite''"
definition attr_peer_count :: attribute_key where "attr_peer_count = ''tls.peer_certificate_count''"
definition attr_peer_not_before :: attribute_key where "attr_peer_not_before = ''tls.peer_not_before''"
definition attr_peer_not_after :: attribute_key where "attr_peer_not_after = ''tls.peer_not_after''"
definition attr_peer_dns_names :: attribute_key where "attr_peer_dns_names = ''tls.peer_dns_names''"
definition attr_peer_ips :: attribute_key where "attr_peer_ips = ''tls.peer_ip_addresses''"

definition validate_label :: "string \<Rightarrow> probe_error + unit" where
  "validate_label v =
     (if v = [] then Inl ErrTlsInput
      else if trim_space v \<noteq> v then Inl ErrTlsInput
      else if any_rune rune_is_control v then Inl ErrTlsInput
      else Inr ())"

definition validate_tls_params :: "tls_params \<Rightarrow> probe_error + unit" where
  "validate_tls_params p =
     rbind (validate_label (tp_endpoint p)) (\<lambda>_.
     rbind (validate_label (tp_server_name p)) (\<lambda>_.
     if ap_addr (tp_address p) = None then Inl ErrTlsInput
     else if ap_port (tp_address p) = 0 then Inl ErrTlsInput
     else if tp_min_version p \<noteq> 0 \<and> tp_max_version p \<noteq> 0 \<and> tp_max_version p < tp_min_version p then Inl ErrTlsInput
     else Inr ()))"

definition tls_address :: "tls_params \<Rightarrow> addr_port" where
  "tls_address p = (tp_address p)\<lparr>ap_addr := map_option unmap (ap_addr (tp_address p))\<rparr>"

definition trust_source :: "tls_params \<Rightarrow> string" where
  "trust_source p =
     (if tp_insecure p then [] else if tp_roots p \<noteq> None then ''custom'' else ''system'')"

record tls_observation =
  so_params :: tls_params
  so_conn :: nat
  so_state :: tls_state
  so_err :: "go_error option"
  so_ctx :: ctx_state
  so_started :: go_time
  so_duration :: go_duration

definition zero_tls_state :: tls_state where
  "zero_tls_state = \<lparr>ts_version = 0, ts_cipher = 0, ts_peers = []\<rparr>"

definition observe_tls :: "env \<Rightarrow> nat \<Rightarrow> tls_params \<Rightarrow> world \<Rightarrow> tls_observation \<times> world" where
  "observe_tls e conn p w =
     (let (started, w1) = ask (en_now e) w;
          (outcome, w2) = ask (\<lambda>n. en_handshake e n p) w1;
          (ended, w3) = ask (en_now e) w2;
          (ctx, w4) = ask (en_step e) w3
      in (\<lparr>so_params = p, so_conn = conn,
            so_state = (case outcome of Inl _ \<Rightarrow> zero_tls_state | Inr state \<Rightarrow> state),
            so_err = (case outcome of Inl err \<Rightarrow> Some err | Inr _ \<Rightarrow> None), so_ctx = ctx,
            so_started = started, so_duration = ended - started\<rparr>, w4))"

definition classify_handshake_error :: "go_error \<Rightarrow> go_time \<Rightarrow> failure_class option" where
  "classify_handshake_error err started =
     (if ge_record_header err then Some FailureTLSPeerNotTLS
      else if ge_verification err = None then None
      else if ge_hostname err then Some FailureTLSHostnameMismatch
      else (case ge_invalid err of
          Some (True, not_before) \<Rightarrow>
            (case not_before of
               Some t \<Rightarrow> if started < t then Some FailureTLSCertificateNotYetValid else Some FailureTLSCertificateExpired
             | None \<Rightarrow> Some FailureTLSCertificateExpired)
        | _ \<Rightarrow> Some FailureTLSUnknownAuthority))"

definition classify_tls :: "tls_observation \<Rightarrow> state \<times> failure_class" where
  "classify_tls ob =
     (case so_err ob of
        None \<Rightarrow> (StatePass, FailureNone)
      | Some err \<Rightarrow>
          if cancelled_locally err (so_ctx ob) then (StateUnknown, FailureExecCancelled)
          else if out_of_time_locally err (so_ctx ob) then (StateUnknown, FailureExecLocalTimeout)
          else (case classify_handshake_error err (so_started ob) of
              Some failure \<Rightarrow> (StateFail, failure)
            | None \<Rightarrow>
                if is_timeout err then (StateUnknown, FailureExecLocalTimeout)
                else (StateFail, FailureTLSHandshakeFailure)))"

definition tls_verified :: "tls_observation \<Rightarrow> bool" where
  "tls_verified ob \<longleftrightarrow> so_err ob = None \<and> \<not> tp_insecure (so_params ob)"

definition peer_certificates :: "tls_observation \<Rightarrow> certificate list" where
  "peer_certificates ob =
     (case so_err ob of
        None \<Rightarrow> ts_peers (so_state ob)
      | Some err \<Rightarrow> (case ge_verification err of Some certs \<Rightarrow> certs | None \<Rightarrow> []))"

text \<open>\<open>fmt.Sprintf("%#04x", version)\<close> is \<open>0x\<close> and at least four digits.\<close>

definition version_name :: "nat \<Rightarrow> string" where
  "version_name v =
     (if v = 769 then ''TLS1.0''
      else if v = 770 then ''TLS1.1''
      else if v = 771 then ''TLS1.2''
      else if v = 772 then ''TLS1.3''
      else ''0x'' @ replicate (4 - length (show_hex v)) (CHR ''0'') @ show_hex v)"

definition canonical_dns_names :: "string list \<Rightarrow> string list" where
  "canonical_dns_names names = remdups_adj (sort names)"

definition canonical_cert_ips :: "nat list list \<Rightarrow> string list" where
  "canonical_cert_ips ips =
     map ip_string (canonical_ips (map (unmap \<circ> the) (filter (\<lambda>a. a \<noteq> None) (map addr_from_slice ips))))"

definition tls_attributes :: "env \<Rightarrow> tls_observation \<Rightarrow> (attribute_key \<times> attr_value) list" where
  "tls_attributes e ob =
     [(attr_server_name, host_attr (tp_server_name (so_params ob))), (attr_tls_verified, bool_attr (tls_verified ob))]
     @ (let source = trust_source (so_params ob) in
        if source \<noteq> [] then [(attr_trust_source, string_attr source)] else [])
     @ (if so_err ob = None
        then [(attr_tls_version, string_attr (version_name (ts_version (so_state ob)))),
              (attr_cipher_suite, string_attr (en_cipher_name e (ts_cipher (so_state ob))))] else [])
     @ (case peer_certificates ob of
          [] \<Rightarrow> []
        | leaf # rest \<Rightarrow>
            [(attr_peer_count, int_attr (int (length (leaf # rest)))),
             (attr_peer_not_before, time_attr (cert_not_before leaf)),
             (attr_peer_not_after, time_attr (cert_not_after leaf))]
            @ (let names = canonical_dns_names (cert_dns_names leaf) in
               if names \<noteq> [] then [(attr_peer_dns_names, host_list_attr names)] else [])
            @ (let ips = canonical_cert_ips (cert_ips leaf) in
               if ips \<noteq> [] then [(attr_peer_ips, host_list_attr ips)] else []))"

definition tls_evidence :: "env \<Rightarrow> tls_observation \<Rightarrow> probe_error + evidence" where
  "tls_evidence e ob =
     (let address = tls_address (so_params ob) in
      case new_endpoint_subject (addr_port_string address) of
        Inl _ \<Rightarrow> Inl ErrTlsInput
      | Inr subject \<Rightarrow>
          (case classify_tls ob of (state, failure) \<Rightarrow>
             (case new_evidence \<lparr>ev_id = scoped_evidence_id (tp_scope (so_params ob)) step_tls_handshake
                    [tp_endpoint (so_params ob), addr_string (ap_addr address)],
                  ev_subject = subject, ev_layer = LayerTLS, ev_step = step_tls_handshake, ev_state = state,
                  ev_failure = failure, ev_attributes = tls_attributes e ob, ev_started = so_started ob,
                  ev_elapsed = measured (so_duration ob)\<rparr> of
                Inl err \<Rightarrow> Inl (ErrProbeDomain err)
              | Inr ev \<Rightarrow> Inr ev)))"

record tls_result =
  sr_evidence :: evidence
  sr_verified :: bool
  sr_owned :: owned

definition new_tls_result :: "env \<Rightarrow> tls_observation \<Rightarrow> world \<Rightarrow> (probe_error + tls_result) \<times> world" where
  "new_tls_result e ob w =
     (case tls_evidence e ob of
        Inl err \<Rightarrow> (Inl err, close_conn (Some (so_conn ob)) w)
      | Inr ev \<Rightarrow>
          if so_err ob \<noteq> None
          then (Inr \<lparr>sr_evidence = ev, sr_verified = False, sr_owned = own None\<rparr>, close_conn (Some (so_conn ob)) w)
          else (Inr \<lparr>sr_evidence = ev, sr_verified = tls_verified ob, sr_owned = own (Some (so_conn ob))\<rparr>, w))"

definition tls_handshake :: "env \<Rightarrow> nat \<Rightarrow> tls_params \<Rightarrow> world \<Rightarrow> (probe_error + tls_result) \<times> world" where
  "tls_handshake e conn p w =
     (case validate_tls_params p of
        Inl err \<Rightarrow> (Inl err, close_conn (Some conn) w)
      | Inr _ \<Rightarrow> (case observe_tls e conn p w of (ob, w') \<Rightarrow> new_tls_result e ob w'))"

definition tls_channel :: "tls_result \<Rightarrow> channel" where
  "tls_channel r =
     (if ow_conn (sr_owned r) = None then ChannelUnknown
      else if sr_verified r then ChannelTLSVerified
      else ChannelTLSUnverified)"

definition tls_result_verified :: "tls_result \<Rightarrow> bool" where
  "tls_result_verified r \<longleftrightarrow> tls_channel r = ChannelTLSVerified"

end
