(* ===== verification/Sweep.thy ===== *)
theory Sweep
  imports Measure
begin

text \<open>
  The transport chain of \<open>internal/probe/transport\<close>: the parameters (\<open>params.go\<close>), what a chain hands on
  (\<open>result.go\<close>) and the sweep itself (\<open>run.go\<close>): one lookup, then for every address a connection and, when asked
  for, a handshake, each recorded in the evidence graph, with a node for every step that was not attempted.

  The parameters say whether a resolver and a dialer are there; what they do is the \<open>env\<close> of theory \<open>Measure\<close>.
\<close>

subsection \<open>Parameters\<close>

record chain_tls =
  ct_server_name :: string
  ct_roots :: "nat option"
  ct_min_version :: nat
  ct_max_version :: nat
  ct_insecure :: bool

record chain_params =
  cp_host :: string
  cp_port :: nat
  cp_resolver :: bool
  cp_dialer :: bool
  cp_tls :: "chain_tls option"
  cp_scope :: sweep_scope
  cp_parent :: evidence_id
  cp_step_timeout :: go_duration

definition validate_chain :: "chain_params \<Rightarrow> probe_error + unit" where
  "validate_chain p =
     (if cp_host p = [] then Inl ErrTransportInput
      else if cp_port p = 0 then Inl ErrTransportInput
      else if \<not> cp_resolver p then Inl ErrTransportInput
      else if \<not> cp_dialer p then Inl ErrTransportInput
      else if cp_step_timeout p < 0 then Inl ErrTransportInput
      else (case parse_host (cp_host p) of Inl _ \<Rightarrow> Inl ErrTransportInput | Inr _ \<Rightarrow> Inr ()))"

definition chain_host :: "chain_params \<Rightarrow> host" where
  "chain_host p =
     (case parse_host (cp_host p) of Inl _ \<Rightarrow> \<lparr>ho_name = [], ho_addr = None\<rparr> | Inr h \<Rightarrow> h)"

definition chain_endpoint :: "chain_params \<Rightarrow> string" where
  "chain_endpoint p = join_host_port (cp_host p) (show_nat (cp_port p))"

definition chain_tls_params :: "chain_params \<Rightarrow> chain_tls \<Rightarrow> addr_port \<Rightarrow> tls_params" where
  "chain_tls_params p t addr =
     \<lparr>tp_endpoint = chain_endpoint p, tp_scope = cp_scope p, tp_address = addr,
      tp_server_name = (if ct_server_name t = [] then cp_host p else ct_server_name t),
      tp_roots = ct_roots t, tp_min_version = ct_min_version t, tp_max_version = ct_max_version t,
      tp_insecure = ct_insecure t\<rparr>"

subsection \<open>Continuations\<close>

record continuation =
  co_endpoint :: string
  co_address :: addr_port
  co_evidence :: evidence_id
  co_channel :: channel
  co_channel_evidence :: evidence_id
  co_owned :: owned

definition channel_evidence :: "evidence_id \<Rightarrow> evidence_id option" where
  "channel_evidence x = (if x = [] then None else Some x)"

fun close_all :: "continuation list \<Rightarrow> world \<Rightarrow> world" where
  "close_all [] w = w"
| "close_all (c # cs) w = close_all cs (snd (close_owned (co_owned c) w))"

subsection \<open>Recording\<close>

definition on_builder :: "(builder \<Rightarrow> domain_error + builder) \<Rightarrow> world \<Rightarrow> (probe_error + unit) \<times> world" where
  "on_builder f w =
     (case f (wd_builder w) of
        Inl err \<Rightarrow> (Inl (ErrProbeDomain err), w)
      | Inr b \<Rightarrow> (Inr (), w\<lparr>wd_builder := b\<rparr>))"

definition record_evidence :: "evidence \<Rightarrow> evidence_id \<Rightarrow> world \<Rightarrow> (probe_error + unit) \<times> world" where
  "record_evidence ev parent w =
     and_then (on_builder (\<lambda>b. add_evidence b ev) w) (\<lambda>_ w1.
     if parent = [] then (Inr (), w1) else on_builder (\<lambda>b. add_parent b (ev_id ev) parent) w1)"

definition skipped_evidence ::
    "env \<Rightarrow> step_name \<Rightarrow> layer \<Rightarrow> string \<Rightarrow> addr_port \<Rightarrow> failure_class \<Rightarrow> sweep_scope \<Rightarrow> world \<Rightarrow>
     (probe_error + evidence) \<times> world" where
  "skipped_evidence e step layer endpoint addr failure scope w =
     (case new_endpoint_subject (addr_port_string addr) of
        Inl err \<Rightarrow> (Inl (ErrProbeDomain err), w)
      | Inr subject \<Rightarrow>
          (case ask (en_now e) w of (started, w1) \<Rightarrow>
             (case new_evidence \<lparr>ev_id = scoped_evidence_id scope step [endpoint, addr_string (ap_addr addr)],
                  ev_subject = subject, ev_layer = layer, ev_step = step, ev_state = StateSkipped,
                  ev_failure = failure, ev_attributes = [], ev_started = started, ev_elapsed = unmeasured\<rparr> of
                Inl err \<Rightarrow> (Inl (ErrProbeDomain err), w1)
              | Inr ev \<Rightarrow> (Inr ev, w1))))"

definition record_skipped_tls ::
    "env \<Rightarrow> chain_params \<Rightarrow> evidence_id \<Rightarrow> addr_port \<Rightarrow> world \<Rightarrow> (probe_error + unit) \<times> world" where
  "record_skipped_tls e p blocker addr w =
     and_then (skipped_evidence e step_tls_handshake LayerTLS (chain_endpoint p) addr
         FailureExecSkippedPrerequisiteFailed (cp_scope p) w) (\<lambda>ev w1.
     and_then (record_evidence ev blocker w1) (\<lambda>_ w2.
     on_builder (\<lambda>b. add_blocked_by b (ev_id ev) blocker) w2))"

definition record_unattempted ::
    "env \<Rightarrow> chain_params \<Rightarrow> evidence_id \<Rightarrow> addr_port \<Rightarrow> failure_class \<Rightarrow> world \<Rightarrow> (probe_error + unit) \<times> world" where
  "record_unattempted e p parent addr failure w =
     and_then (skipped_evidence e step_tcp_connect LayerTCP (chain_endpoint p) addr failure (cp_scope p) w)
       (\<lambda>ev w1.
     and_then (record_evidence ev parent w1) (\<lambda>_ w2.
     if cp_tls p = None then (Inr (), w2) else record_skipped_tls e p (ev_id ev) addr w2))"

definition budget_failure :: "ctx_state \<Rightarrow> failure_class" where
  "budget_failure err = (if err = CtxDeadlineExceeded then FailureExecLocalTimeout else FailureExecCancelled)"

subsection \<open>One address\<close>

text \<open>\<open>handshake\<close>: the connection of the probe is taken, and the session is closed on every way out that does
  not take it. The result is the continuation, if the handshake gave one.\<close>

definition chain_handshake ::
    "env \<Rightarrow> chain_params \<Rightarrow> chain_tls \<Rightarrow> tcp_result \<Rightarrow> addr_port \<Rightarrow> world \<Rightarrow>
     (probe_error + continuation option) \<times> world" where
  "chain_handshake e p t connection addr w =
     (case take_conn (tr_owned connection) of
        None \<Rightarrow> (Inl ErrNotTaken, w)
      | Some (conn, _) \<Rightarrow>
          and_then (tls_handshake e conn (chain_tls_params p t addr) w) (\<lambda>session w1.
            (case record_evidence (sr_evidence session) (ev_id (tr_evidence connection)) w1 of
               (Inl err, w2) \<Rightarrow> (Inl err, snd (close_owned (sr_owned session) w2))
             | (Inr _, w2) \<Rightarrow>
                 (case take_conn (sr_owned session) of
                    None \<Rightarrow> (Inr None, snd (close_owned (sr_owned session) w2))
                  | Some (wrapped, _) \<Rightarrow>
                      (Inr (Some \<lparr>co_endpoint = chain_endpoint p, co_address = addr,
                          co_evidence = ev_id (sr_evidence session), co_channel = tls_channel session,
                          co_channel_evidence = ev_id (sr_evidence session), co_owned = own (Some wrapped)\<rparr>), w2)))))"

definition sweep_address ::
    "env \<Rightarrow> chain_params \<Rightarrow> evidence_id \<Rightarrow> addr_port \<Rightarrow> world \<Rightarrow> (probe_error + continuation option) \<times> world" where
  "sweep_address e p parent addr w =
     (case ask (en_ctx e) w of (ctx, w0) \<Rightarrow>
      if ctx \<noteq> CtxLive
      then and_then (record_unattempted e p parent addr (budget_failure ctx) w0) (\<lambda>_ w1. (Inr None, w1))
      else and_then (tcp_connect e (chain_endpoint p) addr (cp_scope p) w0) (\<lambda>connection w1.
        (case record_evidence (tr_evidence connection) parent w1 of
           (Inl err, w2) \<Rightarrow> (Inl err, snd (close_owned (tr_owned connection) w2))
         | (Inr _, w2) \<Rightarrow>
             if \<not> available (tr_owned connection) then
               (case cp_tls p of
                  None \<Rightarrow> (Inr None, snd (close_owned (tr_owned connection) w2))
                | Some _ \<Rightarrow>
                    (case record_skipped_tls e p (ev_id (tr_evidence connection)) addr w2 of
                       (Inl err, w3) \<Rightarrow> (Inl err, snd (close_owned (tr_owned connection) w3))
                     | (Inr _, w3) \<Rightarrow> (Inr None, snd (close_owned (tr_owned connection) w3))))
             else
               (case cp_tls p of
                  None \<Rightarrow>
                    (Inr (Some \<lparr>co_endpoint = chain_endpoint p, co_address = addr,
                        co_evidence = ev_id (tr_evidence connection), co_channel = ChannelPlaintext,
                        co_channel_evidence = [], co_owned = own (ow_conn (tr_owned connection))\<rparr>), w2)
                | Some t \<Rightarrow> chain_handshake e p t connection addr w2))))"

subsection \<open>The sweep\<close>

definition resolved_addresses :: "evidence \<Rightarrow> ip_addr list" where
  "resolved_addresses lookup =
     (case evidence_attribute lookup attr_dns_answers of (v, found) \<Rightarrow>
        if \<not> found then []
        else (case attr_get_host_list v of (answers, is_list) \<Rightarrow>
          if \<not> is_list then [] else List.map_filter parse_ip answers))"

definition locate :: "env \<Rightarrow> chain_params \<Rightarrow> world \<Rightarrow> (probe_error + ip_addr list \<times> evidence_id) \<times> world" where
  "locate e p w =
     (case ho_addr (chain_host p) of
        Some addr \<Rightarrow> (Inr ([addr], cp_parent p), w)
      | None \<Rightarrow>
          and_then (dns_lookup e (cp_host p) (cp_scope p) w) (\<lambda>lookup w1.
          and_then (record_evidence lookup (cp_parent p) w1) (\<lambda>_ w2.
          (Inr (resolved_addresses lookup, ev_id lookup), w2))))"

fun sweep_all ::
    "env \<Rightarrow> chain_params \<Rightarrow> evidence_id \<Rightarrow> ip_addr list \<Rightarrow> continuation list \<Rightarrow> world \<Rightarrow>
     (probe_error + continuation list) \<times> world" where
  "sweep_all e p parent [] conts w = (Inr conts, w)"
| "sweep_all e p parent (ip # ips) conts w =
     (case sweep_address e p parent \<lparr>ap_addr = Some ip, ap_port = cp_port p\<rparr> w of
        (Inl err, w1) \<Rightarrow> (Inl err, close_all conts w1)
      | (Inr None, w1) \<Rightarrow> sweep_all e p parent ips conts w1
      | (Inr (Some c), w1) \<Rightarrow> sweep_all e p parent ips (conts @ [c]) w1)"

definition run_chain :: "env \<Rightarrow> chain_params \<Rightarrow> world \<Rightarrow> (probe_error + continuation list) \<times> world" where
  "run_chain e p w =
     (case validate_chain p of
        Inl err \<Rightarrow> (Inl err, w)
      | Inr _ \<Rightarrow>
          and_then (locate e p w) (\<lambda>(ips, parent) w1. sweep_all e p parent ips [] w1))"

end
