(* ===== verification/Base64.thy ===== *)
theory Base64
  imports GoText
begin

text \<open>
  \<open>base64.StdEncoding\<close> of Go's standard library, as the SCRAM core uses it. Encoding pads with \<open>=\<close>.
  Decoding skips carriage returns and line feeds wherever they stand, requires the padding, takes
  nothing after it, and does not look at the bits a padded group leaves over.
\<close>

definition alphabet :: string where
  "alphabet = ''ABCDEFGHIJKLMNOPQRSTUVWXYZabcdefghijklmnopqrstuvwxyz0123456789+/''"

definition sextet_char :: "nat \<Rightarrow> char" where
  "sextet_char n = alphabet ! n"

definition char_sextet :: "char \<Rightarrow> nat option" where
  "char_sextet c =
     (if is_upper c then Some (code c - 65)
      else if is_lower c then Some (code c - 71)
      else if is_digit c then Some (code c + 4)
      else if c = CHR ''+'' then Some 62
      else if c = CHR ''/'' then Some 63
      else None)"

fun base64_encode :: "string \<Rightarrow> string" where
  "base64_encode [] = []"
| "base64_encode [a] =
     [sextet_char (code a div 4), sextet_char (code a mod 4 * 16), CHR ''='', CHR ''='']"
| "base64_encode [a, b] =
     [sextet_char (code a div 4), sextet_char (code a mod 4 * 16 + code b div 16),
      sextet_char (code b mod 16 * 4), CHR ''='']"
| "base64_encode (a # b # c # s) =
     [sextet_char (code a div 4), sextet_char (code a mod 4 * 16 + code b div 16),
      sextet_char (code b mod 16 * 4 + code c div 64), sextet_char (code c mod 64)] @ base64_encode s"

definition byte_at :: "nat \<Rightarrow> char" where
  "byte_at n = char_of (n mod 256)"

fun decode_groups :: "string \<Rightarrow> string option" where
  "decode_groups [] = Some []"
| "decode_groups (c1 # c2 # c3 # c4 # s) =
     (case (char_sextet c1, char_sextet c2, char_sextet c3, char_sextet c4) of
        (Some a, Some b, Some c, Some d) \<Rightarrow>
          map_option (\<lambda>t. byte_at (a * 4 + b div 16) # byte_at (b * 16 + c div 4)
            # byte_at (c * 64 + d) # t) (decode_groups s)
      | (Some a, Some b, Some c, None) \<Rightarrow>
          if c4 = CHR ''='' \<and> s = []
          then Some [byte_at (a * 4 + b div 16), byte_at (b * 16 + c div 4)] else None
      | (Some a, Some b, None, _) \<Rightarrow>
          if c3 = CHR ''='' \<and> c4 = CHR ''='' \<and> s = [] then Some [byte_at (a * 4 + b div 16)] else None
      | _ \<Rightarrow> None)"
| "decode_groups _ = None"

definition base64_decode :: "string \<Rightarrow> string option" where
  "base64_decode s = decode_groups (filter (\<lambda>c. c \<noteq> CHR 0x0A \<and> c \<noteq> CHR 0x0D) s)"

lemma char_sextet_range: "char_sextet c = Some n \<Longrightarrow> n < 64"
  by (auto simp: char_sextet_def is_upper_def is_lower_def is_digit_def split: if_splits)

lemma length_alphabet: "length alphabet = 64"
  by (simp add: alphabet_def)

lemma alphabet_values: "map char_sextet alphabet = map Some [0..<64]"
  by (simp add: alphabet_def char_sextet_def is_upper_def is_lower_def is_digit_def upt_rec)

lemma sextet_inverse:
  assumes "n < 64"
  shows "char_sextet (sextet_char n) = Some n"
proof -
  have "map char_sextet alphabet ! n = Some n"
    using assms by (simp add: alphabet_values)
  then show ?thesis
    using assms by (simp add: sextet_char_def length_alphabet)
qed

lemma sextet_not_break:
  assumes "n < 64"
  shows "sextet_char n \<noteq> CHR 0x0A" "sextet_char n \<noteq> CHR 0x0D" "sextet_char n \<noteq> CHR '',''"
    "sextet_char n \<noteq> CHR ''=''"
proof -
  have "\<forall>n\<in>set [0..<64]. sextet_char n \<notin> {CHR 0x0A, CHR 0x0D, CHR '','', CHR ''=''}"
    by code_simp
  then show "sextet_char n \<noteq> CHR 0x0A" "sextet_char n \<noteq> CHR 0x0D" "sextet_char n \<noteq> CHR '',''"
    "sextet_char n \<noteq> CHR ''=''"
    using assms by auto
qed

lemma code_less [simp]: "code c < 256"
  by simp

lemma sextet_bounds:
  fixes x y :: nat
  shows "x < 256 \<Longrightarrow> x div 4 < 64" "x mod 64 < 64" "x mod 4 * 16 < 64" "x mod 16 * 4 < 64"
    and "y < 256 \<Longrightarrow> x mod 4 * 16 + y div 16 < 64" "y < 256 \<Longrightarrow> x mod 16 * 4 + y div 64 < 64"
proof -
  have m: "x mod 4 < 4" "x mod 16 < 16" by simp_all
  then show "x mod 4 * 16 < 64" "x mod 16 * 4 < 64" by simp_all
  show "x < 256 \<Longrightarrow> x div 4 < 64" "x mod 64 < 64" by (simp_all add: less_mult_imp_div_less)
  assume "y < 256"
  then have "y div 16 < 16" "y div 64 < 4" by (simp_all add: less_mult_imp_div_less)
  then show "x mod 4 * 16 + y div 16 < 64" "x mod 16 * 4 + y div 64 < 64"
    using m by simp_all
qed

lemma base64_encode_chars: "set (base64_encode s) \<subseteq> insert (CHR ''='') (sextet_char ` {..<64})"
proof (induction s rule: base64_encode.induct)
  case (4 a b c s)
  have "{sextet_char (code a div 4), sextet_char (code a mod 4 * 16 + code b div 16),
      sextet_char (code b mod 16 * 4 + code c div 64), sextet_char (code c mod 64)} \<subseteq> sextet_char ` {..<64}"
    by (simp add: sextet_bounds imageI)
  then show ?case using 4 by auto
qed (auto intro!: imageI simp: sextet_bounds)

lemma base64_encode_no_break:
  assumes "c \<in> {CHR 0x0A, CHR 0x0D, CHR '',''}"
  shows "c \<notin> set (base64_encode s)"
proof
  assume "c \<in> set (base64_encode s)"
  then have "c = CHR ''='' \<or> (\<exists>n<64. c = sextet_char n)"
    using base64_encode_chars [of s] by auto
  then show False using assms sextet_not_break by auto
qed

lemma byte_at_code: "byte_at (code c + 256 * k) = c" "byte_at (code c) = c"
  by (simp_all add: byte_at_def)

lemma code_div_zero: "code c div 16 div 16 = 0" "code c div 64 div 4 = 0"
  by (simp_all add: div_mult2_eq [symmetric])

lemma pad_no_sextet: "char_sextet (CHR ''='') = None"
  by (simp add: char_sextet_def is_upper_def is_lower_def is_digit_def)

lemma decode_groups_encode: "decode_groups (base64_encode s) = Some s"
proof (induction s rule: base64_encode.induct)
  case (4 a b c s)
  then show ?case
    by (simp add: sextet_inverse sextet_bounds byte_at_code code_div_zero)
qed (simp_all add: sextet_inverse sextet_bounds byte_at_code code_div_zero pad_no_sextet)

lemma base64_roundtrip [simp]: "base64_decode (base64_encode s) = Some s"
proof -
  have "filter (\<lambda>c. c \<noteq> CHR 0x0A \<and> c \<noteq> CHR 0x0D) (base64_encode s) = base64_encode s"
    using base64_encode_no_break [of _ s] by (auto simp: filter_id_conv)
  then show ?thesis by (simp add: base64_decode_def decode_groups_encode)
qed

end
