(* ===== verification/Sha256.thy ===== *)
theory Sha256
  imports Base64 "HOL-Library.Word"
begin

unbundle bit_operations_syntax

text \<open>
  SHA-256 (FIPS 180-4) and HMAC (RFC 2104) on byte strings: what \<open>crypto/sha256\<close> and \<open>crypto/hmac\<close>
  compute for the SCRAM core. The proofs use of them only that a digest has 32 bytes.
\<close>

type_synonym word32 = "32 word"
type_synonym sha_state = "word32 \<times> word32 \<times> word32 \<times> word32 \<times> word32 \<times> word32 \<times> word32 \<times> word32"

text \<open>The initial state and the round constants, the first 32 bits of the fractional parts of square and
  cube roots of primes, as decimal numerals.\<close>

definition sha_start :: sha_state where
  "sha_start =
    (1779033703, 3144134277, 1013904242, 2773480762,
     1359893119, 2600822924, 528734635, 1541459225)"

definition sha_constants :: "word32 list" where
  "sha_constants =
    [1116352408, 1899447441, 3049323471, 3921009573, 961987163, 1508970993,
     2453635748, 2870763221, 3624381080, 310598401, 607225278, 1426881987,
     1925078388, 2162078206, 2614888103, 3248222580, 3835390401, 4022224774,
     264347078, 604807628, 770255983, 1249150122, 1555081692, 1996064986,
     2554220882, 2821834349, 2952996808, 3210313671, 3336571891, 3584528711,
     113926993, 338241895, 666307205, 773529912, 1294757372, 1396182291,
     1695183700, 1986661051, 2177026350, 2456956037, 2730485921, 2820302411,
     3259730800, 3345764771, 3516065817, 3600352804, 4094571909, 275423344,
     430227734, 506948616, 659060556, 883997877, 958139571, 1322822218,
     1537002063, 1747873779, 1955562222, 2024104815, 2227730452, 2361852424,
     2428436474, 2756734187, 3204031479, 3329325298]"

definition big_endian :: "nat \<Rightarrow> nat \<Rightarrow> string" where
  "big_endian len n = map (\<lambda>i. byte_at (n div 256 ^ (len - 1 - i))) [0..<len]"

definition from_big_endian :: "string \<Rightarrow> nat" where
  "from_big_endian s = foldl (\<lambda>acc c. acc * 256 + code c) 0 s"

definition sha_pad :: "string \<Rightarrow> string" where
  "sha_pad s = s @ [CHR 0x80] @ replicate ((119 - length s mod 64) mod 64) (CHR 0x00)
     @ big_endian 8 (8 * length s)"

function pieces :: "nat \<Rightarrow> string \<Rightarrow> string list" where
  "pieces n s = (if n = 0 \<or> length s < n then [] else take n s # pieces n (drop n s))"
  by pat_completeness auto
termination by (relation "measure (\<lambda>(n, s). length s)") auto

declare pieces.simps [simp del]

definition sha_schedule :: "word32 list \<Rightarrow> word32 list" where
  "sha_schedule block = fold (\<lambda>i w.
     let x = w ! (i - 15); y = w ! (i - 2);
         s0 = word_rotr 7 x XOR word_rotr 18 x XOR drop_bit 3 x;
         s1 = word_rotr 17 y XOR word_rotr 19 y XOR drop_bit 10 y
     in w @ [w ! (i - 16) + s0 + w ! (i - 7) + s1]) [16..<64] block"

fun sha_round :: "word32 \<times> word32 \<Rightarrow> sha_state \<Rightarrow> sha_state" where
  "sha_round (k, w) (a, b, c, d, e, f, g, h) =
     (let s1 = word_rotr 6 e XOR word_rotr 11 e XOR word_rotr 25 e;
          ch = (e AND f) XOR (NOT e AND g);
          t1 = h + s1 + ch + k + w;
          s0 = word_rotr 2 a XOR word_rotr 13 a XOR word_rotr 22 a;
          maj = (a AND b) XOR (a AND c) XOR (b AND c)
      in (t1 + (s0 + maj), a, b, c, d + t1, e, f, g))"

fun sha_add :: "sha_state \<Rightarrow> sha_state \<Rightarrow> sha_state" where
  "sha_add (a, b, c, d, e, f, g, h) (a', b', c', d', e', f', g', h') =
     (a + a', b + b', c + c', d + d', e + e', f + f', g + g', h + h')"

definition sha_block :: "string \<Rightarrow> sha_state \<Rightarrow> sha_state" where
  "sha_block piece st = sha_add st (fold sha_round (zip sha_constants
     (sha_schedule (map (\<lambda>p. of_nat (from_big_endian p)) (pieces 4 piece)))) st)"

fun sha_bytes :: "sha_state \<Rightarrow> string" where
  "sha_bytes (a, b, c, d, e, f, g, h) =
     concat (map (\<lambda>w. big_endian 4 (unat w)) [a, b, c, d, e, f, g, h])"

definition sha256 :: "string \<Rightarrow> string" where
  "sha256 s = sha_bytes (fold sha_block (pieces 64 (sha_pad s)) sha_start)"

lemma length_sha256 [simp]: "length (sha256 s) = 32"
proof -
  have "length (sha_bytes st) = 32" for st
    by (cases st rule: sha_bytes.cases) (simp add: big_endian_def)
  then show ?thesis by (simp add: sha256_def)
qed

definition byte_xor :: "char \<Rightarrow> char \<Rightarrow> char" where
  "byte_xor c d = byte_at (code c XOR code d)"

lemma byte_xor_cancel [simp]: "byte_xor (byte_xor a b) b = a"
proof -
  have "code (byte_xor a b) = code a XOR code b"
    by (simp add: byte_xor_def byte_at_def take_bit_eq_mod [of 8, symmetric, simplified] take_bit_xor)
      (simp add: take_bit_nat_eq_self)
  then show ?thesis
    by (simp add: byte_xor_def [of "byte_xor a b"] xor.assoc byte_at_code)
qed

definition hmac_key :: "string \<Rightarrow> string" where
  "hmac_key key = (let k = if 64 < length key then sha256 key else key
     in k @ replicate (64 - length k) (CHR 0x00))"

definition hmac_sha256 :: "string \<Rightarrow> string \<Rightarrow> string" where
  "hmac_sha256 key data = sha256 (map (byte_xor (CHR 0x5C)) (hmac_key key)
     @ sha256 (map (byte_xor (CHR 0x36)) (hmac_key key) @ data))"

lemma length_hmac [simp]: "length (hmac_sha256 key data) = 32"
  by (simp add: hmac_sha256_def)

end
