(* ===== verification/ByteOrder.thy ===== *)
theory ByteOrder
  imports Sha256
begin

text \<open>
  Big-endian integers of a fixed width as byte strings (\<open>encoding/binary\<close>), and the sequencing of steps that
  may fail on a connection, which the wire models share.
\<close>

text \<open>Byte strings of a fixed width and the words they are.\<close>

lemma from_big_endian_snoc: "from_big_endian (s @ [c]) = from_big_endian s * 256 + code c"
  by (simp add: from_big_endian_def)

lemma from_big_endian_Nil [simp]: "from_big_endian [] = 0"
  by (simp add: from_big_endian_def)

lemma from_big_endian_one [simp]: "from_big_endian [c] = code c"
  by (simp add: from_big_endian_def)

lemma from_big_endian_less: "from_big_endian s < 256 ^ length s"
proof (induction s rule: rev_induct)
  case (snoc c s)
  have "code c < 256" by simp
  then have "from_big_endian s * 256 + code c < 256 ^ length s * 256"
    using snoc by linarith
  then show ?case by (simp add: from_big_endian_snoc mult.commute)
qed simp

lemma length_big_endian [simp]: "length (big_endian n k) = n"
  by (simp add: big_endian_def)

lemma big_endian_Suc: "big_endian (Suc n) k = big_endian n (k div 256) @ [byte_at k]"
proof -
  have "byte_at (k div 256 ^ (n - i)) = byte_at (k div 256 div 256 ^ (n - 1 - i))" if "i < n" for i
  proof -
    have "n - i = Suc (n - 1 - i)" using that by simp
    then show ?thesis by (metis div_mult2_eq power_Suc)
  qed
  then show ?thesis by (auto simp: big_endian_def)
qed

lemma from_big_endian_inverse: "k < 256 ^ n \<Longrightarrow> from_big_endian (big_endian n k) = k"
proof (induction n arbitrary: k)
  case (Suc n)
  have "k div 256 < 256 ^ n" using Suc.prems by (simp add: less_mult_imp_div_less mult.commute)
  then show ?case
    using Suc.IH [of "k div 256"] by (simp add: big_endian_Suc from_big_endian_snoc byte_at_def)
qed (simp add: big_endian_def)

lemma big_endian_inverse: "big_endian (length b) (from_big_endian b) = b"
proof (induction b rule: rev_induct)
  case (snoc c b)
  then show ?case by (simp add: big_endian_Suc from_big_endian_snoc byte_at_def)
qed (simp add: big_endian_def)

lemma word16_bytes: "length b = 2 \<Longrightarrow> (of_nat (from_big_endian b) :: 16 word) = w \<longleftrightarrow> b = big_endian 2 (unat w)"
proof -
  assume b: "length b = 2"
  have u: "unat (of_nat (from_big_endian b) :: 16 word) = from_big_endian b"
    using from_big_endian_less [of b] b by (simp add: unat_of_nat)
  have "unat w < 2 ^ LENGTH(16)" by (rule unsigned_less)
  then have "from_big_endian (big_endian 2 (unat w)) = unat w"
    by (intro from_big_endian_inverse) simp
  then have "b = big_endian 2 (unat w) \<longleftrightarrow> from_big_endian b = unat w"
    using big_endian_inverse [of b] b by metis
  then show ?thesis using u by (metis word_unat_eq_iff)
qed

end
