(* ===== verification/Scram.thy ===== *)
theory Scram
  imports Prelude Sha256
begin

text \<open>
  The SCRAM-SHA-256 client core (\<open>sasl/scram\<close>): preparing the user name, parsing what the server
  sends, and the exchange as a one-shot state machine. The server's challenge, the derivation of the
  salted password and the source of nonces are arguments.
\<close>

datatype scram_error =
  ErrMalformedMessage | ErrUnexpectedResponse | ErrMessageTooLarge | ErrUsernameUnsupported
  | ErrIterationsUnsupported | ErrNoDerivation | ErrDerivationFailed | ErrDerivedKeyLength
  | ErrRejected | ErrServerSignatureMismatch | ErrWrongStep | ErrNonceSource

subsection \<open>User names and printable text\<close>

definition max_username_len :: nat where "max_username_len = 256"

definition printable_ascii :: "string \<Rightarrow> bool" where
  "printable_ascii s \<longleftrightarrow> list_all (\<lambda>c. \<not> (code c < 0x20 \<or> 0x7e < code c)) s"

definition printable_rfc :: "string \<Rightarrow> bool" where
  "printable_rfc s \<longleftrightarrow>
     list_all (\<lambda>c. 0x21 \<le> code c \<and> code c \<le> 0x2b \<or> 0x2d \<le> code c \<and> code c \<le> 0x7e) s"

fun encoded_length :: "string \<Rightarrow> nat" where
  "encoded_length [] = 0"
| "encoded_length (c # s) = (if c = CHR '','' \<or> c = CHR ''='' then 3 else 1) + encoded_length s"

fun escape_name :: "string \<Rightarrow> string" where
  "escape_name [] = []"
| "escape_name (c # s) =
     (if c = CHR '','' then ''=2C'' else if c = CHR ''='' then ''=3D'' else [c]) @ escape_name s"

definition encode_saslname :: "string \<Rightarrow> scram_error + string" where
  "encode_saslname user =
     (if max_username_len < length user then Inl ErrUsernameUnsupported
      else if \<not> printable_ascii user then Inl ErrUsernameUnsupported
      else if encoded_length user = length user then Inr user
      else Inr (escape_name user))"

subsection \<open>Server messages\<close>

definition max_server_first_len :: nat where "max_server_first_len = 8192"
definition max_server_final_len :: nat where "max_server_final_len = 8192"
definition max_salt_len :: nat where "max_salt_len = 1024"
definition max_salt_encoded_len :: nat where "max_salt_encoded_len = (max_salt_len + 2) div 3 * 4"
definition max_nonce_len :: nat where "max_nonce_len = 1024"
definition max_attributes :: nat where "max_attributes = 32"
definition max_iterations :: nat where "max_iterations = 1048576"

function attributes :: "nat \<Rightarrow> string \<Rightarrow> (char \<Rightarrow> string \<Rightarrow> 's \<Rightarrow> scram_error + 's) \<Rightarrow> 's \<Rightarrow>
    scram_error + 's" where
  "attributes seen raw visit st =
     (if max_attributes \<le> seen then Inl ErrMessageTooLarge
      else case cut_at (CHR '','') raw of (attr, rest, found) \<Rightarrow>
        if length attr < 2 \<or> attr ! 1 \<noteq> CHR ''='' then Inl ErrMalformedMessage
        else rbind (visit (attr ! 0) (drop 2 attr) st) (\<lambda>st'.
          if \<not> found then Inr st' else attributes (seen + 1) rest visit st'))"
  by pat_completeness auto
termination by (relation "measure (\<lambda>(seen, raw, visit, st). max_attributes - seen)") auto

declare attributes.simps [simp del]

record first_fields =
  ff_nonce :: "string option"
  ff_salt :: "string option"
  ff_iterations :: "string option"

definition visit_first :: "char \<Rightarrow> string \<Rightarrow> first_fields \<Rightarrow> scram_error + first_fields" where
  "visit_first key v st =
     (if key = CHR ''r'' then
        if ff_nonce st \<noteq> None then Inl ErrMalformedMessage else Inr (st\<lparr>ff_nonce := Some v\<rparr>)
      else if key = CHR ''s'' then
        if ff_salt st \<noteq> None then Inl ErrMalformedMessage else Inr (st\<lparr>ff_salt := Some v\<rparr>)
      else if key = CHR ''i'' then
        if ff_iterations st \<noteq> None then Inl ErrMalformedMessage else Inr (st\<lparr>ff_iterations := Some v\<rparr>)
      else if key = CHR ''m'' then Inl ErrUnexpectedResponse
      else Inr st)"

definition parse_iterations :: "string \<Rightarrow> scram_error + nat" where
  "parse_iterations v =
     (if v = [] then Inl ErrMalformedMessage
      else if \<not> list_all is_digit v then Inl ErrMalformedMessage
      else if 2 ^ 64 \<le> decimal_value v then Inl ErrIterationsUnsupported
      else if decimal_value v = 0 then Inl ErrMalformedMessage
      else if max_iterations < decimal_value v then Inl ErrIterationsUnsupported
      else Inr (decimal_value v))"

record server_first =
  sf_nonce :: string
  sf_salt :: string
  sf_iterations :: nat

text \<open>The checks on the three values, in the order the code makes them.\<close>

definition check_server_first :: "string \<Rightarrow> string \<Rightarrow> string \<Rightarrow> string \<Rightarrow> scram_error + server_first" where
  "check_server_first client_nonce nonce salt_text iter_text =
     (if max_nonce_len < length nonce then Inl ErrMessageTooLarge
      else if \<not> printable_rfc nonce then Inl ErrMalformedMessage
      else if length nonce \<le> length client_nonce \<or> take (length client_nonce) nonce \<noteq> client_nonce
      then Inl ErrMalformedMessage
      else if max_salt_encoded_len < length salt_text then Inl ErrMessageTooLarge
      else (case base64_decode salt_text of
          None \<Rightarrow> Inl ErrMalformedMessage
        | Some salt \<Rightarrow>
            if max_salt_len < length salt then Inl ErrMessageTooLarge
            else rbind (parse_iterations iter_text) (\<lambda>n.
              Inr \<lparr>sf_nonce = nonce, sf_salt = salt, sf_iterations = n\<rparr>)))"

definition parse_server_first :: "string \<Rightarrow> string \<Rightarrow> scram_error + server_first" where
  "parse_server_first raw client_nonce =
     (if max_server_first_len < length raw then Inl ErrMessageTooLarge
      else rbind (attributes 0 raw visit_first \<lparr>ff_nonce = None, ff_salt = None, ff_iterations = None\<rparr>) (\<lambda>ff.
        case (ff_nonce ff, ff_salt ff, ff_iterations ff) of
          (Some nonce, Some salt_text, Some iter_text) \<Rightarrow>
            check_server_first client_nonce nonce salt_text iter_text
        | _ \<Rightarrow> Inl ErrMalformedMessage))"

definition verify_server_final :: "string \<Rightarrow> string \<Rightarrow> scram_error + unit" where
  "verify_server_final raw expected =
     (if max_server_final_len < length raw then Inl ErrMessageTooLarge
      else case cut_at (CHR '','') raw of (attr, _, _) \<Rightarrow>
        if length attr < 2 \<or> attr ! 1 \<noteq> CHR ''='' then Inl ErrMalformedMessage
        else if attr ! 0 = CHR ''e'' then
          if drop 2 attr \<in> {''invalid-proof'', ''unknown-user''} then Inl ErrRejected
          else Inl ErrUnexpectedResponse
        else if attr ! 0 = CHR ''v'' then
          (case base64_decode (drop 2 attr) of
             None \<Rightarrow> Inl ErrMalformedMessage
           | Some signature \<Rightarrow>
               if signature \<noteq> expected then Inl ErrServerSignatureMismatch else Inr ())
        else Inl ErrMalformedMessage)"

subsection \<open>The exchange\<close>

datatype scram_step = StepBegun | StepContinued | StepDone | StepFailed

record scram_state =
  sc_step :: scram_step
  sc_first_bare :: string
  sc_nonce :: string
  sc_expected :: string

type_synonym derivation = "string \<Rightarrow> nat \<Rightarrow> string option"

definition derived_key_len :: nat where "derived_key_len = 32"
definition gs2_header :: string where "gs2_header = ''n,,''"

definition scram_begin :: "string \<Rightarrow> scram_error + string \<Rightarrow> scram_error + scram_state \<times> string" where
  "scram_begin user nonces =
     rbind (encode_saslname user) (\<lambda>encoded.
     rbind nonces (\<lambda>nonce.
       let bare = ''n='' @ encoded @ '',r='' @ nonce
       in Inr (\<lparr>sc_step = StepBegun, sc_first_bare = bare, sc_nonce = nonce, sc_expected = []\<rparr>, bare)))"

definition scram_finish :: "scram_state \<Rightarrow> string \<Rightarrow> server_first \<Rightarrow> string \<Rightarrow> string \<times> string" where
  "scram_finish st raw first salted =
     (let client_key = hmac_sha256 salted ''Client Key'';
          stored_key = sha256 client_key;
          without_proof = ''c='' @ base64_encode gs2_header @ '',r='' @ sf_nonce first;
          auth_message = sc_first_bare st @ '','' @ raw @ '','' @ without_proof;
          client_signature = hmac_sha256 stored_key auth_message;
          proof_bytes = map2 byte_xor client_key client_signature;
          server_key = hmac_sha256 salted ''Server Key''
      in (without_proof @ '',p='' @ base64_encode proof_bytes, hmac_sha256 server_key auth_message))"

definition scram_continue :: "string \<Rightarrow> derivation option \<Rightarrow> scram_state \<Rightarrow>
    (scram_error + string) \<times> scram_state" where
  "scram_continue raw derive st =
     (if sc_step st \<noteq> StepBegun then (Inl ErrWrongStep, st)
      else case derive of
        None \<Rightarrow> (Inl ErrNoDerivation, st\<lparr>sc_step := StepFailed\<rparr>)
      | Some f \<Rightarrow>
          (case parse_server_first raw (sc_nonce st) of
             Inl e \<Rightarrow> (Inl e, st\<lparr>sc_step := StepFailed\<rparr>)
           | Inr first \<Rightarrow>
               (case f (sf_salt first) (sf_iterations first) of
                  None \<Rightarrow> (Inl ErrDerivationFailed, st\<lparr>sc_step := StepFailed\<rparr>)
                | Some salted \<Rightarrow>
                    if length salted \<noteq> derived_key_len
                    then (Inl ErrDerivedKeyLength, st\<lparr>sc_step := StepFailed\<rparr>)
                    else (case scram_finish st raw first salted of (client_final, expected) \<Rightarrow>
                      (Inr client_final, \<lparr>sc_step = StepContinued, sc_first_bare = [], sc_nonce = [],
                         sc_expected = expected\<rparr>)))))"

definition scram_verify :: "string \<Rightarrow> scram_state \<Rightarrow> (scram_error + unit) \<times> scram_state" where
  "scram_verify raw st =
     (if sc_step st \<noteq> StepContinued then (Inl ErrWrongStep, st)
      else case verify_server_final raw (sc_expected st) of
        Inl e \<Rightarrow> (Inl e, st\<lparr>sc_expected := [], sc_step := StepFailed\<rparr>)
      | Inr _ \<Rightarrow> (Inr (), st\<lparr>sc_expected := [], sc_step := StepDone\<rparr>))"

end
