(* ===== verification/PgWire.thy ===== *)
theory PgWire
  imports ByteOrder Resp Scram GoText
begin

text \<open>
  The PostgreSQL v3 messages svcdoctor reads and writes (\<open>adapter/postgres/wire\<close>): frames, the fields of an
  error, the authentication request, SSLRequest, startup, the session messages and the SCRAM exchange over
  them. A connection is the bytes still to come, how they end, how a write fails if it does, and the bytes
  sent. Deadlines and cancellation belong to the transport and show as failing reads and writes.
\<close>

subsection \<open>Connections\<close>

datatype pg_error =
  PgPeerClosed | PgMalformed | PgFrameTooLarge | PgUnexpected | PgSurplusBytes | PgInvalidInput
  | PgPasswordUnsupported | PgLocalDerivation | PgScramParameters | PgScram scram_error | PgTransport

record pg_conn =
  pg_rest :: string
  pg_end :: read_end
  pg_write_end :: "read_end option"
  pg_sent :: string

definition pg_io_error :: "read_end \<Rightarrow> pg_error" where
  "pg_io_error e = (case e of EndOfFile \<Rightarrow> PgPeerClosed | ReadFails \<Rightarrow> PgTransport)"

definition pg_read_full :: "nat \<Rightarrow> pg_conn \<Rightarrow> (pg_error + string) \<times> pg_conn" where
  "pg_read_full n c =
     (if length (pg_rest c) < n then (Inl (pg_io_error (pg_end c)), c\<lparr>pg_rest := []\<rparr>)
      else (Inr (take n (pg_rest c)), c\<lparr>pg_rest := drop n (pg_rest c)\<rparr>))"

definition pg_write_all :: "string \<Rightarrow> pg_conn \<Rightarrow> (pg_error + unit) \<times> pg_conn" where
  "pg_write_all bytes c =
     (case pg_write_end c of
        Some e \<Rightarrow> (Inl (pg_io_error e), c)
      | None \<Rightarrow> (Inr (), c\<lparr>pg_sent := pg_sent c @ bytes\<rparr>))"

definition translate_scram :: "scram_error \<Rightarrow> pg_error" where
  "translate_scram e =
     (case e of
        ErrIterationsUnsupported \<Rightarrow> PgScram e
      | ErrServerSignatureMismatch \<Rightarrow> PgScram e
      | ErrRejected \<Rightarrow> PgScram e
      | ErrMalformedMessage \<Rightarrow> PgMalformed
      | ErrUnexpectedResponse \<Rightarrow> PgUnexpected
      | ErrMessageTooLarge \<Rightarrow> PgScramParameters
      | ErrUsernameUnsupported \<Rightarrow> PgLocalDerivation
      | ErrNoDerivation \<Rightarrow> PgLocalDerivation
      | ErrDerivationFailed \<Rightarrow> PgLocalDerivation
      | ErrDerivedKeyLength \<Rightarrow> PgLocalDerivation
      | ErrWrongStep \<Rightarrow> PgLocalDerivation
      | _ \<Rightarrow> PgScram e)"

subsection \<open>Frames\<close>

definition max_message_size :: nat where "max_message_size = 1048576"
definition msg_authentication :: char where "msg_authentication = CHR ''R''"
definition msg_error_response :: char where "msg_error_response = CHR ''E''"
definition msg_notice_response :: char where "msg_notice_response = CHR ''N''"
definition msg_negotiate_version :: char where "msg_negotiate_version = CHR ''v''"
definition msg_sasl_response :: char where "msg_sasl_response = CHR ''p''"
definition frame_header_overhead :: nat where "frame_header_overhead = 4"

record pg_message =
  pm_type :: char
  pm_body :: string

definition read_pg_message :: "pg_conn \<Rightarrow> (pg_error + pg_message) \<times> pg_conn" where
  "read_pg_message c =
     and_then (pg_read_full 5 c) (\<lambda>header c1.
       let len = (of_nat (from_big_endian (take 4 (drop 1 header))) :: 32 word)
       in if len < 4 then (Inl PgMalformed, c1)
          else
            let body_len = len - 4
            in if of_nat max_message_size < body_len then (Inl PgFrameTooLarge, c1)
               else if body_len = 0 then (Inr \<lparr>pm_type = header ! 0, pm_body = []\<rparr>, c1)
               else and_then (pg_read_full (unat body_len) c1) (\<lambda>body c2.
                 (Inr \<lparr>pm_type = header ! 0, pm_body = body\<rparr>, c2)))"

definition bounded_length :: "nat \<Rightarrow> 32 word" where
  "bounded_length n = (if max_message_size + frame_header_overhead < n
     then of_nat (max_message_size + frame_header_overhead) else of_nat n)"

definition encode_pg_message :: "char \<Rightarrow> string \<Rightarrow> pg_error + string" where
  "encode_pg_message kind body =
     (if max_message_size < length body then Inl PgInvalidInput
      else Inr ([kind] @ big_endian 4 (unat (bounded_length (4 + length body))) @ body))"

subsection \<open>The fields of an error\<close>

record error_fields =
  ef_sqlstate :: string
  ef_severity :: string
  ef_native :: bool

definition no_fields :: error_fields where
  "no_fields = \<lparr>ef_sqlstate = [], ef_severity = [], ef_native = False\<rparr>"

definition error_fields_zero :: "error_fields \<Rightarrow> bool" where
  "error_fields_zero f \<longleftrightarrow> ef_sqlstate f = [] \<and> ef_severity f = [] \<and> \<not> ef_native f"

definition valid_sqlstate :: "string \<Rightarrow> bool" where
  "valid_sqlstate v \<longleftrightarrow> (if length v \<noteq> 5 then False
     else list_all (\<lambda>c. is_digit c \<or> is_upper c \<or> is_lower c) v)"

definition pg_severities :: "string list" where
  "pg_severities = [''ERROR'', ''FATAL'', ''PANIC'', ''WARNING'', ''NOTICE'', ''DEBUG'', ''INFO'', ''LOG'']"

definition valid_severity :: "string \<Rightarrow> bool" where
  "valid_severity v \<longleftrightarrow> v \<in> set pg_severities"

definition take_error_field :: "char \<Rightarrow> string \<Rightarrow> error_fields \<Rightarrow> error_fields" where
  "take_error_field key v out =
     (if key = CHR ''C'' then
        (if ef_sqlstate out = [] \<and> valid_sqlstate v then out\<lparr>ef_sqlstate := v\<rparr> else out)
      else if key = CHR ''V'' then
        (if \<not> ef_native out
         then (let out1 = out\<lparr>ef_native := True\<rparr>
               in if valid_severity v then out1\<lparr>ef_severity := v\<rparr> else out1)
         else out)
      else out)"

text \<open>The cut at the next NUL ends a shorter rest, which is why the loops over a body end.\<close>

lemma cut_at_shorter: "(a, b, f) = cut_at d s \<Longrightarrow> f \<Longrightarrow> length b < length s"
  using cut_at_found [of d s a b] by auto

function decode_error_from :: "string \<Rightarrow> error_fields \<Rightarrow> pg_error + error_fields" where
  "decode_error_from body out =
     (case body of
        [] \<Rightarrow> Inl PgMalformed
      | key # rest \<Rightarrow>
          if key = CHR 0x00 then Inr out
          else (case cut_at (CHR 0x00) rest of (v, tail, found) \<Rightarrow>
            if \<not> found then Inl PgMalformed else decode_error_from tail (take_error_field key v out)))"
  by pat_completeness auto
termination
  by (relation "measure (\<lambda>(body, out). length body)") (auto dest: cut_at_shorter)

declare decode_error_from.simps [simp del]

definition decode_error_fields :: "string \<Rightarrow> pg_error + error_fields" where
  "decode_error_fields body = decode_error_from body no_fields"

subsection \<open>The authentication request\<close>

datatype auth_method =
  AuthMethodUnknown | AuthMethodOK | AuthMethodKerberosV5 | AuthMethodCleartextPassword
  | AuthMethodMD5Password | AuthMethodSCMCredential | AuthMethodGSS | AuthMethodGSSContinue
  | AuthMethodSSPI | AuthMethodSASL | AuthMethodSASLContinue | AuthMethodSASLFinal

fun auth_method_name :: "auth_method \<Rightarrow> string" where
  "auth_method_name AuthMethodUnknown = ''unknown''"
| "auth_method_name AuthMethodOK = ''ok''"
| "auth_method_name AuthMethodKerberosV5 = ''kerberos''"
| "auth_method_name AuthMethodCleartextPassword = ''cleartext''"
| "auth_method_name AuthMethodMD5Password = ''md5''"
| "auth_method_name AuthMethodSCMCredential = ''scm''"
| "auth_method_name AuthMethodGSS = ''gss''"
| "auth_method_name AuthMethodGSSContinue = ''gss-continue''"
| "auth_method_name AuthMethodSSPI = ''sspi''"
| "auth_method_name AuthMethodSASL = ''sasl''"
| "auth_method_name AuthMethodSASLContinue = ''sasl-continue''"
| "auth_method_name AuthMethodSASLFinal = ''sasl-final''"

definition auth_methods_by_code :: "(32 word \<times> auth_method) list" where
  "auth_methods_by_code = [(0, AuthMethodOK), (2, AuthMethodKerberosV5), (3, AuthMethodCleartextPassword),
     (5, AuthMethodMD5Password), (6, AuthMethodSCMCredential), (7, AuthMethodGSS), (8, AuthMethodGSSContinue),
     (9, AuthMethodSSPI), (10, AuthMethodSASL), (11, AuthMethodSASLContinue), (12, AuthMethodSASLFinal)]"

definition auth_method_by_code :: "32 word \<Rightarrow> auth_method" where
  "auth_method_by_code n = (case map_of auth_methods_by_code n of Some m \<Rightarrow> m | None \<Rightarrow> AuthMethodUnknown)"

record auth_request =
  aq_method :: auth_method
  aq_code :: "32 word"
  aq_mechanisms :: "string list"

function decode_mechanisms :: "string \<Rightarrow> pg_error + string list" where
  "decode_mechanisms body =
     (case body of
        [] \<Rightarrow> Inl PgMalformed
      | c # _ \<Rightarrow>
          if c = CHR 0x00 then Inr []
          else (case cut_at (CHR 0x00) body of (name, tail, found) \<Rightarrow>
            if \<not> found then Inl PgMalformed
            else rbind (decode_mechanisms tail) (\<lambda>names. Inr (name # names))))"
  by pat_completeness auto
termination
  by (relation "measure length") (auto simp del: cut_at.simps dest: cut_at_shorter)

declare decode_mechanisms.simps [simp del]

definition auth_code_and_payload :: "string \<Rightarrow> pg_error + 32 word \<times> string" where
  "auth_code_and_payload body =
     (if length body < 4 then Inl PgMalformed
      else Inr (of_nat (from_big_endian (take 4 body)), drop 4 body))"

definition decode_auth_request :: "string \<Rightarrow> pg_error + auth_request" where
  "decode_auth_request body =
     (if length body < 4 then Inl PgMalformed
      else
        let n = (of_nat (from_big_endian (take 4 body)) :: 32 word);
            out = \<lparr>aq_method = auth_method_by_code n, aq_code = n, aq_mechanisms = []\<rparr>
        in if aq_method out \<noteq> AuthMethodSASL then Inr out
           else rbind (decode_mechanisms (drop 4 body)) (\<lambda>ms. Inr (out\<lparr>aq_mechanisms := ms\<rparr>)))"

subsection \<open>SSLRequest\<close>

definition ssl_request_code :: nat where "ssl_request_code = 80877103"

datatype ssl_response = SSLAccepted | SSLDeclined | SSLErrored

fun ssl_response_name :: "ssl_response \<Rightarrow> string" where
  "ssl_response_name SSLAccepted = ''accepted''"
| "ssl_response_name SSLDeclined = ''declined''"
| "ssl_response_name SSLErrored = ''errored''"

definition encode_ssl_request :: string where
  "encode_ssl_request = big_endian 4 8 @ big_endian 4 ssl_request_code"

text \<open>One read into two bytes: what it delivered, and its error if it had one.\<close>

definition read_ssl_response :: "string \<Rightarrow> read_end option \<Rightarrow> pg_error + ssl_response" where
  "read_ssl_response chunk err =
     (if chunk = [] then
        (case err of Some e \<Rightarrow> Inl (pg_io_error e) | None \<Rightarrow> Inl PgPeerClosed)
      else if 1 < length chunk then Inl PgSurplusBytes
      else if chunk ! 0 = CHR ''S'' then Inr SSLAccepted
      else if chunk ! 0 = CHR ''N'' then Inr SSLDeclined
      else if chunk ! 0 = CHR ''E'' then Inr SSLErrored
      else Inl PgUnexpected)"

text \<open>The read may deliver any non-empty part of what has arrived, up to its two bytes; \<open>n\<close> tells how many
  bytes had arrived.\<close>

definition send_ssl_request :: "nat \<Rightarrow> pg_conn \<Rightarrow> (pg_error + ssl_response) \<times> pg_conn" where
  "send_ssl_request n c =
     and_then (pg_write_all encode_ssl_request c) (\<lambda>_ c1.
       let chunk = take (min n 2) (pg_rest c1)
       in (read_ssl_response chunk (if pg_rest c1 = [] then Some (pg_end c1) else None),
           c1\<lparr>pg_rest := drop (length chunk) (pg_rest c1)\<rparr>))"

subsection \<open>Startup\<close>

definition protocol_version_30 :: nat where "protocol_version_30 = 196608"
definition max_startup_parameters :: nat where "max_startup_parameters = 16"

record startup_params =
  sp_user :: string
  sp_database :: string

definition validate_startup :: "startup_params \<Rightarrow> pg_error + unit" where
  "validate_startup p =
     (if sp_user p = [] then Inl PgInvalidInput
      else if CHR 0x00 \<in> set (sp_user p) \<or> CHR 0x00 \<in> set (sp_database p) then Inl PgInvalidInput
      else Inr ())"

definition startup_pairs :: "startup_params \<Rightarrow> string list" where
  "startup_pairs p = [''user'', sp_user p] @ (if sp_database p \<noteq> [] then [''database'', sp_database p] else [])"

definition encode_startup :: "startup_params \<Rightarrow> pg_error + string" where
  "encode_startup p =
     rbind (validate_startup p) (\<lambda>_.
       let pairs = startup_pairs p
       in if max_startup_parameters < length pairs div 2 then Inl PgInvalidInput
          else
            let total = fold (\<lambda>s n. n + length s + 1) pairs (4 + 4 + 1)
            in Inr (big_endian 4 total @ big_endian 4 protocol_version_30
                 @ concat (map (\<lambda>s. s @ [CHR 0x00]) pairs) @ [CHR 0x00]))"

definition send_startup :: "startup_params \<Rightarrow> pg_conn \<Rightarrow> (pg_error + unit) \<times> pg_conn" where
  "send_startup p c = (case encode_startup p of Inl e \<Rightarrow> (Inl e, c) | Inr bytes \<Rightarrow> pg_write_all bytes c)"

subsection \<open>The session\<close>

definition msg_parameter_status :: char where "msg_parameter_status = CHR ''S''"
definition msg_backend_key_data :: char where "msg_backend_key_data = CHR ''K''"
definition msg_ready_for_query :: char where "msg_ready_for_query = CHR ''Z''"
definition msg_terminate :: char where "msg_terminate = CHR ''X''"
definition transaction_idle :: char where "transaction_idle = CHR ''I''"
definition transaction_active :: char where "transaction_active = CHR ''T''"
definition transaction_failed :: char where "transaction_failed = CHR ''E''"
definition backend_key_data_minimum :: nat where "backend_key_data_minimum = 8"

text \<open>A parameter is \<open>None\<close> until it is reported.\<close>

record session_parameters =
  ss_server_version :: "string option"
  ss_in_hot_standby :: "string option"
  ss_default_read_only :: "string option"
  ss_is_superuser :: "string option"

definition decode_parameter_status :: "string \<Rightarrow> pg_error + string \<times> string" where
  "decode_parameter_status body =
     (case cut_at (CHR 0x00) body of (key, rest, found) \<Rightarrow>
        if \<not> found then Inl PgMalformed
        else (case cut_at (CHR 0x00) rest of (v, tail, found2) \<Rightarrow>
          if \<not> found2 then Inl PgMalformed
          else if tail \<noteq> [] then Inl PgMalformed
          else Inr (key, v)))"

definition apply_parameter_status :: "string \<Rightarrow> session_parameters \<Rightarrow> pg_error + session_parameters" where
  "apply_parameter_status body p =
     rbind (decode_parameter_status body) (\<lambda>(key, v).
       if key = ''server_version'' then Inr (p\<lparr>ss_server_version := Some v\<rparr>)
       else if key = ''in_hot_standby'' then Inr (p\<lparr>ss_in_hot_standby := Some v\<rparr>)
       else if key = ''default_transaction_read_only'' then Inr (p\<lparr>ss_default_read_only := Some v\<rparr>)
       else if key = ''is_superuser'' then Inr (p\<lparr>ss_is_superuser := Some v\<rparr>)
       else Inr p)"

definition validate_backend_key_data :: "string \<Rightarrow> pg_error + unit" where
  "validate_backend_key_data body =
     (if length body < backend_key_data_minimum then Inl PgMalformed else Inr ())"

definition decode_ready_for_query :: "string \<Rightarrow> pg_error + char" where
  "decode_ready_for_query body =
     (if length body \<noteq> 1 then Inl PgMalformed
      else if body ! 0 \<in> {transaction_idle, transaction_active, transaction_failed} then Inr (body ! 0)
      else Inl PgMalformed)"

definition transaction_status_name :: "char \<Rightarrow> string" where
  "transaction_status_name s =
     (if s = transaction_idle then ''idle''
      else if s = transaction_active then ''in-transaction''
      else if s = transaction_failed then ''failed-transaction''
      else ''unknown'')"

definition encode_terminate :: string where
  "encode_terminate = [msg_terminate] @ big_endian 4 4"

definition send_terminate :: "pg_conn \<Rightarrow> (pg_error + unit) \<times> pg_conn" where
  "send_terminate c = pg_write_all encode_terminate c"

subsection \<open>SCRAM over the messages\<close>

definition mechanism_scram_sha256 :: string where "mechanism_scram_sha256 = ''SCRAM-SHA-256''"
definition auth_code_ok :: "32 word" where "auth_code_ok = 0"
definition auth_code_sasl_continue :: "32 word" where "auth_code_sasl_continue = 11"
definition auth_code_sasl_final :: "32 word" where "auth_code_sasl_final = 12"
definition max_notices :: nat where "max_notices = 32"

text \<open>Reading up to \<open>k\<close> messages until one is not a notice. An error the server reports comes with its fields.\<close>

fun read_auth_step :: "nat \<Rightarrow> pg_conn \<Rightarrow> ((pg_error \<times> error_fields) + pg_message) \<times> pg_conn" where
  "read_auth_step 0 c = (Inl (PgUnexpected, no_fields), c)"
| "read_auth_step (Suc k) c =
     (case read_pg_message c of
        (Inl e, c1) \<Rightarrow> (Inl (e, no_fields), c1)
      | (Inr msg, c1) \<Rightarrow>
          if pm_type msg = msg_notice_response then read_auth_step k c1
          else if pm_type msg = msg_authentication then (Inr msg, c1)
          else if pm_type msg = msg_error_response then
            (case decode_error_fields (pm_body msg) of
               Inl e \<Rightarrow> (Inl (e, no_fields), c1)
             | Inr f \<Rightarrow> (Inl (PgUnexpected, f), c1))
          else (Inl (PgUnexpected, no_fields), c1))"

definition read_sasl_payload :: "32 word \<Rightarrow> pg_conn \<Rightarrow> ((pg_error \<times> error_fields) + string) \<times> pg_conn" where
  "read_sasl_payload want c =
     and_then (read_auth_step (max_notices + 1) c) (\<lambda>msg c1.
       case auth_code_and_payload (pm_body msg) of
         Inl e \<Rightarrow> (Inl (e, no_fields), c1)
       | Inr (n, payload) \<Rightarrow>
           if n \<noteq> want then (Inl (PgUnexpected, no_fields), c1) else (Inr payload, c1))"

definition read_authentication_ok :: "pg_conn \<Rightarrow> ((pg_error \<times> error_fields) + unit) \<times> pg_conn" where
  "read_authentication_ok c =
     and_then (read_auth_step (max_notices + 1) c) (\<lambda>msg c1.
       case auth_code_and_payload (pm_body msg) of
         Inl e \<Rightarrow> (Inl (e, no_fields), c1)
       | Inr (n, payload) \<Rightarrow>
           if n \<noteq> auth_code_ok \<or> payload \<noteq> [] then (Inl (PgUnexpected, no_fields), c1) else (Inr (), c1))"

definition sasl_initial_response :: "string \<Rightarrow> pg_error + string" where
  "sasl_initial_response payload =
     (if max_message_size < length payload then Inl PgInvalidInput
      else encode_pg_message msg_sasl_response
        (mechanism_scram_sha256 @ [CHR 0x00] @ big_endian 4 (unat (bounded_length (length payload))) @ payload))"

definition sasl_response :: "string \<Rightarrow> pg_error + string" where
  "sasl_response payload = encode_pg_message msg_sasl_response payload"

record pg_scram =
  ps_iterations :: nat
  ps_verified :: bool
  ps_complete :: bool
  ps_fields :: error_fields

definition pg_scram_zero :: pg_scram where
  "pg_scram_zero = \<lparr>ps_iterations = 0, ps_verified = False, ps_complete = False, ps_fields = no_fields\<rparr>"

text \<open>What \<open>authenticateSCRAM\<close> returns: the observation and its error. The nonce comes from the system's random
  source and \<open>pbkdf2\<close> is the standard library's key derivation; both are arguments. The derivation sees
  the iterations exactly when the server's first message parses.\<close>

type_synonym pg_scram_result = "pg_scram \<times> pg_error option \<times> pg_conn"

definition asked_iterations :: "string \<Rightarrow> scram_state \<Rightarrow> nat" where
  "asked_iterations raw st =
     (case parse_server_first raw (sc_nonce st) of Inl _ \<Rightarrow> 0 | Inr f \<Rightarrow> sf_iterations f)"

definition finish_scram :: "nat \<Rightarrow> scram_state \<Rightarrow> pg_conn \<Rightarrow> pg_scram_result" where
  "finish_scram iterations st c =
     (let out = pg_scram_zero\<lparr>ps_iterations := iterations\<rparr>
      in case read_sasl_payload auth_code_sasl_final c of
           (Inl (e, told), c1) \<Rightarrow> (out\<lparr>ps_fields := told\<rparr>, Some e, c1)
         | (Inr server_final, c1) \<Rightarrow>
             (case scram_verify server_final st of
                (Inl e, _) \<Rightarrow> (out, Some (translate_scram e), c1)
              | (Inr _, _) \<Rightarrow>
                  let out2 = out\<lparr>ps_verified := True\<rparr>
                  in case read_authentication_ok c1 of
                       (Inl (e, told), c2) \<Rightarrow> (out2\<lparr>ps_fields := told\<rparr>, Some e, c2)
                     | (Inr _, c2) \<Rightarrow> (out2\<lparr>ps_complete := True\<rparr>, None, c2)))"

definition authenticate_scram :: "string \<Rightarrow> scram_error + string \<Rightarrow>
    (string \<Rightarrow> string \<Rightarrow> nat \<Rightarrow> string option) \<Rightarrow> pg_conn \<Rightarrow> pg_scram_result" where
  "authenticate_scram password nonces pbkdf2 c =
     (if \<not> printable_ascii password then (pg_scram_zero, Some PgPasswordUnsupported, c)
      else case scram_begin [] nonces of
        Inl e \<Rightarrow> (pg_scram_zero, Some (translate_scram e), c)
      | Inr (st, first_bare) \<Rightarrow>
          (case sasl_initial_response (gs2_header @ first_bare) of
             Inl e \<Rightarrow> (pg_scram_zero, Some e, c)
           | Inr initial \<Rightarrow>
               (case pg_write_all initial c of
                  (Inl e, c1) \<Rightarrow> (pg_scram_zero, Some e, c1)
                | (Inr _, c1) \<Rightarrow>
                    (case read_sasl_payload auth_code_sasl_continue c1 of
                       (Inl (e, told), c2) \<Rightarrow> (pg_scram_zero\<lparr>ps_fields := told\<rparr>, Some e, c2)
                     | (Inr server_first, c2) \<Rightarrow>
                         let n = asked_iterations server_first st;
                             out = pg_scram_zero\<lparr>ps_iterations := n\<rparr>
                         in case scram_continue server_first (Some (pbkdf2 password)) st of
                              (Inl e, _) \<Rightarrow> (out, Some (translate_scram e), c2)
                            | (Inr client_final, st2) \<Rightarrow>
                                (case sasl_response client_final of
                                   Inl e \<Rightarrow> (out, Some e, c2)
                                 | Inr final \<Rightarrow>
                                     (case pg_write_all final c2 of
                                        (Inl e, c3) \<Rightarrow> (out, Some e, c3)
                                      | (Inr _, c3) \<Rightarrow> finish_scram n st2 c3))))))"

end
