(* ===== verification/PgSteps.thy ===== *)
theory PgSteps
  imports Sweep PgWire
begin

text \<open>
  The four steps of \<open>internal/adapter/postgres\<close> over one transport path: \<open>Negotiate\<close> (\<open>negotiate.go\<close>),
  \<open>Startup\<close> (\<open>startup.go\<close>), \<open>Authenticate\<close> (\<open>authenticate.go\<close>) and \<open>EstablishSession\<close>
  (\<open>establish.go\<close>), with the sessions they hand on (\<open>session.go\<close>) and their parameters (\<open>params.go\<close>).

  Each connection has a byte stream; a handshake replaces the stream of its connection by the one inside TLS, which
  the \<open>pg_env\<close> gives, as it gives what an I/O error is found to be, how much of the reply to an SSLRequest has
  arrived, and the random nonces. A step returns its result, the connection owner it was given with what it took,
  the world and the streams. Nil arguments are left out, except where a step returns a nil result.
\<close>

subsection \<open>Surroundings\<close>

record pg_env =
  pv_env :: env
  pv_arrived :: "nat \<Rightarrow> nat"
  pv_secured :: "nat \<Rightarrow> pg_conn"
  pv_fault :: "nat \<Rightarrow> go_error"
  pv_nonce :: "nat \<Rightarrow> scram_error + string"
  pv_pbkdf2 :: "string \<Rightarrow> string \<Rightarrow> nat \<Rightarrow> string option"

type_synonym streams = "nat \<Rightarrow> pg_conn"

datatype step_error = ErrStepInput | ErrStepProbe probe_error

text \<open>What \<open>errors.Is\<close> and \<open>errors.As\<close> find in an error of the wire package.\<close>

definition wire_cause :: "pg_error \<Rightarrow> go_error \<Rightarrow> go_error" where
  "wire_cause err fault = (if err = PgTransport then fault else plain_error)"

definition is_net_timeout :: "go_error \<Rightarrow> bool" where
  "is_net_timeout e \<longleftrightarrow> ge_net e = Some True"

definition wire_failure_class :: "pg_error \<Rightarrow> failure_class" where
  "wire_failure_class err =
     (case err of
        PgPeerClosed \<Rightarrow> FailureProtocolPeerClosed
      | PgSurplusBytes \<Rightarrow> FailureProtocolUnexpectedResponse
      | PgUnexpected \<Rightarrow> FailureProtocolUnexpectedResponse
      | PgFrameTooLarge \<Rightarrow> FailureProtocolMalformedResponse
      | PgMalformed \<Rightarrow> FailureProtocolMalformedResponse
      | _ \<Rightarrow> FailureProtocolUnexpectedResponse)"

definition must_subject :: "addr_port \<Rightarrow> subject" where
  "must_subject addr =
     (case new_endpoint_subject (addr_port_string addr) of Inl _ \<Rightarrow> zero_subject | Inr s \<Rightarrow> s)"

definition lift_probe :: "(probe_error + 'a) \<times> world \<Rightarrow> (step_error + 'a) \<times> world" where
  "lift_probe x = (case x of (Inl err, w) \<Rightarrow> (Inl (ErrStepProbe err), w) | (Inr v, w) \<Rightarrow> (Inr v, w))"

definition make_evidence :: "evidence \<Rightarrow> step_error + evidence" where
  "make_evidence input =
     (case new_evidence input of Inl err \<Rightarrow> Inl (ErrStepProbe (ErrProbeDomain err)) | Inr ev \<Rightarrow> Inr ev)"

subsection \<open>Steps, attributes and parameters\<close>

definition step_ssl_request :: step_name where "step_ssl_request = ''postgres.ssl_request''"
definition step_startup :: step_name where "step_startup = ''postgres.startup''"
definition step_authentication :: step_name where "step_authentication = ''postgres.authentication''"
definition step_session :: step_name where "step_session = ''postgres.session''"
definition attr_ssl_offered :: attribute_key where "attr_ssl_offered = ''postgres.ssl.offered''"
definition attr_tls_plan :: attribute_key where "attr_tls_plan = ''postgres.tls.plan''"
definition attr_protocol_version :: attribute_key where "attr_protocol_version = ''postgres.protocol_version''"
definition attr_auth_method :: attribute_key where "attr_auth_method = ''postgres.auth_method''"
definition attr_sasl_mechanisms :: attribute_key where "attr_sasl_mechanisms = ''postgres.sasl_mechanisms''"
definition attr_sqlstate :: attribute_key where "attr_sqlstate = ''postgres.sqlstate''"
definition attr_error_severity :: attribute_key where "attr_error_severity = ''postgres.error_severity''"
definition attr_error_is_native :: attribute_key where "attr_error_is_native = ''postgres.error_is_native''"
definition attr_role :: attribute_key where "attr_role = ''postgres.role''"
definition attr_database :: attribute_key where "attr_database = ''postgres.database''"
definition attr_sasl_mechanism :: attribute_key where "attr_sasl_mechanism = ''postgres.sasl_mechanism''"
definition attr_scram_iterations :: attribute_key where "attr_scram_iterations = ''postgres.scram_iterations''"
definition attr_server_version :: attribute_key where "attr_server_version = ''postgres.server_version''"
definition attr_in_hot_standby :: attribute_key where "attr_in_hot_standby = ''postgres.in_hot_standby''"
definition attr_default_read_only :: attribute_key where
  "attr_default_read_only = ''postgres.default_transaction_read_only''"
definition attr_is_superuser :: attribute_key where "attr_is_superuser = ''postgres.is_superuser''"
definition attr_transaction_status :: attribute_key where "attr_transaction_status = ''postgres.transaction_status''"

datatype tls_plan = TLSRequired | TLSDisabled | TLSPlanOut int

definition tls_plan_string :: "tls_plan \<Rightarrow> string" where
  "tls_plan_string p = (if p = TLSDisabled then ''disabled'' else ''required'')"

record pg_params =
  pp_tls :: tls_plan
  pp_options :: chain_tls
  pp_step_timeout :: go_duration

definition validate_pg_params :: "pg_params \<Rightarrow> step_error + unit" where
  "validate_pg_params p = (if pp_step_timeout p < 0 then Inl ErrStepInput else Inr ())"

record startup_step_params =
  su_user :: string
  su_database :: string
  su_timeout :: go_duration

definition pg_printable :: "string \<Rightarrow> bool" where
  "pg_printable s \<longleftrightarrow> \<not> any_rune (\<lambda>r. r = 0) s \<and> \<not> any_rune rune_is_control s"

definition validate_startup_params :: "startup_step_params \<Rightarrow> step_error + unit" where
  "validate_startup_params p =
     (if su_user p = [] then Inl ErrStepInput
      else if \<not> pg_printable (su_user p) \<or> \<not> pg_printable (su_database p) then Inl ErrStepInput
      else if su_timeout p < 0 then Inl ErrStepInput
      else Inr ())"

record pg_target =
  pt_endpoint :: string
  pt_address :: addr_port
  pt_scope :: sweep_scope
  pt_parent :: evidence_id

definition pg_step_id :: "step_name \<Rightarrow> pg_target \<Rightarrow> evidence_id" where
  "pg_step_id step t = scoped_evidence_id (pt_scope t) step [pt_endpoint t, addr_string (ap_addr (pt_address t))]"

definition plain_target :: "string \<Rightarrow> addr_port \<Rightarrow> pg_target" where
  "plain_target endpoint address = \<lparr>pt_endpoint = endpoint, pt_address = address, pt_scope = [], pt_parent = []\<rparr>"

subsection \<open>Sessions\<close>

record pg_session =
  pn_endpoint :: string
  pn_address :: addr_port
  pn_evidence :: evidence_id
  pn_channel :: channel
  pn_channel_evidence :: evidence_id
  pn_blocker :: evidence_id
  pn_owned :: owned

record startup_result =
  sn_endpoint :: string
  sn_address :: addr_port
  sn_evidence :: evidence_id
  sn_channel :: channel
  sn_channel_evidence :: evidence_id
  sn_auth_method :: string
  sn_mechanisms :: "string list"
  sn_owned :: owned

record authenticated_session =
  as_endpoint :: string
  as_address :: addr_port
  as_evidence :: evidence_id
  as_channel :: channel
  as_channel_evidence :: evidence_id
  as_owned :: owned

definition new_authenticated_session :: "nat \<Rightarrow> startup_result \<Rightarrow> evidence_id \<Rightarrow> authenticated_session" where
  "new_authenticated_session conn r x =
     \<lparr>as_endpoint = sn_endpoint r, as_address = sn_address r, as_evidence = x, as_channel = sn_channel r,
      as_channel_evidence = sn_channel_evidence r, as_owned = own (Some conn)\<rparr>"

subsection \<open>\<open>Negotiate\<close>\<close>

text \<open>The two contexts are the two readings of \<open>ctx.Err()\<close>.\<close>

definition classify_ssl_response ::
    "pg_error + ssl_response \<Rightarrow> go_error \<Rightarrow> ctx_state \<Rightarrow> ctx_state \<Rightarrow> state \<times> failure_class \<times> bool" where
  "classify_ssl_response outcome fault ctx1 ctx2 =
     (case outcome of
        Inr SSLAccepted \<Rightarrow> (StatePass, FailureNone, True)
      | Inr SSLDeclined \<Rightarrow> (StateFail, FailureProtocolUnsupportedCapability, False)
      | Inr SSLErrored \<Rightarrow> (StateFail, FailureProtocolUnexpectedResponse, False)
      | Inl err \<Rightarrow>
          (let cause = wire_cause err fault
           in if cancelled_locally cause ctx1 then (StateUnknown, FailureExecCancelled, False)
              else if out_of_time_locally cause ctx2 then (StateUnknown, FailureExecLocalTimeout, False)
              else if is_net_timeout cause then (StateUnknown, FailureExecLocalTimeout, False)
              else (StateFail, wire_failure_class err, False)))"

text \<open>\<open>hostOf\<close> reads the host of an endpoint label for the TLS server name.\<close>

definition host_of :: "string \<Rightarrow> string" where
  "host_of endpoint =
     (if has_prefix endpoint ''['' then
        (case cut_last (CHR '']'') endpoint of
           None \<Rightarrow> endpoint
         | Some (inside, _) \<Rightarrow> drop 1 inside)
      else
        (case cut_last (CHR '':'') endpoint of
           None \<Rightarrow> endpoint
         | Some (host, _) \<Rightarrow> if CHR '':'' \<in> set host then endpoint else host))"

definition pg_tls_params :: "pg_params \<Rightarrow> pg_target \<Rightarrow> tls_params" where
  "pg_tls_params p t =
     (let o' = pp_options p
      in \<lparr>tp_endpoint = pt_endpoint t, tp_scope = pt_scope t, tp_address = pt_address t,
          tp_server_name = (if ct_server_name o' = [] then host_of (pt_endpoint t) else ct_server_name o'),
          tp_roots = ct_roots o', tp_min_version = ct_min_version o', tp_max_version = ct_max_version o',
          tp_insecure = ct_insecure o'\<rparr>)"

definition pg_record_skipped_tls :: "pg_env \<Rightarrow> pg_target \<Rightarrow> evidence_id \<Rightarrow> world \<Rightarrow> (step_error + unit) \<times> world" where
  "pg_record_skipped_tls pe t blocker w =
     (case ask (en_now (pv_env pe)) w of (started, w1) \<Rightarrow>
        (case make_evidence \<lparr>ev_id = pg_step_id step_tls_handshake t, ev_subject = must_subject (pt_address t),
             ev_layer = LayerTLS, ev_step = step_tls_handshake, ev_state = StateSkipped,
             ev_failure = FailureExecSkippedPrerequisiteFailed, ev_attributes = [], ev_started = started,
             ev_elapsed = unmeasured\<rparr> of
           Inl err \<Rightarrow> (Inl err, w1)
         | Inr ev \<Rightarrow>
             and_then (lift_probe (record_evidence ev blocker w1)) (\<lambda>_ w2.
             lift_probe (on_builder (\<lambda>b. add_blocked_by b (ev_id ev) blocker) w2))))"

definition negotiate_skipped ::
    "pg_env \<Rightarrow> nat \<Rightarrow> pg_target \<Rightarrow> pg_params \<Rightarrow> world \<Rightarrow> (step_error + pg_session) \<times> world" where
  "negotiate_skipped pe conn t p w =
     (case ask (en_now (pv_env pe)) w of (started, w1) \<Rightarrow>
        (case make_evidence \<lparr>ev_id = pg_step_id step_ssl_request t, ev_subject = must_subject (pt_address t),
             ev_layer = LayerTLS, ev_step = step_ssl_request, ev_state = StateSkipped,
             ev_failure = FailureExecSkippedByPolicy,
             ev_attributes = [(attr_tls_plan, string_attr (tls_plan_string (pp_tls p)))], ev_started = started,
             ev_elapsed = unmeasured\<rparr> of
           Inl err \<Rightarrow> (Inl err, log_event (Closed conn) w1)
         | Inr ev \<Rightarrow>
             (case lift_probe (record_evidence ev (pt_parent t) w1) of
                (Inl err, w2) \<Rightarrow> (Inl err, log_event (Closed conn) w2)
              | (Inr _, w2) \<Rightarrow>
                  (Inr \<lparr>pn_endpoint = pt_endpoint t, pn_address = pt_address t, pn_evidence = ev_id ev,
                     pn_channel = ChannelPlaintext, pn_channel_evidence = ev_id ev, pn_blocker = [],
                     pn_owned = own (Some conn)\<rparr>, w2))))"

text \<open>\<open>upgrade\<close>: the handshake over the connection, and the stream inside it.\<close>

definition pg_upgrade ::
    "pg_env \<Rightarrow> nat \<Rightarrow> pg_target \<Rightarrow> pg_params \<Rightarrow> evidence_id \<Rightarrow> world \<Rightarrow> streams \<Rightarrow>
     (step_error + pg_session) \<times> world \<times> streams" where
  "pg_upgrade pe conn t p ssl_node w \<sigma> =
     (case lift_probe (tls_handshake (pv_env pe) conn (pg_tls_params p t) w) of
        (Inl err, w1) \<Rightarrow> (Inl err, w1, \<sigma>)
      | (Inr result, w1) \<Rightarrow>
          (let \<sigma>' = \<sigma>(conn := pv_secured pe (wd_tick w1));
               tls = sr_evidence result
           in case lift_probe (record_evidence tls ssl_node w1) of
                (Inl err, w2) \<Rightarrow> (Inl err, snd (close_owned (sr_owned result) w2), \<sigma>')
              | (Inr _, w2) \<Rightarrow>
                  (case take_conn (sr_owned result) of
                     None \<Rightarrow>
                       (Inr \<lparr>pn_endpoint = pt_endpoint t, pn_address = pt_address t, pn_evidence = ev_id tls,
                          pn_channel = ChannelUnknown, pn_channel_evidence = [], pn_blocker = ev_id tls,
                          pn_owned = own None\<rparr>, snd (close_owned (sr_owned result) w2), \<sigma>')
                   | Some (wrapped, _) \<Rightarrow>
                       (Inr \<lparr>pn_endpoint = pt_endpoint t, pn_address = pt_address t, pn_evidence = ev_id tls,
                          pn_channel = tls_channel result, pn_channel_evidence = ev_id tls, pn_blocker = [],
                          pn_owned = own (Some wrapped)\<rparr>, w2, \<sigma>'))))"

definition negotiate_tls ::
    "pg_env \<Rightarrow> nat \<Rightarrow> pg_target \<Rightarrow> pg_params \<Rightarrow> world \<Rightarrow> streams \<Rightarrow>
     (step_error + pg_session) \<times> world \<times> streams" where
  "negotiate_tls pe conn t p w \<sigma> =
     (let (started, w1) = ask (en_now (pv_env pe)) w;
          (arrived, w2) = ask (pv_arrived pe) w1;
          (outcome, stream) = send_ssl_request arrived (\<sigma> conn);
          \<sigma>' = \<sigma>(conn := stream);
          (fault, w3) = ask (pv_fault pe) w2;
          (ended, w4) = ask (en_now (pv_env pe)) w3;
          (ctx1, w5) = ask (en_ctx (pv_env pe)) w4;
          (ctx2, w6) = ask (en_ctx (pv_env pe)) w5;
          (state, failure, offered) = classify_ssl_response outcome fault ctx1 ctx2
      in case make_evidence \<lparr>ev_id = pg_step_id step_ssl_request t, ev_subject = must_subject (pt_address t),
             ev_layer = LayerTLS, ev_step = step_ssl_request, ev_state = state, ev_failure = failure,
             ev_attributes = (if is_ok outcome then [(attr_ssl_offered, bool_attr offered)] else []),
             ev_started = started, ev_elapsed = measured (ended - started)\<rparr> of
           Inl err \<Rightarrow> (Inl err, log_event (Closed conn) w6, \<sigma>')
         | Inr ev \<Rightarrow>
             (case lift_probe (record_evidence ev (pt_parent t) w6) of
                (Inl err, w7) \<Rightarrow> (Inl err, log_event (Closed conn) w7, \<sigma>')
              | (Inr _, w7) \<Rightarrow>
                  if state \<noteq> StatePass then
                    (case pg_record_skipped_tls pe t (ev_id ev) (log_event (Closed conn) w7) of
                       (Inl err, w8) \<Rightarrow> (Inl err, w8, \<sigma>')
                     | (Inr _, w8) \<Rightarrow>
                         (Inr \<lparr>pn_endpoint = pt_endpoint t, pn_address = pt_address t, pn_evidence = ev_id ev,
                            pn_channel = ChannelUnknown, pn_channel_evidence = [], pn_blocker = ev_id ev,
                            pn_owned = own None\<rparr>, w8, \<sigma>'))
                  else pg_upgrade pe conn t p (ev_id ev) w7 \<sigma>'))"

definition negotiate ::
    "pg_env \<Rightarrow> continuation \<Rightarrow> pg_params \<Rightarrow> world \<Rightarrow> streams \<Rightarrow>
     ((step_error + pg_session) \<times> owned) \<times> world \<times> streams" where
  "negotiate pe path p w \<sigma> =
     (case validate_pg_params p of
        Inl err \<Rightarrow> ((Inl err, co_owned path), w, \<sigma>)
      | Inr _ \<Rightarrow>
          (case take_conn (co_owned path) of
             None \<Rightarrow> ((Inl ErrStepInput, co_owned path), w, \<sigma>)
           | Some (conn, taken) \<Rightarrow>
               (let t = \<lparr>pt_endpoint = co_endpoint path, pt_address = co_address path, pt_scope = [],
                         pt_parent = co_evidence path\<rparr>
                in if pp_tls p = TLSDisabled
                   then (case negotiate_skipped pe conn t p w of (r, w') \<Rightarrow> ((r, taken), w', \<sigma>))
                   else (case negotiate_tls pe conn t p w \<sigma> of (r, w', \<sigma>') \<Rightarrow> ((r, taken), w', \<sigma>')))))"

subsection \<open>\<open>Startup\<close>\<close>

text \<open>Up to \<open>k\<close> messages until one is not a notice.\<close>

fun read_startup_reply :: "nat \<Rightarrow> pg_conn \<Rightarrow> ((pg_error \<times> error_fields) + auth_request) \<times> pg_conn" where
  "read_startup_reply 0 c = (Inl (PgUnexpected, no_fields), c)"
| "read_startup_reply (Suc k) c =
     (case read_pg_message c of
        (Inl err, c1) \<Rightarrow> (Inl (err, no_fields), c1)
      | (Inr msg, c1) \<Rightarrow>
          if pm_type msg = msg_notice_response then read_startup_reply k c1
          else if pm_type msg = msg_authentication then
            (case decode_auth_request (pm_body msg) of
               Inl err \<Rightarrow> (Inl (err, no_fields), c1)
             | Inr auth \<Rightarrow> (Inr auth, c1))
          else if pm_type msg = msg_error_response then
            (case decode_error_fields (pm_body msg) of
               Inl err \<Rightarrow> (Inl (err, no_fields), c1)
             | Inr f \<Rightarrow> (Inl (PgUnexpected, f), c1))
          else (Inl (PgUnexpected, no_fields), c1))"

definition startup_notices :: nat where "startup_notices = 32"

definition exchange_startup ::
    "startup_step_params \<Rightarrow> pg_conn \<Rightarrow> ((pg_error \<times> error_fields) + auth_request) \<times> pg_conn" where
  "exchange_startup p c =
     (case send_startup \<lparr>sp_user = su_user p, sp_database = su_database p\<rparr> c of
        (Inl err, c1) \<Rightarrow> (Inl (err, no_fields), c1)
      | (Inr _, c1) \<Rightarrow> read_startup_reply (startup_notices + 1) c1)"

definition sqlstate_failure :: "string \<Rightarrow> failure_class" where
  "sqlstate_failure s =
     (if s = ''0A000'' then FailureProtocolUnsupportedVersion
      else if s = ''28000'' then FailureAuthzNotPermitted
      else FailureProtocolUnexpectedResponse)"

text \<open>What the three exchanges after the SSLRequest make of an error that none of their own cases takes: a local
  cancellation or deadline first, then what the server said, then our own timeout, then the wire error.\<close>

definition classify_exchange ::
    "(string \<Rightarrow> failure_class) \<Rightarrow> pg_error \<Rightarrow> error_fields \<Rightarrow> go_error \<Rightarrow> state \<times> failure_class" where
  "classify_exchange of_sqlstate err f fault =
     (if \<not> error_fields_zero f then (StateFail, of_sqlstate (ef_sqlstate f))
      else if is_net_timeout (wire_cause err fault) then (StateUnknown, FailureExecLocalTimeout)
      else (StateFail, wire_failure_class err))"

definition classify_startup ::
    "(pg_error \<times> error_fields) + auth_request \<Rightarrow> go_error \<Rightarrow> ctx_state \<Rightarrow> ctx_state \<Rightarrow> state \<times> failure_class" where
  "classify_startup outcome fault ctx1 ctx2 =
     (case outcome of
        Inr _ \<Rightarrow> (StatePass, FailureNone)
      | Inl (err, f) \<Rightarrow>
          if cancelled_locally (wire_cause err fault) ctx1 then (StateUnknown, FailureExecCancelled)
          else if out_of_time_locally (wire_cause err fault) ctx2 then (StateUnknown, FailureExecLocalTimeout)
          else classify_exchange sqlstate_failure err f fault)"

definition error_attributes :: "error_fields \<Rightarrow> (attribute_key \<times> attr_value) list" where
  "error_attributes f =
     (if ef_sqlstate f \<noteq> [] then [(attr_sqlstate, string_attr (ef_sqlstate f))] else [])
     @ (if ef_severity f \<noteq> [] then [(attr_error_severity, string_attr (ef_severity f))] else [])
     @ (if \<not> error_fields_zero f then [(attr_error_is_native, bool_attr (ef_native f))] else [])"

definition startup_attributes ::
    "startup_step_params \<Rightarrow> (pg_error \<times> error_fields) + auth_request \<Rightarrow> (attribute_key \<times> attr_value) list" where
  "startup_attributes p outcome =
     [(attr_protocol_version, string_attr ''3.0''), (attr_role, identity_attr (su_user p))]
     @ (if su_database p \<noteq> [] then [(attr_database, identity_attr (su_database p))] else [])
     @ (case outcome of
          Inr auth \<Rightarrow>
            (attr_auth_method, string_attr (auth_method_name (aq_method auth)))
            # (if aq_mechanisms auth \<noteq> [] then [(attr_sasl_mechanisms, string_list_attr (aq_mechanisms auth))] else [])
        | Inl (err, f) \<Rightarrow> error_attributes f)"

definition record_skipped_startup ::
    "pg_env \<Rightarrow> pg_session \<Rightarrow> evidence_id \<Rightarrow> startup_step_params \<Rightarrow> world \<Rightarrow> (step_error + unit) \<times> world" where
  "record_skipped_startup pe session blocker p w =
     (case ask (en_now (pv_env pe)) w of (started, w1) \<Rightarrow>
        (case make_evidence \<lparr>ev_id = pg_step_id step_startup (plain_target (pn_endpoint session) (pn_address session)),
             ev_subject = must_subject (pn_address session), ev_layer = LayerProtocol, ev_step = step_startup,
             ev_state = StateSkipped, ev_failure = FailureExecSkippedPrerequisiteFailed,
             ev_attributes = [(attr_role, identity_attr (su_user p))], ev_started = started,
             ev_elapsed = unmeasured\<rparr> of
           Inl err \<Rightarrow> (Inl err, w1)
         | Inr ev \<Rightarrow>
             and_then (lift_probe (record_evidence ev (pn_evidence session) w1)) (\<lambda>_ w2.
             lift_probe (on_builder (\<lambda>b. add_blocked_by b (ev_id ev) blocker) w2))))"

definition startup ::
    "pg_env \<Rightarrow> pg_session \<Rightarrow> startup_step_params \<Rightarrow> world \<Rightarrow> streams \<Rightarrow>
     ((step_error + startup_result option) \<times> owned) \<times> world \<times> streams" where
  "startup pe session p w \<sigma> =
     (case validate_startup_params p of
        Inl err \<Rightarrow> ((Inl err, pn_owned session), w, \<sigma>)
      | Inr _ \<Rightarrow>
        if pn_blocker session \<noteq> [] then
          (case record_skipped_startup pe session (pn_blocker session) p w of
             (Inl err, w1) \<Rightarrow> ((Inl err, pn_owned session), w1, \<sigma>)
           | (Inr _, w1) \<Rightarrow> ((Inr None, pn_owned session), w1, \<sigma>))
        else
          (case take_conn (pn_owned session) of
             None \<Rightarrow> ((Inl ErrStepInput, pn_owned session), w, \<sigma>)
           | Some (conn, taken) \<Rightarrow>
               (let (started, w1) = ask (en_now (pv_env pe)) w;
                    (outcome, stream) = exchange_startup p (\<sigma> conn);
                    \<sigma>' = \<sigma>(conn := stream);
                    (fault, w2) = ask (pv_fault pe) w1;
                    (ended, w3) = ask (en_now (pv_env pe)) w2;
                    (ctx1, w4) = ask (en_ctx (pv_env pe)) w3;
                    (ctx2, w5) = ask (en_ctx (pv_env pe)) w4;
                    (state, failure) = classify_startup outcome fault ctx1 ctx2
                in case make_evidence \<lparr>ev_id = pg_step_id step_startup (plain_target (pn_endpoint session) (pn_address session)),
                       ev_subject = must_subject (pn_address session), ev_layer = LayerProtocol,
                       ev_step = step_startup, ev_state = state, ev_failure = failure,
                       ev_attributes = startup_attributes p outcome, ev_started = started,
                       ev_elapsed = measured (ended - started)\<rparr> of
                     Inl err \<Rightarrow> ((Inl err, taken), log_event (Closed conn) w5, \<sigma>')
                   | Inr ev \<Rightarrow>
                       (case lift_probe (record_evidence ev (pn_evidence session) w5) of
                          (Inl err, w6) \<Rightarrow> ((Inl err, taken), log_event (Closed conn) w6, \<sigma>')
                        | (Inr _, w6) \<Rightarrow>
                            (case outcome of
                               Inl _ \<Rightarrow> ((Inr None, taken), log_event (Closed conn) w6, \<sigma>')
                             | Inr auth \<Rightarrow>
                                 ((Inr (Some \<lparr>sn_endpoint = pn_endpoint session, sn_address = pn_address session,
                                     sn_evidence = ev_id ev, sn_channel = pn_channel session,
                                     sn_channel_evidence = pn_channel_evidence session,
                                     sn_auth_method = auth_method_name (aq_method auth),
                                     sn_mechanisms = aq_mechanisms auth, sn_owned = own (Some conn)\<rparr>), taken),
                                  w6, \<sigma>'))))))"

subsection \<open>\<open>Authenticate\<close>\<close>

record auth_params =
  au_policy :: transport_policy
  au_timeout :: go_duration

definition validate_auth_params :: "auth_params \<Rightarrow> step_error + unit" where
  "validate_auth_params p = (if au_timeout p < 0 then Inl ErrStepInput else Inr ())"

definition auth_method_none :: string where "auth_method_none = ''ok''"
definition auth_method_sasl :: string where "auth_method_sasl = ''sasl''"
definition mechanism_scram_sha256_plus :: string where "mechanism_scram_sha256_plus = ''SCRAM-SHA-256-PLUS''"

text \<open>\<open>None\<close> admits the mechanism; otherwise how its refusal is recorded.\<close>

definition admissible_mechanism :: "startup_result \<Rightarrow> (state \<times> failure_class) option" where
  "admissible_mechanism r =
     (if sn_auth_method r \<noteq> auth_method_sasl then Some (StateUnknown, FailureAuthMechanismUnsupported)
      else if mechanism_scram_sha256 \<in> set (sn_mechanisms r) then None
      else if mechanism_scram_sha256_plus \<in> set (sn_mechanisms r)
        then Some (StateUnknown, FailureAuthMechanismUnsupported)
      else Some (StateFail, FailureAuthMechanismNotOffered))"

text \<open>\<open>net.SplitHostPort\<close>.\<close>

definition split_host_port :: "string \<Rightarrow> (string \<times> string) option" where
  "split_host_port s =
     (case cut_last (CHR '':'') s of
        None \<Rightarrow> None
      | Some (front, port) \<Rightarrow>
          if has_prefix s ''['' then
            (case cut_at (CHR '']'') s of (inside, rest, found) \<Rightarrow>
               if \<not> found then None
               else if rest \<noteq> CHR '':'' # port then None
               else if CHR ''['' \<in> set (drop 1 s) \<or> CHR '']'' \<in> set rest then None
               else Some (drop 1 inside, port))
          else if CHR '':'' \<in> set front then None
          else if CHR ''['' \<in> set s \<or> CHR '']'' \<in> set s then None
          else Some (front, port))"

definition logical_endpoint :: "string \<Rightarrow> step_error + sec_endpoint" where
  "logical_endpoint label =
     (case split_host_port label of
        None \<Rightarrow> Inl ErrStepInput
      | Some (host, port) \<Rightarrow>
          (case unsigned_digits port of
             None \<Rightarrow> Inl ErrStepInput
           | Some n \<Rightarrow>
               if 65535 < n then Inl ErrStepInput
               else (case new_endpoint host n of Inl _ \<Rightarrow> Inl ErrStepInput | Inr endpoint \<Rightarrow> Inr endpoint)))"

record auth_observation =
  ao_scram :: pg_scram
  ao_err :: "pg_error option"
  ao_fault :: go_error
  ao_ctx :: ctx_state
  ao_started :: go_time
  ao_duration :: go_duration

definition observe_authentication ::
    "pg_env \<Rightarrow> nat \<Rightarrow> secret \<Rightarrow> world \<Rightarrow> streams \<Rightarrow> auth_observation \<times> world \<times> streams" where
  "observe_authentication pe conn secret w \<sigma> =
     (let (started, w1) = ask (en_now (pv_env pe)) w;
          (nonces, w2) = ask (pv_nonce pe) w1;
          (scram, err, stream) = authenticate_scram (reveal secret) nonces (pv_pbkdf2 pe) (\<sigma> conn);
          (fault, w3) = ask (pv_fault pe) w2;
          (ended, w4) = ask (en_now (pv_env pe)) w3;
          (ctx, w5) = ask (en_ctx (pv_env pe)) w4
      in (\<lparr>ao_scram = scram, ao_err = err, ao_fault = fault, ao_ctx = ctx, ao_started = started,
            ao_duration = ended - started\<rparr>, w5, \<sigma>(conn := stream)))"

definition auth_passed :: "auth_observation \<Rightarrow> bool" where
  "auth_passed ob \<longleftrightarrow> ao_err ob = None \<and> ps_verified (ao_scram ob) \<and> ps_complete (ao_scram ob)"

definition auth_sqlstate_failure :: "string \<Rightarrow> failure_class" where
  "auth_sqlstate_failure s =
     (if s = ''28P01'' then FailureAuthCredentialsRejected
      else if s = ''28000'' then FailureAuthzNotPermitted
      else FailureProtocolUnexpectedResponse)"

text \<open>Without an error but not passed, every \<open>errors.Is\<close> is false and the wire class is its default.\<close>

definition classify_auth :: "auth_observation \<Rightarrow> state \<times> failure_class" where
  "classify_auth ob =
     (if auth_passed ob then (StatePass, FailureNone)
      else (case ao_err ob of
          None \<Rightarrow>
            if ao_ctx ob = CtxCanceled then (StateUnknown, FailureExecCancelled)
            else if ao_ctx ob = CtxDeadlineExceeded then (StateUnknown, FailureExecLocalTimeout)
            else if \<not> error_fields_zero (ps_fields (ao_scram ob))
              then (StateFail, auth_sqlstate_failure (ef_sqlstate (ps_fields (ao_scram ob))))
            else (StateFail, FailureProtocolUnexpectedResponse)
        | Some err \<Rightarrow>
            (let cause = wire_cause err (ao_fault ob)
             in if cancelled_locally cause (ao_ctx ob) then (StateUnknown, FailureExecCancelled)
                else if out_of_time_locally cause (ao_ctx ob) then (StateUnknown, FailureExecLocalTimeout)
                else if err \<in> {PgPasswordUnsupported, PgScram ErrIterationsUnsupported, PgScramParameters, PgLocalDerivation}
                  then (StateUnknown, FailureExecUnsupportedBySvcdoctor)
                else if err = PgScram ErrServerSignatureMismatch then (StateFail, FailureAuthPeerVerificationFailed)
                else if err = PgScram ErrRejected then (StateFail, FailureAuthCredentialsRejected)
                else classify_exchange auth_sqlstate_failure err (ps_fields (ao_scram ob)) (ao_fault ob))))"

definition auth_attributes :: "auth_observation \<Rightarrow> (attribute_key \<times> attr_value) list" where
  "auth_attributes ob =
     (attr_sasl_mechanism, string_attr mechanism_scram_sha256)
     # (if 0 < ps_iterations (ao_scram ob)
        then [(attr_scram_iterations, int_attr (int (ps_iterations (ao_scram ob))))] else [])
     @ error_attributes (ps_fields (ao_scram ob))"

definition auth_evidence :: "auth_observation \<Rightarrow> startup_result \<Rightarrow> step_error + evidence" where
  "auth_evidence ob r =
     (case classify_auth ob of (state, failure) \<Rightarrow>
        make_evidence \<lparr>ev_id = pg_step_id step_authentication (plain_target (sn_endpoint r) (sn_address r)),
          ev_subject = must_subject (sn_address r), ev_layer = LayerAuth, ev_step = step_authentication,
          ev_state = state, ev_failure = failure, ev_attributes = auth_attributes ob, ev_started = ao_started ob,
          ev_elapsed = measured (ao_duration ob)\<rparr>)"

definition refusal_evidence ::
    "pg_env \<Rightarrow> startup_result \<Rightarrow> state \<Rightarrow> failure_class \<Rightarrow> bool \<Rightarrow> world \<Rightarrow> (step_error + evidence) \<times> world" where
  "refusal_evidence pe r state failure with_mechanism w =
     (case ask (en_now (pv_env pe)) w of (started, w1) \<Rightarrow>
        (make_evidence \<lparr>ev_id = pg_step_id step_authentication (plain_target (sn_endpoint r) (sn_address r)),
           ev_subject = must_subject (sn_address r), ev_layer = LayerAuth, ev_step = step_authentication,
           ev_state = state, ev_failure = failure,
           ev_attributes = (if with_mechanism then [(attr_sasl_mechanism, string_attr mechanism_scram_sha256)] else []),
           ev_started = started, ev_elapsed = unmeasured\<rparr>, w1))"

definition record_mechanism_refusal ::
    "pg_env \<Rightarrow> startup_result \<Rightarrow> state \<Rightarrow> failure_class \<Rightarrow> world \<Rightarrow> (step_error + unit) \<times> world" where
  "record_mechanism_refusal pe r state failure w =
     and_then (refusal_evidence pe r state failure False w) (\<lambda>ev w1.
     lift_probe (record_evidence ev (sn_evidence r) w1))"

definition record_missing_input :: "pg_env \<Rightarrow> startup_result \<Rightarrow> world \<Rightarrow> (step_error + unit) \<times> world" where
  "record_missing_input pe r w =
     and_then (refusal_evidence pe r StateSkipped FailureExecRequiredInputMissing False w) (\<lambda>ev w1.
     lift_probe (record_evidence ev (sn_evidence r) w1))"

definition record_policy_refusal :: "pg_env \<Rightarrow> startup_result \<Rightarrow> world \<Rightarrow> (step_error + unit) \<times> world" where
  "record_policy_refusal pe r w =
     and_then (refusal_evidence pe r StateSkipped FailureExecSkippedByPolicy True w) (\<lambda>ev w1.
     and_then (lift_probe (record_evidence ev (sn_evidence r) w1)) (\<lambda>_ w2.
       case channel_evidence (sn_channel_evidence r) of
         None \<Rightarrow> (Inr (), w2)
       | Some blocker \<Rightarrow> lift_probe (on_builder (\<lambda>b. add_blocked_by b (ev_id ev) blocker) w2)))"

text \<open>A refusal closes the connection and hands on nothing.\<close>

definition refuse :: "nat \<Rightarrow> (step_error + unit) \<times> world \<Rightarrow> (step_error + 'a option) \<times> world" where
  "refuse conn x =
     (case x of (Inl err, w) \<Rightarrow> (Inl err, log_event (Closed conn) w) | (Inr _, w) \<Rightarrow> (Inr None, log_event (Closed conn) w))"

definition attempt_authentication ::
    "pg_env \<Rightarrow> nat \<Rightarrow> startup_result \<Rightarrow> secret \<Rightarrow> world \<Rightarrow> streams \<Rightarrow>
     (step_error + authenticated_session option) \<times> world \<times> streams" where
  "attempt_authentication pe conn r secret w \<sigma> =
     (case observe_authentication pe conn secret w \<sigma> of (ob, w1, \<sigma>1) \<Rightarrow>
        (case auth_evidence ob r of
           Inl err \<Rightarrow> (Inl err, log_event (Closed conn) w1, \<sigma>1)
         | Inr ev \<Rightarrow>
             (case lift_probe (record_evidence ev (sn_evidence r) w1) of
                (Inl err, w2) \<Rightarrow> (Inl err, log_event (Closed conn) w2, \<sigma>1)
              | (Inr _, w2) \<Rightarrow>
                  if auth_passed ob then (Inr (Some (new_authenticated_session conn r (ev_id ev))), w2, \<sigma>1)
                  else (Inr None, log_event (Closed conn) w2, \<sigma>1))))"

definition authenticate ::
    "pg_env \<Rightarrow> startup_result \<Rightarrow> credential \<Rightarrow> auth_params \<Rightarrow> world \<Rightarrow> streams \<Rightarrow>
     ((step_error + authenticated_session option) \<times> owned) \<times> world \<times> streams" where
  "authenticate pe r cred p w \<sigma> =
     (case validate_auth_params p of
        Inl err \<Rightarrow> ((Inl err, sn_owned r), w, \<sigma>)
      | Inr _ \<Rightarrow>
        (case take_conn (sn_owned r) of
           None \<Rightarrow> ((Inl ErrStepInput, sn_owned r), w, \<sigma>)
         | Some (conn, taken) \<Rightarrow>
             if sn_auth_method r = auth_method_none
             then ((Inr (Some (new_authenticated_session conn r (sn_evidence r))), taken), w, \<sigma>)
             else (case admissible_mechanism r of
                 Some (state, failure) \<Rightarrow>
                   (case refuse conn (record_mechanism_refusal pe r state failure w) of (x, w1) \<Rightarrow> ((x, taken), w1, \<sigma>))
               | None \<Rightarrow>
                   if credential_is_zero cred
                   then (case refuse conn (record_missing_input pe r w) of (x, w1) \<Rightarrow> ((x, taken), w1, \<sigma>))
                   else if \<not> permits_credentials (au_policy p) (sn_channel r)
                   then (case refuse conn (record_policy_refusal pe r w) of (x, w1) \<Rightarrow> ((x, taken), w1, \<sigma>))
                   else (case logical_endpoint (sn_endpoint r) of
                       Inl err \<Rightarrow> ((Inl err, taken), log_event (Closed conn) w, \<sigma>)
                     | Inr endpoint \<Rightarrow>
                         (case secret_for cred endpoint of
                            Inl _ \<Rightarrow> ((Inl ErrStepInput, taken), log_event (Closed conn) w, \<sigma>)
                          | Inr secret \<Rightarrow>
                              (case attempt_authentication pe conn r secret w \<sigma> of (x, w1, \<sigma>1) \<Rightarrow>
                                 ((x, taken), w1, \<sigma>1)))))))"

subsection \<open>\<open>EstablishSession\<close>\<close>

record session_params =
  es_read_timeout :: go_duration

definition validate_session_params :: "session_params \<Rightarrow> step_error + unit" where
  "validate_session_params p = (if es_read_timeout p < 0 then Inl ErrStepInput else Inr ())"

record session_result =
  er_endpoint :: string
  er_evidence :: evidence_id

text \<open>What the frames told: the parameters, the status when it was read, the fields of an error and the error.\<close>

record session_frames =
  fr_parameters :: session_parameters
  fr_status :: "char option"
  fr_fields :: error_fields
  fr_err :: "pg_error option"

definition no_frames :: session_frames where
  "no_frames = \<lparr>fr_parameters = \<lparr>ss_server_version = None, ss_in_hot_standby = None, ss_default_read_only = None,
       ss_is_superuser = None\<rparr>, fr_status = None, fr_fields = no_fields, fr_err = None\<rparr>"

definition max_session_frames :: nat where "max_session_frames = 256"

fun read_session_frames :: "nat \<Rightarrow> session_frames \<Rightarrow> pg_conn \<Rightarrow> session_frames \<times> pg_conn" where
  "read_session_frames 0 out c = (out\<lparr>fr_err := Some PgUnexpected\<rparr>, c)"
| "read_session_frames (Suc k) out c =
     (case read_pg_message c of
        (Inl err, c1) \<Rightarrow> (out\<lparr>fr_err := Some err\<rparr>, c1)
      | (Inr msg, c1) \<Rightarrow>
          if pm_type msg = msg_parameter_status then
            (case apply_parameter_status (pm_body msg) (fr_parameters out) of
               Inl err \<Rightarrow> (out\<lparr>fr_err := Some err\<rparr>, c1)
             | Inr ps \<Rightarrow> read_session_frames k (out\<lparr>fr_parameters := ps\<rparr>) c1)
          else if pm_type msg = msg_backend_key_data then
            (case validate_backend_key_data (pm_body msg) of
               Inl err \<Rightarrow> (out\<lparr>fr_err := Some err\<rparr>, c1)
             | Inr _ \<Rightarrow> read_session_frames k out c1)
          else if pm_type msg = msg_ready_for_query then
            (case decode_ready_for_query (pm_body msg) of
               Inl err \<Rightarrow> (out\<lparr>fr_err := Some err\<rparr>, c1)
             | Inr status \<Rightarrow> (out\<lparr>fr_status := Some status\<rparr>, c1))
          else if pm_type msg = msg_error_response then
            (case decode_error_fields (pm_body msg) of
               Inl err \<Rightarrow> (out\<lparr>fr_err := Some err\<rparr>, c1)
             | Inr f \<Rightarrow> (out\<lparr>fr_fields := f, fr_err := Some PgUnexpected\<rparr>, c1))
          else if pm_type msg = msg_notice_response then read_session_frames k out c1
          else (out\<lparr>fr_err := Some PgUnexpected\<rparr>, c1))"

record session_observation =
  so_frames :: session_frames
  so_fault :: go_error
  so_ctx_err :: ctx_state
  so_started_at :: go_time
  so_took :: go_duration

definition session_ready :: "session_observation \<Rightarrow> bool" where
  "session_ready ob \<longleftrightarrow> fr_err (so_frames ob) = None \<and> fr_status (so_frames ob) \<noteq> None"

definition observe_session :: "pg_env \<Rightarrow> nat \<Rightarrow> world \<Rightarrow> streams \<Rightarrow> session_observation \<times> world \<times> streams" where
  "observe_session pe conn w \<sigma> =
     (let (started, w1) = ask (en_now (pv_env pe)) w;
          (frames, stream) = read_session_frames max_session_frames no_frames (\<sigma> conn);
          (fault, w2) = ask (pv_fault pe) w1;
          (ctx, w3) = ask (en_ctx (pv_env pe)) w2;
          (ended, w4) = ask (en_now (pv_env pe)) w3
      in (\<lparr>so_frames = frames, so_fault = fault, so_ctx_err = ctx, so_started_at = started,
            so_took = ended - started\<rparr>, w4, \<sigma>(conn := stream)))"

definition session_sqlstate_failure :: "string \<Rightarrow> failure_class" where
  "session_sqlstate_failure s =
     (if s = ''3D000'' then FailureResourceNotFound
      else if s = ''42501'' then FailureAuthzDenied
      else if s = ''53300'' then FailureResourceLimitReached
      else FailureProtocolUnexpectedResponse)"

definition classify_session :: "session_observation \<Rightarrow> state \<times> failure_class" where
  "classify_session ob =
     (if session_ready ob then (StatePass, FailureNone)
      else (case fr_err (so_frames ob) of
          None \<Rightarrow>
            if so_ctx_err ob = CtxCanceled then (StateUnknown, FailureExecCancelled)
            else if so_ctx_err ob = CtxDeadlineExceeded then (StateUnknown, FailureExecLocalTimeout)
            else if \<not> error_fields_zero (fr_fields (so_frames ob))
              then (StateFail, session_sqlstate_failure (ef_sqlstate (fr_fields (so_frames ob))))
            else (StateFail, FailureProtocolUnexpectedResponse)
        | Some err \<Rightarrow>
            (let cause = wire_cause err (so_fault ob)
             in if cancelled_locally cause (so_ctx_err ob) then (StateUnknown, FailureExecCancelled)
                else if out_of_time_locally cause (so_ctx_err ob) then (StateUnknown, FailureExecLocalTimeout)
                else classify_exchange session_sqlstate_failure err (fr_fields (so_frames ob)) (so_fault ob))))"

definition parameter_attribute :: "attribute_key \<Rightarrow> string option \<Rightarrow> (attribute_key \<times> attr_value) list" where
  "parameter_attribute key v = (case v of None \<Rightarrow> [] | Some s \<Rightarrow> [(key, string_attr s)])"

definition session_attributes :: "session_observation \<Rightarrow> (attribute_key \<times> attr_value) list" where
  "session_attributes ob =
     (let ps = fr_parameters (so_frames ob)
      in parameter_attribute attr_server_version (ss_server_version ps)
         @ parameter_attribute attr_in_hot_standby (ss_in_hot_standby ps)
         @ parameter_attribute attr_default_read_only (ss_default_read_only ps)
         @ parameter_attribute attr_is_superuser (ss_is_superuser ps))
     @ (case fr_status (so_frames ob) of
          None \<Rightarrow> [] | Some s \<Rightarrow> [(attr_transaction_status, string_attr (transaction_status_name s))])
     @ error_attributes (fr_fields (so_frames ob))"

definition session_evidence :: "session_observation \<Rightarrow> authenticated_session \<Rightarrow> step_error + evidence" where
  "session_evidence ob s =
     (case classify_session ob of (state, failure) \<Rightarrow>
        make_evidence \<lparr>ev_id = pg_step_id step_session (plain_target (as_endpoint s) (as_address s)),
          ev_subject = must_subject (as_address s), ev_layer = LayerAuth, ev_step = step_session, ev_state = state,
          ev_failure = failure, ev_attributes = session_attributes ob, ev_started = so_started_at ob,
          ev_elapsed = measured (so_took ob)\<rparr>)"

text \<open>The connection is closed on every way out; the errors of \<open>SendTerminate\<close> are ignored.\<close>

definition establish_session ::
    "pg_env \<Rightarrow> authenticated_session \<Rightarrow> session_params \<Rightarrow> world \<Rightarrow> streams \<Rightarrow>
     ((step_error + session_result option) \<times> owned) \<times> world \<times> streams" where
  "establish_session pe s p w \<sigma> =
     (case validate_session_params p of
        Inl err \<Rightarrow> ((Inl err, as_owned s), w, \<sigma>)
      | Inr _ \<Rightarrow>
        (case take_conn (as_owned s) of
           None \<Rightarrow> ((Inl ErrStepInput, as_owned s), w, \<sigma>)
         | Some (conn, taken) \<Rightarrow>
             (case observe_session pe conn w \<sigma> of (ob, w1, \<sigma>1) \<Rightarrow>
                (case session_evidence ob s of
                   Inl err \<Rightarrow> ((Inl err, taken), log_event (Closed conn) w1, \<sigma>1)
                 | Inr ev \<Rightarrow>
                     (case lift_probe (record_evidence ev (as_evidence s) w1) of
                        (Inl err, w2) \<Rightarrow> ((Inl err, taken), log_event (Closed conn) w2, \<sigma>1)
                      | (Inr _, w2) \<Rightarrow>
                          if \<not> session_ready ob then ((Inr None, taken), log_event (Closed conn) w2, \<sigma>1)
                          else ((Inr (Some \<lparr>er_endpoint = as_endpoint s, er_evidence = ev_id ev\<rparr>), taken),
                                log_event (Closed conn) w2,
                                \<sigma>1(conn := snd (send_terminate (\<sigma>1 conn)))))))))"

end
