(* ===== verification/PgApp.thy ===== *)
theory PgApp
  imports PgSteps
begin

text \<open>
  The measuring half of the PostgreSQL run, \<open>internal/app\<close>: the requested target (\<open>target.go\<close>), the choice of the
  path to continue on (\<open>select.go\<close>), and \<open>measurePostgres\<close>, \<open>discover\<close>, \<open>continuePath\<close> and \<open>incompleteRun\<close> of
  \<open>postgres.go\<close>, over the sweep of theory \<open>Sweep\<close> and the steps of theory \<open>PgSteps\<close>.
\<close>

subsection \<open>The requested target\<close>

record logical_target =
  lt_host :: string
  lt_port :: nat

definition app_normalize_host :: "string \<Rightarrow> step_error + string" where
  "app_normalize_host host =
     (if host = [] then Inr host
      else (case parse_host host of Inl _ \<Rightarrow> Inl ErrStepInput | Inr h \<Rightarrow> Inr (ho_name h)))"

definition target_label :: "logical_target \<Rightarrow> string" where
  "target_label t = join_host_port (lt_host t) (show_nat (lt_port t))"

definition target_evidence_id :: "logical_target \<Rightarrow> evidence_id" where
  "target_evidence_id t = unscoped_evidence_id step_target_requested [target_label t]"

definition record_requested_target ::
    "logical_target \<Rightarrow> go_time \<Rightarrow> world \<Rightarrow> (step_error + evidence_id) \<times> world" where
  "record_requested_target t at w =
     (case new_target_subject (target_label t) of
        Inl err \<Rightarrow> (Inl (ErrStepProbe (ErrProbeDomain err)), w)
      | Inr subject \<Rightarrow>
          (case make_evidence \<lparr>ev_id = target_evidence_id t, ev_subject = subject, ev_layer = LayerInput,
               ev_step = step_target_requested, ev_state = StatePass, ev_failure = FailureNone, ev_attributes = [],
               ev_started = at, ev_elapsed = unmeasured\<rparr> of
             Inl err \<Rightarrow> (Inl err, w)
           | Inr ev \<Rightarrow>
               and_then (lift_probe (on_builder (\<lambda>b. add_evidence b ev) w)) (\<lambda>_ w1. (Inr (ev_id ev), w1))))"

subsection \<open>The choice of a path\<close>

record 'a candidate =
  cd_address :: addr_port
  cd_result :: 'a
  cd_auth_required :: bool

text \<open>\<open>AddrPort.Compare\<close>; the zero address comes first.\<close>

definition compare_addr :: "ip_addr option \<Rightarrow> ip_addr option \<Rightarrow> int" where
  "compare_addr a b =
     (case (a, b) of
        (None, None) \<Rightarrow> 0 | (None, Some _) \<Rightarrow> - 1 | (Some _, None) \<Rightarrow> 1
      | (Some x, Some y) \<Rightarrow> compare_ip x y)"

definition compare_addr_port :: "addr_port \<Rightarrow> addr_port \<Rightarrow> int" where
  "compare_addr_port a b =
     cmp_then (compare_addr (ap_addr a) (ap_addr b)) (go_compare (ap_port a) (ap_port b))"

definition canonical_step ::
    "'a candidate list \<Rightarrow> ('a candidate \<Rightarrow> bool) \<Rightarrow> nat \<Rightarrow> nat option \<Rightarrow> nat option" where
  "canonical_step cs include i best =
     (if \<not> include (cs ! i) then best
      else (case best of
          None \<Rightarrow> Some i
        | Some b \<Rightarrow> if compare_addr_port (cd_address (cs ! i)) (cd_address (cs ! b)) < 0 then Some i else best))"

text \<open>The index, or \<open>None\<close> for \<open>-1\<close>.\<close>

definition canonical_minimum :: "'a candidate list \<Rightarrow> ('a candidate \<Rightarrow> bool) \<Rightarrow> nat option" where
  "canonical_minimum cs include = fold (canonical_step cs include) [0..<length cs] None"

definition canonical_first :: "'a candidate list \<Rightarrow> bool \<Rightarrow> nat option" where
  "canonical_first cs auth_required = canonical_minimum cs (\<lambda>c. cd_auth_required c = auth_required)"

definition select_path :: "'a candidate list \<Rightarrow> bool \<Rightarrow> nat option" where
  "select_path cs want_auth_required =
     (case canonical_first cs want_auth_required of
        Some best \<Rightarrow> Some best
      | None \<Rightarrow> canonical_first cs (\<not> want_auth_required))"

definition sorted_addresses :: "'a candidate list \<Rightarrow> addr_port list" where
  "sorted_addresses cs = go_sort compare_addr_port (map cd_address cs)"

subsection \<open>Measuring\<close>

record pg_run_params =
  pr_host :: string
  pr_port :: nat
  pr_role :: string
  pr_database :: string
  pr_credential :: credential
  pr_resolver :: bool
  pr_dialer :: bool
  pr_tls :: tls_plan
  pr_options :: chain_tls
  pr_policy :: transport_policy
  pr_step_timeout :: go_duration

definition pg_negotiate_params :: "pg_run_params \<Rightarrow> pg_params" where
  "pg_negotiate_params p = \<lparr>pp_tls = pr_tls p, pp_options = pr_options p, pp_step_timeout = pr_step_timeout p\<rparr>"

definition pg_startup_params :: "pg_run_params \<Rightarrow> startup_step_params" where
  "pg_startup_params p = \<lparr>su_user = pr_role p, su_database = pr_database p, su_timeout = pr_step_timeout p\<rparr>"

definition pg_chain_params :: "pg_run_params \<Rightarrow> evidence_id \<Rightarrow> chain_params" where
  "pg_chain_params p parent =
     \<lparr>cp_host = pr_host p, cp_port = pr_port p, cp_resolver = pr_resolver p, cp_dialer = pr_dialer p,
      cp_tls = None, cp_scope = [], cp_parent = parent, cp_step_timeout = pr_step_timeout p\<rparr>"

text \<open>\<open>discover\<close>: the candidates, and the paths with what was taken from them.\<close>

fun discover ::
    "pg_env \<Rightarrow> pg_run_params \<Rightarrow> continuation list \<Rightarrow> startup_result candidate list \<Rightarrow> world \<Rightarrow> streams \<Rightarrow>
     ((step_error + startup_result candidate list) \<times> continuation list) \<times> world \<times> streams" where
  "discover pe p [] found w \<sigma> = ((Inr found, []), w, \<sigma>)"
| "discover pe p (path # paths) found w \<sigma> =
     (case ask (en_ctx (pv_env pe)) w of (ctx, w0) \<Rightarrow>
      if ctx \<noteq> CtxLive then ((Inr found, path # paths), w0, \<sigma>)
      else (case negotiate pe path (pg_negotiate_params p) w0 \<sigma> of
          ((Inl err, taken), w1, \<sigma>1) \<Rightarrow> ((Inl err, path\<lparr>co_owned := taken\<rparr> # paths), w1, \<sigma>1)
        | ((Inr session, taken), w1, \<sigma>1) \<Rightarrow>
            (let path' = path\<lparr>co_owned := taken\<rparr>
             in case startup pe session (pg_startup_params p) w1 \<sigma>1 of
                  ((r, taken'), w2, \<sigma>2) \<Rightarrow>
                    (let w3 = snd (close_owned taken' w2)
                     in case r of
                          Inl err \<Rightarrow> ((Inl err, path' # paths), w3, \<sigma>2)
                        | Inr result \<Rightarrow>
                            (let found' = (case result of
                                 None \<Rightarrow> found
                               | Some s \<Rightarrow> found @ [\<lparr>cd_address = co_address path, cd_result = s,
                                   cd_auth_required = (sn_auth_method s \<noteq> auth_method_none)\<rparr>])
                             in case discover pe p paths found' w3 \<sigma>2 of
                                  ((out, paths'), w4, \<sigma>4) \<Rightarrow> ((out, path' # paths'), w4, \<sigma>4))))))"

definition continue_path ::
    "pg_env \<Rightarrow> pg_run_params \<Rightarrow> startup_result \<Rightarrow> world \<Rightarrow> streams \<Rightarrow> (step_error + bool) \<times> world \<times> streams" where
  "continue_path pe p selected w \<sigma> =
     (case authenticate pe selected (pr_credential p)
         \<lparr>au_policy = pr_policy p, au_timeout = pr_step_timeout p\<rparr> w \<sigma> of
        ((Inl err, _), w1, \<sigma>1) \<Rightarrow> (Inl err, w1, \<sigma>1)
      | ((Inr None, _), w1, \<sigma>1) \<Rightarrow> (Inr False, w1, \<sigma>1)
      | ((Inr (Some session), _), w1, \<sigma>1) \<Rightarrow>
          (case establish_session pe session \<lparr>es_read_timeout = pr_step_timeout p\<rparr> w1 \<sigma>1 of
             ((Inl err, _), w2, \<sigma>2) \<Rightarrow> (Inl err, w2, \<sigma>2)
           | ((Inr result, _), w2, \<sigma>2) \<Rightarrow> (Inr (result \<noteq> None), w2, \<sigma>2)))"

text \<open>Closing the candidates that were not chosen, in order.\<close>

fun close_candidates :: "nat \<Rightarrow> nat option \<Rightarrow> startup_result candidate list \<Rightarrow> world \<Rightarrow> world" where
  "close_candidates i chosen [] w = w"
| "close_candidates i chosen (c # cs) w =
     close_candidates (Suc i) chosen cs
       (if chosen = Some i then w else snd (close_owned (sn_owned (cd_result c)) w))"

definition measure_paths ::
    "pg_env \<Rightarrow> pg_run_params \<Rightarrow> continuation list \<Rightarrow> world \<Rightarrow> streams \<Rightarrow>
     ((step_error + bool) \<times> continuation list) \<times> world \<times> streams" where
  "measure_paths pe p paths w \<sigma> =
     (case discover pe p paths [] w \<sigma> of
        ((Inl err, paths'), w1, \<sigma>1) \<Rightarrow> ((Inl err, paths'), w1, \<sigma>1)
      | ((Inr candidates, paths'), w1, \<sigma>1) \<Rightarrow>
          (let chosen = select_path candidates (\<not> credential_is_zero (pr_credential p));
               w2 = close_candidates 0 chosen candidates w1
           in case chosen of
                None \<Rightarrow> ((Inr False, paths'), w2, \<sigma>1)
              | Some i \<Rightarrow>
                  (let selected = cd_result (candidates ! i)
                   in case ask (en_ctx (pv_env pe)) w2 of (ctx, w3) \<Rightarrow>
                        if ctx \<noteq> CtxLive
                        then ((Inr False, paths'), snd (close_owned (sn_owned selected) w3), \<sigma>1)
                        else (case continue_path pe p selected w3 \<sigma>1 of (r, w4, \<sigma>4) \<Rightarrow> ((r, paths'), w4, \<sigma>4)))))"

definition measure_postgres ::
    "pg_env \<Rightarrow> pg_run_params \<Rightarrow> logical_target \<Rightarrow> world \<Rightarrow> streams \<Rightarrow> (step_error + bool) \<times> world \<times> streams" where
  "measure_postgres pe p t w \<sigma> =
     (case ask (en_now (pv_env pe)) w of (at, w0) \<Rightarrow>
      (case record_requested_target t at w0 of
         (Inl err, w1) \<Rightarrow> (Inl err, w1, \<sigma>)
       | (Inr requested, w1) \<Rightarrow>
           (case run_chain (pv_env pe) (pg_chain_params p requested) w1 of
              (Inl err, w2) \<Rightarrow> (Inl (ErrStepProbe err), w2, \<sigma>)
            | (Inr paths, w2) \<Rightarrow>
                (case measure_paths pe p paths w2 \<sigma> of ((r, paths'), w3, \<sigma>3) \<Rightarrow>
                   (r, close_all paths' w3, \<sigma>3)))))"

text \<open>\<open>incompleteRun\<close>, from the context's error, the graph and whether a session was established.\<close>

definition ran_out_of_time :: "evidence \<Rightarrow> bool" where
  "ran_out_of_time node \<longleftrightarrow>
     (if ev_state node \<noteq> StateUnknown then False
      else ev_failure node = FailureExecLocalTimeout \<or> ev_failure node = FailureExecCancelled)"

definition incomplete_run :: "ctx_state \<Rightarrow> graph \<Rightarrow> bool \<Rightarrow> bool" where
  "incomplete_run ctx g established \<longleftrightarrow>
     (if ctx \<noteq> CtxLive then True
      else if established then False
      else list_ex ran_out_of_time (graph_nodes g))"

end
