(* ===== verification/SweepProps.thy ===== *)
theory SweepProps
  imports Sweep
begin

text \<open>
  What the transport chain does with its connections and what it says about their channels. The log of a world
  is replayed to the connections that are open after it; a replay that closes a connection which is not open, or
  opens one that is, fails. \<open>holds w live\<close> says that \<open>live\<close> are the open connections of a world. Every operation
  of the probes and of the chain has one lemma that says which connections it leaves open.
\<close>

subsection \<open>The connections that are open\<close>

fun replay :: "nat list \<Rightarrow> net_event list \<Rightarrow> nat list option" where
  "replay live [] = Some live"
| "replay live (Opened n # xs) = (if n \<in> set live then None else replay (live @ [n]) xs)"
| "replay live (Closed n # xs) = (if n \<in> set live then replay (remove1 n live) xs else None)"

definition open_conns :: "world \<Rightarrow> nat list option" where
  "open_conns w = replay [] (wd_log w)"

definition holds :: "world \<Rightarrow> nat list \<Rightarrow> bool" where
  "holds w live \<longleftrightarrow> open_conns w = Some live \<and> distinct live \<and> list_all (\<lambda>n. n < wd_tick w) live"

definition conn_list :: "nat option \<Rightarrow> nat list" where
  "conn_list conn = (case conn of None \<Rightarrow> [] | Some c \<Rightarrow> [c])"

lemma conn_list_simps [simp]: "conn_list None = []" "conn_list (Some c) = [c]"
  by (simp_all add: conn_list_def)

lemma replay_append: "replay live (xs @ ys) = (case replay live xs of None \<Rightarrow> None | Some l \<Rightarrow> replay l ys)"
  by (induction live xs rule: replay.induct) auto

lemma open_conns_log: "open_conns (log_event x w) = (case open_conns w of None \<Rightarrow> None | Some l \<Rightarrow> replay l [x])"
  by (simp add: open_conns_def log_event_def replay_append)

lemma log_event_simps [simp]:
  "wd_tick (log_event x w) = wd_tick w" "wd_builder (log_event x w) = wd_builder w"
  by (simp_all add: log_event_def)

text \<open>A step that opens and closes nothing.\<close>

definition quiet :: "world \<Rightarrow> world \<Rightarrow> bool" where
  "quiet w w' \<longleftrightarrow> wd_log w' = wd_log w \<and> wd_tick w \<le> wd_tick w'"

lemma quiet_refl [simp, intro]: "quiet w w"
  by (simp add: quiet_def)

lemma quiet_trans [trans]: "quiet w w1 \<Longrightarrow> quiet w1 w2 \<Longrightarrow> quiet w w2"
  by (simp add: quiet_def)

lemma holds_quiet: "holds w live \<Longrightarrow> quiet w w' \<Longrightarrow> holds w' live"
  by (auto simp: holds_def quiet_def open_conns_def list_all_iff)

lemma quiet_ask: "ask f w = (x, w') \<Longrightarrow> quiet w w'"
  by (auto simp: ask_def quiet_def)

lemma holds_ask: "holds w live \<Longrightarrow> ask f w = (x, w') \<Longrightarrow> holds w' live"
  by (rule holds_quiet [OF _ quiet_ask])

lemma holds_close:
  assumes "holds w (live @ c # others)"
  shows "holds (log_event (Closed c) w) (live @ others)"
  using assms by (auto simp: holds_def open_conns_log remove1_append)

lemma holds_close_conn: "holds w (live @ conn_list conn) \<Longrightarrow> holds (close_conn conn w) live"
  using holds_close [of w live "the conn" "[]"] by (cases conn) (simp_all add: close_conn_def)

lemma close_owned_own: "close_owned (own conn) w = ((own conn)\<lparr>ow_closed := conn \<noteq> None\<rparr>, close_conn conn w)"
  by (cases conn) (simp_all add: close_owned_def own_def close_conn_def)

lemma take_conn_own: "take_conn (own conn) = map_option (\<lambda>c. (c, (own conn)\<lparr>ow_taken := True\<rparr>)) conn"
  by (cases conn) (simp_all add: take_conn_def available_def own_def)

lemma available_own [simp]: "available (own conn) \<longleftrightarrow> conn \<noteq> None"
  by (simp add: available_def own_def)

lemma ow_conn_own [simp]: "ow_conn (own conn) = conn"
  by (simp add: own_def)

subsection \<open>The probes\<close>

lemma dns_lookup_quiet: "dns_lookup e host scope w = (r, w') \<Longrightarrow> quiet w w'"
  by (auto simp: dns_lookup_def observe_dns_def quiet_def ask_def Let_def split: sum.splits prod.splits)

lemma holds_dial:
  assumes "holds w live" "dial e addr w = ((err, conn), w')"
  shows "holds w' (live @ conn_list conn)"
proof -
  obtain connected w1 where a: "ask (\<lambda>n. en_dial e n addr) w = ((err, connected), w1)"
    using assms(2) by (auto simp: dial_def split: prod.splits if_splits)
  then have w1: "wd_tick w1 = Suc (wd_tick w)" "holds w1 live"
    using holds_ask [OF assms(1) a] a by (auto simp: ask_def)
  have fresh: "wd_tick w \<notin> set live" using assms(1) by (auto simp: holds_def list_all_iff)
  show ?thesis
    using assms(2) a w1 fresh
    by (auto simp: dial_def holds_def open_conns_log list_all_iff split: if_splits)
qed

lemma observe_tcp_holds:
  assumes "holds w live" "observe_tcp e addr w = (ob, w')"
  shows "holds w' (live @ conn_list (to_conn ob))"
proof -
  obtain s w1 where 1: "ask (en_now e) w = (s, w1)" by force
  obtain err conn w2 where 2: "dial e addr w1 = ((err, conn), w2)" by (metis surj_pair)
  obtain t w3 where 3: "ask (en_now e) w2 = (t, w3)" by force
  obtain c w4 where 4: "ask (en_step e) w3 = (c, w4)" by force
  have "to_conn ob = conn" "w' = w4"
    using assms(2) by (auto simp: observe_tcp_def Let_def 1 2 3 4)
  then show ?thesis
    using holds_ask [OF holds_ask [OF holds_dial [OF holds_ask [OF assms(1) 1] 2] 3] 4] by simp
qed

lemma tcp_connect_holds:
  assumes "holds w live" "tcp_connect e endpoint addr scope w = (r, w')"
  shows "case r of Inl err \<Rightarrow> holds w' live
    | Inr c \<Rightarrow> (\<exists>conn. tr_owned c = own conn \<and> holds w' (live @ conn_list conn))"
proof -
  have new: "case new_tcp_result ob endpoint scope w1 of (r, w') \<Rightarrow> (case r of Inl err \<Rightarrow> holds w' live
    | Inr c \<Rightarrow> (\<exists>conn. tr_owned c = own conn \<and> holds w' (live @ conn_list conn)))"
    if "observe_tcp e addr' w = (ob, w1)" for addr' ob w1
    using observe_tcp_holds [OF assms(1) that] holds_close_conn
    by (auto simp: new_tcp_result_def split: sum.splits)
  show ?thesis
  proof (cases "validate_endpoint endpoint = Inr () \<and> is_ok (normalize_addr addr)")
    case True
    then obtain addr' where ok: "validate_endpoint endpoint = Inr ()" "normalize_addr addr = Inr addr'"
      by (auto simp: is_ok_iff)
    obtain ob w1 where ob: "observe_tcp e addr' w = (ob, w1)" by force
    show ?thesis using new [OF ob] assms(2) by (simp add: tcp_connect_def ok ob)
  next
    case False
    then show ?thesis
      using assms by (cases "validate_endpoint endpoint"; cases "normalize_addr addr") (auto simp: tcp_connect_def)
  qed
qed

lemma observe_tls_quiet: "observe_tls e conn p w = (ob, w') \<Longrightarrow> quiet w w' \<and> so_conn ob = conn \<and> so_params ob = p"
  by (auto simp: observe_tls_def quiet_def ask_def Let_def split: prod.splits)

lemma tls_handshake_holds:
  assumes "holds w (live @ [conn])" "tls_handshake e conn p w = (r, w')"
  shows "case r of Inl err \<Rightarrow> holds w' live
    | Inr s \<Rightarrow> (\<exists>c. sr_owned s = own c \<and> holds w' (live @ conn_list c))"
proof -
  have close: "holds (close_conn (Some conn) w1) live" if "quiet w w1" for w1
    using holds_close_conn [of w1 live "Some conn"] holds_quiet [OF assms(1) that] by simp
  have new: "case new_tls_result e ob w1 of (r, w') \<Rightarrow> (case r of Inl err \<Rightarrow> holds w' live
    | Inr s \<Rightarrow> (\<exists>c. sr_owned s = own c \<and> holds w' (live @ conn_list c)))"
    if "observe_tls e conn p w = (ob, w1)" for ob w1
    using observe_tls_quiet [OF that] close [of w1] holds_quiet [OF assms(1), of w1]
    by (auto simp: new_tls_result_def split: sum.splits intro: exI [of _ None] exI [of _ "Some conn"])
  show ?thesis
  proof (cases "validate_tls_params p")
    case (Inl err)
    then show ?thesis using assms(2) close [of w] by (auto simp: tls_handshake_def)
  next
    case (Inr u)
    obtain ob w1 where ob: "observe_tls e conn p w = (ob, w1)" by force
    show ?thesis using new [OF ob] assms(2) by (simp add: tls_handshake_def Inr ob)
  qed
qed

subsection \<open>The chain\<close>

lemma on_builder_quiet: "on_builder f w = (r, w') \<Longrightarrow> quiet w w'"
  by (auto simp: on_builder_def quiet_def split: sum.splits)

lemma and_then_quiet:
  assumes "and_then x f = (r, w')" "quiet w (snd x)" "\<And>v u r' u'. x = (Inr v, u) \<Longrightarrow> f v u = (r', u') \<Longrightarrow> quiet u u'"
  shows "quiet w w'"
proof -
  obtain y u where x: "x = (y, u)" by (cases x)
  show ?thesis
    using assms by (cases y) (auto simp: x intro: quiet_trans)
qed

lemma record_evidence_quiet: "record_evidence ev parent w = (r, w') \<Longrightarrow> quiet w w'"
  unfolding record_evidence_def
  by (erule and_then_quiet) (auto split: if_splits prod.splits intro: on_builder_quiet,
      metis on_builder_quiet surjective_pairing)

lemma skipped_evidence_quiet: "skipped_evidence e step layer endpoint addr failure scope w = (r, w') \<Longrightarrow> quiet w w'"
  by (auto simp: skipped_evidence_def ask_def quiet_def split: sum.splits)

lemma snd_quiet: "(\<And>r w'. x = (r, w') \<Longrightarrow> quiet w w') \<Longrightarrow> quiet w (snd x)"
  by (cases x) simp

lemma record_skipped_tls_quiet: "record_skipped_tls e p blocker addr w = (r, w') \<Longrightarrow> quiet w w'"
  unfolding record_skipped_tls_def
  apply (erule and_then_quiet)
   apply (rule snd_quiet, erule skipped_evidence_quiet)
  apply (erule and_then_quiet)
   apply (rule snd_quiet, erule record_evidence_quiet)
  apply (erule on_builder_quiet)
  done

lemma record_unattempted_quiet: "record_unattempted e p parent addr failure w = (r, w') \<Longrightarrow> quiet w w'"
  unfolding record_unattempted_def
  apply (erule and_then_quiet)
   apply (rule snd_quiet, erule skipped_evidence_quiet)
  apply (erule and_then_quiet)
   apply (rule snd_quiet, erule record_evidence_quiet)
  apply (auto split: if_splits intro: record_skipped_tls_quiet)
  done

lemma locate_quiet: "locate e p w = (r, w') \<Longrightarrow> quiet w w'"
proof (cases "ho_addr (chain_host p)")
  case None
  assume "locate e p w = (r, w')"
  then show ?thesis
    unfolding locate_def None option.case
    apply -
    apply (erule and_then_quiet)
     apply (rule snd_quiet, erule dns_lookup_quiet)
    apply (erule and_then_quiet)
     apply (rule snd_quiet, erule record_evidence_quiet)
    apply auto
    done
qed (simp add: locate_def)

text \<open>The connections a list of continuations owns, each still available.\<close>

definition owned_conns :: "continuation list \<Rightarrow> nat list" where
  "owned_conns conts = concat (map (conn_list \<circ> ow_conn \<circ> co_owned) conts)"

definition fresh_continuation :: "continuation \<Rightarrow> bool" where
  "fresh_continuation c \<longleftrightarrow> ow_conn (co_owned c) \<noteq> None \<and> co_owned c = own (ow_conn (co_owned c))"

lemma fresh_continuation_owns: "fresh_continuation c \<Longrightarrow> \<exists>conn. co_owned c = own (Some conn)"
  unfolding fresh_continuation_def by (metis not_None_eq)

lemma owned_conns_simps [simp]:
  "owned_conns [] = []" "owned_conns (c # cs) = conn_list (ow_conn (co_owned c)) @ owned_conns cs"
  "owned_conns (cs @ ds) = owned_conns cs @ owned_conns ds"
  by (simp_all add: owned_conns_def)

lemma close_all_holds:
  assumes "holds w (live @ owned_conns conts)" "list_all fresh_continuation conts"
  shows "holds (close_all conts w) live"
  using assms
proof (induction conts arbitrary: w)
  case (Cons c conts)
  then obtain conn where c: "co_owned c = own (Some conn)" using fresh_continuation_owns [of c] by auto
  have "holds (log_event (Closed conn) w) (live @ owned_conns conts)"
    using Cons.prems by (intro holds_close) (simp add: c)
  then show ?case using Cons by (simp add: c close_owned_own close_conn_def)
qed simp

definition opt_list :: "'a option \<Rightarrow> 'a list" where
  "opt_list x = (case x of None \<Rightarrow> [] | Some y \<Rightarrow> [y])"

definition sweep_outcome :: "nat list \<Rightarrow> (probe_error + continuation option) \<times> world \<Rightarrow> bool" where
  "sweep_outcome live out \<longleftrightarrow>
     (case out of
        (Inl err, w') \<Rightarrow> holds w' live
      | (Inr c, w') \<Rightarrow> list_all fresh_continuation (opt_list c) \<and> holds w' (live @ owned_conns (opt_list c)))"

lemma sweep_outcome_simps [simp]:
  "sweep_outcome live (Inl err, w') \<longleftrightarrow> holds w' live"
  "sweep_outcome live (Inr None, w') \<longleftrightarrow> holds w' live"
  "sweep_outcome live (Inr (Some c), w') \<longleftrightarrow> fresh_continuation c \<and> holds w' (live @ conn_list (ow_conn (co_owned c)))"
  by (simp_all add: sweep_outcome_def opt_list_def)

lemma chain_handshake_holds:
  assumes "tr_owned connection = own (Some conn)" "holds w (live @ [conn])"
  shows "sweep_outcome live (chain_handshake e p t connection addr w)"
proof -
  obtain r w1 where h: "tls_handshake e conn (chain_tls_params p t addr) w = (r, w1)" by force
  note spec = tls_handshake_holds [OF assms(2) h]
  show ?thesis
  proof (cases r)
    case (Inl err)
    then show ?thesis using spec h by (simp add: chain_handshake_def assms(1) take_conn_own)
  next
    case (Inr s)
    then obtain c where c: "sr_owned s = own c" "holds w1 (live @ conn_list c)" using spec by auto
    obtain r2 w2 where rec: "record_evidence (sr_evidence s) (ev_id (tr_evidence connection)) w1 = (r2, w2)" by force
    have w2: "holds w2 (live @ conn_list c)" by (rule holds_quiet [OF c(2) record_evidence_quiet [OF rec]])
    have closed: "holds (close_conn c w2) live" by (rule holds_close_conn [OF w2])
    show ?thesis
      using w2 closed
      by (cases r2; cases c)
        (simp_all add: chain_handshake_def assms(1) take_conn_own h Inr rec c(1) close_owned_own fresh_continuation_def)
  qed
qed

lemma sweep_address_holds:
  assumes "holds w live"
  shows "sweep_outcome live (sweep_address e p parent addr w)"
proof -
  obtain ctx w0 where ask: "ask (en_ctx e) w = (ctx, w0)" by force
  have w0: "holds w0 live" by (rule holds_ask [OF assms ask])
  show ?thesis
  proof (cases "ctx = CtxLive")
    case False
    obtain r w1 where r: "record_unattempted e p parent addr (budget_failure ctx) w0 = (r, w1)" by force
    have "holds w1 live" by (rule holds_quiet [OF w0 record_unattempted_quiet [OF r]])
    then show ?thesis using False by (cases r) (simp_all add: sweep_address_def ask r)
  next
    case True
    obtain r w1 where con: "tcp_connect e (chain_endpoint p) addr (cp_scope p) w0 = (r, w1)" by force
    note spec = tcp_connect_holds [OF w0 con]
    show ?thesis
    proof (cases r)
      case (Inl err)
      then show ?thesis using spec True by (simp add: sweep_address_def ask con)
    next
      case (Inr c)
      then obtain conn where c: "tr_owned c = own conn" "holds w1 (live @ conn_list conn)" using spec by auto
      obtain r2 w2 where rec: "record_evidence (tr_evidence c) parent w1 = (r2, w2)" by force
      have w2: "holds w2 (live @ conn_list conn)" by (rule holds_quiet [OF c(2) record_evidence_quiet [OF rec]])
      show ?thesis
      proof (cases r2)
        case (Inl err)
        then show ?thesis using holds_close_conn [OF w2] True
          by (simp add: sweep_address_def ask con Inr rec c(1) close_owned_own)
      next
        case ok: (Inr u)
        show ?thesis
        proof (cases conn)
          case None
          obtain r3 w3 where skip: "record_skipped_tls e p (ev_id (tr_evidence c)) addr w2 = (r3, w3)" by force
          have "holds w3 live" using holds_quiet [OF w2 record_skipped_tls_quiet [OF skip]] None by simp
          then show ?thesis using w2 True None
            by (cases "cp_tls p"; cases r3)
              (simp_all add: sweep_address_def ask con \<open>r = Inr c\<close> rec ok c(1) skip close_owned_own close_conn_def)
        next
          case (Some k)
          show ?thesis
          proof (cases "cp_tls p")
            case None
            then show ?thesis using w2 True Some
              by (simp add: sweep_address_def ask con \<open>r = Inr c\<close> rec ok c(1) fresh_continuation_def)
          next
            case t: (Some t)
            have "sweep_outcome live (chain_handshake e p t c addr w2)"
              using w2 Some c(1) by (intro chain_handshake_holds) simp_all
            then show ?thesis using True Some
              by (simp add: sweep_address_def ask con \<open>r = Inr c\<close> rec ok c(1) t)
          qed
        qed
      qed
    qed
  qed
qed

lemma sweep_all_holds:
  assumes "holds w (live @ owned_conns conts)" "list_all fresh_continuation conts"
    "sweep_all e p parent ips conts w = (r, w')"
  shows "case r of Inl err \<Rightarrow> holds w' live
    | Inr conts' \<Rightarrow> list_all fresh_continuation conts' \<and> holds w' (live @ owned_conns conts')"
  using assms
proof (induction ips arbitrary: conts w)
  case (Cons ip ips)
  obtain r1 w1 where s: "sweep_address e p parent \<lparr>ap_addr = Some ip, ap_port = cp_port p\<rparr> w = (r1, w1)" by force
  note spec = sweep_address_holds [OF Cons.prems(1), of e p parent "\<lparr>ap_addr = Some ip, ap_port = cp_port p\<rparr>", unfolded s]
  show ?case
  proof (cases r1)
    case (Inl err)
    then show ?thesis
      using spec Cons.prems close_all_holds [of w1 live conts] by (auto simp: s)
  next
    case (Inr c)
    show ?thesis
    proof (cases c)
      case None
      then show ?thesis using spec Cons.prems Cons.IH [of w1 conts] Inr by (simp add: s)
    next
      case (Some k)
      then show ?thesis using spec Cons.prems Cons.IH [of w1 "conts @ [k]"] Inr by (simp add: s)
    qed
  qed
qed auto

lemma run_chain_holds:
  assumes "holds w live"
  shows "case run_chain e p w of
      (Inl err, w') \<Rightarrow> holds w' live
    | (Inr conts, w') \<Rightarrow> list_all fresh_continuation conts \<and> holds w' (live @ owned_conns conts)"
proof (cases "validate_chain p")
  case (Inl err)
  then show ?thesis using assms by (simp add: run_chain_def)
next
  case (Inr u)
  obtain r w1 where loc: "locate e p w = (r, w1)" by force
  have w1: "holds w1 live" by (rule holds_quiet [OF assms locate_quiet [OF loc]])
  show ?thesis
  proof (cases r)
    case (Inl err)
    then show ?thesis using w1 by (simp add: run_chain_def \<open>validate_chain p = Inr u\<close> loc)
  next
    case (Inr found)
    obtain r2 w2 where all: "sweep_all e p (snd found) (fst found) [] w1 = (r2, w2)" by force
    have "case r2 of Inl err \<Rightarrow> holds w2 live
      | Inr conts' \<Rightarrow> list_all fresh_continuation conts' \<and> holds w2 (live @ owned_conns conts')"
      using w1 by (intro sweep_all_holds [OF _ _ all]) simp_all
    then show ?thesis
      by (cases r2) (simp_all add: run_chain_def \<open>validate_chain p = Inr u\<close> loc Inr all split_beta)
  qed
qed

subsection \<open>What a continuation says of its channel\<close>

text \<open>A channel counts as verified after a handshake that succeeded with the name and the roots asked for and with
  verification on.\<close>

definition channel_honest :: "env \<Rightarrow> chain_params \<Rightarrow> continuation \<Rightarrow> bool" where
  "channel_honest e p c \<longleftrightarrow>
     co_endpoint c = chain_endpoint p
     \<and> (case cp_tls p of
          None \<Rightarrow> co_channel c = ChannelPlaintext
        | Some t \<Rightarrow>
            co_channel c = (if ct_insecure t then ChannelTLSUnverified else ChannelTLSVerified)
            \<and> (\<exists>n st. en_handshake e n (chain_tls_params p t (co_address c)) = Inr st))"

lemma observe_tls_ok:
  assumes "observe_tls e conn p w = (ob, w')" "so_err ob = None"
  shows "\<exists>n st. en_handshake e n p = Inr st"
  using assms by (auto simp: observe_tls_def ask_def split: sum.splits)

lemma tls_handshake_channel:
  assumes "tls_handshake e conn p w = (Inr s, w')" "ow_conn (sr_owned s) \<noteq> None"
  shows "tls_channel s = (if tp_insecure p then ChannelTLSUnverified else ChannelTLSVerified)
    \<and> (\<exists>n st. en_handshake e n p = Inr st)"
proof -
  obtain ob w1 where ob: "observe_tls e conn p w = (ob, w1)" by force
  then have "new_tls_result e ob w1 = (Inr s, w')"
    using assms(1) by (auto simp: tls_handshake_def split: sum.splits)
  then have "so_err ob = None" "sr_verified s = tls_verified ob"
    using assms(2) by (auto simp: new_tls_result_def split: sum.splits if_splits)
  then show ?thesis
    using observe_tls_ok [OF ob] observe_tls_quiet [OF ob] assms(2)
    by (simp add: tls_channel_def tls_verified_def)
qed

lemma chain_handshake_honest:
  assumes "chain_handshake e p t connection addr w = (Inr (Some c), w')" "cp_tls p = Some t"
  shows "channel_honest e p c"
proof -
  obtain conn r0 where conn: "take_conn (tr_owned connection) = Some (conn, r0)"
    using assms(1) by (auto simp: chain_handshake_def split: option.splits)
  obtain r w1 where h: "tls_handshake e conn (chain_tls_params p t addr) w = (r, w1)" by force
  with assms(1) conn obtain s where s: "tls_handshake e conn (chain_tls_params p t addr) w = (Inr s, w1)"
    by (cases r) (simp_all add: chain_handshake_def)
  obtain r2 w2 where rec: "record_evidence (sr_evidence s) (ev_id (tr_evidence connection)) w1 = (r2, w2)" by force
  obtain wrapped r' where took: "take_conn (sr_owned s) = Some (wrapped, r')"
    using assms(1) by (cases r2; cases "take_conn (sr_owned s)") (auto simp: chain_handshake_def conn s rec)
  have c: "c = \<lparr>co_endpoint = chain_endpoint p, co_address = addr,
                co_evidence = ev_id (sr_evidence s), co_channel = tls_channel s,
                co_channel_evidence = ev_id (sr_evidence s), co_owned = own (Some wrapped)\<rparr>"
    using assms(1) by (cases r2) (auto simp: chain_handshake_def conn s rec took)
  have "ow_conn (sr_owned s) \<noteq> None" using took by (auto simp: take_conn_def available_def split: if_splits)
  from tls_handshake_channel [OF s this] show ?thesis
    by (auto simp: channel_honest_def c assms(2) chain_tls_params_def)
qed

lemma sweep_address_honest:
  assumes "sweep_address e p parent addr w = (Inr (Some c), w')"
  shows "channel_honest e p c"
proof -
  obtain ctx w0 where ask: "ask (en_ctx e) w = (ctx, w0)" by force
  have live: "ctx = CtxLive"
    using assms by (auto simp: sweep_address_def ask and_then_Inr split: if_splits)
  obtain r w1 where con: "tcp_connect e (chain_endpoint p) addr (cp_scope p) w0 = (r, w1)" by force
  with assms live obtain k where k: "tcp_connect e (chain_endpoint p) addr (cp_scope p) w0 = (Inr k, w1)"
    by (cases r) (simp_all add: sweep_address_def ask)
  obtain r2 w2 where rec: "record_evidence (tr_evidence k) parent w1 = (r2, w2)" by force
  obtain r3 w3 where skip: "record_skipped_tls e p (ev_id (tr_evidence k)) addr w2 = (r3, w3)" by force
  have av: "available (tr_owned k)" and r2: "r2 = Inr ()"
    using assms live
    by (cases r2; cases "cp_tls p"; cases r3; cases "available (tr_owned k)";
        simp add: sweep_address_def ask k rec skip)+
  show ?thesis
  proof (cases "cp_tls p")
    case None
    then show ?thesis
      using assms live by (auto simp: sweep_address_def ask k rec av r2 channel_honest_def)
  next
    case (Some t)
    then have "chain_handshake e p t k addr w2 = (Inr (Some c), w')"
      using assms live by (simp add: sweep_address_def ask k rec av r2)
    then show ?thesis using chain_handshake_honest Some by blast
  qed
qed

lemma sweep_all_honest:
  assumes "sweep_all e p parent ips conts w = (Inr conts', w')" "list_all (channel_honest e p) conts"
  shows "list_all (channel_honest e p) conts'"
  using assms
proof (induction ips arbitrary: conts w)
  case (Cons ip ips)
  obtain r w1 where s: "sweep_address e p parent \<lparr>ap_addr = Some ip, ap_port = cp_port p\<rparr> w = (r, w1)" by force
  show ?case
  proof (cases r)
    case (Inr c)
    then show ?thesis
      using Cons.prems Cons.IH [of conts w1] Cons.IH [of "conts @ [the c]" w1] sweep_address_honest s
      by (cases c) auto
  qed (use Cons.prems s in simp)
qed simp

lemma run_chain_honest:
  assumes "run_chain e p w = (Inr conts, w')"
  shows "list_all (channel_honest e p) conts"
  using assms sweep_all_honest by (fastforce simp: run_chain_def and_then_Inr split: sum.splits)

subsection \<open>A sweep of one address\<close>

text \<open>A database at a literal address that accepts the connection and proves its name: the concrete input of the
  witnesses.\<close>

definition demo_ip :: ip_addr where "demo_ip = IP4 [10, 0, 0, 7]"

definition demo_env :: env where
  "demo_env = \<lparr>en_now = (\<lambda>n. int n + 1), en_ctx = (\<lambda>_. CtxLive), en_step = (\<lambda>_. CtxLive),
     en_lookup = (\<lambda>_ _. (Some plain_error, [])), en_dial = (\<lambda>_ _. (None, True)),
     en_handshake = (\<lambda>_ _. Inr \<lparr>ts_version = 772, ts_cipher = 4865, ts_peers = []\<rparr>),
     en_cipher_name = (\<lambda>_. ''TLS_AES_128_GCM_SHA256'')\<rparr>"

definition demo_tls_options :: chain_tls where
  "demo_tls_options = \<lparr>ct_server_name = ''db.internal'', ct_roots = None, ct_min_version = 0, ct_max_version = 0,
     ct_insecure = False\<rparr>"

definition demo_chain :: chain_params where
  "demo_chain = \<lparr>cp_host = ''10.0.0.7'', cp_port = 5432, cp_resolver = True, cp_dialer = True,
     cp_tls = Some demo_tls_options, cp_scope = [], cp_parent = [], cp_step_timeout = 0\<rparr>"

definition demo_world :: world where
  "demo_world = \<lparr>wd_tick = 0, wd_builder = new_graph_builder, wd_log = []\<rparr>"

lemma demo_digits: "digit_char 0 = CHR ''0''" "digit_char (Suc 0) = CHR ''1''" "digit_char 2 = CHR ''2''"
    "digit_char 3 = CHR ''3''" "digit_char 4 = CHR ''4''" "digit_char 5 = CHR ''5''" "digit_char 7 = CHR ''7''"
  by code_simp+

lemma demo_v4_text: "v4_text [10, 0, 0, 7] = ''10.0.0.7''"
  by (simp add: v4_text_def show_nat.simps demo_digits)

lemma demo_ip_string: "ip_string demo_ip = ''10.0.0.7''"
  by (simp add: demo_ip_def demo_v4_text)

lemma demo_port_string: "show_nat 5432 = ''5432''"
  by (simp add: show_nat.simps demo_digits)

lemma demo_parse: "parse_ip ''10.0.0.7'' = Some demo_ip"
  using parse_ip_string [of demo_ip] by (simp add: demo_ip_string demo_ip_def demo_v4_text)

lemma demo_host: "parse_host ''10.0.0.7'' = Inr \<lparr>ho_name = ''10.0.0.7'', ho_addr = Some demo_ip\<rparr>"
  by (simp add: parse_host_def demo_parse) (simp add: demo_ip_def demo_v4_text)

lemma demo_endpoint: "chain_endpoint demo_chain = ''10.0.0.7:5432''"
  by (simp add: chain_endpoint_def demo_chain_def join_host_port_def demo_port_string)

definition demo_addr :: addr_port where
  "demo_addr = \<lparr>ap_addr = Some demo_ip, ap_port = 5432\<rparr>"

lemma demo_addr_string: "addr_port_string demo_addr = ''10.0.0.7:5432''"
  by (simp add: addr_port_string_def demo_addr_def demo_ip_def demo_v4_text demo_port_string)

definition demo_tcp_node :: evidence where
  "demo_tcp_node = \<lparr>ev_id = ''tcp.connect/10.0.0.7:5432/10.0.0.7'',
     ev_subject = \<lparr>subj_kind = SubjectKindEndpoint, subj_ref = ''10.0.0.7:5432''\<rparr>, ev_layer = LayerTCP,
     ev_step = ''tcp.connect'', ev_state = StatePass, ev_failure = FailureNone, ev_attributes = [],
     ev_started = 2, ev_elapsed = measured 2\<rparr>"

lemma demo_ap: "ap_addr demo_addr = Some demo_ip" "ap_port demo_addr = 5432"
  by (simp_all add: demo_addr_def)

lemma demo_endpoint_ok: "validate_endpoint ''10.0.0.7:5432'' = Inr ()" "is_ok (validate_identifier ''10.0.0.7:5432'')"
  by (simp_all add: validate_endpoint_def eval_identifier)

lemma demo_unmap: "unmap demo_ip = demo_ip"
  by (simp add: demo_ip_def)

lemma demo_connect:
  "tcp_connect demo_env (chain_endpoint demo_chain) demo_addr [] (demo_world\<lparr>wd_tick := 1\<rparr>) =
     (Inr \<lparr>tr_evidence = demo_tcp_node, tr_owned = own (Some 2)\<rparr>,
      demo_world\<lparr>wd_tick := 5, wd_log := [Opened 2]\<rparr>)"
proof -
  have wf: "evidence_wf demo_tcp_node"
    by (simp add: demo_tcp_node_def eval_evidence eval_identifier)
  have addr: "normalize_addr demo_addr = Inr demo_addr"
    by (simp add: normalize_addr_def demo_addr_def demo_unmap)
  have ident: "scoped_evidence_id [] ''tcp.connect'' [''10.0.0.7:5432'', ''10.0.0.7''] = ''tcp.connect/10.0.0.7:5432/10.0.0.7''"
    by (simp add: scoped_evidence_id_def scope_is_zero_def escape_def separator_def)
  have subject: "new_endpoint_subject (addr_port_string demo_addr) =
      Inr \<lparr>subj_kind = SubjectKindEndpoint, subj_ref = ''10.0.0.7:5432''\<rparr>"
    using demo_endpoint_ok(2)
    by (simp add: demo_addr_string new_endpoint_subject_def new_subject_def is_ok_iff)
  show ?thesis
    using wf
    by (simp add: tcp_connect_def demo_endpoint demo_endpoint_ok addr observe_tcp_def ask_def dial_def demo_env_def
        demo_world_def log_event_def new_tcp_result_def tcp_evidence_def subject classify_tcp_def
        addr_string_def demo_ip_string ident new_evidence_eq demo_tcp_node_def
        demo_ap step_tcp_connect_def numeral_2_eq_2)
qed

definition demo_tls_node :: evidence where
  "demo_tls_node = \<lparr>ev_id = ''tls.handshake/10.0.0.7:5432/10.0.0.7'',
     ev_subject = \<lparr>subj_kind = SubjectKindEndpoint, subj_ref = ''10.0.0.7:5432''\<rparr>, ev_layer = LayerTLS,
     ev_step = ''tls.handshake'', ev_state = StatePass, ev_failure = FailureNone,
     ev_attributes = [(attr_server_name, host_attr ''db.internal''), (attr_tls_verified, bool_attr True),
       (attr_trust_source, string_attr ''system''), (attr_tls_version, string_attr ''TLS1.3''),
       (attr_cipher_suite, string_attr ''TLS_AES_128_GCM_SHA256'')],
     ev_started = 6, ev_elapsed = measured 2\<rparr>"

lemma demo_tls_node_wf: "evidence_wf demo_tls_node"
  by (simp add: demo_tls_node_def eval_evidence eval_identifier attr_constructors attr_server_name_def
      attr_tls_verified_def attr_trust_source_def attr_tls_version_def attr_cipher_suite_def)

lemma demo_tls_params:
  "chain_tls_params demo_chain demo_tls_options demo_addr =
     \<lparr>tp_endpoint = ''10.0.0.7:5432'', tp_scope = [], tp_address = demo_addr, tp_server_name = ''db.internal'',
      tp_roots = None, tp_min_version = 0, tp_max_version = 0, tp_insecure = False\<rparr>"
  by (simp add: chain_tls_params_def demo_endpoint) (simp add: demo_chain_def demo_tls_options_def)

lemma demo_handshake:
  "tls_handshake demo_env 2 (chain_tls_params demo_chain demo_tls_options demo_addr) (w\<lparr>wd_tick := 5\<rparr>) =
     (Inr \<lparr>sr_evidence = demo_tls_node, sr_verified = True, sr_owned = own (Some 2)\<rparr>, w\<lparr>wd_tick := 9\<rparr>)"
proof -
  have labels: "validate_label ''10.0.0.7:5432'' = Inr ()" "validate_label ''db.internal'' = Inr ()"
    by (simp_all add: validate_label_def eval_identifier)
  have addr: "tls_address \<lparr>tp_endpoint = ep, tp_scope = [], tp_address = demo_addr, tp_server_name = name,
      tp_roots = None, tp_min_version = 0, tp_max_version = 0, tp_insecure = False\<rparr> = demo_addr" for ep name
    by (simp add: tls_address_def demo_addr_def demo_unmap)
  have ident: "scoped_evidence_id [] ''tls.handshake'' [''10.0.0.7:5432'', ''10.0.0.7''] = ''tls.handshake/10.0.0.7:5432/10.0.0.7''"
    by (simp add: scoped_evidence_id_def scope_is_zero_def escape_def separator_def)
  have subject: "new_endpoint_subject (addr_port_string demo_addr) =
      Inr \<lparr>subj_kind = SubjectKindEndpoint, subj_ref = ''10.0.0.7:5432''\<rparr>"
    using demo_endpoint_ok(2)
    by (simp add: demo_addr_string new_endpoint_subject_def new_subject_def is_ok_iff)
  show ?thesis
    using demo_tls_node_wf
    by (simp add: demo_tls_params tls_handshake_def validate_tls_params_def labels demo_ap observe_tls_def ask_def
        demo_env_def new_tls_result_def tls_evidence_def addr subject classify_tls_def addr_string_def demo_ip_string
        ident new_evidence_eq demo_tls_node_def step_tls_handshake_def tls_attributes_def tls_verified_def
        trust_source_def peer_certificates_def version_name_def)
qed

definition demo_path :: continuation where
  "demo_path = \<lparr>co_endpoint = ''10.0.0.7:5432'', co_address = demo_addr, co_evidence = ev_id demo_tls_node,
     co_channel = ChannelTLSVerified, co_channel_evidence = ev_id demo_tls_node, co_owned = own (Some 2)\<rparr>"

definition demo_swept :: builder where
  "demo_swept = \<lparr>gb_nodes = [(ev_id demo_tcp_node, demo_tcp_node), (ev_id demo_tls_node, demo_tls_node)],
     gb_parents = [(ev_id demo_tls_node, [ev_id demo_tcp_node])], gb_blocked = []\<rparr>"

lemma demo_run_chain:
  "run_chain demo_env demo_chain demo_world =
     (Inr [demo_path], \<lparr>wd_tick = 9, wd_builder = demo_swept, wd_log = [Opened 2]\<rparr>)"
proof -
  have valid: "validate_chain demo_chain = Inr ()"
    by (simp add: validate_chain_def demo_chain_def demo_host)
  have loc: "locate demo_env demo_chain demo_world = (Inr ([demo_ip], []), demo_world)"
    by (simp add: locate_def chain_host_def demo_chain_def demo_host)
  have options: "cp_tls demo_chain = Some demo_tls_options" "cp_scope demo_chain = []" "cp_port demo_chain = 5432"
    by (simp_all add: demo_chain_def)
  have ctx: "ask (en_ctx demo_env) demo_world = (CtxLive, demo_world\<lparr>wd_tick := 1\<rparr>)"
    by (simp add: ask_def demo_env_def demo_world_def)
  let ?w = "demo_world\<lparr>wd_tick := 5, wd_log := [Opened 2]\<rparr>"
  have rec: "record_evidence demo_tcp_node [] ?w =
      (Inr (), ?w\<lparr>wd_builder := new_graph_builder\<lparr>gb_nodes := [(ev_id demo_tcp_node, demo_tcp_node)]\<rparr>\<rparr>)"
    by (simp add: record_evidence_def on_builder_def add_evidence_def demo_world_def new_graph_builder_def
        evidence_is_zero_def subject_is_zero_def zero_subject_def demo_tcp_node_def)
  have rec2: "record_evidence demo_tls_node (ev_id demo_tcp_node)
      (?w\<lparr>wd_builder := new_graph_builder\<lparr>gb_nodes := [(ev_id demo_tcp_node, demo_tcp_node)]\<rparr>, wd_tick := 9\<rparr>) =
      (Inr (), \<lparr>wd_tick = 9, wd_builder = demo_swept, wd_log = [Opened 2]\<rparr>)"
    by (simp add: record_evidence_def on_builder_def add_evidence_def demo_world_def new_graph_builder_def
        evidence_is_zero_def subject_is_zero_def zero_subject_def demo_tcp_node_def demo_tls_node_def
        add_parent_def rbind_require_node reachable_id_def rel_get_def add_to_set_def demo_swept_def)
  have h: "tls_handshake demo_env 2 (chain_tls_params demo_chain demo_tls_options demo_addr)
      (?w\<lparr>wd_builder := b\<rparr>) = (Inr \<lparr>sr_evidence = demo_tls_node, sr_verified = True, sr_owned = own (Some 2)\<rparr>,
        ?w\<lparr>wd_builder := b, wd_tick := 9\<rparr>)" for b
    using demo_handshake [of "?w\<lparr>wd_builder := b\<rparr>"] by (simp add: demo_world_def)
  have "sweep_address demo_env demo_chain [] demo_addr demo_world =
      (Inr (Some demo_path), \<lparr>wd_tick = 9, wd_builder = demo_swept, wd_log = [Opened 2]\<rparr>)"
    using rec2 by (simp add: sweep_address_def ctx demo_connect [unfolded demo_endpoint One_nat_def] options rec chain_handshake_def take_conn_own h
        demo_path_def demo_endpoint tls_channel_def)
  then show ?thesis
    by (simp add: run_chain_def valid loc options demo_addr_def [symmetric])
qed

subsection \<open>Properties\<close>

text \<open>The sweep leaks no connection and closes none twice: after a run that fails the connections that are open
  are those that were open before, and after a run that succeeds they are those and one for every path handed on,
  each owned by its path and not taken.\<close>

theorem run_chain_connections:
  assumes "holds w live"
  shows "case run_chain e p w of
      (Inl err, w') \<Rightarrow> holds w' live
    | (Inr conts, w') \<Rightarrow> list_all fresh_continuation conts \<and> holds w' (live @ owned_conns conts)"
  by (rule run_chain_holds [OF assms])

theorem run_chain_connections_witness:
  "holds demo_world [] \<and> holds (snd (run_chain demo_env demo_chain demo_world)) [2]"
proof -
  have start: "holds demo_world []"
    by (simp add: holds_def open_conns_def demo_world_def)
  then show ?thesis
    using run_chain_connections [of demo_world "[]" demo_env demo_chain]
    by (simp add: demo_run_chain demo_path_def)
qed

text \<open>C9: The channel of a path is never overstated: without TLS it is plaintext, and it is verified only after a
  handshake that succeeded for the name and the roots asked for with verification on.\<close>

theorem run_chain_channels:
  assumes "run_chain e p w = (Inr conts, w')"
  shows "list_all (channel_honest e p) conts"
  using assms by (rule run_chain_honest)

theorem run_chain_channels_witness:
  "channel_honest demo_env demo_chain demo_path \<and> co_channel demo_path = ChannelTLSVerified"
  using run_chain_channels [OF demo_run_chain] by (simp add: demo_path_def)

end
