(* ===== verification/PgAppProps.thy ===== *)
theory PgAppProps
  imports PgApp SweepProps "HOL-Library.Multiset"
begin

text \<open>
  What the PostgreSQL run does with its connections and with the secret. \<open>owns w M\<close> says that \<open>M\<close> are the open
  connections of a world; every step has a lemma that says which of them it hands on and which it closes.
\<close>

subsection \<open>Open connections as a multiset\<close>

definition owns :: "world \<Rightarrow> nat multiset \<Rightarrow> bool" where
  "owns w M \<longleftrightarrow> (\<exists>live. holds w live \<and> mset live = M)"

definition owned_mset :: "owned \<Rightarrow> nat multiset" where
  "owned_mset r = (if available r then {# the (ow_conn r) #} else {#})"

lemma owns_quiet: "owns w M \<Longrightarrow> quiet w w' \<Longrightarrow> owns w' M"
  by (auto simp: owns_def intro: holds_quiet)

lemma owns_ask: "owns w M \<Longrightarrow> ask f w = (x, w') \<Longrightarrow> owns w' M"
  by (rule owns_quiet [OF _ quiet_ask])

lemma owns_close: "owns w (add_mset c M) \<Longrightarrow> owns (log_event (Closed c) w) M"
proof -
  assume "owns w (add_mset c M)"
  then obtain live where live: "holds w live" "mset live = add_mset c M" by (auto simp: owns_def)
  then have "c \<in> set live" by (metis set_mset_add_mset_insert insertI1 set_mset_mset)
  then obtain a b where ab: "live = a @ c # b" by (meson split_list)
  then have "mset (a @ b) = M" using live(2) by simp
  then show ?thesis using holds_close [of w a c b] live(1) ab unfolding owns_def by blast
qed

lemma owned_mset_own [simp]: "owned_mset (own conn) = mset (conn_list conn)"
  by (cases conn) (simp_all add: owned_mset_def)

lemma owns_close_owned: "owns w (M + owned_mset r) \<Longrightarrow> owns (snd (close_owned r w)) M"
  by (cases "ow_conn r") (auto simp: close_owned_def owned_mset_def available_def owns_close)

lemma take_conn_owned:
  "take_conn r = Some (c, r') \<Longrightarrow> owned_mset r = {#c#} \<and> owned_mset r' = {#}"
  by (auto simp: take_conn_def owned_mset_def available_def split: if_splits)

lemma lift_probe_Inl: "lift_probe x = (Inl err, w) \<longleftrightarrow> (\<exists>e. x = (Inl e, w) \<and> err = ErrStepProbe e)"
  and lift_probe_Inr: "lift_probe x = (Inr v, w) \<longleftrightarrow> x = (Inr v, w)"
  by (auto simp: lift_probe_def split: prod.splits sum.splits)

lemma lift_probe_quiet: "lift_probe x = (r, w') \<Longrightarrow> (\<And>r w'. x = (r, w') \<Longrightarrow> quiet w w') \<Longrightarrow> quiet w w'"
  by (cases r) (auto simp: lift_probe_Inl lift_probe_Inr)

lemma lift_record_quiet: "lift_probe (record_evidence ev parent w) = (r, w') \<Longrightarrow> quiet w w'"
  by (erule lift_probe_quiet) (rule record_evidence_quiet)

lemma lift_builder_quiet: "lift_probe (on_builder f w) = (r, w') \<Longrightarrow> quiet w w'"
  by (erule lift_probe_quiet) (rule on_builder_quiet)

subsection \<open>The handshake\<close>

lemma tls_handshake_owns:
  assumes "owns w (add_mset conn M)" "tls_handshake e conn p w = (r, w')"
  shows "case r of Inl err \<Rightarrow> owns w' M | Inr s \<Rightarrow> owns w' (M + owned_mset (sr_owned s))"
proof -
  have close: "owns (close_conn (Some conn) w1) M" if "quiet w w1" for w1
    using owns_close owns_quiet [OF assms(1) that] by (simp add: close_conn_def)
  show ?thesis
  proof (cases "validate_tls_params p")
    case (Inl err)
    then show ?thesis using assms(2) close [of w] by (auto simp: tls_handshake_def)
  next
    case (Inr u)
    obtain ob w1 where ob: "observe_tls e conn p w = (ob, w1)" by force
    note q = observe_tls_quiet [OF ob]
    have "new_tls_result e ob w1 = (r, w')" using assms(2) by (simp add: tls_handshake_def Inr ob)
    then show ?thesis
      using q close [of w1] owns_quiet [OF assms(1), of w1]
      by (auto simp: new_tls_result_def split: sum.splits if_splits)
  qed
qed

subsection \<open>The steps\<close>

lemma pg_record_skipped_tls_quiet: "pg_record_skipped_tls pe t blocker w = (r, w') \<Longrightarrow> quiet w w'"
proof -
  assume a: "pg_record_skipped_tls pe t blocker w = (r, w')"
  obtain x w1 where ask: "ask (en_now (pv_env pe)) w = (x, w1)" by force
  have "quiet w1 w'"
    using a unfolding pg_record_skipped_tls_def ask prod.case
    by (auto split: sum.splits elim!: and_then_quiet intro: snd_quiet lift_record_quiet lift_builder_quiet)
  then show ?thesis using quiet_ask [OF ask] quiet_trans by blast
qed

definition session_mset :: "step_error + pg_session \<Rightarrow> nat multiset" where
  "session_mset r = (case r of Inl _ \<Rightarrow> {#} | Inr s \<Rightarrow> owned_mset (pn_owned s))"

lemma session_mset_simps [simp]: "session_mset (Inl err) = {#}" "session_mset (Inr s) = owned_mset (pn_owned s)"
  by (simp_all add: session_mset_def)

lemma negotiate_skipped_owns:
  assumes "owns w (add_mset conn M)" "negotiate_skipped pe conn t p w = (r, w')"
  shows "owns w' (M + session_mset r)"
proof -
  obtain started w1 where ask: "ask (en_now (pv_env pe)) w = (started, w1)" by force
  have w1: "owns w1 (add_mset conn M)" by (rule owns_ask [OF assms(1) ask])
  have rec: "owns w2 (add_mset conn M)" if "lift_probe (record_evidence ev x w1) = (y, w2)" for ev x y w2
    by (rule owns_quiet [OF w1 lift_record_quiet [OF that]])
  show ?thesis
    using assms(2) w1
    by (auto simp: negotiate_skipped_def ask owns_close split: sum.splits prod.splits dest!: rec)
qed

lemma pg_upgrade_owns:
  assumes "owns w (add_mset conn M)" "pg_upgrade pe conn t p x w \<sigma> = (r, w', \<sigma>')"
  shows "owns w' (M + session_mset r)"
proof -
  obtain h w1 where h: "tls_handshake (pv_env pe) conn (pg_tls_params p t) w = (h, w1)" by force
  note spec = tls_handshake_owns [OF assms(1) h]
  show ?thesis
  proof (cases h)
    case (Inl err)
    then show ?thesis using assms(2) spec by (auto simp: pg_upgrade_def h lift_probe_def)
  next
    case (Inr s)
    obtain y w2 where rec: "lift_probe (record_evidence (sr_evidence s) x w1) = (y, w2)" by force
    have w2: "owns w2 (M + owned_mset (sr_owned s))"
      using spec owns_quiet [OF _ lift_record_quiet [OF rec]] by (simp add: Inr)
    have up: "pg_upgrade pe conn t p x w \<sigma> =
        (let \<sigma>' = \<sigma>(conn := pv_secured pe (wd_tick w1)); tls = sr_evidence s
           in case (y, w2) of
                (Inl err, w2) \<Rightarrow> (Inl err, snd (close_owned (sr_owned s) w2), \<sigma>')
              | (Inr _, w2) \<Rightarrow>
                  (case take_conn (sr_owned s) of
                     None \<Rightarrow>
                       (Inr \<lparr>pn_endpoint = pt_endpoint t, pn_address = pt_address t, pn_evidence = ev_id tls,
                          pn_channel = ChannelUnknown, pn_channel_evidence = [], pn_blocker = ev_id tls,
                          pn_owned = own None\<rparr>, snd (close_owned (sr_owned s) w2), \<sigma>')
                   | Some (wrapped, _) \<Rightarrow>
                       (Inr \<lparr>pn_endpoint = pt_endpoint t, pn_address = pt_address t, pn_evidence = ev_id tls,
                          pn_channel = tls_channel s, pn_channel_evidence = ev_id tls, pn_blocker = [],
                          pn_owned = own (Some wrapped)\<rparr>, w2, \<sigma>')))"
      by (simp add: pg_upgrade_def h Inr lift_probe_def rec [unfolded lift_probe_def] Let_def)
    show ?thesis
      using assms(2) w2 owns_close_owned [OF w2] take_conn_owned
      unfolding up by (auto simp: Let_def split: sum.splits option.splits)
  qed
qed

lemma negotiate_tls_owns:
  assumes "owns w (add_mset conn M)" "negotiate_tls pe conn t p w \<sigma> = (r, w', \<sigma>')"
  shows "owns w' (M + session_mset r)"
proof -
  obtain started w1 where a1: "ask (en_now (pv_env pe)) w = (started, w1)" by force
  obtain arrived w2 where a2: "ask (pv_arrived pe) w1 = (arrived, w2)" by force
  obtain outcome stream where ssl: "send_ssl_request arrived (\<sigma> conn) = (outcome, stream)" by force
  obtain fault w3 where a3: "ask (pv_fault pe) w2 = (fault, w3)" by force
  obtain ended w4 where a4: "ask (en_now (pv_env pe)) w3 = (ended, w4)" by force
  obtain ctx1 w5 where a5: "ask (en_ctx (pv_env pe)) w4 = (ctx1, w5)" by force
  obtain ctx2 w6 where a6: "ask (en_ctx (pv_env pe)) w5 = (ctx2, w6)" by force
  obtain state failure offered where cl: "classify_ssl_response outcome fault ctx1 ctx2 = (state, failure, offered)"
    by (metis surj_pair)
  have w6: "owns w6 (add_mset conn M)"
    by (rule owns_ask [OF owns_ask [OF owns_ask [OF owns_ask [OF owns_ask [OF owns_ask [OF assms(1) a1] a2] a3] a4] a5] a6])
  note run = assms(2) [unfolded negotiate_tls_def a1 a2 ssl a3 a4 a5 a6 cl Let_def prod.case]
  show ?thesis
  proof (cases "make_evidence \<lparr>ev_id = pg_step_id step_ssl_request t, ev_subject = must_subject (pt_address t),
             ev_layer = LayerTLS, ev_step = step_ssl_request, ev_state = state, ev_failure = failure,
             ev_attributes = (if is_ok outcome then [(attr_ssl_offered, bool_attr offered)] else []),
             ev_started = started, ev_elapsed = measured (ended - started)\<rparr>")
    case (Inl err)
    then show ?thesis using run w6 by (auto simp: owns_close)
  next
    case (Inr ev)
    obtain y w7 where rec: "lift_probe (record_evidence ev (pt_parent t) w6) = (y, w7)" by force
    have w7: "owns w7 (add_mset conn M)" by (rule owns_quiet [OF w6 lift_record_quiet [OF rec]])
    have closed: "owns (log_event (Closed conn) w7) M" by (rule owns_close [OF w7])
    obtain z w8 where skip: "pg_record_skipped_tls pe t (ev_id ev) (log_event (Closed conn) w7) = (z, w8)" by force
    have w8: "owns w8 M" by (rule owns_quiet [OF closed pg_record_skipped_tls_quiet [OF skip]])
    show ?thesis
      using run [unfolded Inr sum.case rec skip] pg_upgrade_owns [OF w7] closed w8
      by (auto simp: skip split: sum.splits if_splits)
  qed
qed

lemma negotiate_owns:
  assumes "owns w (M + owned_mset (co_owned path))" "negotiate pe path p w \<sigma> = ((r, left), w', \<sigma>')"
  shows "owns w' (M + owned_mset left + session_mset r)"
proof (cases "validate_pg_params p")
  case (Inl err)
  then show ?thesis using assms by (auto simp: negotiate_def)
next
  case (Inr u)
  show ?thesis
  proof (cases "take_conn (co_owned path)")
    case None
    then show ?thesis using assms by (auto simp: negotiate_def Inr)
  next
    case (Some ct)
    obtain conn taken where ct: "ct = (conn, taken)" by force
    note o = take_conn_owned [OF Some [unfolded ct]]
    have own: "owns w (add_mset conn M)" using assms(1) o by simp
    show ?thesis
    proof (cases "pp_tls p = TLSDisabled")
      case True
      then show ?thesis
        using assms(2) o negotiate_skipped_owns [OF own]
        by (auto simp: negotiate_def Inr Some ct Let_def split: prod.splits)
    next
      case False
      then show ?thesis
        using assms(2) o negotiate_tls_owns [OF own]
        by (auto simp: negotiate_def Inr Some ct Let_def split: prod.splits)
    qed
  qed
qed

lemma record_skipped_startup_quiet: "record_skipped_startup pe s blocker p w = (r, w') \<Longrightarrow> quiet w w'"
proof -
  assume a: "record_skipped_startup pe s blocker p w = (r, w')"
  obtain x w1 where ask: "ask (en_now (pv_env pe)) w = (x, w1)" by force
  have "quiet w1 w'"
    using a unfolding record_skipped_startup_def ask prod.case
    by (auto split: sum.splits elim!: and_then_quiet intro: snd_quiet lift_record_quiet lift_builder_quiet)
  then show ?thesis using quiet_ask [OF ask] quiet_trans by blast
qed

definition result_mset :: "step_error + startup_result option \<Rightarrow> nat multiset" where
  "result_mset r = (case r of Inr (Some s) \<Rightarrow> owned_mset (sn_owned s) | _ \<Rightarrow> {#})"

lemma result_mset_simps [simp]:
  "result_mset (Inl err) = {#}" "result_mset (Inr None) = {#}" "result_mset (Inr (Some s)) = owned_mset (sn_owned s)"
  by (simp_all add: result_mset_def)

lemma startup_owns:
  assumes "owns w (M + owned_mset (pn_owned s))" "startup pe s p w \<sigma> = ((r, left), w', \<sigma>')"
  shows "owns w' (M + owned_mset left + result_mset r)"
proof (cases "validate_startup_params p")
  case (Inl err)
  then show ?thesis using assms by (auto simp: startup_def)
next
  case (Inr u)
  show ?thesis
  proof (cases "pn_blocker s = []")
    case False
    obtain y w1 where skip: "record_skipped_startup pe s (pn_blocker s) p w = (y, w1)" by force
    then show ?thesis
      using assms owns_quiet [OF assms(1) record_skipped_startup_quiet [OF skip]] False
      by (cases y) (auto simp: startup_def Inr skip)
  next
    case free: True
    show ?thesis
    proof (cases "take_conn (pn_owned s)")
      case None
      then show ?thesis using assms free by (auto simp: startup_def Inr)
    next
      case (Some ct)
      obtain conn taken where ct: "ct = (conn, taken)" by force
      note o = take_conn_owned [OF Some [unfolded ct]]
      have own: "owns w (add_mset conn M)" using assms(1) o by simp
      obtain started w1 where a1: "ask (en_now (pv_env pe)) w = (started, w1)" by force
      obtain outcome stream where ex: "exchange_startup p (\<sigma> conn) = (outcome, stream)" by force
      obtain fault w2 where a2: "ask (pv_fault pe) w1 = (fault, w2)" by force
      obtain ended w3 where a3: "ask (en_now (pv_env pe)) w2 = (ended, w3)" by force
      obtain ctx1 w4 where a4: "ask (en_ctx (pv_env pe)) w3 = (ctx1, w4)" by force
      obtain ctx2 w5 where a5: "ask (en_ctx (pv_env pe)) w4 = (ctx2, w5)" by force
      obtain state failure where cl: "classify_startup outcome fault ctx1 ctx2 = (state, failure)" by force
      have w5: "owns w5 (add_mset conn M)"
        by (rule owns_ask [OF owns_ask [OF owns_ask [OF owns_ask [OF owns_ask [OF own a1] a2] a3] a4] a5])
      have rec: "owns w6 (add_mset conn M)" if "lift_probe (record_evidence ev x w5) = (y, w6)" for ev x y w6
        by (rule owns_quiet [OF w5 lift_record_quiet [OF that]])
      note run = assms(2) [unfolded startup_def Inr Some ct a1 ex a2 a3 a4 a5 cl Let_def prod.case sum.case option.case]
      show ?thesis
        using run free o w5 owns_close
        by (auto split: sum.splits prod.splits dest!: rec)
    qed
  qed
qed

lemma refusal_evidence_quiet: "refusal_evidence pe r state failure m w = (x, w') \<Longrightarrow> quiet w w'"
  by (auto simp: refusal_evidence_def ask_def quiet_def)

lemma record_refusal_quiet:
  "record_mechanism_refusal pe r state failure w = (x, w') \<Longrightarrow> quiet w w'"
  "record_missing_input pe r w = (x, w') \<Longrightarrow> quiet w w'"
  "record_policy_refusal pe r w = (x, w') \<Longrightarrow> quiet w w'"
  unfolding record_mechanism_refusal_def record_missing_input_def record_policy_refusal_def
  by (auto elim!: and_then_quiet intro!: snd_quiet intro: refusal_evidence_quiet lift_record_quiet lift_builder_quiet
      split: option.splits)

definition auth_mset :: "step_error + authenticated_session option \<Rightarrow> nat multiset" where
  "auth_mset r = (case r of Inr (Some s) \<Rightarrow> owned_mset (as_owned s) | _ \<Rightarrow> {#})"

lemma auth_mset_simps [simp]:
  "auth_mset (Inl err) = {#}" "auth_mset (Inr None) = {#}" "auth_mset (Inr (Some s)) = owned_mset (as_owned s)"
  by (simp_all add: auth_mset_def)

lemma as_owned_new [simp]: "as_owned (new_authenticated_session conn r x) = own (Some conn)"
  by (simp add: new_authenticated_session_def)

lemma attempt_authentication_owns:
  assumes "owns w (add_mset conn M)" "attempt_authentication pe conn r secret w \<sigma> = (x, w', \<sigma>')"
  shows "owns w' (M + auth_mset x)"
proof -
  obtain ob w1 \<sigma>1 where ob: "observe_authentication pe conn secret w \<sigma> = (ob, w1, \<sigma>1)" by (metis surj_pair)
  have "quiet w w1"
    using ob by (auto simp: observe_authentication_def Let_def ask_def quiet_def split: prod.splits)
  then have w1: "owns w1 (add_mset conn M)" by (rule owns_quiet [OF assms(1)])
  have rec: "owns w2 (add_mset conn M)" if "lift_probe (record_evidence ev y w1) = (z, w2)" for ev y z w2
    by (rule owns_quiet [OF w1 lift_record_quiet [OF that]])
  show ?thesis
    using assms(2) w1 owns_close
    by (auto simp: attempt_authentication_def ob split: sum.splits prod.splits if_splits dest!: rec)
qed

lemma refuse_owns:
  assumes "owns w (add_mset conn M)" "refuse conn y = (x, w')" "\<And>r w1. y = (r, w1) \<Longrightarrow> quiet w w1"
  shows "owns w' M \<and> auth_mset x = {#}"
proof -
  obtain r w1 where y: "y = (r, w1)" by force
  have "owns w1 (add_mset conn M)" by (rule owns_quiet [OF assms(1) assms(3) [OF y]])
  then show ?thesis
    using assms(2) owns_close by (auto simp: refuse_def y split: sum.splits)
qed

lemma authenticate_owns:
  assumes "owns w (M + owned_mset (sn_owned r))" "authenticate pe r cred p w \<sigma> = ((x, left), w', \<sigma>')"
  shows "owns w' (M + owned_mset left + auth_mset x)"
proof (cases "validate_auth_params p")
  case (Inl err)
  then show ?thesis using assms by (auto simp: authenticate_def)
next
  case valid: (Inr u)
  show ?thesis
  proof (cases "take_conn (sn_owned r)")
    case None
    then show ?thesis using assms by (auto simp: authenticate_def valid)
  next
    case (Some ct)
    obtain conn taken where ct: "ct = (conn, taken)" by force
    note o = take_conn_owned [OF Some [unfolded ct]]
    have own: "owns w (add_mset conn M)" using assms(1) o by simp
    have refused: "owns w1 M \<and> auth_mset y = {#}" if "refuse conn (record_mechanism_refusal pe r st f w) = (y, w1)" for st f y w1
      by (rule refuse_owns [OF own that record_refusal_quiet(1)])
    have missing: "owns w1 M \<and> auth_mset y = {#}" if "refuse conn (record_missing_input pe r w) = (y, w1)" for y w1
      by (rule refuse_owns [OF own that record_refusal_quiet(2)])
    have denied: "owns w1 M \<and> auth_mset y = {#}" if "refuse conn (record_policy_refusal pe r w) = (y, w1)" for y w1
      by (rule refuse_owns [OF own that record_refusal_quiet(3)])
    note run = assms(2) [unfolded authenticate_def valid Some ct sum.case option.case prod.case]
    show ?thesis
      using run own o owns_close
      by (auto split: if_splits option.splits sum.splits prod.splits
          dest!: refused missing denied attempt_authentication_owns [OF own])
  qed
qed

lemma establish_session_owns:
  assumes "owns w (M + owned_mset (as_owned s))" "establish_session pe s p w \<sigma> = ((r, left), w', \<sigma>')"
  shows "owns w' (M + owned_mset left)"
proof (cases "validate_session_params p")
  case (Inl err)
  then show ?thesis using assms by (auto simp: establish_session_def)
next
  case valid: (Inr u)
  show ?thesis
  proof (cases "take_conn (as_owned s)")
    case None
    then show ?thesis using assms by (auto simp: establish_session_def valid)
  next
    case (Some ct)
    obtain conn taken where ct: "ct = (conn, taken)" by force
    note o = take_conn_owned [OF Some [unfolded ct]]
    have own: "owns w (add_mset conn M)" using assms(1) o by simp
    obtain ob w1 \<sigma>1 where ob: "observe_session pe conn w \<sigma> = (ob, w1, \<sigma>1)" by (metis surj_pair)
    have "quiet w w1"
      using ob by (auto simp: observe_session_def Let_def ask_def quiet_def split: prod.splits)
    then have w1: "owns w1 (add_mset conn M)" by (rule owns_quiet [OF own])
    have rec: "owns w2 (add_mset conn M)" if "lift_probe (record_evidence ev y w1) = (z, w2)" for ev y z w2
      by (rule owns_quiet [OF w1 lift_record_quiet [OF that]])
    show ?thesis
      using assms(2) [unfolded establish_session_def valid Some ct sum.case option.case prod.case ob] o w1 owns_close
      by (auto split: sum.splits prod.splits if_splits dest!: rec)
  qed
qed

subsection \<open>The run\<close>

definition paths_mset :: "continuation list \<Rightarrow> nat multiset" where
  "paths_mset paths = sum_list (map (owned_mset \<circ> co_owned) paths)"

definition found_mset :: "startup_result candidate list \<Rightarrow> nat multiset" where
  "found_mset cs = sum_list (map (owned_mset \<circ> sn_owned \<circ> cd_result) cs)"

lemma mset_lists_simps [simp]:
  "paths_mset [] = {#}" "paths_mset (c # cs) = owned_mset (co_owned c) + paths_mset cs"
  "found_mset [] = {#}" "found_mset (d # ds) = owned_mset (sn_owned (cd_result d)) + found_mset ds"
  "found_mset (ds @ ds') = found_mset ds + found_mset ds'"
  by (simp_all add: paths_mset_def found_mset_def)

lemma discover_owns:
  assumes "owns w (M + paths_mset paths + found_mset found)"
    "discover pe p paths found w \<sigma> = ((r, paths'), w', \<sigma>')"
  shows "\<exists>rest. owns w' (M + paths_mset paths' + rest) \<and> (\<forall>cs. r = Inr cs \<longrightarrow> rest = found_mset cs)"
  using assms
proof (induction paths arbitrary: found w \<sigma> M r paths' w' \<sigma>')
  case Nil
  then show ?case by auto
next
  case (Cons path paths)
  obtain ctx w0 where ask: "ask (en_ctx (pv_env pe)) w = (ctx, w0)" by force
  have w0: "owns w0 (M + paths_mset (path # paths) + found_mset found)" by (rule owns_ask [OF Cons.prems(1) ask])
  show ?case
  proof (cases "ctx = CtxLive")
    case False
    then show ?thesis using Cons.prems(2) w0 by (auto simp: ask)
  next
    case live: True
    obtain s taken w1 \<sigma>1 where neg: "negotiate pe path (pg_negotiate_params p) w0 \<sigma> = ((s, taken), w1, \<sigma>1)"
      by (metis surj_pair)
    have "owns w0 ((M + paths_mset paths + found_mset found) + owned_mset (co_owned path))"
      using w0 by (simp add: ac_simps)
    note w1 = negotiate_owns [OF this neg]
    show ?thesis
    proof (cases s)
      case (Inl err)
      then have "r = Inl err" "paths' = path\<lparr>co_owned := taken\<rparr> # paths" "w' = w1"
        using Cons.prems(2) live by (auto simp: ask neg)
      then show ?thesis using w1 Inl by (intro exI [of _ "found_mset found"]) (simp add: ac_simps)
    next
      case (Inr session)
      obtain res taken' w2 \<sigma>2 where st: "startup pe session (pg_startup_params p) w1 \<sigma>1 = ((res, taken'), w2, \<sigma>2)"
        by (metis surj_pair)
      let ?path = "path\<lparr>co_owned := taken\<rparr>"
      define w3 where "w3 = snd (close_owned taken' w2)"
      have "owns w1 ((M + paths_mset (?path # paths) + found_mset found) + owned_mset (pn_owned session))"
        using w1 Inr by (simp add: ac_simps)
      from startup_owns [OF this st]
      have "owns w2 ((M + paths_mset (?path # paths) + found_mset found + result_mset res) + owned_mset taken')"
        by (simp add: ac_simps)
      then have w3: "owns w3 (M + paths_mset (?path # paths) + found_mset found + result_mset res)"
        unfolding w3_def by (rule owns_close_owned)
      show ?thesis
      proof (cases res)
        case err: (Inl err)
        then have "r = Inl err" "paths' = ?path # paths" "w' = w3"
          using Cons.prems(2) live Inr by (auto simp: ask neg st w3_def Let_def)
        then show ?thesis using w3 err by (intro exI [of _ "found_mset found"]) simp
      next
        case res: (Inr result)
        define found' where "found' = (case result of None \<Rightarrow> found
            | Some s \<Rightarrow> found @ [\<lparr>cd_address = co_address path, cd_result = s,
                cd_auth_required = (sn_auth_method s \<noteq> auth_method_none)\<rparr>])"
        obtain out ps w4 \<sigma>4 where rest: "discover pe p paths found' w3 \<sigma>2 = ((out, ps), w4, \<sigma>4)" by (metis surj_pair)
        have eq: "out = r" "paths' = ?path # ps" "w' = w4"
          using Cons.prems(2) live Inr res rest
          by (auto simp: ask neg st w3_def [symmetric] found'_def [symmetric] Let_def)
        have fm: "found_mset found' = found_mset found + result_mset res"
          by (cases result) (simp_all add: found'_def res)
        have "owns w3 ((M + owned_mset taken) + paths_mset paths + found_mset found')"
          using w3 by (simp add: fm ac_simps)
        from Cons.IH [OF this rest] obtain left where
          "owns w4 ((M + owned_mset taken) + paths_mset ps + left)" "\<forall>cs. out = Inr cs \<longrightarrow> left = found_mset cs"
          by blast
        then show ?thesis
          unfolding eq by (intro exI [of _ left]) (simp add: eq ac_simps)
      qed
    qed
  qed
qed

definition chosen_mset :: "nat \<Rightarrow> nat option \<Rightarrow> startup_result candidate list \<Rightarrow> nat multiset" where
  "chosen_mset i chosen cs =
     (case chosen of None \<Rightarrow> {#}
      | Some j \<Rightarrow> if i \<le> j \<and> j < i + length cs then owned_mset (sn_owned (cd_result (cs ! (j - i)))) else {#})"

lemma close_candidates_owns:
  "owns w (M + found_mset cs) \<Longrightarrow> owns (close_candidates i chosen cs w) (M + chosen_mset i chosen cs)"
proof (induction cs arbitrary: i w M)
  case (Cons c cs)
  show ?case
  proof (cases "chosen = Some i")
    case True
    have none: "chosen_mset (Suc i) chosen cs = {#}" by (simp add: True chosen_mset_def)
    have "owns w ((M + owned_mset (sn_owned (cd_result c))) + found_mset cs)"
      using Cons.prems by (simp add: ac_simps)
    from Cons.IH [OF this, of "Suc i"] show ?thesis
      using none by (simp add: True chosen_mset_def)
  next
    case False
    have same: "chosen_mset i chosen (c # cs) = chosen_mset (Suc i) chosen cs"
      using False by (auto simp: chosen_mset_def nth_Cons' split: option.splits)
    have "owns w ((M + found_mset cs) + owned_mset (sn_owned (cd_result c)))"
      using Cons.prems by (simp add: ac_simps)
    from Cons.IH [OF owns_close_owned [OF this], of "Suc i"] show ?thesis
      using False same by simp
  qed
qed (auto simp: chosen_mset_def split: option.splits)

lemma canonical_minimum_bound: "canonical_minimum cs include = Some i \<Longrightarrow> i < length cs \<and> include (cs ! i)"
proof -
  have "(\<forall>b. fold (canonical_step cs include) is None = Some b \<longrightarrow> b < length cs \<and> include (cs ! b))"
    if "list_all (\<lambda>i. i < length cs) is" for "is"
    using that
    by (induction "is" rule: rev_induct) (auto simp: canonical_step_def split: if_splits option.splits)
  from this [of "[0..<length cs]"] show "canonical_minimum cs include = Some i \<Longrightarrow> ?thesis"
    by (simp add: canonical_minimum_def list_all_iff)
qed

lemma select_path_bound: "select_path cs want = Some i \<Longrightarrow> i < length cs"
  by (auto simp: select_path_def canonical_first_def split: option.splits dest: canonical_minimum_bound)

lemma authenticate_left: "authenticate pe r cred p w \<sigma> = ((Inr x, left), w', \<sigma>') \<Longrightarrow> owned_mset left = {#}"
  by (auto simp: authenticate_def split: sum.splits option.splits if_splits prod.splits dest: take_conn_owned)

lemma establish_session_left:
  "establish_session pe s p w \<sigma> = ((Inr x, left), w', \<sigma>') \<Longrightarrow> owned_mset left = {#}"
  by (auto simp: establish_session_def split: sum.splits option.splits if_splits prod.splits dest: take_conn_owned)

lemma continue_path_owns:
  assumes "owns w (M + owned_mset (sn_owned s))" "continue_path pe p s w \<sigma> = (r, w', \<sigma>')"
  shows "\<exists>rest. owns w' (M + rest) \<and> (is_ok r \<longrightarrow> rest = {#})"
proof -
  obtain x left w1 \<sigma>1 where au: "authenticate pe s (pr_credential p)
      \<lparr>au_policy = pr_policy p, au_timeout = pr_step_timeout p\<rparr> w \<sigma> = ((x, left), w1, \<sigma>1)"
    by (metis surj_pair)
  note w1 = authenticate_owns [OF assms(1) au]
  show ?thesis
  proof (cases x)
    case (Inl err)
    then show ?thesis using assms(2) w1 by (auto simp: continue_path_def au add.assoc)
  next
    case (Inr session)
    then have left: "owned_mset left = {#}" using au by (auto dest: authenticate_left)
    show ?thesis
    proof (cases session)
      case None
      then show ?thesis using assms(2) w1 left Inr by (auto simp: continue_path_def au)
    next
      case (Some a)
      obtain y left2 w2 \<sigma>2 where es: "establish_session pe a \<lparr>es_read_timeout = pr_step_timeout p\<rparr> w1 \<sigma>1 = ((y, left2), w2, \<sigma>2)"
        by (metis surj_pair)
      have "owns w1 (M + owned_mset (as_owned a))" using w1 left Inr Some by simp
      from establish_session_owns [OF this es] have "owns w2 (M + owned_mset left2)" .
      moreover have "is_ok y \<Longrightarrow> owned_mset left2 = {#}"
        using es by (auto simp: is_ok_iff dest: establish_session_left)
      ultimately show ?thesis
        using assms(2) by (cases y) (auto simp: continue_path_def au Inr Some es)
    qed
  qed
qed

lemma paths_mset_fresh: "list_all fresh_continuation conts \<Longrightarrow> paths_mset conts = mset (owned_conns conts)"
  using fresh_continuation_owns by (induction conts) (force simp: fresh_continuation_def)+

lemma close_all_owns: "owns w (M + paths_mset conts) \<Longrightarrow> owns (close_all conts w) M"
proof (induction conts arbitrary: w)
  case (Cons c conts)
  then have "owns w ((M + paths_mset conts) + owned_mset (co_owned c))" by (simp add: ac_simps)
  from Cons.IH [OF owns_close_owned [OF this]] show ?case by simp
qed simp

lemma measure_paths_owns:
  assumes "owns w (M + paths_mset paths)" "measure_paths pe p paths w \<sigma> = ((r, paths'), w', \<sigma>')"
  shows "\<exists>rest. owns w' (M + paths_mset paths' + rest) \<and> (is_ok r \<longrightarrow> rest = {#})"
proof -
  obtain d ps w1 \<sigma>1 where disc: "discover pe p paths [] w \<sigma> = ((d, ps), w1, \<sigma>1)" by (metis surj_pair)
  have "owns w (M + paths_mset paths + found_mset [])" using assms(1) by simp
  from discover_owns [OF this disc] obtain rest where
    rest: "owns w1 (M + paths_mset ps + rest)" "\<forall>cs. d = Inr cs \<longrightarrow> rest = found_mset cs" by blast
  show ?thesis
  proof (cases d)
    case (Inl err)
    then show ?thesis using assms(2) rest(1) by (auto simp: measure_paths_def disc)
  next
    case (Inr cs)
    define chosen where "chosen = select_path cs (\<not> credential_is_zero (pr_credential p))"
    define w2 where "w2 = close_candidates 0 chosen cs w1"
    have "owns w1 ((M + paths_mset ps) + found_mset cs)" using rest Inr by simp
    then have w2: "owns w2 (M + paths_mset ps + chosen_mset 0 chosen cs)"
      unfolding w2_def by (rule close_candidates_owns)
    show ?thesis
    proof (cases chosen)
      case None
      have "measure_paths pe p paths w \<sigma> = ((Inr False, ps), w2, \<sigma>1)"
        unfolding w2_def by (simp add: measure_paths_def disc Inr chosen_def [symmetric] Let_def None)
      then show ?thesis using assms(2) w2 None by (auto simp: chosen_mset_def)
    next
      case (Some i)
      then have i: "i < length cs" using select_path_bound by (simp add: chosen_def)
      define s where "s = cd_result (cs ! i)"
      obtain ctx w3 where ask: "ask (en_ctx (pv_env pe)) w2 = (ctx, w3)" by force
      have w3: "owns w3 (M + paths_mset ps + owned_mset (sn_owned s))"
        using owns_ask [OF w2 ask] Some i by (simp add: chosen_mset_def s_def)
      have eq: "measure_paths pe p paths w \<sigma> =
          (if ctx \<noteq> CtxLive then ((Inr False, ps), snd (close_owned (sn_owned s) w3), \<sigma>1)
           else (case continue_path pe p s w3 \<sigma>1 of (r, w4, \<sigma>4) \<Rightarrow> ((r, ps), w4, \<sigma>4)))"
        by (simp add: measure_paths_def disc Inr chosen_def [symmetric] Let_def Some ask [unfolded w2_def Some] s_def)
      show ?thesis
      proof (cases "ctx = CtxLive")
        case False
        then show ?thesis using assms(2) owns_close_owned [OF w3] by (auto simp: eq)
      next
        case True
        then show ?thesis using assms(2) continue_path_owns [OF w3] by (fastforce simp: eq split: prod.splits)
      qed
    qed
  qed
qed

lemma record_requested_target_quiet: "record_requested_target t at w = (r, w') \<Longrightarrow> quiet w w'"
  unfolding record_requested_target_def
  by (auto split: sum.splits elim!: and_then_quiet intro: snd_quiet lift_builder_quiet)

subsection \<open>A run without TLS\<close>

text \<open>The concrete input of the witnesses: a database whose owner turned TLS off.\<close>

definition demo_streams :: streams where
  "demo_streams = (\<lambda>_. \<lparr>pg_rest = [], pg_end = EndOfFile, pg_write_end = None, pg_sent = []\<rparr>)"

definition demo_pg_env :: pg_env where
  "demo_pg_env = \<lparr>pv_env = demo_env, pv_arrived = (\<lambda>_. 0), pv_secured = (\<lambda>_. demo_streams 0),
     pv_fault = (\<lambda>_. plain_error), pv_nonce = (\<lambda>_. Inr ''nonce''), pv_pbkdf2 = (\<lambda>_ _ _. None)\<rparr>"

definition demo_pg_run :: pg_run_params where
  "demo_pg_run = \<lparr>pr_host = ''10.0.0.7'', pr_port = 5432, pr_role = ''reader'', pr_database = [],
     pr_credential = \<lparr>cr_endpoint = \<lparr>se_host = ''10.0.0.7'', se_port = 5432\<rparr>, cr_identity = ''reader'',
       cr_secret = Some ''secret''\<rparr>,
     pr_resolver = True, pr_dialer = True, pr_tls = TLSDisabled, pr_options = demo_tls_options,
     pr_policy = RequireVerifiedTLS, pr_step_timeout = 0\<rparr>"

definition demo_pg_target :: logical_target where
  "demo_pg_target = \<lparr>lt_host = ''10.0.0.7'', lt_port = 5432\<rparr>"

subsection \<open>Connections\<close>

text \<open>C7: A PostgreSQL run that does not fail closes every connection it opened, on every path and whatever the
  peers do, and closes none twice; a run that fails closes none that was open before.\<close>

theorem measure_postgres_connections:
  assumes "holds w live"
  shows "case measure_postgres pe p t w \<sigma> of (r, w', \<sigma>') \<Rightarrow>
    \<exists>left. holds w' left \<and> mset live \<subseteq># mset left \<and> (is_ok r \<longrightarrow> mset left = mset live)"
proof -
  have start: "owns w (mset live)" using assms by (auto simp: owns_def)
  have final: "\<exists>left. holds w' left \<and> mset live \<subseteq># mset left \<and> (is_ok r \<longrightarrow> mset left = mset live)"
    if "owns w' (mset live + rest)" "is_ok r \<longrightarrow> rest = {#}" for w' rest and r :: "step_error + bool"
    using that by (auto simp: owns_def)
  obtain at w0 where ask: "ask (en_now (pv_env pe)) w = (at, w0)" by force
  obtain q w1 where req: "record_requested_target t at w0 = (q, w1)" by force
  have w1: "holds w1 live"
    by (rule holds_quiet [OF holds_ask [OF assms ask] record_requested_target_quiet [OF req]])
  show ?thesis
  proof (cases q)
    case (Inl err)
    then show ?thesis using w1 by (auto simp: measure_postgres_def ask req)
  next
    case (Inr requested)
    obtain c w2 where chain: "run_chain (pv_env pe) (pg_chain_params p requested) w1 = (c, w2)" by force
    note spec = run_chain_holds [OF w1, of "pv_env pe" "pg_chain_params p requested", unfolded chain prod.case]
    show ?thesis
    proof (cases c)
      case (Inl err)
      then show ?thesis using spec by (auto simp: measure_postgres_def ask req \<open>q = Inr requested\<close> chain)
    next
      case paths: (Inr paths)
      obtain r ps w3 \<sigma>3 where m: "measure_paths pe p paths w2 \<sigma> = ((r, ps), w3, \<sigma>3)" by (metis surj_pair)
      have "owns w2 (mset live + paths_mset paths)"
        using spec paths paths_mset_fresh [of paths] unfolding owns_def by auto
      from measure_paths_owns [OF this m] obtain rest where
        rest: "owns w3 (mset live + paths_mset ps + rest)" "is_ok r \<longrightarrow> rest = {#}" by blast
      have "owns w3 ((mset live + rest) + paths_mset ps)" using rest(1) by (simp add: ac_simps)
      from close_all_owns [OF this] have "owns (close_all ps w3) (mset live + rest)" .
      from final [OF this rest(2)] show ?thesis
        by (simp add: measure_postgres_def ask req Inr chain paths m)
    qed
  qed
qed

theorem measure_postgres_connections_witness:
  "holds demo_world []
   \<and> (case measure_postgres demo_pg_env demo_pg_run demo_pg_target demo_world demo_streams of (r, w', \<sigma>') \<Rightarrow>
        \<exists>left. holds w' left \<and> mset [] \<subseteq># mset left \<and> (is_ok r \<longrightarrow> mset left = mset []))"
proof -
  have start: "holds demo_world []"
    by (simp add: holds_def open_conns_def demo_world_def)
  show ?thesis by (rule conjI [OF start measure_postgres_connections [OF start]])
qed

subsection \<open>The secret\<close>

text \<open>A secret may leave only for the endpoint its credential is bound to, over TLS that verified the peer.\<close>

definition run_endpoint :: "pg_run_params \<Rightarrow> string" where
  "run_endpoint p = join_host_port (pr_host p) (show_nat (pr_port p))"

definition secret_may_leave :: "pg_run_params \<Rightarrow> bool" where
  "secret_may_leave p \<longleftrightarrow>
     pr_tls p \<noteq> TLSDisabled \<and> \<not> ct_insecure (pr_options p) \<and> pr_policy p = RequireVerifiedTLS
     \<and> logical_endpoint (run_endpoint p) = Inr (cr_endpoint (pr_credential p))"

definition with_secret :: "secret \<Rightarrow> pg_run_params \<Rightarrow> pg_run_params" where
  "with_secret s p = p\<lparr>pr_credential := (pr_credential p)\<lparr>cr_secret := s\<rparr>\<rparr>"

lemma pg_upgrade_session:
  assumes "pg_upgrade pe conn t p x w \<sigma> = (Inr s, w', \<sigma>')"
  shows "pn_endpoint s = pt_endpoint t \<and> (pn_channel s = ChannelTLSVerified \<longrightarrow> \<not> ct_insecure (pp_options p))"
proof -
  obtain h w1 where h: "tls_handshake (pv_env pe) conn (pg_tls_params p t) w = (h, w1)" by force
  then obtain result where h2: "tls_handshake (pv_env pe) conn (pg_tls_params p t) w = (Inr result, w1)"
    using assms by (cases h) (simp_all add: pg_upgrade_def lift_probe_def)
  obtain y w2 where rec: "lift_probe (record_evidence (sr_evidence result) x w1) = (y, w2)" by force
  have "ow_conn (sr_owned result) \<noteq> None \<Longrightarrow> tls_channel result = ChannelTLSVerified \<longrightarrow> \<not> ct_insecure (pp_options p)"
    using tls_handshake_channel [OF h2] by (auto simp: pg_tls_params_def Let_def)
  then show ?thesis
    using assms
    by (auto simp: pg_upgrade_def h2 lift_probe_def [of "(Inr result, w1)"] rec Let_def take_conn_def available_def
        split: sum.splits option.splits if_splits)
qed

lemma negotiate_session:
  assumes "negotiate pe path p w \<sigma> = ((Inr s, left), w', \<sigma>')"
  shows "pn_endpoint s = co_endpoint path
    \<and> (pn_channel s = ChannelTLSVerified \<longrightarrow> pp_tls p \<noteq> TLSDisabled \<and> \<not> ct_insecure (pp_options p))"
proof -
  obtain conn taken where tk: "take_conn (co_owned path) = Some (conn, taken)"
    using assms by (auto simp: negotiate_def split: sum.splits option.splits)
  define t where "t = \<lparr>pt_endpoint = co_endpoint path, pt_address = co_address path, pt_scope = [],
      pt_parent = co_evidence path\<rparr>"
  have t: "pt_endpoint t = co_endpoint path" by (simp add: t_def)
  show ?thesis
  proof (cases "pp_tls p = TLSDisabled")
    case True
    then have "\<exists>w0. negotiate_skipped pe conn t p w = (Inr s, w0)"
      using assms by (auto simp: negotiate_def tk t_def Let_def split: sum.splits prod.splits)
    then show ?thesis
      using t by (auto simp: negotiate_skipped_def split: sum.splits prod.splits)
  next
    case False
    then have "negotiate_tls pe conn t p w \<sigma> = (Inr s, w', \<sigma>')"
      using assms by (auto simp: negotiate_def tk t_def Let_def split: sum.splits prod.splits)
    then have "pn_endpoint s = pt_endpoint t \<and> (pn_channel s = ChannelTLSVerified \<longrightarrow> \<not> ct_insecure (pp_options p))"
      unfolding negotiate_tls_def Let_def
      by (auto split: sum.splits prod.splits if_splits dest!: pg_upgrade_session)
    then show ?thesis using False t by simp
  qed
qed

lemma startup_session:
  assumes "startup pe s p w \<sigma> = ((Inr (Some r), left), w', \<sigma>')"
  shows "sn_endpoint r = pn_endpoint s \<and> sn_channel r = pn_channel s"
  using assms by (auto simp: startup_def Let_def split: sum.splits prod.splits option.splits if_splits)

definition candidate_ok :: "pg_run_params \<Rightarrow> startup_result candidate \<Rightarrow> bool" where
  "candidate_ok p c \<longleftrightarrow> sn_endpoint (cd_result c) = run_endpoint p
     \<and> (sn_channel (cd_result c) = ChannelTLSVerified \<longrightarrow> pr_tls p \<noteq> TLSDisabled \<and> \<not> ct_insecure (pr_options p))"

lemma discover_candidates:
  assumes "list_all (\<lambda>c. co_endpoint c = run_endpoint p) paths" "list_all (candidate_ok p) found"
    "discover pe p paths found w \<sigma> = ((Inr cs, paths'), w', \<sigma>')"
  shows "list_all (candidate_ok p) cs"
  using assms
proof (induction paths arbitrary: found w \<sigma> cs paths' w' \<sigma>')
  case (Cons path paths)
  obtain ctx w0 where ask: "ask (en_ctx (pv_env pe)) w = (ctx, w0)" by force
  obtain s taken w1 \<sigma>1 where neg: "negotiate pe path (pg_negotiate_params p) w0 \<sigma> = ((s, taken), w1, \<sigma>1)"
    by (metis surj_pair)
  show ?case
  proof (cases "ctx = CtxLive \<and> is_ok s")
    case False
    then show ?thesis using Cons.prems by (cases s) (auto simp: ask neg split: if_splits)
  next
    case True
    then obtain session where s: "s = Inr session" "ctx = CtxLive" by (auto simp: is_ok_iff)
    note sess = negotiate_session [OF neg [unfolded s(1)]]
    obtain res taken' w2 \<sigma>2 where st: "startup pe session (pg_startup_params p) w1 \<sigma>1 = ((res, taken'), w2, \<sigma>2)"
      by (metis surj_pair)
    obtain result where res: "res = Inr result"
      using Cons.prems(3) s st by (cases res) (auto simp: ask neg Let_def)
    define found' where "found' = (case result of None \<Rightarrow> found
        | Some s \<Rightarrow> found @ [\<lparr>cd_address = co_address path, cd_result = s,
            cd_auth_required = (sn_auth_method s \<noteq> auth_method_none)\<rparr>])"
    have ok: "list_all (candidate_ok p) found'"
    proof (cases result)
      case (Some r)
      have "candidate_ok p \<lparr>cd_address = co_address path, cd_result = r,
            cd_auth_required = (sn_auth_method r \<noteq> auth_method_none)\<rparr>"
        using startup_session [OF st [unfolded res Some]] sess Cons.prems(1)
        by (simp add: candidate_ok_def pg_negotiate_params_def)
      then show ?thesis using Cons.prems(2) by (simp add: found'_def Some)
    qed (use Cons.prems(2) in \<open>simp add: found'_def\<close>)
    obtain ps w4 \<sigma>4 where "discover pe p paths found' (snd (close_owned taken' w2)) \<sigma>2 = ((Inr cs, ps), w4, \<sigma>4)"
      using Cons.prems(3) s st res
      by (auto simp: ask neg found'_def [symmetric] Let_def split: prod.splits)
    with Cons.IH [OF _ ok this] Cons.prems(1) show ?thesis by simp
  qed
qed simp

lemma authenticate_secret:
  assumes "sn_channel r = ChannelTLSVerified \<longrightarrow> au_policy q = RequireVerifiedTLS \<longrightarrow>
      logical_endpoint (sn_endpoint r) \<noteq> Inr (cr_endpoint cred)"
  shows "authenticate pe r (cred\<lparr>cr_secret := s\<rparr>) q w \<sigma> = authenticate pe r cred q w \<sigma>"
proof -
  have z: "credential_is_zero (cred\<lparr>cr_secret := s\<rparr>) = credential_is_zero cred"
    by (simp add: credential_is_zero_def)
  have "secret_for (cred\<lparr>cr_secret := s\<rparr>) e = secret_for cred e" if "cr_endpoint cred \<noteq> e" for e
    using that by (simp add: secret_for_def credential_is_zero_def sec_endpoint_equal_def)
  then have "permits_credentials (au_policy q) (sn_channel r) \<Longrightarrow> logical_endpoint (sn_endpoint r) = Inr e \<Longrightarrow>
      secret_for (cred\<lparr>cr_secret := s\<rparr>) e = secret_for cred e" for e
    using assms by (auto simp: permits_credentials_iff)
  then show ?thesis
    unfolding authenticate_def z by (auto split: sum.split option.split)
qed

lemma with_secret_params [simp]:
  "pg_negotiate_params (with_secret s p) = pg_negotiate_params p"
  "pg_startup_params (with_secret s p) = pg_startup_params p"
  "pg_chain_params (with_secret s p) x = pg_chain_params p x"
  "pr_credential (with_secret s p) = (pr_credential p)\<lparr>cr_secret := s\<rparr>"
  "pr_policy (with_secret s p) = pr_policy p" "pr_step_timeout (with_secret s p) = pr_step_timeout p"
  by (simp_all add: with_secret_def pg_negotiate_params_def pg_startup_params_def pg_chain_params_def)

lemma discover_secret: "discover pe (with_secret s p) paths found w \<sigma> = discover pe p paths found w \<sigma>"
  by (induction paths arbitrary: found w \<sigma>) (simp_all add: Let_def cong: sum.case_cong prod.case_cong if_cong)

lemma continue_path_secret:
  assumes "sn_channel r = ChannelTLSVerified \<longrightarrow> pr_policy p = RequireVerifiedTLS \<longrightarrow>
      logical_endpoint (sn_endpoint r) \<noteq> Inr (cr_endpoint (pr_credential p))"
  shows "continue_path pe (with_secret s p) r w \<sigma> = continue_path pe p r w \<sigma>"
  using assms by (simp add: continue_path_def authenticate_secret cong: sum.case_cong prod.case_cong option.case_cong)

lemma measure_paths_secret:
  assumes "\<not> secret_may_leave p" "list_all (\<lambda>c. co_endpoint c = run_endpoint p) paths"
  shows "measure_paths pe (with_secret s p) paths w \<sigma> = measure_paths pe p paths w \<sigma>"
proof -
  obtain d ps w1 \<sigma>1 where disc: "discover pe p paths [] w \<sigma> = ((d, ps), w1, \<sigma>1)" by (metis surj_pair)
  have z: "credential_is_zero ((pr_credential p)\<lparr>cr_secret := s\<rparr>) = credential_is_zero (pr_credential p)"
    by (simp add: credential_is_zero_def)
  show ?thesis
  proof (cases d)
    case (Inl err)
    then show ?thesis by (simp add: measure_paths_def discover_secret disc)
  next
    case (Inr cs)
    have ok: "list_all (candidate_ok p) cs"
      using discover_candidates [OF assms(2) _ disc [unfolded Inr]] by simp
    have "continue_path pe (with_secret s p) (cd_result (cs ! i)) v \<tau> = continue_path pe p (cd_result (cs ! i)) v \<tau>"
      if "select_path cs b = Some i" for i b v \<tau>
    proof (rule continue_path_secret)
      have "candidate_ok p (cs ! i)" using ok select_path_bound [OF that] by (simp add: list_all_length)
      then show "sn_channel (cd_result (cs ! i)) = ChannelTLSVerified \<longrightarrow> pr_policy p = RequireVerifiedTLS \<longrightarrow>
          logical_endpoint (sn_endpoint (cd_result (cs ! i))) \<noteq> Inr (cr_endpoint (pr_credential p))"
        using assms(1) by (auto simp: candidate_ok_def secret_may_leave_def)
    qed
    then show ?thesis
      by (auto simp: measure_paths_def discover_secret disc Inr z Let_def cong: prod.case_cong if_cong split: option.split)
  qed
qed

text \<open>C3: The secret cannot leave except to the endpoint it is bound to over TLS that verified the peer: without a TLS
  plan, with verification off, under another policy or for another endpoint, nothing a PostgreSQL run does depends on
  it - not the bytes on any stream, not the graph, not what is opened and closed, not the result.\<close>

theorem measure_postgres_secret:
  assumes "\<not> secret_may_leave p"
  shows "measure_postgres pe (with_secret s p) t w \<sigma> = measure_postgres pe p t w \<sigma>"
proof -
  obtain at w0 where ask: "ask (en_now (pv_env pe)) w = (at, w0)" by force
  obtain q w1 where req: "record_requested_target t at w0 = (q, w1)" by force
  show ?thesis
  proof (cases q)
    case (Inr requested)
    obtain c w2 where chain: "run_chain (pv_env pe) (pg_chain_params p requested) w1 = (c, w2)" by force
    show ?thesis
    proof (cases c)
      case paths: (Inr paths)
      have "list_all (\<lambda>c. co_endpoint c = run_endpoint p) paths"
        using run_chain_honest [OF chain [unfolded paths]]
        by (auto simp: list_all_iff channel_honest_def chain_endpoint_def pg_chain_params_def run_endpoint_def)
      from measure_paths_secret [OF assms this] show ?thesis
        by (simp add: measure_postgres_def ask req Inr chain paths)
    qed (simp add: measure_postgres_def ask req Inr chain)
  qed (simp add: measure_postgres_def ask req)
qed

theorem measure_postgres_secret_witness:
  "\<not> secret_may_leave demo_pg_run \<and> demo_pg_run \<noteq> with_secret (Some ''other'') demo_pg_run
   \<and> measure_postgres demo_pg_env (with_secret (Some ''other'') demo_pg_run) demo_pg_target demo_world demo_streams =
       measure_postgres demo_pg_env demo_pg_run demo_pg_target demo_world demo_streams"
proof -
  have blocked: "\<not> secret_may_leave demo_pg_run"
    by (simp add: secret_may_leave_def demo_pg_run_def)
  have "demo_pg_run \<noteq> with_secret (Some ''other'') demo_pg_run"
    by (simp add: with_secret_def demo_pg_run_def)
  then show ?thesis
    using blocked measure_postgres_secret [OF blocked] by blast
qed

subsection \<open>Our own limits\<close>

definition our_limits :: "(state \<times> failure_class) set" where
  "our_limits = {(StateUnknown, FailureExecCancelled), (StateUnknown, FailureExecLocalTimeout)}"

lemma limit_cases:
  "ctx \<noteq> CtxLive \<Longrightarrow>
     (if cancelled_locally e ctx then (StateUnknown, FailureExecCancelled)
      else if out_of_time_locally e ctx then (StateUnknown, FailureExecLocalTimeout) else x) \<in> our_limits"
  by (cases ctx) (simp_all add: cancelled_locally_def out_of_time_locally_def our_limits_def)

lemma classify_limits:
  assumes "ctx \<noteq> CtxLive"
  shows "classify_dns (dob\<lparr>do_err := Some e, do_ctx := ctx\<rparr>) n \<in> our_limits"
    "classify_tcp (tob\<lparr>to_err := Some e, to_ctx := ctx\<rparr>) \<in> our_limits"
    "classify_tls (sob\<lparr>so_err := Some e, so_ctx := ctx\<rparr>) \<in> our_limits"
    "(case classify_ssl_response (Inl err) e ctx ctx of (state, failure, offered) \<Rightarrow> (state, failure)) \<in> our_limits"
    "classify_startup (Inl (err, f)) e ctx ctx \<in> our_limits"
    "classify_auth (aob\<lparr>ao_err := Some err, ao_ctx := ctx\<rparr>) \<in> our_limits"
    "classify_session (eob\<lparr>so_frames := (so_frames eob)\<lparr>fr_err := Some err\<rparr>, so_ctx_err := ctx\<rparr>) \<in> our_limits"
  by (simp_all add: classify_dns_def classify_tcp_def classify_tls_def classify_startup_def classify_auth_def
      classify_session_def auth_passed_def session_ready_def Let_def limit_cases [OF assms] cong: if_cong split del: if_split)
    (use assms in \<open>cases ctx; simp add: classify_ssl_response_def cancelled_locally_def out_of_time_locally_def
      our_limits_def Let_def\<close>)

text \<open>C8: What the run's own limits cut short is never blamed on the peer: when the context was cancelled or out of
  time, each probe (name, TCP, TLS) and each PostgreSQL step (SSLRequest, startup, authentication, session) that
  ended with an error is recorded as UNKNOWN, as cancelled or as out of our own time, whatever the error says.\<close>

theorem local_limits_never_blame:
  assumes "ctx \<noteq> CtxLive"
  shows "{classify_dns (dob\<lparr>do_err := Some e, do_ctx := ctx\<rparr>) n,
          classify_tcp (tob\<lparr>to_err := Some e, to_ctx := ctx\<rparr>),
          classify_tls (sob\<lparr>so_err := Some e, so_ctx := ctx\<rparr>),
          (case classify_ssl_response (Inl err) e ctx ctx of (state, failure, offered) \<Rightarrow> (state, failure)),
          classify_startup (Inl (err, f)) e ctx ctx,
          classify_auth (aob\<lparr>ao_err := Some err, ao_ctx := ctx\<rparr>),
          classify_session (eob\<lparr>so_frames := (so_frames eob)\<lparr>fr_err := Some err\<rparr>, so_ctx_err := ctx\<rparr>)}
       \<subseteq> {(StateUnknown, FailureExecCancelled), (StateUnknown, FailureExecLocalTimeout)}"
  using classify_limits [OF assms] by (simp only: our_limits_def [symmetric] insert_subset empty_subsetI simp_thms)

theorem local_limits_never_blame_witness:
  "classify_auth \<lparr>ao_scram = pg_scram_zero, ao_err = Some (PgScram ErrRejected), ao_fault = plain_error,
       ao_ctx = CtxCanceled, ao_started = 1, ao_duration = 1\<rparr>
     \<in> {(StateUnknown, FailureExecCancelled), (StateUnknown, FailureExecLocalTimeout)}"
proof -
  let ?ob = "\<lparr>ao_scram = pg_scram_zero, ao_err = None, ao_fault = plain_error, ao_ctx = CtxLive, ao_started = 1,
      ao_duration = 1\<rparr>"
  have "classify_auth (?ob\<lparr>ao_err := Some (PgScram ErrRejected), ao_ctx := CtxCanceled\<rparr>)
      \<in> {(StateUnknown, FailureExecCancelled), (StateUnknown, FailureExecLocalTimeout)}"
    using local_limits_never_blame [of CtxCanceled, OF ctx_state.distinct(4)] by (meson insert_subset)
  then show ?thesis by simp
qed

end
