(* ===== verification/ScramExchange.thy ===== *)
theory ScramExchange
  imports Scram
begin

text \<open>
  What the SCRAM core of \<open>Scram\<close> guarantees: which server-first messages it takes, stated over the
  comma-separated attributes, that a user name survives its escaping, that an exchange ends in
  success only when the server proved the same salted password, and that an honest server succeeds.
\<close>

subsection \<open>Attributes\<close>

lemma split_on_cut:
  "split_on d s = (case cut_at d s of (a, b, found) \<Rightarrow> if found then a # split_on d b else [a])"
  by (induction s) (auto split: prod.splits if_splits list.splits)

fun visit_segments :: "nat \<Rightarrow> string list \<Rightarrow> (char \<Rightarrow> string \<Rightarrow> 's \<Rightarrow> scram_error + 's) \<Rightarrow> 's \<Rightarrow>
    scram_error + 's" where
  "visit_segments seen [] visit st = Inr st"
| "visit_segments seen (s # ss) visit st =
     (if max_attributes \<le> seen then Inl ErrMessageTooLarge
      else if length s < 2 \<or> s ! 1 \<noteq> CHR ''='' then Inl ErrMalformedMessage
      else rbind (visit (s ! 0) (drop 2 s) st) (\<lambda>st'. visit_segments (seen + 1) ss visit st'))"

lemma attributes_segments: "attributes seen raw visit st = visit_segments seen (split_on (CHR '','') raw) visit st"
proof (induction seen raw visit st rule: attributes.induct)
  case (1 seen raw visit st)
  obtain a b found where cut: "cut_at (CHR '','') raw = (a, b, found)" by (metis prod_cases3)
  show ?case
  proof (cases found)
    case True
    then show ?thesis
      using 1 cut by (subst attributes.simps, subst split_on_cut)
        (auto simp: rbind_def not_less split: sum.splits)
  next
    case False
    then show ?thesis
      using cut by (subst attributes.simps, subst split_on_cut) (simp add: rbind_def split: sum.splits)
  qed
qed

definition segment_ok :: "string \<Rightarrow> bool" where
  "segment_ok s \<longleftrightarrow> 2 \<le> length s \<and> s ! 1 = CHR ''=''"

definition values_of :: "char \<Rightarrow> string list \<Rightarrow> string list" where
  "values_of k segs = map (drop 2) (filter (\<lambda>s. s ! 0 = k) segs)"

text \<open>The value a field has after the values under its key came by.\<close>

definition once :: "string option \<Rightarrow> string list \<Rightarrow> string option \<Rightarrow> bool" where
  "once before vals after \<longleftrightarrow> (case vals of
       [] \<Rightarrow> after = before
     | [v] \<Rightarrow> before = None \<and> after = Some v
     | _ \<Rightarrow> False)"

lemma visit_segments_first:
  "visit_segments seen segs visit_first st = Inr st' \<longleftrightarrow>
     (segs = [] \<or> seen + length segs \<le> max_attributes) \<and> list_all segment_ok segs \<and> values_of (CHR ''m'') segs = []
     \<and> once (ff_nonce st) (values_of (CHR ''r'') segs) (ff_nonce st')
     \<and> once (ff_salt st) (values_of (CHR ''s'') segs) (ff_salt st')
     \<and> once (ff_iterations st) (values_of (CHR ''i'') segs) (ff_iterations st')"
proof (induction segs arbitrary: seen st)
  case Nil
  show ?case by (auto simp: once_def values_of_def)
next
  case (Cons s segs)
  have once_Cons: "once b (v # vals) a \<longleftrightarrow> b = None \<and> once (Some v) vals a" for b v vals a
    by (cases vals; cases "tl vals") (auto simp: once_def split: list.splits)
  have vals: "values_of k (s # segs) = (if s ! 0 = k then [drop 2 s] else []) @ values_of k segs" for k
    by (simp add: values_of_def)
  have step: "visit_segments seen (s # segs) visit_first st = Inr st' \<longleftrightarrow>
      seen < max_attributes \<and> segment_ok s
      \<and> (\<exists>st1. visit_first (s ! 0) (drop 2 s) st = Inr st1 \<and> visit_segments (seen + 1) segs visit_first st1 = Inr st')"
    by (auto simp: rbind_Inr_iff segment_ok_def)
  have bound: "seen < max_attributes \<and> (segs = [] \<or> seen + 1 + length segs \<le> max_attributes)
      \<longleftrightarrow> s # segs = [] \<or> seen + length (s # segs) \<le> max_attributes"
    by (cases segs) auto
  consider "s ! 0 = CHR ''r''" | "s ! 0 = CHR ''s''" | "s ! 0 = CHR ''i''" | "s ! 0 = CHR ''m''"
    | "s ! 0 \<notin> {CHR ''r'', CHR ''s'', CHR ''i'', CHR ''m''}" by blast
  then show ?case
  proof cases
    case 1
    have ex: "(\<exists>st1. visit_first (s ! 0) (drop 2 s) st = Inr st1 \<and> P st1) \<longleftrightarrow>
        ff_nonce st = None \<and> P (st\<lparr>ff_nonce := Some (drop 2 s)\<rparr>)" for P
      by (auto simp: visit_first_def 1)
    show ?thesis
      unfolding step ex Cons.IH vals bound [symmetric] by (simp add: 1 once_Cons) blast
  next
    case 2
    have ex: "(\<exists>st1. visit_first (s ! 0) (drop 2 s) st = Inr st1 \<and> P st1) \<longleftrightarrow>
        ff_salt st = None \<and> P (st\<lparr>ff_salt := Some (drop 2 s)\<rparr>)" for P
      by (auto simp: visit_first_def 2)
    show ?thesis
      unfolding step ex Cons.IH vals bound [symmetric] by (simp add: 2 once_Cons) blast
  next
    case 3
    have ex: "(\<exists>st1. visit_first (s ! 0) (drop 2 s) st = Inr st1 \<and> P st1) \<longleftrightarrow>
        ff_iterations st = None \<and> P (st\<lparr>ff_iterations := Some (drop 2 s)\<rparr>)" for P
      by (auto simp: visit_first_def 3)
    show ?thesis
      unfolding step ex Cons.IH vals bound [symmetric] by (simp add: 3 once_Cons) blast
  next
    case 4
    then show ?thesis unfolding step vals by (simp add: visit_first_def)
  next
    case 5
    then have ex: "(\<exists>st1. visit_first (s ! 0) (drop 2 s) st = Inr st1 \<and> P st1) \<longleftrightarrow> P st" for P
      by (simp add: visit_first_def)
    show ?thesis
      unfolding step ex Cons.IH vals bound [symmetric] using 5 by simp blast
  qed
qed

lemma parse_iterations_Inr:
  "parse_iterations v = Inr n \<longleftrightarrow> v \<noteq> [] \<and> list_all is_digit v \<and> n = decimal_value v
     \<and> 0 < n \<and> n \<le> max_iterations"
  by (auto simp: parse_iterations_def max_iterations_def)

text \<open>What an accepted server-first message is, over its comma-separated attributes.\<close>

definition server_first_of :: "string \<Rightarrow> string \<Rightarrow> string \<Rightarrow> string \<Rightarrow> bool" where
  "server_first_of raw nonce salt_text iter_text \<longleftrightarrow>
     (let segs = split_on (CHR '','') raw in
      length segs \<le> 32 \<and> list_all segment_ok segs
      \<and> values_of (CHR ''r'') segs = [nonce] \<and> values_of (CHR ''s'') segs = [salt_text]
      \<and> values_of (CHR ''i'') segs = [iter_text] \<and> values_of (CHR ''m'') segs = [])"

definition first_allowed :: "string \<Rightarrow> string \<Rightarrow> string \<Rightarrow> string \<Rightarrow> server_first \<Rightarrow> bool" where
  "first_allowed client_nonce nonce salt_text iter_text f \<longleftrightarrow>
     length nonce \<le> 1024 \<and> printable_rfc nonce \<and> (\<exists>x. x \<noteq> [] \<and> nonce = client_nonce @ x)
     \<and> length salt_text \<le> 1368 \<and> base64_decode salt_text = Some (sf_salt f) \<and> length (sf_salt f) \<le> 1024
     \<and> iter_text \<noteq> [] \<and> list_all is_digit iter_text \<and> sf_iterations f = decimal_value iter_text
     \<and> 0 < sf_iterations f \<and> sf_iterations f \<le> 2 ^ 20 \<and> sf_nonce f = nonce"

lemma once_None: "once None vals a \<longleftrightarrow> vals = [] \<and> a = None \<or> (\<exists>v. vals = [v] \<and> a = Some v)"
  by (auto simp: once_def split: list.splits)

lemma extends_iff:
  "\<not> (length n \<le> length c \<or> take (length c) n \<noteq> c) \<longleftrightarrow> (\<exists>x. x \<noteq> [] \<and> n = c @ x)"
  by (auto simp: append_eq_conv_conj not_le) (metis append_take_drop_id drop_eq_Nil not_le)

lemma check_server_first_Inr:
  "check_server_first c nonce salt_text iter_text = Inr f \<longleftrightarrow> first_allowed c nonce salt_text iter_text f"
proof -
  have "check_server_first c nonce salt_text iter_text = Inr f \<longleftrightarrow>
      length nonce \<le> max_nonce_len \<and> printable_rfc nonce
      \<and> \<not> (length nonce \<le> length c \<or> take (length c) nonce \<noteq> c)
      \<and> length salt_text \<le> max_salt_encoded_len
      \<and> (\<exists>salt n. base64_decode salt_text = Some salt \<and> length salt \<le> max_salt_len
           \<and> parse_iterations iter_text = Inr n
           \<and> f = \<lparr>sf_nonce = nonce, sf_salt = salt, sf_iterations = n\<rparr>)"
    by (auto simp: check_server_first_def rbind_Inr_iff split: option.split)
  then show ?thesis
    unfolding extends_iff parse_iterations_Inr first_allowed_def
    by (cases f) (auto simp: max_nonce_len_def max_salt_encoded_len_def max_salt_len_def max_iterations_def)
qed

lemma attributes_first:
  "attributes 0 raw visit_first \<lparr>ff_nonce = None, ff_salt = None, ff_iterations = None\<rparr> = Inr
      \<lparr>ff_nonce = Some nonce, ff_salt = Some salt_text, ff_iterations = Some iter_text\<rparr>
    \<longleftrightarrow> server_first_of raw nonce salt_text iter_text"
  by (auto simp: attributes_segments visit_segments_first once_None max_attributes_def server_first_of_def Let_def)

lemma parse_server_first_Inr:
  "parse_server_first raw c = Inr f \<longleftrightarrow> length raw \<le> 8192
     \<and> (\<exists>nonce salt_text iter_text. server_first_of raw nonce salt_text iter_text
          \<and> first_allowed c nonce salt_text iter_text f)"
proof -
  have "parse_server_first raw c = Inr f \<longleftrightarrow> length raw \<le> max_server_first_len
     \<and> (\<exists>ff. attributes 0 raw visit_first \<lparr>ff_nonce = None, ff_salt = None, ff_iterations = None\<rparr> = Inr ff
          \<and> (\<exists>nonce salt_text iter_text. ff = \<lparr>ff_nonce = Some nonce, ff_salt = Some salt_text,
                ff_iterations = Some iter_text\<rparr> \<and> check_server_first c nonce salt_text iter_text = Inr f))"
  proof -
    have "(case (ff_nonce ff, ff_salt ff, ff_iterations ff) of
          (Some nonce, Some salt_text, Some iter_text) \<Rightarrow> check_server_first c nonce salt_text iter_text
        | _ \<Rightarrow> Inl ErrMalformedMessage) = Inr f \<longleftrightarrow>
        (\<exists>nonce salt_text iter_text. ff = \<lparr>ff_nonce = Some nonce, ff_salt = Some salt_text,
           ff_iterations = Some iter_text\<rparr> \<and> check_server_first c nonce salt_text iter_text = Inr f)" for ff
      by (cases ff) (auto split: option.splits)
    then show ?thesis
      by (simp add: parse_server_first_def rbind_Inr_iff not_le)
  qed
  then show ?thesis
    unfolding attributes_first [symmetric] check_server_first_Inr max_server_first_len_def by blast
qed

subsection \<open>User names\<close>

text \<open>RFC 5802's reading of an escaped name.\<close>

fun unescape_name :: "string \<Rightarrow> string" where
  "unescape_name [] = []"
| "unescape_name (c # s) =
     (if c = CHR ''='' then (if take 2 s = ''2C'' then CHR '','' else CHR ''='') # unescape_name (drop 2 s)
      else c # unescape_name s)"

lemma unescape_escape: "unescape_name (escape_name s) = s"
  by (induction s) auto

lemma escape_no_comma: "CHR '','' \<notin> set (escape_name s)"
  by (induction s) auto

lemma encoded_length_escape: "encoded_length s = length (escape_name s)"
  by (induction s) auto

lemma encoded_length_bounds: "length s \<le> encoded_length s \<and> encoded_length s \<le> 3 * length s"
  by (induction s) auto

lemma escape_id: "encoded_length s = length s \<Longrightarrow> escape_name s = s"
proof (induction s)
  case (Cons c s)
  then show ?case using encoded_length_bounds [of s] by (auto split: if_splits)
qed simp

lemma encode_saslname_eq:
  "encode_saslname user = (if length user \<le> 256 \<and> printable_ascii user then Inr (escape_name user)
     else Inl ErrUsernameUnsupported)"
  using escape_id [of user] by (auto simp: encode_saslname_def max_username_len_def)

subsection \<open>Exchanges\<close>

definition auth_message_of :: "string \<Rightarrow> string \<Rightarrow> string \<Rightarrow> string" where
  "auth_message_of bare raw nonce =
     bare @ '','' @ raw @ '',c='' @ base64_encode gs2_header @ '',r='' @ nonce"

definition server_signature :: "string \<Rightarrow> string \<Rightarrow> string" where
  "server_signature salted auth = hmac_sha256 (hmac_sha256 salted ''Server Key'') auth"

definition stored_key_of :: "string \<Rightarrow> string" where
  "stored_key_of salted = sha256 (hmac_sha256 salted ''Client Key'')"

text \<open>The server's check of a client-final message: the proof, with the signature under the stored key
  taken off, must hash to the stored key.\<close>

definition server_accepts :: "string \<Rightarrow> string \<Rightarrow> string \<Rightarrow> bool" where
  "server_accepts stored_key bare_raw client_final \<longleftrightarrow>
     (\<exists>without_proof p. client_final = without_proof @ '',p='' @ base64_encode p \<and> length p = 32
        \<and> sha256 (map2 byte_xor p (hmac_sha256 stored_key (bare_raw @ '','' @ without_proof))) = stored_key)"

lemma xor_cancel: "length a = length b \<Longrightarrow> map2 byte_xor (map2 byte_xor a b) b = a"
  by (induction a b rule: list_induct2) simp_all

lemma scram_continue_ok:
  assumes "sc_step st = StepBegun" "parse_server_first raw (sc_nonce st) = Inr first"
    and "f (sf_salt first) (sf_iterations first) = Some salted" "length salted = 32"
  shows "\<exists>final. scram_continue raw (Some f) st = (Inr final, \<lparr>sc_step = StepContinued, sc_first_bare = [],
        sc_nonce = [], sc_expected = server_signature salted (auth_message_of (sc_first_bare st) raw (sf_nonce first))\<rparr>)
      \<and> server_accepts (stored_key_of salted) (sc_first_bare st @ '','' @ raw) final"
proof -
  let ?wo = "''c='' @ base64_encode gs2_header @ '',r='' @ sf_nonce first"
  let ?auth = "sc_first_bare st @ '','' @ raw @ '','' @ ?wo"
  let ?p = "map2 byte_xor (hmac_sha256 salted ''Client Key'') (hmac_sha256 (stored_key_of salted) ?auth)"
  have "server_accepts (stored_key_of salted) (sc_first_bare st @ '','' @ raw) (?wo @ '',p='' @ base64_encode ?p)"
    unfolding server_accepts_def
    by (rule exI [of _ ?wo], rule exI [of _ ?p]) (simp add: xor_cancel, simp add: stored_key_of_def)
  then show ?thesis
    using assms
    by (simp add: scram_continue_def scram_finish_def Let_def derived_key_len_def server_signature_def
        auth_message_of_def stored_key_of_def)
qed

lemma scram_continue_Inr:
  assumes "scram_continue raw derive st = (Inr final, st')"
  shows "\<exists>f first salted. derive = Some f \<and> sc_step st = StepBegun
     \<and> parse_server_first raw (sc_nonce st) = Inr first
     \<and> f (sf_salt first) (sf_iterations first) = Some salted \<and> length salted = 32
     \<and> st' = \<lparr>sc_step = StepContinued, sc_first_bare = [], sc_nonce = [],
         sc_expected = server_signature salted (auth_message_of (sc_first_bare st) raw (sf_nonce first))\<rparr>"
  using assms
  by (auto simp: scram_continue_def scram_finish_def Let_def derived_key_len_def server_signature_def
      auth_message_of_def split: if_splits option.splits sum.splits)

lemma verify_server_final_Inr:
  "verify_server_final raw expected = Inr u \<longleftrightarrow> length raw \<le> 8192
     \<and> (\<exists>sig. hd (split_on (CHR '','') raw) = ''v='' @ sig \<and> base64_decode sig = Some expected)"
proof -
  define attr where "attr = fst (cut_at (CHR '','') raw)"
  have cut: "\<exists>b found. cut_at (CHR '','') raw = (attr, b, found)"
    by (cases "cut_at (CHR '','') raw") (simp add: attr_def)
  then have hd: "hd (split_on (CHR '','') raw) = attr"
    by (auto simp: split_on_cut)
  have shape: "2 \<le> length attr \<and> attr ! 1 = CHR ''='' \<and> attr ! 0 = CHR ''v'' \<and> drop 2 attr = sig
      \<longleftrightarrow> attr = ''v='' @ sig" for sig
    by (cases attr; cases "tl attr") auto
  have "verify_server_final raw expected = Inr u \<longleftrightarrow> length raw \<le> max_server_final_len
      \<and> (\<exists>sig. (2 \<le> length attr \<and> attr ! 1 = CHR ''='' \<and> attr ! 0 = CHR ''v'' \<and> drop 2 attr = sig)
           \<and> base64_decode sig = Some expected)"
    using cut by (auto simp: verify_server_final_def split: option.splits if_splits)
  then show ?thesis unfolding shape hd by (simp add: max_server_final_len_def)
qed

text \<open>One exchange: the calls made on a state, with whether each succeeded.\<close>

datatype scram_call = CallContinue string "derivation option" | CallVerify string

fun scram_do :: "scram_call \<Rightarrow> scram_state \<Rightarrow> bool \<times> scram_state" where
  "scram_do (CallContinue raw derive) st = (case scram_continue raw derive st of (r, st') \<Rightarrow> (is_ok r, st'))"
| "scram_do (CallVerify raw) st = (case scram_verify raw st of (r, st') \<Rightarrow> (is_ok r, st'))"

inductive scram_run :: "scram_state \<Rightarrow> (scram_call \<times> bool) list \<Rightarrow> scram_state \<Rightarrow> bool" where
  start: "scram_run st [] st"
| call: "scram_run st trace s \<Longrightarrow> scram_do c s = (ok, s') \<Longrightarrow> scram_run st (trace @ [(c, ok)]) s'"

definition answered :: "scram_state \<Rightarrow> string \<Rightarrow> derivation \<Rightarrow> server_first \<Rightarrow> string \<Rightarrow> bool" where
  "answered st raw f first salted \<longleftrightarrow> parse_server_first raw (sc_nonce st) = Inr first
     \<and> f (sf_salt first) (sf_iterations first) = Some salted \<and> length salted = 32"

definition proves :: "string \<Rightarrow> string \<Rightarrow> bool" where
  "proves final signature \<longleftrightarrow> (\<exists>sig. hd (split_on (CHR '','') final) = ''v='' @ sig
     \<and> base64_decode sig = Some signature)"

definition expected_of :: "scram_state \<Rightarrow> string \<Rightarrow> server_first \<Rightarrow> string \<Rightarrow> string" where
  "expected_of st raw first salted =
     server_signature salted (auth_message_of (sc_first_bare st) raw (sf_nonce first))"

definition run_inv :: "scram_state \<Rightarrow> (scram_call \<times> bool) list \<Rightarrow> scram_state \<Rightarrow> bool" where
  "run_inv st0 trace st \<longleftrightarrow> (case sc_step st of
       StepBegun \<Rightarrow> st = st0 \<and> map fst (filter snd trace) = []
     | StepContinued \<Rightarrow> \<exists>raw f first salted. map fst (filter snd trace) = [CallContinue raw (Some f)]
         \<and> answered st0 raw f first salted \<and> sc_expected st = expected_of st0 raw first salted
     | StepDone \<Rightarrow> \<exists>raw f first salted final.
         map fst (filter snd trace) = [CallContinue raw (Some f), CallVerify final]
         \<and> answered st0 raw f first salted \<and> proves final (expected_of st0 raw first salted)
     | StepFailed \<Rightarrow> length (filter snd trace) \<le> 1)"

lemma scram_do_step:
  assumes "run_inv st0 trace s" "scram_do c s = (ok, s')" "sc_step st0 = StepBegun"
  shows "run_inv st0 (trace @ [(c, ok)]) s'"
proof (cases c)
  case (CallContinue raw derive)
  show ?thesis
  proof (cases "fst (scram_continue raw derive s)")
    case (Inr final)
    then obtain f first salted where *: "derive = Some f" "sc_step s = StepBegun"
        "parse_server_first raw (sc_nonce s) = Inr first" "f (sf_salt first) (sf_iterations first) = Some salted"
        "length salted = 32" "s' = \<lparr>sc_step = StepContinued, sc_first_bare = [], sc_nonce = [],
          sc_expected = server_signature salted (auth_message_of (sc_first_bare s) raw (sf_nonce first))\<rparr>" "ok"
      using scram_continue_Inr [of raw derive s final "snd (scram_continue raw derive s)"] assms(2) CallContinue
      by (cases "scram_continue raw derive s") auto
    then show ?thesis
      using assms(1) by (auto simp: run_inv_def CallContinue answered_def expected_of_def)
  next
    case (Inl e)
    then have "\<not> ok" "s' = s \<and> sc_step s \<noteq> StepBegun \<or> sc_step s = StepBegun \<and> sc_step s' = StepFailed"
      using assms(2) by (auto simp: CallContinue scram_continue_def split: prod.splits option.splits sum.splits if_splits)
    then show ?thesis
      using assms(1) by (auto simp: run_inv_def split: scram_step.splits)
  qed
next
  case (CallVerify raw)
  show ?thesis
  proof (cases "fst (scram_verify raw s)")
    case (Inr u)
    then have *: "sc_step s = StepContinued" "ok" "sc_step s' = StepDone"
      and "verify_server_final raw (sc_expected s) = Inr ()"
      using assms(2) by (auto simp: CallVerify scram_verify_def split: prod.splits sum.splits if_splits)
    then have "proves raw (sc_expected s)"
      unfolding verify_server_final_Inr proves_def by blast
    with * show ?thesis
      using assms(1) by (fastforce simp: run_inv_def CallVerify)
  next
    case (Inl e)
    then have "\<not> ok" "s' = s \<and> sc_step s \<noteq> StepContinued \<or> sc_step s = StepContinued \<and> sc_step s' = StepFailed"
      using assms(2) by (auto simp: CallVerify scram_verify_def split: prod.splits sum.splits if_splits)
    then show ?thesis
      using assms(1) by (auto simp: run_inv_def split: scram_step.splits)
  qed
qed

lemma scram_run_inv:
  "scram_run st0 trace st \<Longrightarrow> sc_step st0 = StepBegun \<Longrightarrow> run_inv st0 trace st"
proof (induction rule: scram_run.induct)
  case (start st)
  then show ?case by (simp add: run_inv_def)
next
  case (call st trace s c ok s')
  then show ?case using scram_do_step by blast
qed

subsection \<open>An honest server\<close>

definition honest_first :: "string \<Rightarrow> string \<Rightarrow> nat \<Rightarrow> string" where
  "honest_first nonce salt n = ''r='' @ nonce @ '',s='' @ base64_encode salt @ '',i='' @ show_nat n"

lemma base64_encode_length: "length (base64_encode s) = (length s + 2) div 3 * 4"
proof (induction s rule: base64_encode.induct)
  case (4 a b c s)
  have "(length s + 2 + 3) div 3 = Suc ((length s + 2) div 3)" by simp
  then show ?case using 4 by (simp add: add.commute)
qed simp_all

lemma printable_no_comma: "printable_rfc s \<Longrightarrow> CHR '','' \<notin> set s"
  by (auto simp: printable_rfc_def list_all_iff dest!: bspec [of _ _ "CHR '',''"])

lemma show_nat_length: "n < 10 ^ k \<Longrightarrow> 0 < k \<Longrightarrow> length (show_nat n) \<le> k"
proof (induction n arbitrary: k rule: show_nat.induct)
  case (1 n)
  show ?case
  proof (cases "n < 10")
    case False
    then obtain j where k: "k = Suc j" "0 < j" using 1(2,3) by (cases k; cases "k - 1") auto
    have "n div 10 < 10 ^ j" using 1(2) k by (simp add: less_mult_imp_div_less mult.commute)
    then show ?thesis using 1(1) [OF False _ k(2)] k False by (subst show_nat.simps) simp
  qed (use 1 in \<open>subst show_nat.simps, simp\<close>)
qed

lemma honest_first_accepted:
  assumes "printable_rfc (nonce @ ext)" "ext \<noteq> []" "length (nonce @ ext) \<le> 1024" "length salt \<le> 1024"
    and "0 < n" "n \<le> 2 ^ 20"
  shows "parse_server_first (honest_first (nonce @ ext) salt n) nonce =
    Inr \<lparr>sf_nonce = nonce @ ext, sf_salt = salt, sf_iterations = n\<rparr>"
proof -
  let ?c = "CHR '',''"
  have c: "?c \<notin> set (''r='' @ nonce @ ext)" "?c \<notin> set (''s='' @ base64_encode salt)" "?c \<notin> set (''i='' @ show_nat n)"
    using printable_no_comma [OF assms(1)] base64_encode_no_break [of ?c salt] show_nat_digits [of n]
    by (auto simp: list_all_iff is_digit_def dest!: bspec [of _ _ ?c])
  have segs: "split_on ?c (honest_first (nonce @ ext) salt n) =
      [''r='' @ nonce @ ext, ''s='' @ base64_encode salt, ''i='' @ show_nat n]"
    using split_on_append [OF c(1), of "''s='' @ base64_encode salt @ '','' @ ''i='' @ show_nat n"]
      split_on_append [OF c(2), of "''i='' @ show_nat n"] split_on_no_sep [OF c(3)]
    by (simp add: honest_first_def)
  have "n < 10 ^ 7" using assms(6) by simp
  then have "length (show_nat n) \<le> 7" using show_nat_length [of n 7] by simp
  moreover have "length (base64_encode salt) \<le> 1368"
    using assms(4) by (simp add: base64_encode_length)
  ultimately have len: "length (honest_first (nonce @ ext) salt n) \<le> 8192" "length (base64_encode salt) \<le> 1368"
    using assms(3) by (simp_all add: honest_first_def)
  have "server_first_of (honest_first (nonce @ ext) salt n) (nonce @ ext) (base64_encode salt) (show_nat n)"
    by (simp add: server_first_of_def Let_def segs segment_ok_def values_of_def)
  moreover have "first_allowed nonce (nonce @ ext) (base64_encode salt) (show_nat n)
      \<lparr>sf_nonce = nonce @ ext, sf_salt = salt, sf_iterations = n\<rparr>"
    using assms len(2) show_nat_digits [of n] by (simp add: first_allowed_def)
  ultimately show ?thesis
    unfolding parse_server_first_Inr using len(1) by blast
qed

lemma honest_final_accepted:
  assumes "sc_step st = StepContinued" "length (sc_expected st) = 32"
  shows "scram_verify (''v='' @ base64_encode (sc_expected st)) st
    = (Inr (), st\<lparr>sc_expected := [], sc_step := StepDone\<rparr>)"
proof -
  have "CHR '','' \<notin> set (''v='' @ base64_encode (sc_expected st))"
    using base64_encode_no_break [of "CHR '',''" "sc_expected st"] by simp
  then have "verify_server_final (''v='' @ base64_encode (sc_expected st)) (sc_expected st) = Inr ()"
    unfolding verify_server_final_Inr using assms(2) by (simp add: split_on_no_sep base64_encode_length)
  then show ?thesis using assms(1) by (simp add: scram_verify_def)
qed

subsection \<open>Properties\<close>

text \<open>The client takes a server-first message exactly when it has at most 8192 bytes and 32 well-formed
  attributes, one nonce, one salt, one iteration count and no mandatory extension among them, the
  nonce is printable, at most 1024 bytes and strictly longer than the client's with the client's in
  front, the salt is base64 of at most 1024 bytes, and the count is a decimal number from 1 to 2^20;
  what it returns are those values.\<close>

theorem parse_server_first_exact:
  "parse_server_first raw client_nonce = Inr f \<longleftrightarrow> length raw \<le> 8192
     \<and> (\<exists>nonce salt_text iter_text. server_first_of raw nonce salt_text iter_text
          \<and> first_allowed client_nonce nonce salt_text iter_text f)"
  by (rule parse_server_first_Inr)

text \<open>Preparing a user name accepts exactly the names of at most 256 bytes of printable ASCII. What it
  gives reads back as the name, carries no comma, so it stays inside its attribute, and is at most
  three times as long as the name.\<close>

theorem encode_saslname_roundtrip:
  "encode_saslname user =
      (if length user \<le> 256 \<and> printable_ascii user then Inr (escape_name user)
       else Inl ErrUsernameUnsupported)
   \<and> unescape_name (escape_name user) = user \<and> CHR '','' \<notin> set (escape_name user)
   \<and> length (escape_name user) \<le> 3 * length user"
  using unescape_escape [of user] escape_no_comma [of user] encoded_length_bounds [of user]
  by (auto simp: encode_saslname_eq encoded_length_escape)

text \<open>C20: Success means the server was authenticated. Whatever calls are made on one exchange, in whatever
  order, it is done only if exactly two of them succeeded: a \<open>Continue\<close> whose message was accepted
  against the nonce of this exchange and whose derivation gave 32 bytes, and then a \<open>Verify\<close> of the
  signature that a server holding the same salted password computes over this exchange's messages.
  The derivation was asked for at most 2^20 iterations.\<close>

theorem scram_success_authenticates:
  assumes "scram_begin user nonces = Inr (st0, bare)" "scram_run st0 trace st" "sc_step st = StepDone"
  shows "\<exists>raw f (first :: server_first) salted final nonce ext.
     map fst (filter snd trace) = [CallContinue raw (Some f), CallVerify final]
     \<and> nonces = Inr nonce \<and> sf_nonce first = nonce @ ext \<and> ext \<noteq> []
     \<and> f (sf_salt first) (sf_iterations first) = Some salted \<and> length salted = 32
     \<and> 0 < sf_iterations first \<and> sf_iterations first \<le> 2 ^ 20
     \<and> proves final (server_signature salted (auth_message_of bare raw (sf_nonce first)))"
proof -
  obtain nonce where st0: "nonces = Inr nonce" "sc_step st0 = StepBegun" "sc_nonce st0 = nonce"
      "sc_first_bare st0 = bare"
    using assms(1) by (auto simp: scram_begin_def rbind_Inr_iff Let_def)
  obtain raw f first salted final where good:
      "map fst (filter snd trace) = [CallContinue raw (Some f), CallVerify final]"
      "answered st0 raw f first salted" "proves final (expected_of st0 raw first salted)"
    using scram_run_inv [OF assms(2) st0(2)] assms(3) by (auto simp: run_inv_def)
  obtain ext where "sf_nonce first = nonce @ ext" "ext \<noteq> []" "0 < sf_iterations first"
      "sf_iterations first \<le> 2 ^ 20"
    using good(2) st0(3) unfolding answered_def parse_server_first_Inr first_allowed_def by auto
  moreover have "proves final (server_signature salted (auth_message_of bare raw (sf_nonce first)))"
    using good(3) st0(4) by (simp add: expected_of_def)
  ultimately show ?thesis
    using good(1) good(2) [unfolded answered_def] st0(1)
    by - (rule exI [of _ raw], rule exI [of _ f], rule exI [of _ first], rule exI [of _ salted],
        rule exI [of _ final], rule exI [of _ nonce], rule exI [of _ ext], simp)
qed

definition demo_salted :: string where "demo_salted = replicate 32 (CHR ''k'')"
definition demo_state :: scram_state where
  "demo_state = \<lparr>sc_step = StepBegun, sc_first_bare = ''n=user,r=abc'', sc_nonce = ''abc'', sc_expected = []\<rparr>"

lemma demo_begin: "scram_begin ''user'' (Inr ''abc'') = Inr (demo_state, ''n=user,r=abc'')"
  by (simp add: scram_begin_def encode_saslname_eq printable_ascii_def demo_state_def Let_def)

lemma demo_run: "\<exists>trace st. scram_run demo_state trace st \<and> sc_step st = StepDone"
proof -
  define raw where "raw = honest_first (''abc'' @ ''xyz'') ''salt'' 4096"
  define f :: derivation where "f = (\<lambda>salt n. Some demo_salted)"
  let ?first = "\<lparr>sf_nonce = ''abc'' @ ''xyz'', sf_salt = ''salt'', sf_iterations = 4096\<rparr>"
  have parse: "parse_server_first raw (sc_nonce demo_state) = Inr ?first"
    using honest_first_accepted [of "''abc''" "''xyz''" "''salt''" 4096]
    by (simp add: demo_state_def printable_rfc_def raw_def)
  obtain final st1 where c: "scram_continue raw (Some f) demo_state = (Inr final, st1)"
      and st1: "sc_step st1 = StepContinued" "length (sc_expected st1) = 32"
    using scram_continue_ok [OF _ parse, of f demo_salted]
    by (auto simp: demo_state_def demo_salted_def f_def server_signature_def)
  let ?v = "''v='' @ base64_encode (sc_expected st1)"
  have "scram_run demo_state ([] @ [(CallContinue raw (Some f), True)]) st1"
    by (rule scram_run.call [OF scram_run.start]) (simp add: c)
  then have "scram_run demo_state (([] @ [(CallContinue raw (Some f), True)]) @ [(CallVerify ?v, True)])
      (st1\<lparr>sc_expected := [], sc_step := StepDone\<rparr>)"
    by (rule scram_run.call) (simp only: scram_do.simps honest_final_accepted [OF st1] prod.case is_ok_simps)
  then show ?thesis by fastforce
qed

theorem scram_success_authenticates_witness:
  "\<exists>trace st raw f final. scram_run demo_state trace st \<and> sc_step st = StepDone
     \<and> map fst (filter snd trace) = [CallContinue raw (Some f), CallVerify final]"
proof -
  obtain trace st where run: "scram_run demo_state trace st" "sc_step st = StepDone"
    using demo_run by blast
  obtain raw f final where "map fst (filter snd trace) = [CallContinue raw (Some f), CallVerify final]"
    using scram_success_authenticates [OF demo_begin run] by (elim exE conjE) (rule that)
  then show ?thesis
    using run by (intro exI [of _ trace] exI [of _ st] exI [of _ raw] exI [of _ f] exI [of _ final]) simp
qed

text \<open>C35: An exchange with an honest server succeeds: a server that extends the nonce with printable text,
  sends a salt and a count within the bounds, and knows the stored and server keys of the same
  salted password, accepts the client's proof, and its signature is accepted in turn.\<close>

theorem scram_honest_server_succeeds:
  assumes "scram_begin user (Inr nonce) = Inr (st0, bare)"
    and "printable_rfc (nonce @ ext)" "ext \<noteq> []" "length (nonce @ ext) \<le> 1024"
    and "length salt \<le> 1024" "0 < n" "n \<le> 2 ^ 20" "derive salt n = Some salted" "length salted = 32"
  shows "\<exists>final st1 st2. scram_continue (honest_first (nonce @ ext) salt n) (Some derive) st0 = (Inr final, st1)
     \<and> server_accepts (stored_key_of salted) (bare @ '','' @ honest_first (nonce @ ext) salt n) final
     \<and> scram_verify (''v='' @ base64_encode (server_signature salted
          (auth_message_of bare (honest_first (nonce @ ext) salt n) (nonce @ ext)))) st1 = (Inr (), st2)
     \<and> sc_step st2 = StepDone"
proof -
  let ?raw = "honest_first (nonce @ ext) salt n"
  have st0: "sc_step st0 = StepBegun" "sc_nonce st0 = nonce" "sc_first_bare st0 = bare"
    using assms(1) by (auto simp: scram_begin_def rbind_Inr_iff Let_def)
  have "parse_server_first ?raw (sc_nonce st0) = Inr \<lparr>sf_nonce = nonce @ ext, sf_salt = salt, sf_iterations = n\<rparr>"
    unfolding st0 by (rule honest_first_accepted) (use assms in auto)
  from scram_continue_ok [OF st0(1) this, of derive salted] assms(8,9)
  obtain final st1 where c: "scram_continue ?raw (Some derive) st0 = (Inr final, st1)"
      "server_accepts (stored_key_of salted) (bare @ '','' @ ?raw) final" "sc_step st1 = StepContinued"
      "sc_expected st1 = server_signature salted (auth_message_of bare ?raw (nonce @ ext))"
    unfolding st0(3) by auto
  then show ?thesis
    using honest_final_accepted [OF c(3)] by (simp add: server_signature_def)
qed

theorem scram_honest_server_succeeds_witness:
  "\<exists>final st1. scram_continue (honest_first (''abc'' @ ''xyz'') ''salt'' 4096)
      (Some (\<lambda>salt n. Some demo_salted)) demo_state = (Inr final, st1)"
proof -
  have "printable_rfc (''abc'' @ ''xyz'')" by (simp add: printable_rfc_def)
  then show ?thesis
    using scram_honest_server_succeeds [OF demo_begin, of "''xyz''" "''salt''" 4096
        "\<lambda>salt n. Some demo_salted" demo_salted]
    by (auto simp: demo_salted_def)
qed

end
