(* ===== verification/PgProtocol.thy ===== *)
theory PgProtocol
  imports PgWire ScramExchange
begin

text \<open>
  What the PostgreSQL wire model promises: frames read back what is encoded and nothing else, the fields of an
  error are those of a declarative reading of its body, and the SCRAM exchange completes exactly for the
  conversations of a grammar.
\<close>

subsection \<open>Frames\<close>

text \<open>The bytes of a message.\<close>

definition message_bytes :: "pg_message \<Rightarrow> string" where
  "message_bytes m = [pm_type m] @ big_endian 4 (4 + length (pm_body m)) @ pm_body m"

lemma bounded_length_exact: "n \<le> max_message_size \<Longrightarrow> unat (bounded_length (4 + n)) = 4 + n"
  by (simp add: bounded_length_def max_message_size_def frame_header_overhead_def unat_of_nat
      take_bit_nat_eq_self del: of_nat_add)

lemma encode_pg_message_bytes:
  "encode_pg_message kind body = Inr bytes \<longleftrightarrow> length body \<le> max_message_size
     \<and> bytes = message_bytes \<lparr>pm_type = kind, pm_body = body\<rparr>"
  by (auto simp: encode_pg_message_def message_bytes_def bounded_length_exact)

lemma pg_read_full_Inr:
  "pg_read_full n c = (Inr b, c') \<longleftrightarrow> length b = n \<and> pg_rest c = b @ pg_rest c' \<and> c' = c\<lparr>pg_rest := pg_rest c'\<rparr>"
proof (cases "length (pg_rest c) < n")
  case False
  then show ?thesis
    by (cases c; cases c') (auto simp: pg_read_full_def intro: append_take_drop_id [symmetric])
qed (auto simp: pg_read_full_def)

lemma word_of_bytes:
  assumes "length b = 4"
  shows "unat (of_nat (from_big_endian b) :: 32 word) = from_big_endian b"
  using from_big_endian_less [of b] assms by (simp add: unat_of_nat)

text \<open>What the reader of frames accepts, whatever stands before and after.\<close>

lemma frame_header:
  assumes "length header = 5"
  defines "len \<equiv> (of_nat (from_big_endian (take 4 (drop 1 header))) :: 32 word)"
  shows "4 \<le> len \<and> len - 4 \<le> of_nat max_message_size \<and> unat (len - 4) = n
    \<longleftrightarrow> n \<le> max_message_size \<and> header = [header ! 0] @ big_endian 4 (4 + n)"
proof -
  define b where "b = take 4 (drop 1 header)"
  have b: "length b = 4" "header = [header ! 0] @ b"
    using assms(1) by (simp_all add: b_def) (cases header; simp)
  have len: "unat len = from_big_endian b"
    using word_of_bytes [OF b(1)] by (simp add: len_def b_def)
  have four: "4 \<le> len \<longleftrightarrow> 4 \<le> from_big_endian b"
    by (simp add: word_le_nat_alt len)
  have sub: "unat (len - 4) = from_big_endian b - 4" if "4 \<le> len"
    using unat_sub [OF that] len by simp
  have max: "unat (of_nat max_message_size :: 32 word) = max_message_size"
    by (simp add: max_message_size_def unat_of_nat)
  have "header = [header ! 0] @ big_endian 4 (4 + n) \<longleftrightarrow> from_big_endian b = 4 + n" if "n \<le> max_message_size"
  proof -
    have "from_big_endian (big_endian 4 (4 + n)) = 4 + n"
      using that by (intro from_big_endian_inverse) (simp add: max_message_size_def)
    then have "b = big_endian 4 (4 + n) \<longleftrightarrow> from_big_endian b = 4 + n"
      using big_endian_inverse [of b] b(1) by metis
    then show ?thesis using b(2) by (metis append_Cons append_Nil list.inject)
  qed
  moreover have "len - 4 \<le> of_nat max_message_size \<longleftrightarrow> unat (len - 4) \<le> max_message_size"
    by (simp add: word_le_nat_alt max)
  ultimately show ?thesis using four sub by fastforce
qed

lemma read_pg_message_Inr:
  "read_pg_message c = (Inr m, c') \<longleftrightarrow> length (pm_body m) \<le> max_message_size
     \<and> pg_rest c = message_bytes m @ pg_rest c' \<and> c' = c\<lparr>pg_rest := pg_rest c'\<rparr>"
  (is "?L \<longleftrightarrow> ?R")
proof
  assume ?L
  then obtain header c1 where h: "pg_read_full 5 c = (Inr header, c1)"
    unfolding read_pg_message_def and_then_Inr by blast
  let ?len = "(of_nat (from_big_endian (take 4 (drop 1 header))) :: 32 word)"
  have H: "length header = 5" "pg_rest c = header @ pg_rest c1" "c1 = c\<lparr>pg_rest := pg_rest c1\<rparr>"
    using h by (simp_all add: pg_read_full_Inr)
  from \<open>?L\<close> h have ok: "4 \<le> ?len" "?len - 4 \<le> of_nat max_message_size"
    and body: "pg_read_full (unat (?len - 4)) c1 = (Inr (pm_body m), c')" "pm_type m = header ! 0"
    by (auto simp: read_pg_message_def and_then_def Let_def pg_read_full_def not_le not_less
        split: if_splits prod.splits sum.splits)
  have B: "length (pm_body m) = unat (?len - 4)" "pg_rest c1 = pm_body m @ pg_rest c'" "c' = c1\<lparr>pg_rest := pg_rest c'\<rparr>"
    using body(1) by (simp_all add: pg_read_full_Inr)
  have "length (pm_body m) \<le> max_message_size \<and> header = [header ! 0] @ big_endian 4 (4 + length (pm_body m))"
    using frame_header [OF H(1)] ok B(1) by metis
  then show ?R
    using H B body(2) unfolding message_bytes_def by (metis append.assoc pg_conn.surjective pg_conn.update_convs(1))
next
  assume R: ?R
  define header where "header = [pm_type m] @ big_endian 4 (4 + length (pm_body m))"
  define c1 where "c1 = c\<lparr>pg_rest := pm_body m @ pg_rest c'\<rparr>"
  let ?len = "(of_nat (from_big_endian (take 4 (drop 1 header))) :: 32 word)"
  have l: "length header = 5" by (simp add: header_def)
  have ok: "4 \<le> ?len" "?len - 4 \<le> of_nat max_message_size" "unat (?len - 4) = length (pm_body m)"
    using frame_header [OF l, of "length (pm_body m)"] R by (simp_all add: header_def)
  have h: "pg_read_full 5 c = (Inr header, c1)"
    using R l by (simp add: pg_read_full_Inr c1_def header_def message_bytes_def)
  have b: "pg_read_full (unat (?len - 4)) c1 = (Inr (pm_body m), c')"
    unfolding pg_read_full_Inr using R ok(3) by (simp add: c1_def)
  have "?len - 4 = 0 \<longleftrightarrow> pm_body m = []"
    using ok(3) by (metis length_0_conv unat_eq_zero)
  then show ?L
    using ok(1,2) b R
    by (simp add: read_pg_message_def and_then_def h Let_def header_def not_less c1_def)
qed

text \<open>C38: Frames are exact. A message is encoded exactly when its body is within the bound, and reading takes
  from the stream precisely the bytes of one message within the bound, whatever follows, and returns it.\<close>

theorem read_pg_message_exact:
  "(read_pg_message c = (Inr m, c') \<longleftrightarrow>
      (\<exists>bytes. encode_pg_message (pm_type m) (pm_body m) = Inr bytes \<and> pg_rest c = bytes @ pg_rest c'
         \<and> c' = c\<lparr>pg_rest := pg_rest c'\<rparr>))
   \<and> is_ok (encode_pg_message (pm_type m) (pm_body m)) = (length (pm_body m) \<le> max_message_size)"
  by (auto simp: read_pg_message_Inr encode_pg_message_bytes message_bytes_def)
    (auto simp: encode_pg_message_def is_ok_def split: if_splits)

subsection \<open>The fields of an error\<close>

definition field_bytes :: "char \<times> string \<Rightarrow> string" where
  "field_bytes kv = [fst kv] @ snd kv @ [CHR 0x00]"

definition field_ok :: "char \<times> string \<Rightarrow> bool" where
  "field_ok kv \<longleftrightarrow> fst kv \<noteq> CHR 0x00 \<and> CHR 0x00 \<notin> set (snd kv)"

text \<open>Fields of this form, ended by a NUL; what stands after it is not looked at.\<close>

lemma decode_error_from_Inr:
  "decode_error_from body out = Inr f \<longleftrightarrow>
     (\<exists>kvs rest. body = concat (map field_bytes kvs) @ CHR 0x00 # rest \<and> list_all field_ok kvs
        \<and> f = fold (\<lambda>(k, v). take_error_field k v) kvs out)"
proof (induction body out rule: decode_error_from.induct)
  case (1 body out)
  show ?case
  proof (cases body)
    case Nil
    then show ?thesis by (subst decode_error_from.simps) simp
  next
    case (Cons key rest)
    show ?thesis
    proof (cases "key = CHR 0x00")
      case True
      have none: "kvs = []" if "CHR 0x00 # rest = concat (map field_bytes kvs) @ CHR 0x00 # r" "list_all field_ok kvs" for kvs r
        using that by (cases kvs) (auto simp: field_bytes_def field_ok_def)
      have "(\<exists>kvs r. CHR 0x00 # rest = concat (map field_bytes kvs) @ CHR 0x00 # r \<and> list_all field_ok kvs
          \<and> f = fold (\<lambda>(k, v). take_error_field k v) kvs out) \<longleftrightarrow> f = out" (is "?E \<longleftrightarrow> _")
      proof
        assume ?E
        then show "f = out" using none by fastforce
      next
        assume "f = out"
        then show ?E by (intro exI [of _ "[]"] exI [of _ rest]) simp
      qed
      moreover have "decode_error_from body out = Inr out"
        using Cons True by (subst decode_error_from.simps) simp
      ultimately show ?thesis using Cons True by auto
    next
      case False
      obtain v tail found where cut: "cut_at (CHR 0x00) rest = (v, tail, found)" by (cases "cut_at (CHR 0x00) rest")
      have shape: "body = concat (map field_bytes kvs) @ CHR 0x00 # r \<and> list_all field_ok kvs \<longleftrightarrow>
          (\<exists>w kvs'. kvs = (key, w) # kvs' \<and> CHR 0x00 \<notin> set w \<and> list_all field_ok kvs'
             \<and> rest = w @ CHR 0x00 # concat (map field_bytes kvs') @ CHR 0x00 # r)" for kvs r
        using Cons False by (cases kvs) (auto simp: field_bytes_def field_ok_def)
      show ?thesis
      proof (cases found)
        case True
        have same: "w = v \<and> tail = t" if "rest = w @ CHR 0x00 # t" "CHR 0x00 \<notin> set w" for w t
          using cut_at_append [OF that(2), of t] cut that(1) True by simp
        have r: "rest = v @ CHR 0x00 # tail" "CHR 0x00 \<notin> set v" using cut_at_found [of _ rest v tail] cut True by simp_all
        have "decode_error_from body out = decode_error_from tail (take_error_field key v out)"
          using Cons False cut True by (subst decode_error_from.simps) simp
        also have "\<dots> = Inr f \<longleftrightarrow> (\<exists>kvs r. tail = concat (map field_bytes kvs) @ CHR 0x00 # r \<and> list_all field_ok kvs
            \<and> f = fold (\<lambda>(k, v). take_error_field k v) kvs (take_error_field key v out))"
          using 1 [OF Cons False cut [symmetric]] True by blast
        also have "\<dots> \<longleftrightarrow> (\<exists>kvs r. (\<exists>w kvs'. kvs = (key, w) # kvs' \<and> CHR 0x00 \<notin> set w \<and> list_all field_ok kvs'
             \<and> rest = w @ CHR 0x00 # concat (map field_bytes kvs') @ CHR 0x00 # r)
            \<and> f = fold (\<lambda>(k, v). take_error_field k v) kvs out)"
          (is "?A \<longleftrightarrow> ?B")
        proof
          assume ?A
          then obtain kvs r' where k: "tail = concat (map field_bytes kvs) @ CHR 0x00 # r'" "list_all field_ok kvs"
              "f = fold (\<lambda>(k, v). take_error_field k v) kvs (take_error_field key v out)" by blast
          then have "f = fold (\<lambda>(k, v). take_error_field k v) ((key, v) # kvs) out" by simp
          moreover have "rest = v @ CHR 0x00 # concat (map field_bytes kvs) @ CHR 0x00 # r'" using r k(1) by simp
          ultimately show ?B using r(2) k(2) by blast
        next
          assume ?B
          then obtain w kvs' r' where k: "CHR 0x00 \<notin> set w" "list_all field_ok kvs'"
              "rest = w @ CHR 0x00 # concat (map field_bytes kvs') @ CHR 0x00 # r'"
              "f = fold (\<lambda>(k, v). take_error_field k v) ((key, w) # kvs') out" by blast
          have "w = v \<and> tail = concat (map field_bytes kvs') @ CHR 0x00 # r'" by (rule same [OF k(3,1)])
          then show ?A using k(2,4) by auto
        qed
        finally show ?thesis by (simp only: shape [symmetric] conj_assoc)
      next
        case absent: False
        have "CHR 0x00 \<notin> set rest" using cut_at_absent [of _ rest v tail] cut absent by simp
        then have "\<not> (body = concat (map field_bytes kvs) @ CHR 0x00 # r \<and> list_all field_ok kvs)" for kvs r
          unfolding shape by auto
        moreover have "decode_error_from body out = Inl PgMalformed"
          using Cons False cut absent by (subst decode_error_from.simps) simp
        ultimately show ?thesis by auto
      qed
    qed
  qed
qed

text \<open>What the fields say: the first usable SQLSTATE, and whether there is an unlocalised severity and which.\<close>

definition first_sqlstate :: "(char \<times> string) list \<Rightarrow> string" where
  "first_sqlstate kvs = (case filter (\<lambda>(k, v). k = CHR ''C'' \<and> valid_sqlstate v) kvs of [] \<Rightarrow> [] | (k, v) # _ \<Rightarrow> v)"

definition first_severity :: "(char \<times> string) list \<Rightarrow> string" where
  "first_severity kvs = (case filter (\<lambda>(k, v). k = CHR ''V'') kvs of [] \<Rightarrow> []
     | (k, v) # _ \<Rightarrow> if valid_severity v then v else [])"

lemma fold_error_fields:
  "fold (\<lambda>(k, v). take_error_field k v) kvs out =
     \<lparr>ef_sqlstate = (if ef_sqlstate out = [] then first_sqlstate kvs else ef_sqlstate out),
      ef_severity = (if ef_native out then ef_severity out
        else if \<exists>(k, v)\<in>set kvs. k = CHR ''V'' then (if first_severity kvs = [] then ef_severity out else first_severity kvs)
        else ef_severity out),
      ef_native = (ef_native out \<or> (\<exists>(k, v)\<in>set kvs. k = CHR ''V''))\<rparr>"
proof (induction kvs arbitrary: out)
  case Nil
  then show ?case by (cases out) (simp add: first_sqlstate_def)
next
  case (Cons kv kvs)
  obtain k v where kv: "kv = (k, v)" by (cases kv)
  have sev: "valid_severity v \<Longrightarrow> v \<noteq> []" by (auto simp: valid_severity_def pg_severities_def)
  have sta: "valid_sqlstate v \<Longrightarrow> v \<noteq> []" by (auto simp: valid_sqlstate_def)
  have step: "fold (\<lambda>(k, v). take_error_field k v) (kv # kvs) out
      = fold (\<lambda>(k, v). take_error_field k v) kvs (take_error_field k v out)"
    by (simp add: kv)
  show ?case
    unfolding step Cons.IH
    by (cases out; cases "k = CHR ''C''"; cases "k = CHR ''V''"; cases "valid_sqlstate v"; cases "valid_severity v")
      (simp_all add: kv take_error_field_def Let_def first_sqlstate_def first_severity_def sev sta)
qed

text \<open>The fields of an error are read exactly as a declarative reading of its body has them: the body must be
  fields of a key and a NUL-ended value, closed by a NUL; the SQLSTATE is the first \<open>C\<close> value that looks like
  one, and the severity is the first \<open>V\<close> value, kept only when it is one of the eight words.\<close>

theorem decode_error_fields_exact:
  "decode_error_fields body = Inr f \<longleftrightarrow>
     (\<exists>kvs rest. body = concat (map field_bytes kvs) @ CHR 0x00 # rest \<and> list_all field_ok kvs
        \<and> f = \<lparr>ef_sqlstate = first_sqlstate kvs, ef_severity = first_severity kvs,
               ef_native = list_ex (\<lambda>(k, v). k = CHR ''V'') kvs\<rparr>)"
proof -
  have "fold (\<lambda>(k, v). take_error_field k v) kvs no_fields =
      \<lparr>ef_sqlstate = first_sqlstate kvs, ef_severity = first_severity kvs,
       ef_native = list_ex (\<lambda>(k, v). k = CHR ''V'') kvs\<rparr>" for kvs
    unfolding fold_error_fields
    by (auto simp: no_fields_def list_ex_iff first_severity_def filter_empty_conv split: list.splits)
  then show ?thesis
    unfolding decode_error_fields_def decode_error_from_Inr by simp
qed

subsection \<open>The SCRAM conversation\<close>

text \<open>An authentication request with a code and a payload, after at most \<open>max_notices\<close> notices.\<close>

definition notice_bytes :: "string list \<Rightarrow> string" where
  "notice_bytes bs = concat (map (\<lambda>b. message_bytes \<lparr>pm_type = msg_notice_response, pm_body = b\<rparr>) bs)"

definition hears :: "32 word \<Rightarrow> string \<Rightarrow> string \<Rightarrow> string \<Rightarrow> bool" where
  "hears n payload s t \<longleftrightarrow>
     (\<exists>bs. length bs \<le> max_notices \<and> list_all (\<lambda>b. length b \<le> max_message_size) bs
        \<and> 4 + length payload \<le> max_message_size
        \<and> s = notice_bytes bs
            @ message_bytes \<lparr>pm_type = msg_authentication, pm_body = big_endian 4 (unat n) @ payload\<rparr> @ t)"

lemma message_types: "msg_notice_response \<noteq> msg_authentication" "msg_authentication \<noteq> msg_notice_response"
  "msg_error_response \<noteq> msg_authentication" "msg_error_response \<noteq> msg_notice_response"
  by (simp_all add: msg_notice_response_def msg_authentication_def msg_error_response_def)

lemma read_auth_step_Inr:
  "read_auth_step k c = (Inr m, c') \<longleftrightarrow>
     (\<exists>bs. length bs < k \<and> list_all (\<lambda>b. length b \<le> max_message_size) bs
        \<and> pm_type m = msg_authentication \<and> length (pm_body m) \<le> max_message_size
        \<and> pg_rest c = notice_bytes bs @ message_bytes m @ pg_rest c' \<and> c' = c\<lparr>pg_rest := pg_rest c'\<rparr>)"
proof (induction k arbitrary: c)
  case (Suc k)
  have step: "read_auth_step (Suc k) c = (Inr m, c') \<longleftrightarrow>
      (\<exists>x c1. read_pg_message c = (Inr x, c1)
        \<and> (if pm_type x = msg_notice_response then read_auth_step k c1 = (Inr m, c')
           else pm_type x = msg_authentication \<and> x = m \<and> c1 = c'))"
  proof -
    obtain r c1 where r: "read_pg_message c = (r, c1)" by (cases "read_pg_message c")
    show ?thesis
    proof (cases r)
      case (Inr x)
      then show ?thesis
        using message_types by (cases "decode_error_fields (pm_body x)") (auto simp: r)
    qed (simp add: r)
  qed
  let ?P = "\<lambda>bs c. list_all (\<lambda>b. length b \<le> max_message_size) bs
        \<and> pm_type m = msg_authentication \<and> length (pm_body m) \<le> max_message_size
        \<and> pg_rest c = notice_bytes bs @ message_bytes m @ pg_rest c' \<and> c' = c\<lparr>pg_rest := pg_rest c'\<rparr>"
  show ?case
  proof
    assume "read_auth_step (Suc k) c = (Inr m, c')"
    then obtain x c1 where x: "read_pg_message c = (Inr x, c1)"
        "if pm_type x = msg_notice_response then read_auth_step k c1 = (Inr m, c')
         else pm_type x = msg_authentication \<and> x = m \<and> c1 = c'"
      unfolding step by blast
    note X = x(1) [unfolded read_pg_message_Inr]
    show "\<exists>bs. length bs < Suc k \<and> ?P bs c"
    proof (cases "pm_type x = msg_notice_response")
      case True
      then obtain bs where bs: "length bs < k" "?P bs c1" using x(2) Suc.IH by auto
      have "message_bytes \<lparr>pm_type = msg_notice_response, pm_body = pm_body x\<rparr> = message_bytes x"
        using True by (simp add: message_bytes_def)
      then have "?P (pm_body x # bs) c"
        using bs(2) X by (auto simp: notice_bytes_def)
      then show ?thesis using bs(1) by (intro exI [of _ "pm_body x # bs"]) simp
    next
      case False
      then have "pm_type m = msg_authentication" "x = m" "c1 = c'" using x(2) by auto
      then have "?P [] c" using X by (simp add: notice_bytes_def)
      then show ?thesis by (intro exI [of _ "[]"]) simp
    qed
  next
    assume "\<exists>bs. length bs < Suc k \<and> ?P bs c"
    then obtain bs where bs: "length bs < Suc k" "?P bs c" by blast
    show "read_auth_step (Suc k) c = (Inr m, c')"
    proof (cases bs)
      case Nil
      then have "read_pg_message c = (Inr m, c')" using bs(2) by (simp add: read_pg_message_Inr notice_bytes_def)
      then show ?thesis unfolding step using bs(2) message_types by auto
    next
      case (Cons b bs')
      define c1 where "c1 = c\<lparr>pg_rest := notice_bytes bs' @ message_bytes m @ pg_rest c'\<rparr>"
      define x where "x = \<lparr>pm_type = msg_notice_response, pm_body = b\<rparr>"
      have "read_pg_message c = (Inr x, c1)"
        unfolding read_pg_message_Inr using bs(2) Cons by (simp add: x_def c1_def notice_bytes_def)
      moreover have "?P bs' c1"
        using bs(2) Cons by (simp add: c1_def)
      then have "read_auth_step k c1 = (Inr m, c')" using Suc.IH bs(1) Cons by auto
      ultimately show ?thesis unfolding step by (auto simp: x_def)
    qed
  qed
qed auto

lemma word32_bytes:
  assumes "length b = 4"
  shows "(of_nat (from_big_endian b) :: 32 word) = w \<longleftrightarrow> b = big_endian 4 (unat w)"
proof -
  have "unat w < 2 ^ LENGTH(32)" by (rule unsigned_less)
  then have "from_big_endian (big_endian 4 (unat w)) = unat w"
    by (intro from_big_endian_inverse) simp
  then have "b = big_endian 4 (unat w) \<longleftrightarrow> from_big_endian b = unat w"
    using big_endian_inverse [of b] assms by metis
  then show ?thesis using word_of_bytes [OF assms] by (metis word_unat_eq_iff)
qed

lemma auth_payload:
  "auth_code_and_payload body = Inr (n, payload) \<longleftrightarrow> body = big_endian 4 (unat n) @ payload"
proof (cases "length body < 4")
  case False
  define b where "b = take 4 body"
  have b: "length b = 4" "body = b @ drop 4 body" using False by (simp_all add: b_def)
  have "auth_code_and_payload body = Inr (n, payload) \<longleftrightarrow> b = big_endian 4 (unat n) \<and> drop 4 body = payload"
    using False word32_bytes [OF b(1), of n] by (simp add: auth_code_and_payload_def b_def)
  also have "\<dots> \<longleftrightarrow> body = big_endian 4 (unat n) @ payload"
    using b by (metis append_eq_append_conv length_big_endian)
  finally show ?thesis .
qed (auto simp: auth_code_and_payload_def)

lemma read_sasl_payload_Inr:
  "read_sasl_payload n c = (Inr payload, c') \<longleftrightarrow>
     hears n payload (pg_rest c) (pg_rest c') \<and> c' = c\<lparr>pg_rest := pg_rest c'\<rparr>"
proof -
  have "read_sasl_payload n c = (Inr payload, c') \<longleftrightarrow> (\<exists>m. read_auth_step (max_notices + 1) c = (Inr m, c')
      \<and> auth_code_and_payload (pm_body m) = Inr (n, payload))"
    by (cases "read_auth_step (max_notices + 1) c")
      (auto simp: read_sasl_payload_def and_then_def split: sum.splits)
  also have "\<dots> \<longleftrightarrow> (\<exists>bs. length bs < max_notices + 1 \<and> list_all (\<lambda>b. length b \<le> max_message_size) bs
        \<and> length (big_endian 4 (unat n) @ payload) \<le> max_message_size
        \<and> pg_rest c = notice_bytes bs @ message_bytes \<lparr>pm_type = msg_authentication,
            pm_body = big_endian 4 (unat n) @ payload\<rparr> @ pg_rest c' \<and> c' = c\<lparr>pg_rest := pg_rest c'\<rparr>)"
    unfolding read_auth_step_Inr auth_payload
    by (auto intro!: exI [of _ "\<lparr>pm_type = msg_authentication, pm_body = big_endian 4 (unat n) @ payload\<rparr>"]
        simp: message_bytes_def)
  finally show ?thesis by (auto simp: hears_def less_Suc_eq_le)
qed

lemma read_authentication_ok_Inr:
  "read_authentication_ok c = (Inr (), c') \<longleftrightarrow>
     hears auth_code_ok [] (pg_rest c) (pg_rest c') \<and> c' = c\<lparr>pg_rest := pg_rest c'\<rparr>"
proof -
  have "read_authentication_ok c = (Inr (), c') \<longleftrightarrow> read_sasl_payload auth_code_ok c = (Inr [], c')"
    by (cases "read_auth_step (max_notices + 1) c")
      (auto simp: read_authentication_ok_def read_sasl_payload_def and_then_def split: sum.splits)
  then show ?thesis by (simp add: read_sasl_payload_Inr)
qed

text \<open>A conversation that authenticates. The client speaks first; the server answers with parameters that are
  within the bounds and extend the client's nonce; the client answers with its proof from the salted
  password; the server answers with the signature only someone who knows that salted password or its server
  key can compute over these messages, and says that the authentication succeeded.\<close>

definition authenticates :: "string \<Rightarrow> scram_error + string \<Rightarrow> (string \<Rightarrow> string \<Rightarrow> nat \<Rightarrow> string option)
    \<Rightarrow> string \<Rightarrow> string \<Rightarrow> string \<Rightarrow> nat \<Rightarrow> bool" where
  "authenticates password nonces pbkdf2 heard rest sent iterations \<longleftrightarrow>
     printable_ascii password
     \<and> (\<exists>st bare server_first first salted client_final expected server_final initial final s1 s2.
          scram_begin [] nonces = Inr (st, bare)
          \<and> sasl_initial_response (gs2_header @ bare) = Inr initial
          \<and> hears auth_code_sasl_continue server_first heard s1
          \<and> parse_server_first server_first (sc_nonce st) = Inr first
          \<and> pbkdf2 password (sf_salt first) (sf_iterations first) = Some salted
          \<and> length salted = derived_key_len
          \<and> scram_finish st server_first first salted = (client_final, expected)
          \<and> sasl_response client_final = Inr final
          \<and> hears auth_code_sasl_final server_final s1 s2
          \<and> verify_server_final server_final expected = Inr ()
          \<and> hears auth_code_ok [] s2 rest
          \<and> sent = initial @ final \<and> iterations = sf_iterations first)"

lemma scram_begin_step: "scram_begin user nonces = Inr (st, bare) \<Longrightarrow> sc_step st = StepBegun"
  by (auto simp: scram_begin_def rbind_Inr_iff Let_def)

lemma scram_continue_begun:
  assumes "sc_step st = StepBegun"
  shows "scram_continue raw (Some f) st = (Inr cf, st2) \<longleftrightarrow>
    (\<exists>first salted expected. parse_server_first raw (sc_nonce st) = Inr first
       \<and> f (sf_salt first) (sf_iterations first) = Some salted \<and> length salted = derived_key_len
       \<and> scram_finish st raw first salted = (cf, expected)
       \<and> st2 = \<lparr>sc_step = StepContinued, sc_first_bare = [], sc_nonce = [], sc_expected = expected\<rparr>)"
  using assms by (auto simp: scram_continue_def split: sum.splits option.splits prod.splits)

lemma scram_verify_Inr:
  assumes "sc_step st = StepContinued"
  shows "(\<exists>st3. scram_verify raw st = (Inr (), st3)) \<longleftrightarrow> verify_server_final raw (sc_expected st) = Inr ()"
  using assms by (auto simp: scram_verify_def split: sum.splits)

lemma pg_conn_chain:
  "c1 = c\<lparr>pg_sent := a\<rparr> \<Longrightarrow> c2 = c1\<lparr>pg_rest := r\<rparr> \<Longrightarrow> c3 = c2\<lparr>pg_sent := pg_sent c2 @ b\<rparr>
    \<Longrightarrow> c' = c3\<lparr>pg_rest := r'\<rparr> \<Longrightarrow> c' = c\<lparr>pg_rest := r', pg_sent := a @ b\<rparr>"
  by simp

lemma pg_write_all_Inr:
  "pg_write_all b c = (Inr (), c') \<longleftrightarrow> pg_write_end c = None \<and> c' = c\<lparr>pg_sent := pg_sent c @ b\<rparr>"
  by (auto simp: pg_write_all_def split: option.splits)

lemma finish_scram_None:
  "finish_scram n st c = (out, None, c') \<longleftrightarrow>
     (\<exists>server_final st3 s. hears auth_code_sasl_final server_final (pg_rest c) s
        \<and> scram_verify server_final st = (Inr (), st3) \<and> hears auth_code_ok [] s (pg_rest c')
        \<and> out = \<lparr>ps_iterations = n, ps_verified = True, ps_complete = True, ps_fields = no_fields\<rparr>
        \<and> c' = c\<lparr>pg_rest := pg_rest c'\<rparr>)"
proof -
  have "finish_scram n st c = (out, None, c') \<longleftrightarrow>
     (\<exists>server_final c1 st3. read_sasl_payload auth_code_sasl_final c = (Inr server_final, c1)
        \<and> scram_verify server_final st = (Inr (), st3) \<and> read_authentication_ok c1 = (Inr (), c')
        \<and> out = \<lparr>ps_iterations = n, ps_verified = True, ps_complete = True, ps_fields = no_fields\<rparr>)"
    by (auto simp: finish_scram_def Let_def pg_scram_zero_def split: prod.splits sum.splits)
  also have "\<dots> \<longleftrightarrow> (\<exists>server_final st3 s. hears auth_code_sasl_final server_final (pg_rest c) s
        \<and> scram_verify server_final st = (Inr (), st3) \<and> hears auth_code_ok [] s (pg_rest c')
        \<and> out = \<lparr>ps_iterations = n, ps_verified = True, ps_complete = True, ps_fields = no_fields\<rparr>
        \<and> c' = c\<lparr>pg_rest := pg_rest c'\<rparr>)" (is "?A \<longleftrightarrow> ?B")
  proof
    assume ?A
    then obtain f c1 st3 where "hears auth_code_sasl_final f (pg_rest c) (pg_rest c1)" "c1 = c\<lparr>pg_rest := pg_rest c1\<rparr>"
        "scram_verify f st = (Inr (), st3)" "hears auth_code_ok [] (pg_rest c1) (pg_rest c')"
        "c' = c1\<lparr>pg_rest := pg_rest c'\<rparr>"
        "out = \<lparr>ps_iterations = n, ps_verified = True, ps_complete = True, ps_fields = no_fields\<rparr>"
      unfolding read_sasl_payload_Inr read_authentication_ok_Inr by blast
    then show ?B by (metis pg_conn.surjective pg_conn.update_convs(1))
  next
    assume ?B
    then obtain f st3 s where f: "hears auth_code_sasl_final f (pg_rest c) s"
        "scram_verify f st = (Inr (), st3)" "hears auth_code_ok [] s (pg_rest c')"
        "c' = c\<lparr>pg_rest := pg_rest c'\<rparr>"
        "out = \<lparr>ps_iterations = n, ps_verified = True, ps_complete = True, ps_fields = no_fields\<rparr>" by blast
    then have "read_sasl_payload auth_code_sasl_final c = (Inr f, c\<lparr>pg_rest := s\<rparr>)"
      "read_authentication_ok (c\<lparr>pg_rest := s\<rparr>) = (Inr (), c')"
      by (simp_all add: read_sasl_payload_Inr read_authentication_ok_Inr)
    then show ?A using f by blast
  qed
  finally show ?thesis .
qed

text \<open>C21: The SCRAM exchange over the PostgreSQL messages succeeds exactly for the conversations of the grammar
  above: it takes exactly those bytes from the stream, sends exactly its two messages, and reports the
  iterations the server asked for, with the signature verified and the exchange complete. It never reports a
  complete exchange with an error or without a verified signature, and a password outside the
  prepared range sends nothing.\<close>

theorem authenticate_scram_exact:
  "(authenticate_scram password nonces pbkdf2 c = (out, None, c') \<longleftrightarrow>
      pg_write_end c = None
      \<and> (\<exists>sent. authenticates password nonces pbkdf2 (pg_rest c) (pg_rest c') sent (ps_iterations out)
           \<and> c' = c\<lparr>pg_rest := pg_rest c', pg_sent := pg_sent c @ sent\<rparr>)
      \<and> out = \<lparr>ps_iterations = ps_iterations out, ps_verified = True, ps_complete = True, ps_fields = no_fields\<rparr>)
   \<and> (case authenticate_scram password nonces pbkdf2 c of (o1, err, c1) \<Rightarrow>
        ps_complete o1 = (err = None) \<and> (\<not> (ps_complete o1 \<and> \<not> ps_verified o1))
        \<and> (\<not> (\<not> printable_ascii password \<and> \<not> (err = Some PgPasswordUnsupported \<and> c1 = c))))"
proof
  let ?A = "authenticate_scram password nonces pbkdf2 c = (out, None, c')"
  have "?A \<longleftrightarrow> printable_ascii password \<and>
     (\<exists>st bare initial c1 server_first c2 client_final st2 final c3.
        scram_begin [] nonces = Inr (st, bare) \<and> sasl_initial_response (gs2_header @ bare) = Inr initial
        \<and> pg_write_all initial c = (Inr (), c1)
        \<and> read_sasl_payload auth_code_sasl_continue c1 = (Inr server_first, c2)
        \<and> scram_continue server_first (Some (pbkdf2 password)) st = (Inr client_final, st2)
        \<and> sasl_response client_final = Inr final \<and> pg_write_all final c2 = (Inr (), c3)
        \<and> finish_scram (asked_iterations server_first st) st2 c3 = (out, None, c'))"
    by (auto simp: authenticate_scram_def Let_def split: prod.splits sum.splits)
  note A = this
  let ?B = "pg_write_end c = None
      \<and> (\<exists>sent. authenticates password nonces pbkdf2 (pg_rest c) (pg_rest c') sent (ps_iterations out)
           \<and> c' = c\<lparr>pg_rest := pg_rest c', pg_sent := pg_sent c @ sent\<rparr>)
      \<and> out = \<lparr>ps_iterations = ps_iterations out, ps_verified = True, ps_complete = True, ps_fields = no_fields\<rparr>"
  show "?A \<longleftrightarrow> ?B"
  proof
    assume ?A
    then obtain st bare initial c1 sf c2 cf st2 final c3 where a: "printable_ascii password"
        "scram_begin [] nonces = Inr (st, bare)" "sasl_initial_response (gs2_header @ bare) = Inr initial"
        "pg_write_all initial c = (Inr (), c1)"
        "read_sasl_payload auth_code_sasl_continue c1 = (Inr sf, c2)"
        "scram_continue sf (Some (pbkdf2 password)) st = (Inr cf, st2)"
        "sasl_response cf = Inr final" "pg_write_all final c2 = (Inr (), c3)"
        "finish_scram (asked_iterations sf st) st2 c3 = (out, None, c')"
      unfolding A by blast
    obtain first salted expected where f: "parse_server_first sf (sc_nonce st) = Inr first"
        "pbkdf2 password (sf_salt first) (sf_iterations first) = Some salted" "length salted = derived_key_len"
        "scram_finish st sf first salted = (cf, expected)"
        "st2 = \<lparr>sc_step = StepContinued, sc_first_bare = [], sc_nonce = [], sc_expected = expected\<rparr>"
      using a(6) unfolding scram_continue_begun [OF scram_begin_step [OF a(2)]] by blast
    have w: "pg_write_end c = None" "c1 = c\<lparr>pg_sent := pg_sent c @ initial\<rparr>"
        "c3 = c2\<lparr>pg_sent := pg_sent c2 @ final\<rparr>"
      using a(4,8) by (simp_all add: pg_write_all_Inr)
    have h: "hears auth_code_sasl_continue sf (pg_rest c) (pg_rest c2)" "c2 = c1\<lparr>pg_rest := pg_rest c2\<rparr>"
      using a(5) w(2) by (simp_all add: read_sasl_payload_Inr)
    obtain svf st3 s where fin: "hears auth_code_sasl_final svf (pg_rest c3) s" "scram_verify svf st2 = (Inr (), st3)"
        "hears auth_code_ok [] s (pg_rest c')" "c' = c3\<lparr>pg_rest := pg_rest c'\<rparr>"
        "out = \<lparr>ps_iterations = asked_iterations sf st, ps_verified = True, ps_complete = True, ps_fields = no_fields\<rparr>"
      using a(9) unfolding finish_scram_None by blast
    have "verify_server_final svf expected = Inr ()"
      using fin(2) scram_verify_Inr [of st2 svf] f(5) by auto
    moreover have it: "ps_iterations out = sf_iterations first" by (simp add: fin(5) asked_iterations_def f(1))
    moreover have "hears auth_code_sasl_final svf (pg_rest c2) s" using fin(1) w(3) by simp
    ultimately have "authenticates password nonces pbkdf2 (pg_rest c) (pg_rest c') (initial @ final) (ps_iterations out)"
      unfolding authenticates_def it using a(1,2,3,7) f(1-4) h(1) fin(3) by blast
    moreover have "c' = c\<lparr>pg_rest := pg_rest c', pg_sent := pg_sent c @ initial @ final\<rparr>"
      using pg_conn_chain [OF w(2) h(2) w(3) fin(4)] by simp
    ultimately show ?B using w(1) fin(5) by auto
  next
    assume b: ?B
    then obtain sent where auth: "authenticates password nonces pbkdf2 (pg_rest c) (pg_rest c') sent (ps_iterations out)"
        and c': "c' = c\<lparr>pg_rest := pg_rest c', pg_sent := pg_sent c @ sent\<rparr>" by blast
    from auth obtain st bare sf first salted cf expected svf initial final s1 s2 where a: "printable_ascii password"
        "scram_begin [] nonces = Inr (st, bare)" "sasl_initial_response (gs2_header @ bare) = Inr initial"
        "hears auth_code_sasl_continue sf (pg_rest c) s1" "parse_server_first sf (sc_nonce st) = Inr first"
        "pbkdf2 password (sf_salt first) (sf_iterations first) = Some salted" "length salted = derived_key_len"
        "scram_finish st sf first salted = (cf, expected)" "sasl_response cf = Inr final"
        "hears auth_code_sasl_final svf s1 s2" "verify_server_final svf expected = Inr ()"
        "hears auth_code_ok [] s2 (pg_rest c')" "sent = initial @ final" "ps_iterations out = sf_iterations first"
      unfolding authenticates_def by blast
    define st2 where "st2 = \<lparr>sc_step = StepContinued, sc_first_bare = [], sc_nonce = [], sc_expected = expected\<rparr>"
    define c1 where "c1 = c\<lparr>pg_sent := pg_sent c @ initial\<rparr>"
    define c2 where "c2 = c1\<lparr>pg_rest := s1\<rparr>"
    define c3 where "c3 = c2\<lparr>pg_sent := pg_sent c2 @ final\<rparr>"
    have "pg_write_all initial c = (Inr (), c1)" "pg_write_all final c2 = (Inr (), c3)"
      using b by (simp_all add: pg_write_all_Inr c1_def c2_def c3_def)
    moreover have "read_sasl_payload auth_code_sasl_continue c1 = (Inr sf, c2)"
      using a(4) by (simp add: read_sasl_payload_Inr c1_def c2_def)
    note steps = calculation this
    have cont: "scram_continue sf (Some (pbkdf2 password)) st = (Inr cf, st2)"
      unfolding scram_continue_begun [OF scram_begin_step [OF a(2)]] st2_def using a(5-8) by blast
    obtain st3 where "scram_verify svf st2 = (Inr (), st3)"
      using scram_verify_Inr [of st2 svf] a(11) by (auto simp: st2_def)
    then have v: "scram_verify svf st2 = (Inr (), st3)" .
    have "c' = c3\<lparr>pg_rest := pg_rest c'\<rparr>"
      using c' a(13) unfolding c3_def c2_def c1_def by (cases c, cases c') auto
    moreover have "hears auth_code_sasl_final svf (pg_rest c3) s2" using a(10) by (simp add: c3_def c2_def)
    moreover have "out = \<lparr>ps_iterations = asked_iterations sf st, ps_verified = True, ps_complete = True, ps_fields = no_fields\<rparr>"
      using b a(5,14) by (simp add: asked_iterations_def)
    ultimately have "finish_scram (asked_iterations sf st) st2 c3 = (out, None, c')"
      unfolding finish_scram_None using a(12) v by blast
    then show ?A unfolding A using steps a(1-3,9) cont by blast
  qed
  show "case authenticate_scram password nonces pbkdf2 c of (o1, err, c1) \<Rightarrow>
        ps_complete o1 = (err = None) \<and> (\<not> (ps_complete o1 \<and> \<not> ps_verified o1))
        \<and> (\<not> (\<not> printable_ascii password \<and> \<not> (err = Some PgPasswordUnsupported \<and> c1 = c)))"
    by (auto simp: authenticate_scram_def finish_scram_def pg_scram_zero_def Let_def split: prod.splits sum.splits)
qed

end
