(* ===== verification/RespGrammar.thy ===== *)
theory RespGrammar
  imports Resp
begin

text \<open>
  The grammar of RESP2 replies within the reader's bounds, and the proof that the reader of \<open>Resp\<close>
  recognises exactly it. \<open>resp d bytes v\<close>: the bytes are the reply \<open>v\<close> at nesting depth \<open>d\<close>.
  \<open>overflows d bytes\<close>: the bytes lead the reader to a bulk header whose length, with the two bytes of
  the terminator added, is no longer an \<open>int\<close>. Both are stated without the reader.
\<close>

abbreviation crlf :: string where "crlf \<equiv> [CR, LF]"

inductive resp :: "nat \<Rightarrow> string \<Rightarrow> reply \<Rightarrow> bool"
  and resp_seq :: "nat \<Rightarrow> string \<Rightarrow> reply list \<Rightarrow> bool" where
  simple: "d \<le> max_depth \<Longrightarrow> LF \<notin> set s \<Longrightarrow> resp d (CHR ''+'' # s @ crlf) (SimpleStringReply s)"
| error: "d \<le> max_depth \<Longrightarrow> LF \<notin> set s \<Longrightarrow> resp d (CHR ''-'' # s @ crlf) (ErrorReply s)"
| integer: "d \<le> max_depth \<Longrightarrow> parse_int64 s = Some n \<Longrightarrow> resp d (CHR '':'' # s @ crlf) (IntegerReply n)"
| null_bulk: "d \<le> max_depth \<Longrightarrow> parse_int64 s = Some (-1) \<Longrightarrow> resp d (CHR ''$'' # s @ crlf) NullBulk"
| bulk: "d \<le> max_depth \<Longrightarrow> parse_int64 s = Some (int (length body)) \<Longrightarrow>
    resp d (CHR ''$'' # s @ crlf @ body @ crlf) (BulkReply body)"
| null_array: "d \<le> max_depth \<Longrightarrow> parse_int64 s = Some (-1) \<Longrightarrow> resp d (CHR ''*'' # s @ crlf) NullArray"
| array: "d \<le> max_depth \<Longrightarrow> parse_int64 s = Some (int (length vs)) \<Longrightarrow>
    int (length vs) \<le> max_array_elements \<Longrightarrow> resp_seq d body vs \<Longrightarrow>
    resp d (CHR ''*'' # s @ crlf @ body) (ArrayReply vs)"
| seq_Nil: "resp_seq d [] []"
| seq_Cons: "resp (d + 1) p v \<Longrightarrow> resp_seq d ps vs \<Longrightarrow> resp_seq d (p @ ps) (v # vs)"

inductive overflows :: "nat \<Rightarrow> string \<Rightarrow> bool" where
  header: "d \<le> max_depth \<Longrightarrow> parse_int64 s = Some n \<Longrightarrow> 2 ^ 63 \<le> n + 2 \<Longrightarrow>
    overflows d (CHR ''$'' # s @ crlf)"
| element: "d \<le> max_depth \<Longrightarrow> parse_int64 s = Some n \<Longrightarrow> n \<le> max_array_elements \<Longrightarrow>
    resp_seq d ps vs \<Longrightarrow> int (length vs) < n \<Longrightarrow> overflows (d + 1) p \<Longrightarrow>
    overflows d (CHR ''*'' # s @ crlf @ ps @ p)"

inductive_simps resp_Cons: "resp d (c # bytes) v"
inductive_simps resp_seq_Nil: "resp_seq d bytes []"
inductive_simps resp_seq_Cons: "resp_seq d bytes (v # vs)"
inductive_simps overflows_Cons: "overflows d (c # bytes)"

lemma resp_not_empty: "\<not> resp d [] v"
  by (auto elim: resp.cases)

lemma overflows_not_empty: "\<not> overflows d []"
  by (auto elim: overflows.cases)

lemma resp_depth: "resp d bytes v \<Longrightarrow> d \<le> max_depth"
  by (erule resp.cases) simp_all

lemma overflows_depth: "overflows d bytes \<Longrightarrow> d \<le> max_depth"
  by (erule overflows.cases) simp_all

subsection \<open>Taking bytes from a reader\<close>

definition budget_ok :: "reader \<Rightarrow> bool" where
  "budget_ok r \<longleftrightarrow> 0 \<le> rd_remaining r \<and> rd_remaining r \<le> max_reply_size"

definition took :: "reader \<Rightarrow> string \<Rightarrow> reader \<Rightarrow> bool" where
  "took r bytes s \<longleftrightarrow> rd_rest r = bytes @ rd_rest s
     \<and> rd_end s = rd_end r \<and> rd_remaining s = rd_remaining r - int (length bytes)
     \<and> int (length bytes) \<le> rd_remaining r"

lemma took_budget: "budget_ok r \<Longrightarrow> took r bytes s \<Longrightarrow> budget_ok s"
  by (cases s) (auto simp: took_def budget_ok_def)

lemma took_Nil [simp]: "took r [] s \<longleftrightarrow> s = r \<and> 0 \<le> rd_remaining r"
  by (cases r; cases s) (auto simp: took_def)

lemma took_append: "took r (a @ b) t \<longleftrightarrow> (\<exists>s. took r a s \<and> took s b t)"
proof
  assume t: "took r (a @ b) t"
  let ?s = "r\<lparr>rd_rest := b @ rd_rest t, rd_remaining := rd_remaining r - int (length a)\<rparr>"
  have "took r a ?s \<and> took ?s b t"
    using t by (simp add: took_def)
  then show "\<exists>s. took r a s \<and> took s b t" by blast
next
  assume "\<exists>s. took r a s \<and> took s b t"
  then show "took r (a @ b) t"
    by (auto simp: took_def)
qed

lemma took_Cons: "took r (c # b) t \<longleftrightarrow> (\<exists>s. took r [c] s \<and> took s b t)"
  using took_append [of r "[c]" b t] by simp

lemma spend_ok:
  assumes "budget_ok r" "0 \<le> n"
  shows "spend n r = (if rd_remaining r < n then Refused ErrReplyTooLarge r
      else Read () (r\<lparr>rd_remaining := rd_remaining r - n\<rparr>))"
  using assms int64_id [of "rd_remaining r - n"]
  by (auto simp: spend_def budget_ok_def in_int64_def max_reply_size_def)

text \<open>One byte, read and paid for.\<close>

definition take_byte :: "reader \<Rightarrow> char read_result" where
  "take_byte r = then_read (read_byte r) (\<lambda>b r1. then_read (spend 1 r1) (\<lambda>_. Read b))"

lemma take_byte_fold:
  "then_read (read_byte r) (\<lambda>b r1. then_read (spend 1 r1) (\<lambda>_ r2. f b r2)) = then_read (take_byte r) f"
  by (simp add: take_byte_def then_read_def split: read_result.splits)

lemma take_byte_Read:
  assumes "budget_ok r"
  shows "take_byte r = Read b s \<longleftrightarrow> took r [b] s"
proof (cases "rd_rest r")
  case Nil
  then show ?thesis by (simp add: take_byte_def read_byte_def took_def)
next
  case (Cons c cs)
  have "budget_ok (r\<lparr>rd_rest := cs\<rparr>)" using assms by (simp add: budget_ok_def)
  then show ?thesis
    using Cons by (cases r; cases s) (auto simp: take_byte_def read_byte_def spend_ok took_def)
qed

lemma take_byte_no_panic [simp]: "take_byte r \<noteq> Panics"
  by (auto simp: take_byte_def read_byte_def spend_def split: list.splits)

subsection \<open>Lines\<close>

lemma read_line_from_step:
  "read_line_from line r = then_read (take_byte r) (\<lambda>b r2.
       if b = LF
       then if line = [] \<or> last line \<noteq> CR then Refused ErrMalformedReply r2
            else Read (butlast line) r2
       else read_line_from (line @ [b]) r2)"
  by (subst read_line_from.simps) (simp add: take_byte_fold)

lemma read_line_from_sound:
  "budget_ok r \<Longrightarrow> read_line_from line r = Read t s \<Longrightarrow>
     \<exists>rest. line @ rest = t @ [CR] \<and> LF \<notin> set rest \<and> took r (rest @ [LF]) s"
proof (induction line r rule: read_line_from.induct)
  case (1 line r)
  from 1(3) obtain b r2 where b: "take_byte r = Read b r2"
    and rest: "(if b = LF then if line = [] \<or> last line \<noteq> CR then Refused ErrMalformedReply r2
            else Read (butlast line) r2 else read_line_from (line @ [b]) r2) = Read t s"
    by (subst (asm) read_line_from_step) (auto simp: then_read_Read)
  have tb: "took r [b] r2" and ok: "budget_ok r2"
    using b 1(2) take_byte_Read took_budget by auto
  show ?case
  proof (cases "b = LF")
    case True
    then have l: "line \<noteq> []" "last line = CR" "t = butlast line" "r2 = s"
      using rest by (auto split: if_splits)
    have "line = t @ [CR]"
      using append_butlast_last_id [OF l(1)] l(2,3) by simp
    then show ?thesis
      using tb True l(4) by (intro exI [of _ "[]"]) simp
  next
    case False
    obtain r1 where steps: "read_byte r = Read b r1" "spend 1 r1 = Read () r2"
      using b by (auto simp: take_byte_def then_read_Read)
    obtain rest' where rest': "(line @ [b]) @ rest' = t @ [CR]" "LF \<notin> set rest'"
        "took r2 (rest' @ [LF]) s"
      using 1(1) [OF steps False ok] rest False by auto
    have "took r (b # rest' @ [LF]) s"
      using tb rest'(3) took_Cons by blast
    then show ?thesis
      using False rest' by (intro exI [of _ "b # rest'"]) simp
  qed
qed

lemma read_line_from_complete:
  "budget_ok r \<Longrightarrow> line @ rest = t @ [CR] \<Longrightarrow> LF \<notin> set rest \<Longrightarrow> took r (rest @ [LF]) s \<Longrightarrow>
     read_line_from line r = Read t s"
proof (induction rest arbitrary: line r)
  case Nil
  then have "take_byte r = Read LF s" by (simp add: take_byte_Read)
  then show ?case
    using Nil(2) by (subst read_line_from_step) simp
next
  case (Cons b rest)
  obtain r2 where r2: "took r [b] r2" "took r2 (rest @ [LF]) s"
    using Cons.prems(4) took_Cons [of r b "rest @ [LF]" s] by auto
  then have "take_byte r = Read b r2" using Cons.prems(1) by (simp add: take_byte_Read)
  moreover have "read_line_from (line @ [b]) r2 = Read t s"
    using Cons.IH [of r2 "line @ [b]"] Cons.prems r2 took_budget by auto
  ultimately show ?case
    using Cons.prems(3) by (subst read_line_from_step) auto
qed

lemma read_line_Read:
  assumes "budget_ok r"
  shows "read_line r = Read t s \<longleftrightarrow> LF \<notin> set t \<and> took r (t @ crlf) s"
proof
  assume "read_line r = Read t s"
  then obtain rest where "rest = t @ [CR]" "LF \<notin> set rest" "took r (rest @ [LF]) s"
    using read_line_from_sound [OF assms, of "[]" t s] by (auto simp: read_line_def)
  then show "LF \<notin> set t \<and> took r (t @ crlf) s" by simp
next
  assume "LF \<notin> set t \<and> took r (t @ crlf) s"
  then show "read_line r = Read t s"
    using read_line_from_complete [OF assms, of "[]" "t @ [CR]" t s] by (simp add: read_line_def)
qed

lemma read_line_from_no_panic: "read_line_from line r \<noteq> Panics"
proof (induction line r rule: read_line_from.induct)
  case (1 line r)
  show ?case
  proof
    assume "read_line_from line r = Panics"
    then obtain b r2 where b: "take_byte r = Read b r2" "b \<noteq> LF" "read_line_from (line @ [b]) r2 = Panics"
      by (subst (asm) read_line_from_step) (auto simp: then_read_Panics split: if_splits)
    obtain r1 where "read_byte r = Read b r1" "spend 1 r1 = Read () r2"
      using b by (auto simp: take_byte_def then_read_Read)
    then show False using 1 b by blast
  qed
qed

lemma read_line_no_panic [simp]: "read_line r \<noteq> Panics"
  by (simp add: read_line_def read_line_from_no_panic)

subsection \<open>Bulk strings\<close>

lemma parse_no_LF: "parse_int64 s = Some n \<Longrightarrow> LF \<notin> set s"
  using parse_int64_chars [of s n] by (auto simp: is_digit_def dest!: bspec [of _ _ LF])

lemma read_full_Read:
  "read_full n r = Read bs s \<longleftrightarrow> length bs = n \<and> rd_rest r = bs @ rd_rest s
     \<and> rd_end s = rd_end r \<and> rd_remaining s = rd_remaining r"
proof (cases "length (rd_rest r) < n")
  case False
  then show ?thesis
    by (cases r; cases s) (auto simp: read_full_def intro: append_take_drop_id [symmetric])
qed (auto simp: read_full_def)

text \<open>What follows the length of a bulk string, once the length is known.\<close>

definition read_body :: "int \<Rightarrow> reader \<Rightarrow> reply read_result" where
  "read_body n r1 =
     then_read (spend (int64 (n + 2)) r1) (\<lambda>_ r2.
       if int64 (n + 2) < 0 then Panics
       else then_read (read_full (nat (int64 (n + 2))) r2) (\<lambda>body r3.
         if body ! nat n \<noteq> CR \<or> body ! (nat n + 1) \<noteq> LF then Refused ErrMalformedReply r3
         else Read (BulkReply (take (nat n) body)) r3))"

lemma read_body_overflow:
  assumes "budget_ok r" "in_int64 n" "2 ^ 63 \<le> n + 2"
  shows "read_body n r = Panics"
proof -
  have "int64 (n + 2) = n + 2 - 2 ^ 64"
    by (rule int64_overflow) (use assms in \<open>simp_all add: in_int64_def\<close>)
  then have "int64 (n + 2) < 0" "\<not> rd_remaining r < int64 (n + 2)"
    using assms by (simp_all add: in_int64_def budget_ok_def)
  then show ?thesis by (simp add: read_body_def spend_def)
qed

lemma read_body_exact:
  assumes r: "budget_ok r" and n: "0 \<le> n" "n + 2 < 2 ^ 63"
  shows "read_body n r \<noteq> Panics"
    and "read_body n r = Read v s \<longleftrightarrow>
      (\<exists>body. v = BulkReply body \<and> int (length body) = n \<and> took r (body @ crlf) s)"
proof -
  have i: "int64 (n + 2) = n + 2" using n by (simp add: int64_id in_int64_def)
  have s: "spend (n + 2) r = (if rd_remaining r < n + 2 then Refused ErrReplyTooLarge r
      else Read () (r\<lparr>rd_remaining := rd_remaining r - (n + 2)\<rparr>))"
    using r n by (intro spend_ok) auto
  have full: "read_full k q \<noteq> Panics" for k q by (simp add: read_full_def)
  show "read_body n r \<noteq> Panics"
    using n full by (auto simp: read_body_def i s then_read_Panics split: if_splits)
  show "read_body n r = Read v s \<longleftrightarrow>
      (\<exists>body. v = BulkReply body \<and> int (length body) = n \<and> took r (body @ crlf) s)"
  proof
    assume "read_body n r = Read v s"
    then obtain bs where bs: "\<not> rd_remaining r < n + 2" "length bs = nat (n + 2)"
        "rd_rest r = bs @ rd_rest s" "rd_end s = rd_end r" "rd_remaining s = rd_remaining r - (n + 2)"
        "bs ! nat n = CR" "bs ! (nat n + 1) = LF" "v = BulkReply (take (nat n) bs)"
      using n by (auto simp: read_body_def i s then_read_Read read_full_Read split: if_splits)
    have "bs = take (nat n) bs @ crlf"
    proof (rule nth_equalityI)
      fix j assume "j < length bs"
      then have "j < nat n \<or> j = nat n \<or> j = nat n + 1" using bs(2) n by linarith
      then show "bs ! j = (take (nat n) bs @ crlf) ! j"
        using bs(2,6,7) n by (auto simp: nth_append)
    qed (use bs(2) n in simp)
    then have "took r (take (nat n) bs @ crlf) s"
      using bs n by (simp add: took_def)
    then show "\<exists>body. v = BulkReply body \<and> int (length body) = n \<and> took r (body @ crlf) s"
      using bs n by (intro exI [of _ "take (nat n) bs"]) simp
  next
    assume "\<exists>body. v = BulkReply body \<and> int (length body) = n \<and> took r (body @ crlf) s"
    then obtain body where b: "v = BulkReply body" "int (length body) = n" "took r (body @ crlf) s"
      by blast
    let ?r2 = "r\<lparr>rd_remaining := rd_remaining r - (n + 2)\<rparr>"
    have "read_full (nat (n + 2)) ?r2 = Read (body @ crlf) s"
      using b by (auto simp: read_full_Read took_def)
    moreover have "nat n = length body" using b(2) by simp
    moreover have "\<not> rd_remaining r < n + 2" using b(2,3) by (simp add: took_def)
    ultimately show "read_body n r = Read v s"
      using b(1) n by (simp add: read_body_def i s nth_append)
  qed
qed

lemma read_bulk_step:
  "read_bulk r = then_read (read_line r) (\<lambda>line r1. case parse_int64 line of
       None \<Rightarrow> Refused ErrMalformedReply r1
     | Some n \<Rightarrow> if n = -1 then Read NullBulk r1
         else if n < 0 then Refused ErrMalformedReply r1 else read_body n r1)"
  unfolding read_bulk_def read_body_def by (rule refl)

subsection \<open>Frames\<close>

definition array_body :: "nat \<Rightarrow> string \<Rightarrow> reader \<Rightarrow> reply read_result" where
  "array_body depth line r3 = (case parse_int64 line of
       None \<Rightarrow> Refused ErrMalformedReply r3
     | Some n \<Rightarrow>
         if n = -1 then Read NullArray r3
         else if n < 0 then Refused ErrMalformedReply r3
         else if max_array_elements < n then Refused ErrReplyTooLarge r3
         else then_read (read_elements depth (nat n) [] r3) (\<lambda>vs. Read (ArrayReply vs)))"

definition frame_body :: "nat \<Rightarrow> char \<Rightarrow> reader \<Rightarrow> reply read_result" where
  "frame_body depth prefix r2 =
     (if prefix = CHR ''+'' then then_read (read_line r2) (\<lambda>line. Read (SimpleStringReply line))
      else if prefix = CHR ''-'' then then_read (read_line r2) (\<lambda>line. Read (ErrorReply line))
      else if prefix = CHR '':'' then then_read (read_line r2) (\<lambda>line r3.
        case parse_int64 line of
          None \<Rightarrow> Refused ErrMalformedReply r3
        | Some n \<Rightarrow> Read (IntegerReply n) r3)
      else if prefix = CHR ''$'' then read_bulk r2
      else if prefix = CHR ''*'' then then_read (read_line r2) (array_body depth)
      else Refused ErrMalformedReply r2)"

lemma read_frame_step:
  "read_frame depth r = (if max_depth < depth then Refused ErrReplyTooLarge r
     else then_read (take_byte r) (frame_body depth))"
  by (subst read_frame.simps)
    (simp only: take_byte_fold frame_body_def [abs_def] array_body_def [abs_def] read_array.simps)

definition frame_exact :: "nat \<Rightarrow> bool" where
  "frame_exact d \<longleftrightarrow> (\<forall>r. budget_ok r \<longrightarrow>
     (\<forall>v s. read_frame d r = Read v s \<longleftrightarrow> (\<exists>bytes. resp d bytes v \<and> took r bytes s))
     \<and> (read_frame d r = Panics \<longleftrightarrow> (\<exists>bytes s. overflows d bytes \<and> took r bytes s)))"

lemma frame_exactD:
  assumes "frame_exact d" "budget_ok r"
  shows "read_frame d r = Read v s \<longleftrightarrow> (\<exists>bytes. resp d bytes v \<and> took r bytes s)"
    and "read_frame d r = Panics \<longleftrightarrow> (\<exists>bytes s. overflows d bytes \<and> took r bytes s)"
  using assms by (auto simp: frame_exact_def)

lemma read_elements_Read:
  assumes f: "frame_exact (d + 1)"
  shows "budget_ok r \<Longrightarrow> read_elements d n out r = Read vs s \<longleftrightarrow>
    (\<exists>bytes ws. length ws = n \<and> vs = out @ ws \<and> resp_seq d bytes ws \<and> took r bytes s)"
proof (induction n arbitrary: out r)
  case 0
  then show ?case by (auto simp: resp_seq_Nil budget_ok_def)
next
  case (Suc n)
  define C where "C v r2 \<longleftrightarrow> (\<exists>bytes ws. length ws = n \<and> vs = (out @ [v]) @ ws
      \<and> resp_seq d bytes ws \<and> took r2 bytes s)" for v r2
  have ih: "read_elements d n (out @ [v]) r2 = Read vs s \<longleftrightarrow> C v r2" if "took r p r2" for v r2 p
    using Suc.IH took_budget [OF Suc.prems that] by (simp add: C_def)
  have "read_elements d (Suc n) out r = Read vs s \<longleftrightarrow>
      (\<exists>v r2. read_frame (d + 1) r = Read v r2 \<and> read_elements d n (out @ [v]) r2 = Read vs s)"
    by (simp add: then_read_Read)
  also have "\<dots> \<longleftrightarrow> (\<exists>v r2 p. resp (d + 1) p v \<and> took r p r2 \<and> C v r2)"
    unfolding frame_exactD(1) [OF f Suc.prems] using ih by blast
  also have "\<dots> \<longleftrightarrow> (\<exists>bytes ws. length ws = Suc n \<and> vs = out @ ws \<and> resp_seq d bytes ws \<and> took r bytes s)"
  proof
    assume "\<exists>v r2 p. resp (d + 1) p v \<and> took r p r2 \<and> C v r2"
    then obtain v r2 p bytes ws where "resp (d + 1) p v" "took r p r2" "length ws = n"
        "vs = (out @ [v]) @ ws" "resp_seq d bytes ws" "took r2 bytes s"
      unfolding C_def by blast
    then show "\<exists>bytes ws. length ws = Suc n \<and> vs = out @ ws \<and> resp_seq d bytes ws \<and> took r bytes s"
      by (intro exI [of _ "p @ bytes"] exI [of _ "v # ws"]) (auto intro: seq_Cons simp: took_append)
  next
    assume "\<exists>bytes ws. length ws = Suc n \<and> vs = out @ ws \<and> resp_seq d bytes ws \<and> took r bytes s"
    then obtain bytes v ws where *: "length ws = n" "vs = out @ v # ws" "resp_seq d bytes (v # ws)"
        "took r bytes s" by (auto simp: length_Suc_conv)
    from *(3) obtain p ps where p: "bytes = p @ ps" "resp (d + 1) p v" "resp_seq d ps ws"
      by (auto simp: resp_seq_Cons)
    obtain r2 where r2: "took r p r2" "took r2 ps s"
      using *(4) p(1) took_append by blast
    have "C v r2" unfolding C_def using * p r2 by auto
    then show "\<exists>v r2 p. resp (d + 1) p v \<and> took r p r2 \<and> C v r2" using p r2 by blast
  qed
  finally show ?case .
qed

lemma read_elements_Panics:
  assumes f: "frame_exact (d + 1)"
  shows "budget_ok r \<Longrightarrow> read_elements d n out r = Panics \<longleftrightarrow>
    (\<exists>ps ws p s. length ws < n \<and> resp_seq d ps ws \<and> overflows (d + 1) p \<and> took r (ps @ p) s)"
proof (induction n arbitrary: out r)
  case (Suc n)
  define stuck where "stuck r n \<longleftrightarrow> (\<exists>ps ws p s. length ws < n \<and> resp_seq d ps ws
      \<and> overflows (d + 1) p \<and> took r (ps @ p) s)" for r and n :: nat
  have ih: "read_elements d n (out @ [v]) r2 = Panics \<longleftrightarrow> stuck r2 n" if "took r p r2" for v r2 p
    using Suc.IH took_budget [OF Suc.prems that] by (simp add: stuck_def)
  have "read_elements d (Suc n) out r = Panics \<longleftrightarrow> read_frame (d + 1) r = Panics
      \<or> (\<exists>v r2. read_frame (d + 1) r = Read v r2 \<and> read_elements d n (out @ [v]) r2 = Panics)"
    by (simp add: then_read_Panics)
  also have "\<dots> \<longleftrightarrow> (\<exists>p s. overflows (d + 1) p \<and> took r p s)
      \<or> (\<exists>v r2 p. resp (d + 1) p v \<and> took r p r2 \<and> stuck r2 n)"
    unfolding frame_exactD [OF f Suc.prems] using ih by blast
  also have "\<dots> \<longleftrightarrow> stuck r (Suc n)"
  proof
    assume "(\<exists>p s. overflows (d + 1) p \<and> took r p s)
      \<or> (\<exists>v r2 p. resp (d + 1) p v \<and> took r p r2 \<and> stuck r2 n)"
    then show "stuck r (Suc n)"
      unfolding stuck_def [of r "Suc n"] stuck_def [of _ n]
    proof (elim disjE exE conjE)
      fix p s assume "overflows (d + 1) p" "took r p s"
      then show "\<exists>ps ws p s. length ws < Suc n \<and> resp_seq d ps ws \<and> overflows (d + 1) p \<and> took r (ps @ p) s"
        by (intro exI [of _ "[]"] exI [of _ p] exI [of _ s]) (simp add: resp_seq_Nil)
    next
      fix v r2 p ps ws q s
      assume "resp (d + 1) p v" "took r p r2" "length ws < n" "resp_seq d ps ws"
        "overflows (d + 1) q" "took r2 (ps @ q) s"
      then show "\<exists>ps ws p s. length ws < Suc n \<and> resp_seq d ps ws \<and> overflows (d + 1) p \<and> took r (ps @ p) s"
        by (intro exI [of _ "p @ ps"] exI [of _ "v # ws"] exI [of _ q] exI [of _ s])
          (auto intro: seq_Cons simp: took_append [of r p])
    qed
  next
    assume "stuck r (Suc n)"
    then obtain ps ws p s where *: "length ws < Suc n" "resp_seq d ps ws" "overflows (d + 1) p"
        "took r (ps @ p) s" unfolding stuck_def by blast
    show "(\<exists>p s. overflows (d + 1) p \<and> took r p s)
      \<or> (\<exists>v r2 p. resp (d + 1) p v \<and> took r p r2 \<and> stuck r2 n)"
    proof (cases ws)
      case Nil
      then show ?thesis using * by (auto simp: resp_seq_Nil)
    next
      case (Cons v vs)
      then obtain q qs where q: "ps = q @ qs" "resp (d + 1) q v" "resp_seq d qs vs"
        using *(2) by (auto simp: resp_seq_Cons)
      obtain r2 where "took r q r2" "took r2 (qs @ p) s"
        using *(4) q(1) by (auto simp: took_append [of r q])
      moreover from this have "stuck r2 n"
        unfolding stuck_def using q * Cons by auto
      ultimately show ?thesis using q by blast
    qed
  qed
  finally show ?case unfolding stuck_def .
qed simp

lemma array_body_exact:
  assumes f: "frame_exact (d + 1)" and d: "d \<le> max_depth" and r: "budget_ok r"
  shows "array_body d line r = Read v s \<longleftrightarrow>
      (parse_int64 line = Some (-1) \<and> v = NullArray \<and> s = r
       \<or> (\<exists>bytes vs. parse_int64 line = Some (int (length vs)) \<and> int (length vs) \<le> max_array_elements
            \<and> v = ArrayReply vs \<and> resp_seq d bytes vs \<and> took r bytes s))"
    and "array_body d line r = Panics \<longleftrightarrow>
      (\<exists>n ps vs p s. parse_int64 line = Some n \<and> n \<le> max_array_elements \<and> int (length vs) < n
         \<and> resp_seq d ps vs \<and> overflows (d + 1) p \<and> took r (ps @ p) s)"
proof -
  show "array_body d line r = Read v s \<longleftrightarrow>
      (parse_int64 line = Some (-1) \<and> v = NullArray \<and> s = r
       \<or> (\<exists>bytes vs. parse_int64 line = Some (int (length vs)) \<and> int (length vs) \<le> max_array_elements
            \<and> v = ArrayReply vs \<and> resp_seq d bytes vs \<and> took r bytes s))"
    by (auto simp: array_body_def then_read_Read read_elements_Read [OF f r] split: option.splits)
  show "array_body d line r = Panics \<longleftrightarrow>
      (\<exists>n ps vs p s. parse_int64 line = Some n \<and> n \<le> max_array_elements \<and> int (length vs) < n
         \<and> resp_seq d ps vs \<and> overflows (d + 1) p \<and> took r (ps @ p) s)" (is "_ \<longleftrightarrow> ?stuck")
  proof (cases "parse_int64 line")
    case (Some n)
    have "array_body d line r = Panics \<longleftrightarrow> 0 \<le> n \<and> n \<le> max_array_elements
        \<and> read_elements d (nat n) [] r = Panics"
      by (auto simp: array_body_def Some then_read_Panics)
    also have "\<dots> \<longleftrightarrow> ?stuck"
      unfolding read_elements_Panics [OF f r] zless_nat_eq_int_zless using Some
      by (intro iffI; elim exE conjE) (fastforce, force)
    finally show ?thesis .
  qed (simp add: array_body_def)
qed

lemma read_bulk_exact:
  assumes r: "budget_ok r"
  shows "read_bulk r = Read v s \<longleftrightarrow> (\<exists>t r1. took r (t @ crlf) r1
        \<and> (parse_int64 t = Some (-1) \<and> v = NullBulk \<and> s = r1
           \<or> (\<exists>body. parse_int64 t = Some (int (length body)) \<and> v = BulkReply body
                \<and> took r1 (body @ crlf) s)))" (is "_ \<longleftrightarrow> ?B")
    and "read_bulk r = Panics \<longleftrightarrow>
      (\<exists>t r1 n. took r (t @ crlf) r1 \<and> parse_int64 t = Some n \<and> 2 ^ 63 \<le> n + 2)"
proof -
  define g where "g t r1 = (case parse_int64 t of
       None \<Rightarrow> Refused ErrMalformedReply r1
     | Some n \<Rightarrow> if n = -1 then Read NullBulk r1
         else if n < 0 then Refused ErrMalformedReply r1 else read_body n r1)" for t r1
  have step: "read_bulk r = then_read (read_line r) g"
    by (simp add: read_bulk_step g_def [abs_def])
  have body: "budget_ok r1 \<Longrightarrow> parse_int64 t = Some n \<Longrightarrow> 0 \<le> n \<Longrightarrow>
      (read_body n r1 = Panics \<longleftrightarrow> 2 ^ 63 \<le> n + 2)
      \<and> (read_body n r1 = Read v s \<longleftrightarrow> (\<exists>body. v = BulkReply body \<and> int (length body) = n
           \<and> took r1 (body @ crlf) s))" for r1 t n
  proof (cases "2 ^ 63 \<le> n + 2")
    case True
    assume b: "budget_ok r1" "parse_int64 t = Some n" "0 \<le> n"
    have "\<not> took r1 (body @ crlf) s" if "int (length body) = n" for body
      using that True b(1) by (auto simp: took_def budget_ok_def max_reply_size_def)
    then show ?thesis
      using read_body_overflow [OF b(1) parse_int64_range [OF b(2)] True] True by auto
  next
    case False
    assume "budget_ok r1" "parse_int64 t = Some n" "0 \<le> n"
    then show ?thesis
      using read_body_exact(1) [of r1 n] read_body_exact(2) [of r1 n v s] False by auto
  qed
  have g: "g t r1 = Read v s \<longleftrightarrow> (parse_int64 t = Some (-1) \<and> v = NullBulk \<and> s = r1
         \<or> (\<exists>body. parse_int64 t = Some (int (length body)) \<and> v = BulkReply body
              \<and> took r1 (body @ crlf) s))"
    "g t r1 = Panics \<longleftrightarrow> (\<exists>n. parse_int64 t = Some n \<and> 2 ^ 63 \<le> n + 2)" if "budget_ok r1" for t r1
    using body [OF that] by (auto simp: g_def split: option.splits)
  show "read_bulk r = Read v s \<longleftrightarrow> ?B"
  proof
    assume "read_bulk r = Read v s"
    then obtain t r1 where "took r (t @ crlf) r1" "g t r1 = Read v s"
      by (auto simp: step then_read_Read read_line_Read [OF r])
    then show ?B using g(1) took_budget [OF r] by blast
  next
    assume ?B
    then obtain t r1 where *: "took r (t @ crlf) r1" "g t r1 = Read v s"
      using g(1) took_budget [OF r] by blast
    then have "parse_int64 t \<noteq> None" by (auto simp: g_def split: option.splits)
    then show "read_bulk r = Read v s"
      using * parse_no_LF by (auto simp: step then_read_Read read_line_Read [OF r])
  qed
  show "read_bulk r = Panics \<longleftrightarrow>
      (\<exists>t r1 n. took r (t @ crlf) r1 \<and> parse_int64 t = Some n \<and> 2 ^ 63 \<le> n + 2)"
    (is "_ \<longleftrightarrow> ?P")
  proof
    assume "read_bulk r = Panics"
    then obtain t r1 where "took r (t @ crlf) r1" "g t r1 = Panics"
      by (auto simp: step then_read_Panics read_line_Read [OF r])
    then show ?P using g(2) took_budget [OF r] by blast
  next
    assume ?P
    then obtain t r1 where *: "took r (t @ crlf) r1" "g t r1 = Panics" "parse_int64 t \<noteq> None"
      using g(2) took_budget [OF r] by blast
    then show "read_bulk r = Panics"
      using parse_no_LF by (auto simp: step then_read_Panics read_line_Read [OF r])
  qed
qed

lemma frame_body_Read:
  assumes f: "frame_exact (d + 1)" and d: "d \<le> max_depth" and r: "budget_ok r"
  shows "frame_body d c r = Read v s \<longleftrightarrow> (\<exists>bs. resp d (c # bs) v \<and> took r bs s)"
proof -
  note line = then_read_Read read_line_Read [OF r]
  consider "c = CHR ''+''" | "c = CHR ''-''" | "c = CHR '':''" | "c = CHR ''$''" | "c = CHR ''*''"
    | "c \<notin> set ''+-:$*''" by auto
  then show ?thesis
  proof cases
    case 3
    have "(case parse_int64 t of None \<Rightarrow> Refused ErrMalformedReply r1 | Some n \<Rightarrow> Read (IntegerReply n) r1)
        = Read v s \<longleftrightarrow> (\<exists>n. parse_int64 t = Some n \<and> v = IntegerReply n \<and> s = r1)" for t r1
      by (auto split: option.split)
    then have "frame_body d c r = Read v s \<longleftrightarrow>
        (\<exists>t n. LF \<notin> set t \<and> took r (t @ crlf) s \<and> parse_int64 t = Some n \<and> v = IntegerReply n)"
      by (auto simp: 3 frame_body_def line)
    also have "\<dots> \<longleftrightarrow> (\<exists>bs. resp d (c # bs) v \<and> took r bs s)"
      using d parse_no_LF by (simp add: 3 resp_Cons) blast
    finally show ?thesis .
  next
    case 4
    have "frame_body d c r = read_bulk r" by (simp add: 4 frame_body_def)
    moreover have "read_bulk r = Read v s \<longleftrightarrow> (\<exists>bs. resp d (c # bs) v \<and> took r bs s)" (is "?L \<longleftrightarrow> ?R")
    proof
      assume ?L
      then show ?R
        unfolding read_bulk_exact(1) [OF r]
      proof (elim disjE exE conjE)
        fix t r1 body assume t: "took r (t @ crlf) r1" "took r1 (body @ crlf) s"
          and "parse_int64 t = Some (int (length body))" "v = BulkReply body"
        then show ?R
          using took_append [of r "t @ crlf" "body @ crlf" s] bulk [OF d, of t body]
          by (intro exI [of _ "t @ crlf @ body @ crlf"]) (auto simp: 4)
      qed (use d in \<open>auto simp: 4 intro: null_bulk\<close>)
    next
      assume ?R
      then obtain bs where "resp d (CHR ''$'' # bs) v" "took r bs s" by (auto simp: 4)
      then show ?L
        unfolding read_bulk_exact(1) [OF r]
      proof (elim resp.cases [of d "CHR ''$'' # bs"]; simp)
        fix t body assume "bs = t @ CR # LF # body @ crlf" "took r (t @ CR # LF # body @ crlf) s"
        then show "\<exists>t' r1. took r (t' @ crlf) r1 \<and>
            parse_int64 t' = Some (int (length body)) \<and> took r1 (body @ crlf) s"
          if "parse_int64 t = Some (int (length body))"
          using that took_append [of r "t @ crlf" "body @ crlf" s] by auto
      qed (use d in blast)
    qed
    ultimately show ?thesis by simp
  next
    case 5
    have "frame_body d c r = Read v s \<longleftrightarrow>
        (\<exists>t r1. LF \<notin> set t \<and> took r (t @ crlf) r1 \<and> array_body d t r1 = Read v s)"
      by (auto simp: 5 frame_body_def line)
    also have "\<dots> \<longleftrightarrow> (\<exists>bs. resp d (c # bs) v \<and> took r bs s)" (is "?L \<longleftrightarrow> ?R")
    proof
      assume ?L
      then obtain t r1 where t: "took r (t @ crlf) r1" "array_body d t r1 = Read v s" by blast
      have r1: "budget_ok r1" using took_budget [OF r t(1)] .
      from t(2) show ?R
        unfolding array_body_exact(1) [OF f d r1]
      proof (elim disjE exE conjE)
        fix bytes vs assume "parse_int64 t = Some (int (length vs))" "int (length vs) \<le> max_array_elements"
          "v = ArrayReply vs" "resp_seq d bytes vs" "took r1 bytes s"
        then show ?R
          using t(1) took_append [of r "t @ crlf" bytes s] array [OF d, of t vs bytes]
          by (intro exI [of _ "t @ crlf @ bytes"]) (auto simp: 5)
      qed (use t(1) d in \<open>auto simp: 5 intro: null_array\<close>)
    next
      assume ?R
      then obtain bs where bs: "resp d (CHR ''*'' # bs) v" "took r bs s" by (auto simp: 5)
      have "\<exists>t a. bs = t @ crlf @ a \<and> LF \<notin> set t \<and> (a = [] \<and> v = NullArray \<and> parse_int64 t = Some (-1)
          \<or> (\<exists>vs. v = ArrayReply vs \<and> parse_int64 t = Some (int (length vs))
                \<and> int (length vs) \<le> max_array_elements \<and> resp_seq d a vs))"
        using bs(1) parse_no_LF by (auto simp: resp_Cons)
      then obtain t a where t: "bs = (t @ crlf) @ a" "LF \<notin> set t"
        "a = [] \<and> v = NullArray \<and> parse_int64 t = Some (-1)
          \<or> (\<exists>vs. v = ArrayReply vs \<and> parse_int64 t = Some (int (length vs))
                \<and> int (length vs) \<le> max_array_elements \<and> resp_seq d a vs)" by auto
      obtain r1 where r1: "took r (t @ crlf) r1" "took r1 a s"
        using bs(2) unfolding t(1) took_append [of r "t @ crlf" a] by blast
      have "array_body d t r1 = Read v s"
        unfolding array_body_exact(1) [OF f d took_budget [OF r r1(1)]]
        using t(3) r1(2) by auto
      then show ?L using t(2) r1(1) by blast
    qed
    finally show ?thesis .
  qed (use d in \<open>auto simp: frame_body_def line resp_Cons\<close>)
qed

lemma frame_body_Panics:
  assumes f: "frame_exact (d + 1)" and d: "d \<le> max_depth" and r: "budget_ok r"
  shows "frame_body d c r = Panics \<longleftrightarrow> (\<exists>bs s. overflows d (c # bs) \<and> took r bs s)"
proof -
  note line = then_read_Panics read_line_Read [OF r]
  consider "c = CHR ''$''" | "c = CHR ''*''" | "c \<noteq> CHR ''$''" "c \<noteq> CHR ''*''" by blast
  then show ?thesis
  proof cases
    case 1
    have "frame_body d c r = read_bulk r" by (simp add: 1 frame_body_def)
    then show ?thesis
      using d by (simp add: 1 overflows_Cons read_bulk_exact(2) [OF r]) blast
  next
    case 2
    have "frame_body d c r = Panics \<longleftrightarrow>
        (\<exists>t r1. LF \<notin> set t \<and> took r (t @ crlf) r1 \<and> array_body d t r1 = Panics)"
      by (auto simp: 2 frame_body_def line)
    also have "\<dots> \<longleftrightarrow> (\<exists>bs s. overflows d (c # bs) \<and> took r bs s)" (is "?L \<longleftrightarrow> ?R")
    proof
      assume ?L
      then obtain t r1 where t: "took r (t @ crlf) r1" "array_body d t r1 = Panics" by blast
      then obtain n ps vs p s where *: "parse_int64 t = Some n" "n \<le> max_array_elements"
          "int (length vs) < n" "resp_seq d ps vs" "overflows (d + 1) p" "took r1 (ps @ p) s"
        unfolding array_body_exact(2) [OF f d took_budget [OF r t(1)]] by blast
      have "overflows d (c # t @ crlf @ ps @ p)"
        unfolding 2 by (rule element [OF d *(1,2,4,3,5)])
      moreover have "took r (t @ crlf @ ps @ p) s"
        using t(1) *(6) took_append [of r "t @ crlf" "ps @ p" s] by auto
      ultimately show ?R by blast
    next
      assume ?R
      then obtain bs s where bs: "overflows d (CHR ''*'' # bs)" "took r bs s" by (auto simp: 2)
      from bs(1) obtain t n ps vs p where *: "parse_int64 t = Some n" "n \<le> max_array_elements"
          "int (length vs) < n" "resp_seq d ps vs" "overflows (d + 1) p" "bs = (t @ crlf) @ ps @ p"
        by (auto simp: overflows_Cons)
      obtain r1 where r1: "took r (t @ crlf) r1" "took r1 (ps @ p) s"
        using bs(2) unfolding *(6) took_append [of r "t @ crlf" "ps @ p"] by blast
      have "array_body d t r1 = Panics"
        unfolding array_body_exact(2) [OF f d took_budget [OF r r1(1)]] using * r1(2) by blast
      then show ?L using r1(1) parse_no_LF [OF *(1)] by blast
    qed
    finally show ?thesis .
  next
    case 3
    then show ?thesis
      by (auto simp: frame_body_def line overflows_Cons split: option.splits)
  qed
qed

lemma frame_exact_step:
  assumes f: "frame_exact (d + 1)" and d: "d \<le> max_depth"
  shows "frame_exact d"
  unfolding frame_exact_def
proof (intro allI impI conjI)
  fix r assume r: "budget_ok r"
  have step: "read_frame d r = then_read (take_byte r) (frame_body d)"
    using d by (simp add: read_frame_step)
  show "read_frame d r = Read v s \<longleftrightarrow> (\<exists>bytes. resp d bytes v \<and> took r bytes s)" for v s
  proof -
    have "read_frame d r = Read v s \<longleftrightarrow>
        (\<exists>c r2 bs. took r [c] r2 \<and> resp d (c # bs) v \<and> took r2 bs s)"
      unfolding step then_read_Read take_byte_Read [OF r]
      using frame_body_Read [OF f d] took_budget [OF r] by blast
    also have "\<dots> \<longleftrightarrow> (\<exists>c bs. resp d (c # bs) v \<and> took r (c # bs) s)"
      using took_Cons by blast
    finally show ?thesis using resp_not_empty by (metis neq_Nil_conv)
  qed
  have "read_frame d r = Panics \<longleftrightarrow> (\<exists>c r2. took r [c] r2 \<and> frame_body d c r2 = Panics)"
    by (auto simp: step then_read_Panics take_byte_Read [OF r])
  also have "\<dots> \<longleftrightarrow> (\<exists>c r2 bs s. took r [c] r2 \<and> overflows d (c # bs) \<and> took r2 bs s)"
    using frame_body_Panics [OF f d] took_budget [OF r] by blast
  also have "\<dots> \<longleftrightarrow> (\<exists>c bs s. overflows d (c # bs) \<and> took r (c # bs) s)"
    using took_Cons by blast
  finally show "read_frame d r = Panics \<longleftrightarrow> (\<exists>bytes s. overflows d bytes \<and> took r bytes s)"
    using overflows_not_empty by (metis neq_Nil_conv)
qed

lemma frame_exact_all: "frame_exact d"
proof (induction "max_depth + 1 - d" arbitrary: d)
  case 0
  then have deep: "max_depth < d" by simp
  have "\<not> resp d bytes v" "\<not> overflows d bytes" for bytes v
    using deep resp_depth [of d bytes v] overflows_depth [of d bytes] by auto
  then show ?case
    using deep by (simp add: frame_exact_def read_frame_step)
next
  case (Suc k)
  then show ?case by (auto intro: frame_exact_step [OF Suc.hyps(1)])
qed

lemma read_reply_iff:
  assumes "budget_ok r"
  shows "read_reply r = Read v s \<longleftrightarrow> (\<exists>bytes. resp 1 bytes v \<and> took r bytes s)"
    and "read_reply r = Panics \<longleftrightarrow> (\<exists>bytes s. overflows 1 bytes \<and> took r bytes s)"
  using frame_exactD [OF frame_exact_all assms] by (simp_all add: read_reply_def)

lemma begin_budget: "budget_ok (begin_reply r)"
  by (simp add: begin_reply_def budget_ok_def max_reply_size_def)

subsection \<open>What a reply may be\<close>

fun reply_depth :: "reply \<Rightarrow> nat" where
  "reply_depth (ArrayReply vs) = 1 + Max (insert 0 (set (map reply_depth vs)))"
| "reply_depth _ = 1"

text \<open>The payload a reply holds, one unit for every node and every byte of text.\<close>

fun reply_size :: "reply \<Rightarrow> nat" where
  "reply_size (SimpleStringReply s) = 1 + length s"
| "reply_size (ErrorReply s) = 1 + length s"
| "reply_size (BulkReply s) = 1 + length s"
| "reply_size (ArrayReply vs) = 1 + sum_list (map reply_size vs)"
| "reply_size _ = 1"

fun reply_ok :: "reply \<Rightarrow> bool" where
  "reply_ok (SimpleStringReply s) \<longleftrightarrow> LF \<notin> set s"
| "reply_ok (ErrorReply s) \<longleftrightarrow> LF \<notin> set s"
| "reply_ok (IntegerReply n) \<longleftrightarrow> in_int64 n"
| "reply_ok (ArrayReply vs) \<longleftrightarrow> int (length vs) \<le> max_array_elements \<and> list_all reply_ok vs"
| "reply_ok _ \<longleftrightarrow> True"

lemma resp_bounds:
  "resp d bytes v \<Longrightarrow> reply_ok v \<and> reply_depth v + d \<le> max_depth + 1 \<and> reply_size v + 2 \<le> length bytes"
  "resp_seq d bytes vs \<Longrightarrow> list_all reply_ok vs
     \<and> (d \<le> max_depth \<longrightarrow> (\<forall>v\<in>set vs. reply_depth v + d \<le> max_depth))
     \<and> sum_list (map reply_size vs) \<le> length bytes"
proof (induction rule: resp_resp_seq.inducts)
  case (array d s vs body)
  define m where "m = Max (insert 0 (set (map reply_depth vs)))"
  have "m \<le> max_depth - d"
    unfolding m_def using array by (subst Max_le_iff) (auto simp: add_le_imp_le_diff)
  moreover have "reply_depth (ArrayReply vs) = 1 + m" by (simp add: m_def)
  ultimately show ?case using array by (auto simp del: reply_depth.simps)
qed (auto dest: parse_int64_range)

text \<open>The grammar is unambiguous: a reply's bytes end where they must.\<close>

lemma resp_prefix_free:
  assumes "resp 1 a v" "resp 1 b w" "a @ x = b @ y" "int (length a) \<le> max_reply_size"
    and "int (length b) \<le> max_reply_size"
  shows "a = b \<and> v = w"
proof -
  let ?r = "begin_reply \<lparr>rd_rest = a @ x, rd_end = EndOfFile, rd_remaining = 0\<rparr>"
  let ?s = "\<lambda>t n. \<lparr>rd_rest = t, rd_end = EndOfFile, rd_remaining = max_reply_size - int (length n)\<rparr>"
  have "took ?r a (?s x a)" "took ?r b (?s y b)"
    using assms by (simp_all add: took_def begin_reply_def)
  then have "read_reply ?r = Read v (?s x a)" "read_reply ?r = Read w (?s y b)"
    using assms(1,2) read_reply_iff(1) [OF begin_budget] by blast+
  then show ?thesis using assms(3) by auto
qed

end
