(* ===== verification/RedisWire.thy ===== *)
theory RedisWire
  imports RespGrammar
begin

text \<open>
  The Redis exchanges over the RESP2 reader: encoding a command, classifying an error reply, and the
  three commands HELLO, AUTH and PING (\<open>adapter/redis/wire/conn.go\<close>, \<open>errors.go\<close>, \<open>hello.go\<close>,
  \<open>auth.go\<close>, \<open>ping.go\<close>). A connection is the reader, whether a write fails, and the bytes sent.
  Deadlines and cancellation are the transport's: they show as a write or a read that fails.
\<close>

subsection \<open>Connections\<close>

record conn =
  cn_reader :: reader
  cn_write_fails :: bool
  cn_sent :: string

datatype 'a exchanged = Done 'a conn | Failed wire_error conn | Crashed

definition then_do :: "'a exchanged \<Rightarrow> ('a \<Rightarrow> conn \<Rightarrow> 'b exchanged) \<Rightarrow> 'b exchanged" where
  "then_do x f = (case x of Done v c \<Rightarrow> f v c | Failed e c \<Rightarrow> Failed e c | Crashed \<Rightarrow> Crashed)"

definition hello_frame :: string where
  "hello_frame = ''*1'' @ crlf @ ''$5'' @ crlf @ ''HELLO'' @ crlf"

definition ping_frame :: string where
  "ping_frame = ''*1'' @ crlf @ ''$4'' @ crlf @ ''PING'' @ crlf"

definition encode_part :: "string \<Rightarrow> string" where
  "encode_part p = ''$'' @ show_nat (length p) @ crlf @ p @ crlf"

definition encode_command :: "string list \<Rightarrow> wire_error + string" where
  "encode_command parts =
     (if parts = [] then Inl ErrInvalidInput
      else Inr (fold (\<lambda>p out. out @ encode_part p) parts (''*'' @ show_nat (length parts) @ crlf)))"

definition exchange :: "string \<Rightarrow> conn \<Rightarrow> reply exchanged" where
  "exchange frame c =
     (if cn_write_fails c then Failed TransportError c
      else case read_reply (begin_reply (cn_reader c)) of
          Read v r \<Rightarrow> Done v (c\<lparr>cn_reader := r, cn_sent := cn_sent c @ frame\<rparr>)
        | Refused e r \<Rightarrow> Failed e (c\<lparr>cn_reader := r, cn_sent := cn_sent c @ frame\<rparr>)
        | Panics \<Rightarrow> Crashed)"

subsection \<open>Error replies\<close>

type_synonym error_prefix = string

definition prefix_none :: error_prefix where "prefix_none = ''''"
definition prefix_unrecognized :: error_prefix where "prefix_unrecognized = ''UNRECOGNIZED''"

definition classified :: "(string \<times> error_prefix) list" where
  "classified =
    [(''NOAUTH'', ''NOAUTH''), (''WRONGPASS'', ''WRONGPASS''), (''NOPERM'', ''NOPERM''),
     (''DENIED'', ''DENIED''), (''LOADING'', ''LOADING''), (''MASTERDOWN'', ''MASTERDOWN''),
     (''BUSY'', ''BUSY''), (''ERR'', ''ERR''), (''NOPROTO'', ''NOPROTO''), (''MOVED'', ''MOVED''),
     (''ASK'', ''ASK''), (''CLUSTERDOWN'', ''CLUSTERDOWN''), (''TRYAGAIN'', ''TRYAGAIN''),
     (''CROSSSLOT'', ''CROSSSLOT''), (''OOM'', ''OOM''), (''MISCONF'', ''MISCONF''),
     (''READONLY'', ''READONLY''), (''NOREPLICAS'', ''NOREPLICAS''), (''WRONGTYPE'', ''WRONGTYPE''),
     (''EXECABORT'', ''EXECABORT''), (''NOSCRIPT'', ''NOSCRIPT''), (''UNBLOCKED'', ''UNBLOCKED''),
     (''NOTBUSY'', ''NOTBUSY'')]"

definition error_token :: "string \<Rightarrow> string" where
  "error_token text = takeWhile (\<lambda>c. c \<noteq> CHR '' '' \<and> c \<noteq> CHR 0x09) text"

definition classify_error_text :: "string \<Rightarrow> error_prefix" where
  "classify_error_text text = (case map_of classified (error_token text) of
       Some prefix \<Rightarrow> prefix | None \<Rightarrow> prefix_unrecognized)"

subsection \<open>AUTH and PING\<close>

record auth = au_prefix :: error_prefix

definition auth_accepted :: "auth \<Rightarrow> bool" where
  "auth_accepted a \<longleftrightarrow> au_prefix a = prefix_none"

definition auth_rejected :: "auth \<Rightarrow> bool" where
  "auth_rejected a \<longleftrightarrow> au_prefix a = ''WRONGPASS''"

definition auth_of_reply :: "reply \<Rightarrow> wire_error + auth" where
  "auth_of_reply r = (case r of
       ErrorReply text \<Rightarrow> Inr \<lparr>au_prefix = classify_error_text text\<rparr>
     | SimpleStringReply text \<Rightarrow>
         if text = ''OK'' then Inr \<lparr>au_prefix = prefix_none\<rparr> else Inl ErrUnexpectedReply
     | _ \<Rightarrow> Inl ErrUnexpectedReply)"

definition finish :: "(reply \<Rightarrow> wire_error + 'a) \<Rightarrow> reply \<Rightarrow> conn \<Rightarrow> 'a exchanged" where
  "finish f r c = (case f r of Inl e \<Rightarrow> Failed e c | Inr v \<Rightarrow> Done v c)"

definition send_auth :: "string \<Rightarrow> string \<Rightarrow> conn \<Rightarrow> auth exchanged" where
  "send_auth username secret c =
     (if secret = '''' then Failed ErrInvalidInput c
      else case encode_command (if username = '''' then [''AUTH'', secret] else [''AUTH'', username, secret]) of
          Inl e \<Rightarrow> Failed e c
        | Inr frame \<Rightarrow> then_do (exchange frame c) (finish auth_of_reply))"

record ping = pg_prefix :: error_prefix

definition pong :: "ping \<Rightarrow> bool" where
  "pong p \<longleftrightarrow> pg_prefix p = prefix_none"

definition ping_of_reply :: "reply \<Rightarrow> wire_error + ping" where
  "ping_of_reply r = (case r of
       ErrorReply text \<Rightarrow> Inr \<lparr>pg_prefix = classify_error_text text\<rparr>
     | SimpleStringReply text \<Rightarrow>
         if text = ''PONG'' then Inr \<lparr>pg_prefix = prefix_none\<rparr> else Inl ErrUnexpectedReply
     | _ \<Rightarrow> Inl ErrUnexpectedReply)"

definition send_ping :: "conn \<Rightarrow> ping exchanged" where
  "send_ping c = then_do (exchange ping_frame c) (finish ping_of_reply)"

subsection \<open>HELLO\<close>

record hello =
  he_prefix :: error_prefix
  he_server :: string
  he_version :: string
  he_proto :: int
  he_mode :: string
  he_role :: string

definition no_hello :: hello where
  "no_hello = \<lparr>he_prefix = prefix_none, he_server = '''', he_version = '''', he_proto = 0,
     he_mode = '''', he_role = ''''\<rparr>"

definition hello_answered :: "hello \<Rightarrow> bool" where
  "hello_answered h \<longleftrightarrow> he_prefix h = prefix_none"

definition hello_auth_required :: "hello \<Rightarrow> bool" where
  "hello_auth_required h \<longleftrightarrow> he_prefix h = ''NOAUTH''"

definition hello_unsupported :: "hello \<Rightarrow> bool" where
  "hello_unsupported h \<longleftrightarrow> he_prefix h = ''ERR''"

definition max_identity_len :: nat where "max_identity_len = 128"

definition string_value :: "reply \<Rightarrow> string option" where
  "string_value r = (case r of SimpleStringReply s \<Rightarrow> Some s | BulkReply s \<Rightarrow> Some s | _ \<Rightarrow> None)"

definition identity_value :: "reply \<Rightarrow> string" where
  "identity_value r = (case string_value r of
       None \<Rightarrow> ''''
     | Some s \<Rightarrow>
         if s = '''' \<or> max_identity_len < length s then ''''
         else if list_ex (\<lambda>c. code c < 0x20 \<or> 0x7e < code c) s then '''' else s)"

definition closed_value :: "reply \<Rightarrow> string list \<Rightarrow> string" where
  "closed_value r allowed = (case string_value r of
       None \<Rightarrow> '''' | Some s \<Rightarrow> if s \<in> set allowed then s else '''')"

definition modes :: "string list" where "modes = [''standalone'', ''cluster'', ''sentinel'']"
definition roles :: "string list" where "roles = [''master'', ''replica'']"

definition hello_field :: "string \<Rightarrow> reply \<Rightarrow> hello \<Rightarrow> hello" where
  "hello_field key v h =
     (if key = ''server'' then h\<lparr>he_server := identity_value v\<rparr>
      else if key = ''version'' then h\<lparr>he_version := identity_value v\<rparr>
      else if key = ''proto'' then (case v of IntegerReply n \<Rightarrow> h\<lparr>he_proto := n\<rparr> | _ \<Rightarrow> h)
      else if key = ''mode'' then h\<lparr>he_mode := closed_value v modes\<rparr>
      else if key = ''role'' then h\<lparr>he_role := closed_value v roles\<rparr>
      else h)"

fun hello_pairs :: "reply list \<Rightarrow> hello \<Rightarrow> hello" where
  "hello_pairs (k # v # rest) h =
     hello_pairs rest (case string_value k of None \<Rightarrow> h | Some key \<Rightarrow> hello_field key v h)"
| "hello_pairs _ h = h"

definition normalize_hello :: "reply list \<Rightarrow> wire_error + hello" where
  "normalize_hello items =
     (if length items mod 2 \<noteq> 0 then Inl ErrUnexpectedReply else Inr (hello_pairs items no_hello))"

definition hello_of_reply :: "reply \<Rightarrow> wire_error + hello" where
  "hello_of_reply r = (case r of
       ErrorReply text \<Rightarrow> Inr (no_hello\<lparr>he_prefix := classify_error_text text\<rparr>)
     | NullArray \<Rightarrow> Inl ErrUnexpectedReply
     | ArrayReply items \<Rightarrow> normalize_hello items
     | _ \<Rightarrow> Inl ErrUnexpectedReply)"

definition send_hello :: "conn \<Rightarrow> hello exchanged" where
  "send_hello c = then_do (exchange hello_frame c) (finish hello_of_reply)"

subsection \<open>Encoding a command\<close>

lemma encode_command_bytes:
  "encode_command parts = Inr bytes \<Longrightarrow> parts \<noteq> []
     \<and> bytes = CHR ''*'' # show_nat (length parts) @ crlf @ concat (map encode_part parts)"
proof -
  have "fold (\<lambda>p out. out @ encode_part p) ps out = out @ concat (map encode_part ps)" for ps out
    by (induction ps arbitrary: out) simp_all
  then show "encode_command parts = Inr bytes \<Longrightarrow> parts \<noteq> []
     \<and> bytes = CHR ''*'' # show_nat (length parts) @ crlf @ concat (map encode_part parts)"
    by (auto simp: encode_command_def split: if_splits)
qed

lemma encode_part_resp:
  assumes "length p < 2 ^ 63" "d \<le> max_depth"
  shows "resp d (encode_part p) (BulkReply p)"
  using bulk [OF assms(2), of "show_nat (length p)" p] assms(1) by (simp add: encode_part_def)

lemma encode_parts_resp:
  "\<forall>p\<in>set parts. length p < 2 ^ 63 \<Longrightarrow> d < max_depth \<Longrightarrow>
     resp_seq d (concat (map encode_part parts)) (map BulkReply parts)"
proof (induction parts)
  case (Cons p parts)
  have "resp (d + 1) (encode_part p) (BulkReply p)"
    by (rule encode_part_resp) (use Cons.prems in simp_all)
  then show ?case
    using Cons by (auto intro: seq_Cons)
qed (simp add: seq_Nil)

lemma encode_command_resp:
  assumes "encode_command parts = Inr bytes" "int (length bytes) \<le> max_reply_size"
    and "int (length parts) \<le> max_array_elements"
  shows "resp 1 bytes (ArrayReply (map BulkReply parts))"
proof -
  have bytes: "bytes = CHR ''*'' # show_nat (length parts) @ crlf @ concat (map encode_part parts)"
    using encode_command_bytes [OF assms(1)] by simp
  have "length p < 2 ^ 63" if "p \<in> set parts" for p
  proof -
    have "length p \<le> length (encode_part p)" by (simp add: encode_part_def)
    also have "\<dots> \<le> length (concat (map encode_part parts))"
      using that by (auto simp: length_concat comp_def intro: member_le_sum_list)
    also have "\<dots> \<le> length bytes" by (simp add: bytes)
    finally show ?thesis using assms(2) by (simp add: max_reply_size_def)
  qed
  moreover have "length parts < 2 ^ 63"
    using assms(3) by (simp add: max_array_elements_def max_reply_size_def)
  ultimately show ?thesis
    unfolding bytes using assms(3) by (intro array encode_parts_resp) (simp_all add: max_depth_def)
qed

subsection \<open>Exchanges\<close>

lemma then_do_Done: "then_do x f = Done v c \<longleftrightarrow> (\<exists>w b. x = Done w b \<and> f w b = Done v c)"
  by (cases x) (auto simp: then_do_def)

lemma finish_Done: "finish f r c = Done v d \<longleftrightarrow> f r = Inr v \<and> d = c"
  by (auto simp: finish_def split: sum.splits)

lemma exchange_Done:
  "exchange frame c = Done v d \<longleftrightarrow> \<not> cn_write_fails c
     \<and> (\<exists>r bytes. resp 1 bytes v \<and> took (begin_reply (cn_reader c)) bytes r
          \<and> d = c\<lparr>cn_reader := r, cn_sent := cn_sent c @ frame\<rparr>)"
proof -
  have "exchange frame c = Done v d \<longleftrightarrow> \<not> cn_write_fails c
     \<and> (\<exists>r. read_reply (begin_reply (cn_reader c)) = Read v r
          \<and> d = c\<lparr>cn_reader := r, cn_sent := cn_sent c @ frame\<rparr>)"
    by (auto simp: exchange_def split: read_result.splits)
  then show ?thesis
    unfolding read_reply_iff(1) [OF begin_budget] by blast
qed

lemma took_begin:
  "took (begin_reply r) bytes s \<longleftrightarrow> rd_rest r = bytes @ rd_rest s \<and> rd_end s = rd_end r
     \<and> rd_remaining s = max_reply_size - int (length bytes) \<and> int (length bytes) \<le> max_reply_size"
  by (simp add: took_def begin_reply_def)

text \<open>The reply a status line or an error line is.\<close>

inductive_simps resp_simple: "resp d bytes (SimpleStringReply s)"
inductive_simps resp_error: "resp d bytes (ErrorReply s)"

lemma resp_simple_iff:
  "resp 1 bytes (SimpleStringReply s) \<longleftrightarrow> LF \<notin> set s \<and> bytes = CHR ''+'' # s @ crlf"
  by (subst resp_simple) (auto simp: max_depth_def)

lemma resp_error_iff:
  "resp 1 bytes (ErrorReply s) \<longleftrightarrow> LF \<notin> set s \<and> bytes = CHR ''-'' # s @ crlf"
  by (subst resp_error) (auto simp: max_depth_def)

lemma classified_none: "classify_error_text t \<noteq> prefix_none"
proof -
  have "map_of classified k = Some p \<Longrightarrow> p \<noteq> ''''" for k p
    by (auto simp: classified_def split: if_splits)
  then show ?thesis
    by (auto simp: classify_error_text_def prefix_none_def prefix_unrecognized_def split: option.split)
qed

lemma classify_wrongpass: "classify_error_text t = ''WRONGPASS'' \<longleftrightarrow> error_token t = ''WRONGPASS''"
  by (simp add: classify_error_text_def classified_def prefix_unrecognized_def)

lemma line_unique:
  assumes "LF \<notin> set s" "LF \<notin> set t" "s @ crlf @ x = t @ crlf @ y"
  shows "s = t \<and> x = y"
proof -
  have "takeWhile (\<lambda>c. c \<noteq> LF) ((s @ [CR]) @ LF # x) = takeWhile (\<lambda>c. c \<noteq> LF) ((t @ [CR]) @ LF # y)"
    using assms(3) by simp
  moreover have "takeWhile (\<lambda>c. c \<noteq> LF) ((u @ [CR]) @ LF # z) = u @ [CR]" if "LF \<notin> set u" for u z
    using that by (subst takeWhile_append2) auto
  ultimately have "s @ [CR] = t @ [CR]" using assms(1,2) by metis
  then show ?thesis using assms(3) by simp
qed

lemma read_reply_panics_iff:
  "read_reply (begin_reply r) = Panics \<longleftrightarrow>
     (\<exists>bytes t. overflows 1 bytes \<and> int (length bytes) \<le> max_reply_size \<and> rd_rest r = bytes @ t)"
proof -
  have "(\<exists>s. took (begin_reply r) bytes s) \<longleftrightarrow>
      int (length bytes) \<le> max_reply_size \<and> (\<exists>t. rd_rest r = bytes @ t)" for bytes
    unfolding took_begin
    by (auto intro!: exI [of _ "\<lparr>rd_rest = drop (length bytes) (rd_rest r), rd_end = rd_end r,
      rd_remaining = max_reply_size - int (length bytes)\<rparr>"])
  then show ?thesis unfolding read_reply_iff(2) [OF begin_budget] by blast
qed

lemma panics_on:
  assumes "overflows 1 bytes" "int (length bytes) \<le> max_reply_size"
  shows "read_reply (begin_reply (r\<lparr>rd_rest := bytes\<rparr>)) = Panics"
  using assms by (auto simp: read_reply_panics_iff)

lemma overflows_element:
  assumes "parse_int64 s = Some n" "2 ^ 63 \<le> n + 2"
  shows "overflows 1 (CHR ''*'' # ''1'' @ crlf @ [] @ CHR ''$'' # s @ crlf)"
proof (rule element)
  show "parse_int64 ''1'' = Some 1"
    by (simp add: parse_int64_def split_sign_def unsigned_digits_def is_digit_def
        decimal_value_def digit_value_def in_int64_def)
  show "overflows (1 + 1) (CHR ''$'' # s @ crlf)"
    by (rule header) (use assms in \<open>simp_all add: max_depth_def\<close>)
qed (simp_all add: max_depth_def max_array_elements_def max_reply_size_def seq_Nil)

subsection \<open>Properties\<close>

text \<open>C22: Reading a reply refines the grammar. A read under a fresh budget gives a value exactly when the stream
  starts with bytes the grammar takes for that value and that fit the budget; it takes those bytes
  and no others, and charges exactly them. The grammar knows nothing of budgets, loops or readers.\<close>

theorem read_reply_exact:
  "read_reply (begin_reply r) = Read v s \<longleftrightarrow>
     (\<exists>bytes. resp 1 bytes v \<and> int (length bytes) \<le> max_reply_size
        \<and> rd_rest r = bytes @ rd_rest s \<and> rd_end s = rd_end r
        \<and> rd_remaining s = max_reply_size - int (length bytes))"
  unfolding read_reply_iff(1) [OF begin_budget] took_begin by blast

text \<open>C33: The reader panics exactly on a bulk header whose declared length, plus the two bytes of its
  terminator, is beyond the largest \<open>int\<close>: the sum wraps round to a negative number, passes the
  budget check, and \<open>make\<close> refuses it. Such a header panics the reader as the whole reply and as an
  element of an array.\<close>

theorem read_reply_panics_exact:
  "(read_reply (begin_reply r) = Panics \<longleftrightarrow>
      (\<exists>bytes t. overflows 1 bytes \<and> int (length bytes) \<le> max_reply_size \<and> rd_rest r = bytes @ t))
   \<and> read_reply (begin_reply (r\<lparr>rd_rest := ''$9223372036854775806'' @ crlf\<rparr>)) = Panics
   \<and> read_reply (begin_reply (r\<lparr>rd_rest := ''*1'' @ crlf @ ''$9223372036854775807'' @ crlf\<rparr>)) = Panics
   \<and> read_reply (begin_reply (r\<lparr>rd_rest := ''$9223372036854775805'' @ crlf\<rparr>)) \<noteq> Panics"
proof -
  have n: "parse_int64 ''9223372036854775806'' = Some 9223372036854775806"
    "parse_int64 ''9223372036854775807'' = Some 9223372036854775807"
    "parse_int64 ''9223372036854775805'' = Some 9223372036854775805"
    by (simp_all add: parse_int64_def split_sign_def unsigned_digits_def is_digit_def
        decimal_value_def digit_value_def in_int64_def)
  have "overflows 1 (''$9223372036854775806'' @ crlf)"
    using header [OF _ n(1), of 1] by (simp add: max_depth_def)
  then have whole: "read_reply (begin_reply (r\<lparr>rd_rest := ''$9223372036854775806'' @ crlf\<rparr>)) = Panics"
    by (rule panics_on) (simp add: max_reply_size_def)
  have "overflows 1 (''*1'' @ crlf @ ''$9223372036854775807'' @ crlf)"
    using overflows_element [OF n(2)] by simp
  then have inner: "read_reply (begin_reply (r\<lparr>rd_rest := ''*1'' @ crlf @ ''$9223372036854775807'' @ crlf\<rparr>)) = Panics"
    by (rule panics_on) (simp add: max_reply_size_def)
  have "\<not> overflows 1 bytes" if t: "''$9223372036854775805'' @ crlf = bytes @ t" for bytes t
  proof
    assume "overflows 1 bytes"
    then obtain s where b: "bytes = CHR ''$'' # s @ crlf" "\<exists>n. parse_int64 s = Some n \<and> 2 ^ 63 \<le> n + 2"
      using t by cases auto
    then have "''9223372036854775805'' = s"
      using line_unique [of "''9223372036854775805''" s "[]" t] t parse_no_LF by auto
    then show False using b(2) n(3) by simp
  qed
  then have "read_reply (begin_reply (r\<lparr>rd_rest := ''$9223372036854775805'' @ crlf\<rparr>)) \<noteq> Panics"
    unfolding read_reply_panics_iff by fastforce
  then show ?thesis
    using whole inner by (simp add: read_reply_panics_iff [of r])
qed

text \<open>C34: What the reader returns is bounded whatever the peer sends: at most four levels deep, at most
  16384 elements in an array, as many bytes as the budget in all, every integer 64 bits wide and no
  line feed inside a line; and the budget never becomes negative. The element bound does refuse
  replies that would fit the budget: the header of 16385 elements is never read, although as many
  empty status lines take fewer than 65536 bytes.\<close>

theorem read_reply_bounds:
  "(case read_reply (begin_reply r) of
      Read v s \<Rightarrow> reply_ok v \<and> reply_depth v \<le> 4 \<and> reply_size v \<le> 65536
        \<and> 0 \<le> rd_remaining s \<and> rd_remaining s \<le> 65536
    | _ \<Rightarrow> True)
   \<and> read_reply (begin_reply (r\<lparr>rd_rest := ''*16385'' @ crlf @ body\<rparr>)) \<noteq> Read v s
   \<and> resp_seq 1 (concat (replicate 16385 (''+'' @ crlf))) (replicate 16385 (SimpleStringReply []))
   \<and> length (''*16385'' @ crlf @ concat (replicate 16385 (''+'' @ crlf))) < 65536"
proof -
  have "case read_reply (begin_reply r) of
      Read v s \<Rightarrow> reply_ok v \<and> reply_depth v \<le> 4 \<and> reply_size v \<le> 65536
        \<and> 0 \<le> rd_remaining s \<and> rd_remaining s \<le> 65536
    | _ \<Rightarrow> True"
  proof (cases "read_reply (begin_reply r)")
    case (Read v s)
    then obtain bytes where bytes: "resp 1 bytes v" "took (begin_reply r) bytes s"
      using read_reply_iff(1) [OF begin_budget] by blast
    then show ?thesis
      using resp_bounds(1) [OF bytes(1)] unfolding Read took_begin
      by (auto simp: max_reply_size_def max_depth_def)
  qed simp_all
  moreover have "read_reply (begin_reply (r\<lparr>rd_rest := ''*16385'' @ crlf @ body\<rparr>)) \<noteq> Read v s"
  proof
    let ?n = "''16385''"
    assume "read_reply (begin_reply (r\<lparr>rd_rest := ''*16385'' @ crlf @ body\<rparr>)) = Read v s"
    then obtain bytes where b: "resp 1 bytes v" "CHR ''*'' # ?n @ crlf @ body = bytes @ rd_rest s"
      unfolding read_reply_iff(1) [OF begin_budget] took_begin by auto
    have n: "parse_int64 ?n = Some 16385"
      by (simp add: parse_int64_def split_sign_def unsigned_digits_def is_digit_def
          decimal_value_def digit_value_def in_int64_def)
    obtain t x m where t: "bytes = CHR ''*'' # t @ crlf @ x" "parse_int64 t = Some m"
        "m = -1 \<or> m \<le> max_array_elements"
      using b by cases auto
    have "?n @ crlf @ body = t @ crlf @ (x @ rd_rest s)"
      using b(2) t(1) by simp
    then have "?n = t"
      using line_unique [OF parse_no_LF [OF n] parse_no_LF [OF t(2)]] by blast
    then show False using t n by (simp add: max_array_elements_def max_reply_size_def)
  qed
  moreover have "resp_seq 1 (concat (replicate k (''+'' @ crlf))) (replicate k (SimpleStringReply []))" for k
  proof (induction k)
    case (Suc k)
    have e: "resp (1 + 1) (''+'' @ crlf) (SimpleStringReply [])"
      using simple [of "1 + 1" "[]"] by (simp add: max_depth_def)
    show ?case using seq_Cons [OF e Suc] by simp
  qed (simp add: seq_Nil)
  moreover have "length (concat (replicate k (''+'' @ crlf))) = 3 * k" for k
    by (induction k) simp_all
  ultimately show ?thesis by simp
qed

text \<open>A command reads back as itself: under a fresh budget the bytes of \<open>encodeCommand\<close>, whatever follows
  them, read as the array of its parts, and the bytes that follow are what is left. No part can
  smuggle a second command into the stream.\<close>

theorem encode_command_roundtrip:
  assumes "encode_command parts = Inr bytes" "length bytes \<le> 65536" "length parts \<le> 16384"
  shows "read_reply (begin_reply (r\<lparr>rd_rest := bytes @ rest\<rparr>)) =
    Read (ArrayReply (map BulkReply parts))
      (r\<lparr>rd_rest := rest, rd_remaining := 65536 - int (length bytes)\<rparr>)"
proof -
  have "resp 1 bytes (ArrayReply (map BulkReply parts))"
    by (rule encode_command_resp [OF assms(1)])
      (use assms in \<open>simp_all add: max_reply_size_def max_array_elements_def\<close>)
  then show ?thesis
    unfolding read_reply_iff(1) [OF begin_budget] took_begin
    using assms(2) by (auto simp: max_reply_size_def)
qed

definition demo_reader :: "string \<Rightarrow> reader" where
  "demo_reader bytes = \<lparr>rd_rest = bytes, rd_end = EndOfFile, rd_remaining = 0\<rparr>"

lemma encode_frames: "encode_command [''HELLO''] = Inr hello_frame" "encode_command [''PING''] = Inr ping_frame"
  by (simp_all add: encode_command_def encode_part_def hello_frame_def ping_frame_def show_nat.simps
      digit_char_def char_of_def bit_0)

theorem encode_command_roundtrip_witness:
  "encode_command [''HELLO''] = Inr hello_frame
   \<and> read_reply (begin_reply (demo_reader (hello_frame @ ping_frame))) =
       Read (ArrayReply [BulkReply ''HELLO''])
         \<lparr>rd_rest = ping_frame, rd_end = EndOfFile, rd_remaining = 65521\<rparr>"
  using encode_frames(1) encode_command_roundtrip [of "[''HELLO'']" hello_frame ping_frame "demo_reader []"]
  by (simp add: demo_reader_def hello_frame_def)

text \<open>C23: AUTH reports acceptance exactly when the bytes the server sends start with \<open>+OK\<close>, and
  rejection exactly when they are an error line whose first word is WRONGPASS; either way it has sent
  one AUTH command and nothing else, and never sends one without a credential. No other reply, and
  no failure, is taken for either.\<close>

theorem send_auth_exact:
  "((\<exists>a d. send_auth username secret c = Done a d \<and> auth_accepted a) \<longleftrightarrow>
      secret \<noteq> [] \<and> \<not> cn_write_fails c \<and> (\<exists>t. rd_rest (cn_reader c) = ''+OK'' @ crlf @ t))
   \<and> ((\<exists>a d. send_auth username secret c = Done a d \<and> auth_rejected a) \<longleftrightarrow>
      secret \<noteq> [] \<and> \<not> cn_write_fails c
      \<and> (\<exists>text t. rd_rest (cn_reader c) = CHR ''-'' # text @ crlf @ t \<and> LF \<notin> set text
           \<and> error_token text = ''WRONGPASS'' \<and> length text \<le> 65533))
   \<and> (case send_auth username secret c of
        Done a d \<Rightarrow> \<exists>frame. cn_sent d = cn_sent c @ frame
          \<and> encode_command (''AUTH'' # (if username = [] then [] else [username]) @ [secret]) = Inr frame
      | _ \<Rightarrow> True)"
proof -
  let ?parts = "''AUTH'' # (if username = [] then [] else [username]) @ [secret]"
  obtain frame where frame: "encode_command ?parts = Inr frame"
    by (simp add: encode_command_def)
  have send: "send_auth username secret c =
      (if secret = [] then Failed ErrInvalidInput c else then_do (exchange frame c) (finish auth_of_reply))"
    using frame by (auto simp: send_auth_def)
  have sent: "send_auth username secret c = Done a d \<longleftrightarrow> secret \<noteq> [] \<and> \<not> cn_write_fails c
      \<and> (\<exists>v r bytes. resp 1 bytes v \<and> took (begin_reply (cn_reader c)) bytes r
          \<and> auth_of_reply v = Inr a \<and> d = c\<lparr>cn_reader := r, cn_sent := cn_sent c @ frame\<rparr>)" for a d
    unfolding send by (auto simp: then_do_Done finish_Done exchange_Done)
  have acc: "(\<exists>a. auth_of_reply v = Inr a \<and> auth_accepted a) \<longleftrightarrow> v = SimpleStringReply ''OK''" for v
    by (cases v) (auto simp: auth_of_reply_def auth_accepted_def classified_none)
  have rej: "(\<exists>a. auth_of_reply v = Inr a \<and> auth_rejected a) \<longleftrightarrow>
      (\<exists>text. v = ErrorReply text \<and> error_token text = ''WRONGPASS'')" for v
    by (cases v) (auto simp: auth_of_reply_def auth_rejected_def classify_wrongpass prefix_none_def)
  have reach: "(\<exists>r. took (begin_reply q) bytes r) \<longleftrightarrow>
      int (length bytes) \<le> max_reply_size \<and> (\<exists>t. rd_rest q = bytes @ t)" for q bytes
    unfolding took_begin
    by (auto intro!: exI [of _ "\<lparr>rd_rest = drop (length bytes) (rd_rest q), rd_end = rd_end q,
      rd_remaining = max_reply_size - int (length bytes)\<rparr>"])
  have some: "(\<exists>a d. send_auth username secret c = Done a d \<and> Q a) \<longleftrightarrow>
      secret \<noteq> [] \<and> \<not> cn_write_fails c \<and> (\<exists>v bytes. resp 1 bytes v
        \<and> (\<exists>r. took (begin_reply (cn_reader c)) bytes r) \<and> (\<exists>a. auth_of_reply v = Inr a \<and> Q a))" for Q
    unfolding sent by auto
  have "(\<exists>a d. send_auth username secret c = Done a d \<and> auth_accepted a) \<longleftrightarrow>
      secret \<noteq> [] \<and> \<not> cn_write_fails c \<and> (\<exists>t. rd_rest (cn_reader c) = ''+OK'' @ crlf @ t)"
    unfolding some acc reach by (auto simp: resp_simple_iff [unfolded One_nat_def] max_reply_size_def)
  moreover have "(\<exists>a d. send_auth username secret c = Done a d \<and> auth_rejected a) \<longleftrightarrow>
      secret \<noteq> [] \<and> \<not> cn_write_fails c
      \<and> (\<exists>text t. rd_rest (cn_reader c) = CHR ''-'' # text @ crlf @ t \<and> LF \<notin> set text
           \<and> error_token text = ''WRONGPASS'' \<and> length text \<le> 65533)"
  proof -
    have "(\<exists>v bytes. resp 1 bytes v \<and> (\<exists>r. took (begin_reply (cn_reader c)) bytes r)
          \<and> (\<exists>text. v = ErrorReply text \<and> error_token text = ''WRONGPASS''))
        \<longleftrightarrow> (\<exists>text bytes. resp 1 bytes (ErrorReply text) \<and> (\<exists>r. took (begin_reply (cn_reader c)) bytes r)
          \<and> error_token text = ''WRONGPASS'')" by blast
    also have "\<dots> \<longleftrightarrow> (\<exists>text. LF \<notin> set text \<and> length text \<le> 65533 \<and> error_token text = ''WRONGPASS''
          \<and> (\<exists>t. rd_rest (cn_reader c) = (CHR ''-'' # text @ crlf) @ t))"
      unfolding resp_error_iff reach by (auto simp: max_reply_size_def)
    finally show ?thesis
      unfolding some rej by (simp only: append_Cons append_assoc) blast
  qed
  moreover have "case send_auth username secret c of
        Done a d \<Rightarrow> \<exists>frame. cn_sent d = cn_sent c @ frame \<and> encode_command ?parts = Inr frame
      | _ \<Rightarrow> True"
  proof (cases "send_auth username secret c")
    case (Done a d)
    then obtain r where "d = c\<lparr>cn_reader := r, cn_sent := cn_sent c @ frame\<rparr>"
      using sent by blast
    then show ?thesis using frame by (simp add: Done)
  qed simp_all
  ultimately show ?thesis by blast
qed

fun pairs_of :: "reply list \<Rightarrow> (string \<times> reply) list" where
  "pairs_of (k # v # rest) = (case string_value k of None \<Rightarrow> [] | Some key \<Rightarrow> [(key, v)]) @ pairs_of rest"
| "pairs_of _ = []"

definition last_under :: "string \<Rightarrow> reply list \<Rightarrow> reply option" where
  "last_under key items = map_of (rev (pairs_of items)) key"

definition identity_text :: "string \<Rightarrow> bool" where
  "identity_text s \<longleftrightarrow> length s \<le> 128 \<and> (\<forall>c\<in>set s. 0x20 \<le> code c \<and> code c \<le> 0x7e)"

definition field_value :: "(reply \<Rightarrow> string) \<Rightarrow> reply option \<Rightarrow> string" where
  "field_value f v = (case v of None \<Rightarrow> [] | Some r \<Rightarrow> f r)"

lemma hello_pairs_fold:
  "hello_pairs items h = fold (\<lambda>(key, v). hello_field key v) (pairs_of items) h"
  by (induction items h rule: hello_pairs.induct) (simp_all split: option.split)

lemma fold_last:
  assumes "\<And>k v h. g (f k v h) = (if k = key then w v else g h)"
  shows "g (fold (\<lambda>(k, v). f k v) ps h) = (case map_of (rev ps) key of None \<Rightarrow> g h | Some v \<Rightarrow> w v)"
  by (induction ps arbitrary: h) (auto simp: assms map_add_def split: option.split)

lemma hello_field_reads:
  "he_prefix (hello_field k v h) = he_prefix h"
  "he_server (hello_field k v h) = (if k = ''server'' then identity_value v else he_server h)"
  "he_version (hello_field k v h) = (if k = ''version'' then identity_value v else he_version h)"
  "he_mode (hello_field k v h) = (if k = ''mode'' then closed_value v modes else he_mode h)"
  "he_role (hello_field k v h) = (if k = ''role'' then closed_value v roles else he_role h)"
  by (simp_all add: hello_field_def split: reply.split)

lemma hello_pairs_fields:
  "he_prefix (hello_pairs items h) = he_prefix h"
  "he_server (hello_pairs items h) = (case last_under ''server'' items of
      None \<Rightarrow> he_server h | Some v \<Rightarrow> identity_value v)"
  "he_version (hello_pairs items h) = (case last_under ''version'' items of
      None \<Rightarrow> he_version h | Some v \<Rightarrow> identity_value v)"
  "he_mode (hello_pairs items h) = (case last_under ''mode'' items of
      None \<Rightarrow> he_mode h | Some v \<Rightarrow> closed_value v modes)"
  "he_role (hello_pairs items h) = (case last_under ''role'' items of
      None \<Rightarrow> he_role h | Some v \<Rightarrow> closed_value v roles)"
proof -
  have "he_prefix (fold (\<lambda>(key, v). hello_field key v) ps h) = he_prefix h" for ps
    by (induction ps arbitrary: h) (auto simp: hello_field_reads)
  then show "he_prefix (hello_pairs items h) = he_prefix h"
    by (simp add: hello_pairs_fold)
qed (simp_all only: hello_pairs_fold last_under_def fold_last [OF hello_field_reads(2)]
  fold_last [OF hello_field_reads(3)] fold_last [OF hello_field_reads(4)] fold_last [OF hello_field_reads(5)])

lemma identity_value_text: "identity_text (identity_value v)"
  by (auto simp: identity_value_def identity_text_def max_identity_len_def list_ex_iff not_less
      split: option.split)

lemma closed_value_in: "closed_value v allowed \<in> insert [] (set allowed)"
  by (auto simp: closed_value_def split: option.split)

lemma classify_range: "classify_error_text t \<in> insert prefix_unrecognized (snd ` set classified)"
  by (force simp: classify_error_text_def dest: map_of_SomeD split: option.split)

text \<open>What HELLO reports comes from closed vocabularies whatever the server sends: a known error word, a
  known mode and role, and short printable identities; and an answered HELLO carries for each field
  the last value the reply gives under that key.\<close>

theorem send_hello_vocabulary:
  "case send_hello c of
     Done h d \<Rightarrow> he_prefix h \<in> {prefix_none, prefix_unrecognized} \<union> snd ` set classified
       \<and> he_mode h \<in> {[], ''standalone'', ''cluster'', ''sentinel''}
       \<and> he_role h \<in> {[], ''master'', ''replica''}
       \<and> identity_text (he_server h) \<and> identity_text (he_version h)
       \<and> (hello_answered h \<longleftrightarrow> (\<exists>items s. read_reply (begin_reply (cn_reader c)) = Read (ArrayReply items) s
            \<and> even (length items)
            \<and> he_server h = field_value identity_value (last_under ''server'' items)
            \<and> he_version h = field_value identity_value (last_under ''version'' items)
            \<and> he_mode h = field_value (\<lambda>v. closed_value v modes) (last_under ''mode'' items)
            \<and> he_role h = field_value (\<lambda>v. closed_value v roles) (last_under ''role'' items)))
   | _ \<Rightarrow> True"
proof (cases "send_hello c")
  case (Done h d)
  then obtain v s where v: "read_reply (begin_reply (cn_reader c)) = Read v s" "hello_of_reply v = Inr h"
    by (auto simp: send_hello_def then_do_Done finish_Done exchange_def split: if_splits read_result.splits)
  show ?thesis
  proof (cases v)
    case (ArrayReply items)
    then have "even (length items)" "h = hello_pairs items no_hello"
      using v(2) by (auto simp: hello_of_reply_def normalize_hello_def split: if_splits)
    then show ?thesis
      using v(1) ArrayReply Done identity_value_text closed_value_in [of _ modes] closed_value_in [of _ roles]
      by (auto simp: hello_pairs_fields hello_answered_def no_hello_def field_value_def modes_def
          roles_def identity_text_def split: option.split)
  next
    case (ErrorReply msg)
    then have h: "h = no_hello\<lparr>he_prefix := classify_error_text msg\<rparr>"
      using v(2) by (simp add: hello_of_reply_def)
    then show ?thesis
      using v(1) Done classified_none [of msg] classify_range [of msg]
      by (auto simp: h ErrorReply hello_answered_def no_hello_def identity_text_def)
  qed (use v(2) in \<open>simp_all add: hello_of_reply_def\<close>)
qed simp_all

end
