(* ===== verification/AmqpTable.thy ===== *)
theory AmqpTable
  imports Prelude ByteOrder
begin

text \<open>
  Reading and writing AMQP 0-9-1 values (\<open>adapter/rabbitmq/wire/table.go\<close>): the cursor over a frame's
  bytes, short and long strings, and the walk over the top level of a field table, which reads the
  four wanted strings and skips everything else by its declared length. Integers keep their widths.
\<close>

datatype close_outcome =
  CloseUnspecified | CloseUnspecifiedTruncated | CloseVHostNotFound | CloseVHostAccessRefused
  | CloseNodeConnectionLimit | CloseVHostConnectionLimit | CloseUserConnectionLimit

record refusal =
  rf_reply_code :: "16 word"
  rf_outcome :: close_outcome
  rf_peer_class :: "16 word"
  rf_peer_method :: "16 word"

datatype amqp_error =
  ErrMalformedFrame | ErrUnexpectedFrame | AmqpPeerClosed | ErrNotAMQP091 | ErrPlainNotOffered
  | ErrSecureChallenge | ErrTuneUnsupported | AmqpInvalidInput | AmqpTransport | ErrRefused refusal

subsection \<open>Reading\<close>

record cursor =
  cur_bytes :: string
  cur_off :: nat

definition cursor_on :: "string \<Rightarrow> cursor" where
  "cursor_on s = \<lparr>cur_bytes = s, cur_off = 0\<rparr>"

definition cur_remaining :: "cursor \<Rightarrow> int" where
  "cur_remaining c = int (length (cur_bytes c)) - int (cur_off c)"

definition cur_take :: "int \<Rightarrow> cursor \<Rightarrow> amqp_error + string \<times> cursor" where
  "cur_take n c =
     (if n < 0 \<or> cur_remaining c < n then Inl ErrMalformedFrame
      else Inr (take (nat n) (drop (cur_off c) (cur_bytes c)), c\<lparr>cur_off := cur_off c + nat n\<rparr>))"

definition cur_u8 :: "cursor \<Rightarrow> amqp_error + 8 word \<times> cursor" where
  "cur_u8 c = rbind (cur_take 1 c) (\<lambda>(b, c'). Inr (of_nat (from_big_endian b), c'))"

definition cur_u16 :: "cursor \<Rightarrow> amqp_error + 16 word \<times> cursor" where
  "cur_u16 c = rbind (cur_take 2 c) (\<lambda>(b, c'). Inr (of_nat (from_big_endian b), c'))"

definition cur_u32 :: "cursor \<Rightarrow> amqp_error + 32 word \<times> cursor" where
  "cur_u32 c = rbind (cur_take 4 c) (\<lambda>(b, c'). Inr (of_nat (from_big_endian b), c'))"

definition cur_shortstr :: "cursor \<Rightarrow> amqp_error + string \<times> cursor" where
  "cur_shortstr c = rbind (cur_u8 c) (\<lambda>(n, c'). cur_take (uint n) c')"

definition cur_longstr :: "cursor \<Rightarrow> amqp_error + string \<times> cursor" where
  "cur_longstr c = rbind (cur_u32 c) (\<lambda>(n, c').
     if cur_remaining c' < uint n then Inl ErrMalformedFrame else cur_take (uint n) c')"

subsection \<open>Field tables\<close>

definition fixed_field_size :: "(char \<times> int) list" where
  "fixed_field_size =
    [(CHR ''t'', 1), (CHR ''b'', 1), (CHR ''B'', 1), (CHR ''s'', 2), (CHR ''u'', 2), (CHR ''I'', 4),
     (CHR ''i'', 4), (CHR ''l'', 8), (CHR ''L'', 8), (CHR ''f'', 4), (CHR ''d'', 8), (CHR ''D'', 5),
     (CHR ''T'', 8), (CHR ''V'', 0)]"

definition var_field_type :: "char \<Rightarrow> bool" where
  "var_field_type t \<longleftrightarrow> t \<in> {CHR ''S'', CHR ''x'', CHR ''A'', CHR ''F''}"

definition wanted :: "string list" where
  "wanted = [''product'', ''version'', ''platform'', ''cluster_name'']"

type_synonym properties = "string \<Rightarrow> string option"

definition walk_value :: "string \<Rightarrow> char \<Rightarrow> properties \<Rightarrow> cursor \<Rightarrow> amqp_error + properties \<times> cursor" where
  "walk_value name typ out c =
     (if typ = CHR ''S'' then
        rbind (cur_longstr c) (\<lambda>(v, c'). Inr (if name \<in> set wanted then out(name \<mapsto> v) else out, c'))
      else if var_field_type typ then
        rbind (cur_u32 c) (\<lambda>(n, c').
          if cur_remaining c' < uint n then Inl ErrMalformedFrame
          else rbind (cur_take (uint n) c') (\<lambda>(_, c''). Inr (out, c'')))
      else case map_of fixed_field_size typ of
          None \<Rightarrow> Inl ErrMalformedFrame
        | Some width \<Rightarrow> rbind (cur_take width c) (\<lambda>(_, c'). Inr (out, c')))"

definition walk_entry :: "properties \<Rightarrow> cursor \<Rightarrow> amqp_error + properties \<times> cursor" where
  "walk_entry out c =
     rbind (cur_u8 c) (\<lambda>(name_len, c1).
     rbind (cur_take (uint name_len) c1) (\<lambda>(name, c2).
     rbind (cur_u8 c2) (\<lambda>(typ, c3).
     walk_value name (char_of (unat typ)) out c3)))"

definition advanced :: "cursor \<Rightarrow> string \<Rightarrow> cursor \<Rightarrow> bool" where
  "advanced c bytes d \<longleftrightarrow> cur_bytes d = cur_bytes c \<and> cur_off d = cur_off c + length bytes
     \<and> drop (cur_off c) (cur_bytes c) = bytes @ drop (cur_off d) (cur_bytes d)
     \<and> cur_off d \<le> length (cur_bytes c)"

lemma advanced_append: "advanced c (a @ b) e \<longleftrightarrow> (\<exists>d. advanced c a d \<and> advanced d b e)"
proof
  assume ab: "advanced c (a @ b) e"
  have "drop (cur_off c) (cur_bytes c) = a @ (b @ drop (cur_off e) (cur_bytes e))"
    using ab by (simp add: advanced_def)
  from arg_cong [OF this, of "drop (length a)"]
  have "drop (cur_off c + length a) (cur_bytes c) = b @ drop (cur_off e) (cur_bytes e)"
    by (simp add: add.commute)
  then have "advanced c a (c\<lparr>cur_off := cur_off c + length a\<rparr>)
      \<and> advanced (c\<lparr>cur_off := cur_off c + length a\<rparr>) b e"
    using ab by (simp add: advanced_def add.assoc)
  then show "\<exists>d. advanced c a d \<and> advanced d b e" by blast
qed (auto simp: advanced_def)

lemma cur_take_Inr:
  assumes "cur_off c \<le> length (cur_bytes c)"
  shows "cur_take n c = Inr (bytes, d) \<longleftrightarrow> n = int (length bytes) \<and> advanced c bytes d"
proof
  assume t: "cur_take n c = Inr (bytes, d)"
  then have "0 \<le> n" "nat n \<le> length (cur_bytes c) - cur_off c"
      "bytes = take (nat n) (drop (cur_off c) (cur_bytes c))" "d = c\<lparr>cur_off := cur_off c + nat n\<rparr>"
    using assms by (auto simp: cur_take_def cur_remaining_def split: if_splits)
  moreover have "drop (cur_off c) (cur_bytes c) =
      take (nat n) (drop (cur_off c) (cur_bytes c)) @ drop (cur_off c + nat n) (cur_bytes c)"
    by (metis add.commute append_take_drop_id drop_drop)
  ultimately show "n = int (length bytes) \<and> advanced c bytes d"
    using assms by (auto simp: advanced_def)
next
  assume a: "n = int (length bytes) \<and> advanced c bytes d"
  then have "take (length bytes) (drop (cur_off c) (cur_bytes c)) = bytes"
    by (simp add: advanced_def)
  then show "cur_take n c = Inr (bytes, d)"
    using a by (cases c; cases d) (auto simp: cur_take_def cur_remaining_def advanced_def)
qed

lemma advanced_off: "advanced c bytes d \<Longrightarrow> cur_off d \<le> length (cur_bytes d)"
  by (simp add: advanced_def)

lemma cur_u8_Inr:
  assumes "cur_off c \<le> length (cur_bytes c)"
  shows "cur_u8 c = Inr (n, d) \<longleftrightarrow> advanced c [char_of (unat n)] d"
proof -
  have w: "unat (of_nat (code b) :: 8 word) = code b" for b
    by (simp add: unat_of_nat)
  have "cur_u8 c = Inr (n, d) \<longleftrightarrow> (\<exists>b. length b = 1 \<and> advanced c b d \<and> n = of_nat (from_big_endian b))"
    by (auto simp: cur_u8_def rbind_Inr_iff cur_take_Inr [OF assms])
  also have "\<dots> \<longleftrightarrow> (\<exists>b. advanced c [b] d \<and> n = of_nat (code b))"
    by (auto simp: length_Suc_conv)
  also have "\<dots> \<longleftrightarrow> advanced c [char_of (unat n)] d"
  proof -
    have "code (char_of (unat n) :: char) = unat n"
    proof -
      have "unat n < 2 ^ LENGTH(8)" by (rule unsigned_less)
      then show ?thesis by simp
    qed
    moreover have eq: "n = of_nat (code b) \<longleftrightarrow> unat n = code b" for b
      using w [of b] by (simp add: word_unat_eq_iff)
    moreover have "char_of (unat n) = b" if "unat n = code b" for b
      using that by simp
    ultimately show ?thesis by metis
  qed
  finally show ?thesis .
qed

lemma cur_u32_Inr:
  assumes "cur_off c \<le> length (cur_bytes c)"
  shows "cur_u32 c = Inr (n, d) \<longleftrightarrow>
    (\<exists>b. length b = 4 \<and> advanced c b d \<and> unat n = from_big_endian b)"
proof -
  have w: "n = of_nat (from_big_endian b) \<longleftrightarrow> unat n = from_big_endian b" if "length b = 4" for b
  proof -
    have "unat (of_nat (from_big_endian b) :: 32 word) = from_big_endian b"
      using from_big_endian_less [of b] that by (simp add: unat_of_nat)
    then show ?thesis by (simp add: word_unat_eq_iff)
  qed
  have "cur_u32 c = Inr (n, d) \<longleftrightarrow> (\<exists>b. length b = 4 \<and> advanced c b d \<and> n = of_nat (from_big_endian b))"
    by (auto simp: cur_u32_def rbind_Inr_iff cur_take_Inr [OF assms])
  then show ?thesis using w by blast
qed

text \<open>The bytes of a value of each type, and what the walk keeps of it.\<close>

definition long_bytes :: "string \<Rightarrow> string \<Rightarrow> bool" where
  "long_bytes bytes v \<longleftrightarrow> (\<exists>n. length n = 4 \<and> from_big_endian n = length v \<and> bytes = n @ v)"

definition value_bytes :: "char \<Rightarrow> string \<Rightarrow> string option \<Rightarrow> bool" where
  "value_bytes t bytes kept \<longleftrightarrow>
     t = CHR ''S'' \<and> (\<exists>v. long_bytes bytes v \<and> kept = Some v)
     \<or> t \<in> {CHR ''x'', CHR ''A'', CHR ''F''} \<and> (\<exists>v. long_bytes bytes v) \<and> kept = None
     \<or> map_of fixed_field_size t = Some (int (length bytes)) \<and> kept = None"

lemma unat_eq_uint: "unat n = k \<longleftrightarrow> uint n = int k" for n :: "'a::len word"
  by transfer auto

lemma cur_u32_take:
  assumes "cur_off c \<le> length (cur_bytes c)"
  shows "rbind (cur_u32 c) (\<lambda>(n, c'). if cur_remaining c' < uint n then Inl ErrMalformedFrame
      else cur_take (uint n) c') = Inr (v, d) \<longleftrightarrow> (\<exists>bytes. long_bytes bytes v \<and> advanced c bytes d)"
proof -
  have take: "(if cur_remaining c' < uint n then Inl ErrMalformedFrame else cur_take (uint n) c') = Inr (v, d)
      \<longleftrightarrow> unat n = length v \<and> advanced c' v d" if "cur_off c' \<le> length (cur_bytes c')" for n :: "32 word" and c'
  proof -
    have "unat n = length v \<longleftrightarrow> uint n = int (length v)"
      by (rule unat_eq_uint)
    moreover have "cur_take (uint n) c' = Inr (v, d) \<Longrightarrow> \<not> cur_remaining c' < uint n"
      by (auto simp: cur_take_def split: if_splits)
    ultimately show ?thesis using cur_take_Inr [OF that, of "uint n" v d] by auto
  qed
  have "rbind (cur_u32 c) (\<lambda>(n, c'). if cur_remaining c' < uint n then Inl ErrMalformedFrame
      else cur_take (uint n) c') = Inr (v, d)
      \<longleftrightarrow> (\<exists>(n :: 32 word) c' b. length b = 4 \<and> advanced c b c' \<and> unat n = from_big_endian b \<and> unat n = length v \<and> advanced c' v d)"
  proof -
    have "rbind (cur_u32 c) (\<lambda>(n, c'). if cur_remaining c' < uint n then Inl ErrMalformedFrame
        else cur_take (uint n) c') = Inr (v, d)
      \<longleftrightarrow> (\<exists>(n :: 32 word) c'. (\<exists>b. length b = 4 \<and> advanced c b c' \<and> unat n = from_big_endian b)
          \<and> (if cur_remaining c' < uint n then Inl ErrMalformedFrame else cur_take (uint n) c') = Inr (v, d))"
      by (simp only: rbind_Inr_iff split_paired_Ex prod.case cur_u32_Inr [OF assms])
    then show ?thesis using take advanced_off by blast
  qed
  also have "\<dots> \<longleftrightarrow> (\<exists>bytes. long_bytes bytes v \<and> advanced c bytes d)"
  proof
    assume "\<exists>bytes. long_bytes bytes v \<and> advanced c bytes d"
    then obtain b where b: "length b = 4" "from_big_endian b = length v" "advanced c (b @ v) d"
      by (auto simp: long_bytes_def)
    have "from_big_endian b < 2 ^ LENGTH(32)"
      using from_big_endian_less [of b] b(1) by simp
    then have "unat (of_nat (from_big_endian b) :: 32 word) = from_big_endian b"
      by (simp add: unat_of_nat)
    then show "\<exists>n c' b. length b = 4 \<and> advanced c b c' \<and> unat (n :: 32 word) = from_big_endian b
        \<and> unat n = length v \<and> advanced c' v d"
      using b advanced_append by metis
  next
    assume "\<exists>n c' b. length b = 4 \<and> advanced c b c' \<and> unat (n :: 32 word) = from_big_endian b
        \<and> unat n = length v \<and> advanced c' v d"
    then show "\<exists>bytes. long_bytes bytes v \<and> advanced c bytes d"
      unfolding long_bytes_def using advanced_append by metis
  qed
  finally show ?thesis .
qed

lemma cur_longstr_Inr:
  assumes "cur_off c \<le> length (cur_bytes c)"
  shows "cur_longstr c = Inr (v, d) \<longleftrightarrow> (\<exists>bytes. long_bytes bytes v \<and> advanced c bytes d)"
  unfolding cur_longstr_def by (rule cur_u32_take [OF assms])

definition keep :: "string \<Rightarrow> string option \<Rightarrow> properties \<Rightarrow> properties" where
  "keep name kept out = (case kept of
       Some v \<Rightarrow> if name \<in> set wanted then out(name \<mapsto> v) else out | None \<Rightarrow> out)"

lemma fixed_not_var: "map_of fixed_field_size t = Some w \<Longrightarrow> t \<noteq> CHR ''S'' \<and> \<not> var_field_type t \<and> 0 \<le> w"
  by (auto simp: fixed_field_size_def var_field_type_def split: if_splits)

lemma walk_value_Inr:
  assumes c: "cur_off c \<le> length (cur_bytes c)"
  shows "walk_value name t out c = Inr (out', d) \<longleftrightarrow>
    (\<exists>bytes kept. value_bytes t bytes kept \<and> advanced c bytes d \<and> out' = keep name kept out)"
proof -
  consider "t = CHR ''S''" | "t \<noteq> CHR ''S''" "var_field_type t" | "t \<noteq> CHR ''S''" "\<not> var_field_type t" by blast
  then show ?thesis
  proof cases
    case 1
    have "map_of fixed_field_size t = None" using fixed_not_var 1 by (cases "map_of fixed_field_size t") auto
    then have vb: "value_bytes t bytes kept \<longleftrightarrow> (\<exists>v. long_bytes bytes v \<and> kept = Some v)" for bytes kept
      using 1 by (auto simp: value_bytes_def)
    have "walk_value name t out c = Inr (out', d) \<longleftrightarrow>
        (\<exists>v. cur_longstr c = Inr (v, d) \<and> out' = keep name (Some v) out)"
      using 1 by (auto simp: walk_value_def rbind_Inr_iff keep_def)
    then show ?thesis unfolding cur_longstr_Inr [OF c] vb by blast
  next
    case 2
    have "map_of fixed_field_size t = None" using fixed_not_var 2 by (cases "map_of fixed_field_size t") auto
    then have vb: "value_bytes t bytes kept \<longleftrightarrow> (\<exists>v. long_bytes bytes v) \<and> kept = None" for bytes kept
      using 2 by (auto simp: value_bytes_def var_field_type_def)
    have "walk_value name t out c = rbind (cur_longstr c) (\<lambda>(_, c'). Inr (out, c'))"
      using 2 by (auto simp: walk_value_def cur_longstr_def rbind_def split: sum.splits prod.splits)
    then have "walk_value name t out c = Inr (out', d) \<longleftrightarrow> (\<exists>v. cur_longstr c = Inr (v, d)) \<and> out' = out"
      by (auto simp: rbind_Inr_iff)
    then show ?thesis unfolding cur_longstr_Inr [OF c] vb by (auto simp: keep_def)
  next
    case 3
    then have vb: "value_bytes t bytes kept \<longleftrightarrow> map_of fixed_field_size t = Some (int (length bytes)) \<and> kept = None"
      for bytes kept
      by (auto simp: value_bytes_def var_field_type_def)
    have "walk_value name t out c = Inr (out', d) \<longleftrightarrow>
        (\<exists>w bytes. map_of fixed_field_size t = Some w \<and> cur_take w c = Inr (bytes, d) \<and> out' = out)"
      using 3 by (auto simp: walk_value_def rbind_Inr_iff split: option.splits)
    then show ?thesis unfolding cur_take_Inr [OF c] vb by (auto simp: keep_def)
  qed
qed

lemma unat_length_name: "length name < 256 \<Longrightarrow> unat (of_nat (length name) :: 8 word) = length name"
  by (simp add: unat_of_nat)

lemma walk_entry_Inr:
  assumes c: "cur_off c \<le> length (cur_bytes c)"
  shows "walk_entry out c = Inr (out', d) \<longleftrightarrow>
    (\<exists>name t bytes kept. length name < 256 \<and> value_bytes t bytes kept
       \<and> advanced c ([char_of (length name)] @ name @ [t] @ bytes) d \<and> out' = keep name kept out)"
    (is "?L \<longleftrightarrow> ?R")
proof -
  have "?L \<longleftrightarrow> (\<exists>(n :: 8 word) c1 name c2 (m :: 8 word) c3. cur_u8 c = Inr (n, c1)
      \<and> cur_take (uint n) c1 = Inr (name, c2) \<and> cur_u8 c2 = Inr (m, c3)
      \<and> walk_value name (char_of (unat m)) out c3 = Inr (out', d))"
    by (simp add: walk_entry_def rbind_Inr_iff split_paired_Ex)
  also have "\<dots> \<longleftrightarrow> (\<exists>(n :: 8 word) c1 name c2 (m :: 8 word) c3 bytes kept. advanced c [char_of (unat n)] c1
      \<and> unat n = length name \<and> advanced c1 name c2 \<and> advanced c2 [char_of (unat m)] c3
      \<and> value_bytes (char_of (unat m)) bytes kept \<and> advanced c3 bytes d \<and> out' = keep name kept out)"
  proof -
    have step: "cur_u8 c = Inr (n, c1) \<and> cur_take (uint n) c1 = Inr (name, c2) \<and> cur_u8 c2 = Inr (m, c3)
        \<and> walk_value name (char_of (unat m)) out c3 = Inr (out', d)
      \<longleftrightarrow> advanced c [char_of (unat n)] c1 \<and> unat n = length name \<and> advanced c1 name c2
        \<and> advanced c2 [char_of (unat m)] c3 \<and> (\<exists>bytes kept. value_bytes (char_of (unat m)) bytes kept
        \<and> advanced c3 bytes d \<and> out' = keep name kept out)"
      for n m :: "8 word" and c1 name c2 c3
    proof (cases "advanced c [char_of (unat n)] c1 \<and> unat n = length name \<and> advanced c1 name c2
        \<and> advanced c2 [char_of (unat m)] c3")
      case True
      then have o: "cur_off c1 \<le> length (cur_bytes c1)" "cur_off c2 \<le> length (cur_bytes c2)"
          "cur_off c3 \<le> length (cur_bytes c3)"
        using advanced_off by blast+
      show ?thesis
        using True unat_eq_uint [of n "length name"] unfolding cur_u8_Inr [OF c] cur_take_Inr [OF o(1)]
          cur_u8_Inr [OF o(2)] walk_value_Inr [OF o(3)] by simp
    next
      case False
      have "cur_take (uint n) c1 = Inr (name, c2) \<longleftrightarrow> unat n = length name \<and> advanced c1 name c2"
        if "advanced c [char_of (unat n)] c1"
        using cur_take_Inr [OF advanced_off [OF that]] unat_eq_uint [of n "length name"] by simp
      moreover have "cur_u8 c2 = Inr (m, c3) \<longleftrightarrow> advanced c2 [char_of (unat m)] c3" if "advanced c1 name c2"
        by (rule cur_u8_Inr [OF advanced_off [OF that]])
      ultimately show ?thesis using False unfolding cur_u8_Inr [OF c] by blast
    qed
    show ?thesis unfolding step by blast
  qed
  also have "\<dots> \<longleftrightarrow> ?R"
  proof
    assume "\<exists>(n :: 8 word) c1 name c2 (m :: 8 word) c3 bytes kept. advanced c [char_of (unat n)] c1
      \<and> unat n = length name \<and> advanced c1 name c2 \<and> advanced c2 [char_of (unat m)] c3
      \<and> value_bytes (char_of (unat m)) bytes kept \<and> advanced c3 bytes d \<and> out' = keep name kept out"
    then obtain n :: "8 word" and c1 name c2 and m :: "8 word" and c3 bytes kept where
        *: "advanced c [char_of (unat n)] c1" "unat n = length name" "advanced c1 name c2"
          "advanced c2 [char_of (unat m)] c3" "value_bytes (char_of (unat m)) bytes kept" "advanced c3 bytes d"
          "out' = keep name kept out" by blast
    have "unat n < 2 ^ LENGTH(8)" by (rule unsigned_less)
    moreover have "advanced c ([char_of (length name)] @ name @ [char_of (unat m)] @ bytes) d"
      unfolding advanced_append using * by metis
    ultimately show ?R using * by fastforce
  next
    assume ?R
    then obtain name t bytes kept where *: "length name < 256" "value_bytes t bytes kept"
        "advanced c ([char_of (length name)] @ name @ [t] @ bytes) d" "out' = keep name kept out" by blast
    obtain c1 c2 c3 where "advanced c [char_of (length name)] c1" "advanced c1 name c2" "advanced c2 [t] c3"
        "advanced c3 bytes d"
      using *(3) unfolding advanced_append by blast
    moreover have "unat (of_nat (code t) :: 8 word) = code t" by (simp add: unat_of_nat)
    ultimately show "\<exists>(n :: 8 word) c1 name c2 (m :: 8 word) c3 bytes kept. advanced c [char_of (unat n)] c1
      \<and> unat n = length name \<and> advanced c1 name c2 \<and> advanced c2 [char_of (unat m)] c3
      \<and> value_bytes (char_of (unat m)) bytes kept \<and> advanced c3 bytes d \<and> out' = keep name kept out"
      using * unat_length_name [OF *(1)]
      by (intro exI [of _ "of_nat (length name)"] exI [of _ c1] exI [of _ name] exI [of _ c2]
          exI [of _ "of_nat (code t)"] exI [of _ c3] exI [of _ bytes] exI [of _ kept]) simp
  qed
  finally show ?thesis .
qed

lemma walk_entry_progress:
  assumes "walk_entry out c = Inr (out', d)"
  shows "cur_off c + 2 \<le> cur_off d \<and> cur_off d \<le> length (cur_bytes c) \<and> cur_bytes d = cur_bytes c"
proof (cases "cur_off c \<le> length (cur_bytes c)")
  case True
  then show ?thesis using assms unfolding walk_entry_Inr [OF True] by (auto simp: advanced_def)
next
  case False
  then have "walk_entry out c = Inl ErrMalformedFrame"
    by (simp add: walk_entry_def cur_u8_def cur_take_def cur_remaining_def)
  then show ?thesis using assms by simp
qed

function walk_loop :: "nat \<Rightarrow> properties \<Rightarrow> cursor \<Rightarrow> amqp_error + properties \<times> cursor" where
  "walk_loop stop out c =
     (if cur_off c < stop then
        (case walk_entry out c of
           Inl e \<Rightarrow> Inl e
         | Inr (out', c') \<Rightarrow> walk_loop stop out' c')
      else if cur_off c \<noteq> stop then Inl ErrMalformedFrame
      else Inr (out, c))"
  by pat_completeness auto

termination walk_loop
proof (relation "measure (\<lambda>(stop, out, c). length (cur_bytes c) - cur_off c)", goal_cases)
  case (2 stop out c r out' c')
  then show ?case using walk_entry_progress [of out c out' c'] by auto
qed simp

declare walk_loop.simps [simp del]

definition walk_top_level_table :: "cursor \<Rightarrow> int \<Rightarrow> amqp_error + properties \<times> cursor" where
  "walk_top_level_table c declared =
     (if declared < 0 \<or> cur_remaining c < declared then Inl ErrMalformedFrame
      else walk_loop (cur_off c + nat declared) Map.empty c)"

text \<open>The bytes of a table and the pairs the walk keeps of it, in the order they stand.\<close>

inductive table_bytes :: "string \<Rightarrow> (string \<times> string) list \<Rightarrow> bool" where
  no_entry: "table_bytes [] []"
| entry: "length name < 256 \<Longrightarrow> value_bytes t bytes kept \<Longrightarrow> table_bytes rest kvs \<Longrightarrow>
    table_bytes ([char_of (length name)] @ name @ [t] @ bytes @ rest)
      ((case kept of Some v \<Rightarrow> if name \<in> set wanted then [(name, v)] else [] | None \<Rightarrow> []) @ kvs)"

definition put_all :: "(string \<times> string) list \<Rightarrow> properties \<Rightarrow> properties" where
  "put_all kvs out = out ++ map_of (rev kvs)"

lemma put_all_Nil [simp]: "put_all [] out = out"
  by (simp add: put_all_def)

lemma put_all_entry:
  "put_all ((case kept of Some v \<Rightarrow> if name \<in> set wanted then [(name, v)] else [] | None \<Rightarrow> []) @ kvs) out
     = put_all kvs (keep name kept out)"
  by (auto simp: put_all_def keep_def map_add_assoc split: option.split)

lemma walk_loop_sound:
  "walk_loop stop out c = Inr (out', d) \<Longrightarrow> cur_off c \<le> stop \<Longrightarrow> cur_off c \<le> length (cur_bytes c) \<Longrightarrow>
     \<exists>bytes kvs. cur_off c + length bytes = stop \<and> table_bytes bytes kvs \<and> advanced c bytes d
       \<and> out' = put_all kvs out"
proof (induction stop out c rule: walk_loop.induct)
  case (1 stop out c)
  show ?case
  proof (cases "cur_off c < stop")
    case True
    then obtain out1 c1 where e: "walk_entry out c = Inr (out1, c1)" "walk_loop stop out1 c1 = Inr (out', d)"
      using 1(2) by (subst (asm) walk_loop.simps) (auto split: sum.splits)
    have off1: "cur_off c1 \<le> stop"
    proof (rule ccontr)
      assume "\<not> cur_off c1 \<le> stop"
      then show False using e(2) by (subst (asm) walk_loop.simps) simp
    qed
    obtain name t bytes kept where *: "length name < 256" "value_bytes t bytes kept"
        "advanced c ([char_of (length name)] @ name @ [t] @ bytes) c1" "out1 = keep name kept out"
      using e(1) unfolding walk_entry_Inr [OF 1(4)] by blast
    obtain rest kvs where r: "cur_off c1 + length rest = stop" "table_bytes rest kvs" "advanced c1 rest d"
        "out' = put_all kvs out1"
      using 1(1) [OF True e(1) refl e(2) off1 advanced_off [OF *(3)]] by blast
    have "advanced c (([char_of (length name)] @ name @ [t] @ bytes) @ rest) d"
      unfolding advanced_append [of c _ rest] using *(3) r(3) by blast
    moreover have "cur_off c1 = cur_off c + length ([char_of (length name)] @ name @ [t] @ bytes)"
      using *(3) by (simp add: advanced_def)
    ultimately show ?thesis
      using entry [OF *(1,2) r(2)] r(1,4) *(4) put_all_entry [where kept = kept and name = name and kvs = kvs and out = out]
      by (intro exI [of _ "[char_of (length name)] @ name @ [t] @ bytes @ rest"]
          exI [of _ "(case kept of Some v \<Rightarrow> if name \<in> set wanted then [(name, v)] else [] | None \<Rightarrow> []) @ kvs"])
        simp
  next
    case False
    then have "cur_off c = stop" "out' = out" "d = c"
      using 1(2,3) by (subst (asm) walk_loop.simps; simp)+
    then show ?thesis
      using 1(4) no_entry by (intro exI [of _ "[]"]) (simp add: advanced_def)
  qed
qed

lemma walk_loop_complete:
  "table_bytes bytes kvs \<Longrightarrow> advanced c bytes d \<Longrightarrow> cur_off c \<le> length (cur_bytes c) \<Longrightarrow>
     walk_loop (cur_off c + length bytes) out c = Inr (put_all kvs out, d)"
proof (induction arbitrary: c out rule: table_bytes.induct)
  case no_entry
  then have "d = c" by (simp add: advanced_def)
  then show ?case by (subst walk_loop.simps) simp
next
  case (entry name t bytes kept rest kvs)
  obtain c1 where c1: "advanced c ([char_of (length name)] @ name @ [t] @ bytes) c1" "advanced c1 rest d"
    using entry.prems(1) advanced_append [of c "[char_of (length name)] @ name @ [t] @ bytes" rest d] by auto
  have e: "walk_entry out c = Inr (keep name kept out, c1)"
    unfolding walk_entry_Inr [OF entry.prems(2)] using entry.hyps(1,2) c1(1) by blast
  have "cur_off c1 + length rest = cur_off c + length ([char_of (length name)] @ name @ [t] @ bytes @ rest)"
    using c1(1) by (simp add: advanced_def)
  then have "walk_loop (cur_off c + length ([char_of (length name)] @ name @ [t] @ bytes @ rest)) out c
      = Inr (put_all kvs (keep name kept out), d)"
    using entry.IH [OF c1(2) advanced_off [OF c1(1)]] e
    by (subst walk_loop.simps) (simp add: add.assoc)
  then show ?case by (simp only: put_all_entry)
qed


text \<open>C36: Walking a field table is exactly reading its grammar: the walk accepts a declared length exactly when
  that many bytes are there and are whole entries of known types, it stops at their end, and it
  returns for each wanted name the last string given under it. Nested tables and arrays are skipped
  by their length whatever they hold.\<close>

theorem walk_top_level_table_exact:
  assumes "cur_off c \<le> length (cur_bytes c)"
  shows "walk_top_level_table c declared = Inr (props, d) \<longleftrightarrow>
    (\<exists>bytes kvs. declared = int (length bytes) \<and> table_bytes bytes kvs \<and> advanced c bytes d
       \<and> props = map_of (rev kvs))"
proof
  assume w: "walk_top_level_table c declared = Inr (props, d)"
  then have "0 \<le> declared" "walk_loop (cur_off c + nat declared) Map.empty c = Inr (props, d)"
    by (auto simp: walk_top_level_table_def split: if_splits)
  moreover from this obtain bytes kvs where "cur_off c + length bytes = cur_off c + nat declared"
      "table_bytes bytes kvs" "advanced c bytes d" "props = put_all kvs Map.empty"
    using walk_loop_sound [OF _ _ assms, of "cur_off c + nat declared" Map.empty props d] by auto
  ultimately show "\<exists>bytes kvs. declared = int (length bytes) \<and> table_bytes bytes kvs \<and> advanced c bytes d
       \<and> props = map_of (rev kvs)"
    by (intro exI [of _ bytes] exI [of _ kvs]) (auto simp: put_all_def)
next
  assume "\<exists>bytes kvs. declared = int (length bytes) \<and> table_bytes bytes kvs \<and> advanced c bytes d
       \<and> props = map_of (rev kvs)"
  then obtain bytes kvs where *: "declared = int (length bytes)" "table_bytes bytes kvs" "advanced c bytes d"
      "props = map_of (rev kvs)" by blast
  then show "walk_top_level_table c declared = Inr (props, d)"
    using walk_loop_complete [OF *(2,3) assms, of Map.empty]
    by (auto simp: walk_top_level_table_def put_all_def cur_remaining_def advanced_def)
qed

definition demo_table :: string where
  "demo_table = [CHR 0x00, CHR ''V''] @ [CHR 0x07] @ ''product'' @ ''S''
     @ [CHR 0x00, CHR 0x00, CHR 0x00, CHR 0x03] @ ''abc''"

lemma demo_chars: "char_of (0 :: nat) = CHR 0x00" "char_of (Suc (Suc (Suc (Suc (Suc (Suc (Suc 0))))))) = CHR 0x07"
  by code_simp+

theorem walk_top_level_table_exact_witness:
  "\<exists>d. walk_top_level_table (cursor_on demo_table) 18 = Inr ([''product'' \<mapsto> ''abc''], d)"
proof -
  have long: "long_bytes ([CHR 0x00, CHR 0x00, CHR 0x00, CHR 0x03] @ ''abc'') ''abc''"
    unfolding long_bytes_def by (rule exI [of _ "[CHR 0x00, CHR 0x00, CHR 0x00, CHR 0x03]"])
      (simp add: from_big_endian_def)
  have "table_bytes ([char_of (length ''product'')] @ ''product'' @ ''S''
      @ ([CHR 0x00, CHR 0x00, CHR 0x00, CHR 0x03] @ ''abc'') @ []) [(''product'', ''abc'')]"
    using table_bytes.entry [OF _ _ no_entry, of "''product''" "CHR ''S''" _ "Some ''abc''"] long
    by (fastforce simp: value_bytes_def wanted_def)
  then have "table_bytes ([char_of (length [])] @ [] @ ''V'' @ [] @ [char_of (length ''product'')] @ ''product'' @ ''S''
      @ [CHR 0x00, CHR 0x00, CHR 0x00, CHR 0x03] @ ''abc'') [(''product'', ''abc'')]"
    using table_bytes.entry [of "[]" "CHR ''V''" "[]" None] by (simp add: value_bytes_def fixed_field_size_def)
  then have t: "table_bytes demo_table [(''product'', ''abc'')]"
    by (simp add: demo_table_def demo_chars)
  have "advanced (cursor_on demo_table) demo_table \<lparr>cur_bytes = demo_table, cur_off = 18\<rparr>"
    by (simp add: advanced_def cursor_on_def demo_table_def)
  moreover have "int (length demo_table) = 18" by (simp add: demo_table_def)
  ultimately show ?thesis
    using walk_top_level_table_exact [of "cursor_on demo_table" 18] t
    by (fastforce simp: cursor_on_def)
qed

end
