(* ===== verification/GoFields.thy ===== *)
theory GoFields
  imports GoText
begin

text \<open>\<open>strings.Fields\<close>: the maximal runs of runes that are not white space.\<close>

fun fields_from :: "(nat \<times> string) list \<Rightarrow> string \<Rightarrow> string list" where
  "fields_from [] word = (if word = [] then [] else [word])"
| "fields_from ((r, b) # rs) word =
     (if rune_is_space r then (if word = [] then fields_from rs [] else word # fields_from rs [])
      else fields_from rs (word @ b))"

definition go_fields :: "string \<Rightarrow> string list" where
  "go_fields s = fields_from (runes s) []"

end
