(* ===== verification/AmqpConn.thy ===== *)
theory AmqpConn
  imports AmqpTable Resp GoFields
begin

text \<open>
  The AMQP 0-9-1 connection of the RabbitMQ adapter (\<open>adapter/rabbitmq/wire/frame.go\<close>,
  \<open>connection.go\<close>, \<open>close.go\<close>): writing and reading method frames under a ceiling, the frozen
  journey Start, Start-Ok, Tune-Ok, Open, Close, and the normalisation of a refusal's text against
  candidates rendered from the run's own virtual host and user name.
\<close>

subsection \<open>Writing\<close>

definition append_shortstr :: "string \<Rightarrow> string \<Rightarrow> amqp_error + string" where
  "append_shortstr dst s =
     (if 255 < length s then Inl AmqpInvalidInput else Inr (dst @ [byte_at (length s)] @ s))"

definition append_longstr :: "string \<Rightarrow> string \<Rightarrow> string" where
  "append_longstr dst b = dst @ big_endian 4 (length b) @ b"

definition property_entry :: "string \<Rightarrow> string \<Rightarrow> string" where
  "property_entry key v = append_longstr ([byte_at (length key)] @ key @ ''S'') v"

definition client_properties :: string where
  "client_properties =
     (let entries = property_entry ''product'' ''svcdoctor'' @ property_entry ''platform'' ''Go''
            @ property_entry ''version'' ''0'';
          caps = [byte_at (length ''authentication_failure_close'')] @ ''authentication_failure_close''
            @ [CHR ''t'', CHR 0x01];
          fields = entries @ [byte_at (length ''capabilities'')] @ ''capabilities'' @ ''F''
            @ big_endian 4 (length caps) @ caps
      in big_endian 4 (length fields) @ fields)"

subsection \<open>Frames\<close>

definition protocol_header :: string where
  "protocol_header = ''AMQP'' @ [CHR 0x00, CHR 0x00, CHR 0x09, CHR 0x01]"

definition frame_overhead :: nat where "frame_overhead = 8"
definition pre_tune_payload_max :: nat where "pre_tune_payload_max = 8192 - frame_overhead"
definition post_tune_payload_max :: nat where "post_tune_payload_max = 8192 - frame_overhead"
definition frame_type_method :: char where "frame_type_method = CHR 0x01"
definition frame_end :: char where "frame_end = CHR 0xCE"
definition max_reply_text :: nat where "max_reply_text = 255"
definition max_vhost_bytes :: nat where "max_vhost_bytes = 127"
definition class_connection :: "16 word" where "class_connection = 10"

datatype connection_method = MStartOk | MTuneOk | MOpen | MClose | MCloseOk

fun method_code :: "connection_method \<Rightarrow> nat" where
  "method_code MStartOk = 11"
| "method_code MTuneOk = 31"
| "method_code MOpen = 40"
| "method_code MClose = 50"
| "method_code MCloseOk = 51"

definition encode_method :: "connection_method \<Rightarrow> string \<Rightarrow> string" where
  "encode_method m payload =
     (let body = big_endian 2 (unat class_connection) @ big_endian 2 (method_code m) @ payload
      in [frame_type_method] @ big_endian 2 0 @ big_endian 4 (length body) @ body @ [frame_end])"

record amqp_frame =
  fr_class :: "16 word"
  fr_method :: "16 word"
  fr_fields :: string

record amqp_reader =
  ar_rest :: string
  ar_end :: read_end
  ar_ceiling :: "32 word"

definition read_err :: "read_end \<Rightarrow> amqp_error" where
  "read_err e = (case e of EndOfFile \<Rightarrow> AmqpPeerClosed | ReadFails \<Rightarrow> AmqpTransport)"

definition read_exactly :: "nat \<Rightarrow> amqp_reader \<Rightarrow> (amqp_error + string) \<times> amqp_reader" where
  "read_exactly n r =
     (if length (ar_rest r) < n then (Inl (read_err (ar_end r)), r\<lparr>ar_rest := []\<rparr>)
      else (Inr (take n (ar_rest r)), r\<lparr>ar_rest := drop n (ar_rest r)\<rparr>))"

definition new_amqp_reader :: "string \<Rightarrow> read_end \<Rightarrow> amqp_reader" where
  "new_amqp_reader s e = \<lparr>ar_rest = s, ar_end = e, ar_ceiling = of_nat pre_tune_payload_max\<rparr>"

definition negotiated :: "32 word \<Rightarrow> amqp_reader \<Rightarrow> amqp_reader" where
  "negotiated payload_max r =
     (let m = if of_nat post_tune_payload_max < payload_max then of_nat post_tune_payload_max else payload_max
      in if ar_ceiling r < m then r\<lparr>ar_ceiling := m\<rparr> else r)"

definition read_amqp_frame :: "amqp_reader \<Rightarrow> (amqp_error + amqp_frame) \<times> amqp_reader" where
  "read_amqp_frame r =
     and_then (read_exactly 7 r) (\<lambda>hdr r1.
       let ftype = hdr ! 0;
           channel = (of_nat (from_big_endian (take 2 (drop 1 hdr))) :: 16 word);
           declared = (of_nat (from_big_endian (take 4 (drop 3 hdr))) :: 32 word)
       in if ar_ceiling r1 < declared then (Inl ErrMalformedFrame, r1)
          else if ftype \<noteq> frame_type_method then (Inl ErrUnexpectedFrame, r1)
          else if channel \<noteq> 0 then (Inl ErrUnexpectedFrame, r1)
          else if declared < 4 then (Inl ErrMalformedFrame, r1)
          else and_then (read_exactly (unat declared) r1) (\<lambda>payload r2.
            and_then (read_exactly 1 r2) (\<lambda>last r3.
              if last ! 0 \<noteq> frame_end then (Inl ErrMalformedFrame, r3)
              else (Inr \<lparr>fr_class = of_nat (from_big_endian (take 2 payload)),
                fr_method = of_nat (from_big_endian (take 2 (drop 2 payload))),
                fr_fields = drop 4 payload\<rparr>, r3))))"

subsection \<open>Refusals\<close>

definition code_not_allowed :: "16 word" where "code_not_allowed = 530"
definition truncation_marker :: string where "truncation_marker = ''...''"

definition matches_digit_hole :: "string \<Rightarrow> string \<Rightarrow> string \<Rightarrow> bool" where
  "matches_digit_hole text prefix suffix \<longleftrightarrow>
     (if length text < length prefix + length suffix + 1 then False
      else if \<not> has_prefix text prefix \<or> \<not> has_suffix text suffix then False
      else let middle = take (length text - length suffix - length prefix) (drop (length prefix) text)
           in if length middle < 1 \<or> 20 < length middle then False else list_all is_digit middle)"

definition denial :: "string \<Rightarrow> string \<Rightarrow> string" where
  "denial vhost username =
     ''NOT_ALLOWED - access to vhost '' @ [CHR 0x27] @ vhost @ [CHR 0x27] @ '' refused for user '' @ [CHR 0x27]
     @ username @ [CHR 0x27]"

definition reached :: string where "reached = '') is reached''"

definition normalize_close :: "16 word \<Rightarrow> string \<Rightarrow> string \<Rightarrow> string \<Rightarrow> close_outcome" where
  "normalize_close reply_code text vhost username =
     (if max_reply_text < length text then CloseUnspecified
      else if has_suffix text truncation_marker then CloseUnspecifiedTruncated
      else if reply_code \<noteq> code_not_allowed then CloseUnspecified
      else if text = ''NOT_ALLOWED - vhost '' @ vhost @ '' not found'' then CloseVHostNotFound
      else if matches_digit_hole text (denial vhost username @ '': connection limit ('') reached
      then CloseVHostConnectionLimit
      else if text = denial vhost username then CloseVHostAccessRefused
      else if has_prefix text (denial vhost username @ '' by backend '') then CloseVHostAccessRefused
      else if matches_digit_hole text ''NOT_ALLOWED - connection refused: node connection limit ('' reached
      then CloseNodeConnectionLimit
      else if matches_digit_hole text (''NOT_ALLOWED - connection refused for user '' @ [CHR 0x27] @ username
          @ [CHR 0x27] @ '': user connection limit ('') reached
      then CloseUserConnectionLimit
      else if text = ''NOT_ALLOWED - vhost not found'' then CloseVHostNotFound
      else if text = ''NOT_ALLOWED - '' @ [CHR 0x27] @ username @ [CHR 0x27] @ '' doesn'' @ [CHR 0x27]
          @ ''t have access to '' @ [CHR 0x27] @ vhost @ [CHR 0x27]
      then CloseVHostAccessRefused
      else if matches_digit_hole text (''NOT_ALLOWED - access to vhost '' @ [CHR 0x27] @ vhost @ [CHR 0x27]
          @ '' refused: connection limit ('') reached
      then CloseVHostConnectionLimit
      else CloseUnspecified)"

subsection \<open>The connection\<close>

record amqp_conn =
  ac_reader :: amqp_reader
  ac_write_fails :: bool
  ac_sent :: string
  ac_vhost :: string
  ac_username :: string

type_synonym 'a amqp_step = "amqp_conn \<Rightarrow> (amqp_error + 'a) \<times> amqp_conn"

definition amqp_send :: "string \<Rightarrow> unit amqp_step" where
  "amqp_send out c =
     (if ac_write_fails c then (Inl AmqpTransport, c) else (Inr (), c\<lparr>ac_sent := ac_sent c @ out\<rparr>))"

definition amqp_exchange :: "string \<Rightarrow> amqp_frame amqp_step" where
  "amqp_exchange out c =
     and_then (if out = [] then (Inr (), c) else amqp_send out c) (\<lambda>_ c1.
       case read_amqp_frame (ac_reader c1) of (res, r) \<Rightarrow> (res, c1\<lparr>ac_reader := r\<rparr>))"

definition known_mechanisms :: "string list" where
  "known_mechanisms = [''PLAIN'', ''AMQPLAIN'', ''ANONYMOUS'', ''EXTERNAL'', ''RABBIT-CR-DEMO'']"

definition contains_token :: "string \<Rightarrow> string \<Rightarrow> bool" where
  "contains_token items name \<longleftrightarrow> name \<in> set (go_fields items)"

record server_start =
  ss_version_major :: "8 word"
  ss_version_minor :: "8 word"
  ss_product :: string
  ss_version :: string
  ss_platform :: string
  ss_cluster_name :: string
  ss_mechanisms :: string
  ss_plain_offered :: bool
  ss_anonymous_offered :: bool

definition property :: "properties \<Rightarrow> string \<Rightarrow> string" where
  "property props key = (case props key of None \<Rightarrow> [] | Some v \<Rightarrow> v)"

definition parse_start :: "string \<Rightarrow> amqp_error + server_start" where
  "parse_start body =
     rbind (cur_u8 (cursor_on body)) (\<lambda>(major, c1).
     rbind (cur_u8 c1) (\<lambda>(minor, c2).
     rbind (cur_u32 c2) (\<lambda>(table_len, c3).
     rbind (walk_top_level_table c3 (uint table_len)) (\<lambda>(props, c4).
     rbind (cur_longstr c4) (\<lambda>(mechanisms, c5).
     rbind (cur_longstr c5) (\<lambda>(_, _).
       Inr \<lparr>ss_version_major = major, ss_version_minor = minor,
         ss_product = property props ''product'', ss_version = property props ''version'',
         ss_platform = property props ''platform'', ss_cluster_name = property props ''cluster_name'',
         ss_mechanisms = join_with '' '' (sort (filter (contains_token mechanisms) known_mechanisms)),
         ss_plain_offered = contains_token mechanisms ''PLAIN'',
         ss_anonymous_offered = contains_token mechanisms ''ANONYMOUS''\<rparr>))))))"

definition peer_refused_protocol :: "amqp_error \<Rightarrow> bool" where
  "peer_refused_protocol e \<longleftrightarrow> e = ErrMalformedFrame \<or> e = ErrUnexpectedFrame"

definition amqp_start :: "server_start amqp_step" where
  "amqp_start c =
     (case amqp_exchange protocol_header c of
        (Inl e, c1) \<Rightarrow> (Inl (if peer_refused_protocol e then ErrNotAMQP091 else e), c1)
      | (Inr f, c1) \<Rightarrow>
          if fr_class f \<noteq> class_connection \<or> fr_method f \<noteq> 10 then (Inl ErrNotAMQP091, c1)
          else (parse_start (fr_fields f), c1))"

definition parse_close :: "amqp_conn \<Rightarrow> amqp_frame \<Rightarrow> amqp_error + refusal" where
  "parse_close c f =
     rbind (cur_u16 (cursor_on (fr_fields f))) (\<lambda>(reply_code, c1).
     rbind (cur_shortstr c1) (\<lambda>(text, c2).
     rbind (cur_u16 c2) (\<lambda>(class_id, c3).
     rbind (cur_u16 c3) (\<lambda>(method_id, _).
       Inr \<lparr>rf_reply_code = reply_code,
         rf_outcome = normalize_close reply_code text (ac_vhost c) (ac_username c),
         rf_peer_class = class_id, rf_peer_method = method_id\<rparr>))))"

definition refused :: "amqp_conn \<Rightarrow> amqp_frame \<Rightarrow> amqp_error + 'a" where
  "refused c f = (case parse_close c f of Inl e \<Rightarrow> Inl e | Inr refusal \<Rightarrow> Inl (ErrRefused refusal))"

record tune =
  tn_channel_max :: "16 word"
  tn_frame_max :: "32 word"
  tn_heartbeat :: "16 word"

definition parse_tune :: "string \<Rightarrow> amqp_error + tune" where
  "parse_tune body =
     rbind (cur_u16 (cursor_on body)) (\<lambda>(ch, c1).
     rbind (cur_u32 c1) (\<lambda>(fm, c2).
     rbind (cur_u16 c2) (\<lambda>(hb, _).
       Inr \<lparr>tn_channel_max = ch, tn_frame_max = fm, tn_heartbeat = hb\<rparr>)))"

definition send_start_ok :: "string \<Rightarrow> string \<Rightarrow> tune amqp_step" where
  "send_start_ok username secret c =
     (if secret = [] then (Inl AmqpInvalidInput, c)
      else if NUL \<in> set username then (Inl AmqpInvalidInput, c)
      else if NUL \<in> set secret then (Inl AmqpInvalidInput, c)
      else let response = [NUL] @ username @ [NUL] @ secret in
        case rbind (append_shortstr client_properties ''PLAIN'') (\<lambda>payload.
            append_shortstr (append_longstr payload response) ''en_US'') of
          Inl e \<Rightarrow> (Inl e, c)
        | Inr payload \<Rightarrow>
            and_then (amqp_exchange (encode_method MStartOk payload) c) (\<lambda>f c1.
              if fr_class f = class_connection \<and> fr_method f = 30 then (parse_tune (fr_fields f), c1)
              else if fr_class f = class_connection \<and> fr_method f = 20 then (Inl ErrSecureChallenge, c1)
              else if fr_class f = class_connection \<and> fr_method f = 50 then (refused c1 f, c1)
              else (Inl ErrUnexpectedFrame, c1)))"

definition select_tune :: "tune \<Rightarrow> amqp_error + tune" where
  "select_tune offer =
     (let frame_max = (if tn_frame_max offer \<noteq> 0 \<and> tn_frame_max offer < 8192 then tn_frame_max offer else 8192)
      in if frame_max < 4096 then Inl ErrTuneUnsupported
         else Inr \<lparr>tn_channel_max = 1, tn_frame_max = frame_max, tn_heartbeat = 0\<rparr>)"

definition send_tune_ok :: "tune \<Rightarrow> unit amqp_step" where
  "send_tune_ok sel c =
     (let payload = big_endian 2 (unat (tn_channel_max sel)) @ big_endian 4 (unat (tn_frame_max sel))
            @ big_endian 2 (unat (tn_heartbeat sel))
      in and_then (amqp_send (encode_method MTuneOk payload) c) (\<lambda>_ c1.
           (Inr (), c1\<lparr>ac_reader := negotiated (tn_frame_max sel - of_nat frame_overhead) (ac_reader c1)\<rparr>)))"

definition amqp_open :: "unit amqp_step" where
  "amqp_open c =
     (if max_vhost_bytes < length (ac_vhost c) then (Inl AmqpInvalidInput, c)
      else case rbind (append_shortstr [] (ac_vhost c)) (\<lambda>payload. append_shortstr payload []) of
          Inl e \<Rightarrow> (Inl e, c)
        | Inr payload \<Rightarrow>
            and_then (amqp_exchange (encode_method MOpen (payload @ [NUL])) c) (\<lambda>f c1.
              if fr_class f = class_connection \<and> fr_method f = 41 then (Inr (), c1)
              else if fr_class f = class_connection \<and> fr_method f = 50 then (refused c1 f, c1)
              else (Inl ErrUnexpectedFrame, c1)))"

definition ack_close :: "unit amqp_step" where
  "ack_close c = amqp_send (encode_method MCloseOk []) c"

definition graceful_close :: "unit amqp_step" where
  "graceful_close c =
     (case append_shortstr (big_endian 2 200) [] of
        Inl e \<Rightarrow> (Inl e, c)
      | Inr payload \<Rightarrow>
          and_then (amqp_exchange (encode_method MClose (payload @ big_endian 2 0 @ big_endian 2 0)) c) (\<lambda>f c1.
            if fr_class f \<noteq> class_connection \<or> fr_method f \<noteq> 51 then (Inl ErrUnexpectedFrame, c1)
            else (Inr (), c1)))"

subsection \<open>Frames, exactly\<close>

text \<open>The bytes of a method frame.\<close>

definition frame_bytes :: "amqp_frame \<Rightarrow> string" where
  "frame_bytes f = [frame_type_method] @ big_endian 2 0 @ big_endian 4 (4 + length (fr_fields f))
     @ big_endian 2 (unat (fr_class f)) @ big_endian 2 (unat (fr_method f)) @ fr_fields f @ [frame_end]"

lemma four: "Suc (Suc (Suc (Suc n))) = 4 + n"
  by simp

lemma encode_method_frame:
  "encode_method m payload = frame_bytes \<lparr>fr_class = class_connection, fr_method = of_nat (method_code m), fr_fields = payload\<rparr>"
  by (cases m) (simp_all add: encode_method_def frame_bytes_def Let_def four)

lemma read_exactly_Inr:
  "read_exactly n r = (Inr b, s) \<longleftrightarrow> length b = n \<and> ar_rest r = b @ ar_rest s \<and> ar_end s = ar_end r
     \<and> ar_ceiling s = ar_ceiling r"
proof (cases "length (ar_rest r) < n")
  case False
  then show ?thesis
    by (cases r; cases s) (auto simp: read_exactly_def intro: append_take_drop_id [symmetric])
qed (auto simp: read_exactly_def)

text \<open>The seven bytes of a header the reader goes on from, and the number they declare.\<close>

lemma header_iff:
  assumes "length hdr = 7"
  shows "hdr ! 0 = frame_type_method \<and> (of_nat (from_big_endian (take 2 (drop 1 hdr))) :: 16 word) = 0
      \<and> unat (of_nat (from_big_endian (take 4 (drop 3 hdr))) :: 32 word) = k
    \<longleftrightarrow> k < 2 ^ 32 \<and> hdr = [frame_type_method] @ big_endian 2 0 @ big_endian 4 k"
proof -
  obtain t c where hdr: "hdr = [t] @ c @ drop 3 hdr" "length c = 2" "length (drop 3 hdr) = 4"
    using assms by (auto simp: numeral_eq_Suc length_Suc_conv)
  define n where "n = drop 3 hdr"
  have h: "hdr = [t] @ c @ n" "length c = 2" "length n = 4" using hdr by (simp_all add: n_def)
  have "unat (of_nat (from_big_endian n) :: 32 word) = from_big_endian n"
    using from_big_endian_less [of n] h(3) by (simp add: unat_of_nat)
  moreover have "from_big_endian n = k \<longleftrightarrow> k < 2 ^ 32 \<and> n = big_endian 4 k"
    using from_big_endian_less [of n] big_endian_inverse [of n] from_big_endian_inverse [of k 4] h(3) by auto
  moreover have "(of_nat (from_big_endian c) :: 16 word) = 0 \<longleftrightarrow> c = big_endian 2 0"
    using word16_bytes [OF h(2), of 0] by simp
  ultimately show ?thesis
    using h(2,3) unfolding h(1) by auto
qed

definition frame_of :: "string \<Rightarrow> amqp_frame" where
  "frame_of payload = \<lparr>fr_class = of_nat (from_big_endian (take 2 payload)),
     fr_method = of_nat (from_big_endian (take 2 (drop 2 payload))), fr_fields = drop 4 payload\<rparr>"

lemma frame_of_iff:
  assumes "4 \<le> length payload"
  shows "frame_of payload = f \<longleftrightarrow>
    payload = big_endian 2 (unat (fr_class f)) @ big_endian 2 (unat (fr_method f)) @ fr_fields f"
proof -
  define a b where "a = take 2 payload" and "b = take 2 (drop 2 payload)"
  have p: "payload = a @ b @ drop 4 payload" "length a = 2" "length b = 2"
  proof -
    have "drop 2 payload = b @ drop 4 payload"
      unfolding b_def using append_take_drop_id [of 2 "drop 2 payload"] by simp
    then show "payload = a @ b @ drop 4 payload"
      unfolding a_def using append_take_drop_id [of 2 payload] by simp
  qed (use assms in \<open>simp_all add: a_def b_def\<close>)
  have "frame_of payload = f \<longleftrightarrow> a = big_endian 2 (unat (fr_class f)) \<and> b = big_endian 2 (unat (fr_method f))
      \<and> drop 4 payload = fr_fields f"
    unfolding frame_of_def a_def [symmetric] b_def [symmetric]
      word16_bytes [OF p(2), symmetric] word16_bytes [OF p(3), symmetric]
    by (cases f) auto
  also have "\<dots> \<longleftrightarrow> a @ b @ drop 4 payload =
      big_endian 2 (unat (fr_class f)) @ big_endian 2 (unat (fr_method f)) @ fr_fields f"
    using p(2,3) by auto
  finally show ?thesis using p(1) by simp
qed

lemma read_amqp_frame_Inr:
  "read_amqp_frame r = (Inr f, s) \<longleftrightarrow> ar_rest r = frame_bytes f @ ar_rest s
     \<and> 4 + length (fr_fields f) \<le> unat (ar_ceiling r) \<and> ar_end s = ar_end r \<and> ar_ceiling s = ar_ceiling r"
  (is "?L \<longleftrightarrow> ?R")
proof -
  define D where "D hdr = (of_nat (from_big_endian (take 4 (drop 3 hdr))) :: 32 word)" for hdr
  have "?L \<longleftrightarrow> (\<exists>hdr r1 payload r2 last. read_exactly 7 r = (Inr hdr, r1)
      \<and> \<not> ar_ceiling r1 < D hdr \<and> hdr ! 0 = frame_type_method
      \<and> (of_nat (from_big_endian (take 2 (drop 1 hdr))) :: 16 word) = 0 \<and> \<not> D hdr < 4
      \<and> read_exactly (unat (D hdr)) r1 = (Inr payload, r2) \<and> read_exactly 1 r2 = (Inr last, s)
      \<and> last ! 0 = frame_end \<and> frame_of payload = f)"
    unfolding read_amqp_frame_def and_then_Inr D_def frame_of_def Let_def
    by (simp add: and_then_Inr if_split_eq1) blast
  also have "\<dots> \<longleftrightarrow> ?R"
  proof
    assume "\<exists>hdr r1 payload r2 last. read_exactly 7 r = (Inr hdr, r1)
      \<and> \<not> ar_ceiling r1 < D hdr \<and> hdr ! 0 = frame_type_method
      \<and> (of_nat (from_big_endian (take 2 (drop 1 hdr))) :: 16 word) = 0 \<and> \<not> D hdr < 4
      \<and> read_exactly (unat (D hdr)) r1 = (Inr payload, r2) \<and> read_exactly 1 r2 = (Inr last, s)
      \<and> last ! 0 = frame_end \<and> frame_of payload = f"
    then obtain hdr payload last and r1 r2 :: amqp_reader where *: "length hdr = 7" "ar_rest r = hdr @ ar_rest r1"
        "ar_end r1 = ar_end r" "ar_ceiling r1 = ar_ceiling r" "\<not> ar_ceiling r1 < D hdr"
        "hdr ! 0 = frame_type_method" "(of_nat (from_big_endian (take 2 (drop 1 hdr))) :: 16 word) = 0"
        "\<not> D hdr < 4" "length payload = unat (D hdr)" "ar_rest r1 = payload @ ar_rest r2"
        "ar_end r2 = ar_end r1" "ar_ceiling r2 = ar_ceiling r1" "length last = 1"
        "ar_rest r2 = last @ ar_rest s" "ar_end s = ar_end r2" "ar_ceiling s = ar_ceiling r2"
        "last ! 0 = frame_end" "frame_of payload = f"
      unfolding read_exactly_Inr by blast
    have hdr: "hdr = [frame_type_method] @ big_endian 2 0 @ big_endian 4 (unat (D hdr))"
      using header_iff [OF *(1), of "unat (D hdr)"] *(6,7) by (simp add: D_def)
    have le: "4 \<le> length payload" "unat (D hdr) \<le> unat (ar_ceiling r)"
      using *(4,5,8,9) by (simp_all add: word_less_nat_alt)
    then have p: "payload = big_endian 2 (unat (fr_class f)) @ big_endian 2 (unat (fr_method f)) @ fr_fields f"
      using frame_of_iff *(18) by blast
    have "length payload = 4 + length (fr_fields f)"
      by (subst p) simp
    then have k: "unat (D hdr) = 4 + length (fr_fields f)" unfolding *(9) .
    have last: "last = [frame_end]" using *(13,17) by (cases last) auto
    have "ar_rest r = frame_bytes f @ ar_rest s"
      unfolding frame_bytes_def k [symmetric] *(2) *(10) *(14) last p [symmetric]
      by (subst hdr) (simp add: p)
    then show ?R
      using * le k by simp
  next
    assume R: ?R
    let ?k = "4 + length (fr_fields f)"
    let ?hdr = "[frame_type_method] @ big_endian 2 0 @ big_endian 4 ?k"
    let ?payload = "big_endian 2 (unat (fr_class f)) @ big_endian 2 (unat (fr_method f)) @ fr_fields f"
    let ?r1 = "r\<lparr>ar_rest := ?payload @ [frame_end] @ ar_rest s\<rparr>"
    let ?r2 = "r\<lparr>ar_rest := [frame_end] @ ar_rest s\<rparr>"
    have "unat (ar_ceiling r) < 2 ^ LENGTH(32)" by (rule unsigned_less)
    then have h: "?hdr ! 0 = frame_type_method \<and> (of_nat (from_big_endian (take 2 (drop 1 ?hdr))) :: 16 word) = 0
        \<and> unat (D ?hdr) = ?k"
      unfolding D_def by (subst header_iff) (use R in auto)
    have "read_exactly 7 r = (Inr ?hdr, ?r1)" "read_exactly ?k ?r1 = (Inr ?payload, ?r2)"
        "read_exactly 1 ?r2 = (Inr [frame_end], s)"
      using R by (auto simp: read_exactly_Inr frame_bytes_def)
    moreover have "\<not> ar_ceiling ?r1 < D ?hdr" "\<not> D ?hdr < 4"
      using R h by (simp_all add: word_less_nat_alt)
    moreover have "frame_of ?payload = f" by (subst frame_of_iff) simp_all
    ultimately show "\<exists>hdr r1 payload r2 last. read_exactly 7 r = (Inr hdr, r1)
      \<and> \<not> ar_ceiling r1 < D hdr \<and> hdr ! 0 = frame_type_method
      \<and> (of_nat (from_big_endian (take 2 (drop 1 hdr))) :: 16 word) = 0 \<and> \<not> D hdr < 4
      \<and> read_exactly (unat (D hdr)) r1 = (Inr payload, r2) \<and> read_exactly 1 r2 = (Inr last, s)
      \<and> last ! 0 = frame_end \<and> frame_of payload = f"
      using h by (intro exI [of _ ?hdr] exI [of _ ?r1] exI [of _ ?payload] exI [of _ ?r2] exI [of _ "[frame_end]"])
        (simp only: nth_Cons_0 simp_thms)
  qed
  finally show ?thesis .
qed

text \<open>C24: Reading a frame is exactly taking the bytes of one method frame off the stream: it succeeds exactly when
  the stream starts with the bytes of a frame on channel zero whose payload fits the ceiling, and it
  takes those and nothing else. The frames the client writes are of this form, so a peer that reads
  like this reads back every method and payload the client sends.\<close>

theorem read_amqp_frame_exact:
  "(read_amqp_frame r = (Inr f, s) \<longleftrightarrow>
      ar_rest r = frame_bytes f @ ar_rest s \<and> 4 + length (fr_fields f) \<le> unat (ar_ceiling r)
      \<and> ar_end s = ar_end r \<and> ar_ceiling s = ar_ceiling r)
   \<and> (let sent = \<lparr>fr_class = class_connection, fr_method = of_nat (method_code m), fr_fields = payload\<rparr>;
          peer = \<lparr>ar_rest = encode_method m payload @ later, ar_end = e, ar_ceiling = ceiling\<rparr>
      in (fst (read_amqp_frame peer) = Inr sent \<longleftrightarrow> 4 + length payload \<le> unat ceiling))"
proof -
  have "fst (read_amqp_frame \<lparr>ar_rest = encode_method m payload @ later, ar_end = e, ar_ceiling = ceiling\<rparr>)
      = Inr \<lparr>fr_class = class_connection, fr_method = of_nat (method_code m), fr_fields = payload\<rparr>
    \<longleftrightarrow> 4 + length payload \<le> unat ceiling" (is "fst (read_amqp_frame ?p) = Inr ?f \<longleftrightarrow> _")
  proof
    assume "fst (read_amqp_frame ?p) = Inr ?f"
    then obtain s where "read_amqp_frame ?p = (Inr ?f, s)" by (metis prod.collapse)
    then show "4 + length payload \<le> unat ceiling" by (simp only: read_amqp_frame_Inr) simp
  next
    assume "4 + length payload \<le> unat ceiling"
    then have "read_amqp_frame ?p = (Inr ?f, ?p\<lparr>ar_rest := later\<rparr>)"
      by (simp only: read_amqp_frame_Inr encode_method_frame) simp
    then show "fst (read_amqp_frame ?p) = Inr ?f" by simp
  qed
  then show ?thesis by (simp only: read_amqp_frame_Inr Let_def)
qed

subsection \<open>Refusals, exactly\<close>

text \<open>The texts the broker is known to write for an outcome, with the virtual host and the user name of
  this run in their places. A limit is written as one to twenty digits.\<close>

definition with_limit :: "string \<Rightarrow> string \<Rightarrow> string set" where
  "with_limit before after = {before @ limit @ after | limit.
     1 \<le> length limit \<and> length limit \<le> 20 \<and> list_all is_digit limit}"

fun refusal_texts :: "close_outcome \<Rightarrow> string \<Rightarrow> string \<Rightarrow> string set" where
  "refusal_texts CloseVHostNotFound vhost user =
     {''NOT_ALLOWED - vhost '' @ vhost @ '' not found'', ''NOT_ALLOWED - vhost not found''}"
| "refusal_texts CloseVHostAccessRefused vhost user =
     {denial vhost user} \<union> {denial vhost user @ '' by backend '' @ rest | rest. True}
     \<union> {''NOT_ALLOWED - '' @ [CHR 0x27] @ user @ [CHR 0x27] @ '' doesn'' @ [CHR 0x27]
          @ ''t have access to '' @ [CHR 0x27] @ vhost @ [CHR 0x27]}"
| "refusal_texts CloseVHostConnectionLimit vhost user =
     with_limit (denial vhost user @ '': connection limit ('') reached
     \<union> with_limit (''NOT_ALLOWED - access to vhost '' @ [CHR 0x27] @ vhost @ [CHR 0x27]
         @ '' refused: connection limit ('') reached"
| "refusal_texts CloseNodeConnectionLimit vhost user =
     with_limit ''NOT_ALLOWED - connection refused: node connection limit ('' reached"
| "refusal_texts CloseUserConnectionLimit vhost user =
     with_limit (''NOT_ALLOWED - connection refused for user '' @ [CHR 0x27] @ user
         @ [CHR 0x27] @ '': user connection limit ('') reached"
| "refusal_texts CloseUnspecified vhost user = {}"
| "refusal_texts CloseUnspecifiedTruncated vhost user = {}"

lemma matches_digit_hole_iff:
  "matches_digit_hole t before after \<longleftrightarrow> t \<in> with_limit before after"
proof
  assume m: "matches_digit_hole t before after"
  then obtain u v where t: "t = before @ u" "t = v @ after"
    by (auto simp: matches_digit_hole_def has_prefix_iff has_suffix_iff split: if_splits)
  moreover have l: "length before + length after < length t"
    using m by (auto simp: matches_digit_hole_def split: if_splits)
  ultimately have "length before \<le> length v"
    by (metis length_append nat_add_left_cancel_le add_le_cancel_right less_imp_le)
  then obtain w where v: "v = before @ w"
    using t by (metis append_eq_append_conv_if append_take_drop_id)
  have "take (length t - length after - length before) (drop (length before) t) = w"
    using v t(2) by simp
  then show "t \<in> with_limit before after"
    using m l v t(2) by (auto simp: matches_digit_hole_def with_limit_def Let_def Suc_le_eq split: if_splits)
next
  assume "t \<in> with_limit before after"
  then show "matches_digit_hole t before after"
    by (auto simp: matches_digit_hole_def with_limit_def Let_def has_prefix_iff has_suffix_iff)
qed

lemma refusal_texts_disjoint:
  assumes "t \<in> refusal_texts a vhost user" "t \<in> refusal_texts b vhost user"
  shows "a = b"
  using assms
  by (cases a; cases b) (auto simp: with_limit_def denial_def)

text \<open>C37: The text of a refusal decides its outcome exactly: an outcome that names a cause is reported for
  code 530 and one of the texts the broker writes for that cause with this run's own virtual host and
  user name, for nothing else, and the order in which the code tries the texts does not matter. A text
  that is too long or cut off never names a cause.\<close>

theorem normalize_close_exact:
  "normalize_close reply_code t vhost user = outcome \<longleftrightarrow>
     (let readable = (length t \<le> max_reply_text); cut = has_suffix t truncation_marker in
      case outcome of
        CloseUnspecifiedTruncated \<Rightarrow> readable \<and> cut
      | CloseUnspecified \<Rightarrow> \<not> (readable \<and> (cut
          \<or> reply_code = code_not_allowed \<and> t \<in> (\<Union>x. refusal_texts x vhost user)))
      | _ \<Rightarrow> readable \<and> \<not> cut \<and> reply_code = code_not_allowed \<and> t \<in> refusal_texts outcome vhost user)"
proof -
  have "normalize_close reply_code t vhost user = x
      \<longleftrightarrow> t \<in> refusal_texts x vhost user \<or> x = CloseUnspecified \<and> t \<notin> (\<Union>x. refusal_texts x vhost user)"
    if "length t \<le> max_reply_text" "\<not> has_suffix t truncation_marker" "reply_code = code_not_allowed" for x
  proof -
    have "t \<in> refusal_texts x vhost user" if "normalize_close reply_code t vhost user = x" "x \<noteq> CloseUnspecified" for x
      using that \<open>length t \<le> max_reply_text\<close> \<open>\<not> has_suffix t truncation_marker\<close>
      by (auto simp: normalize_close_def matches_digit_hole_iff has_prefix_iff split: if_splits)
    moreover have "t \<notin> refusal_texts y vhost user" if "normalize_close reply_code t vhost user = CloseUnspecified" for y
      using that \<open>length t \<le> max_reply_text\<close> \<open>\<not> has_suffix t truncation_marker\<close> \<open>reply_code = code_not_allowed\<close>
      by (cases y) (auto simp: normalize_close_def matches_digit_hole_iff has_prefix_iff split: if_splits)
    ultimately show ?thesis
      using refusal_texts_disjoint by (metis UN_iff UNIV_I)
  qed
  then show ?thesis
    by (auto simp: Let_def normalize_close_def split: close_outcome.splits)
qed

end
