(* ===== verification/Advice.thy ===== *)
theory Advice
  imports Finding GoFields
begin

text \<open>
  Suggested next actions (\<open>internal/diagnosis/advice.go\<close>): the checks of \<open>NewAdvice\<close>, the confidence
  gate of \<open>AdmitAdvice\<close>, the text filter that refuses commands, and \<open>Recommend\<close>, the guarded path from
  a suggestion to what a report may carry.
\<close>

subsection \<open>Letter case\<close>

text \<open>\<open>strings.ToLower\<close> and \<open>strings.ToUpper\<close> as the checks see them. A lowered text is only compared with
  ASCII words, so of Unicode's case mapping it matters which runes become ASCII: the capitals, U+0130
  (to i) and the Kelvin sign U+212A (to k); every other rune stays outside ASCII, as the bytes it has
  here do. A raised text is only compared with its original, and only when the lowered text is an ASCII
  word, so that its runes are letters and those two, which have no other capital.\<close>

definition lower_rune :: "nat \<times> string \<Rightarrow> string" where
  "lower_rune rb = (case rb of (r, b) \<Rightarrow>
     if 65 \<le> r \<and> r \<le> 90 then [char_of (r + 32)]
     else if r = 304 then ''i'' else if r = 8490 then ''k'' else b)"

definition go_to_lower :: "string \<Rightarrow> string" where
  "go_to_lower s = concat (map lower_rune (runes s))"

definition upper_rune :: "nat \<times> string \<Rightarrow> string" where
  "upper_rune rb = (case rb of (r, b) \<Rightarrow> if 97 \<le> r \<and> r \<le> 122 then [char_of (r - 32)] else b)"

definition go_to_upper :: "string \<Rightarrow> string" where
  "go_to_upper s = concat (map upper_rune (runes s))"

text \<open>\<open>strings.Trim\<close> with a set of ASCII characters.\<close>

definition go_trim :: "string \<Rightarrow> string \<Rightarrow> string" where
  "go_trim s cutset =
     rev (dropWhile (\<lambda>c. c \<in> set cutset) (rev (dropWhile (\<lambda>c. c \<in> set cutset) s)))"

subsection \<open>Advice\<close>

datatype advice_error = AdviceInvalidValue | ErrUnsafeAdvice

record advice =
  adv_kind :: recommendation_kind
  adv_safety :: safety_class
  adv_action :: string
  adv_rationale :: string
  adv_self_collectable :: bool

text \<open>\<open>AdviceInput\<close> has the fields of \<open>Advice\<close>.\<close>

type_synonym advice_input = advice

definition command_words :: "string list" where
  "command_words =
     [''apt'', ''aws'', ''brew'', ''cat'', ''chmod'', ''chown'',
      ''curl'', ''dig'', ''docker'', ''echo'', ''gcloud'', ''grep'',
      ''helm'', ''kubectl'', ''ln'', ''mv'', ''nc'', ''netstat'',
      ''nslookup'', ''openssl'', ''ping'', ''rm'', ''scp'', ''sed'',
      ''service'', ''sh'', ''ssh'', ''sudo'', ''systemctl'',
      ''tcpdump'', ''telnet'', ''terraform'', ''traceroute'', ''wget'']"

definition sql_words :: "string list" where
  "sql_words =
     [''alter'', ''create'', ''delete'', ''drop'', ''grant'',
      ''insert'', ''revoke'', ''select'', ''truncate'', ''update'']"

definition shell_metacharacters :: string where
  "shell_metacharacters = ''|&<>$'' @ [CHR 0x60, CHR 0x5C, CHR 0x0A, CHR 0x0D, CHR 0x09]"

definition looks_like_sql :: "string \<Rightarrow> string \<Rightarrow> string \<Rightarrow> bool" where
  "looks_like_sql first lowered action =
     (if lowered \<notin> set sql_words then False
      else if first = go_to_upper first \<and> first \<noteq> [] then True
      else lowered = ''select'' \<and> contains_str (go_to_lower action) '' from '')"

definition first_word :: "string \<Rightarrow> string" where
  "first_word action = concat (map snd (takeWhile (\<lambda>rb. \<not> rune_is_space (fst rb)) (runes action)))"

definition short_flag :: "string \<Rightarrow> bool" where
  "short_flag token \<longleftrightarrow> has_prefix token ''-'' \<and> \<not> has_prefix token ''--''"

definition validate_action_text :: "string \<Rightarrow> advice_error + unit" where
  "validate_action_text action =
     (if trim_space action = [] then Inl AdviceInvalidValue
      else if trim_space action \<noteq> action then Inl AdviceInvalidValue
      else if list_ex (\<lambda>c. c \<in> set shell_metacharacters) action then Inl ErrUnsafeAdvice
      else if list_ex short_flag (go_fields action) then Inl ErrUnsafeAdvice
      else let trimmed = go_trim (first_word action) (''.,:;'' @ [CHR 0x22, CHR 0x27] @ ''()'');
               lowered = go_to_lower trimmed
           in if lowered \<in> set command_words then Inl ErrUnsafeAdvice
              else if looks_like_sql trimmed lowered action then Inl ErrUnsafeAdvice
              else Inr ())"

definition new_advice :: "advice_input \<Rightarrow> advice_error + advice" where
  "new_advice i =
     (if \<not> recommendation_kind_valid (adv_kind i) then Inl AdviceInvalidValue
      else if \<not> safety_class_valid (adv_safety i) then Inl AdviceInvalidValue
      else if \<not> safety_producible (adv_safety i) then Inl ErrUnsafeAdvice
      else if adv_kind i = RecommendationKindNextEvidence \<and> \<not> safety_changes_nothing (adv_safety i)
        then Inl ErrUnsafeAdvice
      else if adv_kind i = RecommendationKindRemediation \<and> adv_self_collectable i then Inl ErrUnsafeAdvice
      else rbind (validate_action_text (adv_action i)) (\<lambda>_.
        if trim_space (adv_rationale i) = [] then Inl AdviceInvalidValue else Inr i))"

definition advice_is_zero :: "advice \<Rightarrow> bool" where
  "advice_is_zero a \<longleftrightarrow> adv_kind a = RecommendationKindUnspecified \<and> adv_action a = []"

definition admit_advice :: "finding_kind \<Rightarrow> confidence \<Rightarrow> advice \<Rightarrow> advice_error + unit" where
  "admit_advice kind confidence a =
     (if advice_is_zero a then Inl AdviceInvalidValue
      else if \<not> finding_kind_valid kind then Inl AdviceInvalidValue
      else if \<not> confidence_valid confidence then Inl AdviceInvalidValue
      else if adv_kind a \<noteq> RecommendationKindRemediation then Inr ()
      else if kind \<noteq> FindingKindConfirmed \<or> confidence \<noteq> ConfidenceHigh then Inl ErrUnsafeAdvice
      else Inr ())"

definition recommendation_input_of :: "advice \<Rightarrow> recommendation_input" where
  "recommendation_input_of a =
     \<lparr>rec_action = adv_action a, rec_kind = adv_kind a, rec_safety = adv_safety a,
      rec_rationale = adv_rationale a, rec_self_collectable = adv_self_collectable a\<rparr>"

definition advice_recommendation :: "advice \<Rightarrow> domain_error + recommendation" where
  "advice_recommendation a =
     (if advice_is_zero a then Inl ErrInvalidValue
      else new_classified_recommendation (recommendation_input_of a))"

definition recommend :: "advice_input \<Rightarrow> finding_kind \<Rightarrow> confidence \<Rightarrow> recommendation list" where
  "recommend i kind confidence =
     (case new_advice i of
        Inl _ \<Rightarrow> []
      | Inr a \<Rightarrow>
          (case admit_advice kind confidence a of
             Inl _ \<Rightarrow> []
           | Inr _ \<Rightarrow> (case advice_recommendation a of Inl _ \<Rightarrow> [] | Inr r \<Rightarrow> [r])))"

subsection \<open>Words and runes\<close>

lemma decode_multi_high: "128 \<le> b0 \<Longrightarrow> decode_multi b0 bs = Some (x, w) \<Longrightarrow> 128 \<le> x"
proof -
  have three: "decode_three b0 bs = Some (x, w) \<Longrightarrow> 224 \<le> b0 \<Longrightarrow> ?thesis"
    by (cases "b0 = 224") (auto simp: decode_three_def continuation_def split: list.splits if_split_asm)
  have four: "decode_four b0 bs = Some (x, w) \<Longrightarrow> 240 \<le> b0 \<Longrightarrow> ?thesis"
    by (cases "b0 = 240") (auto simp: decode_four_def continuation_def split: list.splits if_split_asm)
  have two: "decode_two b0 bs = Some (x, w) \<Longrightarrow> 194 \<le> b0 \<Longrightarrow> ?thesis"
    by (auto simp: decode_two_def split: list.splits if_split_asm)
  show "decode_multi b0 bs = Some (x, w) \<Longrightarrow> ?thesis"
    using two three four by (auto simp: decode_multi_def split: if_split_asm)
qed

text \<open>An ASCII rune is its one byte, and the first byte of any other rune is outside ASCII.\<close>

definition rune_ok :: "nat \<times> string \<Rightarrow> bool" where
  "rune_ok rb \<longleftrightarrow> snd rb \<noteq> [] \<and> (fst rb < 128 \<longrightarrow> snd rb = [char_of (fst rb)])
     \<and> (128 \<le> fst rb \<longrightarrow> 128 \<le> code (hd (snd rb)))"

lemma runes_ok: "list_all rune_ok (runes s)"
proof (induction s rule: runes.induct)
  case (2 c cs)
  obtain x w where xw: "decode_rune (map of_char (c # cs)) = (x, w)"
    by (cases "decode_rune (map of_char (c # cs))")
  have w: "1 \<le> w" using decode_rune_width [of "map of_char (c # cs)"] xw by simp
  have "128 \<le> x" if "128 \<le> code c"
    using xw that decode_multi_high by (auto simp: decode_rune_def rune_error_def split: option.splits)
  then have "rune_ok (x, take w (c # cs))"
    using w xw by (cases "code c < 128") (auto simp: rune_ok_def decode_rune_ascii take_Cons')
  then show ?case
    using 2 xw by simp
qed simp

lemma rune_ok_char:
  assumes "rune_ok (r, b)" "code c < 128"
  shows "has_prefix (b @ t) (c # u) \<longleftrightarrow> r = code c \<and> has_prefix t u"
proof (cases "r < 128")
  case True
  then have "b = [char_of r]" using assms(1) by (simp add: rune_ok_def)
  moreover have "char_of r = c \<longleftrightarrow> r = code c" using True by auto
  ultimately show ?thesis by simp
next
  case False
  then obtain d b' where "b = d # b'" "128 \<le> code d" using assms(1) by (cases b) (auto simp: rune_ok_def)
  then show ?thesis using assms(2) False by auto
qed

text \<open>A short flag begins where a word begins: a hyphen that no other hyphen follows.\<close>

fun flag_at :: "(nat \<times> string) list \<Rightarrow> bool" where
  "flag_at [] = False"
| "flag_at (x # rs) \<longleftrightarrow> fst x = 45 \<and> (rs = [] \<or> fst (hd rs) \<noteq> 45)"

fun flag_in :: "bool \<Rightarrow> (nat \<times> string) list \<Rightarrow> bool" where
  "flag_in start [] = False"
| "flag_in start (x # rs) = (start \<and> flag_at (x # rs) \<or> flag_in (rune_is_space (fst x)) rs)"

abbreviation word_bytes :: "(nat \<times> string) list \<Rightarrow> string" where
  "word_bytes rs \<equiv> concat (map snd (takeWhile (\<lambda>rb. \<not> rune_is_space (fst rb)) rs))"

lemma not_space_hyphen: "\<not> rune_is_space 45"
  by (simp add: rune_is_space_def)

lemma short_flag_word:
  assumes "list_all rune_ok (x # rs)" "\<not> rune_is_space (fst x)"
  shows "short_flag (word_bytes (x # rs)) \<longleftrightarrow> flag_at (x # rs)"
proof -
  have ok: "rune_ok (fst x, snd x)" using assms by simp
  have next_hyphen: "has_prefix (word_bytes rs) ''-'' \<longleftrightarrow> rs \<noteq> [] \<and> fst (hd rs) = 45"
  proof (cases rs)
    case (Cons y ys)
    then have "rune_ok (fst y, snd y)" using assms by simp
    then show ?thesis
      using Cons rune_ok_char [of "fst y" "snd y" "CHR ''-''" "word_bytes ys" "[]"] not_space_hyphen by auto
  qed simp
  show ?thesis
    using assms(2) rune_ok_char [OF ok, of "CHR ''-''" "word_bytes rs" "[]"]
      rune_ok_char [OF ok, of "CHR ''-''" "word_bytes rs" "''-''"] next_hyphen
    by (simp add: short_flag_def) auto
qed

lemma flagged_fields:
  "list_all rune_ok rs \<Longrightarrow> list_ex short_flag (fields_from rs word)
     \<longleftrightarrow> word \<noteq> [] \<and> short_flag (word @ word_bytes rs) \<or> flag_in (word = []) rs"
proof (induction rs word rule: fields_from.induct)
  case (2 r b rs word)
  have b: "b \<noteq> []" using 2(4) by (simp add: rune_ok_def)
  show ?case
  proof (cases "rune_is_space r")
    case True
    then have "\<not> flag_at ((r, b) # rs)" using not_space_hyphen by auto
    then show ?thesis using 2(1,2,4) True by (cases "word = []") (auto simp del: flag_at.simps)
  next
    case False
    then show ?thesis
      using 2 b short_flag_word [of "(r, b)" rs] by auto
  qed
qed simp

lemma flag_in_iff:
  "flag_in start rs \<longleftrightarrow> (\<exists>before after. rs = before @ after \<and> flag_at after
     \<and> (if before = [] then start else rune_is_space (fst (last before))))"
proof (induction rs arbitrary: start)
  case (Cons x rs)
  show ?case
  proof
    assume "flag_in start (x # rs)"
    then consider "start" "flag_at (x # rs)" | "flag_in (rune_is_space (fst x)) rs"
      by (auto simp del: flag_at.simps)
    then show "\<exists>before after. x # rs = before @ after \<and> flag_at after
        \<and> (if before = [] then start else rune_is_space (fst (last before)))"
    proof cases
      case 1
      then show ?thesis by (intro exI [of _ "[]"] exI [of _ "x # rs"]) simp
    next
      case 2
      then obtain before after where "rs = before @ after" "flag_at after"
          "if before = [] then rune_is_space (fst x) else rune_is_space (fst (last before))"
        using Cons.IH by blast
      then show ?thesis by (intro exI [of _ "x # before"] exI [of _ after]) auto
    qed
  next
    assume "\<exists>before after. x # rs = before @ after \<and> flag_at after
        \<and> (if before = [] then start else rune_is_space (fst (last before)))"
    then obtain before after where *: "x # rs = before @ after" "flag_at after"
        "if before = [] then start else rune_is_space (fst (last before))" by blast
    show "flag_in start (x # rs)"
    proof (cases before)
      case Nil
      then have "after = x # rs" using * by simp
      then show ?thesis using *(2,3) Nil by simp
    next
      case (Cons y ys)
      then have "flag_in (rune_is_space (fst x)) rs"
        unfolding Cons.IH using * by (intro exI [of _ ys] exI [of _ after]) (auto split: if_splits simp del: flag_at.simps)
      then show ?thesis by simp
    qed
  qed
qed simp

subsection \<open>What may be recommended\<close>

text \<open>A text that reads as a command: it has a shell character, a word that is a short flag, or opens
  with the name of a tool or with a statement of SQL, punctuation and letter case aside.\<close>

definition opening_word :: "string \<Rightarrow> string" where
  "opening_word action = go_trim (first_word action) (''.,:;'' @ [CHR 0x22, CHR 0x27] @ ''()'')"

definition opens_statement :: "string \<Rightarrow> bool" where
  "opens_statement action \<longleftrightarrow> go_to_lower (opening_word action) \<in> set sql_words
     \<and> (\<forall>c\<in>set (opening_word action). \<not> is_lower c)
   \<or> go_to_lower (opening_word action) = ''select'' \<and> (\<exists>a b. go_to_lower action = a @ '' from '' @ b)"

definition reads_as_command :: "string \<Rightarrow> bool" where
  "reads_as_command action \<longleftrightarrow> (\<exists>c\<in>set action. c \<in> set shell_metacharacters)
     \<or> (\<exists>before after. runes action = before @ after \<and> flag_at after
          \<and> (before = [] \<or> rune_is_space (fst (last before))))
     \<or> go_to_lower (opening_word action) \<in> set command_words \<or> opens_statement action"

text \<open>What a finding of a kind and a confidence may recommend.\<close>

definition advisable :: "advice \<Rightarrow> finding_kind \<Rightarrow> confidence \<Rightarrow> bool" where
  "advisable i kind confidence \<longleftrightarrow>
     is_ok (validate_identifier (adv_action i)) \<and> is_ok (validate_identifier (adv_rationale i))
     \<and> \<not> reads_as_command (adv_action i)
     \<and> finding_kind_valid kind \<and> confidence_valid confidence
     \<and> (adv_kind i = RecommendationKindNextEvidence
          \<and> adv_safety i \<in> {SafetyObserve, SafetyVerify, SafetyCompare}
        \<or> adv_kind i = RecommendationKindRemediation \<and> \<not> adv_self_collectable i
          \<and> adv_safety i \<in> {SafetyObserve, SafetyVerify, SafetyCompare, SafetyConfigChange}
          \<and> kind = FindingKindConfirmed \<and> confidence = ConfidenceHigh)"

lemma upper_rune_same:
  assumes "rune_ok (r, b)"
  shows "upper_rune (r, b) = b \<longleftrightarrow> \<not> (97 \<le> r \<and> r \<le> 122)"
proof -
  have "char_of (r - 32) \<noteq> (char_of r :: char)" if "97 \<le> r" "r \<le> 122"
  proof
    assume "char_of (r - 32) = (char_of r :: char)"
    then have "code (char_of (r - 32)) = code (char_of r)" by simp
    then show False using that by simp
  qed
  then show ?thesis using assms by (auto simp: upper_rune_def rune_ok_def)
qed

lemma length_upper_rune: "rune_ok rb \<Longrightarrow> length (upper_rune rb) = length (snd rb)"
  by (cases rb) (auto simp: upper_rune_def rune_ok_def)

lemma concat_upper:
  "list_all rune_ok rs \<Longrightarrow> concat (map upper_rune rs) = concat (map snd rs)
     \<longleftrightarrow> list_all (\<lambda>rb. \<not> (97 \<le> fst rb \<and> fst rb \<le> 122)) rs"
proof (induction rs)
  case (Cons rb rs)
  then show ?case
    using length_upper_rune [of rb] upper_rune_same [of "fst rb" "snd rb"] by simp
qed simp

lemma rune_of_char:
  assumes "code c < 128"
  shows "(\<exists>b. (code c, b) \<in> set (runes s)) \<longleftrightarrow> c \<in> set s"
proof
  assume "\<exists>b. (code c, b) \<in> set (runes s)"
  then obtain b where b: "(code c, b) \<in> set (runes s)" by blast
  then have "b = [c]" using runes_ok [of s] assms by (fastforce simp: list_all_iff rune_ok_def)
  then have "c \<in> set (concat (map snd (runes s)))" using b by force
  then show "c \<in> set s" by (simp only: runes_concat)
qed (use assms runes_ascii in blast)

lemma go_to_upper_same: "go_to_upper s = s \<longleftrightarrow> (\<forall>c\<in>set s. \<not> is_lower c)"
proof -
  have "go_to_upper s = s \<longleftrightarrow> list_all (\<lambda>rb. \<not> (97 \<le> fst rb \<and> fst rb \<le> 122)) (runes s)"
    using concat_upper [OF runes_ok, of s] by (simp add: go_to_upper_def runes_concat)
  also have "\<dots> \<longleftrightarrow> (\<forall>c\<in>set s. \<not> is_lower c)"
  proof
    assume *: "list_all (\<lambda>rb. \<not> (97 \<le> fst rb \<and> fst rb \<le> 122)) (runes s)"
    show "\<forall>c\<in>set s. \<not> is_lower c"
    proof (intro ballI notI)
      fix c assume "c \<in> set s" "is_lower c"
      then have "code c < 128" by (simp add: is_lower_def)
      then obtain b where "(code c, b) \<in> set (runes s)" using \<open>c \<in> set s\<close> rune_of_char by blast
      then show False using * \<open>is_lower c\<close> by (auto simp: list_all_iff is_lower_def)
    qed
  next
    assume *: "\<forall>c\<in>set s. \<not> is_lower c"
    have False if "(r, b) \<in> set (runes s)" "97 \<le> r" "r \<le> 122" for r b
    proof -
      have r: "code (char_of r :: char) = r" using that by simp
      then have "(char_of r :: char) \<in> set s"
        using that(1) rune_of_char [of "char_of r" s] that(3) by auto
      then show False using * that r by (auto simp: is_lower_def)
    qed
    then show "list_all (\<lambda>rb. \<not> (97 \<le> fst rb \<and> fst rb \<le> 122)) (runes s)"
      by (auto simp: list_all_iff)
  qed
  finally show ?thesis .
qed

lemma validate_action_text_ok:
  "is_ok (validate_action_text action) \<longleftrightarrow>
     action \<noteq> [] \<and> trim_space action = action \<and> \<not> reads_as_command action"
proof -
  have flags: "list_ex short_flag (go_fields action) \<longleftrightarrow>
      (\<exists>before after. runes action = before @ after \<and> flag_at after
        \<and> (before = [] \<or> rune_is_space (fst (last before))))"
  proof -
    have "(if before = [] then True else q) \<longleftrightarrow> before = [] \<or> q" for before :: "(nat \<times> string) list" and q
      by simp
    then have "flag_in True (runes action) \<longleftrightarrow> (\<exists>before after. runes action = before @ after \<and> flag_at after
        \<and> (before = [] \<or> rune_is_space (fst (last before))))"
      by (simp only: flag_in_iff)
    then show ?thesis
      using flagged_fields [OF runes_ok, of action "[]"] by (simp only: go_fields_def) simp
  qed
  have "go_to_lower [] = []" by (simp add: go_to_lower_def)
  then have sql: "looks_like_sql (opening_word action) (go_to_lower (opening_word action)) action
      \<longleftrightarrow> opens_statement action"
    by (auto simp: looks_like_sql_def opens_statement_def go_to_upper_same contains_str_iff sql_words_def
        simp flip: go_to_upper_same)
  show ?thesis
    unfolding validate_action_text_def reads_as_command_def opening_word_def [symmetric] Let_def sql flags
    by (auto simp: list_ex_iff)
qed

lemma validator_cases: "(case x of Inl e \<Rightarrow> f e | Inr u \<Rightarrow> g) = (if is_ok x then g else f (projl x))"
  by (cases x) simp_all

lemma new_advice_cases:
  "(case new_advice i of Inl e \<Rightarrow> [] | Inr a \<Rightarrow> f a) =
     (if recommendation_kind_valid (adv_kind i) \<and> safety_producible (adv_safety i)
        \<and> (adv_kind i = RecommendationKindNextEvidence \<longrightarrow> safety_changes_nothing (adv_safety i))
        \<and> (adv_kind i = RecommendationKindRemediation \<longrightarrow> \<not> adv_self_collectable i)
        \<and> is_ok (validate_action_text (adv_action i)) \<and> trim_space (adv_rationale i) \<noteq> []
      then f i else [])"
  using safety_producible_valid [of "adv_safety i"]
  by (cases "validate_action_text (adv_action i)") (auto simp: new_advice_def)

lemma safety_observing: "safety_changes_nothing c \<longleftrightarrow> c \<in> {SafetyObserve, SafetyVerify, SafetyCompare}"
  by (cases c) simp_all

lemma safety_producing:
  "safety_producible c \<longleftrightarrow> c \<in> {SafetyObserve, SafetyVerify, SafetyCompare, SafetyConfigChange}"
  by (cases c) simp_all

lemma kind_known:
  "recommendation_kind_valid k \<longleftrightarrow> k = RecommendationKindNextEvidence \<or> k = RecommendationKindRemediation"
  by (cases k) (simp_all add: recommendation_kind_valid_def)

lemma confirmed_high_valid: "finding_kind_valid FindingKindConfirmed" "confidence_valid ConfidenceHigh"
  by (simp_all add: finding_kind_valid_def confidence_valid_def)

lemma admit_advice_ok:
  "is_ok (admit_advice kind confidence a) \<longleftrightarrow> \<not> advice_is_zero a \<and> finding_kind_valid kind
     \<and> confidence_valid confidence
     \<and> (adv_kind a = RecommendationKindRemediation
          \<longrightarrow> kind = FindingKindConfirmed \<and> confidence = ConfidenceHigh)"
  by (auto simp: admit_advice_def)

lemma new_classified_recommendation_cases:
  "(case new_classified_recommendation i of Inl e \<Rightarrow> [] | Inr r \<Rightarrow> [r])
     = (if rec_wf i \<and> rec_classified i then [i] else [])"
proof (cases "new_classified_recommendation i")
  case (Inl e)
  then have "\<not> (rec_wf i \<and> rec_classified i)" using new_classified_recommendation_Inr [of i i] by auto
  then show ?thesis using Inl by auto
next
  case (Inr r)
  then show ?thesis using new_classified_recommendation_Inr [of i r] by simp
qed

lemma advice_recommendation_cases:
  "(case advice_recommendation a of Inl e \<Rightarrow> [] | Inr r \<Rightarrow> [r]) =
     (if \<not> advice_is_zero a \<and> rec_wf (recommendation_input_of a) \<and> recommendation_kind_valid (adv_kind a)
      then [recommendation_input_of a] else [])"
  using new_classified_recommendation_cases [of "recommendation_input_of a"]
  by (simp add: advice_recommendation_def rec_classified_def recommendation_input_of_def)

lemma recommend_advisable:
  "recommend i kind confidence =
     (if advisable i kind confidence then [recommendation_input_of i] else [])"
proof -
  have clean: "is_ok (validate_identifier s) \<Longrightarrow> s \<noteq> [] \<and> trim_space s = s \<and> trim_space s \<noteq> []" for s
    by (simp add: validate_identifier_ok)
  have "recommend i kind confidence = (if is_ok (validate_action_text (adv_action i))
      \<and> recommendation_kind_valid (adv_kind i) \<and> safety_producible (adv_safety i)
      \<and> (adv_kind i = RecommendationKindNextEvidence \<longrightarrow> safety_changes_nothing (adv_safety i))
      \<and> (adv_kind i = RecommendationKindRemediation \<longrightarrow> \<not> adv_self_collectable i)
      \<and> trim_space (adv_rationale i) \<noteq> [] \<and> is_ok (admit_advice kind confidence i)
      \<and> rec_wf (recommendation_input_of i) then [recommendation_input_of i] else [])"
    by (auto simp: recommend_def new_advice_cases validator_cases advice_recommendation_cases admit_advice_ok)
  also have "\<dots> = (if advisable i kind confidence then [recommendation_input_of i] else [])"
    using clean [of "adv_action i"] clean [of "adv_rationale i"]
    by (intro if_cong; cases "adv_kind i"; cases "is_ok (validate_identifier (adv_rationale i))";
        cases "is_ok (validate_identifier (adv_action i))")
      (auto simp: advisable_def validate_action_text_ok admit_advice_ok rec_wf_def advice_is_zero_def
        recommendation_input_of_def safety_observing safety_producing recommendation_kind_valid_def
        confirmed_high_valid)
  finally show ?thesis .
qed

text \<open>C30: Recommend passes a suggestion on unchanged exactly when it may be given, and gives nothing
  otherwise: its action and its reason are clean single lines, the action does not read as a command
  whatever the letter case and the kind of blank, an observation changes nothing, and a change is
  recommended only by a CONFIRMED finding of HIGH confidence, never as something to be collected and
  never as a restart, a disruption or a weakening of security.\<close>

theorem recommend_exact:
  "recommend i kind confidence =
     (if advisable i kind confidence then [recommendation_input_of i] else [])"
  by (rule recommend_advisable)

end
