(* ===== verification/GoTime.thy ===== *)
theory GoTime
  imports GoText
begin

text \<open>
  The text of times and durations (package \<open>time\<close>), as the JSON forms of a report write them:
  \<open>Duration.String\<close> on nanoseconds and \<open>Time.Format(time.RFC3339Nano)\<close> on a UTC instant, given in
  nanoseconds after the zero time, 0001-01-01T00:00:00Z.
\<close>

subsection \<open>Numerals\<close>

text \<open>\<open>n\<close> in at least \<open>w\<close> digits, as the verb \<open>%0wd\<close> and \<open>appendInt\<close> write it.\<close>

definition pad_nat :: "nat \<Rightarrow> nat \<Rightarrow> string" where
  "pad_nat w n = replicate (w - length (show_nat n)) (CHR ''0'') @ show_nat n"

text \<open>A fraction of \<open>prec\<close> digits with its point, without the zeros at its end.\<close>

definition fraction_text :: "nat \<Rightarrow> nat \<Rightarrow> string" where
  "fraction_text prec n =
     (let ds = rev (dropWhile (\<lambda>c. c = CHR ''0'') (rev (pad_nat prec n)))
      in if n = 0 then [] else CHR ''.'' # ds)"

subsection \<open>Durations\<close>

definition duration_text :: "int \<Rightarrow> string" where
  "duration_text d =
     (let u = nat \<bar>d\<bar>;
          scaled = (\<lambda>prec. show_nat (u div 10 ^ prec) @ fraction_text prec (u mod 10 ^ prec));
          secs = u div 1000000000;
          text = (if u = 0 then ''0s''
            else if u < 1000 then show_nat u @ ''ns''
            else if u < 1000000 then scaled 3 @ [CHR 0xC2, CHR 0xB5] @ ''s''
            else if u < 1000000000 then scaled 6 @ ''ms''
            else (if secs < 60 then [] else
                  (if secs < 3600 then [] else show_nat (secs div 3600) @ ''h'')
                  @ show_nat (secs div 60 mod 60) @ ''m'')
               @ show_nat (secs mod 60) @ fraction_text 9 (u mod 1000000000) @ ''s'')
      in if d < 0 then CHR ''-'' # text else text)"

subsection \<open>Instants\<close>

definition leap_year :: "int \<Rightarrow> bool" where
  "leap_year y \<longleftrightarrow> y mod 4 = 0 \<and> (y mod 100 \<noteq> 0 \<or> y mod 400 = 0)"

text \<open>The year and the day in it, from zero, of a day of the proleptic Gregorian calendar counted from
  0001-01-01: whole cycles of 400, 100, 4 and 1 years, the last of a century cycle and of a leap cycle
  being one day longer.\<close>

definition civil_year :: "int \<Rightarrow> int \<times> nat" where
  "civil_year day =
     (let n400 = day div 146097; r400 = day mod 146097;
          n100 = min 3 (r400 div 36524); r100 = r400 - 36524 * n100;
          n4 = r100 div 1461; r4 = r100 mod 1461;
          n1 = min 3 (r4 div 365)
      in (400 * n400 + 100 * n100 + 4 * n4 + n1 + 1, nat (r4 - 365 * n1)))"

definition month_days :: "int \<Rightarrow> nat list" where
  "month_days y = [31, if leap_year y then 29 else 28, 31, 30, 31, 30, 31, 31, 30, 31, 30, 31]"

fun month_of :: "nat list \<Rightarrow> nat \<Rightarrow> nat \<Rightarrow> nat \<times> nat" where
  "month_of [] m day = (m, day)"
| "month_of [n] m day = (m, day)"
| "month_of (n # ns) m day = (if day < n then (m, day) else month_of ns (Suc m) (day - n))"

definition year_text :: "int \<Rightarrow> string" where
  "year_text y = (if y < 0 then CHR ''-'' # pad_nat 4 (nat (- y)) else pad_nat 4 (nat y))"

definition rfc3339_nano :: "int \<Rightarrow> string" where
  "rfc3339_nano t =
     (let secs = t div 1000000000; nanos = nat (t mod 1000000000);
          tod = nat (secs mod 86400)
      in case civil_year (secs div 86400) of (y, yday) \<Rightarrow>
         case month_of (month_days y) 1 yday of (m, day) \<Rightarrow>
           year_text y @ ''-'' @ pad_nat 2 m @ ''-'' @ pad_nat 2 (day + 1) @ ''T''
           @ pad_nat 2 (tod div 3600) @ '':'' @ pad_nat 2 (tod div 60 mod 60) @ '':'' @ pad_nat 2 (tod mod 60)
           @ fraction_text 9 nanos @ ''Z'')"

lemma pad_nat_inj: "pad_nat w m = pad_nat w n \<Longrightarrow> m = n"
proof -
  have z: "decimal_value (replicate k (CHR ''0'') @ s) = decimal_value s" for k s
  proof (induction k)
    case (Suc k)
    have "decimal_value (CHR ''0'' # t) = decimal_value t" for t
      by (simp add: decimal_value_def digit_value_def)
    then show ?case using Suc by simp
  qed simp
  assume "pad_nat w m = pad_nat w n"
  then have "decimal_value (pad_nat w m) = decimal_value (pad_nat w n)" by simp
  then show "m = n" by (simp add: pad_nat_def z)
qed

lemma pad_nat_digits: "list_all is_digit (pad_nat w n)"
  by (simp add: pad_nat_def show_nat_digits list_all_iff is_digit_def)
    (use show_nat_digits in \<open>auto simp: list_all_iff is_digit_def\<close>)

end
