(* ===== verification/ReportJson.thy ===== *)
theory ReportJson
  imports Report GoTime
begin

text \<open>
  The canonical JSON of a report: \<open>AttrValue.MarshalJSON\<close>, \<open>Evidence.MarshalJSON\<close> and
  \<open>Report.MarshalJSON\<close> of \<open>internal/domain\<close>, as trees. A JSON object is the list of its members in
  the order they are written; the members of an attribute map come in key order.
\<close>

definition attr_json :: "attr_value \<Rightarrow> domain_error + json" where
  "attr_json v =
     rbind (case av_kind v of
         AttrKindString \<Rightarrow> Inr (JStr (av_str v))
       | AttrKindHost \<Rightarrow> Inr (JStr (av_str v))
       | AttrKindIdentity \<Rightarrow> Inr (JStr (av_str v))
       | AttrKindInt \<Rightarrow> Inr (JNum (av_num v))
       | AttrKindBool \<Rightarrow> Inr (JBool (av_flag v))
       | AttrKindDuration \<Rightarrow> Inr (JStr (duration_text (av_num v)))
       | AttrKindTime \<Rightarrow> Inr (JStr (rfc3339_nano (av_ts v)))
       | AttrKindStringList \<Rightarrow> Inr (JArr (map JStr (av_list v)))
       | AttrKindHostList \<Rightarrow> Inr (JArr (map JStr (av_list v)))
       | _ \<Rightarrow> Inl ErrInvalidValue)
     (\<lambda>value. Inr (JObj [(''kind'', JStr (attr_kind_string (av_kind v))), (''value'', value)]))"

definition attributes_json :: "(attribute_key \<times> attr_value) list \<Rightarrow> domain_error + json" where
  "attributes_json kvs =
     rbind (traverse (\<lambda>(key, v). rbind (attr_json v) (\<lambda>j. Inr (key, j))) (sort_key fst kvs)) (\<lambda>members.
     Inr (JObj members))"

definition evidence_json :: "evidence \<Rightarrow> domain_error + json" where
  "evidence_json e =
     (if evidence_is_zero e then Inl ErrInvalidValue
      else rbind (subject_json (ev_subject e)) (\<lambda>subj.
        rbind (layer_json (ev_layer e)) (\<lambda>layer.
        rbind (state_json (ev_state e)) (\<lambda>st.
        rbind (if ev_failure e = FailureNone then Inr []
               else rbind (failure_class_json (ev_failure e)) (\<lambda>j. Inr [(''failureClass'', j)])) (\<lambda>failure.
        rbind (if ev_attributes e = [] then Inr []
               else rbind (attributes_json (ev_attributes e)) (\<lambda>j. Inr [(''attributes'', j)])) (\<lambda>attrs.
        Inr (JObj ([(''id'', JStr (ev_id e)), (''subject'', subj), (''layer'', layer),
            (''step'', JStr (ev_step e)), (''state'', st)] @ failure @ attrs
          @ [(''startedAt'', JStr (rfc3339_nano (ev_started e))),
             (''duration'', JStr (duration_text (fst (elapsed_duration (ev_elapsed e)))))]))))))))"

text \<open>One node's relationships, left out when it has none.\<close>

definition relationship_json :: "graph \<Rightarrow> evidence_id \<Rightarrow> json list" where
  "relationship_json g x =
     (let parents = graph_parents g x; blockers = graph_blocked_by g x
      in if parents = [] \<and> blockers = [] then []
         else [JObj ([(''id'', JStr x)]
           @ (if parents = [] then [] else [(''parents'', JArr (map JStr parents))])
           @ (if blockers = [] then [] else [(''blockedBy'', JArr (map JStr blockers))]))])"

definition schema_version :: int where "schema_version = 1"

definition report_json :: "report \<Rightarrow> domain_error + json" where
  "report_json r =
     (if report_is_zero r then Inl ErrInvalidValue
      else let relationships = concat (map (relationship_json (rp_graph r) \<circ> ev_id) (graph_nodes (rp_graph r))) in
        rbind (output_mode_json (rs_mode (rp_security r))) (\<lambda>mode.
        rbind (target_json (rp_target r)) (\<lambda>target.
        rbind (vantage_json (rp_vantage r)) (\<lambda>vantage.
        rbind (traverse evidence_json (graph_nodes (rp_graph r))) (\<lambda>nodes.
        rbind (traverse finding_json (rp_findings r)) (\<lambda>findings.
        rbind (summary_json (rp_summary r)) (\<lambda>summary.
        rbind (security_json (rp_security r)) (\<lambda>security.
        Inr (JObj [(''schemaVersion'', JNum schema_version),
          (''run'', JObj [(''svcdoctorVersion'', JStr (rm_version (rp_run r))),
             (''startedAt'', JStr (rfc3339_nano (rm_started (rp_run r)))),
             (''duration'', JStr (duration_text (rm_duration (rp_run r)))),
             (''service'', JStr (rm_service (rp_run r))),
             (''tlsVerificationDisabled'', JBool (rs_tls_off (rp_security r))),
             (''outputMode'', mode)]),
          (''target'', target), (''vantage'', vantage),
          (''evidence'', JObj ([(''nodes'', JArr nodes)]
             @ (if relationships = [] then [] else [(''relationships'', JArr relationships)]))),
          (''findings'', JArr findings), (''summary'', summary), (''security'', security)])))))))))"

subsection \<open>Encoding never fails on what the constructors made\<close>

lemma attr_json_ok: "attr_valid v \<Longrightarrow> is_ok (attr_json v)"
  by (cases "av_kind v") (auto simp: attr_json_def attr_valid_def attr_kind_valid_def)

lemma is_ok_rbind: "is_ok (rbind x f) \<longleftrightarrow> (\<exists>v. x = Inr v \<and> is_ok (f v))"
  by (cases x) auto

lemma is_ok_traverse: "is_ok (traverse f xs) \<longleftrightarrow> (\<forall>x\<in>set xs. is_ok (f x))"
proof (induction xs)
  case (Cons x xs)
  then show ?case by (cases "f x"; cases "traverse f xs") auto
qed simp

lemma attributes_json_ok:
  "\<forall>(key, v)\<in>set kvs. attr_valid v \<Longrightarrow> is_ok (attributes_json kvs)"
proof -
  assume *: "\<forall>(key, v)\<in>set kvs. attr_valid v"
  have "is_ok (traverse (\<lambda>(key, v). rbind (attr_json v) (\<lambda>j. Inr (key, j))) (sort_key fst kvs))"
    unfolding is_ok_traverse
  proof (rule ballI, clarify)
    fix key v assume "(key, v) \<in> set (sort_key fst kvs)"
    then have "is_ok (attr_json v)" using * attr_json_ok by auto
    then show "is_ok (rbind (attr_json v) (\<lambda>j. Inr (key, j)))" by (cases "attr_json v") simp_all
  qed
  then show ?thesis by (auto simp: attributes_json_def is_ok_iff)
qed

lemma evidence_json_ok:
  assumes "evidence_wf e"
  shows "is_ok (evidence_json e)"
proof -
  have "is_ok (attributes_json (ev_attributes e))"
    using assms by (intro attributes_json_ok) (auto simp: evidence_wf_def)
  then show ?thesis
    using assms evidence_wf_not_zero [OF assms]
    by (auto simp: evidence_json_def evidence_wf_def subject_json_def subject_kind_json_def layer_json_def
        state_json_def failure_class_json_def is_ok_iff)
qed

end
