(* ===== verification/Redact.thy ===== *)
theory Redact
  imports ReportJson NetAddr
begin

text \<open>
  The shareable form of a report (\<open>internal/security/redaction\<close>): the identifying values of a report are
  collected, sorted and numbered, every place that holds one is rewritten through the pseudonym table,
  the report is rebuilt through the ordinary constructors, and the finished report is searched for
  what the table knows.
\<close>

subsection \<open>Errors and usage\<close>

text \<open>Every error wraps \<open>ErrRedaction\<close>, and the error of a constructor when there was one.\<close>

datatype redact_error = ErrRedaction "domain_error option"

text \<open>What was replaced so far; the transformation threads it through every rewrite.\<close>

record usage =
  us_hosts :: "string set"
  us_ips :: "string set"
  us_ids :: "string set"
  us_identities :: "string set"
  us_prose :: nat

definition fresh_usage :: usage where
  "fresh_usage = \<lparr>us_hosts = {}, us_ips = {}, us_ids = {}, us_identities = {}, us_prose = 0\<rparr>"

type_synonym 'a redacting = "usage \<Rightarrow> redact_error + 'a \<times> usage"

definition rd_return :: "'a \<Rightarrow> 'a redacting" where
  "rd_return x = (\<lambda>u. Inr (x, u))"

definition rd_fail :: "'a redacting" where
  "rd_fail = (\<lambda>u. Inl (ErrRedaction None))"

definition rd_then :: "'a redacting \<Rightarrow> ('a \<Rightarrow> 'b redacting) \<Rightarrow> 'b redacting" where
  "rd_then m f = (\<lambda>u. rbind (m u) (\<lambda>(x, u'). f x u'))"

text \<open>A constructor's error is wrapped.\<close>

definition rd_lift :: "domain_error + 'a \<Rightarrow> 'a redacting" where
  "rd_lift r = (\<lambda>u. case r of Inl e \<Rightarrow> Inl (ErrRedaction (Some e)) | Inr x \<Rightarrow> Inr (x, u))"

primrec rd_each :: "('a \<Rightarrow> 'b redacting) \<Rightarrow> 'a list \<Rightarrow> 'b list redacting" where
  "rd_each f [] = rd_return []"
| "rd_each f (x # xs) = rd_then (f x) (\<lambda>y. rd_then (rd_each f xs) (\<lambda>ys. rd_return (y # ys)))"

subsection \<open>The pseudonym table\<close>

type_synonym replacement = "string \<times> string"

record pseudonym_table =
  pt_hosts :: "(string \<times> string) list"
  pt_ips :: "(string \<times> string) list"
  pt_identities :: "(string \<times> string) list"
  pt_ids :: "(string \<times> string) list"
  pt_prose :: "replacement list"

text \<open>\<open>slices.Sort\<close>, \<open>slices.Compact\<close>, and a number for each value.\<close>

definition numbered :: "string \<Rightarrow> string list \<Rightarrow> (string \<times> string) list" where
  "numbered prefix values =
     (let vs = remdups_adj (sort values)
      in zip vs (map (\<lambda>i. prefix @ pad_nat 3 (i + 1)) [0..<length vs]))"

definition compare_replacement :: "replacement \<Rightarrow> replacement \<Rightarrow> int" where
  "compare_replacement a b =
     (let d = int (length (fst b)) - int (length (fst a)) in if d \<noteq> 0 then d else go_compare (fst a) (fst b))"

text \<open>\<open>slices.SortFunc\<close> over entries that come out of Go maps: where the comparison ties, the order of the
  result is not determined, so the order is an argument, any function that sorts.\<close>

definition sorts_replacements :: "(replacement list \<Rightarrow> replacement list) \<Rightarrow> bool" where
  "sorts_replacements order \<longleftrightarrow> (\<forall>rs. mset (order rs) = mset rs
     \<and> sorted_wrt (\<lambda>a b. compare_replacement a b \<le> 0) (order rs))"

definition new_table :: "(replacement list \<Rightarrow> replacement list) \<Rightarrow> string list \<Rightarrow> string list \<Rightarrow> string list
    \<Rightarrow> evidence_id list \<Rightarrow> pseudonym_table" where
  "new_table order hosts ips identities ids =
     (let h = numbered ''host-'' hosts; i = numbered ''ip-'' ips; d = numbered ''identity-'' identities;
          e = numbered ''evidence-'' ids
      in \<lparr>pt_hosts = h, pt_ips = i, pt_identities = d, pt_ids = e, pt_prose = order (h @ i @ d @ e)\<rparr>)"

definition table_host :: "pseudonym_table \<Rightarrow> string \<Rightarrow> string redacting" where
  "table_host t name = (\<lambda>u. case map_of (pt_hosts t) name of
       None \<Rightarrow> Inr (name, u)
     | Some p \<Rightarrow> Inr (p, u\<lparr>us_hosts := insert name (us_hosts u)\<rparr>))"

definition table_ip :: "pseudonym_table \<Rightarrow> string \<Rightarrow> string redacting" where
  "table_ip t addr = (\<lambda>u. case map_of (pt_ips t) addr of
       None \<Rightarrow> Inr (addr, u)
     | Some p \<Rightarrow> Inr (p, u\<lparr>us_ips := insert addr (us_ips u)\<rparr>))"

definition table_identity :: "pseudonym_table \<Rightarrow> string \<Rightarrow> string redacting" where
  "table_identity t v = (\<lambda>u. case map_of (pt_identities t) v of
       None \<Rightarrow> Inr (v, u)
     | Some p \<Rightarrow> Inr (p, u\<lparr>us_identities := insert v (us_identities u)\<rparr>))"

definition table_id :: "pseudonym_table \<Rightarrow> evidence_id \<Rightarrow> evidence_id redacting" where
  "table_id t x = (\<lambda>u. case map_of (pt_ids t) x of
       None \<Rightarrow> Inl (ErrRedaction None)
     | Some p \<Rightarrow> Inr (p, u\<lparr>us_ids := insert x (us_ids u)\<rparr>))"

definition usage_counts :: "usage \<Rightarrow> redaction_counts" where
  "usage_counts u = \<lparr>rc_hostname = int (card (us_hosts u)), rc_ip = int (card (us_ips u)),
     rc_evidence_id = int (card (us_ids u)), rc_prose = int (us_prose u),
     rc_identity = int (card (us_identities u))\<rparr>"

text \<open>\<open>strings.ReplaceAll\<close>: the occurrences from the left that do not overlap. An empty text is found before
  every rune and at the end.\<close>

function replace_from :: "string \<Rightarrow> string \<Rightarrow> string \<Rightarrow> string" where
  "replace_from s from to =
     (if s = [] \<or> from = [] then s
      else if has_prefix s from then to @ replace_from (drop (length from) s) from to
      else hd s # replace_from (tl s) from to)"
  by pat_completeness auto
termination replace_from
  by (relation "measure (\<lambda>(s, from, to). length s)") auto

declare replace_from.simps [simp del]

definition replace_all :: "string \<Rightarrow> string \<Rightarrow> string \<Rightarrow> string" where
  "replace_all s from to =
     (if from = [] then concat (map (\<lambda>rb. to @ snd rb) (runes s)) @ to else replace_from s from to)"

definition replaced :: "pseudonym_table \<Rightarrow> string \<Rightarrow> string" where
  "replaced t s = fold (\<lambda>(from, to) out. replace_all out from to) (pt_prose t) s"

definition table_text :: "pseudonym_table \<Rightarrow> string \<Rightarrow> string redacting" where
  "table_text t s = (\<lambda>u.
     if s = [] then Inr (s, u)
     else let out = replaced t s in
       Inr (out, if out \<noteq> s then u\<lparr>us_prose := us_prose u + 1\<rparr> else u))"

definition table_value :: "pseudonym_table \<Rightarrow> string \<Rightarrow> string redacting" where
  "table_value t v = (if parse_addr v then table_ip t v else table_host t v)"

definition endpoint_ref :: "pseudonym_table \<Rightarrow> string \<Rightarrow> string redacting" where
  "endpoint_ref t ref =
     (case endpoint_parts ref of (host, port, has_port) \<Rightarrow>
        if \<not> has_port then table_value t ref
        else if host = [] then rd_return (join_host_port [] port)
        else rd_then (table_value t host) (\<lambda>h. rd_return (join_host_port h port)))"

definition attr_text :: "pseudonym_table \<Rightarrow> string \<Rightarrow> string redacting" where
  "attr_text t s =
     (if s = [] then rd_return s
      else if map_of (pt_ips t) s \<noteq> None then table_ip t s
      else if map_of (pt_hosts t) s \<noteq> None then table_host t s
      else (case endpoint_parts s of (host, port, has_port) \<Rightarrow>
        if has_port \<and> map_of (pt_ips t) host \<noteq> None
        then rd_then (table_ip t host) (\<lambda>h. rd_return (join_host_port h port))
        else if has_port \<and> map_of (pt_hosts t) host \<noteq> None
        then rd_then (table_host t host) (\<lambda>h. rd_return (join_host_port h port))
        else if map_of (pt_identities t) s \<noteq> None then table_identity t s
        else rd_return s))"

subsection \<open>Collecting\<close>

text \<open>The hosts and the addresses collected so far.\<close>

type_synonym found = "string list \<times> string list"

definition classify :: "string \<Rightarrow> found \<Rightarrow> found" where
  "classify ref found =
     (case endpoint_parts ref of (part, _, has_port) \<Rightarrow>
        let host = (if has_port then part else ref)
        in if host = [] then found
           else if parse_addr host then (fst found, snd found @ [host])
           else (fst found @ [host], snd found))"

definition classify_attr_string :: "string \<Rightarrow> found \<Rightarrow> found" where
  "classify_attr_string s found =
     (if s = [] then found
      else if parse_addr s then (fst found, snd found @ [s])
      else if looks_like_endpoint s then classify s found
      else found)"

definition collect_attr :: "attr_value \<Rightarrow> found \<times> string list \<Rightarrow> found \<times> string list" where
  "collect_attr v st =
     (case st of (found, identities) \<Rightarrow>
        (case av_kind v of
           AttrKindHost \<Rightarrow> (classify (fst (attr_get_host v)) found, identities)
         | AttrKindHostList \<Rightarrow> (fold classify (fst (attr_get_host_list v)) found, identities)
         | AttrKindIdentity \<Rightarrow>
             (found, if fst (attr_get_identity v) \<noteq> [] then identities @ [fst (attr_get_identity v)]
                     else identities)
         | AttrKindString \<Rightarrow> (classify_attr_string (fst (attr_get_str v)) found, identities)
         | AttrKindStringList \<Rightarrow>
             (fold classify_attr_string (fst (attr_get_string_list v)) found, identities)
         | _ \<Rightarrow> (found, identities)))"

definition collect_node :: "evidence \<Rightarrow> found \<times> string list \<Rightarrow> found \<times> string list" where
  "collect_node e st =
     fold (collect_attr \<circ> snd) (ev_attributes e) (classify (subj_ref (ev_subject e)) (fst st), snd st)"

definition collect_finding :: "finding \<Rightarrow> found \<Rightarrow> found" where
  "collect_finding f found =
     (if subject_is_zero (f_subject f) then found else classify (subj_ref (f_subject f)) found)"

definition collect :: "report \<Rightarrow> string list \<times> string list \<times> string list \<times> evidence_id list" where
  "collect r =
     (let start = fold classify (tg_requested (rp_target r) # tg_normalized (rp_target r)) ([], []);
          placed = (if vantage_is_zero (rp_vantage r) then start
            else classify (vt_host (rp_vantage r)) start)
      in case fold collect_node (graph_nodes (rp_graph r)) (placed, []) of
          (found, identities) \<Rightarrow>
            (case fold collect_finding (rp_findings r) found of
               (hosts, ips) \<Rightarrow> (hosts, ips, identities, map ev_id (graph_nodes (rp_graph r)))))"

subsection \<open>Rebuilding\<close>

definition redact_target :: "pseudonym_table \<Rightarrow> target \<Rightarrow> target redacting" where
  "redact_target t tg =
     rd_then (rd_each (endpoint_ref t) (tg_normalized tg)) (\<lambda>normalized.
     rd_then (endpoint_ref t (tg_requested tg)) (\<lambda>requested.
     rd_lift (new_target requested normalized)))"

definition redact_vantage :: "pseudonym_table \<Rightarrow> vantage \<Rightarrow> vantage redacting" where
  "redact_vantage t v =
     (if vt_source v \<noteq> VantageSourceLocalHost then rd_fail
      else rd_then (endpoint_ref t (vt_host v)) (\<lambda>h. rd_lift (new_local_vantage h)))"

definition redact_subject :: "pseudonym_table \<Rightarrow> subject \<Rightarrow> subject redacting" where
  "redact_subject t s =
     (if subject_is_zero s then rd_return zero_subject
      else rd_then (endpoint_ref t (subj_ref s)) (\<lambda>ref.
        case subj_kind s of
          SubjectKindEndpoint \<Rightarrow> rd_lift (new_endpoint_subject ref)
        | SubjectKindTarget \<Rightarrow> rd_lift (new_target_subject ref)
        | _ \<Rightarrow> rd_fail))"

definition redact_attr :: "pseudonym_table \<Rightarrow> attr_value \<Rightarrow> attr_value redacting" where
  "redact_attr t v =
     (case av_kind v of
        AttrKindHost \<Rightarrow> rd_then (attr_text t (fst (attr_get_host v))) (\<lambda>h. rd_return (host_attr h))
      | AttrKindHostList \<Rightarrow>
          rd_then (rd_each (attr_text t) (fst (attr_get_host_list v))) (\<lambda>l. rd_return (host_list_attr l))
      | AttrKindIdentity \<Rightarrow>
          rd_then (table_identity t (fst (attr_get_identity v))) (\<lambda>x. rd_return (identity_attr x))
      | AttrKindString \<Rightarrow> rd_then (attr_text t (fst (attr_get_str v))) (\<lambda>s. rd_return (string_attr s))
      | AttrKindStringList \<Rightarrow>
          rd_then (rd_each (attr_text t) (fst (attr_get_string_list v))) (\<lambda>l. rd_return (string_list_attr l))
      | _ \<Rightarrow> rd_return v)"

definition redact_evidence :: "pseudonym_table \<Rightarrow> evidence \<Rightarrow> evidence redacting" where
  "redact_evidence t e =
     rd_then (table_id t (ev_id e)) (\<lambda>x.
     rd_then (redact_subject t (ev_subject e)) (\<lambda>subj.
     rd_then (rd_each (\<lambda>(key, v). rd_then (redact_attr t v) (\<lambda>v'. rd_return (key, v'))) (ev_attributes e)) (\<lambda>attrs.
     rd_lift (new_evidence \<lparr>ev_id = x, ev_subject = subj, ev_layer = ev_layer e, ev_step = ev_step e,
       ev_state = ev_state e, ev_failure = ev_failure e, ev_attributes = attrs,
       ev_started = ev_started e, ev_elapsed = ev_elapsed e\<rparr>))))"

text \<open>A loop over a builder.\<close>

primrec rd_fold :: "('a \<Rightarrow> 'b \<Rightarrow> 'b redacting) \<Rightarrow> 'a list \<Rightarrow> 'b \<Rightarrow> 'b redacting" where
  "rd_fold f [] b = rd_return b"
| "rd_fold f (x # xs) b = rd_then (f x b) (rd_fold f xs)"

definition rebuild_node :: "pseudonym_table \<Rightarrow> evidence \<Rightarrow> builder \<Rightarrow> builder redacting" where
  "rebuild_node t e b = rd_then (redact_evidence t e) (\<lambda>node. rd_lift (add_evidence b node))"

definition rebuild_relations :: "pseudonym_table \<Rightarrow> graph \<Rightarrow> evidence \<Rightarrow> builder \<Rightarrow> builder redacting" where
  "rebuild_relations t g e b =
     rd_then (table_id t (ev_id e)) (\<lambda>child.
     rd_then (rd_fold (\<lambda>p b. rd_then (table_id t p) (\<lambda>parent. rd_lift (add_parent b child parent)))
       (graph_parents g (ev_id e)) b) (\<lambda>b1.
     rd_fold (\<lambda>x b. rd_then (table_id t x) (\<lambda>blocker. rd_lift (add_blocked_by b child blocker)))
       (graph_blocked_by g (ev_id e)) b1))"

definition redact_graph :: "pseudonym_table \<Rightarrow> graph \<Rightarrow> graph redacting" where
  "redact_graph t g =
     rd_then (rd_fold (rebuild_node t) (graph_nodes g) new_graph_builder) (\<lambda>b1.
     rd_then (rd_fold (rebuild_relations t g) (graph_nodes g) b1) (\<lambda>b2.
     rd_lift (freeze b2)))"

definition redact_recommendation :: "pseudonym_table \<Rightarrow> recommendation \<Rightarrow> recommendation redacting" where
  "redact_recommendation t r =
     (if rec_classified r then
        rd_then (table_text t (rec_action r)) (\<lambda>action.
        rd_then (table_text t (rec_rationale r)) (\<lambda>rationale.
        rd_lift (new_classified_recommendation \<lparr>rec_action = action, rec_kind = rec_kind r,
          rec_safety = rec_safety r, rec_rationale = rationale,
          rec_self_collectable = rec_self_collectable r\<rparr>)))
      else rd_then (table_text t (rec_action r)) (\<lambda>action. rd_lift (new_recommendation action)))"

definition redact_finding :: "pseudonym_table \<Rightarrow> finding \<Rightarrow> finding redacting" where
  "redact_finding t f =
     rd_then (redact_subject t (f_subject f)) (\<lambda>subj.
     rd_then (rd_each (table_id t) (f_refs f)) (\<lambda>refs.
     rd_then (rd_each (redact_recommendation t) (f_recs f)) (\<lambda>recs.
     rd_then (table_text t (f_summary f)) (\<lambda>summary.
     rd_then (table_text t (f_detail f)) (\<lambda>detail.
     rd_then (table_text t (f_discriminator f)) (\<lambda>discriminator.
     rd_lift (new_finding \<lparr>f_code = f_code f, f_kind = f_kind f, f_severity = f_severity f,
       f_confidence = f_confidence f, f_layer = f_layer f, f_subject = subj, f_summary = summary,
       f_detail = detail, f_refs = refs, f_recs = recs, f_vantage = f_vantage f,
       f_discriminator = discriminator\<rparr>)))))))"

definition redact_findings :: "pseudonym_table \<Rightarrow> finding list \<Rightarrow> finding list redacting" where
  "redact_findings t fs = rd_each (redact_finding t) fs"

subsection \<open>The search of the finished report\<close>

text \<open>A string as it comes back from \<open>encoding/json\<close>: bytes that are not UTF-8 have become U+FFFD.\<close>

definition json_text :: "string \<Rightarrow> string" where
  "json_text s = concat (map (\<lambda>(r, b).
     if r = rune_error \<and> length b = 1 then [CHR 0xEF, CHR 0xBF, CHR 0xBD] else b) (runes s))"

text \<open>The string positions of a document: its string values and the names of its members.\<close>

fun json_positions :: "json \<Rightarrow> string list" where
  "json_positions (JStr s) = [json_text s]"
| "json_positions (JArr xs) = concat (map json_positions xs)"
| "json_positions (JObj kvs) = concat (map (\<lambda>(k, v). json_text k # json_positions v) kvs)"
| "json_positions _ = []"

definition string_positions :: "domain_error + json \<Rightarrow> redact_error + string list" where
  "string_positions encoded =
     (case encoded of Inl e \<Rightarrow> Inl (ErrRedaction (Some e)) | Inr j \<Rightarrow> Inr (json_positions j))"

definition contains_any :: "string list \<Rightarrow> string \<Rightarrow> bool" where
  "contains_any positions v \<longleftrightarrow> (if v = [] then False else list_ex (\<lambda>p. contains_str p v) positions)"

text \<open>The four loops end with the same error, whose message says which kind of value survived.\<close>

definition verify_no_residual :: "pseudonym_table \<Rightarrow> domain_error + json \<Rightarrow> redact_error + unit" where
  "verify_no_residual t encoded =
     rbind (string_positions encoded) (\<lambda>positions.
       if list_ex (contains_any positions) (sort (map fst (pt_hosts t))) then Inl (ErrRedaction None)
       else if list_ex (contains_any positions) (sort (map fst (pt_ips t))) then Inl (ErrRedaction None)
       else if list_ex (contains_any positions) (sort (map fst (pt_identities t))) then Inl (ErrRedaction None)
       else if list_ex (contains_any positions) (sort (map fst (pt_ids t))) then Inl (ErrRedaction None)
       else Inr ())"

definition redact_with :: "pseudonym_table \<Rightarrow> report \<Rightarrow> report redacting" where
  "redact_with t r =
     rd_then (redact_target t (rp_target r)) (\<lambda>target.
     rd_then (redact_vantage t (rp_vantage r)) (\<lambda>vantage.
     rd_then (redact_graph t (rp_graph r)) (\<lambda>graph.
     rd_then (redact_findings t (rp_findings r)) (\<lambda>findings.
     rd_then (\<lambda>u. rd_lift (new_shareable_report_security (rp_security r) (usage_counts u)) u) (\<lambda>security.
     rd_then (rd_lift (new_report \<lparr>ri_run = rp_run r, ri_target = target, ri_vantage = vantage,
       ri_graph = graph, ri_findings = findings, ri_security = security\<rparr>)) (\<lambda>out.
     rd_then (\<lambda>u. rbind (verify_no_residual t (report_json out)) (\<lambda>_. Inr ((), u))) (\<lambda>_.
     rd_return out)))))))"

definition redact :: "(replacement list \<Rightarrow> replacement list) \<Rightarrow> report \<Rightarrow> redact_error + report" where
  "redact order r =
     (if report_is_zero r then Inl (ErrRedaction None)
      else if rs_mode (rp_security r) = OutputModeShareableRedacted then Inr r
      else (case collect r of (hosts, ips, identities, ids) \<Rightarrow>
        rbind (redact_with (new_table order hosts ips identities ids) r fresh_usage) (\<lambda>(out, _). Inr out)))"

subsection \<open>What is identifying\<close>

definition host_part :: "string \<Rightarrow> string" where
  "host_part ref = (case endpoint_parts ref of (host, _, has_port) \<Rightarrow> if has_port then host else ref)"

definition attr_identifying :: "attr_value \<Rightarrow> string set" where
  "attr_identifying v =
     (let plain = (\<lambda>s. if parse_addr s then {s} else if looks_like_endpoint s then {host_part s} else {})
      in case av_kind v of
        AttrKindHost \<Rightarrow> {host_part (av_str v)}
      | AttrKindHostList \<Rightarrow> host_part ` set (av_list v)
      | AttrKindIdentity \<Rightarrow> {av_str v}
      | AttrKindString \<Rightarrow> plain (av_str v)
      | AttrKindStringList \<Rightarrow> (\<Union>s\<in>set (av_list v). plain s)
      | _ \<Rightarrow> {})"

text \<open>The identifying values of a report: the hosts of its target, its vantage and its subjects, what its
  attributes declare or show as hosts, addresses and identities, and the ids of its evidence.\<close>

definition identifying :: "report \<Rightarrow> string set" where
  "identifying r =
     (host_part ` ({tg_requested (rp_target r), vt_host (rp_vantage r)} \<union> set (tg_normalized (rp_target r))
        \<union> {subj_ref (ev_subject e) | e. e \<in> set (graph_nodes (rp_graph r))}
        \<union> {subj_ref (f_subject f) | f. f \<in> set (rp_findings r) \<and> \<not> subject_is_zero (f_subject f)})
      \<union> (\<Union>e\<in>set (graph_nodes (rp_graph r)). insert (ev_id e) (\<Union>(key, v)\<in>set (ev_attributes e). attr_identifying v)))
     - {[]}"

definition seen :: "found \<Rightarrow> string set" where
  "seen found = set (fst found) \<union> set (snd found)"

lemma seen_classify [simp]: "seen (classify ref found) = seen found \<union> ({host_part ref} - {[]})"
  by (auto simp: classify_def host_part_def seen_def Let_def split: prod.splits)

lemma seen_fold_classify [simp]: "seen (fold classify refs found) = seen found \<union> (host_part ` set refs - {[]})"
  by (induction refs arbitrary: found) auto

definition plain_identifying :: "string \<Rightarrow> string set" where
  "plain_identifying s = (if parse_addr s then {s} else if looks_like_endpoint s then {host_part s} else {})"

lemma parse_addr_Nil [simp]: "\<not> parse_addr []"
  by (simp add: parse_addr_def)

lemma looks_like_endpoint_Nil [simp]: "\<not> looks_like_endpoint []"
  by (simp add: looks_like_endpoint_def endpoint_parts_def)

lemma seen_classify_attr_string [simp]:
  "seen (classify_attr_string s found) = seen found \<union> (plain_identifying s - {[]})"
  by (auto simp: classify_attr_string_def plain_identifying_def) (auto simp: seen_def)

lemma seen_fold_classify_attr_string [simp]:
  "seen (fold classify_attr_string ss found) = seen found \<union> ((\<Union>s\<in>set ss. plain_identifying s) - {[]})"
  by (induction ss arbitrary: found) auto

definition seen_all :: "found \<times> string list \<Rightarrow> string set" where
  "seen_all st = seen (fst st) \<union> set (snd st)"

lemma seen_collect_attr [simp]: "seen_all (collect_attr v st) = seen_all st \<union> (attr_identifying v - {[]})"
  by (cases st; cases "av_kind v")
    (auto simp: collect_attr_def seen_all_def attr_identifying_def attr_readers plain_identifying_def Let_def)

lemma seen_fold_collect_attr:
  "seen_all (fold (collect_attr \<circ> snd) kvs st) = seen_all st \<union> ((\<Union>(key, v)\<in>set kvs. attr_identifying v) - {[]})"
  by (induction kvs arbitrary: st) auto

lemma seen_collect_node:
  "seen_all (collect_node e st) = seen_all st \<union> (insert (host_part (subj_ref (ev_subject e)))
     (\<Union>(key, v)\<in>set (ev_attributes e). attr_identifying v) - {[]})"
  unfolding collect_node_def seen_fold_collect_attr by (auto simp: seen_all_def)

lemma seen_fold_collect_node:
  "seen_all (fold collect_node es st) = seen_all st \<union> ((\<Union>e\<in>set es. insert (host_part (subj_ref (ev_subject e)))
     (\<Union>(key, v)\<in>set (ev_attributes e). attr_identifying v)) - {[]})"
  by (induction es arbitrary: st) (auto simp: seen_collect_node)

lemma seen_fold_collect_finding:
  "seen (fold collect_finding fs found) = seen found
     \<union> (host_part ` {subj_ref (f_subject f) | f. f \<in> set fs \<and> \<not> subject_is_zero (f_subject f)} - {[]})"
  by (induction fs arbitrary: found) (auto simp: collect_finding_def)

lemma host_part_Nil [simp]: "host_part [] = []"
  by (simp add: host_part_def endpoint_parts_def)

lemma identifying_sets:
  "((f ` A - {z}) \<union> ((\<Union>e\<in>N. insert (f (s e)) (I e)) - {z}) \<union> (f ` F - {z})) - {z} \<union> (k ` N - {z})
    = f ` (A \<union> {s e | e. e \<in> N} \<union> F) \<union> (\<Union>e\<in>N. insert (k e) (I e)) - {z}"
  by blast

lemma seen_start:
  assumes "z \<Longrightarrow> h = []"
  shows "seen (if z then fold classify ns (classify q ([], [])) else classify h (fold classify ns (classify q ([], []))))
    = host_part ` ({q, h} \<union> set ns) - {[]}"
proof -
  have "seen ([], []) = {}" by (simp add: seen_def)
  then show ?thesis using assms by (cases z) auto
qed

lemma collect_identifying:
  assumes "collect r = (hosts, ips, identities, ids)"
  shows "set hosts \<union> set ips \<union> set identities \<union> set ids - {[]} = identifying r"
    and "ids = map ev_id (graph_nodes (rp_graph r))"
proof -
  obtain found where nodes: "fold collect_node (graph_nodes (rp_graph r))
      (if vantage_is_zero (rp_vantage r)
       then fold classify (tg_normalized (rp_target r)) (classify (tg_requested (rp_target r)) ([], []))
       else classify (vt_host (rp_vantage r))
         (fold classify (tg_normalized (rp_target r)) (classify (tg_requested (rp_target r)) ([], []))), []) = (found, identities)"
    and last: "fold collect_finding (rp_findings r) found = (hosts, ips)"
    and ids: "ids = map ev_id (graph_nodes (rp_graph r))"
    using assms by (auto simp: collect_def Let_def split: prod.splits)
  show "ids = map ev_id (graph_nodes (rp_graph r))" by (rule ids)
  have v: "vantage_is_zero (rp_vantage r) \<Longrightarrow> vt_host (rp_vantage r) = []"
    by (simp add: vantage_is_zero_def)
  have start: "seen_all (if vantage_is_zero (rp_vantage r)
       then fold classify (tg_normalized (rp_target r)) (classify (tg_requested (rp_target r)) ([], []))
       else classify (vt_host (rp_vantage r))
         (fold classify (tg_normalized (rp_target r)) (classify (tg_requested (rp_target r)) ([], []))), [])
    = host_part ` ({tg_requested (rp_target r), vt_host (rp_vantage r)} \<union> set (tg_normalized (rp_target r))) - {[]}"
    using seen_start [OF v, where ns = "tg_normalized (rp_target r)" and q = "tg_requested (rp_target r)"]
    by (simp add: seen_all_def)
  have "seen found \<union> set identities = seen_all (found, identities)"
    by (simp add: seen_all_def)
  also have "\<dots> = (host_part ` ({tg_requested (rp_target r), vt_host (rp_vantage r)} \<union> set (tg_normalized (rp_target r))) - {[]})
      \<union> ((\<Union>e\<in>set (graph_nodes (rp_graph r)). insert (host_part (subj_ref (ev_subject e)))
           (\<Union>(key, v)\<in>set (ev_attributes e). attr_identifying v)) - {[]})"
    by (simp only: nodes [symmetric] seen_fold_collect_node start)
  finally have *: "seen found \<union> set identities = (host_part ` ({tg_requested (rp_target r), vt_host (rp_vantage r)}
        \<union> set (tg_normalized (rp_target r))) - {[]})
      \<union> ((\<Union>e\<in>set (graph_nodes (rp_graph r)). insert (host_part (subj_ref (ev_subject e)))
           (\<Union>(key, v)\<in>set (ev_attributes e). attr_identifying v)) - {[]})" .
  have "a \<union> f \<union> i = b \<union> f" if "a \<union> i = b" for a b f i :: "string set"
    using that by blast
  note this [OF *]
  then have union: "seen (hosts, ips) \<union> set identities = (host_part ` ({tg_requested (rp_target r), vt_host (rp_vantage r)}
        \<union> set (tg_normalized (rp_target r))) - {[]})
      \<union> ((\<Union>e\<in>set (graph_nodes (rp_graph r)). insert (host_part (subj_ref (ev_subject e)))
           (\<Union>(key, v)\<in>set (ev_attributes e). attr_identifying v)) - {[]})
      \<union> (host_part ` {subj_ref (f_subject f) | f. f \<in> set (rp_findings r) \<and> \<not> subject_is_zero (f_subject f)} - {[]})"
    by (simp only: last [symmetric] seen_fold_collect_finding)
  have "set hosts \<union> set ips \<union> set identities \<union> set ids - {[]}
      = (seen (hosts, ips) \<union> set identities) - {[]} \<union> (ev_id ` set (graph_nodes (rp_graph r)) - {[]})"
    by (simp add: seen_def ids Un_Diff)
  also have "\<dots> = identifying r"
    unfolding union identifying_def by (rule identifying_sets)
  finally show "set hosts \<union> set ips \<union> set identities \<union> set ids - {[]} = identifying r" .
qed

end
