(* ===== verification/RedactSound.thy ===== *)
theory RedactSound
  imports Redact Prose
begin

text \<open>
  What the shareable form of a report promises: no identifying value of the local report is left in any
  string of its encoding, and what it says of the diagnosis is what the local report says, up to the
  names of the evidence.
\<close>

subsection \<open>Sequences of rewrites\<close>

lemma rd_return_Inr [simp]: "rd_return x u = Inr (y, v) \<longleftrightarrow> y = x \<and> v = u"
  by (auto simp: rd_return_def)

lemma rd_fail_Inr [simp]: "rd_fail u = Inr z \<longleftrightarrow> False"
  by (simp add: rd_fail_def)

lemma rd_lift_Inr [simp]: "rd_lift r u = Inr (y, v) \<longleftrightarrow> r = Inr y \<and> v = u"
  by (auto simp: rd_lift_def split: sum.splits)

lemma rd_then_Inr [simp]: "rd_then m f u = Inr (y, v) \<longleftrightarrow> (\<exists>x w. m u = Inr (x, w) \<and> f x w = Inr (y, v))"
  by (auto simp: rd_then_def rbind_Inr_iff)

lemma rd_each_Inr:
  "rd_each f xs u = Inr (ys, v) \<Longrightarrow> list_all2 (\<lambda>x y. \<exists>w z. f x w = Inr (y, z)) xs ys"
  by (induction xs arbitrary: u ys) auto

lemma table_id_Inr: "table_id t x u = Inr (y, v) \<Longrightarrow> map_of (pt_ids t) x = Some y"
  by (auto simp: table_id_def split: option.splits)

subsection \<open>Numbering\<close>

lemma sorted_compact: "sorted xs \<Longrightarrow> distinct (remdups_adj xs)"
proof (induction xs rule: remdups_adj.induct)
  case (3 x y xs)
  show ?case
  proof (cases "x = y")
    case False
    with 3(3) have "x < z" if "z \<in> set (y # xs)" for z
      using that by (auto simp: order.strict_iff_order)
    then have "x \<notin> set (y # xs)" by blast
    then show ?thesis using 3 False by simp
  qed (use 3 in simp)
qed simp_all

lemma numbered_keys: "map fst (numbered p xs) = remdups_adj (sort xs)"
  by (simp add: numbered_def Let_def)

lemma numbered_dom: "dom (map_of (numbered p xs)) = set xs"
proof -
  have "fst ` set (numbered p xs) = set (map fst (numbered p xs))" by simp
  then show ?thesis by (simp only: dom_map_of_conv_image_fst numbered_keys) simp
qed

lemma numbered_inj: "inj_on (map_of (numbered p xs)) (set xs)"
proof -
  let ?vs = "remdups_adj (sort xs)" and ?ps = "\<lambda>n. map (\<lambda>i. p @ pad_nat 3 (i + 1)) [0..<n]"
  have d: "distinct ?vs" by (rule sorted_compact) simp
  have at: "map_of (numbered p xs) (?vs ! i) = Some (p @ pad_nat 3 (i + 1))" if "i < length ?vs" for i
  proof -
    have "(?vs ! i, p @ pad_nat 3 (i + 1)) \<in> set (numbered p xs)"
      using that by (auto simp: numbered_def Let_def in_set_zip intro!: exI [of _ i])
    moreover have "distinct (map fst (numbered p xs))" using d by (simp add: numbered_keys)
    ultimately show ?thesis by (simp add: map_of_is_SomeI)
  qed
  show ?thesis
  proof (rule inj_onI)
    fix x y assume "x \<in> set xs" "y \<in> set xs" and eq: "map_of (numbered p xs) x = map_of (numbered p xs) y"
    then have "x \<in> set ?vs" "y \<in> set ?vs" by simp_all
    then obtain i j where "i < length ?vs" "x = ?vs ! i" "j < length ?vs" "y = ?vs ! j"
      unfolding in_set_conv_nth by blast
    moreover from this have "pad_nat 3 (i + 1) = pad_nat 3 (j + 1)" using eq at by simp
    then have "i = j" by (auto dest: pad_nat_inj)
    ultimately show "x = y" by simp
  qed
qed

text \<open>The keys of the table are what was collected.\<close>

lemma new_table_keys:
  "fst ` set (pt_hosts (new_table order h i d e)) = set h"
  "fst ` set (pt_ips (new_table order h i d e)) = set i"
  "fst ` set (pt_identities (new_table order h i d e)) = set d"
  "fst ` set (pt_ids (new_table order h i d e)) = set e"
  unfolding new_table_def Let_def pseudonym_table.select_convs dom_map_of_conv_image_fst [symmetric]
  by (rule numbered_dom)+

subsection \<open>Nothing identifying is left\<close>

lemma verify_no_residual_Inr:
  assumes "verify_no_residual t encoded = Inr ()"
  obtains j where "encoded = Inr j"
    and "\<forall>p\<in>set (json_positions j). \<forall>v\<in>fst ` (set (pt_hosts t) \<union> set (pt_ips t) \<union> set (pt_identities t)
      \<union> set (pt_ids t)) - {[]}. \<not> contains_str p v"
proof -
  obtain j where "encoded = Inr j"
    using assms by (cases encoded) (auto simp: verify_no_residual_def string_positions_def)
  moreover from this have "\<forall>p\<in>set (json_positions j). \<forall>v\<in>fst ` (set (pt_hosts t) \<union> set (pt_ips t)
      \<union> set (pt_identities t) \<union> set (pt_ids t)) - {[]}. \<not> contains_str p v"
    using assms by (auto simp: verify_no_residual_def string_positions_def contains_any_def list_ex_iff
        split: if_splits)
  ultimately show thesis by (rule that)
qed

lemma redact_Inr:
  assumes "redact order r = Inr out" "rs_mode (rp_security r) \<noteq> OutputModeShareableRedacted"
  obtains hosts ips identities ids t u where
    "collect r = (hosts, ips, identities, ids)" "t = new_table order hosts ips identities ids"
    "redact_with t r fresh_usage = Inr (out, u)"
  using assms by (auto simp: redact_def rbind_Inr_iff split: if_splits prod.splits)

lemma new_report_not_zero: "new_report i = Inr r \<Longrightarrow> \<not> report_is_zero r"
  by (auto simp: new_report_eq report_parts_ok_def report_is_zero_def split: if_splits)

text \<open>C10: A report that redaction returns is marked as shareable, and no identifying value of the local report
  occurs anywhere in it: not in any string or member name of its encoding, not even inside a longer
  one. This holds in whatever order the sort leaves replacements it cannot tell apart. Redacting the
  result again changes nothing.\<close>

theorem redact_leaves_nothing:
  assumes "redact order r = Inr out" and "rs_mode (rp_security r) \<noteq> OutputModeShareableRedacted"
  shows "rs_mode (rp_security out) = OutputModeShareableRedacted
    \<and> (\<exists>document. report_json out = Inr document
        \<and> (\<forall>p\<in>set (json_positions document). \<forall>v\<in>identifying r. \<not> contains_str p v))
    \<and> redact order' out = Inr out"
proof -
  obtain hosts ips identities ids t u where c: "collect r = (hosts, ips, identities, ids)"
      and t: "t = new_table order hosts ips identities ids" and w: "redact_with t r fresh_usage = Inr (out, u)"
    using redact_Inr [OF assms] .
  obtain i where made: "new_report i = Inr out" and mode: "rs_mode (ri_security i) = OutputModeShareableRedacted"
      and verified: "verify_no_residual t (report_json out) = Inr ()"
    using w by (auto simp: redact_with_def rbind_Inr_iff new_shareable_report_security_def split: if_splits)
  have "fst ` (set (pt_hosts t) \<union> set (pt_ips t) \<union> set (pt_identities t) \<union> set (pt_ids t)) - {[]} = identifying r"
    unfolding image_Un t new_table_keys using collect_identifying(1) [OF c] by simp
  then obtain j where "report_json out = Inr j" "\<forall>p\<in>set (json_positions j). \<forall>v\<in>identifying r. \<not> contains_str p v"
    using verify_no_residual_Inr [OF verified] by metis
  moreover have out_mode: "rs_mode (rp_security out) = OutputModeShareableRedacted"
    using made mode by (auto simp: new_report_eq split: if_splits)
  moreover have "redact order' out = Inr out"
    using new_report_not_zero [OF made] out_mode by (simp add: redact_def)
  ultimately show ?thesis by blast
qed

subsection \<open>A report to redact\<close>

definition demo_local :: report where
  "demo_local = \<lparr>rp_run = \<lparr>rm_version = ''1'', rm_started = 1, rm_duration = 2, rm_service = ''pg''\<rparr>,
     rp_target = \<lparr>tg_requested = ''Q7:1'', tg_normalized = []\<rparr>,
     rp_vantage = \<lparr>vt_source = VantageSourceLocalHost, vt_host = ''Q8''\<rparr>,
     rp_graph = empty_graph, rp_findings = [],
     rp_summary = derive_summary empty_graph [],
     rp_security = \<lparr>rs_mode = OutputModeLocalFull, rs_tls_off = False, rs_forwarding = False,
       rs_redactions = zero_redactions\<rparr>\<rparr>"

definition demo_table :: pseudonym_table where
  "demo_table = \<lparr>pt_hosts = [(''Q7'', ''host-001''), (''Q8'', ''host-002'')], pt_ips = [],
     pt_identities = [], pt_ids = [], pt_prose = [(''Q7'', ''host-001''), (''Q8'', ''host-002'')]\<rparr>"

definition demo_shareable :: report where
  "demo_shareable = demo_local\<lparr>rp_target := \<lparr>tg_requested = ''host-001:1'', tg_normalized = []\<rparr>,
     rp_vantage := \<lparr>vt_source = VantageSourceLocalHost, vt_host = ''host-002''\<rparr>,
     rp_security := \<lparr>rs_mode = OutputModeShareableRedacted, rs_tls_off = False, rs_forwarding = False,
       rs_redactions = zero_redactions\<lparr>rc_hostname := 2\<rparr>\<rparr>\<rparr>"

lemma demo_collect: "collect demo_local = ([''Q7'', ''Q8''], [], [], [])"
  by code_simp

lemma demo_numbered: "numbered ''host-'' [''Q7'', ''Q8''] = [(''Q7'', ''host-001''), (''Q8'', ''host-002'')]"
proof -
  have "sort [''Q7'', ''Q8''] = [''Q7'', ''Q8'']" by code_simp
  then have "remdups_adj (sort [''Q7'', ''Q8'']) = [''Q7'', ''Q8'']" by simp
  moreover have "digit_char 1 = CHR ''1''" "digit_char 2 = CHR ''2''" by code_simp+
  then have "pad_nat 3 1 = ''001''" "pad_nat 3 2 = ''002''"
    by (simp_all add: pad_nat_def show_nat.simps numeral_eq_Suc)
  ultimately show ?thesis by (simp add: numbered_def Let_def upt_rec numeral_2_eq_2)
qed

lemma demo_new_table: "new_table id [''Q7'', ''Q8''] [] [] [] = demo_table"
  unfolding new_table_def demo_numbered Let_def demo_table_def by (simp add: numbered_def)

lemma demo_parts: "endpoint_parts ''Q7:1'' = (''Q7'', ''1'', True)" "endpoint_parts ''Q8'' = (''Q8'', [], False)"
  "\<not> parse_addr ''Q7''" "\<not> parse_addr ''Q8''"
  by code_simp+

lemma demo_refs:
  "endpoint_ref demo_table ''Q7:1'' u = Inr (''host-001:1'', u\<lparr>us_hosts := insert ''Q7'' (us_hosts u)\<rparr>)"
  "endpoint_ref demo_table ''Q8'' u = Inr (''host-002'', u\<lparr>us_hosts := insert ''Q8'' (us_hosts u)\<rparr>)"
  by (simp_all add: endpoint_ref_def demo_parts table_value_def table_host_def rd_then_def rd_return_def
      demo_table_def join_host_port_def)

lemma demo_texts: "is_ok (validate_identifier ''host-001:1'')" "trim_space ''host-002'' = ''host-002''"
  by (rule line_text_valid, simp add: eval_text) (rule trim_space_text, simp add: eval_text)

lemma demo_graph_redacted: "redact_graph demo_table empty_graph u = Inr (empty_graph, u)"
  by (simp add: redact_graph_def graph_nodes_def empty_graph_def rd_then_def rd_return_def rd_lift_def
      freeze_def new_graph_builder_def freeze_relation_def find_cycle_def freeze_children_def)

text \<open>Texts of times and durations have no capital Q.\<close>

lemma digits_no_Q: "list_all is_digit s \<Longrightarrow> CHR ''Q'' \<notin> set s"
  by (auto simp: list_all_iff is_digit_def)

lemma number_no_Q [simp]: "CHR ''Q'' \<notin> set (pad_nat w n)" "CHR ''Q'' \<notin> set (show_nat n)"
  by (rule digits_no_Q, rule pad_nat_digits) (rule digits_no_Q, rule show_nat_digits)

lemma fraction_no_Q [simp]: "CHR ''Q'' \<notin> set (fraction_text w n)"
  using number_no_Q(1) [of w n] by (auto simp: fraction_text_def Let_def dest: set_dropWhileD)

lemma time_no_Q [simp]: "CHR ''Q'' \<notin> set (rfc3339_nano t)" "CHR ''Q'' \<notin> set (duration_text d)"
  by (auto simp: rfc3339_nano_def year_text_def Let_def split: prod.splits)
    (auto simp: duration_text_def Let_def split: if_splits)

lemma json_text_chars: "CHR ''Q'' \<in> set (json_text s) \<Longrightarrow> CHR ''Q'' \<in> set s"
proof -
  assume "CHR ''Q'' \<in> set (json_text s)"
  then obtain b where "b \<in> snd ` set (runes s)" "CHR ''Q'' \<in> set b"
    by (force simp: json_text_def split: if_splits)
  then have "CHR ''Q'' \<in> set (concat (map snd (runes s)))" by auto
  then show ?thesis by (simp only: runes_concat)
qed

text \<open>The strings of a document without that decoding.\<close>

fun json_strings :: "json \<Rightarrow> string list" where
  "json_strings (JStr s) = [s]"
| "json_strings (JArr xs) = concat (map json_strings xs)"
| "json_strings (JObj kvs) = concat (map (\<lambda>(k, v). k # json_strings v) kvs)"
| "json_strings _ = []"

lemma json_positions_strings: "json_positions j = map json_text (json_strings j)"
  by (induction j rule: json_strings.induct) (auto simp: map_concat o_def intro!: arg_cong [of _ _ concat] map_cong)

lemma contains_char: "contains_str p (CHR ''Q'' # v) \<Longrightarrow> CHR ''Q'' \<in> set p"
  by (auto simp: contains_str_iff)

lemma demo_json:
  "\<exists>j. report_json demo_shareable = Inr j \<and> list_all (\<lambda>s. CHR ''Q'' \<notin> set s) (json_strings j)"
  by (simp add: report_json_def demo_shareable_def demo_local_def report_is_zero_def run_is_zero_def
      output_mode_json_def output_mode_valid_def target_json_def target_is_zero_def vantage_json_def
      vantage_is_zero_def vantage_source_json_def vantage_source_valid_def graph_nodes_def empty_graph_def
      summary_json_def derive_summary_def zero_summary_def summary_status_valid_def summary_status_json_def
      layer_valid_def severity_counts_json_def security_json_def security_is_zero_def redaction_counts_json_def)

lemma no_Q_positions:
  assumes "list_all (\<lambda>s. CHR ''Q'' \<notin> set s) (json_strings j)" "p \<in> set (json_positions j)"
  shows "\<not> contains_str p (CHR ''Q'' # v)"
  using assms json_text_chars contains_char by (fastforce simp: json_positions_strings list_all_iff)

lemma demo_verified: "verify_no_residual demo_table (report_json demo_shareable) = Inr ()"
proof -
  obtain j where "report_json demo_shareable = Inr j" "list_all (\<lambda>s. CHR ''Q'' \<notin> set s) (json_strings j)"
    using demo_json by blast
  then show ?thesis
    using no_Q_positions [of j]
    by (auto simp: verify_no_residual_def string_positions_def contains_any_def demo_table_def list_ex_iff)
qed

lemma demo_redact_with: "redact_with demo_table demo_local fresh_usage
    = Inr (demo_shareable, fresh_usage\<lparr>us_hosts := {''Q8'', ''Q7''}\<rparr>)"
proof -
  have target: "redact_target demo_table (rp_target demo_local) fresh_usage
      = Inr (rp_target demo_shareable, fresh_usage\<lparr>us_hosts := {''Q7''}\<rparr>)"
    using demo_texts(1)
    by (simp add: redact_target_def demo_local_def demo_shareable_def rd_then_def rd_return_def demo_refs
        rd_lift_def new_target_def rbind_validate_identifier fresh_usage_def)
  have vantage: "redact_vantage demo_table (rp_vantage demo_local) u
      = Inr (rp_vantage demo_shareable, u\<lparr>us_hosts := insert ''Q8'' (us_hosts u)\<rparr>)" for u
    by (simp add: redact_vantage_def demo_local_def demo_shareable_def rd_then_def demo_refs
        rd_lift_def new_local_vantage_def Let_def demo_texts(2))
  have report: "new_report \<lparr>ri_run = rp_run demo_local, ri_target = rp_target demo_shareable,
      ri_vantage = rp_vantage demo_shareable, ri_graph = empty_graph, ri_findings = [],
      ri_security = rp_security demo_shareable\<rparr> = Inr demo_shareable"
    by (simp add: new_report_eq report_parts_ok_def demo_local_def demo_shareable_def run_is_zero_def
        target_is_zero_def vantage_is_zero_def security_is_zero_def sort_findings_def)
  have security: "new_shareable_report_security (rp_security demo_local)
      (usage_counts (fresh_usage\<lparr>us_hosts := {''Q8'', ''Q7''}\<rparr>)) = Inr (rp_security demo_shareable)"
    by (simp add: new_shareable_report_security_def demo_local_def demo_shareable_def security_is_zero_def
        usage_counts_def fresh_usage_def zero_redactions_def)
  have parts: "rp_graph demo_local = empty_graph" "rp_findings demo_local = []"
    by (simp_all add: demo_local_def)
  show ?thesis
    unfolding redact_with_def parts redact_findings_def
    by (simp add: rd_then_def target vantage demo_graph_redacted rd_return_def rd_lift_def security report
        demo_verified)
qed

lemma demo_redacted: "redact id demo_local = Inr demo_shareable"
  by (simp add: redact_def demo_collect demo_new_table demo_redact_with)
    (simp add: demo_local_def report_is_zero_def run_is_zero_def)

text \<open>The property applied to a small report.\<close>

theorem redact_leaves_nothing_witness:
  "identifying demo_local = {''Q7'', ''Q8''}
   \<and> (\<exists>out document. redact id demo_local = Inr out \<and> report_json out = Inr document
       \<and> (\<forall>p\<in>set (json_positions document). \<not> contains_str p ''Q7'' \<and> \<not> contains_str p ''Q8''))"
proof -
  have i: "identifying demo_local = {''Q7'', ''Q8''}"
    using collect_identifying(1) [OF demo_collect] by auto
  have "rs_mode (rp_security demo_local) \<noteq> OutputModeShareableRedacted"
    by (simp add: demo_local_def)
  from redact_leaves_nothing [OF demo_redacted this, of id, unfolded i]
  obtain document where "report_json demo_shareable = Inr document"
      "\<forall>p\<in>set (json_positions document). \<forall>v\<in>{''Q7'', ''Q8''}. \<not> contains_str p v" by blast
  then show ?thesis using i demo_redacted by blast
qed

subsection \<open>The diagnosis is kept\<close>

text \<open>What a piece of evidence says, apart from what it is called and where it looked.\<close>

definition observation :: "evidence \<Rightarrow> layer \<times> step_name \<times> state \<times> failure_class \<times> go_time \<times> elapsed \<times> subject_kind" where
  "observation e = (ev_layer e, ev_step e, ev_state e, ev_failure e, ev_started e, ev_elapsed e,
     subj_kind (ev_subject e))"

text \<open>What a finding claims, with the evidence it cites under the names \<open>\<rho>\<close> gives.\<close>

definition claim :: "(evidence_id \<Rightarrow> evidence_id) \<Rightarrow> finding \<Rightarrow> finding_code \<times> finding_kind \<times> severity
    \<times> confidence \<times> layer \<times> bool \<times> evidence_id set
    \<times> (recommendation_kind \<times> safety_class \<times> bool) list" where
  "claim \<rho> f = (f_code f, f_kind f, f_severity f, f_confidence f, f_layer f, f_vantage f, \<rho> ` set (f_refs f),
     map (\<lambda>r. (rec_kind r, rec_safety r, rec_self_collectable r)) (f_recs f))"

definition renamed :: "pseudonym_table \<Rightarrow> evidence_id \<Rightarrow> evidence_id" where
  "renamed t x = (case map_of (pt_ids t) x of Some y \<Rightarrow> y | None \<Rightarrow> x)"

lemma table_id_renamed: "table_id t x u = Inr (y, v) \<Longrightarrow> y = renamed t x"
  using table_id_Inr [of t x u y v] by (simp add: renamed_def)

lemma redact_subject_kind: "redact_subject t s u = Inr (s', v) \<Longrightarrow> subj_kind s' = subj_kind s"
  by (cases "subj_kind s") (auto simp: redact_subject_def new_endpoint_subject_def new_target_subject_def
      new_subject_def subject_is_zero_def rbind_Inr_iff split: if_splits)

lemma redact_evidence_Inr:
  assumes "redact_evidence t e u = Inr (e', v)"
  shows "evidence_wf e' \<and> ev_id e' = renamed t (ev_id e) \<and> observation e' = observation e"
  using assms redact_subject_kind table_id_renamed
  by (auto simp: redact_evidence_def observation_def)

lemma add_evidence_Inr:
  "add_evidence b e = Inr b' \<Longrightarrow> b' = b\<lparr>gb_nodes := gb_nodes b @ [(ev_id e, e)]\<rparr>"
proof -
  have "k \<notin> fst ` set kvs \<Longrightarrow> AList.update k v kvs = kvs @ [(k, v)]" for k :: evidence_id and v and kvs :: "(evidence_id \<times> evidence) list"
    by (induction kvs) auto
  moreover assume "add_evidence b e = Inr b'"
  ultimately show ?thesis
    by (auto simp: add_evidence_def map_of_eq_None_iff split: if_splits)
qed

lemma rebuild_nodes:
  assumes "rd_fold (rebuild_node t) es b u = Inr (b', v)" "built b"
  shows "built b' \<and> gb_parents b' = gb_parents b \<and> gb_blocked b' = gb_blocked b
    \<and> (\<exists>es'. map snd (gb_nodes b') = map snd (gb_nodes b) @ es' \<and> map ev_id es' = map (renamed t \<circ> ev_id) es
        \<and> map observation es' = map observation es)"
  using assms
proof (induction es arbitrary: b u)
  case (Cons e es)
  then obtain w b1 where first: "rebuild_node t e b u = Inr (b1, w)"
      and rest: "rd_fold (rebuild_node t) es b1 w = Inr (b', v)"
    by auto
  from first obtain e' where e': "redact_evidence t e u = Inr (e', w)" "add_evidence b e' = Inr b1"
    by (auto simp: rebuild_node_def)
  note facts = redact_evidence_Inr [OF e'(1)]
  have "builder_step b b1"
    by (rule builder_step.evidence [OF _ e'(2), of e']) (use facts in simp)
  then have "built b1" using Cons.prems(2) by (rule built.step [rotated])
  note IH = Cons.IH [OF rest this]
  then obtain es' where "map snd (gb_nodes b') = map snd (gb_nodes b1) @ es'"
      "map ev_id es' = map (renamed t \<circ> ev_id) es" "map observation es' = map observation es"
    by blast
  then show ?case
    using IH facts add_evidence_Inr [OF e'(2)] by (intro conjI exI [of _ "e' # es'"]) auto
qed auto

lemma add_parent_Inr:
  "add_parent b c p = Inr b' \<Longrightarrow> gb_nodes b' = gb_nodes b \<and> gb_blocked b' = gb_blocked b
     \<and> edges (gb_parents b') = insert (c, p) (edges (gb_parents b))"
  by (auto simp: add_parent_def rbind_require_node edges_add_to_set split: if_splits)

lemma add_blocked_by_Inr:
  "add_blocked_by b c x = Inr b' \<Longrightarrow> gb_nodes b' = gb_nodes b \<and> gb_parents b' = gb_parents b
     \<and> edges (gb_blocked b') = insert (c, x) (edges (gb_blocked b))"
  by (auto simp: add_blocked_by_def rbind_require_node edges_add_to_set split: if_splits)

lemma insert_edge: "insert (c, f x) E \<union> {c} \<times> f ` set xs = E \<union> {c} \<times> f ` set (x # xs)"
  by auto

lemma rebuild_parents:
  assumes "rd_fold (\<lambda>p b. rd_then (table_id t p) (\<lambda>parent. rd_lift (add_parent b child parent))) ps b u = Inr (b', v)"
    and "built b"
  shows "built b' \<and> gb_nodes b' = gb_nodes b \<and> gb_blocked b' = gb_blocked b
    \<and> edges (gb_parents b') = edges (gb_parents b) \<union> {child} \<times> renamed t ` set ps"
  using assms
proof (induction ps arbitrary: b u)
  case (Cons p ps)
  then obtain w b1 where b1: "add_parent b child (renamed t p) = Inr b1"
      and rest: "rd_fold (\<lambda>p b. rd_then (table_id t p) (\<lambda>parent. rd_lift (add_parent b child parent))) ps b1 w = Inr (b', v)"
    using table_id_renamed by fastforce
  have "built b1" using Cons.prems(2) builder_step.parent [OF b1] by (rule built.step)
  from Cons.IH [OF rest this] show ?case
    unfolding insert_edge [symmetric] using add_parent_Inr [OF b1] by simp
qed auto

lemma rebuild_blocked:
  assumes "rd_fold (\<lambda>x b. rd_then (table_id t x) (\<lambda>blocker. rd_lift (add_blocked_by b child blocker))) xs b u = Inr (b', v)"
    and "built b"
  shows "built b' \<and> gb_nodes b' = gb_nodes b \<and> gb_parents b' = gb_parents b
    \<and> edges (gb_blocked b') = edges (gb_blocked b) \<union> {child} \<times> renamed t ` set xs"
  using assms
proof (induction xs arbitrary: b u)
  case (Cons x xs)
  then obtain w b1 where b1: "add_blocked_by b child (renamed t x) = Inr b1"
      and rest: "rd_fold (\<lambda>x b. rd_then (table_id t x) (\<lambda>blocker. rd_lift (add_blocked_by b child blocker))) xs b1 w = Inr (b', v)"
    using table_id_renamed by fastforce
  have "built b1" using Cons.prems(2) builder_step.blocked [OF b1] by (rule built.step)
  from Cons.IH [OF rest this] show ?case
    unfolding insert_edge [symmetric] using add_blocked_by_Inr [OF b1] by simp
qed auto

lemma named_edges_Cons:
  "{(h x, q y) | x y. x \<in> set (e # es) \<and> y \<in> N x} = {h e} \<times> q ` N e \<union> {(h x, q y) | x y. x \<in> set es \<and> y \<in> N x}"
  by auto

lemma rebuild_edges:
  assumes "rd_fold (rebuild_relations t g) es b u = Inr (b', v)" "built b"
  shows "built b' \<and> gb_nodes b' = gb_nodes b
    \<and> edges (gb_parents b') = edges (gb_parents b)
        \<union> {(renamed t (ev_id e), renamed t p) | e p. e \<in> set es \<and> p \<in> set (graph_parents g (ev_id e))}
    \<and> edges (gb_blocked b') = edges (gb_blocked b)
        \<union> {(renamed t (ev_id e), renamed t x) | e x. e \<in> set es \<and> x \<in> set (graph_blocked_by g (ev_id e))}"
  using assms
proof (induction es arbitrary: b u)
  case (Cons e es)
  then obtain w b2 where first: "rebuild_relations t g e b u = Inr (b2, w)"
      and rest: "rd_fold (rebuild_relations t g) es b2 w = Inr (b', v)"
    by auto
  from first obtain b1 u1 u2 where p: "rd_fold (\<lambda>p b. rd_then (table_id t p) (\<lambda>parent. rd_lift (add_parent b (renamed t (ev_id e)) parent)))
        (graph_parents g (ev_id e)) b u1 = Inr (b1, u2)"
      and q: "rd_fold (\<lambda>x b. rd_then (table_id t x) (\<lambda>blocker. rd_lift (add_blocked_by b (renamed t (ev_id e)) blocker)))
        (graph_blocked_by g (ev_id e)) b1 u2 = Inr (b2, w)"
    by (auto simp: rebuild_relations_def dest: table_id_renamed)
  note P = rebuild_parents [OF p Cons.prems(2)]
  then have "built b1" by blast
  note Q = rebuild_blocked [OF q this]
  then have "built b2" by blast
  note IH = Cons.IH [OF rest this]
  show ?case
    unfolding named_edges_Cons using P Q IH by (simp only: Un_assoc)
qed auto

lemma frozen_nodes_mset:
  assumes "builder_wf b"
  shows "mset (graph_nodes (frozen b)) = mset (map snd (gb_nodes b))"
proof -
  let ?f = "\<lambda>x. case map_of (gb_nodes b) x of Some e \<Rightarrow> e | None \<Rightarrow> zero_evidence"
  have "graph_nodes (frozen b) = map ?f (sort (map fst (gb_nodes b)))"
    by (simp add: graph_nodes_def frozen_def Let_def)
  then have "mset (graph_nodes (frozen b)) = mset (map ?f (map fst (gb_nodes b)))"
    by (simp only: mset_map mset_sort)
  also have "map ?f (map fst (gb_nodes b)) = map snd (gb_nodes b)"
    using assms by (auto simp: builder_wf_def)
  finally show ?thesis .
qed

text \<open>The graph a redaction returns.\<close>

lemma redact_graph_Inr:
  assumes "redact_graph t g u = Inr (g', v)"
  shows "graph_wf g'
    \<and> (\<exists>es'. mset (graph_nodes g') = mset es' \<and> map ev_id es' = map (renamed t \<circ> ev_id) (graph_nodes g)
        \<and> map observation es' = map observation (graph_nodes g))
    \<and> {(x, y). y \<in> set (graph_parents g' x)} = {(renamed t (ev_id e), renamed t p) | e p.
        e \<in> set (graph_nodes g) \<and> p \<in> set (graph_parents g (ev_id e))}
    \<and> {(x, y). y \<in> set (graph_blocked_by g' x)} = {(renamed t (ev_id e), renamed t y) | e y.
        e \<in> set (graph_nodes g) \<and> y \<in> set (graph_blocked_by g (ev_id e))}"
proof -
  from assms obtain b1 u1 b2 where n: "rd_fold (rebuild_node t) (graph_nodes g) new_graph_builder u = Inr (b1, u1)"
      and r: "rd_fold (rebuild_relations t g) (graph_nodes g) b1 u1 = Inr (b2, v)" and f: "freeze b2 = Inr g'"
    by (auto simp: redact_graph_def)
  note N = rebuild_nodes [OF n built.start]
  then have "built b1" by blast
  note R = rebuild_edges [OF r this]
  then have built: "built b2" by blast
  have wf: "builder_wf b2" by (rule built_wf [OF built])
  then have g': "g' = frozen b2" using f by (simp add: freeze_ok)
  have none: "edges [] = {}" by (auto simp: rel_get_def)
  have p: "{(x, y). y \<in> set (graph_parents g' x)} = edges (gb_parents b2)"
    unfolding g' frozen_reads(3) [OF wf] by auto
  have q: "{(x, y). y \<in> set (graph_blocked_by g' x)} = edges (gb_blocked b2)"
    unfolding g' frozen_reads(4) [OF wf] by auto
  have "mset (graph_nodes g') = mset (map snd (gb_nodes b2))"
    unfolding g' by (rule frozen_nodes_mset [OF wf])
  moreover have "gb_nodes b2 = gb_nodes b1" using R by blast
  ultimately have "\<exists>es'. mset (graph_nodes g') = mset es' \<and> map ev_id es' = map (renamed t \<circ> ev_id) (graph_nodes g)
        \<and> map observation es' = map observation (graph_nodes g)"
    using N by (intro exI [of _ "map snd (gb_nodes b1)"]) (auto simp: new_graph_builder_def)
  moreover have "graph_wf g'" using built f unfolding graph_wf_def by blast
  moreover have "edges (gb_parents b1) = {}" "edges (gb_blocked b1) = {}"
    using N none by (simp_all add: new_graph_builder_def)
  ultimately show ?thesis unfolding p q using R by simp
qed

text \<open>Findings keep their claims.\<close>

lemma new_recommendation_Inr:
  "new_recommendation a = Inr r \<Longrightarrow> rec_wf r \<and> rec_kind r = RecommendationKindUnspecified
      \<and> rec_safety r = SafetyUnspecified \<and> \<not> rec_self_collectable r"
  using new_recommendation_wf [of a r] by (auto simp: new_recommendation_def rbind_Inr_iff)

lemma redact_recommendation_Inr:
  assumes "redact_recommendation t r u = Inr (r', v)"
    and "rec_kind r = RecommendationKindUnspecified \<longrightarrow>
      rec_safety r = SafetyUnspecified \<and> \<not> rec_self_collectable r"
    and "rec_classified r \<or> rec_kind r = RecommendationKindUnspecified"
  shows "(rec_kind r', rec_safety r', rec_self_collectable r') = (rec_kind r, rec_safety r, rec_self_collectable r)
      \<and> rec_wf r'"
proof (cases "rec_classified r")
  case True
  with assms(1) show ?thesis
    by (auto simp: redact_recommendation_def new_classified_recommendation_Inr rec_classified_def
        split: if_splits)
next
  case False
  with assms show ?thesis
    by (auto simp: redact_recommendation_def rec_classified_def split: if_splits
        dest!: new_recommendation_Inr)
qed

lemma redact_finding_Inr:
  assumes "redact_finding t f u = Inr (f', v)" "\<forall>r\<in>set (f_recs f). rec_wf r"
  shows "claim id f' = claim (renamed t) f \<and> (\<forall>r\<in>set (f_recs f'). rec_wf r)"
proof -
  obtain subj refs recs s1 s2 s3 u1 u2 u3 u4 where refs: "rd_each (table_id t) (f_refs f) u1 = Inr (refs, u2)"
      and recs: "rd_each (redact_recommendation t) (f_recs f) u3 = Inr (recs, u4)"
      and made: "new_finding \<lparr>f_code = f_code f, f_kind = f_kind f, f_severity = f_severity f,
       f_confidence = f_confidence f, f_layer = f_layer f, f_subject = subj, f_summary = s1,
       f_detail = s2, f_refs = refs, f_recs = recs, f_vantage = f_vantage f,
       f_discriminator = s3\<rparr> = Inr f'"
    using assms(1) unfolding redact_finding_def rd_then_Inr rd_lift_Inr by blast
  have "list_all2 (\<lambda>x y. y = renamed t x) (f_refs f) refs"
    by (rule list_all2_mono [OF rd_each_Inr [OF refs]]) (auto dest: table_id_renamed)
  then have "refs = map (renamed t) (f_refs f)"
    by (simp add: list_all2_conv_all_nth list_eq_iff_nth_eq)
  moreover have "list_all2 (\<lambda>r r'. (rec_kind r', rec_safety r', rec_self_collectable r')
      = (rec_kind r, rec_safety r, rec_self_collectable r) \<and> rec_wf r') (f_recs f) recs"
    using rd_each_Inr [OF recs] assms(2)
  proof (induction rule: list_all2_induct)
    case (Cons r rs r' rs')
    from Cons(1) obtain w z where "redact_recommendation t r w = Inr (r', z)" by blast
    moreover have "rec_wf r" using Cons.prems by simp
    ultimately have "(rec_kind r', rec_safety r', rec_self_collectable r')
        = (rec_kind r, rec_safety r, rec_self_collectable r) \<and> rec_wf r'"
      by (intro redact_recommendation_Inr) (auto simp: rec_wf_def rec_classified_def recommendation_kind_valid_def)
    then show ?case using Cons by simp
  qed simp
  then have "map (\<lambda>r. (rec_kind r, rec_safety r, rec_self_collectable r)) recs
      = map (\<lambda>r. (rec_kind r, rec_safety r, rec_self_collectable r)) (f_recs f)" "\<forall>r\<in>set recs. rec_wf r"
    by (auto simp: list_all2_conv_all_nth list_eq_iff_nth_eq in_set_conv_nth)
  ultimately show ?thesis
    using made by (auto simp: new_finding_eq claim_def split: if_splits)
qed

lemma redact_findings_Inr:
  assumes "redact_findings t fs u = Inr (fs', v)" "\<forall>f\<in>set fs. \<forall>r\<in>set (f_recs f). rec_wf r"
  shows "map (claim id) fs' = map (claim (renamed t)) fs \<and> (\<forall>f\<in>set fs'. \<forall>r\<in>set (f_recs f). rec_wf r)"
proof -
  have "list_all2 (\<lambda>f f'. \<exists>w z. redact_finding t f w = Inr (f', z)) fs fs'"
    using rd_each_Inr assms(1) unfolding redact_findings_def by blast
  then show ?thesis
    using assms(2) by (induction rule: list_all2_induct) (auto dest: redact_finding_Inr)
qed

text \<open>A summary depends on the observations and the severities alone.\<close>

lemma count_severity_claims:
  "map (claim r) fs = map (claim r') gs \<Longrightarrow> count_severity v fs = count_severity v gs
    \<and> (list_ex is_problem fs \<longleftrightarrow> list_ex is_problem gs)"
proof (induction fs arbitrary: gs)
  case (Cons f fs)
  then obtain g gs' where gs: "gs = g # gs'" "claim r f = claim r' g" "map (claim r) fs = map (claim r') gs'"
    by (cases gs) auto
  then have "f_severity f = f_severity g" by (simp add: claim_def)
  then show ?case
    using Cons.IH [OF gs(3)] by (simp add: gs(1) count_severity_def is_problem_def)
qed simp

lemma count_state_observations:
  "map observation es = map observation es' \<Longrightarrow> count_state v es = count_state v es'
    \<and> map ev_layer (filter (\<lambda>e. ev_state e = StateFail) es) = map ev_layer (filter (\<lambda>e. ev_state e = StateFail) es')"
proof (induction es arbitrary: es')
  case (Cons e es)
  then obtain x xs where es': "es' = x # xs" "observation e = observation x" "map observation es = map observation xs"
    by (cases es') auto
  then have "ev_state e = ev_state x" "ev_layer e = ev_layer x" by (simp_all add: observation_def)
  then show ?case
    using Cons.IH [OF es'(3)] by (auto simp: es'(1) count_state_def)
qed simp

lemma count_state_mset: "mset es = mset es' \<Longrightarrow> count_state v es = count_state v es' \<and> first_broken es = first_broken es'"
proof -
  assume m: "mset es = mset es'"
  then have "size {#e \<in># mset es. ev_state e = v#} = size {#e \<in># mset es'. ev_state e = v#}" by simp
  moreover have "set es = set es'" using m by (rule mset_eq_setD)
  ultimately show ?thesis
    by (auto simp: count_state_def first_broken_def Let_def filter_empty_conv simp flip: mset_filter size_mset)
qed

text \<open>What the rewriting of a report through a table keeps, whatever the table.\<close>

definition same_diagnosis :: "(evidence_id \<Rightarrow> evidence_id) \<Rightarrow> report \<Rightarrow> report \<Rightarrow> bool" where
  "same_diagnosis \<rho> r out \<longleftrightarrow>
    image_mset (\<lambda>e. (ev_id e, observation e)) (mset (graph_nodes (rp_graph out)))
        = image_mset (\<lambda>e. (\<rho> (ev_id e), observation e)) (mset (graph_nodes (rp_graph r)))
    \<and> {(x, y). y \<in> set (graph_parents (rp_graph out) x)}
        = (\<lambda>(x, y). (\<rho> x, \<rho> y)) ` {(x, y). y \<in> set (graph_parents (rp_graph r) x)}
    \<and> {(x, y). y \<in> set (graph_blocked_by (rp_graph out) x)}
        = (\<lambda>(x, y). (\<rho> x, \<rho> y)) ` {(x, y). y \<in> set (graph_blocked_by (rp_graph r) x)}
    \<and> image_mset (claim id) (mset (rp_findings out)) = image_mset (claim \<rho>) (mset (rp_findings r))
    \<and> rp_summary out = rp_summary r \<and> rp_run out = rp_run r"

text \<open>A report that \<open>NewReport\<close> made of a built graph and constructed recommendations.\<close>

definition made_report :: "report \<Rightarrow> bool" where
  "made_report r \<longleftrightarrow> (\<exists>i. new_report i = Inr r \<and> graph_wf (ri_graph i)
     \<and> (\<forall>f\<in>set (ri_findings i). \<forall>a\<in>set (f_recs f). rec_wf a))"

lemma made_reportD:
  assumes "made_report r"
  shows "graph_wf (rp_graph r)" "\<forall>f\<in>set (rp_findings r). \<forall>a\<in>set (f_recs f). rec_wf a"
    "rp_summary r = derive_summary (rp_graph r) (rp_findings r)" "\<not> report_is_zero r"
proof -
  obtain i where "new_report i = Inr r" "graph_wf (ri_graph i)"
      "\<forall>f\<in>set (ri_findings i). \<forall>a\<in>set (f_recs f). rec_wf a"
    using assms unfolding made_report_def by blast
  then show "graph_wf (rp_graph r)" "\<forall>f\<in>set (rp_findings r). \<forall>a\<in>set (f_recs f). rec_wf a"
      "rp_summary r = derive_summary (rp_graph r) (rp_findings r)" "\<not> report_is_zero r"
    using new_report_not_zero by (auto simp: new_report_eq sort_findings_def split: if_splits)
qed

lemma named_nodes:
  assumes "map ev_id es' = map (\<rho> \<circ> ev_id) es" "map observation es' = map observation es"
  shows "map (\<lambda>e. (ev_id e, observation e)) es' = map (\<lambda>e. (\<rho> (ev_id e), observation e)) es"
proof -
  have "map (\<lambda>e. (ev_id e, observation e)) es' = zip (map ev_id es') (map observation es')"
    by (simp add: zip_map_map zip_same_conv_map)
  then show ?thesis
    unfolding assms by (simp add: zip_map_map zip_same_conv_map)
qed

lemma named_edges:
  assumes "graph_wf g" "\<And>x y. y \<in> set (N x) \<Longrightarrow> x \<in> set (g_order g)"
  shows "{(\<rho> (ev_id e), \<rho> p) | e p. e \<in> set (graph_nodes g) \<and> p \<in> set (N (ev_id e))}
      = (\<lambda>(x, y). (\<rho> x, \<rho> y)) ` {(x, y). y \<in> set (N x)}"
proof -
  have "x \<in> ev_id ` set (graph_nodes g)" if "y \<in> set (N x)" for x y
    using assms(2) [OF that] unfolding graph_view.nodes_ids [OF assms(1), symmetric] by simp
  then show ?thesis by (fastforce simp: image_iff)
qed

lemma redact_with_keeps:
  assumes "made_report r" "redact_with t r u0 = Inr (out, u)"
  shows "same_diagnosis (renamed t) r out \<and> made_report out
    \<and> rs_mode (rp_security out) = OutputModeShareableRedacted"
proof -
  note r = made_reportD [OF assms(1)]
  from assms(2) obtain tg u1 vt u2 g u3 fs u4 sec where g: "redact_graph t (rp_graph r) u2 = Inr (g, u3)"
      and fs: "redact_findings t (rp_findings r) u3 = Inr (fs, u4)"
      and sec: "new_shareable_report_security (rp_security r) (usage_counts u4) = Inr sec"
      and made: "new_report \<lparr>ri_run = rp_run r, ri_target = tg, ri_vantage = vt, ri_graph = g,
        ri_findings = fs, ri_security = sec\<rparr> = Inr out"
    unfolding redact_with_def rd_then_Inr rd_lift_Inr rd_return_Inr by blast
  have out: "rp_graph out = g" "rp_findings out = sort_findings fs" "rp_run out = rp_run r"
      "rp_summary out = derive_summary g (sort_findings fs)" "rp_security out = sec"
    using made by (auto simp: new_report_eq split: if_splits)
  note G = redact_graph_Inr [OF g]
  then obtain es' where es': "mset (graph_nodes g) = mset es'"
      "map ev_id es' = map (renamed t \<circ> ev_id) (graph_nodes (rp_graph r))"
      "map observation es' = map observation (graph_nodes (rp_graph r))" by blast
  note F = redact_findings_Inr [OF fs r(2)]
  have "graph_wf g" using G by blast
  then have "derive_summary g (sort_findings fs) = derive_summary g fs"
    by (rule derive_summary_perm) (simp add: sort_findings_def)
  also have "\<dots> = derive_summary (rp_graph r) (rp_findings r)"
    using count_severity_claims [of id fs "renamed t" "rp_findings r"] F
      count_state_observations [OF es'(3)] count_state_mset [OF es'(1)]
    by (simp add: derive_summary_eq [OF r(1)] derive_summary_eq [OF \<open>graph_wf g\<close>])
      (simp add: first_broken_def)
  finally have "rp_summary out = rp_summary r" by (simp add: out r(3))
  moreover have "image_mset (\<lambda>e. (ev_id e, observation e)) (mset (graph_nodes g))
      = image_mset (\<lambda>e. (renamed t (ev_id e), observation e)) (mset (graph_nodes (rp_graph r)))"
    unfolding es'(1) mset_map [symmetric] named_nodes [OF es'(2,3)] by simp
  moreover have "image_mset (claim id) (mset (rp_findings out)) = image_mset (claim (renamed t)) (mset (rp_findings r))"
    using arg_cong [of _ _ mset, OF conjunct1 [OF F]] by (simp add: out sort_findings_def)
  ultimately have "same_diagnosis (renamed t) r out"
    unfolding same_diagnosis_def
    using G named_edges [OF r(1), of "graph_parents (rp_graph r)" "renamed t"]
      named_edges [OF r(1), of "graph_blocked_by (rp_graph r)" "renamed t"]
      graph_view.parent_known [OF r(1)] graph_view.blocker_known [OF r(1)] by (simp add: out)
  moreover have "made_report out"
    unfolding made_report_def using made \<open>graph_wf g\<close> F by fastforce
  moreover have "rs_mode sec = OutputModeShareableRedacted"
    using sec by (auto simp: new_shareable_report_security_def split: if_splits)
  ultimately show ?thesis by (simp add: out)
qed

lemma renamed_inj: "inj_on (renamed (new_table order hosts ips identities ids)) (set ids)"
proof -
  let ?t = "new_table order hosts ips identities ids"
  have ren: "map_of (pt_ids ?t) x = Some (renamed ?t x)" if "x \<in> set ids" for x
  proof -
    have "x \<in> dom (map_of (pt_ids ?t))" using that by (simp add: new_table_def Let_def numbered_dom)
    then show ?thesis by (auto simp: renamed_def)
  qed
  have inj: "inj_on (map_of (pt_ids ?t)) (set ids)"
    by (simp add: new_table_def Let_def numbered_inj)
  show ?thesis
    by (rule inj_onI) (metis inj inj_onD ren)
qed

lemma demo_made: "made_report demo_local"
proof -
  let ?i = "\<lparr>ri_run = rp_run demo_local, ri_target = rp_target demo_local, ri_vantage = rp_vantage demo_local,
    ri_graph = empty_graph, ri_findings = [], ri_security = rp_security demo_local\<rparr>"
  have "new_report ?i = Inr demo_local"
    by (simp add: new_report_eq report_parts_ok_def demo_local_def run_is_zero_def target_is_zero_def
        vantage_is_zero_def security_is_zero_def sort_findings_def)
  moreover have "freeze new_graph_builder = Inr empty_graph"
    by (simp add: freeze_def new_graph_builder_def freeze_relation_def find_cycle_def freeze_children_def empty_graph_def)
  then have "graph_wf (ri_graph ?i)"
    unfolding graph_wf_def using built.start by auto
  ultimately show ?thesis unfolding made_report_def by (intro exI [of _ ?i]) simp
qed

text \<open>C13: What a shareable report says is what the local report says. There is a renaming of the evidence
  that confuses no two ids, under which the evidence is the same in layer, step, state, failure class,
  time and kind of subject, the parents and the blockers are the same, and the findings are the same in
  code, kind, severity, confidence, layer, cited evidence and the kind and safety of what they
  recommend. The summary and the run are unchanged.\<close>

theorem redact_keeps_diagnosis:
  assumes "made_report r" and "redact order r = Inr out"
    and "rs_mode (rp_security r) \<noteq> OutputModeShareableRedacted"
  shows "\<exists>\<rho>. inj_on \<rho> (set (g_order (rp_graph r))) \<and> same_diagnosis \<rho> r out \<and> made_report out"
proof -
  obtain hosts ips identities ids t u where c: "collect r = (hosts, ips, identities, ids)"
      and t: "t = new_table order hosts ips identities ids" and w: "redact_with t r fresh_usage = Inr (out, u)"
    using redact_Inr [OF assms(2,3)] .
  have "set ids = set (g_order (rp_graph r))"
    using collect_identifying(2) [OF c] graph_view.nodes_ids [OF made_reportD(1) [OF assms(1)]] by simp
  then have "inj_on (renamed t) (set (g_order (rp_graph r)))"
    using renamed_inj [of order hosts ips identities ids] by (simp add: t)
  then show ?thesis
    using redact_with_keeps [OF assms(1) w] by blast
qed

theorem redact_keeps_diagnosis_witness:
  "redact id demo_local = Inr demo_shareable \<and> (\<exists>\<rho>. same_diagnosis \<rho> demo_local demo_shareable)
   \<and> made_report demo_shareable"
proof -
  have "rs_mode (rp_security demo_local) \<noteq> OutputModeShareableRedacted" by (simp add: demo_local_def)
  then show ?thesis
    using redact_keeps_diagnosis [OF demo_made demo_redacted] demo_redacted by blast
qed

end
