(* ===== verification/RunReport.thy ===== *)
theory RunReport
  imports ReportJson
begin

text \<open>
  The report of a run over many targets (\<open>internal/domain/runreport.go\<close>): what became of each target,
  the derived summary, and the aggregate with its JSON form.
\<close>

datatype run_error = RunInvalidValue | ErrInvalidRunReport

subsection \<open>Target results\<close>

definition zero_report :: report where
  "zero_report = \<lparr>rp_run = \<lparr>rm_version = [], rm_started = 0, rm_duration = 0, rm_service = []\<rparr>,
     rp_target = \<lparr>tg_requested = [], tg_normalized = []\<rparr>,
     rp_vantage = \<lparr>vt_source = VantageSourceUnspecified, vt_host = []\<rparr>,
     rp_graph = empty_graph, rp_findings = [], rp_summary = zero_summary,
     rp_security = \<lparr>rs_mode = OutputModeUnspecified, rs_tls_off = False, rs_forwarding = False,
       rs_redactions = zero_redactions\<rparr>\<rparr>"

record target_result =
  tr_id :: string
  tr_service :: service_id
  tr_state :: execution_state
  tr_report :: report
  tr_incomplete :: bool
  tr_class :: execution_error_class
  tr_message :: string

definition zero_target_result :: target_result where
  "zero_target_result = \<lparr>tr_id = [], tr_service = [], tr_state = ExecutionStateUnspecified,
     tr_report = zero_report, tr_incomplete = False, tr_class = ExecutionErrorUnspecified, tr_message = []\<rparr>"

definition check_target_identity :: "string \<Rightarrow> service_id \<Rightarrow> run_error + unit" where
  "check_target_identity target service =
     (if target = [] then Inl ErrInvalidRunReport
      else if \<not> service_id_valid service then Inl ErrInvalidRunReport
      else Inr ())"

definition report_bearing_target ::
    "string \<Rightarrow> service_id \<Rightarrow> execution_state \<Rightarrow> report \<Rightarrow> bool \<Rightarrow> run_error + target_result" where
  "report_bearing_target target service st r incomplete =
     rbind (check_target_identity target service) (\<lambda>_.
     if report_is_zero r then Inl ErrInvalidRunReport
     else Inr (zero_target_result\<lparr>tr_id := target, tr_service := service, tr_state := st, tr_report := r,
       tr_incomplete := incomplete\<rparr>))"

definition completed_target :: "string \<Rightarrow> service_id \<Rightarrow> report \<Rightarrow> bool \<Rightarrow> run_error + target_result" where
  "completed_target target service r incomplete =
     report_bearing_target target service ExecutionStateCompleted r incomplete"

definition cancelled_target :: "string \<Rightarrow> service_id \<Rightarrow> report \<Rightarrow> bool \<Rightarrow> run_error + target_result" where
  "cancelled_target target service r incomplete =
     report_bearing_target target service ExecutionStateCancelled r incomplete"

definition not_started_target :: "string \<Rightarrow> service_id \<Rightarrow> run_error + target_result" where
  "not_started_target target service =
     rbind (check_target_identity target service) (\<lambda>_.
     Inr (zero_target_result\<lparr>tr_id := target, tr_service := service, tr_state := ExecutionStateNotStarted\<rparr>))"

definition failed_target ::
    "string \<Rightarrow> service_id \<Rightarrow> execution_error_class \<Rightarrow> string \<Rightarrow> run_error + target_result" where
  "failed_target target service class message =
     rbind (check_target_identity target service) (\<lambda>_.
     if \<not> execution_error_class_valid class then Inl ErrInvalidRunReport
     else if message = [] then Inl ErrInvalidRunReport
     else Inr (zero_target_result\<lparr>tr_id := target, tr_service := service,
       tr_state := ExecutionStateExecutionFailed, tr_class := class, tr_message := message\<rparr>))"

definition has_report :: "target_result \<Rightarrow> bool" where
  "has_report r \<longleftrightarrow> \<not> report_is_zero (tr_report r)"

definition has_problems :: "target_result \<Rightarrow> bool" where
  "has_problems r \<longleftrightarrow> has_report r \<and> sm_status (rp_summary (tr_report r)) = SummaryStatusProblemsFound"

definition target_result_is_zero :: "target_result \<Rightarrow> bool" where
  "target_result_is_zero r \<longleftrightarrow> tr_state r = ExecutionStateUnspecified"

subsection \<open>The summary of a run\<close>

record run_summary =
  rn_targets :: int
  rn_completed :: int
  rn_not_started :: int
  rn_cancelled :: int
  rn_failed :: int
  rn_with_problems :: int
  rn_incomplete_reports :: int
  rn_status :: summary_status
  rn_incomplete :: bool

definition count_state_step :: "target_result \<Rightarrow> run_summary \<Rightarrow> run_summary" where
  "count_state_step r s =
     (case tr_state r of
        ExecutionStateCompleted \<Rightarrow> s\<lparr>rn_completed := rn_completed s + 1\<rparr>
      | ExecutionStateNotStarted \<Rightarrow> s\<lparr>rn_not_started := rn_not_started s + 1, rn_incomplete := True\<rparr>
      | ExecutionStateCancelled \<Rightarrow> s\<lparr>rn_cancelled := rn_cancelled s + 1, rn_incomplete := True\<rparr>
      | ExecutionStateExecutionFailed \<Rightarrow> s\<lparr>rn_failed := rn_failed s + 1, rn_incomplete := True\<rparr>
      | _ \<Rightarrow> s)"

definition count_result :: "target_result \<Rightarrow> run_summary \<Rightarrow> run_summary" where
  "count_result r s =
     (let s1 = count_state_step r s;
          s2 = (if has_problems r
                then s1\<lparr>rn_with_problems := rn_with_problems s1 + 1, rn_status := SummaryStatusProblemsFound\<rparr>
                else s1)
      in if has_report r \<and> tr_incomplete r
         then s2\<lparr>rn_incomplete_reports := rn_incomplete_reports s2 + 1, rn_incomplete := True\<rparr>
         else s2)"

definition derive_run_summary :: "target_result list \<Rightarrow> run_summary" where
  "derive_run_summary results =
     fold count_result results \<lparr>rn_targets = int (length results), rn_completed = 0, rn_not_started = 0,
       rn_cancelled = 0, rn_failed = 0, rn_with_problems = 0, rn_incomplete_reports = 0,
       rn_status = SummaryStatusOK, rn_incomplete = False\<rparr>"

definition run_summary_json :: "run_summary \<Rightarrow> domain_error + json" where
  "run_summary_json s =
     (if \<not> summary_status_valid (rn_status s) then Inl ErrInvalidValue
      else rbind (summary_status_json (rn_status s)) (\<lambda>status.
        Inr (JObj [(''targets'', JNum (rn_targets s)), (''completed'', JNum (rn_completed s)),
          (''notStarted'', JNum (rn_not_started s)), (''cancelled'', JNum (rn_cancelled s)),
          (''executionFailed'', JNum (rn_failed s)), (''withProblems'', JNum (rn_with_problems s)),
          (''incompleteReports'', JNum (rn_incomplete_reports s)), (''status'', status),
          (''incomplete'', JBool (rn_incomplete s))])))"

subsection \<open>The aggregate\<close>

record run_report_input =
  ni_version :: string
  ni_started :: go_time
  ni_duration :: go_duration
  ni_concurrency :: int
  ni_mode :: output_mode
  ni_stopped :: stopped_reason
  ni_targets :: "target_result list"

record run_report =
  nr_version :: string
  nr_started :: go_time
  nr_duration :: go_duration
  nr_concurrency :: int
  nr_mode :: output_mode
  nr_stopped :: stopped_reason
  nr_targets :: "target_result list"
  nr_summary :: run_summary

text \<open>The loop over the results, with the ids seen so far.\<close>

fun check_results :: "target_result list \<Rightarrow> string list \<Rightarrow> run_error + unit" where
  "check_results [] seen = Inr ()"
| "check_results (r # rs) seen =
     (if target_result_is_zero r then Inl ErrInvalidRunReport
      else if tr_id r \<in> set seen then Inl ErrInvalidRunReport
      else check_results rs (tr_id r # seen))"

definition new_run_report :: "run_report_input \<Rightarrow> run_error + run_report" where
  "new_run_report i =
     (case validate_identifier (ni_version i) of
        Inl _ \<Rightarrow> Inl RunInvalidValue
      | Inr _ \<Rightarrow>
        if ni_started i = 0 then Inl RunInvalidValue
        else if ni_duration i < 0 then Inl RunInvalidValue
        else if ni_concurrency i < 1 then Inl RunInvalidValue
        else if \<not> output_mode_valid (ni_mode i) then Inl RunInvalidValue
        else if \<not> stopped_reason_valid (ni_stopped i) then Inl RunInvalidValue
        else if ni_targets i = [] then Inl ErrInvalidRunReport
        else rbind (check_results (ni_targets i) []) (\<lambda>_.
          Inr \<lparr>nr_version = ni_version i, nr_started = ni_started i, nr_duration = ni_duration i,
            nr_concurrency = ni_concurrency i, nr_mode = ni_mode i, nr_stopped = ni_stopped i,
            nr_targets = ni_targets i, nr_summary = derive_run_summary (ni_targets i)\<rparr>))"

definition run_report_is_zero :: "run_report \<Rightarrow> bool" where
  "run_report_is_zero r \<longleftrightarrow> nr_version r = [] \<and> nr_targets r = []"

definition run_schema_version :: int where "run_schema_version = 1"
definition run_kind :: string where "run_kind = ''run''"

definition target_result_json :: "target_result \<Rightarrow> domain_error + json" where
  "target_result_json r =
     (if target_result_is_zero r then Inl ErrInvalidValue
      else rbind (execution_state_json (tr_state r)) (\<lambda>st.
        rbind (if has_report r
               then rbind (report_json (tr_report r)) (\<lambda>j. Inr [(''report'', j), (''incomplete'', JBool (tr_incomplete r))])
               else Inr []) (\<lambda>body.
        rbind (if execution_error_class_valid (tr_class r)
               then rbind (execution_error_class_json (tr_class r)) (\<lambda>j.
                 Inr [(''executionError'', JObj [(''class'', j), (''message'', JStr (tr_message r))])])
               else Inr []) (\<lambda>failure.
        Inr (JObj ([(''targetId'', JStr (tr_id r)), (''service'', JStr (tr_service r)),
          (''executionState'', st)] @ body @ failure))))))"

definition run_report_json :: "run_report \<Rightarrow> domain_error + json" where
  "run_report_json r =
     (if run_report_is_zero r then Inl ErrInvalidValue
      else rbind (output_mode_json (nr_mode r)) (\<lambda>mode.
        rbind (if nr_stopped r = StoppedReasonNone then Inr []
               else rbind (stopped_reason_json (nr_stopped r)) (\<lambda>j. Inr [(''stoppedReason'', j)])) (\<lambda>stopped.
        rbind (traverse target_result_json (nr_targets r)) (\<lambda>targets.
        rbind (run_summary_json (nr_summary r)) (\<lambda>summary.
        Inr (JObj [(''schemaVersion'', JNum run_schema_version), (''kind'', JStr run_kind),
          (''run'', JObj ([(''svcdoctorVersion'', JStr (nr_version r)),
             (''startedAt'', JStr (rfc3339_nano (nr_started r))),
             (''duration'', JStr (duration_text (nr_duration r))),
             (''concurrency'', JNum (nr_concurrency r)), (''outputMode'', mode)] @ stopped)),
          (''targets'', JArr targets), (''summary'', summary)]))))))"

subsection \<open>What a made run report is\<close>

lemma check_results_Inr:
  "check_results rs seen = Inr () \<longleftrightarrow> (\<forall>r\<in>set rs. \<not> target_result_is_zero r)
     \<and> distinct (map tr_id rs) \<and> tr_id ` set rs \<inter> set seen = {}"
  by (induction rs seen rule: check_results.induct) auto

definition count_results :: "(target_result \<Rightarrow> bool) \<Rightarrow> target_result list \<Rightarrow> int" where
  "count_results p rs = int (length (filter p rs))"

text \<open>The summary without the loop.\<close>

lemma count_results_simps [simp]:
  "count_results p [] = 0" "count_results p (r # rs) = (if p r then 1 else 0) + count_results p rs"
  by (simp_all add: count_results_def)

lemma count_result_eq:
  "count_result r s = s\<lparr>
     rn_completed := rn_completed s + (if tr_state r = ExecutionStateCompleted then 1 else 0),
     rn_not_started := rn_not_started s + (if tr_state r = ExecutionStateNotStarted then 1 else 0),
     rn_cancelled := rn_cancelled s + (if tr_state r = ExecutionStateCancelled then 1 else 0),
     rn_failed := rn_failed s + (if tr_state r = ExecutionStateExecutionFailed then 1 else 0),
     rn_with_problems := rn_with_problems s + (if has_problems r then 1 else 0),
     rn_incomplete_reports := rn_incomplete_reports s + (if has_report r \<and> tr_incomplete r then 1 else 0),
     rn_status := (if has_problems r then SummaryStatusProblemsFound else rn_status s),
     rn_incomplete := (rn_incomplete s \<or> tr_state r \<in> {ExecutionStateNotStarted,
       ExecutionStateCancelled, ExecutionStateExecutionFailed} \<or> has_report r \<and> tr_incomplete r)\<rparr>"
proof -
  define c where "c \<longleftrightarrow> has_report r \<and> tr_incomplete r"
  show ?thesis
    unfolding count_result_def count_state_step_def Let_def c_def [symmetric]
    by (cases s; cases "tr_state r"; cases "has_problems r"; cases c) simp_all
qed

lemma fold_count_result:
  "fold count_result rs s = s\<lparr>
     rn_completed := rn_completed s + count_results (\<lambda>r. tr_state r = ExecutionStateCompleted) rs,
     rn_not_started := rn_not_started s + count_results (\<lambda>r. tr_state r = ExecutionStateNotStarted) rs,
     rn_cancelled := rn_cancelled s + count_results (\<lambda>r. tr_state r = ExecutionStateCancelled) rs,
     rn_failed := rn_failed s + count_results (\<lambda>r. tr_state r = ExecutionStateExecutionFailed) rs,
     rn_with_problems := rn_with_problems s + count_results has_problems rs,
     rn_incomplete_reports := rn_incomplete_reports s + count_results (\<lambda>r. has_report r \<and> tr_incomplete r) rs,
     rn_status := (if list_ex has_problems rs then SummaryStatusProblemsFound else rn_status s),
     rn_incomplete := (rn_incomplete s \<or> list_ex (\<lambda>r. tr_state r \<in> {ExecutionStateNotStarted,
       ExecutionStateCancelled, ExecutionStateExecutionFailed} \<or> has_report r \<and> tr_incomplete r) rs)\<rparr>"
proof (induction rs arbitrary: s)
  case (Cons r rs)
  show ?case
    unfolding fold_simps Cons.IH by (simp add: count_result_eq add.assoc disj_assoc)
qed simp

lemma derive_run_summary_eq:
  "derive_run_summary rs = \<lparr>rn_targets = int (length rs),
     rn_completed = count_results (\<lambda>r. tr_state r = ExecutionStateCompleted) rs,
     rn_not_started = count_results (\<lambda>r. tr_state r = ExecutionStateNotStarted) rs,
     rn_cancelled = count_results (\<lambda>r. tr_state r = ExecutionStateCancelled) rs,
     rn_failed = count_results (\<lambda>r. tr_state r = ExecutionStateExecutionFailed) rs,
     rn_with_problems = count_results has_problems rs,
     rn_incomplete_reports = count_results (\<lambda>r. has_report r \<and> tr_incomplete r) rs,
     rn_status = (if list_ex has_problems rs then SummaryStatusProblemsFound else SummaryStatusOK),
     rn_incomplete = list_ex (\<lambda>r. tr_state r \<in> {ExecutionStateNotStarted,
       ExecutionStateCancelled, ExecutionStateExecutionFailed} \<or> has_report r \<and> tr_incomplete r) rs\<rparr>"
  by (simp add: derive_run_summary_def fold_count_result)

text \<open>A result that one of the four constructors made.\<close>

definition made_result :: "target_result \<Rightarrow> bool" where
  "made_result r \<longleftrightarrow> (\<exists>i s p x. completed_target i s p x = Inr r \<or> cancelled_target i s p x = Inr r)
     \<or> (\<exists>i s. not_started_target i s = Inr r) \<or> (\<exists>i s c m. failed_target i s c m = Inr r)"

lemma made_result_cases:
  assumes "made_result r"
  shows "tr_state r \<in> {ExecutionStateCompleted, ExecutionStateCancelled} \<and> has_report r
      \<or> tr_state r \<in> {ExecutionStateNotStarted, ExecutionStateExecutionFailed} \<and> \<not> has_report r"
proof -
  have "report_is_zero zero_report"
    by (simp add: report_is_zero_def run_is_zero_def target_is_zero_def zero_report_def)
  then show ?thesis
    using assms by (auto simp: made_result_def completed_target_def cancelled_target_def report_bearing_target_def
        not_started_target_def failed_target_def rbind_Inr_iff has_report_def zero_target_result_def split: if_splits)
qed

lemma made_result_not_zero: "made_result r \<Longrightarrow> \<not> target_result_is_zero r"
  using made_result_cases [of r] by (auto simp: target_result_is_zero_def)

end
