(* ===== verification/RedactRun.thy ===== *)
theory RedactRun
  imports RedactSound RunReport
begin

text \<open>
  The redaction of an aggregate run (\<open>internal/security/redaction/run.go\<close>): one pseudonym table for all
  targets, positional aliases for the target ids, the rewrite of every result through its constructor
  and the residual search over the whole document.
\<close>

text \<open>An error of the redaction of one report, an error made or wrapped here, and the error of a
  constructor of target results, which is handed on as it is.\<close>

datatype redact_run_error =
    OfReport redact_error
  | RunRedaction "run_error option"
  | OfTarget run_error

subsection \<open>Collection\<close>

record run_values =
  rv_hosts :: "string list"
  rv_ips :: "string list"
  rv_identities :: "string list"
  rv_ids :: "evidence_id list"
  rv_target_ids :: "string list"

definition collect_result :: "target_result \<Rightarrow> run_values \<Rightarrow> run_values" where
  "collect_result r out =
     (let out1 = out\<lparr>rv_target_ids := rv_target_ids out @ [tr_id r]\<rparr>
      in if \<not> has_report r then out1
         else (case collect (tr_report r) of (h, i, dent, ev) \<Rightarrow>
           out1\<lparr>rv_hosts := rv_hosts out1 @ h, rv_ips := rv_ips out1 @ i,
             rv_identities := rv_identities out1 @ dent, rv_ids := rv_ids out1 @ ev\<rparr>))"

definition collect_run :: "target_result list \<Rightarrow> run_values" where
  "collect_run results =
     fold collect_result results
       \<lparr>rv_hosts = [], rv_ips = [], rv_identities = [], rv_ids = [], rv_target_ids = []\<rparr>"

definition target_alias :: "nat \<Rightarrow> string" where
  "target_alias i = ''target-'' @ pad_nat 3 (i + 1)"

definition target_aliases :: "target_result list \<Rightarrow> (string \<times> string) list" where
  "target_aliases results =
     fold (\<lambda>(i, r). AList.update (tr_id r) (target_alias i)) (enumerate 0 results) []"

subsection \<open>One result\<close>

definition redacted_execution_message :: "execution_error_class \<Rightarrow> string" where
  "redacted_execution_message c =
     (case c of
        ExecutionErrorCredentialResolution \<Rightarrow>
          ''the credential reference this target names could not be resolved; ''
          @ ''the reference is local detail and is withheld from a shareable report''
      | _ \<Rightarrow> ''the reason is local detail and is withheld from a shareable report'')"

text \<open>The counters of the table start afresh for every target.\<close>

definition redact_target_result ::
    "pseudonym_table \<Rightarrow> target_result \<Rightarrow> string \<Rightarrow> redact_run_error + target_result" where
  "redact_target_result t r alias =
     (if tr_state r = ExecutionStateCompleted \<or> tr_state r = ExecutionStateCancelled then
        (case redact_with t (tr_report r) fresh_usage of
           Inl e \<Rightarrow> Inl (OfReport e)
         | Inr (rep, _) \<Rightarrow>
           map_sum OfTarget id
             (if tr_state r = ExecutionStateCancelled
              then cancelled_target alias (tr_service r) rep (tr_incomplete r)
              else completed_target alias (tr_service r) rep (tr_incomplete r)))
      else if tr_state r = ExecutionStateNotStarted then
        map_sum OfTarget id (not_started_target alias (tr_service r))
      else if tr_state r = ExecutionStateExecutionFailed then
        map_sum OfTarget id (failed_target alias (tr_service r) (tr_class r)
          (redacted_execution_message (tr_class r)))
      else Inl (RunRedaction None))"

subsection \<open>The residual search and the whole\<close>

definition verify_no_run_residual ::
    "run_values \<Rightarrow> (string \<times> string) list \<Rightarrow> run_report \<Rightarrow> redact_run_error + unit" where
  "verify_no_run_residual values aliases out =
     rbind (map_sum OfReport id (string_positions (run_report_json out))) (\<lambda>positions.
       if list_ex (contains_any positions) (sort (rv_hosts values)) then Inl (RunRedaction None)
       else if list_ex (contains_any positions) (sort (rv_ips values)) then Inl (RunRedaction None)
       else if list_ex (contains_any positions) (sort (rv_identities values)) then Inl (RunRedaction None)
       else if list_ex (contains_any positions) (sort (rv_ids values)) then Inl (RunRedaction None)
       else if length (rv_target_ids values) \<noteq> length (nr_targets out) then Inl (RunRedaction None)
       else if list_ex (\<lambda>r. tr_id r \<in> set (rv_target_ids values)
                \<or> tr_id r \<notin> snd ` set aliases) (nr_targets out) then Inl (RunRedaction None)
       else Inr ())"

definition redact_run ::
    "(replacement list \<Rightarrow> replacement list) \<Rightarrow> run_report \<Rightarrow> redact_run_error + run_report" where
  "redact_run order r =
     (if run_report_is_zero r then Inl (RunRedaction None)
      else if nr_mode r = OutputModeShareableRedacted then Inr r
      else
        let results = nr_targets r;
            values = collect_run results;
            t = new_table order (rv_hosts values) (rv_ips values) (rv_identities values) (rv_ids values);
            aliases = target_aliases results
        in rbind (traverse (\<lambda>x. redact_target_result t x
                    (case map_of aliases (tr_id x) of Some a \<Rightarrow> a | None \<Rightarrow> [])) results) (\<lambda>redacted.
           rbind (map_sum (\<lambda>e. RunRedaction (Some e)) id
             (new_run_report \<lparr>ni_version = nr_version r, ni_started = nr_started r,
                ni_duration = nr_duration r, ni_concurrency = nr_concurrency r,
                ni_mode = OutputModeShareableRedacted, ni_stopped = nr_stopped r,
                ni_targets = redacted\<rparr>)) (\<lambda>out.
           rbind (verify_no_run_residual values aliases out) (\<lambda>_.
           Inr out))))"

subsection \<open>What is collected and how targets are named\<close>

definition found_values :: "run_values \<Rightarrow> string set" where
  "found_values v = set (rv_hosts v) \<union> set (rv_ips v) \<union> set (rv_identities v) \<union> set (rv_ids v) - {[]}"

lemma collect_result_values:
  "found_values (collect_result x v) = found_values v \<union> (if has_report x then identifying (tr_report x) else {})"
  "rv_target_ids (collect_result x v) = rv_target_ids v @ [tr_id x]"
  "set (rv_ids (collect_result x v)) = set (rv_ids v)
      \<union> (if has_report x then ev_id ` set (graph_nodes (rp_graph (tr_report x))) else {})"
proof -
  obtain h i d e where c: "collect (tr_report x) = (h, i, d, e)" by (cases "collect (tr_report x)")
  have "A \<union> h \<union> (B \<union> i) \<union> (C \<union> d) \<union> (D \<union> e) - Z = (A \<union> B \<union> C \<union> D - Z) \<union> (h \<union> i \<union> d \<union> e - Z)"
    for A B C D h i d e Z :: "string set" by blast
  note this [of _ "set h" _ "set i" _ "set d" _ "set e" "{[]}"]
  then show "found_values (collect_result x v) = found_values v \<union> (if has_report x then identifying (tr_report x) else {})"
    unfolding found_values_def collect_identifying(1) [OF c, symmetric] collect_result_def c Let_def by simp
  show "rv_target_ids (collect_result x v) = rv_target_ids v @ [tr_id x]"
    "set (rv_ids (collect_result x v)) = set (rv_ids v)
      \<union> (if has_report x then ev_id ` set (graph_nodes (rp_graph (tr_report x))) else {})"
    using collect_identifying(2) [OF c] by (simp_all add: collect_result_def c Let_def)
qed

lemma collect_run_values:
  "found_values (fold collect_result rs v)
      = found_values v \<union> (\<Union>x\<in>{x \<in> set rs. has_report x}. identifying (tr_report x))"
  "rv_target_ids (fold collect_result rs v) = rv_target_ids v @ map tr_id rs"
  "set (rv_ids (fold collect_result rs v)) = set (rv_ids v)
      \<union> (\<Union>x\<in>{x \<in> set rs. has_report x}. ev_id ` set (graph_nodes (rp_graph (tr_report x))))"
proof -
  have pick: "(\<Union>y\<in>{y \<in> set (x # rs). has_report y}. f y)
      = (if has_report x then f x else {}) \<union> (\<Union>y\<in>{y \<in> set rs. has_report y}. f y)"
    for f :: "target_result \<Rightarrow> string set" and x rs by auto
  show "found_values (fold collect_result rs v)
      = found_values v \<union> (\<Union>x\<in>{x \<in> set rs. has_report x}. identifying (tr_report x))"
    by (induction rs arbitrary: v) (simp_all only: fold_simps pick collect_result_values Un_assoc, simp_all)
  show "rv_target_ids (fold collect_result rs v) = rv_target_ids v @ map tr_id rs"
    by (induction rs arbitrary: v) (simp_all add: collect_result_values)
  show "set (rv_ids (fold collect_result rs v)) = set (rv_ids v)
      \<union> (\<Union>x\<in>{x \<in> set rs. has_report x}. ev_id ` set (graph_nodes (rp_graph (tr_report x))))"
    by (induction rs arbitrary: v) (simp_all only: fold_simps pick collect_result_values Un_assoc, simp_all)
qed

lemma target_aliases_from:
  assumes "distinct (map tr_id rs)"
  shows "(\<forall>i<length rs. map_of (fold (\<lambda>(i, r). AList.update (tr_id r) (target_alias i)) (enumerate k rs) acc)
        (tr_id (rs ! i)) = Some (target_alias (k + i)))
    \<and> (\<forall>x. x \<notin> tr_id ` set rs \<longrightarrow>
        map_of (fold (\<lambda>(i, r). AList.update (tr_id r) (target_alias i)) (enumerate k rs) acc) x = map_of acc x)"
  using assms
proof (induction rs arbitrary: k acc)
  case (Cons r rs)
  note IH = Cons.IH [of "Suc k" "AList.update (tr_id r) (target_alias k) acc"]
  have "tr_id r \<notin> tr_id ` set rs" "distinct (map tr_id rs)" using Cons.prems by auto
  then show ?case
    using IH by (auto simp: enumerate_simps less_Suc_eq_0_disj update_conv')
qed simp

lemma target_aliases_at:
  assumes "distinct (map tr_id rs)" "i < length rs"
  shows "map_of (target_aliases rs) (tr_id (rs ! i)) = Some (target_alias i)"
  using target_aliases_from [OF assms(1), of 0 "[]"] assms(2) by (simp add: target_aliases_def)

subsection \<open>What redaction keeps of one result\<close>

definition same_result :: "(evidence_id \<Rightarrow> evidence_id) \<Rightarrow> target_result \<Rightarrow> target_result \<Rightarrow> bool" where
  "same_result \<rho> x y \<longleftrightarrow> tr_service y = tr_service x \<and> tr_state y = tr_state x
     \<and> tr_incomplete y = tr_incomplete x \<and> tr_class y = tr_class x \<and> has_report y = has_report x
     \<and> (if has_report x then same_diagnosis \<rho> (tr_report x) (tr_report y)
            \<and> rs_mode (rp_security (tr_report y)) = OutputModeShareableRedacted
        else tr_message y = (if tr_state x = ExecutionStateExecutionFailed
          then redacted_execution_message (tr_class x) else []))"

lemmas result_constructors = completed_target_def cancelled_target_def report_bearing_target_def
  not_started_target_def failed_target_def rbind_Inr_iff zero_target_result_def

lemma zero_report_is_zero [simp]: "report_is_zero zero_report"
  by (simp add: report_is_zero_def run_is_zero_def target_is_zero_def zero_report_def)

lemma made_resultD:
  assumes "made_result x"
  shows "tr_state x \<in> {ExecutionStateCompleted, ExecutionStateCancelled} \<and> has_report x
        \<and> tr_class x = ExecutionErrorUnspecified
      \<or> tr_state x = ExecutionStateNotStarted \<and> \<not> has_report x \<and> \<not> tr_incomplete x
        \<and> tr_class x = ExecutionErrorUnspecified
      \<or> tr_state x = ExecutionStateExecutionFailed \<and> \<not> has_report x \<and> \<not> tr_incomplete x"
  using assms by (auto simp: made_result_def result_constructors has_report_def split: if_splits)

lemma map_sum_Inr [simp]: "map_sum f id s = Inr y \<longleftrightarrow> s = Inr y"
  by (cases s) auto

lemma redact_target_result_Inr:
  assumes x: "made_result x" "has_report x \<longrightarrow> made_report (tr_report x)"
    and y: "redact_target_result t x alias = Inr y"
  shows "same_result (renamed t) x y \<and> tr_id y = alias \<and> made_result y
    \<and> (has_report y \<longrightarrow> made_report (tr_report y))"
  using made_resultD [OF x(1)]
proof (elim disjE conjE)
  assume st: "tr_state x \<in> {ExecutionStateCompleted, ExecutionStateCancelled}" and rep: "has_report x"
    and c: "tr_class x = ExecutionErrorUnspecified"
  then obtain out u where w: "redact_with t (tr_report x) fresh_usage = Inr (out, u)"
      and made: "(if tr_state x = ExecutionStateCancelled then cancelled_target alias (tr_service x) out (tr_incomplete x)
        else completed_target alias (tr_service x) out (tr_incomplete x)) = Inr y"
    using y by (auto simp: redact_target_result_def split: sum.splits if_splits)
  note K = redact_with_keeps [OF _ w]
  have "made_report (tr_report x)" using x(2) rep by simp
  note K = K [OF this]
  have "\<not> report_is_zero out" using K made_reportD(4) by blast
  moreover have "made_result y" using made unfolding made_result_def by (auto split: if_splits)
  ultimately show ?thesis
    using made st rep c K
    by (auto simp: same_result_def result_constructors has_report_def split: if_splits)
next
  assume st: "tr_state x = ExecutionStateNotStarted" "\<not> has_report x" "\<not> tr_incomplete x"
    "tr_class x = ExecutionErrorUnspecified"
  then have "not_started_target alias (tr_service x) = Inr y" using y by (simp add: redact_target_result_def)
  moreover from this have "made_result y" unfolding made_result_def by blast
  ultimately show ?thesis
    using st by (auto simp: same_result_def result_constructors has_report_def split: if_splits)
next
  assume st: "tr_state x = ExecutionStateExecutionFailed" "\<not> has_report x" "\<not> tr_incomplete x"
  then have "failed_target alias (tr_service x) (tr_class x) (redacted_execution_message (tr_class x)) = Inr y"
    using y by (simp add: redact_target_result_def)
  moreover from this have "made_result y" unfolding made_result_def by blast
  ultimately show ?thesis
    using st by (auto simp: same_result_def result_constructors has_report_def split: if_splits)
qed

subsection \<open>A redacted run\<close>

text \<open>A run that \<open>NewRunReport\<close> made of results made by their constructors.\<close>

definition made_run :: "run_report \<Rightarrow> bool" where
  "made_run r \<longleftrightarrow> (\<exists>i. new_run_report i = Inr r)
     \<and> (\<forall>x\<in>set (nr_targets r). made_result x \<and> (has_report x \<longrightarrow> made_report (tr_report x)))"

lemma new_run_report_Inr:
  assumes "new_run_report i = Inr r"
  shows "distinct (map tr_id (nr_targets r))" "nr_summary r = derive_run_summary (nr_targets r)"
    "nr_targets r = ni_targets i" "nr_mode r = ni_mode i" "nr_stopped r = ni_stopped i"
    "nr_version r = ni_version i" "nr_started r = ni_started i" "nr_duration r = ni_duration i"
    "nr_concurrency r = ni_concurrency i"
  using assms by (auto simp: new_run_report_def check_results_Inr rbind_Inr_iff split: if_splits sum.splits)

lemma verify_no_run_residual_Inr:
  assumes "verify_no_run_residual v aliases out = Inr ()"
  obtains j where "run_report_json out = Inr j"
    and "\<forall>p\<in>set (json_positions j). \<forall>s\<in>found_values v. \<not> contains_str p s"
    and "tr_id ` set (nr_targets out) \<inter> set (rv_target_ids v) = {}"
proof -
  obtain j where j: "run_report_json out = Inr j"
    using assms by (cases "run_report_json out") (auto simp: verify_no_run_residual_def string_positions_def)
  moreover from j have "\<forall>p\<in>set (json_positions j). \<forall>s\<in>found_values v. \<not> contains_str p s"
    using assms by (auto simp: verify_no_run_residual_def string_positions_def contains_any_def list_ex_iff
        found_values_def split: if_splits)
  moreover from j have "tr_id ` set (nr_targets out) \<inter> set (rv_target_ids v) = {}"
    using assms by (auto simp: verify_no_run_residual_def string_positions_def list_ex_iff split: if_splits)
  ultimately show thesis by (rule that)
qed

definition run_table :: "(replacement list \<Rightarrow> replacement list) \<Rightarrow> target_result list \<Rightarrow> pseudonym_table" where
  "run_table order rs = (let v = collect_run rs in
     new_table order (rv_hosts v) (rv_ips v) (rv_identities v) (rv_ids v))"

lemma redact_run_Inr:
  assumes "redact_run order r = Inr out" "nr_mode r \<noteq> OutputModeShareableRedacted" "made_run r"
  shows "list_all2 (\<lambda>x y. redact_target_result (run_table order (nr_targets r)) x (tr_id y) = Inr y)
      (nr_targets r) (nr_targets out)"
    and "map tr_id (nr_targets out) = map target_alias [0..<length (nr_targets r)]"
    and "verify_no_run_residual (collect_run (nr_targets r)) (target_aliases (nr_targets r)) out = Inr ()"
    and "new_run_report \<lparr>ni_version = nr_version r, ni_started = nr_started r,
      ni_duration = nr_duration r, ni_concurrency = nr_concurrency r,
      ni_mode = OutputModeShareableRedacted, ni_stopped = nr_stopped r, ni_targets = nr_targets out\<rparr> = Inr out"
proof -
  let ?rs = "nr_targets r" and ?t = "run_table order (nr_targets r)"
  let ?a = "\<lambda>x. case map_of (target_aliases (nr_targets r)) (tr_id x) of Some a \<Rightarrow> a | None \<Rightarrow> []"
  obtain ys where ys: "list_all2 (\<lambda>x y. redact_target_result ?t x (?a x) = Inr y) ?rs ys"
      and made: "new_run_report \<lparr>ni_version = nr_version r, ni_started = nr_started r,
        ni_duration = nr_duration r, ni_concurrency = nr_concurrency r,
        ni_mode = OutputModeShareableRedacted, ni_stopped = nr_stopped r, ni_targets = ys\<rparr> = Inr out"
      and v: "verify_no_run_residual (collect_run ?rs) (target_aliases ?rs) out = Inr ()"
    using assms(1,2) unfolding redact_run_def run_table_def
    by (auto simp: Let_def rbind_Inr_iff traverse_Inr_iff split: if_splits)
  have out: "nr_targets out = ys" using new_run_report_Inr(3) [OF made] by simp
  have len: "length ys = length ?rs" using list_all2_lengthD [OF ys] by simp
  have d: "distinct (map tr_id ?rs)" using assms(3) new_run_report_Inr(1) unfolding made_run_def by blast
  have id: "tr_id (ys ! i) = target_alias i \<and> redact_target_result ?t (?rs ! i) (target_alias i) = Inr (ys ! i)"
    if i: "i < length ?rs" for i
  proof -
    have x: "?rs ! i \<in> set ?rs" using i by simp
    have "redact_target_result ?t (?rs ! i) (target_alias i) = Inr (ys ! i)"
      using list_all2_nthD [OF ys i] target_aliases_at [OF d i] by simp
    then show ?thesis
      using redact_target_result_Inr assms(3) x unfolding made_run_def by blast
  qed
  show "list_all2 (\<lambda>x y. redact_target_result ?t x (tr_id y) = Inr y) ?rs (nr_targets out)"
    using id len by (simp add: out list_all2_conv_all_nth)
  show "map tr_id (nr_targets out) = map target_alias [0..<length ?rs]"
    by (rule nth_equalityI) (use id len in \<open>simp_all add: out\<close>)
  show "verify_no_run_residual (collect_run ?rs) (target_aliases ?rs) out = Inr ()" by (rule v)
  show "new_run_report \<lparr>ni_version = nr_version r, ni_started = nr_started r,
      ni_duration = nr_duration r, ni_concurrency = nr_concurrency r,
      ni_mode = OutputModeShareableRedacted, ni_stopped = nr_stopped r, ni_targets = nr_targets out\<rparr> = Inr out"
    using made by (simp add: out)
qed

lemma derive_run_summary_same:
  assumes "list_all2 (same_result \<rho>) xs ys"
  shows "derive_run_summary ys = derive_run_summary xs"
proof -
  have p: "has_problems y = has_problems x" if "same_result \<rho> x y" for x y
    using that by (auto simp: has_problems_def same_result_def same_diagnosis_def split: if_splits)
  have c: "count_results P ys = count_results P xs \<and> (list_ex P ys \<longleftrightarrow> list_ex P xs)"
    if "\<And>x y. same_result \<rho> x y \<Longrightarrow> P y = P x" for P
    using assms that by (induction rule: list_all2_induct) auto
  have st: "tr_state y = tr_state x" and i: "(has_report y \<and> tr_incomplete y) = (has_report x \<and> tr_incomplete x)"
    if "same_result \<rho> x y" for x y
    using that by (auto simp: same_result_def)
  have "count_results (\<lambda>r. tr_state r = v) ys = count_results (\<lambda>r. tr_state r = v) xs" for v
    by (rule conjunct1 [OF c]) (simp add: st)
  moreover note c [of has_problems, OF p] c [of "\<lambda>r. has_report r \<and> tr_incomplete r", OF i]
  moreover have "list_ex (\<lambda>r. tr_state r \<in> A \<or> has_report r \<and> tr_incomplete r) ys
      = list_ex (\<lambda>r. tr_state r \<in> A \<or> has_report r \<and> tr_incomplete r) xs" for A
    by (rule conjunct2 [OF c]) (simp add: st i)
  ultimately show ?thesis
    using list_all2_lengthD [OF assms] by (simp only: derive_run_summary_eq)
qed

text \<open>C11: When redacting a made run succeeds, no value that identifies something in the report of one target occurs in any
  string of the shareable document, be it in the section of another target; the results are addressed by their position;
  and the id of no result is the id of a declared target. The code compares the names of the targets with the ids of the
  results only, so a name may still occur in the document by coincidence, as when a target is named like its service.\<close>

theorem redact_run_leaves_nothing:
  assumes "made_run r" and "redact_run order r = Inr out" and "nr_mode r \<noteq> OutputModeShareableRedacted"
  shows "nr_mode out = OutputModeShareableRedacted
    \<and> map tr_id (nr_targets out) = map target_alias [0..<length (nr_targets r)]
    \<and> tr_id ` set (nr_targets out) \<inter> tr_id ` set (nr_targets r) = {}
    \<and> (\<exists>document. run_report_json out = Inr document
        \<and> (\<forall>p\<in>set (json_positions document). \<forall>x\<in>set (nr_targets r). has_report x \<longrightarrow>
             (\<forall>v\<in>identifying (tr_report x). \<not> contains_str p v)))"
proof -
  note R = redact_run_Inr [OF assms(2,3,1)]
  obtain j where j: "run_report_json out = Inr j"
      "\<forall>p\<in>set (json_positions j). \<forall>s\<in>found_values (collect_run (nr_targets r)). \<not> contains_str p s"
      "tr_id ` set (nr_targets out) \<inter> set (rv_target_ids (collect_run (nr_targets r))) = {}"
    using verify_no_run_residual_Inr [OF R(3)] .
  have "identifying (tr_report x) \<subseteq> found_values (collect_run (nr_targets r))"
    if "x \<in> set (nr_targets r)" "has_report x" for x
    using that unfolding collect_run_def collect_run_values by blast
  moreover have "rv_target_ids (collect_run (nr_targets r)) = map tr_id (nr_targets r)"
    unfolding collect_run_def collect_run_values by simp
  ultimately show ?thesis
    using j R(2) new_run_report_Inr(4) [OF R(4)] by auto
qed

lemma redact_run_same:
  assumes "made_run r" "redact_run order r = Inr out" "nr_mode r \<noteq> OutputModeShareableRedacted"
  shows "list_all2 (same_result (renamed (run_table order (nr_targets r)))) (nr_targets r) (nr_targets out)"
    and "made_run out" "nr_summary out = nr_summary r"
proof -
  note R = redact_run_Inr [OF assms(2,3,1)]
  let ?t = "run_table order (nr_targets r)"
  have targets: "made_result x \<and> (has_report x \<longrightarrow> made_report (tr_report x))" if "x \<in> set (nr_targets r)" for x
    using assms(1) that unfolding made_run_def by blast
  have each: "same_result (renamed ?t) x y \<and> made_result y \<and> (has_report y \<longrightarrow> made_report (tr_report y))"
    if "x \<in> set (nr_targets r)" "redact_target_result ?t x (tr_id y) = Inr y" for x y
    using redact_target_result_Inr targets [OF that(1)] that(2) by blast
  have all: "list_all2 (\<lambda>x y. same_result (renamed ?t) x y \<and> made_result y
      \<and> (has_report y \<longrightarrow> made_report (tr_report y))) (nr_targets r) (nr_targets out)"
    by (rule list.rel_mono_strong [OF R(1)]) (rule each)
  then show same: "list_all2 (same_result (renamed ?t)) (nr_targets r) (nr_targets out)"
    by (rule list_all2_mono) simp
  show "made_run out"
    unfolding made_run_def using R(4) all by (fastforce simp: list_all2_conv_all_nth in_set_conv_nth)
  show "nr_summary out = nr_summary r"
    using derive_run_summary_same [OF same] new_run_report_Inr(2) [OF R(4)] assms(1) new_run_report_Inr(2)
    unfolding made_run_def by metis
qed

text \<open>C12: A shareable run says what the local run says. One renaming of the evidence, which confuses no
  two ids of the whole run, makes every result the local result of the same position: the same service,
  state, completeness, error class and diagnosis. The summary, and with it the exit code, is unchanged.\<close>

theorem redact_run_keeps_diagnosis:
  assumes "made_run r" and "redact_run order r = Inr out" and "nr_mode r \<noteq> OutputModeShareableRedacted"
  shows "\<exists>\<rho>. inj_on \<rho> (\<Union>x\<in>{x \<in> set (nr_targets r). has_report x}. set (g_order (rp_graph (tr_report x))))
    \<and> list_all2 (same_result \<rho>) (nr_targets r) (nr_targets out)
    \<and> nr_summary out = nr_summary r \<and> nr_stopped out = nr_stopped r \<and> made_run out"
proof -
  let ?t = "run_table order (nr_targets r)" and ?v = "collect_run (nr_targets r)"
  have "set (rv_ids ?v)
      = (\<Union>x\<in>{x \<in> set (nr_targets r). has_report x}. ev_id ` set (graph_nodes (rp_graph (tr_report x))))"
    unfolding collect_run_def collect_run_values by simp
  moreover have "made_report (tr_report x)" if "x \<in> set (nr_targets r)" "has_report x" for x
    using assms(1) that unfolding made_run_def by blast
  ultimately have "set (rv_ids ?v)
      = (\<Union>x\<in>{x \<in> set (nr_targets r). has_report x}. set (g_order (rp_graph (tr_report x))))"
    using graph_view.nodes_ids [OF made_reportD(1)] by (simp flip: set_map)
  then have "inj_on (renamed ?t) (\<Union>x\<in>{x \<in> set (nr_targets r). has_report x}. set (g_order (rp_graph (tr_report x))))"
    using renamed_inj [of order "rv_hosts ?v" "rv_ips ?v" "rv_identities ?v" "rv_ids ?v"]
    by (simp add: run_table_def Let_def)
  moreover have "nr_stopped out = nr_stopped r"
    using new_run_report_Inr(5) [OF redact_run_Inr(4) [OF assms(2,3,1)]] by simp
  ultimately show ?thesis using redact_run_same [OF assms] by blast
qed

subsection \<open>A run of two targets\<close>

definition demo_results :: "target_result list" where
  "demo_results = [zero_target_result\<lparr>tr_id := ''Q1'', tr_service := ''pg'', tr_state := ExecutionStateCompleted,
       tr_report := demo_local\<rparr>,
     zero_target_result\<lparr>tr_id := ''Q2'', tr_service := ''pg'', tr_state := ExecutionStateNotStarted\<rparr>]"

definition demo_hidden :: "target_result list" where
  "demo_hidden = [zero_target_result\<lparr>tr_id := ''target-001'', tr_service := ''pg'', tr_state := ExecutionStateCompleted,
       tr_report := demo_shareable\<rparr>,
     zero_target_result\<lparr>tr_id := ''target-002'', tr_service := ''pg'', tr_state := ExecutionStateNotStarted\<rparr>]"

definition demo_run_of :: "output_mode \<Rightarrow> target_result list \<Rightarrow> run_report" where
  "demo_run_of mode rs = \<lparr>nr_version = ''1'', nr_started = 1, nr_duration = 2, nr_concurrency = 1,
     nr_mode = mode, nr_stopped = StoppedReasonNone, nr_targets = rs, nr_summary = derive_run_summary rs\<rparr>"

lemma demo_pg: "service_id_valid ''pg''"
  by code_simp

lemma demo_run_made:
  assumes "rs \<noteq> []" "list_all (\<lambda>r. \<not> target_result_is_zero r) rs" "distinct (map tr_id rs)"
    and "output_mode_valid mode"
  shows "new_run_report \<lparr>ni_version = ''1'', ni_started = 1, ni_duration = 2, ni_concurrency = 1,
      ni_mode = mode, ni_stopped = StoppedReasonNone, ni_targets = rs\<rparr> = Inr (demo_run_of mode rs)"
proof -
  obtain u where "validate_identifier ''1'' = Inr u"
    using line_text_valid [of "''1''"] by (cases "validate_identifier ''1''") (auto simp: eval_text)
  moreover have "check_results rs [] = Inr ()"
    using assms(2,3) by (simp add: check_results_Inr list_all_iff)
  ultimately show ?thesis
    using assms(1,4) by (simp add: new_run_report_def demo_run_of_def stopped_reason_valid_def)
qed

lemma demo_not_zero: "\<not> report_is_zero demo_local" "\<not> report_is_zero demo_shareable"
  by (simp_all add: demo_shareable_def demo_local_def report_is_zero_def run_is_zero_def)

lemma demo_run_is_made: "made_run (demo_run_of OutputModeLocalFull demo_results)"
proof -
  have "new_run_report \<lparr>ni_version = ''1'', ni_started = 1, ni_duration = 2, ni_concurrency = 1,
      ni_mode = OutputModeLocalFull, ni_stopped = StoppedReasonNone, ni_targets = demo_results\<rparr>
      = Inr (demo_run_of OutputModeLocalFull demo_results)"
    by (rule demo_run_made) (simp_all add: demo_results_def target_result_is_zero_def output_mode_valid_def)
  moreover have "completed_target ''Q1'' ''pg'' demo_local False = Inr (demo_results ! 0)"
    "not_started_target ''Q2'' ''pg'' = Inr (demo_results ! 1)"
    by (simp_all add: completed_target_def not_started_target_def report_bearing_target_def
        check_target_identity_def demo_pg demo_not_zero demo_results_def zero_target_result_def)
  then have "\<forall>x\<in>set demo_results. made_result x"
    unfolding made_result_def demo_results_def by auto
  moreover have "\<forall>x\<in>set demo_results. has_report x \<longrightarrow> made_report (tr_report x)"
    by (auto simp: demo_results_def has_report_def zero_target_result_def demo_made)
  ultimately show ?thesis unfolding made_run_def by (auto simp: demo_run_of_def)
qed

lemma demo_collect_run: "collect_run demo_results
    = \<lparr>rv_hosts = [''Q7'', ''Q8''], rv_ips = [], rv_identities = [], rv_ids = [], rv_target_ids = [''Q1'', ''Q2'']\<rparr>"
  by (simp add: collect_run_def demo_results_def collect_result_def has_report_def demo_not_zero demo_collect
      zero_target_result_def Let_def)

lemma demo_alias: "target_alias 0 = ''target-001''" "target_alias 1 = ''target-002''"
proof -
  have "digit_char 1 = CHR ''1''" "digit_char 2 = CHR ''2''" by code_simp+
  then show "target_alias 0 = ''target-001''" "target_alias 1 = ''target-002''"
    by (simp_all add: target_alias_def pad_nat_def show_nat.simps numeral_eq_Suc)
qed

lemma demo_run_json:
  "\<exists>j. run_report_json (demo_run_of OutputModeShareableRedacted demo_hidden) = Inr j
     \<and> list_all (\<lambda>s. CHR ''Q'' \<notin> set s) (json_strings j)"
proof -
  obtain j where "report_json demo_shareable = Inr j" "list_all (\<lambda>s. CHR ''Q'' \<notin> set s) (json_strings j)"
    using demo_json by blast
  then show ?thesis
    by (simp add: run_report_json_def run_report_is_zero_def demo_run_of_def demo_hidden_def output_mode_json_def
        output_mode_valid_def target_result_json_def target_result_is_zero_def zero_target_result_def
        execution_state_json_def execution_state_valid_def has_report_def demo_not_zero
        execution_error_class_valid_def run_summary_json_def derive_run_summary_eq has_problems_def
        summary_status_valid_def summary_status_json_def run_kind_def run_schema_version_def
        demo_shareable_def demo_local_def derive_summary_def)
qed

lemma demo_run_redacted: "redact_run id (demo_run_of OutputModeLocalFull demo_results)
    = Inr (demo_run_of OutputModeShareableRedacted demo_hidden)"
proof -
  have "target_aliases demo_results = [(''Q1'', ''target-001''), (''Q2'', ''target-002'')]"
    using demo_alias by (simp add: target_aliases_def demo_results_def)
  note a = this
  have t: "redact_target_result demo_table (demo_results ! 0) ''target-001'' = Inr (demo_hidden ! 0)"
    "redact_target_result demo_table (demo_results ! 1) ''target-002'' = Inr (demo_hidden ! 1)"
    by (simp_all add: redact_target_result_def demo_results_def demo_hidden_def demo_redact_with
        completed_target_def not_started_target_def report_bearing_target_def check_target_identity_def
        demo_pg demo_not_zero zero_target_result_def)
  have made: "new_run_report \<lparr>ni_version = ''1'', ni_started = 1, ni_duration = 2, ni_concurrency = 1,
      ni_mode = OutputModeShareableRedacted, ni_stopped = StoppedReasonNone, ni_targets = demo_hidden\<rparr>
      = Inr (demo_run_of OutputModeShareableRedacted demo_hidden)"
    by (rule demo_run_made) (simp_all add: demo_hidden_def target_result_is_zero_def output_mode_valid_def)
  obtain j where "run_report_json (demo_run_of OutputModeShareableRedacted demo_hidden) = Inr j"
      "list_all (\<lambda>s. CHR ''Q'' \<notin> set s) (json_strings j)"
    using demo_run_json by blast
  then have v: "verify_no_run_residual \<lparr>rv_hosts = [''Q7'', ''Q8''], rv_ips = [], rv_identities = [],
      rv_ids = [], rv_target_ids = [''Q1'', ''Q2'']\<rparr> (target_aliases demo_results)
      (demo_run_of OutputModeShareableRedacted demo_hidden) = Inr ()"
    using no_Q_positions [of j]
    by (auto simp: verify_no_run_residual_def string_positions_def contains_any_def list_ex_iff a
        demo_run_of_def demo_hidden_def)
  have "traverse (\<lambda>x. redact_target_result demo_table x
      (case map_of (target_aliases demo_results) (tr_id x) of Some a \<Rightarrow> a | None \<Rightarrow> [])) demo_results = Inr demo_hidden"
  proof -
    have "tr_id (demo_results ! 0) = ''Q1''" "tr_id (demo_results ! 1) = ''Q2''"
      by (simp_all add: demo_results_def zero_target_result_def)
    then have "traverse (\<lambda>x. redact_target_result demo_table x
        (case map_of (target_aliases demo_results) (tr_id x) of Some a \<Rightarrow> a | None \<Rightarrow> []))
        [demo_results ! 0, demo_results ! 1] = Inr [demo_hidden ! 0, demo_hidden ! 1]"
      unfolding a using t by (simp del: One_nat_def)
    then show ?thesis by (simp add: demo_results_def demo_hidden_def)
  qed
  then show ?thesis
    using made v unfolding redact_run_def Let_def
    by (simp add: demo_run_of_def demo_collect_run demo_new_table run_report_is_zero_def)
qed

theorem redact_run_leaves_nothing_witness:
  "\<exists>out. redact_run id (demo_run_of OutputModeLocalFull demo_results) = Inr out
     \<and> tr_id ` set (nr_targets out) \<inter> {''Q1'', ''Q2''} = {}"
proof -
  have "nr_mode (demo_run_of OutputModeLocalFull demo_results) \<noteq> OutputModeShareableRedacted"
    by (simp add: demo_run_of_def)
  from redact_run_leaves_nothing [OF demo_run_is_made demo_run_redacted this]
  have "tr_id ` set (nr_targets (demo_run_of OutputModeShareableRedacted demo_hidden))
      \<inter> tr_id ` set (nr_targets (demo_run_of OutputModeLocalFull demo_results)) = {}" by blast
  then show ?thesis using demo_run_redacted by (simp add: demo_run_of_def demo_results_def)
qed

theorem redact_run_keeps_diagnosis_witness:
  "redact_run id (demo_run_of OutputModeLocalFull demo_results)
      = Inr (demo_run_of OutputModeShareableRedacted demo_hidden)
   \<and> (\<exists>\<rho>. list_all2 (same_result \<rho>) demo_results demo_hidden)"
proof -
  have "nr_mode (demo_run_of OutputModeLocalFull demo_results) \<noteq> OutputModeShareableRedacted"
    by (simp add: demo_run_of_def)
  from redact_run_keeps_diagnosis [OF demo_run_is_made demo_run_redacted this]
  obtain \<rho> where "list_all2 (same_result \<rho>) (nr_targets (demo_run_of OutputModeLocalFull demo_results))
      (nr_targets (demo_run_of OutputModeShareableRedacted demo_hidden))" by blast
  then show ?thesis using demo_run_redacted by (auto simp: demo_run_of_def)
qed

end
