(* ===== verification/Fleet.thy ===== *)
theory Fleet
  imports RunReport Prose GoContext
begin

text \<open>
  The execution of a run over many targets (\<open>internal/fleet/run\<close>): the registry of runners, the checks
  of the parameters, the dispatcher and the worker pool as a step relation in which the scheduler, the
  clock and the caller's cancellation are free to move at any time, and the aggregate report at the end.
  Resolver and runners are interface values in the code; here they are relations between a target and the
  answers it may get.
\<close>

subsection \<open>Targets, runners and parameters\<close>

record 'c fleet_target =
  ft_id :: string
  ft_service :: string
  ft_timeout :: int
  ft_config :: 'c

record run_outcome =
  ro_report :: report
  ro_incomplete :: bool

datatype fleet_error = ErrRun | NilContext | OfRunReport run_error

text \<open>\<open>Registry\<close>: the runner of each kind, and the kinds in order. A nil runner is \<open>None\<close>.\<close>

record 'r runner_registry =
  rg_runners :: "(string \<times> 'r) list"
  rg_kinds :: "string list"

fun register_runners ::
    "(string \<times> 'r) option list \<Rightarrow> 'r runner_registry \<Rightarrow> fleet_error + 'r runner_registry" where
  "register_runners [] g = Inr g"
| "register_runners (None # rs) g = Inl ErrRun"
| "register_runners (Some (kind, run) # rs) g =
     (if kind = [] then Inl ErrRun
      else if map_of (rg_runners g) kind \<noteq> None then Inl ErrRun
      else register_runners rs (g\<lparr>rg_runners := AList.update kind run (rg_runners g),
        rg_kinds := rg_kinds g @ [kind]\<rparr>))"

definition new_runner_registry :: "(string \<times> 'r) option list \<Rightarrow> fleet_error + 'r runner_registry" where
  "new_runner_registry rs =
     rbind (register_runners rs \<lparr>rg_runners = [], rg_kinds = []\<rparr>) (\<lambda>g.
     Inr (g\<lparr>rg_kinds := sort (rg_kinds g)\<rparr>))"

definition registry_kinds :: "'r runner_registry option \<Rightarrow> string list" where
  "registry_kinds g = (case g of None \<Rightarrow> [] | Some g \<Rightarrow> rg_kinds g)"

definition lookup_runner :: "'r runner_registry option \<Rightarrow> string \<Rightarrow> 'r option" where
  "lookup_runner g kind = (case g of None \<Rightarrow> None | Some g \<Rightarrow> map_of (rg_runners g) kind)"

definition max_concurrency :: int where "max_concurrency = 16"

record ('c, 'r) fleet_params =
  fp_targets :: "'c fleet_target list"
  fp_concurrency :: int
  fp_timeout :: int
  fp_registry :: "'r runner_registry option"
  fp_has_resolver :: bool
  fp_version :: string

definition validate_params :: "('c, 'r) fleet_params \<Rightarrow> fleet_error + unit" where
  "validate_params p =
     (if fp_registry p = None then Inl ErrRun
      else if \<not> fp_has_resolver p then Inl ErrRun
      else if fp_version p = [] then Inl ErrRun
      else if fp_targets p = [] then Inl ErrRun
      else if fp_concurrency p < 1 then Inl ErrRun
      else if fp_concurrency p > max_concurrency then Inl ErrRun
      else if list_ex (\<lambda>t. lookup_runner (fp_registry p) (ft_service t) = None) (fp_targets p) then Inl ErrRun
      else Inr ())"

subsection \<open>What is written for one target\<close>

text \<open>The text of the error with which a constructor of target results refuses a name. A service handed to
  one is valid or empty, so that its quoted form is that of the empty string.\<close>

definition identity_error_text :: "string \<Rightarrow> service_id \<Rightarrow> string" where
  "identity_error_text target service =
     (if target = [] then ''invalid run report: a target result requires a target id''
      else ''invalid run report: service id '' @ [CHR 0x22] @ service @ [CHR 0x22])"

definition report_error_text :: "string \<Rightarrow> service_id \<Rightarrow> execution_state \<Rightarrow> string" where
  "report_error_text target service st =
     (if is_ok (check_target_identity target service)
      then ''invalid run report: a '' @ execution_state_string st @ '' target requires a report''
      else identity_error_text target service)"

definition fleet_service_id :: "'c fleet_target \<Rightarrow> service_id" where
  "fleet_service_id t = (case new_service_id (ft_service t) of Inl _ \<Rightarrow> [] | Inr s \<Rightarrow> s)"

definition fallback_failure :: "string \<Rightarrow> service_id \<Rightarrow> string \<Rightarrow> target_result" where
  "fallback_failure target service cause =
     (let i = (if target = [] then ''unknown'' else target);
          s = (if \<not> service_id_valid service then ''unknown'' else service)
      in case failed_target i s ExecutionErrorInternal cause of
           Inl _ \<Rightarrow> zero_target_result
         | Inr r \<Rightarrow> r)"

definition must_not_started :: "string \<Rightarrow> service_id \<Rightarrow> target_result" where
  "must_not_started target service =
     (case not_started_target target service of
        Inl _ \<Rightarrow> fallback_failure target service (identity_error_text target service)
      | Inr r \<Rightarrow> r)"

definition must_failed :: "string \<Rightarrow> service_id \<Rightarrow> execution_error_class \<Rightarrow> string \<Rightarrow> target_result" where
  "must_failed target service class message =
     (let m = (if message = [] then ''the target could not be executed'' else message)
      in case failed_target target service class m of
           Inl _ \<Rightarrow> fallback_failure target service (identity_error_text target service)
         | Inr r \<Rightarrow> r)"

text \<open>The message of a credential error is that of the first error in its chain that offers a safe one.\<close>

definition safe_message :: "string option \<Rightarrow> string" where
  "safe_message e = (case e of Some m \<Rightarrow> m | None \<Rightarrow> ''the credential could not be resolved'')"

definition classify_outcome :: "bool \<Rightarrow> string \<Rightarrow> service_id \<Rightarrow> run_outcome \<Rightarrow> target_result" where
  "classify_outcome run_over target service o' =
     (if run_over \<and> ro_incomplete o' then
        (case cancelled_target target service (ro_report o') (ro_incomplete o') of
           Inl _ \<Rightarrow> must_failed target service ExecutionErrorInternal
             (report_error_text target service ExecutionStateCancelled)
         | Inr r \<Rightarrow> r)
      else
        (case completed_target target service (ro_report o') (ro_incomplete o') of
           Inl _ \<Rightarrow> must_failed target service ExecutionErrorInternal
             (report_error_text target service ExecutionStateCompleted)
         | Inr r \<Rightarrow> r))"

subsection \<open>The pool\<close>

text \<open>What a worker is doing: waiting at the channel, holding an index it has received, waiting for the
  resolver, waiting for the runner, holding the runner's outcome, or gone.\<close>

datatype 'k worker =
    Waiting
  | Received nat
  | Resolving nat
  | Running nat 'k
  | Ended nat run_outcome
  | Gone

record 'k exec_state =
  ex_workers :: "'k worker list"
  ex_next :: nat
  ex_closed :: bool
  ex_results :: "target_result list"
  ex_ctx :: ctx_state
  ex_expired :: bool

text \<open>The context of the run is over when the caller's is or when the budget of the run has passed.\<close>

definition run_over :: "'k exec_state \<Rightarrow> bool" where
  "run_over s \<longleftrightarrow> ex_ctx s \<noteq> CtxLive \<or> ex_expired s"

definition exec_start :: "nat \<Rightarrow> ('c, 'r) fleet_params \<Rightarrow> ctx_state \<Rightarrow> 'k exec_state" where
  "exec_start workers p ctx = \<lparr>ex_workers = replicate workers Waiting, ex_next = 0, ex_closed = False,
     ex_results = replicate (length (fp_targets p)) zero_target_result, ex_ctx = ctx, ex_expired = False\<rparr>"

definition put_worker :: "nat \<Rightarrow> 'k worker \<Rightarrow> 'k exec_state \<Rightarrow> 'k exec_state" where
  "put_worker w x s = s\<lparr>ex_workers := (ex_workers s)[w := x]\<rparr>"

definition put_result :: "nat \<Rightarrow> nat \<Rightarrow> target_result \<Rightarrow> 'k exec_state \<Rightarrow> 'k exec_state" where
  "put_result w i r s = s\<lparr>ex_workers := (ex_workers s)[w := Waiting], ex_results := (ex_results s)[i := r]\<rparr>"

text \<open>The dispatcher hands an index to a waiting worker or leaves. When both are possible the \<open>select\<close> may
  take either, so an index can still be handed over when the run is already over.\<close>

inductive dispatch_step :: "('c, 'r) fleet_params \<Rightarrow> 'k exec_state \<Rightarrow> 'k exec_state \<Rightarrow> bool"
  for p :: "('c, 'r) fleet_params" where
  offer: "\<not> ex_closed s \<Longrightarrow> ex_next s < length (fp_targets p) \<Longrightarrow> w < length (ex_workers s)
    \<Longrightarrow> ex_workers s ! w = Waiting
    \<Longrightarrow> dispatch_step p s ((put_worker w (Received (ex_next s)) s)\<lparr>ex_next := Suc (ex_next s)\<rparr>)"
| leave: "\<not> ex_closed s \<Longrightarrow> ex_next s = length (fp_targets p) \<or> run_over s
    \<Longrightarrow> dispatch_step p s (s\<lparr>ex_closed := True\<rparr>)"

text \<open>The answers the outside world may give: the credential of a target, or the error with its safe
  message; the outcome of a runner, or the text of its error.\<close>

record ('c, 'r, 'k) fleet_world =
  resolves :: "'c fleet_target \<Rightarrow> string option + 'k \<Rightarrow> bool"
  runs :: "'r \<Rightarrow> 'c fleet_target \<Rightarrow> 'k \<Rightarrow> string + run_outcome \<Rightarrow> bool"

inductive worker_step ::
    "('c, 'r, 'k) fleet_world \<Rightarrow> ('c, 'r) fleet_params \<Rightarrow> 'k exec_state \<Rightarrow> 'k exec_state \<Rightarrow> bool"
  for W :: "('c, 'r, 'k) fleet_world" and p :: "('c, 'r) fleet_params" where
  finish: "w < length (ex_workers s) \<Longrightarrow> ex_workers s ! w = Waiting \<Longrightarrow> ex_closed s
    \<Longrightarrow> worker_step W p s (put_worker w Gone s)"
| skip: "w < length (ex_workers s) \<Longrightarrow> ex_workers s ! w = Received i \<Longrightarrow> run_over s
    \<Longrightarrow> t = fp_targets p ! i
    \<Longrightarrow> worker_step W p s (put_result w i (must_not_started (ft_id t) (fleet_service_id t)) s)"
| start: "w < length (ex_workers s) \<Longrightarrow> ex_workers s ! w = Received i \<Longrightarrow> \<not> run_over s
    \<Longrightarrow> worker_step W p s (put_worker w (Resolving i) s)"
| unresolved: "w < length (ex_workers s) \<Longrightarrow> ex_workers s ! w = Resolving i
    \<Longrightarrow> t = fp_targets p ! i \<Longrightarrow> resolves W t (Inl e)
    \<Longrightarrow> worker_step W p s (put_result w i (must_failed (ft_id t) (fleet_service_id t)
          ExecutionErrorCredentialResolution (safe_message e)) s)"
| resolved: "w < length (ex_workers s) \<Longrightarrow> ex_workers s ! w = Resolving i
    \<Longrightarrow> resolves W (fp_targets p ! i) (Inr k)
    \<Longrightarrow> worker_step W p s (put_worker w (Running i k) s)"
| failed: "w < length (ex_workers s) \<Longrightarrow> ex_workers s ! w = Running i k
    \<Longrightarrow> t = fp_targets p ! i \<Longrightarrow> lookup_runner (fp_registry p) (ft_service t) = Some r
    \<Longrightarrow> runs W r t k (Inl m)
    \<Longrightarrow> worker_step W p s (put_result w i (must_failed (ft_id t) (fleet_service_id t)
          ExecutionErrorInternal m) s)"
| ran: "w < length (ex_workers s) \<Longrightarrow> ex_workers s ! w = Running i k
    \<Longrightarrow> t = fp_targets p ! i \<Longrightarrow> lookup_runner (fp_registry p) (ft_service t) = Some r
    \<Longrightarrow> runs W r t k (Inr x)
    \<Longrightarrow> worker_step W p s (put_worker w (Ended i x) s)"
| judged: "w < length (ex_workers s) \<Longrightarrow> ex_workers s ! w = Ended i x
    \<Longrightarrow> t = fp_targets p ! i
    \<Longrightarrow> worker_step W p s (put_result w i (classify_outcome (run_over s) (ft_id t) (fleet_service_id t) x) s)"

text \<open>The caller may cancel, its deadline may pass, and so may the budget of the run if there is one.\<close>

inductive context_step :: "('c, 'r) fleet_params \<Rightarrow> 'k exec_state \<Rightarrow> 'k exec_state \<Rightarrow> bool"
  for p :: "('c, 'r) fleet_params" where
  cancel: "ex_ctx s = CtxLive \<Longrightarrow> c \<noteq> CtxLive \<Longrightarrow> context_step p s (s\<lparr>ex_ctx := c\<rparr>)"
| expire: "fp_timeout p > 0 \<Longrightarrow> \<not> ex_expired s \<Longrightarrow> context_step p s (s\<lparr>ex_expired := True\<rparr>)"

definition fleet_step ::
    "('c, 'r, 'k) fleet_world \<Rightarrow> ('c, 'r) fleet_params \<Rightarrow> 'k exec_state \<Rightarrow> 'k exec_state \<Rightarrow> bool" where
  "fleet_step W p s s' \<longleftrightarrow> dispatch_step p s s' \<or> worker_step W p s s' \<or> context_step p s s'"

text \<open>All workers have left: \<open>Wait\<close> returns.\<close>

definition pool_done :: "'k exec_state \<Rightarrow> bool" where
  "pool_done s \<longleftrightarrow> ex_closed s \<and> list_all (\<lambda>x. x = Gone) (ex_workers s)"

subsection \<open>The report\<close>

definition fill_result :: "'c fleet_target \<Rightarrow> target_result \<Rightarrow> run_error + target_result" where
  "fill_result t r =
     (if \<not> target_result_is_zero r then Inr r else not_started_target (ft_id t) (fleet_service_id t))"

text \<open>The three reads of the contexts are made one after another; each is an argument.\<close>

definition stopped_reason_of :: "ctx_state \<Rightarrow> ctx_state \<Rightarrow> bool \<Rightarrow> target_result list \<Rightarrow> stopped_reason" where
  "stopped_reason_of c1 c2 over results =
     (if \<not> list_ex (\<lambda>r. tr_state r = ExecutionStateNotStarted \<or> tr_state r = ExecutionStateCancelled) results
      then StoppedReasonNone
      else if c1 = CtxDeadlineExceeded then StoppedReasonRunBudgetExhausted
      else if c2 \<noteq> CtxLive then StoppedReasonCancelled
      else if over then StoppedReasonRunBudgetExhausted
      else StoppedReasonNone)"

definition fleet_report :: "('c, 'r) fleet_params \<Rightarrow> nat \<Rightarrow> go_time \<Rightarrow> go_time \<Rightarrow> ctx_state \<Rightarrow> ctx_state \<Rightarrow> bool
    \<Rightarrow> target_result list \<Rightarrow> run_error + run_report" where
  "fleet_report p workers started ended c1 c2 over slots =
     rbind (traverse (\<lambda>(t, r). fill_result t r) (zip (fp_targets p) slots)) (\<lambda>results.
     new_run_report \<lparr>ni_version = fp_version p, ni_started = started, ni_duration = ended - started,
       ni_concurrency = int workers, ni_mode = OutputModeLocalFull,
       ni_stopped = stopped_reason_of c1 c2 over results, ni_targets = results\<rparr>)"

text \<open>\<open>execute\<close>: some complete execution of the pool, after which the contexts may move on between the reads.
  A nil context is \<open>None\<close>.\<close>

inductive executes :: "('c, 'r, 'k) fleet_world \<Rightarrow> ('c, 'r) fleet_params \<Rightarrow> ctx_state option \<Rightarrow> nat
    \<Rightarrow> go_time \<Rightarrow> go_time \<Rightarrow> fleet_error + run_report \<Rightarrow> bool"
  for W :: "('c, 'r, 'k) fleet_world" and p :: "('c, 'r) fleet_params" where
  refused: "validate_params p = Inl e \<Longrightarrow> executes W p ctx workers started ended (Inl e)"
| no_context: "validate_params p = Inr () \<Longrightarrow> executes W p None workers started ended (Inl NilContext)"
| executed: "validate_params p = Inr () \<Longrightarrow> (fleet_step W p)\<^sup>*\<^sup>* (exec_start workers p c) s \<Longrightarrow> pool_done s
    \<Longrightarrow> (fleet_step W p)\<^sup>*\<^sup>* s s1 \<Longrightarrow> (fleet_step W p)\<^sup>*\<^sup>* s1 s2 \<Longrightarrow> (fleet_step W p)\<^sup>*\<^sup>* s2 s3
    \<Longrightarrow> executes W p (Some c) workers started ended (map_sum OfRunReport id
          (fleet_report p workers started ended (ex_ctx s1) (ex_ctx s2) (run_over s3) (ex_results s)))"

definition execute_fleet :: "('c, 'r, 'k) fleet_world \<Rightarrow> ('c, 'r) fleet_params \<Rightarrow> ctx_state option
    \<Rightarrow> go_time \<Rightarrow> go_time \<Rightarrow> fleet_error + run_report \<Rightarrow> bool" where
  "execute_fleet W p ctx = executes W p ctx (nat (fp_concurrency p))"

definition execute_sequential :: "('c, 'r, 'k) fleet_world \<Rightarrow> ('c, 'r) fleet_params \<Rightarrow> ctx_state option
    \<Rightarrow> go_time \<Rightarrow> go_time \<Rightarrow> fleet_error + run_report \<Rightarrow> bool" where
  "execute_sequential W p ctx = executes W p ctx 1"

inductive_cases worker_stepE: "worker_step W p s s'"
inductive_cases dispatch_stepE: "dispatch_step p s s'"
inductive_cases context_stepE: "context_step p s s'"

subsection \<open>Results are never missing\<close>

lemma unknown_valid: "service_id_valid ''unknown''"
  by (simp add: service_id_ok dotted_char_def is_lower_def)

lemma failed_target_ok:
  assumes "target \<noteq> []" "service_id_valid service" "execution_error_class_valid class" "message \<noteq> []"
  obtains r where "failed_target target service class message = Inr r"
    "made_result r" "tr_state r = ExecutionStateExecutionFailed"
proof -
  obtain r where r: "failed_target target service class message = Inr r"
      "tr_state r = ExecutionStateExecutionFailed"
    using assms by (simp add: failed_target_def check_target_identity_def)
  moreover from r(1) have "made_result r" unfolding made_result_def by blast
  ultimately show thesis using that by blast
qed

lemma fallback_failure_state:
  assumes "cause \<noteq> []"
  shows "made_result (fallback_failure target service cause)
     \<and> tr_state (fallback_failure target service cause) = ExecutionStateExecutionFailed"
proof -
  define i where "i = (if target = [] then ''unknown'' else target)"
  define s where "s = (if \<not> service_id_valid service then ''unknown'' else service)"
  have "i \<noteq> []" "service_id_valid s" by (simp_all add: unknown_valid i_def s_def)
  moreover have "execution_error_class_valid ExecutionErrorInternal" by (simp add: execution_error_class_valid_def)
  ultimately obtain r where "failed_target i s ExecutionErrorInternal cause = Inr r"
      "made_result r" "tr_state r = ExecutionStateExecutionFailed"
    using assms by (rule failed_target_ok)
  then show ?thesis by (simp add: fallback_failure_def Let_def flip: i_def s_def)
qed

lemma identity_error_text_nonempty: "identity_error_text target service \<noteq> []"
  by (simp add: identity_error_text_def)

lemma must_failed_state:
  assumes "execution_error_class_valid class"
  shows "made_result (must_failed target service class message)
    \<and> tr_state (must_failed target service class message) = ExecutionStateExecutionFailed"
proof (cases "failed_target target service class (if message = [] then ''the target could not be executed'' else message)")
  case (Inl e)
  then show ?thesis
    using fallback_failure_state [OF identity_error_text_nonempty] by (simp add: must_failed_def)
next
  case (Inr r)
  moreover from this have "made_result r" unfolding made_result_def by blast
  moreover from Inr have "tr_state r = ExecutionStateExecutionFailed"
    by (auto simp: failed_target_def rbind_Inr_iff split: if_splits)
  ultimately show ?thesis by (simp add: must_failed_def)
qed

lemma must_not_started_state:
  "made_result (must_not_started target service)
    \<and> tr_state (must_not_started target service) \<in> {ExecutionStateNotStarted, ExecutionStateExecutionFailed}"
proof (cases "not_started_target target service")
  case (Inl e)
  then show ?thesis
    using fallback_failure_state [OF identity_error_text_nonempty] by (simp add: must_not_started_def)
next
  case (Inr r)
  moreover from this have "made_result r" unfolding made_result_def by blast
  moreover from Inr have "tr_state r = ExecutionStateNotStarted"
    by (auto simp: not_started_target_def rbind_Inr_iff split: if_splits)
  ultimately show ?thesis by (simp add: must_not_started_def)
qed

lemma internal_valid: "execution_error_class_valid ExecutionErrorInternal"
  "execution_error_class_valid ExecutionErrorCredentialResolution"
  by (simp_all add: execution_error_class_valid_def)

lemma classify_outcome_made: "made_result (classify_outcome b target service x)"
  using must_failed_state [OF internal_valid(1)]
  by (auto simp: classify_outcome_def made_result_def split: sum.splits)

lemma classify_outcome_state:
  "tr_state (classify_outcome b target service x) \<in> {ExecutionStateCompleted, ExecutionStateExecutionFailed}
    \<or> b \<and> ro_incomplete x \<and> tr_state (classify_outcome b target service x) = ExecutionStateCancelled"
  using must_failed_state [OF internal_valid(1)]
  by (auto simp: classify_outcome_def cancelled_target_def completed_target_def report_bearing_target_def
      rbind_Inr_iff split: sum.splits if_splits)

subsection \<open>Every execution ends\<close>

fun worker_weight :: "'k worker \<Rightarrow> nat" where
  "worker_weight Waiting = 1"
| "worker_weight (Received i) = 5"
| "worker_weight (Resolving i) = 4"
| "worker_weight (Running i k) = 3"
| "worker_weight (Ended i x) = 2"
| "worker_weight Gone = 0"

definition exec_measure :: "('c, 'r) fleet_params \<Rightarrow> 'k exec_state \<Rightarrow> nat" where
  "exec_measure p s = 5 * (length (fp_targets p) - ex_next s) + sum_list (map worker_weight (ex_workers s))
     + (if ex_closed s then 0 else 1) + (if ex_ctx s = CtxLive then 1 else 0) + (if ex_expired s then 0 else 1)"

lemma weight_put:
  assumes "w < length xs"
  shows "sum_list (map worker_weight (xs[w := x])) + worker_weight (xs ! w)
      = sum_list (map worker_weight xs) + worker_weight x"
proof -
  have "worker_weight (xs ! w) \<le> sum_list (map worker_weight xs)"
    using elem_le_sum_list [of w "map worker_weight xs"] assms by simp
  then show ?thesis
    using assms by (simp add: map_update sum_list_update)
qed

lemma measure_put:
  assumes "w < length (ex_workers s)"
  shows "exec_measure p (put_worker w x s) < exec_measure p s
      \<longleftrightarrow> worker_weight x < worker_weight (ex_workers s ! w)"
    and "exec_measure p (put_result w i r s) < exec_measure p s \<longleftrightarrow> 1 < worker_weight (ex_workers s ! w)"
  using weight_put [OF assms, of x] weight_put [OF assms, of Waiting]
  by (simp_all add: exec_measure_def put_worker_def put_result_def) linarith+

lemma fleet_step_measure: "fleet_step W p s s' \<Longrightarrow> exec_measure p s' < exec_measure p s"
  unfolding fleet_step_def
proof (elim disjE)
  assume "dispatch_step p s s'"
  then show ?thesis
  proof cases
    case (offer w)
    then show ?thesis
      using weight_put [of w "ex_workers s" "Received (ex_next s)"] by (simp add: exec_measure_def put_worker_def)
  qed (simp add: exec_measure_def)
next
  assume "worker_step W p s s'"
  then show ?thesis
    by cases (auto simp: measure_put)
next
  assume "context_step p s s'"
  then show ?thesis by cases (simp_all add: exec_measure_def)
qed

subsection \<open>The invariant of the pool\<close>

fun holds :: "'k worker \<Rightarrow> nat option" where
  "holds (Received i) = Some i"
| "holds (Resolving i) = Some i"
| "holds (Running i k) = Some i"
| "holds (Ended i x) = Some i"
| "holds _ = None"

text \<open>What may be written for a target, without any schedule: \<open>over\<close> tells that the run came to be over.\<close>

definition allowed_result :: "('c, 'r, 'k) fleet_world \<Rightarrow> ('c, 'r) fleet_params \<Rightarrow> bool \<Rightarrow> 'c fleet_target
    \<Rightarrow> target_result \<Rightarrow> bool" where
  "allowed_result W p over t r \<longleftrightarrow>
     over \<and> r = must_not_started (ft_id t) (fleet_service_id t)
   \<or> (\<exists>e. resolves W t (Inl e) \<and> r = must_failed (ft_id t) (fleet_service_id t)
        ExecutionErrorCredentialResolution (safe_message e))
   \<or> (\<exists>k q m. resolves W t (Inr k) \<and> lookup_runner (fp_registry p) (ft_service t) = Some q
        \<and> runs W q t k (Inl m) \<and> r = must_failed (ft_id t) (fleet_service_id t) ExecutionErrorInternal m)
   \<or> (\<exists>k q x b. resolves W t (Inr k) \<and> lookup_runner (fp_registry p) (ft_service t) = Some q
        \<and> runs W q t k (Inr x) \<and> (b \<longrightarrow> over) \<and> r = classify_outcome b (ft_id t) (fleet_service_id t) x)"

definition worker_ok ::
    "('c, 'r, 'k) fleet_world \<Rightarrow> ('c, 'r) fleet_params \<Rightarrow> bool \<Rightarrow> nat \<Rightarrow> 'k worker \<Rightarrow> bool" where
  "worker_ok W p closed offered x \<longleftrightarrow> (\<forall>i. holds x = Some i \<longrightarrow> i < offered) \<and>
     (case x of
        Gone \<Rightarrow> closed
      | Running i k \<Rightarrow> resolves W (fp_targets p ! i) (Inr k)
      | Ended i o' \<Rightarrow> (\<exists>k q. resolves W (fp_targets p ! i) (Inr k)
          \<and> lookup_runner (fp_registry p) (ft_service (fp_targets p ! i)) = Some q
          \<and> runs W q (fp_targets p ! i) k (Inr o'))
      | _ \<Rightarrow> True)"

text \<open>Every index handed over is held by exactly one worker, and its slot is still empty, or has its result.\<close>

definition slot_ok :: "('c, 'r, 'k) fleet_world \<Rightarrow> ('c, 'r) fleet_params \<Rightarrow> 'k exec_state \<Rightarrow> nat \<Rightarrow> bool" where
  "slot_ok W p s i \<longleftrightarrow>
     (let held = length (filter (\<lambda>x. holds x = Some i) (ex_workers s)); r = ex_results s ! i
      in if i < ex_next s \<and> held = 0 then allowed_result W p (run_over s) (fp_targets p ! i) r
         else r = zero_target_result \<and> held = (if i < ex_next s then 1 else 0))"

definition exec_inv :: "('c, 'r, 'k) fleet_world \<Rightarrow> ('c, 'r) fleet_params \<Rightarrow> 'k exec_state \<Rightarrow> bool" where
  "exec_inv W p s \<longleftrightarrow> ex_next s \<le> length (fp_targets p)
     \<and> length (ex_results s) = length (fp_targets p)
     \<and> (ex_closed s \<longrightarrow> ex_next s = length (fp_targets p) \<or> run_over s)
     \<and> (\<forall>x\<in>set (ex_workers s). worker_ok W p (ex_closed s) (ex_next s) x)
     \<and> (\<forall>i<length (fp_targets p). slot_ok W p s i)"

lemma allowed_result_mono: "allowed_result W p a t r \<Longrightarrow> (a \<Longrightarrow> b) \<Longrightarrow> allowed_result W p b t r"
  unfolding allowed_result_def by blast

lemma allowed_result_made: "allowed_result W p over t r \<Longrightarrow> made_result r"
  unfolding allowed_result_def
  using must_failed_state internal_valid must_not_started_state classify_outcome_made by blast

lemma filter_update_length:
  assumes "w < length xs"
  shows "length (filter P (xs[w := x])) + (if P (xs ! w) then 1 else 0)
    = length (filter P xs) + (if P x then 1 else 0)"
proof -
  have "length (filter P xs) = length (filter P (take w xs @ xs ! w # drop (Suc w) xs))"
    using id_take_nth_drop [OF assms] by simp
  moreover have "length (filter P (xs[w := x])) = length (filter P (take w xs @ x # drop (Suc w) xs))"
    using upd_conv_take_nth_drop [OF assms] by simp
  ultimately show ?thesis by simp
qed

lemma exec_inv_start: "exec_inv W p (exec_start n p c)"
proof -
  have "filter P (replicate n Waiting) = []" if "\<not> P Waiting" for P and n :: nat
    using that by (induction n) auto
  then show ?thesis
    by (auto simp: exec_inv_def exec_start_def slot_ok_def worker_ok_def Let_def)
qed

text \<open>A worker that goes on with the same index changes no slot; one that writes fills exactly its own.\<close>

lemma held_worker:
  assumes "exec_inv W p s" "w < length (ex_workers s)" "holds (ex_workers s ! w) = Some i"
  shows "i < ex_next s" "i < length (fp_targets p)" "worker_ok W p (ex_closed s) (ex_next s) (ex_workers s ! w)"
    "length (filter (\<lambda>x. holds x = Some i) (ex_workers s)) = 1"
proof -
  have "ex_workers s ! w \<in> set (ex_workers s)" using assms(2) by simp
  then show ok: "worker_ok W p (ex_closed s) (ex_next s) (ex_workers s ! w)"
    using assms(1) unfolding exec_inv_def by blast
  then show i: "i < ex_next s" using assms(3) by (simp add: worker_ok_def)
  then show n: "i < length (fp_targets p)" using assms(1) by (simp add: exec_inv_def)
  then have "slot_ok W p s i" using assms(1) by (simp add: exec_inv_def)
  moreover have "length (filter (\<lambda>x. holds x = Some i) (ex_workers s)) \<noteq> 0"
    using \<open>ex_workers s ! w \<in> set (ex_workers s)\<close> assms(3) by (auto simp: filter_empty_conv)
  ultimately show "length (filter (\<lambda>x. holds x = Some i) (ex_workers s)) = 1"
    using i by (auto simp: slot_ok_def Let_def)
qed

lemma workers_put:
  assumes "\<forall>x\<in>set (ex_workers s). worker_ok W p c n x" "worker_ok W p c n y"
  shows "\<forall>x\<in>set ((ex_workers s)[w := y]). worker_ok W p c n x"
  using assms set_update_subset_insert [of "ex_workers s" w y] by blast

lemma exec_inv_put_worker:
  assumes "exec_inv W p s" "w < length (ex_workers s)" "holds x = holds (ex_workers s ! w)"
    "worker_ok W p (ex_closed s) (ex_next s) x"
  shows "exec_inv W p (put_worker w x s)"
proof -
  have "slot_ok W p (put_worker w x s) i = slot_ok W p s i" for i
    using filter_update_length [OF assms(2), of "\<lambda>x. holds x = Some i" x] assms(3)
    by (simp add: slot_ok_def put_worker_def run_over_def)
  then show ?thesis
    using assms(1) workers_put [OF _ assms(4), of s w]
    by (simp add: exec_inv_def) (simp add: put_worker_def run_over_def)
qed

lemma exec_inv_put_result:
  assumes "exec_inv W p s" "w < length (ex_workers s)" "holds (ex_workers s ! w) = Some i"
    "allowed_result W p (run_over s) (fp_targets p ! i) r"
  shows "exec_inv W p (put_result w i r s)"
proof -
  note H = held_worker [OF assms(1-3)]
  have len: "length (ex_results s) = length (fp_targets p)" using assms(1) by (simp add: exec_inv_def)
  have "slot_ok W p (put_result w i r s) j" if "j < length (fp_targets p)" for j
  proof (cases "j = i")
    case True
    then show ?thesis
      using filter_update_length [OF assms(2), of "\<lambda>x. holds x = Some i" Waiting] assms(3,4) H len
      by (simp add: slot_ok_def put_result_def run_over_def Let_def)
  next
    case False
    then have "slot_ok W p (put_result w i r s) j = slot_ok W p s j"
      using filter_update_length [OF assms(2), of "\<lambda>x. holds x = Some j" Waiting] assms(3)
      by (simp add: slot_ok_def put_result_def run_over_def Let_def)
    then show ?thesis using assms(1) that by (simp add: exec_inv_def)
  qed
  moreover have "worker_ok W p c n Waiting" for c n by (simp add: worker_ok_def)
  ultimately show ?thesis
    using assms(1) workers_put [of s W p "ex_closed s" "ex_next s" Waiting w]
    by (simp add: exec_inv_def) (simp add: put_result_def run_over_def)
qed

lemma worker_ok_mono: "worker_ok W p c n x \<Longrightarrow> (c \<Longrightarrow> c') \<Longrightarrow> n \<le> n' \<Longrightarrow> worker_ok W p c' n' x"
  by (cases x) (auto simp: worker_ok_def)

lemma dispatch_step_inv:
  assumes "exec_inv W p s" "dispatch_step p s s'"
  shows "exec_inv W p s'"
  using assms(2)
proof cases
  case (offer w)
  let ?x = "Received (ex_next s)"
  have slots: "\<forall>i<length (fp_targets p). slot_ok W p s i" using assms(1) by (simp add: exec_inv_def)
  have "slot_ok W p s' i" if i: "i < length (fp_targets p)" for i
  proof -
    have "slot_ok W p s i" using slots i by blast
    then show ?thesis
      using offer filter_update_length [of w "ex_workers s" "\<lambda>x. holds x = Some i" ?x]
      by (cases "i = ex_next s") (auto simp: slot_ok_def put_worker_def run_over_def Let_def less_Suc_eq split: if_splits)
  qed
  moreover have "worker_ok W p c (Suc (ex_next s)) ?x" for c by (simp add: worker_ok_def)
  moreover have "\<forall>x\<in>set (ex_workers s). worker_ok W p (ex_closed s) (Suc (ex_next s)) x"
    using assms(1) worker_ok_mono [of W p _ "ex_next s"] by (auto simp: exec_inv_def)
  ultimately have "\<forall>x\<in>set (ex_workers s'). worker_ok W p (ex_closed s) (Suc (ex_next s)) x"
    "\<forall>i<length (fp_targets p). slot_ok W p s' i"
    using workers_put [of s W p "ex_closed s" "Suc (ex_next s)" ?x w] offer(1) by (simp_all add: put_worker_def)
  then show ?thesis
    using assms(1) offer unfolding exec_inv_def by (simp add: put_worker_def)
next
  case leave
  have w: "worker_ok W p c n x \<Longrightarrow> worker_ok W p True n x" for c n x
    by (erule worker_ok_mono) simp_all
  have "slot_ok W p s' i = slot_ok W p s i" for i
    using leave(1) by (simp add: slot_ok_def run_over_def)
  then show ?thesis
    using assms(1) leave w unfolding exec_inv_def by (simp add: run_over_def) blast
qed

lemma worker_step_inv:
  assumes "exec_inv W p s" "worker_step W p s s'"
  shows "exec_inv W p s'"
  using assms(2)
proof cases
  case (finish w)
  then show ?thesis
    using exec_inv_put_worker [OF assms(1), of w Gone] by (simp add: worker_ok_def)
next
  case (skip w i t)
  then show ?thesis
    using exec_inv_put_result [OF assms(1), of w i] by (simp add: allowed_result_def)
next
  case (start w i)
  then show ?thesis
    using exec_inv_put_worker [OF assms(1), of w "Resolving i"] held_worker(1) [OF assms(1)] by (simp add: worker_ok_def)
next
  case (unresolved w i t e)
  then have "allowed_result W p (run_over s) t (must_failed (ft_id t) (fleet_service_id t)
      ExecutionErrorCredentialResolution (safe_message e))"
    unfolding allowed_result_def by blast
  then show ?thesis
    using unresolved exec_inv_put_result [OF assms(1), of w i] by simp
next
  case (resolved w i k)
  then show ?thesis
    using exec_inv_put_worker [OF assms(1), of w "Running i k"] held_worker(1) [OF assms(1)] by (simp add: worker_ok_def)
next
  case (failed w i k t r m)
  then have "resolves W t (Inr k)"
    using held_worker(3) [OF assms(1), of w i] by (simp add: worker_ok_def)
  then have "allowed_result W p (run_over s) t (must_failed (ft_id t) (fleet_service_id t) ExecutionErrorInternal m)"
    using failed unfolding allowed_result_def by blast
  then show ?thesis
    using failed exec_inv_put_result [OF assms(1), of w i] by simp
next
  case (ran w i k t r x)
  then have "resolves W t (Inr k)"
    using held_worker(3) [OF assms(1), of w i] by (simp add: worker_ok_def)
  then show ?thesis
    using ran exec_inv_put_worker [OF assms(1), of w "Ended i x"] held_worker(1) [OF assms(1), of w i]
    by (auto simp: worker_ok_def)
next
  case (judged w i x t)
  then have "\<exists>k q. resolves W t (Inr k) \<and> lookup_runner (fp_registry p) (ft_service t) = Some q \<and> runs W q t k (Inr x)"
    using held_worker(3) [OF assms(1), of w i] by (simp add: worker_ok_def)
  then have "allowed_result W p (run_over s) t (classify_outcome (run_over s) (ft_id t) (fleet_service_id t) x)"
    unfolding allowed_result_def by blast
  then show ?thesis
    using judged exec_inv_put_result [OF assms(1), of w i] by simp
qed

lemma run_over_mono: "fleet_step W p s s' \<Longrightarrow> run_over s \<Longrightarrow> run_over s'"
  unfolding fleet_step_def
  by (auto elim!: dispatch_stepE worker_stepE context_stepE simp: run_over_def put_worker_def put_result_def)

lemma context_step_inv:
  assumes "exec_inv W p s" "context_step p s s'"
  shows "exec_inv W p s'"
proof -
  have same: "ex_workers s' = ex_workers s" "ex_results s' = ex_results s" "ex_next s' = ex_next s"
      "ex_closed s' = ex_closed s" and mono: "run_over s \<Longrightarrow> run_over s'"
    using assms(2) by (auto elim!: context_stepE simp: run_over_def)
  have "slot_ok W p s i \<Longrightarrow> slot_ok W p s' i" for i
    unfolding slot_ok_def same Let_def by (auto intro: allowed_result_mono mono split: if_splits)
  then show ?thesis
    using assms(1) mono by (auto simp: exec_inv_def same)
qed

lemma fleet_step_inv: "exec_inv W p s \<Longrightarrow> fleet_step W p s s' \<Longrightarrow> exec_inv W p s'"
  unfolding fleet_step_def using dispatch_step_inv worker_step_inv context_step_inv by blast

lemma reachable_inv: "(fleet_step W p)\<^sup>*\<^sup>* s s' \<Longrightarrow> exec_inv W p s \<Longrightarrow> exec_inv W p s'"
  by (induction rule: rtranclp_induct) (auto intro: fleet_step_inv)

lemma reachable_over: "(fleet_step W p)\<^sup>*\<^sup>* s s' \<Longrightarrow> run_over s \<Longrightarrow> run_over s'"
  by (induction rule: rtranclp_induct) (auto intro: run_over_mono)

subsection \<open>No execution is stuck\<close>

text \<open>Whoever is asked answers.\<close>

definition answers :: "('c, 'r, 'k) fleet_world \<Rightarrow> bool" where
  "answers W \<longleftrightarrow> (\<forall>t. \<exists>a. resolves W t a) \<and> (\<forall>q t k. \<exists>a. runs W q t k a)"

lemma worker_moves:
  assumes "exec_inv W p s" "answers W" "validate_params p = Inr ()"
    and w: "w < length (ex_workers s)" "holds (ex_workers s ! w) = Some i"
  shows "\<exists>s'. worker_step W p s s'"
proof -
  let ?t = "fp_targets p ! i"
  have t: "?t \<in> set (fp_targets p)" using held_worker(2) [OF assms(1) w] by simp
  then obtain q where q: "lookup_runner (fp_registry p) (ft_service ?t) = Some q"
    using assms(3) by (auto simp: validate_params_def list_ex_iff split: if_splits)
  show ?thesis
  proof (cases "ex_workers s ! w")
    case (Received j)
    then show ?thesis
      using worker_step.skip [OF w(1) Received] worker_step.start [OF w(1) Received, of W p] by blast
  next
    case (Resolving j)
    then have "j = i" using w by simp
    obtain a where "resolves W ?t a" using assms(2) unfolding answers_def by blast
    then show ?thesis
    proof (cases a)
      case (Inl e)
      with \<open>resolves W ?t a\<close> worker_step.unresolved [OF w(1) Resolving, of ?t p W] \<open>j = i\<close>
      show ?thesis by blast
    next
      case (Inr k)
      with \<open>resolves W ?t a\<close> worker_step.resolved [OF w(1) Resolving, of W p] \<open>j = i\<close>
      show ?thesis by blast
    qed
  next
    case (Running j k)
    then have "j = i" using w by simp
    obtain a where "runs W q ?t k a" using assms(2) unfolding answers_def by blast
    then show ?thesis
    proof (cases a)
      case (Inl m)
      with \<open>runs W q ?t k a\<close> worker_step.failed [OF w(1) Running, of ?t p q W m] q \<open>j = i\<close>
      show ?thesis by blast
    next
      case (Inr x)
      with \<open>runs W q ?t k a\<close> worker_step.ran [OF w(1) Running, of ?t p q W x] q \<open>j = i\<close>
      show ?thesis by blast
    qed
  next
    case (Ended j x)
    then show ?thesis using w worker_step.judged by blast
  qed (use w in auto)
qed

lemma fleet_progress:
  assumes "exec_inv W p s" "answers W" "validate_params p = Inr ()" "ex_workers s \<noteq> []" "\<not> pool_done s"
  shows "\<exists>s'. dispatch_step p s s' \<or> worker_step W p s s'"
proof (cases "\<exists>w<length (ex_workers s). \<exists>i. holds (ex_workers s ! w) = Some i")
  case True
  then show ?thesis using worker_moves [OF assms(1-3)] by blast
next
  case False
  have idle: "ex_workers s ! w = Waiting \<or> ex_workers s ! w = Gone" if "w < length (ex_workers s)" for w
    using False that by (cases "ex_workers s ! w") fastforce+
  show ?thesis
  proof (cases "ex_closed s")
    case True
    then obtain w where "w < length (ex_workers s)" "ex_workers s ! w \<noteq> Gone"
      using assms(5) by (auto simp: pool_done_def list_all_iff in_set_conv_nth)
    then show ?thesis using idle True worker_step.finish by blast
  next
    case False
    have "worker_ok W p False (ex_next s) (ex_workers s ! 0)"
      using assms(1,4) \<open>\<not> ex_closed s\<close> by (simp add: exec_inv_def)
    then have "ex_workers s ! 0 \<noteq> Gone" by (auto simp: worker_ok_def)
    then have "ex_workers s ! 0 = Waiting" using idle assms(4) by blast
    moreover have "ex_next s \<le> length (fp_targets p)" using assms(1) by (simp add: exec_inv_def)
    ultimately show ?thesis
      using \<open>\<not> ex_closed s\<close> assms(4) dispatch_step.offer [of s p 0] dispatch_step.leave [of s p]
      by (cases "ex_next s = length (fp_targets p)") auto
  qed
qed

text \<open>C18: Every execution of a run ends, whatever the order in which dispatcher, workers, clock and caller move:
  no execution has more steps than five for each target, one for each worker and three more, and while
  the pool is not done the dispatcher or a worker can move without waiting for the clock or the caller.\<close>

theorem fleet_run_ends:
  fixes W :: "('c, 'r, 'k) fleet_world"
  assumes "validate_params p = Inr ()" and "answers W" and "0 < n"
    and "(fleet_step W p ^^ m) (exec_start n p c) s"
  shows "m \<le> 5 * length (fp_targets p) + n + 3
    \<and> (\<not> (\<not> pool_done s \<and> \<not> (\<exists>s'. dispatch_step p s s' \<or> worker_step W p s s')))"
proof -
  have "exec_measure p s + m \<le> exec_measure p (exec_start n p c :: 'k exec_state)" using assms(4)
  proof (induction m arbitrary: s)
    case (Suc m)
    then obtain s0 where "(fleet_step W p ^^ m) (exec_start n p c) s0" "fleet_step W p s0 s" by auto
    then show ?case using Suc.IH [of s0] fleet_step_measure [of W p s0 s] by simp
  qed simp
  then have "m \<le> 5 * length (fp_targets p) + n + 3"
    by (simp add: exec_measure_def exec_start_def sum_list_replicate split: if_splits)
  moreover have r: "(fleet_step W p)\<^sup>*\<^sup>* (exec_start n p c) s"
    using assms(4) by (rule relpowp_imp_rtranclp)
  have "exec_inv W p s" by (rule reachable_inv [OF r exec_inv_start])
  moreover have len: "fleet_step W p s0 s' \<Longrightarrow> length (ex_workers s') = length (ex_workers s0)" for s0 s'
    unfolding fleet_step_def
    by (auto elim!: dispatch_stepE worker_stepE context_stepE simp: put_worker_def put_result_def)
  from r have "length (ex_workers s) = n"
    by (induction rule: rtranclp_induct) (simp_all add: exec_start_def len)
  then have "ex_workers s \<noteq> []" using assms(3) by auto
  ultimately show ?thesis using fleet_progress [OF _ assms(2,1)] by blast
qed

subsection \<open>What the report of a run says\<close>

text \<open>Targets as the configuration gives them: with names, and different ones.\<close>

definition named_targets :: "('c, 'r) fleet_params \<Rightarrow> bool" where
  "named_targets p \<longleftrightarrow> distinct (map ft_id (fp_targets p))
     \<and> list_all (\<lambda>t. ft_id t \<noteq> [] \<and> service_id_valid (ft_service t)) (fp_targets p)"

text \<open>A runner that reports gives a report.\<close>

definition gives_reports :: "('c, 'r, 'k) fleet_world \<Rightarrow> bool" where
  "gives_reports W \<longleftrightarrow> (\<forall>q t k x. runs W q t k (Inr x) \<longrightarrow> \<not> report_is_zero (ro_report x))"

lemma fleet_service_id_valid: "service_id_valid (ft_service t) \<Longrightarrow> fleet_service_id t = ft_service t"
  by (cases "new_service_id (ft_service t)")
    (auto simp: fleet_service_id_def service_id_valid_def new_service_id_def split: if_splits)

lemma must_not_started_named:
  assumes "ft_id t \<noteq> []" "service_id_valid (ft_service t)"
  shows "not_started_target (ft_id t) (fleet_service_id t) = Inr (must_not_started (ft_id t) (fleet_service_id t))"
    and "tr_state (must_not_started (ft_id t) (fleet_service_id t)) = ExecutionStateNotStarted"
  using assms by (simp_all add: must_not_started_def not_started_target_def check_target_identity_def
      fleet_service_id_valid)

lemma result_names:
  assumes "ft_id t \<noteq> []" "service_id_valid (ft_service t)" "allowed_result W p over t r"
  shows "tr_id r = ft_id t \<and> tr_service r = ft_service t"
proof -
  have f: "tr_id (must_failed (ft_id t) (ft_service t) cl m) = ft_id t
      \<and> tr_service (must_failed (ft_id t) (ft_service t) cl m) = ft_service t"
    if "execution_error_class_valid cl" for cl m
    using assms(1,2) that by (simp add: must_failed_def failed_target_def check_target_identity_def Let_def)
  have n: "tr_id (must_not_started (ft_id t) (ft_service t)) = ft_id t
      \<and> tr_service (must_not_started (ft_id t) (ft_service t)) = ft_service t"
    using assms(1,2) by (simp add: must_not_started_def not_started_target_def check_target_identity_def)
  have c: "tr_id (classify_outcome b (ft_id t) (ft_service t) x) = ft_id t
      \<and> tr_service (classify_outcome b (ft_id t) (ft_service t) x) = ft_service t" for b x
    using assms(1,2) f [OF internal_valid(1)]
    by (simp add: classify_outcome_def cancelled_target_def completed_target_def report_bearing_target_def
        check_target_identity_def)
  show ?thesis
    using assms(3) f internal_valid n c
    unfolding allowed_result_def fleet_service_id_valid [OF assms(2)] by blast
qed

text \<open>An allowed result that is neither \<open>NOT_STARTED\<close> nor \<open>CANCELLED\<close> is one of an uninterrupted run.\<close>

lemma allowed_uninterrupted:
  assumes "ft_id t \<noteq> []" "service_id_valid (ft_service t)" "gives_reports W" "allowed_result W p over t r"
    and "tr_state r \<notin> {ExecutionStateNotStarted, ExecutionStateCancelled}"
  shows "allowed_result W p False t r"
proof -
  have "classify_outcome b (ft_id t) (fleet_service_id t) x = classify_outcome False (ft_id t) (fleet_service_id t) x"
    if "runs W q t k (Inr x)" "r = classify_outcome b (ft_id t) (fleet_service_id t) x" for b x q k
  proof -
    have "\<not> report_is_zero (ro_report x)" using assms(3) that(1) unfolding gives_reports_def by blast
    then have "tr_state r = ExecutionStateCancelled" if "b \<and> ro_incomplete x"
      using that assms(1,2) \<open>r = _\<close> by (simp add: classify_outcome_def cancelled_target_def
          report_bearing_target_def check_target_identity_def fleet_service_id_valid)
    then show ?thesis using assms(5) by (auto simp: classify_outcome_def)
  qed
  moreover have "r \<noteq> must_not_started (ft_id t) (fleet_service_id t)"
    using must_not_started_named(2) [OF assms(1,2)] assms(5) by auto
  ultimately show ?thesis
    using assms(4) unfolding allowed_result_def by blast
qed

lemma filled_slot:
  assumes "exec_inv W p s" "pool_done s" "i < length (fp_targets p)"
    and "ft_id (fp_targets p ! i) \<noteq> []" "service_id_valid (ft_service (fp_targets p ! i))"
  shows "\<exists>r. fill_result (fp_targets p ! i) (ex_results s ! i) = Inr r
    \<and> allowed_result W p (run_over s) (fp_targets p ! i) r"
proof -
  have "filter (\<lambda>x. holds x = Some i) (ex_workers s) = []"
    using assms(2) by (auto simp: pool_done_def list_all_iff filter_empty_conv)
  then have slot: "if i < ex_next s then allowed_result W p (run_over s) (fp_targets p ! i) (ex_results s ! i)
      else ex_results s ! i = zero_target_result"
    using assms(1,3) by (auto simp: exec_inv_def slot_ok_def Let_def)
  show ?thesis
  proof (cases "i < ex_next s")
    case True
    then have a: "allowed_result W p (run_over s) (fp_targets p ! i) (ex_results s ! i)" using slot by simp
    then have "\<not> target_result_is_zero (ex_results s ! i)"
      using allowed_result_made made_result_not_zero by blast
    then show ?thesis using a by (simp add: fill_result_def)
  next
    case False
    then have "run_over s" using assms(1-3) by (auto simp: exec_inv_def pool_done_def)
    moreover have "target_result_is_zero (ex_results s ! i)"
      using slot False by (simp add: target_result_is_zero_def zero_target_result_def)
    ultimately show ?thesis
      using must_not_started_named(1) [OF assms(4,5)] by (auto simp: fill_result_def allowed_result_def)
  qed
qed

lemma interrupted_over:
  assumes "allowed_result W p over t r" "tr_state r \<in> {ExecutionStateNotStarted, ExecutionStateCancelled}"
  shows over
proof (rule ccontr)
  assume "\<not> over"
  moreover have "tr_state (classify_outcome b i s x) \<in> {ExecutionStateExecutionFailed, ExecutionStateCompleted}"
    if "\<not> b" for b i s x
    using classify_outcome_state [of b i s x] that by blast
  moreover have "tr_state (must_failed i s c m) = ExecutionStateExecutionFailed"
    if "execution_error_class_valid c" for i s c m
    using must_failed_state [OF that] by blast
  ultimately have "tr_state r \<in> {ExecutionStateExecutionFailed, ExecutionStateCompleted}"
    using assms(1) internal_valid unfolding allowed_result_def by fastforce
  then show False using assms(2) by auto
qed

definition interrupted :: "target_result list \<Rightarrow> bool" where
  "interrupted rs \<longleftrightarrow> list_ex (\<lambda>r. tr_state r = ExecutionStateNotStarted \<or> tr_state r = ExecutionStateCancelled) rs"

lemma stopped_reason_interrupted:
  assumes "interrupted rs \<Longrightarrow> over"
  shows "(stopped_reason_of c1 c2 over rs = StoppedReasonNone) \<longleftrightarrow> \<not> interrupted rs"
    and "stopped_reason_valid (stopped_reason_of c1 c2 over rs)"
  using assms by (auto simp: stopped_reason_of_def interrupted_def stopped_reason_valid_def)

text \<open>The clock of a run: started after the zero time, and not going back.\<close>

definition clock_ok :: "('c, 'r) fleet_params \<Rightarrow> go_time \<Rightarrow> go_time \<Rightarrow> bool" where
  "clock_ok p started ended \<longleftrightarrow> is_ok (validate_identifier (fp_version p)) \<and> started \<noteq> 0 \<and> started \<le> ended"

lemma executes_reports:
  fixes W :: "('c, 'r, 'k) fleet_world"
  assumes "executes W p (Some c) n started ended x" "validate_params p = Inr ()" "0 < n"
    and "named_targets p" "gives_reports W" "clock_ok p started ended"
  obtains r where "x = Inr r"
    "list_all2 (allowed_result W p (nr_stopped r \<noteq> StoppedReasonNone)) (fp_targets p) (nr_targets r)"
    "map tr_id (nr_targets r) = map ft_id (fp_targets p)"
    "map tr_service (nr_targets r) = map ft_service (fp_targets p)"
    "nr_stopped r = StoppedReasonNone \<longleftrightarrow> \<not> interrupted (nr_targets r)"
    "nr_concurrency r = int n" "nr_summary r = derive_run_summary (nr_targets r)"
    "\<exists>i. new_run_report i = Inr r" "nr_mode r = OutputModeLocalFull"
proof -
  obtain s s1 s2 s3 :: "'k exec_state" where r: "(fleet_step W p)\<^sup>*\<^sup>* (exec_start n p c) s" and d: "pool_done s"
      and moves: "(fleet_step W p)\<^sup>*\<^sup>* s s3"
      and x: "x = map_sum OfRunReport id
        (fleet_report p n started ended (ex_ctx s1) (ex_ctx s2) (run_over s3) (ex_results s))"
    using assms(1)
  proof cases
    case (executed s s1 s2 s3)
    have "(fleet_step W p)\<^sup>*\<^sup>* s s3"
      by (rule rtranclp_trans [OF executed(5) rtranclp_trans [OF executed(6,7)]])
    then show thesis using that executed by blast
  qed (use assms(2) in simp_all)
  have inv: "exec_inv W p s" by (rule reachable_inv [OF r exec_inv_start])
  have len: "length (ex_results s) = length (fp_targets p)" using inv by (simp add: exec_inv_def)
  have named: "ft_id (fp_targets p ! i) \<noteq> []" "service_id_valid (ft_service (fp_targets p ! i))"
    if "i < length (fp_targets p)" for i
    using assms(4) that by (simp_all add: named_targets_def list_all_length)
  have "\<forall>i<length (fp_targets p). \<exists>y. fill_result (fp_targets p ! i) (ex_results s ! i) = Inr y
      \<and> allowed_result W p (run_over s) (fp_targets p ! i) y"
    using filled_slot [OF inv d] named by blast
  then obtain g where g: "\<forall>i<length (fp_targets p). fill_result (fp_targets p ! i) (ex_results s ! i) = Inr (g i)
      \<and> allowed_result W p (run_over s) (fp_targets p ! i) (g i)" by metis
  let ?rs = "map g [0..<length (fp_targets p)]"
  have rs: "traverse (\<lambda>(t, r). fill_result t r) (zip (fp_targets p) (ex_results s)) = Inr ?rs"
    using g len by (simp add: traverse_Inr_iff list_all2_conv_all_nth)
  have allowed: "list_all2 (allowed_result W p (run_over s)) (fp_targets p) ?rs"
    using g by (simp add: list_all2_conv_all_nth)
  have at: "tr_id (g i) = ft_id (fp_targets p ! i) \<and> tr_service (g i) = ft_service (fp_targets p ! i)"
    if i: "i < length (fp_targets p)" for i
    using result_names [OF named [OF i]] g i by blast
  have names: "map tr_id ?rs = map ft_id (fp_targets p)" "map tr_service ?rs = map ft_service (fp_targets p)"
    by (rule nth_equalityI, simp, simp add: at)+
  have over: "run_over s" if int: "interrupted ?rs"
  proof -
    obtain i where "i < length (fp_targets p)" "tr_state (g i) \<in> {ExecutionStateNotStarted, ExecutionStateCancelled}"
      using int by (auto simp: interrupted_def list_ex_iff)
    then show ?thesis using g interrupted_over by blast
  qed
  then have over3: "interrupted ?rs \<Longrightarrow> run_over s3" using reachable_over [OF moves] by blast
  let ?why = "stopped_reason_of (ex_ctx s1) (ex_ctx s2) (run_over s3) ?rs"
  have made: "\<forall>y\<in>set ?rs. \<not> target_result_is_zero y"
    using g allowed_result_made made_result_not_zero by fastforce
  have "fp_targets p \<noteq> []" using assms(2) by (auto simp: validate_params_def split: if_splits)
  moreover obtain u where "validate_identifier (fp_version p) = Inr u"
    using assms(6) by (auto simp: clock_ok_def is_ok_def split: sum.splits)
  moreover have "check_results ?rs [] = Inr ()"
    unfolding check_results_Inr using made names(1) assms(4) by (simp add: named_targets_def)
  ultimately obtain r where made_r: "new_run_report \<lparr>ni_version = fp_version p, ni_started = started,
      ni_duration = ended - started, ni_concurrency = int n, ni_mode = OutputModeLocalFull, ni_stopped = ?why,
      ni_targets = ?rs\<rparr> = Inr r"
      and r: "nr_targets r = ?rs" "nr_stopped r = ?why" "nr_concurrency r = int n"
        "nr_summary r = derive_run_summary ?rs" "nr_mode r = OutputModeLocalFull"
    using assms(3,6) stopped_reason_interrupted(2) [OF over3]
    by (simp add: new_run_report_def clock_ok_def output_mode_valid_def)
  have none: "nr_stopped r = StoppedReasonNone \<longleftrightarrow> \<not> interrupted ?rs"
    unfolding r by (rule stopped_reason_interrupted(1) [OF over3])
  have "allowed_result W p (nr_stopped r \<noteq> StoppedReasonNone) (fp_targets p ! i) (g i)"
    if i: "i < length (fp_targets p)" for i
  proof (cases "nr_stopped r = StoppedReasonNone")
    case True
    then have "tr_state (g i) \<notin> {ExecutionStateNotStarted, ExecutionStateCancelled}"
      using none i by (auto simp: interrupted_def list_ex_iff)
    then show ?thesis
      using allowed_uninterrupted [OF named [OF i] assms(5)] g i True by auto
  next
    case False
    then show ?thesis using allowed_result_mono g i by blast
  qed
  then have "list_all2 (allowed_result W p (nr_stopped r \<noteq> StoppedReasonNone)) (fp_targets p) (nr_targets r)"
    by (simp add: r list_all2_conv_all_nth)
  moreover have "x = Inr r"
    using x rs made_r by (simp add: fleet_report_def)
  ultimately show thesis
    using that [of r] names none r made_r by simp blast
qed

text \<open>C17: The report of a run has exactly one result for each declared target, in declared order and under its
  name, whatever the schedule. Every result is one the target's own resolver and runner allow; one that is
  \<open>NOT_STARTED\<close> or \<open>CANCELLED\<close> occurs exactly when the run names a reason for which it stopped, and without
  such a reason every result is that of an uninterrupted run.\<close>

theorem fleet_run_reports:
  assumes "execute_fleet W p (Some c) started ended x" and "validate_params p = Inr ()"
    and "named_targets p" and "gives_reports W" and "clock_ok p started ended"
  shows "\<exists>r. x = Inr r \<and> map tr_id (nr_targets r) = map ft_id (fp_targets p)
    \<and> map tr_service (nr_targets r) = map ft_service (fp_targets p)
    \<and> list_all2 (allowed_result W p (nr_stopped r \<noteq> StoppedReasonNone)) (fp_targets p) (nr_targets r)
    \<and> (nr_stopped r = StoppedReasonNone \<longleftrightarrow> \<not> interrupted (nr_targets r))
    \<and> nr_concurrency r = fp_concurrency p \<and> nr_mode r = OutputModeLocalFull"
proof -
  have "0 < nat (fp_concurrency p)" using assms(2) by (auto simp: validate_params_def split: if_splits)
  from executes_reports [OF assms(1) [unfolded execute_fleet_def] assms(2) this assms(3-5)]
  show ?thesis by (metis \<open>0 < nat (fp_concurrency p)\<close> int_nat_eq nat_0_iff not_less_iff_gr_or_eq zero_less_nat_eq less_imp_le)
qed

text \<open>Every resolver and every runner answers in one way only.\<close>

definition one_answer :: "('c, 'r, 'k) fleet_world \<Rightarrow> bool" where
  "one_answer W \<longleftrightarrow> (\<forall>t a b. resolves W t a \<and> resolves W t b \<longrightarrow> a = b)
     \<and> (\<forall>q t k a b. runs W q t k a \<and> runs W q t k b \<longrightarrow> a = b)"

text \<open>An uninterrupted run gives a target the result of one answer.\<close>

definition answered :: "('c, 'r, 'k) fleet_world \<Rightarrow> ('c, 'r) fleet_params \<Rightarrow> 'c fleet_target
    \<Rightarrow> string option + string + run_outcome \<Rightarrow> bool" where
  "answered W p t v \<longleftrightarrow>
     (case v of
        Inl e \<Rightarrow> resolves W t (Inl e)
      | Inr y \<Rightarrow> \<exists>k q. resolves W t (Inr k) \<and> lookup_runner (fp_registry p) (ft_service t) = Some q \<and> runs W q t k y)"

definition answer_result :: "'c fleet_target \<Rightarrow> string option + string + run_outcome \<Rightarrow> target_result" where
  "answer_result t v =
     (case v of
        Inl e \<Rightarrow> must_failed (ft_id t) (fleet_service_id t) ExecutionErrorCredentialResolution (safe_message e)
      | Inr (Inl m) \<Rightarrow> must_failed (ft_id t) (fleet_service_id t) ExecutionErrorInternal m
      | Inr (Inr x) \<Rightarrow> classify_outcome False (ft_id t) (fleet_service_id t) x)"

lemma allowed_False: "allowed_result W p False t r \<Longrightarrow> \<exists>v. answered W p t v \<and> r = answer_result t v"
  unfolding allowed_result_def answered_def answer_result_def
  by (elim disjE exE conjE) (force split: sum.splits)+

lemma one_answer_unique:
  assumes "one_answer W" "answered W p t v" "answered W p t v'"
  shows "v = v'"
proof -
  have res: "resolves W t a \<Longrightarrow> resolves W t b \<Longrightarrow> a = b" for a b
    using assms(1) unfolding one_answer_def by blast
  have run: "runs W q t k a \<Longrightarrow> runs W q t k b \<Longrightarrow> a = b" for q k a b
    using assms(1) unfolding one_answer_def by blast
  show ?thesis
    using assms(2,3) by (auto simp: answered_def split: sum.splits dest: res run)
qed

lemma one_answer_uninterrupted:
  assumes "one_answer W" "allowed_result W p False t r" "allowed_result W p False t r'"
  shows "r = r'"
  using allowed_False [OF assms(2)] allowed_False [OF assms(3)] one_answer_unique [OF assms(1)] by blast

text \<open>C19: The worker pool agrees with the sequential reference: when every resolver and runner answers in one
  way only and neither run was stopped, both give the same results and the same summary.\<close>

theorem execute_agrees_sequential:
  assumes "execute_fleet W p (Some c) started ended (Inr r)"
    and "execute_sequential W p (Some c') started' ended' (Inr r')"
    and "validate_params p = Inr ()" and "named_targets p" and "gives_reports W" and "one_answer W"
    and "clock_ok p started ended" and "clock_ok p started' ended'"
    and "nr_stopped r = StoppedReasonNone" and "nr_stopped r' = StoppedReasonNone"
  shows "nr_targets r = nr_targets r' \<and> nr_summary r = nr_summary r'"
proof -
  have n: "0 < nat (fp_concurrency p)" using assms(3) by (auto simp: validate_params_def split: if_splits)
  obtain a where a: "Inr r = (Inr a :: fleet_error + run_report)"
      "list_all2 (allowed_result W p (nr_stopped a \<noteq> StoppedReasonNone)) (fp_targets p) (nr_targets a)"
      "nr_summary a = derive_run_summary (nr_targets a)"
    using executes_reports [OF assms(1) [unfolded execute_fleet_def] assms(3) n assms(4,5,7)] .
  obtain b where b: "Inr r' = (Inr b :: fleet_error + run_report)"
      "list_all2 (allowed_result W p (nr_stopped b \<noteq> StoppedReasonNone)) (fp_targets p) (nr_targets b)"
      "nr_summary b = derive_run_summary (nr_targets b)"
    using executes_reports [OF assms(2) [unfolded execute_sequential_def] assms(3) zero_less_one assms(4,5,8)] .
  have "list_all2 (allowed_result W p False) (fp_targets p) (nr_targets r)"
    "list_all2 (allowed_result W p False) (fp_targets p) (nr_targets r')"
    using a(1,2) b(1,2) assms(9,10) by simp_all
  then have "list_all2 (=) (nr_targets r) (nr_targets r')"
    using one_answer_uninterrupted [OF assms(6)] by (auto simp: list_all2_conv_all_nth)
  then have "nr_targets r = nr_targets r'" by (simp add: list.rel_eq)
  then show ?thesis using a(1,3) b(1,3) by simp
qed

subsection \<open>A small run\<close>

definition demo_world :: "(unit, unit, unit) fleet_world" where
  "demo_world = \<lparr>resolves = \<lambda>t a. a = Inl None, runs = \<lambda>q t k a. a = Inl ''no''\<rparr>"

definition demo_params :: "(unit, unit) fleet_params" where
  "demo_params = \<lparr>fp_targets = [\<lparr>ft_id = ''a'', ft_service = ''pg'', ft_timeout = 1, ft_config = ()\<rparr>],
     fp_concurrency = 2, fp_timeout = 0, fp_registry = Some \<lparr>rg_runners = [(''pg'', ())], rg_kinds = [''pg'']\<rparr>,
     fp_has_resolver = True, fp_version = ''1''\<rparr>"

definition demo_failed :: target_result where
  "demo_failed = must_failed ''a'' ''pg'' ExecutionErrorCredentialResolution (safe_message None)"

lemma demo_params_ok:
  "validate_params demo_params = Inr ()" "named_targets demo_params" "gives_reports demo_world"
  "one_answer demo_world" "answers demo_world" "clock_ok demo_params 1 2"
proof -
  have "service_id_valid ''pg''" by code_simp
  moreover have "is_ok (validate_identifier ''1'')"
    by (rule line_text_valid) (simp add: eval_text)
  ultimately show "validate_params demo_params = Inr ()" "named_targets demo_params" "gives_reports demo_world"
      "one_answer demo_world" "answers demo_world" "clock_ok demo_params 1 2"
    by (simp_all add: validate_params_def demo_params_def max_concurrency_def lookup_runner_def named_targets_def
        gives_reports_def one_answer_def answers_def demo_world_def clock_ok_def)
qed

definition demo_at :: "unit worker list \<Rightarrow> nat \<Rightarrow> bool \<Rightarrow> target_result \<Rightarrow> unit exec_state" where
  "demo_at ws i closed r = \<lparr>ex_workers = ws, ex_next = i, ex_closed = closed, ex_results = [r],
     ex_ctx = CtxLive, ex_expired = False\<rparr>"

lemma demo_steps:
  shows "fleet_step demo_world demo_params (demo_at (Waiting # ws) 0 False zero_target_result)
      (demo_at (Received 0 # ws) 1 False zero_target_result)"
    and "fleet_step demo_world demo_params (demo_at (Received 0 # ws) 1 False r) (demo_at (Resolving 0 # ws) 1 False r)"
    and "fleet_step demo_world demo_params (demo_at (Resolving 0 # ws) 1 False r) (demo_at (Waiting # ws) 1 False demo_failed)"
    and "fleet_step demo_world demo_params (demo_at ws 1 False r) (demo_at ws 1 True r)"
    and "w < length ws \<Longrightarrow> ws ! w = Waiting
      \<Longrightarrow> fleet_step demo_world demo_params (demo_at ws 1 True r) (demo_at (ws[w := Gone]) 1 True r)"
proof -
  note at = demo_at_def put_worker_def put_result_def demo_params_def demo_world_def
  show "fleet_step demo_world demo_params (demo_at (Waiting # ws) 0 False zero_target_result)
      (demo_at (Received 0 # ws) 1 False zero_target_result)"
    using dispatch_step.offer [of "demo_at (Waiting # ws) 0 False zero_target_result" demo_params 0]
    by (simp add: at fleet_step_def)
  show "fleet_step demo_world demo_params (demo_at (Received 0 # ws) 1 False r) (demo_at (Resolving 0 # ws) 1 False r)"
    using worker_step.start [of 0 "demo_at (Received 0 # ws) 1 False r" 0 demo_world demo_params]
    by (simp add: at fleet_step_def run_over_def)
  have "fleet_service_id (fp_targets demo_params ! 0) = ''pg''"
    by (simp add: fleet_service_id_def demo_params_def) code_simp
  then show "fleet_step demo_world demo_params (demo_at (Resolving 0 # ws) 1 False r) (demo_at (Waiting # ws) 1 False demo_failed)"
    using worker_step.unresolved [of 0 "demo_at (Resolving 0 # ws) 1 False r" 0 _ demo_params demo_world None]
    by (simp add: at fleet_step_def demo_failed_def)
  show "fleet_step demo_world demo_params (demo_at ws 1 False r) (demo_at ws 1 True r)"
    using dispatch_step.leave [of "demo_at ws 1 False r" demo_params] by (simp add: at fleet_step_def)
  show "w < length ws \<Longrightarrow> ws ! w = Waiting
      \<Longrightarrow> fleet_step demo_world demo_params (demo_at ws 1 True r) (demo_at (ws[w := Gone]) 1 True r)"
    using worker_step.finish [of w "demo_at ws 1 True r" demo_world demo_params] by (simp add: at fleet_step_def)
qed

lemma demo_execution:
  assumes "n = 1 \<or> n = 2"
  shows "executes demo_world demo_params (Some CtxLive) n 1 2
    (map_sum OfRunReport id (fleet_report demo_params n 1 2 CtxLive CtxLive False [demo_failed]))"
proof -
  let ?R = "(fleet_step demo_world demo_params)\<^sup>*\<^sup>*"
  define ws where "ws = replicate (n - 1) (Waiting :: unit worker)"
  have start: "exec_start n demo_params CtxLive = demo_at (Waiting # ws) 0 False zero_target_result"
    using assms by (auto simp: exec_start_def demo_at_def ws_def demo_params_def numeral_2_eq_2)
  have "?R (demo_at (Waiting # ws) 0 False zero_target_result) (demo_at (Waiting # ws) 1 False demo_failed)"
    using demo_steps(1-3) by (meson converse_rtranclp_into_rtranclp rtranclp.rtrancl_refl)
  also have "?R \<dots> (demo_at (Waiting # ws) 1 True demo_failed)"
    using demo_steps(4) by blast
  also have "?R \<dots> (demo_at (Gone # ws) 1 True demo_failed)"
    using demo_steps(5) [of 0 "Waiting # ws"] by auto
  also have "?R \<dots> (demo_at (replicate n Gone) 1 True demo_failed)"
    using assms demo_steps(5) [of 1 "[Gone, Waiting]"] by (auto simp: ws_def numeral_2_eq_2)
  finally have "?R (exec_start n demo_params CtxLive) (demo_at (replicate n Gone) 1 True demo_failed)"
    by (simp add: start)
  from executes.executed [OF demo_params_ok(1) this _ rtranclp.rtrancl_refl rtranclp.rtrancl_refl
      rtranclp.rtrancl_refl, of 1 2]
  show ?thesis by (simp add: demo_at_def pool_done_def list_all_iff run_over_def)
qed

theorem fleet_run_ends_witness:
  "\<exists>s. (fleet_step demo_world demo_params ^^ 1) (exec_start 1 demo_params CtxLive) s
     \<and> \<not> (\<not> pool_done s \<and> \<not> (\<exists>s'. dispatch_step demo_params s s' \<or> worker_step demo_world demo_params s s'))"
proof -
  have "(fleet_step demo_world demo_params ^^ 1) (exec_start 1 demo_params CtxLive)
      (demo_at [Received 0] 1 False zero_target_result)"
    using demo_steps(1) [of "[]"] by (auto simp: exec_start_def demo_at_def demo_params_def OO_def)
  from this fleet_run_ends [OF demo_params_ok(1,5) zero_less_one this] show ?thesis by blast
qed

lemma demo_reported: "\<exists>r. fleet_report demo_params n 1 2 CtxLive CtxLive False [demo_failed] = Inr r
    \<and> nr_stopped r = StoppedReasonNone" if "0 < n"
proof -
  have f: "made_result demo_failed" "tr_state demo_failed = ExecutionStateExecutionFailed"
    unfolding demo_failed_def using must_failed_state [OF internal_valid(2)] by blast+
  then have "\<not> target_result_is_zero demo_failed" using made_result_not_zero by blast
  moreover obtain u where "validate_identifier ''1'' = Inr u"
    using demo_params_ok(6) by (cases "validate_identifier ''1''") (auto simp: clock_ok_def demo_params_def)
  ultimately show ?thesis
    using f that by (simp add: fleet_report_def demo_params_def fill_result_def new_run_report_def
        output_mode_valid_def stopped_reason_of_def stopped_reason_valid_def check_results_Inr)
qed

theorem fleet_run_reports_witness:
  "\<exists>x r. execute_fleet demo_world demo_params (Some CtxLive) 1 2 x \<and> x = Inr r
     \<and> map tr_id (nr_targets r) = [''a'']"
proof -
  have x: "execute_fleet demo_world demo_params (Some CtxLive) 1 2
      (map_sum OfRunReport id (fleet_report demo_params 2 1 2 CtxLive CtxLive False [demo_failed]))"
    using demo_execution [of 2] by (simp add: execute_fleet_def demo_params_def)
  from x fleet_run_reports [OF x demo_params_ok(1-3,6)] show ?thesis
    by (auto simp: demo_params_def)
qed

theorem execute_agrees_sequential_witness:
  "\<exists>r r'. execute_fleet demo_world demo_params (Some CtxLive) 1 2 (Inr r)
     \<and> execute_sequential demo_world demo_params (Some CtxLive) 1 2 (Inr r') \<and> nr_targets r = nr_targets r'"
proof -
  obtain r where r: "fleet_report demo_params 2 1 2 CtxLive CtxLive False [demo_failed] = Inr r"
      "nr_stopped r = StoppedReasonNone" using demo_reported [of 2] by auto
  obtain r' where r': "fleet_report demo_params 1 1 2 CtxLive CtxLive False [demo_failed] = Inr r'"
      "nr_stopped r' = StoppedReasonNone" using demo_reported [of 1] by auto
  have "execute_fleet demo_world demo_params (Some CtxLive) 1 2 (Inr r)"
    using demo_execution [of 2] r by (simp add: execute_fleet_def demo_params_def)
  moreover have "execute_sequential demo_world demo_params (Some CtxLive) 1 2 (Inr r')"
    using demo_execution [of 1] r' by (simp add: execute_sequential_def)
  ultimately show ?thesis
    using execute_agrees_sequential [OF _ _ demo_params_ok(1-4,6,6) r(2) r'(2)] by blast
qed

end
