(* ===== verification/ExitCode.thy ===== *)
theory ExitCode
  imports RunReport
begin

text \<open>
  The exit codes of the command (\<open>internal/cli/exit.go\<close>): of a single diagnosis and of a run over many
  targets. An error is the list of the sentinels that \<open>errors.Is\<close> finds in its chain.
\<close>

datatype exit_sentinel = SentinelUsage | SentinelInvalidInput | SentinelConfig | SentinelResolution
  | SentinelPreflight

type_synonym cli_error = "exit_sentinel list"

definition exit_ok :: int where "exit_ok = 0"
definition exit_problems_found :: int where "exit_problems_found = 1"
definition exit_usage :: int where "exit_usage = 2"
definition exit_internal :: int where "exit_internal = 3"
definition exit_incomplete :: int where "exit_incomplete = 4"

lemmas exit_codes = exit_ok_def exit_problems_found_def exit_usage_def exit_internal_def exit_incomplete_def

record app_result =
  ar_report :: report
  ar_incomplete :: bool

definition exit_code :: "app_result \<Rightarrow> cli_error option \<Rightarrow> int" where
  "exit_code result err =
     (case err of
        Some e \<Rightarrow> if SentinelUsage \<in> set e \<or> SentinelInvalidInput \<in> set e then exit_usage else exit_internal
      | None \<Rightarrow>
          if ar_incomplete result then exit_incomplete
          else if sm_status (rp_summary (ar_report result)) = SummaryStatusProblemsFound then exit_problems_found
          else exit_ok)"

definition run_exit_code :: "run_report \<Rightarrow> cli_error option \<Rightarrow> int" where
  "run_exit_code r err =
     (case err of
        Some e \<Rightarrow>
          if SentinelUsage \<in> set e \<or> SentinelInvalidInput \<in> set e \<or> SentinelConfig \<in> set e
            \<or> SentinelResolution \<in> set e \<or> SentinelPreflight \<in> set e
          then exit_usage else exit_internal
      | None \<Rightarrow>
          if run_report_is_zero r then exit_internal
          else if rn_incomplete (nr_summary r) then exit_incomplete
          else if rn_status (nr_summary r) = SummaryStatusProblemsFound then exit_problems_found
          else exit_ok)"

text \<open>A target that was diagnosed to the end.\<close>

definition fully_diagnosed :: "target_result \<Rightarrow> bool" where
  "fully_diagnosed x \<longleftrightarrow> tr_state x = ExecutionStateCompleted \<and> \<not> tr_incomplete x"

lemma made_incomplete:
  assumes "made_result x"
  shows "(tr_state x \<in> {ExecutionStateNotStarted, ExecutionStateCancelled, ExecutionStateExecutionFailed}
      \<or> has_report x \<and> tr_incomplete x) \<longleftrightarrow> \<not> fully_diagnosed x"
  using made_result_cases [OF assms] by (auto simp: fully_diagnosed_def)

lemma made_run_incomplete:
  assumes "\<forall>x\<in>set rs. made_result x"
  shows "rn_incomplete (derive_run_summary rs) \<longleftrightarrow> \<not> list_all fully_diagnosed rs"
    and "rn_status (derive_run_summary rs) = (if list_ex has_problems rs then SummaryStatusProblemsFound else SummaryStatusOK)"
proof -
  show "rn_incomplete (derive_run_summary rs) \<longleftrightarrow> \<not> list_all fully_diagnosed rs"
    using assms made_incomplete by (simp add: derive_run_summary_eq list_ex_iff list_all_iff)
  show "rn_status (derive_run_summary rs) = (if list_ex has_problems rs then SummaryStatusProblemsFound else SummaryStatusOK)"
    by (simp add: derive_run_summary_eq)
qed

text \<open>The exit code of a run that reported says which of three things happened: some target was
  not diagnosed to the end, or every one was and one has problems, or every one was and none has.\<close>

lemma run_exit_code_exact:
  assumes "new_run_report i = Inr r" and "\<forall>x\<in>set (nr_targets r). made_result x"
  shows "run_exit_code r None =
    (if \<not> list_all fully_diagnosed (nr_targets r) then exit_incomplete
     else if list_ex has_problems (nr_targets r) then exit_problems_found else exit_ok)"
proof -
  have s: "nr_summary r = derive_run_summary (nr_targets r)" "nr_targets r \<noteq> []"
    using assms(1) by (auto simp: new_run_report_def rbind_Inr_iff split: if_splits sum.splits)
  then have "\<not> run_report_is_zero r" by (simp add: run_report_is_zero_def)
  then show ?thesis
    unfolding run_exit_code_def s(1) using made_run_incomplete [OF assms(2)] by simp
qed

end
