(* ===== verification/Pipeline.thy ===== *)
theory Pipeline
  imports Engine RedactRun Fleet ExitCode
begin

text \<open>
  How the parts compose: from the rules through the report to the exit code of one diagnosis, and from the
  worker pool through the aggregate and its redaction to the exit code of a run.
\<close>

subsection \<open>From the rules to the report\<close>

lemma diagnosis_report:
  assumes "registry_wf rs" "rules_sound rs ctx"
    and "graph_wf (ctx_graph ctx)"
    and "\<forall>r\<in>set rs. \<forall>f\<in>set (output_of ctx r). refs_recorded (ctx_graph ctx) f"
    and "\<not> run_is_zero run" "\<not> target_is_zero target" "\<not> vantage_is_zero vantage" "\<not> security_is_zero sec"
    and "i = \<lparr>ri_run = run, ri_target = target, ri_vantage = vantage, ri_graph = ctx_graph ctx,
      ri_findings = oc_findings (evaluate rs ctx), ri_security = sec\<rparr>"
  shows "\<exists>rep. new_report i = Inr rep \<and> made_report rep \<and> rp_findings rep = oc_findings (evaluate rs ctx)
    \<and> (sm_status (rp_summary rep) = SummaryStatusProblemsFound
        \<longleftrightarrow> (\<exists>r\<in>set rs. \<exists>f\<in>set (output_of ctx r). is_problem f))"
proof -
  obtain parts where p: "oc_findings (evaluate rs ctx) = sort_findings (map merge_of parts)"
    "\<And>p. p \<in> set parts \<Longrightarrow> made_from (merge_of p) (set p) \<and> finding_made (merge_of p)"
    "(\<Union>p\<in>set parts. set p) = (\<Union>r\<in>set rs. set (output_of ctx r))"
    using evaluate_parts [OF assms(1,2)] by blast
  have in_out: "set (oc_findings (evaluate rs ctx)) = merge_of ` set parts"
    by (auto simp: p(1) sort_findings_def)
  have "finding_made f \<and> refs_recorded (ctx_graph ctx) f" if f: "f \<in> set (oc_findings (evaluate rs ctx))" for f
  proof -
    obtain q where q: "q \<in> set parts" "f = merge_of q" using f unfolding in_out by blast
    have "set q \<subseteq> (\<Union>r\<in>set rs. set (output_of ctx r))" using p(3) q(1) by blast
    then show ?thesis using p(2) [OF q(1)] made_fromD(2) assms(4) q(2) unfolding refs_recorded_def by fastforce
  qed
  note ok = this
  have "\<not> finding_is_zero f \<and> (\<forall>a\<in>set (f_recs f). rec_wf a)" if "finding_made f" for f
    using that finding_wf_not_zero by (auto simp: finding_made_def)
  then have "report_parts_ok i" using assms(5-9) ok by (simp add: report_parts_ok_def)
  then obtain rep where rep: "new_report i = Inr rep" "rp_findings rep = sort_findings (oc_findings (evaluate rs ctx))"
      "rp_summary rep = derive_summary (ctx_graph ctx) (sort_findings (oc_findings (evaluate rs ctx)))"
    using ok unfolding new_report_eq by (simp add: assms(9))
  have "sort_findings (oc_findings (evaluate rs ctx)) = oc_findings (evaluate rs ctx)"
    by (simp add: p(1) sort_findings_def finding_order.go_sort_idem)
  moreover have "graph_wf (ri_graph i) \<and> (\<forall>f\<in>set (ri_findings i). \<forall>a\<in>set (f_recs f). rec_wf a)"
    using assms(3) ok by (simp add: assms(9) finding_made_def)
  then have "made_report rep"
    unfolding made_report_def using rep(1) by blast
  moreover have problem: "is_problem f \<longleftrightarrow> SeverityError \<le> f_severity f" if "finding_made f" for f
    using that by (cases "f_severity f")
      (auto simp: is_problem_def finding_made_def finding_wf_def finding_fields_ok_def severity_valid_def less_eq_severity_def)
  have "(\<exists>f\<in>set (oc_findings (evaluate rs ctx)). is_problem f)
      \<longleftrightarrow> (\<exists>r\<in>set rs. \<exists>f\<in>set (output_of ctx r). is_problem f)" (is "?L \<longleftrightarrow> ?R")
  proof
    assume ?L
    then obtain q where q: "q \<in> set parts" "is_problem (merge_of q)" unfolding in_out by blast
    have "f_severity (merge_of q) \<in> f_severity ` set q"
      by (rule made_fromD(3)) (simp add: p(2) [OF q(1)])
    then obtain f where f: "f_severity (merge_of q) = f_severity f" "f \<in> set q" by (rule imageE)
    then have "f \<in> (\<Union>r\<in>set rs. set (output_of ctx r))" using p(3) q(1) by blast
    then show ?R using f q(2) by (auto simp: is_problem_def)
  next
    assume ?R
    then obtain f where f: "f \<in> (\<Union>r\<in>set rs. set (output_of ctx r))" "is_problem f" by blast
    then obtain q where q: "q \<in> set parts" "f \<in> set q" using p(3) by blast
    then have "f_severity f \<le> f_severity (merge_of q)"
      using p(2) [OF q(1)] unfolding made_from_def carries_def by blast
    moreover have "finding_made f" using f(1) assms(2) by (auto simp: rules_sound_def)
    ultimately have "is_problem (merge_of q)" using f(2) problem p(2) [OF q(1)] by fastforce
    then show ?L using q(1) unfolding in_out by blast
  qed
  ultimately show ?thesis
    using rep derive_summary_eq [OF assms(3)] by (simp add: list_ex_iff)
qed

lemma redact_same_status:
  assumes "made_report r" "redact order r = Inr out"
  shows "rp_summary out = rp_summary r"
proof (cases "rs_mode (rp_security r) = OutputModeShareableRedacted")
  case True
  then show ?thesis using assms by (auto simp: redact_def split: if_splits)
next
  case False
  obtain t u where "redact_with t r fresh_usage = Inr (out, u)"
    using redact_Inr [OF assms(2) False] by blast
  then show ?thesis using redact_with_keeps [OF assms(1)] by (simp add: same_diagnosis_def)
qed

text \<open>C6: One diagnosis from its rules to its exit code. For a well-formed registry of rules whose outputs are made
  findings that cite recorded evidence, over a frozen graph, the report of the converged findings can be made. The
  result the run builds from it exits with the code for an incomplete run exactly when the run was cut short or some
  rule panicked; otherwise it exits with the code for problems exactly when some rule gave a finding of severity
  ERROR or CRITICAL, so merging, sorting and summarising neither add nor lose one. The redacted report of that
  result exits with the same code.\<close>

theorem diagnosis_exit_code:
  assumes "registry_wf rs" and "rules_sound rs ctx" and "graph_wf (ctx_graph ctx)"
    and "\<forall>r\<in>set rs. \<forall>f\<in>set (output_of ctx r). refs_recorded (ctx_graph ctx) f"
    and "\<not> run_is_zero run" and "\<not> target_is_zero target" and "\<not> vantage_is_zero vantage"
    and "\<not> security_is_zero sec"
    and "i = \<lparr>ri_run = run, ri_target = target, ri_vantage = vantage, ri_graph = ctx_graph ctx,
      ri_findings = oc_findings (evaluate rs ctx), ri_security = sec\<rparr>"
    and "result = (\<lambda>rep. \<lparr>ar_report = rep, ar_incomplete = ctx_incomplete ctx \<or> outcome_failed (evaluate rs ctx)\<rparr>)"
  shows "\<exists>rep. new_report i = Inr rep
    \<and> exit_code (result rep) None
        = (if ctx_incomplete ctx \<or> (\<exists>r\<in>set rs. panicked ctx r) then exit_incomplete
           else if \<exists>r\<in>set rs. \<exists>f\<in>set (output_of ctx r). is_problem f then exit_problems_found else exit_ok)
    \<and> (\<forall>order out. redact order rep = Inr out \<longrightarrow> exit_code (result out) None = exit_code (result rep) None)"
proof -
  obtain rep where rep: "new_report i = Inr rep" "made_report rep"
      "sm_status (rp_summary rep) = SummaryStatusProblemsFound
        \<longleftrightarrow> (\<exists>r\<in>set rs. \<exists>f\<in>set (output_of ctx r). is_problem f)"
    using diagnosis_report [OF assms(1-9)] by blast
  moreover have "\<forall>order out. redact order rep = Inr out \<longrightarrow> rp_summary out = rp_summary rep"
    using redact_same_status [OF rep(2)] by blast
  moreover have "outcome_failed (evaluate rs ctx) \<longleftrightarrow> (\<exists>r\<in>set rs. panicked ctx r)"
    using evaluate_eq [OF assms(1,2)] by (auto simp: outcome_failed_def filter_empty_conv)
  ultimately show ?thesis by (simp add: exit_code_def assms(10))
qed

definition demo_result :: "registry \<Rightarrow> report \<Rightarrow> app_result" where
  "demo_result rs rep = \<lparr>ar_report = rep,
     ar_incomplete = ctx_incomplete demo_context \<or> outcome_failed (evaluate rs demo_context)\<rparr>"

lemma demo_registries: "registry_wf rs \<and> rules_sound rs ctx" if "rs = demo_registry \<or> rs = butlast demo_registry"
  using that demo_registry_ok(1) demo_registry_ok(2) [of ctx]
  by (auto simp: registry_wf_def registry_ids_def rules_sound_def demo_registry_def)

lemma demo_judged:
  assumes "rs = demo_registry \<or> rs = butlast demo_registry"
  shows "graph_wf (ctx_graph demo_context)"
    and "\<forall>r\<in>set rs. \<forall>f\<in>set (output_of demo_context r). refs_recorded (ctx_graph demo_context) f"
    and "\<exists>r\<in>set rs. \<exists>f\<in>set (output_of demo_context r). is_problem f"
    and "(\<exists>r\<in>set rs. panicked demo_context r) \<longleftrightarrow> rs = demo_registry"
    and "\<not> ctx_incomplete demo_context"
  using assms demo_graph_wf
  by (auto simp: demo_registry_def output_of_def panicked_def evaluate_one_def demo_rule_def panicking_rule_def
      demo_context_def is_problem_def eval_report)

text \<open>The registry with the rule that panics gives an incomplete run; without that rule the run reports the
  problem the other rule found.\<close>

theorem diagnosis_exit_code_witness:
  "(\<exists>rep. new_report (demo_report_input (oc_findings (evaluate demo_registry demo_context))) = Inr rep
      \<and> exit_code (demo_result demo_registry rep) None = exit_incomplete)
   \<and> (\<exists>rep. new_report (demo_report_input (oc_findings (evaluate (butlast demo_registry) demo_context))) = Inr rep
      \<and> exit_code (demo_result (butlast demo_registry) rep) None = exit_problems_found)"
proof -
  have run: "\<exists>rep. new_report (demo_report_input (oc_findings (evaluate rs demo_context))) = Inr rep
      \<and> exit_code (demo_result rs rep) None = (if rs = demo_registry then exit_incomplete else exit_problems_found)"
    if rs: "rs = demo_registry \<or> rs = butlast demo_registry" for rs
  proof -
    let ?i = "demo_report_input (oc_findings (evaluate rs demo_context))"
    have z: "\<not> run_is_zero (ri_run ?i)" "\<not> target_is_zero (ri_target ?i)" "\<not> vantage_is_zero (ri_vantage ?i)"
      "\<not> security_is_zero (ri_security ?i)"
      by (simp_all add: eval_report)
    have i: "?i = \<lparr>ri_run = ri_run ?i, ri_target = ri_target ?i, ri_vantage = ri_vantage ?i,
        ri_graph = ctx_graph demo_context, ri_findings = oc_findings (evaluate rs demo_context),
        ri_security = ri_security ?i\<rparr>"
      by (simp add: demo_report_input_def demo_context_def)
    have result: "demo_result rs = (\<lambda>rep. \<lparr>ar_report = rep,
        ar_incomplete = ctx_incomplete demo_context \<or> outcome_failed (evaluate rs demo_context)\<rparr>)"
      by (simp add: fun_eq_iff demo_result_def)
    from demo_registries [OF rs] have "registry_wf rs" "rules_sound rs demo_context" by simp_all
    from diagnosis_exit_code [OF this demo_judged(1,2) [OF rs] z i result]
    show ?thesis unfolding demo_judged(4) [OF rs] using demo_judged(3,5) [OF rs] by auto
  qed
  have "butlast demo_registry \<noteq> demo_registry" by (simp add: demo_registry_def)
  then show ?thesis using run [of demo_registry] run [of "butlast demo_registry"] by simp
qed

subsection \<open>From the worker pool to the exit code\<close>

text \<open>Runners report what the report constructor made.\<close>

definition makes_reports :: "('c, 'r, 'k) fleet_world \<Rightarrow> bool" where
  "makes_reports W \<longleftrightarrow> (\<forall>q t k x. runs W q t k (Inr x) \<longrightarrow> made_report (ro_report x))"

lemma makes_reports_gives: "makes_reports W \<Longrightarrow> gives_reports W"
  using made_reportD(4) unfolding makes_reports_def gives_reports_def by blast

lemma allowed_made_report:
  assumes "makes_reports W" "allowed_result W p over t r" "has_report r"
  shows "made_report (tr_report r)"
proof -
  have none: "\<not> has_report y" if "made_result y" "tr_state y \<in> {ExecutionStateNotStarted, ExecutionStateExecutionFailed}" for y
    using made_resultD [OF that(1)] that(2) by auto
  have f: "\<not> has_report (must_failed i s c m)" if "execution_error_class_valid c" for i s c m
    using none must_failed_state [OF that] by blast
  have n: "\<not> has_report (must_not_started i s)" for i s
    using none must_not_started_state by blast
  have c: "tr_report (classify_outcome b i s x) = ro_report x" if "has_report (classify_outcome b i s x)" for b i s x
    using that f [OF internal_valid(1)]
    by (auto simp: classify_outcome_def cancelled_target_def completed_target_def report_bearing_target_def
        rbind_Inr_iff split: sum.splits if_splits)
  from assms(2,3) obtain k q x b where "runs W q t k (Inr x)" "r = classify_outcome b (ft_id t) (fleet_service_id t) x"
    using f internal_valid n unfolding allowed_result_def by blast
  then show ?thesis using c assms(1,3) unfolding makes_reports_def by metis
qed

text \<open>A target diagnosed to the end without problems: its credential was resolved, its runner gave a complete
  report, and the result carries that report.\<close>

definition diagnosed_well :: "('c, 'r, 'k) fleet_world \<Rightarrow> ('c, 'r) fleet_params \<Rightarrow> 'c fleet_target
    \<Rightarrow> target_result \<Rightarrow> bool" where
  "diagnosed_well W p t y \<longleftrightarrow>
     (\<exists>k q x. resolves W t (Inr k) \<and> lookup_runner (fp_registry p) (ft_service t) = Some q
        \<and> runs W q t k (Inr x) \<and> \<not> ro_incomplete x
        \<and> completed_target (ft_id t) (ft_service t) (ro_report x) False = Inr y
        \<and> sm_status (rp_summary (ro_report x)) \<noteq> SummaryStatusProblemsFound)"

lemma diagnosed_well_result:
  assumes "ft_id t \<noteq> []" "service_id_valid (ft_service t)" "gives_reports W" "allowed_result W p over t y"
  shows "diagnosed_well W p t y \<longleftrightarrow> fully_diagnosed y \<and> \<not> has_problems y"
proof
  assume "diagnosed_well W p t y"
  then show "fully_diagnosed y \<and> \<not> has_problems y"
    by (auto simp: diagnosed_well_def fully_diagnosed_def has_problems_def result_constructors split: if_splits)
next
  assume y: "fully_diagnosed y \<and> \<not> has_problems y"
  then have st: "tr_state y = ExecutionStateCompleted" by (simp add: fully_diagnosed_def)
  moreover have "tr_state (must_failed i s c m) = ExecutionStateExecutionFailed"
    if "execution_error_class_valid c" for i s c m
    using must_failed_state [OF that] by blast
  moreover have "tr_state (must_not_started i s) \<noteq> ExecutionStateCompleted" for i s
    using must_not_started_state [of i s] by auto
  ultimately obtain k q x b where x: "resolves W t (Inr k)"
      "lookup_runner (fp_registry p) (ft_service t) = Some q" "runs W q t k (Inr x)"
      "y = classify_outcome b (ft_id t) (ft_service t) x"
    using assms(4) internal_valid unfolding allowed_result_def fleet_service_id_valid [OF assms(2)] by fastforce
  have r: "\<not> report_is_zero (ro_report x)" using assms(3) x(3) unfolding gives_reports_def by blast
  then have c: "\<not> (b \<and> ro_incomplete x)"
    using st x(4) assms(1,2) by (auto simp: classify_outcome_def cancelled_target_def report_bearing_target_def
        check_target_identity_def)
  then have "completed_target (ft_id t) (ft_service t) (ro_report x) (ro_incomplete x) = Inr y"
    using x(4) [unfolded classify_outcome_def if_not_P [OF c]] r assms(1,2)
    by (simp add: completed_target_def report_bearing_target_def check_target_identity_def)
  moreover from this have "tr_incomplete y = ro_incomplete x" "tr_report y = ro_report x"
    by (auto simp: result_constructors split: if_splits)
  ultimately show "diagnosed_well W p t y"
    using x(1-3) y r by (auto simp: diagnosed_well_def fully_diagnosed_def has_problems_def has_report_def)
qed

text \<open>C5: The exit code of a run is never a guess. However the pool was scheduled, a run that reports exits
  with 0 exactly when for every declared target the credential was resolved and the runner gave a
  complete report without problems; with 4 exactly when some target was not diagnosed to the end; and
  the redacted report of the run exits with the same code.\<close>

theorem fleet_exit_code:
  assumes "execute_fleet W p (Some c) started ended x" and "validate_params p = Inr ()"
    and "named_targets p" and "makes_reports W" and "clock_ok p started ended"
  shows "\<exists>r. x = Inr r
    \<and> (run_exit_code r None = exit_ok \<longleftrightarrow> list_all2 (diagnosed_well W p) (fp_targets p) (nr_targets r))
    \<and> (run_exit_code r None = exit_incomplete \<longleftrightarrow> \<not> list_all fully_diagnosed (nr_targets r))
    \<and> (\<forall>order out. redact_run order r = Inr out \<longrightarrow> run_exit_code out None = run_exit_code r None)"
proof -
  have n: "0 < nat (fp_concurrency p)" using assms(2) by (auto simp: validate_params_def split: if_splits)
  obtain r where r: "x = Inr r"
      "list_all2 (allowed_result W p (nr_stopped r \<noteq> StoppedReasonNone)) (fp_targets p) (nr_targets r)"
      "\<exists>i. new_run_report i = Inr r" "nr_mode r = OutputModeLocalFull"
    using executes_reports [OF assms(1) [unfolded execute_fleet_def] assms(2) n assms(3)
      makes_reports_gives [OF assms(4)] assms(5)] by metis
  have len: "length (nr_targets r) = length (fp_targets p)" using list_all2_lengthD [OF r(2)] by simp
  have at: "ft_id (fp_targets p ! i) \<noteq> []" "service_id_valid (ft_service (fp_targets p ! i))"
    "allowed_result W p (nr_stopped r \<noteq> StoppedReasonNone) (fp_targets p ! i) (nr_targets r ! i)"
    if "i < length (fp_targets p)" for i
    using assms(3) that list_all2_nthD [OF r(2)] by (simp_all add: named_targets_def list_all_length)
  have made: "\<forall>y\<in>set (nr_targets r). made_result y \<and> (has_report y \<longrightarrow> made_report (tr_report y))"
    using at(3) allowed_result_made allowed_made_report [OF assms(4)] len by (metis in_set_conv_nth)
  then have code: "run_exit_code r None =
    (if \<not> list_all fully_diagnosed (nr_targets r) then exit_incomplete
     else if list_ex has_problems (nr_targets r) then exit_problems_found else exit_ok)"
    using r(3) run_exit_code_exact by blast
  have "list_all2 (diagnosed_well W p) (fp_targets p) (nr_targets r)
      \<longleftrightarrow> list_all fully_diagnosed (nr_targets r) \<and> \<not> list_ex has_problems (nr_targets r)"
    using diagnosed_well_result [OF at(1,2) makes_reports_gives [OF assms(4)] at(3)] len
    by (auto simp: list_all2_conv_all_nth list_all_length list_ex_length)
  moreover have "run_exit_code out None = run_exit_code r None" if "redact_run order r = Inr out" for order out
  proof -
    have m: "made_run r" using r(3) made unfolding made_run_def by blast
    have "nr_mode r \<noteq> OutputModeShareableRedacted" using r(4) by simp
    note S = redact_run_same [OF m that this]
    have "nr_targets out \<noteq> []" "nr_targets r \<noteq> []"
      using S(2) m by (auto simp: made_run_def new_run_report_def rbind_Inr_iff split: if_splits sum.splits)
    then show ?thesis using S(3) by (simp add: run_exit_code_def run_report_is_zero_def)
  qed
  ultimately show ?thesis using r(1) code by (simp add: exit_codes)
qed

theorem fleet_exit_code_witness:
  "\<exists>x r. execute_fleet demo_world demo_params (Some CtxLive) 1 2 x \<and> x = Inr r
     \<and> (run_exit_code r None = exit_ok \<longleftrightarrow> list_all2 (diagnosed_well demo_world demo_params) (fp_targets demo_params) (nr_targets r))"
proof -
  have x: "execute_fleet demo_world demo_params (Some CtxLive) 1 2
      (map_sum OfRunReport id (fleet_report demo_params 2 1 2 CtxLive CtxLive False [demo_failed]))"
    using demo_execution [of 2] by (simp add: execute_fleet_def demo_params_def)
  have "makes_reports demo_world" by (simp add: makes_reports_def demo_world_def)
  from x fleet_exit_code [OF x demo_params_ok(1,2) this demo_params_ok(6)] show ?thesis by blast
qed

end
