(* ===== verification/RuleText.thy ===== *)
theory RuleText
  imports Prose Advice
begin

text \<open>
  The prose of the diagnosis rules. The texts are ASCII but for the em dash, so that what the validators of
  \<open>internal/domain\<close> ask of a text, that it is UTF-8 without control characters and without blanks around it, is
  decided by one pass over its characters. A rule's texts then satisfy the constructors by evaluation, and the
  suggestions it makes are those that \<open>recommend_exact\<close> lets through.
\<close>

definition newline :: string where
  "newline = [CHR 0x0A]"

definition em_dash :: string where
  "em_dash = [CHR 0xE2, CHR 0x80, CHR 0x94]"

subsection \<open>Dashed texts\<close>

fun dashed :: "(char \<Rightarrow> bool) \<Rightarrow> string \<Rightarrow> bool" where
  "dashed ok [] = True"
| "dashed ok [c] = ok c"
| "dashed ok [c, d] = (ok c \<and> ok d)"
| "dashed ok (c # d # e # cs) =
     (if c = CHR 0xE2 then d = CHR 0x80 \<and> e = CHR 0x94 \<and> dashed ok cs
      else ok c \<and> dashed ok (d # e # cs))"

definition rule_line :: "string \<Rightarrow> bool" where
  "rule_line s \<longleftrightarrow> edges_printable s \<and> code (hd s) < 127 \<and> code (last s) < 127 \<and> dashed line_char s"

definition rule_text :: "string \<Rightarrow> bool" where
  "rule_text s \<longleftrightarrow> edges_printable s \<and> code (hd s) < 127 \<and> code (last s) < 127 \<and> dashed text_char s"

lemma dashed_cons: "c \<noteq> CHR 0xE2 \<Longrightarrow> dashed ok (c # cs) \<longleftrightarrow> ok c \<and> dashed ok cs"
  by (cases cs rule: remdups_adj.cases) auto

lemma dashed_mono: "dashed p s \<Longrightarrow> (\<And>c. p c \<Longrightarrow> q c) \<Longrightarrow> dashed q s"
  by (induction p s rule: dashed.induct) (auto split: if_splits)

lemma decode_dash: "decode_rune (0xE2 # 0x80 # 0x94 # bs) = (8212, 3)"
  by (simp add: decode_rune_def decode_multi_def decode_three_def continuation_def)

lemma runes_dash: "runes (CHR 0xE2 # CHR 0x80 # CHR 0x94 # cs) = (8212, [CHR 0xE2, CHR 0x80, CHR 0x94]) # runes cs"
  by (simp add: decode_dash)

text \<open>The runes of such a text are dashes and single characters.\<close>

definition plain_rune :: "(char \<Rightarrow> bool) \<Rightarrow> nat \<times> string \<Rightarrow> bool" where
  "plain_rune ok rb \<longleftrightarrow> rb = (8212, em_dash) \<or> (\<exists>c. ok c \<and> rb = (code c, [c]))"

lemma dashed_runes:
  assumes "dashed ok s" "\<And>c. ok c \<Longrightarrow> code c < 127"
  shows "list_all (plain_rune ok) (runes s)"
  using assms
proof (induction ok s rule: dashed.induct)
  case (4 ok c d e cs)
  show ?case
  proof (cases "c = CHR 0xE2")
    case True
    then have "d = CHR 0x80" "e = CHR 0x94" "dashed ok cs" using 4(3) by simp_all
    then have "list_all (plain_rune ok) (runes cs)" using True 4 by blast
    then show ?thesis
      using True \<open>d = _\<close> \<open>e = _\<close> runes_dash [of cs] by (simp del: runes.simps) (simp add: plain_rune_def em_dash_def)
  next
    case False
    then have "ok c" "dashed ok (d # e # cs)" using 4(3) by simp_all
    moreover have "code c < 128" using \<open>ok c\<close> 4(4) [of c] by simp
    then have "runes (c # d # e # cs) = (code c, [c]) # runes (d # e # cs)"
      by (simp del: runes.simps(2) add: runes.simps(2) [of c] decode_rune_ascii)
    moreover have "list_all (plain_rune ok) (runes (d # e # cs))"
      using False 4 \<open>dashed ok (d # e # cs)\<close> by blast
    ultimately show ?thesis by (simp del: runes.simps) (auto simp: plain_rune_def)
  qed
next
  case (2 ok c)
  then have "code c < 128" by fastforce
  then show ?case using 2 by (simp add: decode_rune_ascii) (auto simp: plain_rune_def)
next
  case (3 ok c d)
  then have "code c < 128" "code d < 128" by fastforce+
  then show ?case using 3 by (simp add: decode_rune_ascii) (auto simp: plain_rune_def)
qed simp

lemma text_char_code: "text_char c \<Longrightarrow> code c < 127" "line_char c \<Longrightarrow> code c < 127"
  by (auto simp: text_char_def line_char_def)

lemma hd_runes: "s \<noteq> [] \<Longrightarrow> code (hd s) < 128 \<Longrightarrow> hd (runes s) = (code (hd s), [hd s])"
  by (cases s) (auto simp: decode_rune_ascii)

lemma last_concat: "xss \<noteq> [] \<Longrightarrow> last xss \<noteq> [] \<Longrightarrow> last (concat xss) = last (last xss)"
  by (cases xss rule: rev_cases) auto

lemma last_runes:
  assumes "dashed text_char s" "s \<noteq> []" "code (last s) < 127"
  shows "last (runes s) = (code (last s), [last s])"
proof -
  have ne: "runes s \<noteq> []" using assms(2) by simp
  then have p: "plain_rune text_char (last (runes s))"
    using dashed_runes [OF assms(1) text_char_code(1)] by (auto simp: list_all_iff)
  then have "snd (last (runes s)) \<noteq> []" by (auto simp: plain_rune_def em_dash_def)
  then have l: "last s = last (snd (last (runes s)))"
    using last_concat [of "map snd (runes s)"] ne by (simp add: runes_concat last_map)
  then show ?thesis
    using p assms(3) by (auto simp: plain_rune_def em_dash_def)
qed

lemma rule_text_dashed: "rule_text s \<Longrightarrow> dashed text_char s"
  by (simp add: rule_text_def)

lemma rule_line_text: "rule_line s \<Longrightarrow> rule_text s"
  by (auto simp: rule_line_def rule_text_def text_char_def elim!: dashed_mono)

lemma trim_space_rule:
  assumes "rule_text s"
  shows "trim_space s = s"
proof -
  have ne: "s \<noteq> []" and d: "dashed text_char s"
    and h: "32 \<le> code (hd s)" "code (hd s) < 127" "hd s \<noteq> CHR '' ''"
    and l: "32 \<le> code (last s)" "code (last s) < 127" "last s \<noteq> CHR '' ''"
    using assms by (auto simp: rule_text_def edges_printable_def)
  have space: "\<not> rune_is_space (code c)" if "32 \<le> code c" "code c < 127" "c \<noteq> CHR '' ''" for c
    using text_edge_not_space [of c] that by (auto simp: text_char_def line_char_def)
  have "hd (runes s) = (code (hd s), [hd s])" "last (runes s) = (code (last s), [last s])"
    using hd_runes [OF ne] last_runes [OF d ne l(2)] h by simp_all
  then have "dropWhile (rune_is_space \<circ> fst) (runes s) = runes s"
    "dropWhile (rune_is_space \<circ> fst) (rev (runes s)) = rev (runes s)"
    using ne space [OF h] space [OF l] by (auto simp: dropWhile_eq_self_iff hd_rev)
  then show ?thesis
    by (simp add: trim_space_def runes_concat)
qed

lemma dashed_valid_utf8:
  assumes "dashed text_char s"
  shows "valid_utf8 s"
  using dashed_runes [OF assms text_char_code(1)]
  by (auto simp: valid_utf8_def list_all_iff plain_rune_def em_dash_def rune_error_def dest!: bspec text_char_code(1))

lemma rule_text_valid:
  assumes "rule_text s"
  shows "is_ok (validate_prose s)"
proof -
  have "\<not> any_rune (\<lambda>r. r \<noteq> 10 \<and> rune_is_control r) s"
    using dashed_runes [OF rule_text_dashed [OF assms] text_char_code(1)]
    by (auto simp: any_rune_def list_ex_iff list_all_iff plain_rune_def text_char_def line_char_def
        rune_is_control_def dest!: bspec)
  moreover have "s \<noteq> []" using assms by (simp add: rule_text_def edges_printable_def)
  ultimately show ?thesis
    using dashed_valid_utf8 [OF rule_text_dashed [OF assms]] trim_space_rule [OF assms]
    by (simp add: validate_prose_def)
qed

lemma rule_line_valid:
  assumes "rule_line s"
  shows "is_ok (validate_identifier s)"
proof -
  have "dashed line_char s" using assms by (simp add: rule_line_def)
  then have "\<not> any_rune rune_is_control s"
    using dashed_runes [OF \<open>dashed line_char s\<close> text_char_code(2)]
    by (auto simp: any_rune_def list_ex_iff list_all_iff plain_rune_def line_char_def
        rune_is_control_def dest!: bspec)
  moreover have "s \<noteq> []" using assms by (simp add: rule_line_def edges_printable_def)
  ultimately show ?thesis
    using dashed_valid_utf8 [OF rule_text_dashed [OF rule_line_text [OF assms]]]
      trim_space_rule [OF rule_line_text [OF assms]]
    by (simp add: validate_identifier_ok)
qed

subsection \<open>Suggestions\<close>

text \<open>A flag at the start of a word, on characters: a rule's texts are blank-separated.\<close>

fun char_flags :: "bool \<Rightarrow> string \<Rightarrow> bool" where
  "char_flags start [] = False"
| "char_flags start (c # cs) \<longleftrightarrow>
     start \<and> c = CHR ''-'' \<and> (cs = [] \<or> hd cs \<noteq> CHR ''-'') \<or> char_flags (c = CHR '' '') cs"

definition word_char :: "char \<Rightarrow> bool" where
  "word_char c \<longleftrightarrow> is_lower c \<or> is_upper c \<or> c = CHR ''-''"

definition lower_char :: "char \<Rightarrow> char" where
  "lower_char c = (if is_upper c then char_of (code c + 32) else c)"

definition action_char :: "char \<Rightarrow> bool" where
  "action_char c \<longleftrightarrow> line_char c \<and> c \<notin> set shell_metacharacters"

definition plain_word :: "string \<Rightarrow> bool" where
  "plain_word w \<longleftrightarrow> list_all word_char w \<and> map lower_char w \<notin> set command_words \<union> set sql_words"

definition plain_action :: "string \<Rightarrow> bool" where
  "plain_action s \<longleftrightarrow> rule_line s \<and> dashed action_char s \<and> \<not> char_flags True s
     \<and> plain_word (takeWhile (\<lambda>c. c \<noteq> CHR '' '') s)"

lemma dashed_set: "dashed ok s \<Longrightarrow> c \<in> set s \<Longrightarrow> ok c \<or> c \<in> {CHR 0xE2, CHR 0x80, CHR 0x94}"
  by (induction ok s rule: dashed.induct) (auto split: if_splits)

lemma line_rune_space: "line_char c \<Longrightarrow> rune_is_space (code c) \<longleftrightarrow> c = CHR '' ''"
  using text_edge_not_space [of c] by (auto simp: line_char_def text_char_def rune_is_space_def)

lemma dash_not_space: "\<not> rune_is_space 8212"
  by (simp add: rune_is_space_def)

lemma code_hyphen: "code c = 45 \<longleftrightarrow> c = CHR ''-''"
  using of_char_eq_iff [of c "CHR ''-''"] by simp

lemma runes_line:
  assumes "dashed line_char (c # cs)" "c \<noteq> CHR 0xE2"
  shows "runes (c # cs) = (code c, [c]) # runes cs" "line_char c" "dashed line_char cs"
proof -
  show c: "line_char c" "dashed line_char cs" using assms by (simp_all add: dashed_cons)
  then show "runes (c # cs) = (code c, [c]) # runes cs"
    using text_char_code(2) [of c] by (simp add: decode_rune_ascii)
qed

lemma dashed_dash:
  assumes "dashed line_char (CHR 0xE2 # cs)"
  obtains ds where "cs = CHR 0x80 # CHR 0x94 # ds" "dashed line_char ds"
  using assms by (cases cs rule: remdups_adj.cases) (auto simp: line_char_def split: if_splits)

lemma hyphen_next:
  assumes "dashed line_char cs" "cs \<noteq> []"
  shows "fst (hd (runes cs)) = 45 \<longleftrightarrow> hd cs = CHR ''-''"
proof (cases cs)
  case (Cons c ds)
  show ?thesis
  proof (cases "c = CHR 0xE2")
    case True
    then show ?thesis using assms Cons runes_dash
      by (auto simp del: runes.simps elim!: dashed_dash)
  next
    case False
    then show ?thesis using runes_line [of c ds] assms Cons by (simp add: code_hyphen del: runes.simps)
  qed
qed (use assms in simp)

lemma flag_in_chars:
  "dashed line_char s \<Longrightarrow> flag_in start (runes s) \<longleftrightarrow> char_flags start s"
proof (induction s arbitrary: start rule: length_induct)
  case (1 s)
  show ?case
  proof (cases s)
    case (Cons c cs)
    show ?thesis
    proof (cases "c = CHR 0xE2")
      case True
      then obtain ds where ds: "cs = CHR 0x80 # CHR 0x94 # ds" "dashed line_char ds"
        using 1(2) Cons by (metis dashed_dash)
      then have "flag_in False (runes ds) \<longleftrightarrow> char_flags False ds"
        using 1(1) Cons by simp
      then show ?thesis
        using True ds Cons dash_not_space by (simp add: runes_dash del: runes.simps)
    next
      case False
      note r = runes_line [OF 1(2) [unfolded Cons] False]
      have "flag_in b (runes cs) \<longleftrightarrow> char_flags b cs" for b
        using 1(1) Cons r(3) by simp
      moreover have "cs \<noteq> [] \<Longrightarrow> fst (hd (runes cs)) = 45 \<longleftrightarrow> hd cs = CHR ''-''"
        using hyphen_next [OF r(3)] by simp
      ultimately show ?thesis
        using Cons r(1) line_rune_space [OF r(2)] by (auto simp: code_hyphen simp del: runes.simps)
    qed
  qed simp
qed

lemma first_word_chars:
  "dashed line_char s \<Longrightarrow> list_all word_char (takeWhile (\<lambda>c. c \<noteq> CHR '' '') s) \<Longrightarrow>
     first_word s = takeWhile (\<lambda>c. c \<noteq> CHR '' '') s"
proof (induction s)
  case (Cons c cs)
  show ?case
  proof (cases "c = CHR '' ''")
    case True
    then show ?thesis using runes_line [OF Cons.prems(1)] line_rune_space [of c]
      by (simp add: first_word_def del: runes.simps)
  next
    case False
    then have "word_char c" using Cons.prems(2) by simp
    then have "c \<noteq> CHR 0xE2" by (auto simp: word_char_def is_lower_def is_upper_def)
    note r = runes_line [OF Cons.prems(1) this]
    have "first_word cs = takeWhile (\<lambda>c. c \<noteq> CHR '' '') cs"
      using Cons r(3) False by simp
    then show ?thesis
      using r(1) line_rune_space [OF r(2)] False by (simp add: first_word_def del: runes.simps)
  qed
qed (simp add: first_word_def)

lemma word_char_ascii: "word_char c \<Longrightarrow> code c < 128"
  by (auto simp: word_char_def is_lower_def is_upper_def)

lemma lower_word: "list_all word_char w \<Longrightarrow> go_to_lower w = map lower_char w"
proof -
  assume w: "list_all word_char w"
  then have "list_all (\<lambda>c. code c < 128) w" by (auto simp: list_all_iff word_char_ascii)
  moreover have "lower_rune (code c, [c]) = [lower_char c]" if "c \<in> set w" for c
    using w that word_char_ascii [of c] by (auto simp: lower_rune_def lower_char_def is_upper_def list_all_iff)
  ultimately show ?thesis
    by (simp add: go_to_lower_def runes_all_ascii comp_def) (induction w, simp_all)
qed

lemma trim_word: "list_all word_char w \<Longrightarrow> go_trim w (''.,:;'' @ [CHR 0x22, CHR 0x27] @ ''()'') = w"
proof -
  assume w: "list_all word_char w"
  have keep: "dropWhile (\<lambda>c. c \<in> set (''.,:;'' @ [CHR 0x22, CHR 0x27] @ ''()'')) v = v"
    if "list_all word_char v" for v
    using that by (cases v) (auto simp: word_char_def is_lower_def is_upper_def)
  have "list_all word_char (rev w)" using w by (simp add: list_all_iff)
  then show ?thesis using keep [OF w] keep [of "rev w"] by (simp only: go_trim_def rev_rev_ident)
qed

lemma plain_action_safe:
  assumes "plain_action s"
  shows "\<not> reads_as_command s"
proof -
  let ?w = "takeWhile (\<lambda>c. c \<noteq> CHR '' '') s"
  have d: "dashed line_char s" and w: "list_all word_char ?w"
    and out: "map lower_char ?w \<notin> set command_words \<union> set sql_words"
    and act: "dashed action_char s" and flags: "\<not> char_flags True s"
    using assms by (simp_all add: plain_action_def plain_word_def rule_line_def)
  have "set shell_metacharacters \<inter> {CHR 0xE2, CHR 0x80, CHR 0x94} = {}"
    by (simp add: shell_metacharacters_def)
  then have meta: "\<forall>c\<in>set s. c \<notin> set shell_metacharacters"
    using dashed_set [OF act] by (auto simp: action_char_def)
  have word: "opening_word s = ?w"
    using first_word_chars [OF d w] trim_word [OF w] by (simp only: opening_word_def)
  have "\<not> flag_in True (runes s)" using flag_in_chars [OF d] flags by simp
  then have "\<not> (\<exists>before after. runes s = before @ after \<and> flag_at after
      \<and> (before = [] \<or> rune_is_space (fst (last before))))"
    unfolding flag_in_iff by (metis (full_types))
  moreover have "''select'' \<in> set sql_words" by (simp add: sql_words_def)
  ultimately show ?thesis
    using meta out lower_word [OF w] word by (auto simp: reads_as_command_def opens_statement_def)
qed

text \<open>So Recommend passes the suggestion of a rule on unchanged.\<close>

definition next_evidence :: "safety_class \<Rightarrow> string \<Rightarrow> string \<Rightarrow> bool \<Rightarrow> advice_input" where
  "next_evidence safety action rationale self =
     \<lparr>adv_kind = RecommendationKindNextEvidence, adv_safety = safety, adv_action = action,
      adv_rationale = rationale, adv_self_collectable = self\<rparr>"

definition next_recommendation :: "safety_class \<Rightarrow> string \<Rightarrow> string \<Rightarrow> bool \<Rightarrow> recommendation" where
  "next_recommendation safety action rationale self =
     \<lparr>rec_action = action, rec_kind = RecommendationKindNextEvidence, rec_safety = safety,
      rec_rationale = rationale, rec_self_collectable = self\<rparr>"

lemma recommend_next_evidence:
  assumes "plain_action action" "rule_line rationale" "safety \<in> {SafetyObserve, SafetyVerify, SafetyCompare}"
  shows "recommend (next_evidence safety action rationale self) FindingKindConfirmed ConfidenceHigh
    = [next_recommendation safety action rationale self]"
  using plain_action_safe [OF assms(1)] rule_line_valid [OF assms(2)] assms
    rule_line_valid [of action] confirmed_high_valid
  by (auto simp: recommend_advisable advisable_def next_evidence_def next_recommendation_def
      recommendation_input_of_def plain_action_def)

subsection \<open>Evaluating the texts\<close>

text \<open>One rewrite step a character: the arguments of \<open>dashed\<close>, \<open>hd\<close> and \<open>last\<close> are not rewritten
  themselves, so that a long text is passed over once.\<close>

lemma line_char_table:
  "line_char (CHR '' '')" "line_char (CHR ''!'')" "line_char (CHR 0x22)" "line_char (CHR ''#'')"
  "line_char (CHR ''$'')" "line_char (CHR ''%'')" "line_char (CHR ''&'')" "line_char (CHR 0x27)"
  "line_char (CHR ''('')" "line_char (CHR '')'')" "line_char (CHR ''*'')" "line_char (CHR ''+'')"
  "line_char (CHR '','')" "line_char (CHR ''-'')" "line_char (CHR ''.'')" "line_char (CHR ''/'')"
  "line_char (CHR ''0'')" "line_char (CHR ''1'')" "line_char (CHR ''2'')" "line_char (CHR ''3'')"
  "line_char (CHR ''4'')" "line_char (CHR ''5'')" "line_char (CHR ''6'')" "line_char (CHR ''7'')"
  "line_char (CHR ''8'')" "line_char (CHR ''9'')" "line_char (CHR '':'')" "line_char (CHR '';'')"
  "line_char (CHR ''<'')" "line_char (CHR ''='')" "line_char (CHR ''>'')" "line_char (CHR ''?'')"
  "line_char (CHR ''@'')" "line_char (CHR ''A'')" "line_char (CHR ''B'')" "line_char (CHR ''C'')"
  "line_char (CHR ''D'')" "line_char (CHR ''E'')" "line_char (CHR ''F'')" "line_char (CHR ''G'')"
  "line_char (CHR ''H'')" "line_char (CHR ''I'')" "line_char (CHR ''J'')" "line_char (CHR ''K'')"
  "line_char (CHR ''L'')" "line_char (CHR ''M'')" "line_char (CHR ''N'')" "line_char (CHR ''O'')"
  "line_char (CHR ''P'')" "line_char (CHR ''Q'')" "line_char (CHR ''R'')" "line_char (CHR ''S'')"
  "line_char (CHR ''T'')" "line_char (CHR ''U'')" "line_char (CHR ''V'')" "line_char (CHR ''W'')"
  "line_char (CHR ''X'')" "line_char (CHR ''Y'')" "line_char (CHR ''Z'')" "line_char (CHR ''['')"
  "line_char (CHR 0x5C)" "line_char (CHR '']'')" "line_char (CHR ''^'')" "line_char (CHR ''_'')"
  "line_char (CHR 0x60)" "line_char (CHR ''a'')" "line_char (CHR ''b'')" "line_char (CHR ''c'')"
  "line_char (CHR ''d'')" "line_char (CHR ''e'')" "line_char (CHR ''f'')" "line_char (CHR ''g'')"
  "line_char (CHR ''h'')" "line_char (CHR ''i'')" "line_char (CHR ''j'')" "line_char (CHR ''k'')"
  "line_char (CHR ''l'')" "line_char (CHR ''m'')" "line_char (CHR ''n'')" "line_char (CHR ''o'')"
  "line_char (CHR ''p'')" "line_char (CHR ''q'')" "line_char (CHR ''r'')" "line_char (CHR ''s'')"
  "line_char (CHR ''t'')" "line_char (CHR ''u'')" "line_char (CHR ''v'')" "line_char (CHR ''w'')"
  "line_char (CHR ''x'')" "line_char (CHR ''y'')" "line_char (CHR ''z'')" "line_char (CHR ''{'')"
  "line_char (CHR ''|'')" "line_char (CHR ''}'')" "line_char (CHR ''~'')"
  by (simp_all add: line_char_def)

lemma dashed_skip:
  "line_char c \<Longrightarrow> dashed line_char (c # cs) = dashed line_char cs"
  "line_char c \<Longrightarrow> dashed text_char (c # cs) = dashed text_char cs"
proof -
  assume c: "line_char c"
  then have "c \<noteq> CHR 0xE2" by (auto simp: line_char_def)
  then show "dashed line_char (c # cs) = dashed line_char cs" "dashed text_char (c # cs) = dashed text_char cs"
    using c by (simp_all add: dashed_cons text_char_def)
qed

lemma dashed_append: "\<not> ok (CHR 0xE2) \<Longrightarrow> dashed ok a \<Longrightarrow> dashed ok (a @ b) = dashed ok b"
proof (induction ok a rule: dashed.induct)
  case (4 ok c d e cs)
  then show ?case by (auto split: if_splits)
next
  case (2 ok c)
  then have "c \<noteq> CHR 0xE2" by auto
  then show ?case using 2 by (simp add: dashed_cons)
next
  case (3 ok c d)
  then have "c \<noteq> CHR 0xE2" "d \<noteq> CHR 0xE2" by auto
  then show ?case using 3 by (simp add: dashed_cons)
qed simp

lemma dashed_special:
  "dashed text_char (newline @ s) = dashed text_char s" "dashed text_char newline"
  "dashed line_char (em_dash @ s) = dashed line_char s" "dashed text_char (em_dash @ s) = dashed text_char s"
  by (simp_all add: newline_def em_dash_def dashed_cons text_char_def)

lemmas dashed_table = line_char_table [THEN dashed_skip(1)] line_char_table [THEN dashed_skip(2)]

lemma dashed_text_append: "dashed text_char a \<Longrightarrow> dashed text_char (a @ b) = dashed text_char b"
  and dashed_line_append: "dashed line_char a \<Longrightarrow> dashed line_char (a @ b) = dashed line_char b"
  by (simp_all add: dashed_append text_char_def line_char_def)

text \<open>The first and the last character.\<close>

definition edge_char :: "char \<Rightarrow> bool" where
  "edge_char c \<longleftrightarrow> line_char c \<and> c \<noteq> CHR '' ''"

definition starts_clean :: "string \<Rightarrow> bool" where
  "starts_clean s \<longleftrightarrow> s \<noteq> [] \<and> edge_char (hd s)"

definition ends_clean :: "string \<Rightarrow> bool" where
  "ends_clean s \<longleftrightarrow> s \<noteq> [] \<and> edge_char (last s)"

lemma starts_clean_simps:
  "starts_clean (c # s) = edge_char c" "starts_clean ((c # s) @ t) = edge_char c"
  by (simp_all add: starts_clean_def)

lemma ends_clean_simps:
  "ends_clean [c] = edge_char c" "ends_clean (c # d # s) = ends_clean (d # s)"
  "ends_clean (a @ c # s) = ends_clean (c # s)" "ends_clean (a @ (c # s) @ t) = ends_clean ((c # s) @ t)"
  "ends_clean (a @ newline @ t) = ends_clean (newline @ t)" "ends_clean (a @ em_dash @ t) = ends_clean (em_dash @ t)"
  "ends_clean (newline @ c # s) = ends_clean (c # s)" "ends_clean (newline @ (c # s) @ t) = ends_clean ((c # s) @ t)"
  by (simp_all add: ends_clean_def newline_def em_dash_def)

lemma rule_line_iff: "rule_line s \<longleftrightarrow> starts_clean s \<and> ends_clean s \<and> dashed line_char s"
  by (auto simp: rule_line_def edges_printable_def starts_clean_def ends_clean_def edge_char_def line_char_def)

lemma rule_text_iff: "rule_text s \<longleftrightarrow> starts_clean s \<and> ends_clean s \<and> dashed text_char s"
  by (auto simp: rule_text_def edges_printable_def starts_clean_def ends_clean_def edge_char_def line_char_def)

lemma text_congs:
  "rule_line s = rule_line s" "rule_text s = rule_text s" "dashed ok s = dashed ok s" "starts_clean s = starts_clean s" "ends_clean s = ends_clean s"
  by (rule refl)+

subsection \<open>Evaluating the suggestions\<close>

lemma action_char_table:
  "action_char (CHR '' '')" "action_char (CHR ''!'')" "action_char (CHR 0x22)" "action_char (CHR ''#'')"
  "action_char (CHR ''%'')" "action_char (CHR 0x27)" "action_char (CHR ''('')" "action_char (CHR '')'')"
  "action_char (CHR ''*'')" "action_char (CHR ''+'')" "action_char (CHR '','')" "action_char (CHR ''-'')"
  "action_char (CHR ''.'')" "action_char (CHR ''/'')" "action_char (CHR ''0'')" "action_char (CHR ''1'')"
  "action_char (CHR ''2'')" "action_char (CHR ''3'')" "action_char (CHR ''4'')" "action_char (CHR ''5'')"
  "action_char (CHR ''6'')" "action_char (CHR ''7'')" "action_char (CHR ''8'')" "action_char (CHR ''9'')"
  "action_char (CHR '':'')" "action_char (CHR '';'')" "action_char (CHR ''='')" "action_char (CHR ''?'')"
  "action_char (CHR ''@'')" "action_char (CHR ''A'')" "action_char (CHR ''B'')" "action_char (CHR ''C'')"
  "action_char (CHR ''D'')" "action_char (CHR ''E'')" "action_char (CHR ''F'')" "action_char (CHR ''G'')"
  "action_char (CHR ''H'')" "action_char (CHR ''I'')" "action_char (CHR ''J'')" "action_char (CHR ''K'')"
  "action_char (CHR ''L'')" "action_char (CHR ''M'')" "action_char (CHR ''N'')" "action_char (CHR ''O'')"
  "action_char (CHR ''P'')" "action_char (CHR ''Q'')" "action_char (CHR ''R'')" "action_char (CHR ''S'')"
  "action_char (CHR ''T'')" "action_char (CHR ''U'')" "action_char (CHR ''V'')" "action_char (CHR ''W'')"
  "action_char (CHR ''X'')" "action_char (CHR ''Y'')" "action_char (CHR ''Z'')" "action_char (CHR ''['')"
  "action_char (CHR '']'')" "action_char (CHR ''^'')" "action_char (CHR ''_'')" "action_char (CHR ''a'')"
  "action_char (CHR ''b'')" "action_char (CHR ''c'')" "action_char (CHR ''d'')" "action_char (CHR ''e'')"
  "action_char (CHR ''f'')" "action_char (CHR ''g'')" "action_char (CHR ''h'')" "action_char (CHR ''i'')"
  "action_char (CHR ''j'')" "action_char (CHR ''k'')" "action_char (CHR ''l'')" "action_char (CHR ''m'')"
  "action_char (CHR ''n'')" "action_char (CHR ''o'')" "action_char (CHR ''p'')" "action_char (CHR ''q'')"
  "action_char (CHR ''r'')" "action_char (CHR ''s'')" "action_char (CHR ''t'')" "action_char (CHR ''u'')"
  "action_char (CHR ''v'')" "action_char (CHR ''w'')" "action_char (CHR ''x'')" "action_char (CHR ''y'')"
  "action_char (CHR ''z'')" "action_char (CHR ''{'')" "action_char (CHR ''}'')" "action_char (CHR ''~'')"
  by (simp_all add: action_char_def line_char_table shell_metacharacters_def)

lemma dashed_action_skip: "action_char c \<Longrightarrow> dashed action_char (c # cs) = dashed action_char cs"
  by (cases "c = CHR 0xE2") (auto simp: action_char_def line_char_def dashed_cons)

lemma dashed_action_append: "dashed action_char a \<Longrightarrow> dashed action_char (a @ b) = dashed action_char b"
  "dashed action_char (em_dash @ b) = dashed action_char b"
  by (simp_all add: dashed_append em_dash_def action_char_def line_char_def)

lemma char_flags_rules:
  "c \<noteq> CHR ''-'' \<Longrightarrow> c \<noteq> CHR '' '' \<Longrightarrow> char_flags b (c # cs) = char_flags False cs"
  "char_flags b (CHR '' '' # cs) = char_flags True cs" "char_flags False (CHR ''-'' # cs) = char_flags False cs"
  "char_flags True (CHR ''-'' # CHR ''-'' # cs) = char_flags False cs"
  "char_flags True (CHR ''-'' # (CHR ''-'' # cs) @ t) = char_flags False (cs @ t)"
  "char_flags b ((c # cs) @ t) = char_flags b (c # cs @ t)" "char_flags b ([] @ t) = char_flags b t"
  "char_flags b (em_dash @ t) = char_flags False t"
  by (simp_all add: em_dash_def)

lemma first_word_rules:
  "takeWhile p (c # s) = (if p c then c # takeWhile p s else [])"
  "takeWhile p ((c # s) @ t) = (if p c then c # takeWhile p (s @ t) else [])"
  "takeWhile p ([] @ t) = takeWhile p t" "takeWhile p [] = []"
  by simp_all

lemma action_congs: "plain_action s = plain_action s" "char_flags b s = char_flags b s" "takeWhile p s = takeWhile p s"
  by (rule refl)+

lemmas eval_plain_word = plain_word_def word_char_def lower_char_def is_lower_def is_upper_def
  command_words_def sql_words_def

lemmas eval_text_rules = rule_line_iff rule_text_iff dashed.simps(1) dashed_table dashed_special
  dashed_text_append dashed_line_append starts_clean_simps ends_clean_simps edge_char_def line_char_table

lemmas eval_action_rules = plain_action_def action_char_table [THEN dashed_action_skip] dashed_action_append
  char_flags_rules char_flags.simps(1) first_word_rules eval_text_rules

lemmas rule_congs = text_congs action_congs

declare dashed.simps [simp del] char_flags.simps [simp del]

end
