(* ===== verification/RuleBase.thy ===== *)
theory RuleBase
  imports Engine RuleText
begin

text \<open>
  What the diagnosis rules of \<open>internal/diagnosis/transport\<close> and of the service packages have in common: they build a
  finding with \<open>domain.NewFinding\<close> and give none where it is refused, they suggest through \<open>diagnosis.Recommend\<close>,
  and each is a function of the context of a rule. The locale states what the engine relies on: a rule only gives
  findings that the constructors made, that cite recorded evidence, and that accuse only on a recorded failure.
\<close>

subsection \<open>Findings a rule makes\<close>

definition made_finding :: "finding_input \<Rightarrow> finding option" where
  "made_finding i = (case new_finding i of Inl _ \<Rightarrow> None | Inr f \<Rightarrow> Some f)"

lemma made_finding_eq:
  "made_finding i = (if finding_fields_ok i then Some (i\<lparr>f_refs := sort (dedup (f_refs i))\<rparr>) else None)"
  by (simp add: made_finding_def new_finding_eq)

lemma recommend_wf: "r \<in> set (recommend i kind confidence) \<Longrightarrow> rec_wf r"
  by (auto simp: recommend_def advice_recommendation_def split: sum.splits if_splits)
    (metis new_classified_recommendation_Inr)

subsection \<open>Rules over an evidence graph\<close>

text \<open>A problem, ERROR or CRITICAL, is backed by a failure that was observed.\<close>

definition accuses_observed :: "graph \<Rightarrow> finding \<Rightarrow> bool" where
  "accuses_observed g f \<longleftrightarrow> (is_problem f \<longrightarrow>
     (\<exists>e\<in>set (graph_nodes g). ev_id e \<in> set (f_refs f) \<and> ev_state e = StateFail))"

definition grounded :: "graph \<Rightarrow> finding \<Rightarrow> bool" where
  "grounded g f \<longleftrightarrow> finding_made f \<and> refs_recorded g f \<and> accuses_observed g f"

locale grounded_rule =
  fixes rule :: "rule_context \<Rightarrow> finding list"
  assumes gives_grounded: "graph_wf (ctx_graph ctx) \<Longrightarrow> f \<in> set (rule ctx) \<Longrightarrow> grounded (ctx_graph ctx) f"
begin

lemma gives_made: "graph_wf (ctx_graph ctx) \<Longrightarrow> list_all finding_made (rule ctx)"
  using gives_grounded by (auto simp: list_all_iff grounded_def)

lemma gives_recorded: "graph_wf (ctx_graph ctx) \<Longrightarrow> list_all (refs_recorded (ctx_graph ctx)) (rule ctx)"
  using gives_grounded by (auto simp: list_all_iff grounded_def)

lemma without_failure:
  assumes "graph_wf (ctx_graph ctx)" "\<forall>e\<in>set (graph_nodes (ctx_graph ctx)). ev_state e \<noteq> StateFail"
  shows "\<forall>f\<in>set (rule ctx). \<not> is_problem f"
  using gives_grounded [OF assms(1)] assms(2) by (auto simp: grounded_def accuses_observed_def)

end

lemma made_finding_grounded:
  assumes "made_finding i = Some f" "graph_wf g"
    and "\<forall>x\<in>set (f_refs i). \<exists>e. graph_node g x = Some e"
    and "\<forall>r\<in>set (f_recs i). rec_wf r"
    and "is_problem i \<Longrightarrow> e \<in> set (graph_nodes g) \<and> ev_id e \<in> set (f_refs i) \<and> ev_state e = StateFail"
  shows "grounded g f"
proof -
  have ok: "finding_fields_ok i" and f: "f = i\<lparr>f_refs := sort (dedup (f_refs i))\<rparr>"
    using assms(1) by (auto simp: made_finding_eq split: if_splits)
  have "new_finding i = Inr f" using ok f by (simp add: new_finding_eq)
  then have "finding_made f" using new_finding_wf [of i f] assms(4) f by (simp add: finding_made_def)
  then show ?thesis
    using assms(3,5) f by (auto simp: grounded_def refs_recorded_def accuses_observed_def is_problem_def)
qed

text \<open>The parts of a finding that a rule with fixed texts fills in.\<close>

lemma fixed_finding_made:
  assumes "finding_code_valid (f_code i)" "finding_kind_valid (f_kind i)" "severity_valid (f_severity i)"
    "confidence_valid (f_confidence i)" "layer_valid (f_layer i)" "subject_is_zero (f_subject i) \<or>
    subject_kind_valid (subj_kind (f_subject i))" "rule_line (f_summary i)" "rule_text (f_detail i)"
    "f_discriminator i = []" "f_refs i \<noteq> []" "\<forall>x\<in>set (f_refs i). is_ok (validate_identifier x)"
    "\<forall>r\<in>set (f_recs i). rec_wf r"
  shows "made_finding i = Some (i\<lparr>f_refs := sort (dedup (f_refs i))\<rparr>)"
  using assms rec_wf_not_zero rule_line_valid rule_text_valid
  by (auto simp: made_finding_eq finding_fields_ok_def)

lemma node_recorded:
  assumes "graph_wf g" "e \<in> set (graph_nodes g)"
  shows "graph_node g (ev_id e) = Some e" "evidence_wf e" "is_ok (validate_identifier (ev_id e))"
    "layer_valid (ev_layer e)" "\<not> subject_is_zero (ev_subject e)"
  using graph_view.nodes_wf [OF assms] graph_view.nodes_iff [OF assms(1), of e] assms(2)
  by (auto simp: evidence_wf_def)

lemma node_of_id:
  assumes "graph_wf g" "graph_node g x = Some e"
  shows "e \<in> set (graph_nodes g)" "ev_id e = x"
  using graph_view.node_made [OF assms] graph_view.nodes_iff [OF assms(1), of e] assms(2) by auto

subsection \<open>The rule of the failure boundaries\<close>

interpretation boundary: grounded_rule failure_boundary
proof
  fix ctx f assume g: "graph_wf (ctx_graph ctx)" and f: "f \<in> set (failure_boundary ctx)"
  let ?g = "ctx_graph ctx"
  obtain b s where b: "boundary_for ?g s = Some b" "boundary_finding ?g b = Some f"
    using f by (auto simp: failure_boundary_def boundaries_def List.map_filter_def)
  obtain summary detail failing where m:
    "f = boundary_input b failing (sort (dedup (filter (\<lambda>x. x \<noteq> []) [bd_first_failure b, bd_last_good b]))) summary detail"
    "finding_wf f"
    using boundary_finding_made [OF g b(1)] b(2) by auto
  have ib: "is_boundary ?g s b" using boundary_for_spec [OF g, of s] b(1) by simp
  have first: "\<exists>e. graph_node ?g (bd_first_failure b) = Some e"
    using ib node_recorded(1) [OF g] by (auto simp: is_boundary_def subject_evidence_def)
  have last: "bd_last_good b \<noteq> [] \<Longrightarrow> \<exists>e. graph_node ?g (bd_last_good b) = Some e"
    using ib node_recorded(1) [OF g]
    by (auto simp: is_boundary_def subject_evidence_def confirmed_below_def split: if_splits)
  have "f_severity f = SeverityInfo" "f_recs f = []"
    "set (f_refs f) \<subseteq> {x. x \<noteq> [] \<and> (x = bd_first_failure b \<or> x = bd_last_good b)}"
    by (auto simp: m(1) boundary_input_def)
  then show "grounded ?g f"
    using m(2) first last
    by (auto simp: grounded_def finding_made_def refs_recorded_def accuses_observed_def is_problem_def)
qed

end
