(* ===== verification/TransportRules.thy ===== *)
theory TransportRules
  imports RuleBase Measure
begin

text \<open>
  Package \<open>internal/diagnosis/transport\<close>: the rules over the stages every service shares. A sweep is read back
  from the evidence graph (\<open>sweep.go\<close>); then name resolution (\<open>dns.go\<close>), connections (\<open>tcp.go\<close>) and handshakes
  (\<open>tls.go\<close>) each give at most one finding for what they judge, built by \<open>build.go\<close>.
\<close>

subsection \<open>The texts\<close>

definition code_name_not_resolved :: finding_code where
  "code_name_not_resolved =
     ''DNS_NAME_NOT_RESOLVED''"

definition code_resolution_failed :: finding_code where
  "code_resolution_failed =
     ''DNS_RESOLUTION_FAILED''"

definition recommend_name_not_resolved :: string where
  "recommend_name_not_resolved =
     ''Check that the hostname is spelled as intended and that it ''
     @ ''has an address record visible to the resolver this host is configured to use''"

definition recommend_resolution_failed :: string where
  "recommend_resolution_failed =
     ''Check that the resolver this host is configured to use is ''
     @ ''reachable and answering from this network position''"

definition rationale_name_not_resolved :: string where
  "rationale_name_not_resolved =
     ''svcdoctor asked this host's own resolver for the name the ''
     @ ''target declared and was answered that it has no address, so whether the name or ''
     @ ''the zone that should carry it is the surprising half is the one thing this ''
     @ ''observation cannot settle.''"

definition rationale_resolution_failed :: string where
  "rationale_resolution_failed =
     ''The lookup did not return an answer at all, which says ''
     @ ''nothing about whether the name exists; the resolver this host is configured to use ''
     @ ''is the only place a reachable-but-silent resolver and an unreachable one are ''
     @ ''distinguished.''"

definition summary_name_not_resolved :: string where
  "summary_name_not_resolved =
     ''The requested hostname did not resolve to a usable address ''
     @ ''from this vantage point''"

definition summary_resolution_failed :: string where
  "summary_resolution_failed =
     ''Name resolution for the requested hostname did not complete ''
     @ ''from this vantage point''"

definition detail_name_not_resolved :: string where
  "detail_name_not_resolved =
     ''The resolver answered, and the answer contained no address this ''
     @ ''client could use.'' @ newline
     @ ''This does not establish that the hostname is unknown: the same answer is returned ''
     @ ''for a name that has no address record, and many resolvers do not distinguish the ''
     @ ''two. It also says nothing about whether the service behind the name is running.'' @ newline
     @ ''Resolution depends on which resolver this host uses, so a different vantage point ''
     @ ''may resolve the same name.''"

definition detail_resolution_failed :: string where
  "detail_resolution_failed =
     ''The lookup did not complete: the resolver either did not ''
     @ ''answer in time or reported a failure svcdoctor could not classify further. The ''
     @ ''exact outcome is recorded on the referenced evidence.'' @ newline
     @ ''Nothing was learned about the hostname itself, and nothing here identifies what ''
     @ ''prevented the answer.'' @ newline
     @ ''Resolution depends on which resolver this host uses, so a different vantage point ''
     @ ''may succeed.''"

definition code_connection_not_established :: finding_code where
  "code_connection_not_established =
     ''TCP_CONNECTION_NOT_ESTABLISHED''"

definition recommend_connection_not_established :: string where
  "recommend_connection_not_established =
     ''Check that the endpoint accepts connections on ''
     @ ''this port from this network position, and read the per-address outcomes recorded on ''
     @ ''the referenced evidence''"

definition rationale_connection_not_established :: string where
  "rationale_connection_not_established =
     ''The recorded failure classes already separate a ''
     @ ''host that declined the connection from one where nothing answered; what remains is ''
     @ ''whether this port is meant to accept connections from this network position, a property ''
     @ ''of the endpoint and the path rather than of the attempt.''"

definition summary_connection_not_established :: string where
  "summary_connection_not_established =
     ''No measured TCP connection to the requested ''
     @ ''endpoint completed from this vantage point''"

definition detail_connection_not_established_shared :: string where
  "detail_connection_not_established_shared =
     ''Those classes differ in what they establish, ''
     @ ''and the difference decides where to look ''
     @ ''next: some record that a host answered and declined the connection, others that ''
     @ ''nothing answered at all. svcdoctor observed the outcome of each attempt and nothing ''
     @ ''about what produced it.'' @ newline
     @ ''Connectivity depends on this network position: the source address, the route taken and ''
     @ ''anything inspecting traffic along it can all differ elsewhere.''"

definition detail_connection_not_established :: string where
  "detail_connection_not_established =
     ''Every address the hostname resolved to was tried ''
     @ ''and none accepted a connection. What each attempt observed is recorded as a failure ''
     @ ''class on the referenced evidence.'' @ newline
     @ detail_connection_not_established_shared"

definition detail_connection_not_established_literal :: string where
  "detail_connection_not_established_literal =
     ''The address this run was given was tried ''
     @ ''and did not accept a connection. No name was resolved, because the target was supplied ''
     @ ''as an address. What the attempt observed is recorded as a failure class on the ''
     @ ''referenced evidence.'' @ newline
     @ detail_connection_not_established_shared"

definition code_tls_endpoint_does_not_speak_tls :: finding_code where
  "code_tls_endpoint_does_not_speak_tls =
     ''TLS_ENDPOINT_DOES_NOT_SPEAK_TLS''"

definition code_tls_identity_mismatch :: finding_code where
  "code_tls_identity_mismatch =
     ''TLS_IDENTITY_MISMATCH''"

definition code_tls_chain_not_trusted :: finding_code where
  "code_tls_chain_not_trusted =
     ''TLS_CHAIN_NOT_TRUSTED''"

definition code_tls_certificate_not_valid_now :: finding_code where
  "code_tls_certificate_not_valid_now =
     ''TLS_CERTIFICATE_NOT_VALID_NOW''"

definition code_tls_handshake_not_completed :: finding_code where
  "code_tls_handshake_not_completed =
     ''TLS_HANDSHAKE_NOT_COMPLETED''"

definition summary_endpoint_does_not_speak_tls :: string where
  "summary_endpoint_does_not_speak_tls =
     ''The endpoint answered, and what it sent was not TLS''"

definition detail_endpoint_does_not_speak_tls :: string where
  "detail_endpoint_does_not_speak_tls =
     ''svcdoctor opened a connection to this endpoint and ''
     @ ''began a TLS handshake, and the first thing the endpoint sent back was not a TLS ''
     @ ''record.'' @ newline
     @ ''That is what this run observed at this endpoint, on this attempt, from this vantage ''
     @ ''point, and it is the whole of the claim. It does not establish that the endpoint ''
     @ ''never speaks TLS, that the service behind it cannot, or what answered instead. ''
     @ ''A listener that speaks another protocol, something terminating the connection in ''
     @ ''between, and a port that serves plaintext all look identical from here.''"

definition recommend_endpoint_does_not_speak_tls :: string where
  "recommend_endpoint_does_not_speak_tls =
     ''Check what is listening on this endpoint and whether ''
     @ ''this run was meant to negotiate TLS with it''"

definition summary_identity_mismatch :: string where
  "summary_identity_mismatch =
     ''The certificate presented carries no name matching the ''
     @ ''identity this run verified''"

definition detail_identity_mismatch :: string where
  "detail_identity_mismatch =
     ''The endpoint completed enough of the handshake to present a ''
     @ ''certificate, and no name it carries matched the identity this run asked to verify.'' @ newline
     @ ''The identity verified and the names presented are both recorded on the referenced ''
     @ ''handshake evidence. Which certificate an endpoint presents can depend on the name ''
     @ ''sent in SNI and on the path a connection took, so this is a statement about this ''
     @ ''attempt rather than about the endpoint's configuration in general.''"

definition recommend_identity_mismatch :: string where
  "recommend_identity_mismatch =
     ''Compare the names on the presented certificate with the ''
     @ ''identity this run verified, which is recorded on the referenced evidence''"

definition summary_chain_not_trusted :: string where
  "summary_chain_not_trusted =
     ''The certificate chain presented did not verify against this ''
     @ ''run's trust context''"

definition detail_chain_not_trusted :: string where
  "detail_chain_not_trusted =
     ''The endpoint presented a chain, and it did not verify against ''
     @ ''the trust material this run was given.'' @ newline
     @ ''This claim is about a pairing, and either half can be the reason. **The trust ''
     @ ''context is this run's**: whether it was the system trust store or a file supplied ''
     @ ''to this run is recorded on the referenced evidence, and a missing or wrong CA on ''
     @ ''this side produces exactly this observation. The chain the endpoint served may ''
     @ ''equally be incomplete or issued by an authority this run does not know. A chain ''
     @ ''that fails here can verify from elsewhere, and one that verifies here can fail ''
     @ ''elsewhere.''"

definition recommend_chain_not_trusted :: string where
  "recommend_chain_not_trusted =
     ''Check the trust material this run was given '' @ em_dash @ '' the system ''
     @ ''store or the supplied CA file '' @ em_dash @ '' against the chain recorded on the referenced ''
     @ ''evidence''"

definition summary_certificate_not_valid_now :: string where
  "summary_certificate_not_valid_now =
     ''The certificate presented is outside its validity ''
     @ ''window as measured by this run''"

definition detail_certificate_not_valid_now :: string where
  "detail_certificate_not_valid_now =
     ''The endpoint presented a certificate whose validity ''
     @ ''window does not contain the time this run used.'' @ newline
     @ ''Two values produce that comparison and this finding asserts nothing about which ''
     @ ''is wrong: the window on the certificate, recorded on the referenced evidence as ''
     @ ''its not-before and not-after, and the clock of the host svcdoctor ran on. A ''
     @ ''certificate outside its window and a host whose clock is wrong are ''
     @ ''indistinguishable from here.''"

definition recommend_certificate_not_valid_now :: string where
  "recommend_certificate_not_valid_now =
     ''Compare the certificate's validity window on the ''
     @ ''referenced evidence with the clock of the host this run used''"

definition summary_handshake_not_completed :: string where
  "summary_handshake_not_completed =
     ''The TLS handshake with this endpoint did not complete''"

definition detail_handshake_not_completed :: string where
  "detail_handshake_not_completed =
     ''A TLS handshake was attempted with this endpoint and did ''
     @ ''not complete.'' @ newline
     @ ''That the handshake did not complete is certain; **why is not**. svcdoctor could ''
     @ ''not attribute the failure to any of the outcomes it recognizes, so this finding ''
     @ ''names none: it is not a statement about the certificate, the protocol version, ''
     @ ''the cipher suites, a client certificate, or anything between this vantage point ''
     @ ''and the endpoint. What the handshake observed is on the referenced evidence.''"

definition recommend_handshake_not_completed :: string where
  "recommend_handshake_not_completed =
     ''Read the handshake outcome recorded on the referenced ''
     @ ''evidence, and compare it with what this endpoint is configured to accept''"

definition rationale_endpoint_does_not_speak_tls :: string where
  "rationale_endpoint_does_not_speak_tls =
     ''The endpoint answered the socket and not the ''
     @ ''handshake, which establishes that something is listening and not what it is; what ''
     @ ''this port serves and whether this run was meant to negotiate TLS with it are both ''
     @ ''outside what the attempt observed.''"

definition rationale_identity_mismatch :: string where
  "rationale_identity_mismatch =
     ''Trust and identity are separate questions and only identity ''
     @ ''failed here, so the chain verified and the names did not match the one this run was ''
     @ ''asked to verify; which of the two is wrong '' @ em_dash @ '' the name expected or the names ''
     @ ''presented '' @ em_dash @ '' is what the comparison settles.''"

definition rationale_chain_not_trusted :: string where
  "rationale_chain_not_trusted =
     ''The chain the endpoint presented is recorded and the trust ''
     @ ''material this run was given is the other half of the same decision, so comparing ''
     @ ''them is what separates an endpoint presenting an unexpected chain from a run given ''
     @ ''the wrong roots.''"

definition rationale_certificate_not_valid_now :: string where
  "rationale_certificate_not_valid_now =
     ''Validity is a comparison between two clocks and ''
     @ ''svcdoctor read only one of them, so whether the certificate's window or this host's ''
     @ ''time is the surprising half is the one thing this observation cannot show.''"

definition rationale_handshake_not_completed :: string where
  "rationale_handshake_not_completed =
     ''The handshake recorded what it observed and names no ''
     @ ''cause, and what this endpoint is configured to accept is not something a client ''
     @ ''learns from a handshake that did not complete.''"

subsection \<open>The texts are accepted\<close>

lemma transport_code_texts:
  "finding_code_valid code_name_not_resolved"
  "finding_code_valid code_resolution_failed"
  "finding_code_valid code_connection_not_established"
  "finding_code_valid code_tls_endpoint_does_not_speak_tls"
  "finding_code_valid code_tls_identity_mismatch"
  "finding_code_valid code_tls_chain_not_trusted"
  "finding_code_valid code_tls_certificate_not_valid_now"
  "finding_code_valid code_tls_handshake_not_completed"
  unfolding code_name_not_resolved_def code_resolution_failed_def code_connection_not_established_def
    code_tls_endpoint_does_not_speak_tls_def code_tls_identity_mismatch_def code_tls_chain_not_trusted_def
    code_tls_certificate_not_valid_now_def code_tls_handshake_not_completed_def
  by (simp_all add: finding_code_ok code_char_def is_upper_def is_digit_def cong: rule_congs)

lemma transport_summary_texts:
  "rule_line summary_name_not_resolved"
  "rule_line summary_resolution_failed"
  "rule_line summary_connection_not_established"
  "rule_line summary_endpoint_does_not_speak_tls"
  "rule_line summary_identity_mismatch"
  "rule_line summary_chain_not_trusted"
  "rule_line summary_certificate_not_valid_now"
  "rule_line summary_handshake_not_completed"
  unfolding summary_name_not_resolved_def summary_resolution_failed_def summary_connection_not_established_def
    summary_endpoint_does_not_speak_tls_def summary_identity_mismatch_def summary_chain_not_trusted_def
    summary_certificate_not_valid_now_def summary_handshake_not_completed_def
  by (simp_all add: eval_text_rules cong: rule_congs)

lemma transport_detail_texts:
  "rule_text detail_name_not_resolved"
  "rule_text detail_resolution_failed"
  "rule_text detail_connection_not_established_shared"
  "rule_text detail_connection_not_established"
  "rule_text detail_connection_not_established_literal"
  "rule_text detail_endpoint_does_not_speak_tls"
  "rule_text detail_identity_mismatch"
  "rule_text detail_chain_not_trusted"
  "rule_text detail_certificate_not_valid_now"
  "rule_text detail_handshake_not_completed"
  unfolding detail_name_not_resolved_def detail_resolution_failed_def
    detail_connection_not_established_shared_def detail_connection_not_established_def
    detail_connection_not_established_literal_def detail_endpoint_does_not_speak_tls_def
    detail_identity_mismatch_def detail_chain_not_trusted_def detail_certificate_not_valid_now_def
    detail_handshake_not_completed_def
  by (simp_all add: eval_text_rules detail_connection_not_established_shared_def cong: rule_congs)

lemma transport_recommend_texts:
  "plain_action recommend_name_not_resolved"
  "plain_action recommend_resolution_failed"
  "plain_action recommend_connection_not_established"
  "plain_action recommend_endpoint_does_not_speak_tls"
  "plain_action recommend_identity_mismatch"
  "plain_action recommend_chain_not_trusted"
  "plain_action recommend_certificate_not_valid_now"
  "plain_action recommend_handshake_not_completed"
  unfolding recommend_name_not_resolved_def recommend_resolution_failed_def
    recommend_connection_not_established_def recommend_endpoint_does_not_speak_tls_def
    recommend_identity_mismatch_def recommend_chain_not_trusted_def recommend_certificate_not_valid_now_def
    recommend_handshake_not_completed_def
  by (simp_all add: eval_action_rules eval_plain_word cong: rule_congs)

lemma transport_rationale_texts:
  "rule_line rationale_name_not_resolved"
  "rule_line rationale_resolution_failed"
  "rule_line rationale_connection_not_established"
  "rule_line rationale_endpoint_does_not_speak_tls"
  "rule_line rationale_identity_mismatch"
  "rule_line rationale_chain_not_trusted"
  "rule_line rationale_certificate_not_valid_now"
  "rule_line rationale_handshake_not_completed"
  unfolding rationale_name_not_resolved_def rationale_resolution_failed_def
    rationale_connection_not_established_def rationale_endpoint_does_not_speak_tls_def
    rationale_identity_mismatch_def rationale_chain_not_trusted_def rationale_certificate_not_valid_now_def
    rationale_handshake_not_completed_def
  by (simp_all add: eval_text_rules cong: rule_congs)

subsection \<open>Building a finding (build.go)\<close>

record transport_input =
  bi_code :: finding_code
  bi_layer :: layer
  bi_subject :: subject
  bi_refs :: "evidence_id list"
  bi_summary :: string
  bi_detail :: string
  bi_recommendation :: string
  bi_safety :: safety_class
  bi_rationale :: string

definition transport_recommendations :: "safety_class \<Rightarrow> string \<Rightarrow> string \<Rightarrow> recommendation list" where
  "transport_recommendations safety action rationale =
     recommend (next_evidence safety action rationale False) FindingKindConfirmed ConfidenceHigh"

definition transport_build :: "transport_input \<Rightarrow> finding option" where
  "transport_build i = made_finding \<lparr>
     f_code = bi_code i, f_kind = FindingKindConfirmed, f_severity = SeverityError,
     f_confidence = ConfidenceHigh, f_layer = bi_layer i, f_subject = bi_subject i,
     f_summary = bi_summary i, f_detail = bi_detail i, f_refs = bi_refs i,
     f_recs = transport_recommendations (bi_safety i) (bi_recommendation i) (bi_rationale i),
     f_vantage = True, f_discriminator = []\<rparr>"

subsection \<open>Sweeps (sweep.go)\<close>

text \<open>The zero evidence of a sweep over a literal address is \<open>None\<close>; a sweep that is not well formed is the zero
  sweep, here \<open>None\<close> too.\<close>

record upgrade =
  up_connect :: evidence
  up_handshake :: evidence

record sweep =
  sw_anchor :: evidence
  sw_lookup :: "evidence option"
  sw_connects :: "evidence list"
  sw_handshakes :: "upgrade list"

definition has_lookup :: "sweep \<Rightarrow> bool" where
  "has_lookup s \<longleftrightarrow> sw_lookup s \<noteq> None"

fun all_connects :: "graph \<Rightarrow> evidence_id list \<Rightarrow> bool" where
  "all_connects g [] = True"
| "all_connects g (x # xs) =
     (case graph_node g x of
        None \<Rightarrow> False
      | Some node \<Rightarrow> if ev_step node \<noteq> step_tcp_connect then False else all_connects g xs)"

definition read_root :: "graph \<Rightarrow> evidence_id list \<Rightarrow> (evidence option \<times> evidence_id list) option" where
  "read_root g children =
     (case graph_node g (hd children) of
        None \<Rightarrow> None
      | Some first \<Rightarrow>
          if ev_step first = step_dns_lookup then
            (if 1 < length children then None else Some (Some first, graph_children g (ev_id first)))
          else if ev_step first = step_tcp_connect then
            (if all_connects g (tl children) then Some (None, children) else None)
          else None)"

fun collect_handshakes :: "graph \<Rightarrow> evidence \<Rightarrow> evidence_id list \<Rightarrow> upgrade list option" where
  "collect_handshakes g connect [] = Some []"
| "collect_handshakes g connect (x # xs) =
     (case graph_node g x of
        None \<Rightarrow> None
      | Some child \<Rightarrow>
          (case collect_handshakes g connect xs of
             None \<Rightarrow> None
           | Some ups \<Rightarrow>
               if ev_step child \<noteq> step_tls_handshake then Some ups
               else Some (\<lparr>up_connect = connect, up_handshake = child\<rparr> # ups)))"

fun collect_connects :: "graph \<Rightarrow> evidence_id list \<Rightarrow> (evidence list \<times> upgrade list) option" where
  "collect_connects g [] = Some ([], [])"
| "collect_connects g (x # xs) =
     (case graph_node g x of
        None \<Rightarrow> None
      | Some connect \<Rightarrow>
          if ev_step connect \<noteq> step_tcp_connect then None
          else (case collect_handshakes g connect (graph_children g (ev_id connect)) of
              None \<Rightarrow> None
            | Some ups \<Rightarrow>
                (case collect_connects g xs of
                   None \<Rightarrow> None
                 | Some (connects, handshakes) \<Rightarrow> Some (connect # connects, ups @ handshakes))))"

definition collect_sweep :: "graph \<Rightarrow> evidence \<Rightarrow> sweep option" where
  "collect_sweep g anchor =
     (case graph_children g (ev_id anchor) of
        [] \<Rightarrow> Some \<lparr>sw_anchor = anchor, sw_lookup = None, sw_connects = [], sw_handshakes = []\<rparr>
      | children \<Rightarrow>
          (case read_root g children of
             None \<Rightarrow> None
           | Some (lookup, ids) \<Rightarrow>
               (case collect_connects g ids of
                  None \<Rightarrow> None
                | Some (connects, handshakes) \<Rightarrow>
                    Some \<lparr>sw_anchor = anchor, sw_lookup = lookup, sw_connects = connects,
                      sw_handshakes = handshakes\<rparr>)))"

definition requested_target :: "evidence \<Rightarrow> bool" where
  "requested_target node \<longleftrightarrow> ev_step node = step_target_requested \<and> ev_layer node = LayerInput
     \<and> subj_kind (ev_subject node) = SubjectKindTarget"

definition collect_sweeps :: "graph \<Rightarrow> sweep list" where
  "collect_sweeps g = List.map_filter (collect_sweep g) (filter requested_target (graph_nodes g))"

subsection \<open>Name resolution (dns.go)\<close>

definition evaluate_dns :: "sweep \<Rightarrow> finding option" where
  "evaluate_dns s =
     (case sw_lookup s of
        None \<Rightarrow> None
      | Some lookup \<Rightarrow>
          if ev_state lookup \<noteq> StateFail then None
          else if ev_failure lookup = FailureDNSNoAddress then
            transport_build \<lparr>bi_code = code_name_not_resolved, bi_layer = LayerDNS,
              bi_subject = ev_subject (sw_anchor s), bi_refs = [ev_id lookup],
              bi_summary = summary_name_not_resolved, bi_detail = detail_name_not_resolved,
              bi_recommendation = recommend_name_not_resolved, bi_safety = SafetyVerify,
              bi_rationale = rationale_name_not_resolved\<rparr>
          else if ev_failure lookup \<in> {FailureDNSTimeout, FailureDNSResolverFailure} then
            transport_build \<lparr>bi_code = code_resolution_failed, bi_layer = LayerDNS,
              bi_subject = ev_subject (sw_anchor s), bi_refs = [ev_id lookup],
              bi_summary = summary_resolution_failed, bi_detail = detail_resolution_failed,
              bi_recommendation = recommend_resolution_failed, bi_safety = SafetyVerify,
              bi_rationale = rationale_resolution_failed\<rparr>
          else None)"

definition dns_rule :: "rule_context \<Rightarrow> finding list" where
  "dns_rule ctx = List.map_filter evaluate_dns (collect_sweeps (ctx_graph ctx))"

subsection \<open>Connections (tcp.go)\<close>

fun authorized_tcp_failure :: "failure_class \<Rightarrow> bool" where
  "authorized_tcp_failure FailureTCPConnectionRefused = True"
| "authorized_tcp_failure FailureTCPConnectionReset = True"
| "authorized_tcp_failure FailureTCPConnectionTimeout = True"
| "authorized_tcp_failure FailureTCPNetworkUnreachable = True"
| "authorized_tcp_failure FailureTCPHostUnreachable = True"
| "authorized_tcp_failure FailureTCPConnectionFailed = True"
| "authorized_tcp_failure _ = False"

fun failed_connects :: "evidence list \<Rightarrow> evidence_id list option" where
  "failed_connects [] = Some []"
| "failed_connects (connect # connects) =
     (if ev_state connect \<noteq> StateFail then None
      else if \<not> authorized_tcp_failure (ev_failure connect) then None
      else map_option ((#) (ev_id connect)) (failed_connects connects))"

definition evaluate_tcp :: "sweep \<Rightarrow> finding option" where
  "evaluate_tcp s =
     (if sw_connects s = [] then None
      else case (case sw_lookup s of
            None \<Rightarrow> Some ([], detail_connection_not_established_literal)
          | Some lookup \<Rightarrow>
              if ev_state lookup \<noteq> StatePass then None
              else Some ([ev_id lookup], detail_connection_not_established)) of
        None \<Rightarrow> None
      | Some (refs, detail) \<Rightarrow>
          (case failed_connects (sw_connects s) of
             None \<Rightarrow> None
           | Some failed \<Rightarrow>
               transport_build \<lparr>bi_code = code_connection_not_established, bi_layer = LayerTCP,
                 bi_subject = ev_subject (sw_anchor s), bi_refs = refs @ failed,
                 bi_summary = summary_connection_not_established, bi_detail = detail,
                 bi_recommendation = recommend_connection_not_established, bi_safety = SafetyVerify,
                 bi_rationale = rationale_connection_not_established\<rparr>))"

definition tcp_rule :: "rule_context \<Rightarrow> finding list" where
  "tcp_rule ctx = List.map_filter evaluate_tcp (collect_sweeps (ctx_graph ctx))"

subsection \<open>Handshakes (tls.go)\<close>

record tls_claim =
  tc_code :: finding_code
  tc_summary :: string
  tc_detail :: string
  tc_recommendation :: string
  tc_safety :: safety_class
  tc_rationale :: string

definition claim_not_valid_now :: tls_claim where
  "claim_not_valid_now =
     \<lparr>tc_code = code_tls_certificate_not_valid_now, tc_summary = summary_certificate_not_valid_now,
      tc_detail = detail_certificate_not_valid_now, tc_recommendation = recommend_certificate_not_valid_now,
      tc_safety = SafetyCompare, tc_rationale = rationale_certificate_not_valid_now\<rparr>"

fun tls_claims :: "failure_class \<Rightarrow> tls_claim option" where
  "tls_claims FailureTLSPeerNotTLS = Some
     \<lparr>tc_code = code_tls_endpoint_does_not_speak_tls, tc_summary = summary_endpoint_does_not_speak_tls,
      tc_detail = detail_endpoint_does_not_speak_tls, tc_recommendation = recommend_endpoint_does_not_speak_tls,
      tc_safety = SafetyObserve, tc_rationale = rationale_endpoint_does_not_speak_tls\<rparr>"
| "tls_claims FailureTLSHostnameMismatch = Some
     \<lparr>tc_code = code_tls_identity_mismatch, tc_summary = summary_identity_mismatch,
      tc_detail = detail_identity_mismatch, tc_recommendation = recommend_identity_mismatch,
      tc_safety = SafetyCompare, tc_rationale = rationale_identity_mismatch\<rparr>"
| "tls_claims FailureTLSUnknownAuthority = Some
     \<lparr>tc_code = code_tls_chain_not_trusted, tc_summary = summary_chain_not_trusted,
      tc_detail = detail_chain_not_trusted, tc_recommendation = recommend_chain_not_trusted,
      tc_safety = SafetyCompare, tc_rationale = rationale_chain_not_trusted\<rparr>"
| "tls_claims FailureTLSCertificateExpired = Some claim_not_valid_now"
| "tls_claims FailureTLSCertificateNotYetValid = Some claim_not_valid_now"
| "tls_claims FailureTLSHandshakeFailure = Some
     \<lparr>tc_code = code_tls_handshake_not_completed, tc_summary = summary_handshake_not_completed,
      tc_detail = detail_handshake_not_completed, tc_recommendation = recommend_handshake_not_completed,
      tc_safety = SafetyObserve, tc_rationale = rationale_handshake_not_completed\<rparr>"
| "tls_claims _ = None"

definition evaluate_tls :: "upgrade \<Rightarrow> finding option" where
  "evaluate_tls pair =
     (let node = up_handshake pair in
      if ev_layer node \<noteq> LayerTLS then None
      else if ev_state node \<noteq> StateFail then None
      else (case tls_claims (ev_failure node) of
          None \<Rightarrow> None
        | Some claim \<Rightarrow>
            transport_build \<lparr>bi_code = tc_code claim, bi_layer = LayerTLS, bi_subject = ev_subject node,
              bi_refs = [ev_id node, ev_id (up_connect pair)], bi_summary = tc_summary claim,
              bi_detail = tc_detail claim, bi_recommendation = tc_recommendation claim,
              bi_safety = tc_safety claim, bi_rationale = tc_rationale claim\<rparr>))"

definition tls_rule :: "rule_context \<Rightarrow> finding list" where
  "tls_rule ctx = List.map_filter evaluate_tls (concat (map sw_handshakes (collect_sweeps (ctx_graph ctx))))"

subsection \<open>What the rules promise\<close>

lemma children_recorded:
  assumes "graph_wf g" "x \<in> set (graph_children g y)"
  shows "graph_node g x \<noteq> None"
  using assms graph_view.parent_child [OF assms(1), of y x] graph_view.parent_known [OF assms(1), of y x]
    graph_view.node_known [OF assms(1), of x] by auto

lemma collect_handshakes_nodes:
  "graph_wf g \<Longrightarrow> collect_handshakes g connect xs = Some ups \<Longrightarrow> u \<in> set ups \<Longrightarrow>
     up_connect u = connect \<and> up_handshake u \<in> set (graph_nodes g) \<and> ev_step (up_handshake u) = step_tls_handshake"
proof (induction xs arbitrary: ups)
  case (Cons x xs)
  obtain child ups' where a: "graph_node g x = Some child" "collect_handshakes g connect xs = Some ups'"
    "ups = (if ev_step child \<noteq> step_tls_handshake then ups' else \<lparr>up_connect = connect, up_handshake = child\<rparr> # ups')"
    using Cons.prems(2) by (auto split: option.splits if_splits)
  show ?case
    using Cons.IH [OF Cons.prems(1) a(2)] a(3) Cons.prems(3) node_of_id [OF Cons.prems(1) a(1)]
    by (auto split: if_splits)
qed simp

lemma collect_connects_nodes:
  "graph_wf g \<Longrightarrow> collect_connects g xs = Some (cs, us) \<Longrightarrow>
     map ev_id cs = xs \<and> set cs \<subseteq> set (graph_nodes g) \<and> (\<forall>c\<in>set cs. ev_step c = step_tcp_connect)
     \<and> (\<forall>u\<in>set us. up_connect u \<in> set cs \<and> up_handshake u \<in> set (graph_nodes g))"
proof (induction xs arbitrary: cs us)
  case (Cons x xs)
  obtain connect ups cs' us' where a: "graph_node g x = Some connect" "ev_step connect = step_tcp_connect"
    "collect_handshakes g connect (graph_children g (ev_id connect)) = Some ups"
    "collect_connects g xs = Some (cs', us')" "cs = connect # cs'" "us = ups @ us'"
    using Cons.prems(2) by (auto split: option.splits if_splits)
  show ?case
    using Cons.IH [OF Cons.prems(1) a(4)] a(2,5,6) node_of_id [OF Cons.prems(1) a(1)]
      collect_handshakes_nodes [OF Cons.prems(1) a(3)] by auto
qed simp

definition sweep_of :: "graph \<Rightarrow> sweep \<Rightarrow> bool" where
  "sweep_of g s \<longleftrightarrow> sw_anchor s \<in> set (graph_nodes g) \<and> set (sw_connects s) \<subseteq> set (graph_nodes g)
     \<and> (\<forall>l. sw_lookup s = Some l \<longrightarrow> l \<in> set (graph_nodes g))
     \<and> (\<forall>u\<in>set (sw_handshakes s). up_connect u \<in> set (graph_nodes g) \<and> up_handshake u \<in> set (graph_nodes g))"

lemma collect_sweep_of:
  assumes "graph_wf g" "anchor \<in> set (graph_nodes g)" "collect_sweep g anchor = Some s"
  shows "sweep_of g s" "sw_anchor s = anchor"
proof -
  have "sweep_of g s \<and> sw_anchor s = anchor"
  proof (cases "graph_children g (ev_id anchor)")
    case Nil
    then show ?thesis using assms by (auto simp: collect_sweep_def sweep_of_def)
  next
    case (Cons c cs)
    then obtain lookup ids connects handshakes where
      r: "read_root g (c # cs) = Some (lookup, ids)" "collect_connects g ids = Some (connects, handshakes)"
      "s = \<lparr>sw_anchor = anchor, sw_lookup = lookup, sw_connects = connects, sw_handshakes = handshakes\<rparr>"
      using assms(3) by (auto simp: collect_sweep_def split: option.splits)
    have "\<forall>l. lookup = Some l \<longrightarrow> l \<in> set (graph_nodes g)"
      using r(1) node_of_id [OF assms(1)] by (auto simp: read_root_def split: option.splits if_splits)
    then show ?thesis
      using r(3) collect_connects_nodes [OF assms(1) r(2)] assms(2) by (auto simp: sweep_of_def)
  qed
  then show "sweep_of g s" "sw_anchor s = anchor" by simp_all
qed

lemma collect_sweeps_of: "graph_wf g \<Longrightarrow> s \<in> set (collect_sweeps g) \<Longrightarrow> sweep_of g s"
  using collect_sweep_of(1) by (fastforce simp: collect_sweeps_def set_map_filter_iff)

lemma transport_build_grounded:
  assumes "transport_build i = Some f" "graph_wf g" "\<forall>x\<in>set (bi_refs i). \<exists>e. graph_node g x = Some e"
    and "e \<in> set (graph_nodes g)" "ev_id e \<in> set (bi_refs i)" "ev_state e = StateFail"
  shows "grounded g f"
  by (rule made_finding_grounded [OF assms(1) [unfolded transport_build_def] assms(2), where e = e])
    (use assms(3-6) in \<open>auto simp: transport_recommendations_def dest: recommend_wf\<close>)

lemma evaluate_dns_grounded:
  assumes "graph_wf g" "sweep_of g s" "evaluate_dns s = Some f"
  shows "grounded g f"
proof -
  obtain lookup i where l: "sw_lookup s = Some lookup" "ev_state lookup = StateFail"
    "transport_build i = Some f" "bi_refs i = [ev_id lookup]"
    using assms(3) by (auto simp: evaluate_dns_def split: option.splits if_splits)
  moreover have "lookup \<in> set (graph_nodes g)" using assms(2) l(1) by (simp add: sweep_of_def)
  ultimately show ?thesis
    using transport_build_grounded [OF l(3) assms(1), of lookup] node_recorded [OF assms(1), of lookup] by simp
qed

lemma failed_connects_Some:
  "failed_connects cs = Some ids \<longleftrightarrow>
     ids = map ev_id cs \<and> (\<forall>c\<in>set cs. ev_state c = StateFail \<and> authorized_tcp_failure (ev_failure c))"
  by (induction cs arbitrary: ids) auto

lemma evaluate_tcp_parts:
  assumes "evaluate_tcp s = Some f"
  shows "\<exists>i refs. sw_connects s \<noteq> [] \<and> (\<forall>l. sw_lookup s = Some l \<longrightarrow> ev_state l = StatePass)
    \<and> refs = (case sw_lookup s of None \<Rightarrow> [] | Some l \<Rightarrow> [ev_id l])
    \<and> (\<forall>c\<in>set (sw_connects s). ev_state c = StateFail \<and> authorized_tcp_failure (ev_failure c))
    \<and> transport_build i = Some f \<and> bi_refs i = refs @ map ev_id (sw_connects s)"
  using assms by (auto simp: evaluate_tcp_def failed_connects_Some split: option.splits if_splits)

lemma evaluate_tcp_grounded:
  assumes "graph_wf g" "sweep_of g s" "evaluate_tcp s = Some f"
  shows "grounded g f"
proof -
  obtain i where i: "sw_connects s \<noteq> []" "transport_build i = Some f"
    "\<forall>c\<in>set (sw_connects s). ev_state c = StateFail"
    "bi_refs i = (case sw_lookup s of None \<Rightarrow> [] | Some l \<Rightarrow> [ev_id l]) @ map ev_id (sw_connects s)"
    using evaluate_tcp_parts [OF assms(3)] by blast
  have "\<forall>x\<in>set (bi_refs i). \<exists>e. graph_node g x = Some e"
    using i(4) assms(2) node_recorded(1) [OF assms(1)] by (auto simp: sweep_of_def split: option.splits)
  then show ?thesis
    using transport_build_grounded [OF i(2) assms(1), of "hd (sw_connects s)"] i(1,3,4) assms(2)
    by (cases "sw_connects s") (auto simp: sweep_of_def)
qed

lemma evaluate_tls_grounded:
  assumes "graph_wf g" "up_connect u \<in> set (graph_nodes g)" "up_handshake u \<in> set (graph_nodes g)"
    "evaluate_tls u = Some f"
  shows "grounded g f"
proof -
  obtain i where i: "ev_state (up_handshake u) = StateFail" "transport_build i = Some f"
    "bi_refs i = [ev_id (up_handshake u), ev_id (up_connect u)]"
    using assms(4) by (auto simp: evaluate_tls_def Let_def split: option.splits if_splits)
  show ?thesis
    using transport_build_grounded [OF i(2) assms(1) _ assms(3)] i(1,3) node_recorded(1) [OF assms(1)] assms(2,3)
    by simp
qed

interpretation dns: grounded_rule dns_rule
  by unfold_locales (auto simp: dns_rule_def set_map_filter_iff dest: collect_sweeps_of evaluate_dns_grounded)

interpretation tcp: grounded_rule tcp_rule
  by unfold_locales (auto simp: tcp_rule_def set_map_filter_iff dest: collect_sweeps_of evaluate_tcp_grounded)

interpretation tls: grounded_rule tls_rule
proof
  fix ctx f assume g: "graph_wf (ctx_graph ctx)" and f: "f \<in> set (tls_rule ctx)"
  then obtain s u where "s \<in> set (collect_sweeps (ctx_graph ctx))" "u \<in> set (sw_handshakes s)" "evaluate_tls u = Some f"
    by (auto simp: tls_rule_def set_map_filter_iff)
  then show "grounded (ctx_graph ctx) f"
    using collect_sweeps_of [OF g, unfolded sweep_of_def] evaluate_tls_grounded [OF g] by blast
qed

end
