(* ===== verification/PgRuleTexts.thy ===== *)
theory PgRuleTexts
  imports RuleText
begin

text \<open>
  The finding codes and the prose of the PostgreSQL rules, \<open>internal/diagnosis/postgres\<close>, and that the
  constructors of \<open>internal/domain\<close> and the guard of \<open>internal/diagnosis/advice.go\<close> accept all of it. The three
  summaries of \<open>admission.go\<close> are format strings and are defined with their rule in theory \<open>PgRules\<close>.
\<close>

subsection \<open>The texts\<close>

definition pg_code_connection_not_permitted :: finding_code where
  "pg_code_connection_not_permitted =
     ''POSTGRES_CONNECTION_NOT_PERMITTED''"

definition pg_summary_not_permitted :: string where
  "pg_summary_not_permitted =
     ''The PostgreSQL endpoint refused this connection before evaluating any credential''"

definition pg_detail_not_permitted :: string where
  "pg_detail_not_permitted =
     ''The refusal arrived before any credential was presented, so it is a ''
     @ ''decision about the connecting role and the address it connected from rather than ''
     @ ''about the credential itself.'' @ newline
     @ ''It is relative to this vantage point: host-based access rules match on the source ''
     @ ''address, so the same role may be permitted from elsewhere.''"

definition pg_recommend_not_permitted :: string where
  "pg_recommend_not_permitted =
     ''Review this endpoint's host-based access rules for the role this ''
     @ ''run used and for the address this run connected from''"

definition pg_sentence_unattributable :: string where
  "pg_sentence_unattributable =
     ''svcdoctor could not attribute this outcome to a specific cause.''"

definition pg_sentence_not_native :: string where
  "pg_sentence_not_native =
     ''The response did not carry the non-localized severity field that a ''
     @ ''PostgreSQL backend has sent since 9.6.''"

definition pg_sentence_connection_limit_reached :: string where
  "pg_sentence_connection_limit_reached =
     ''That is the endpoint's own too_many_connections ''
     @ ''condition: a connection limit that applied to the attempted session had been ''
     @ ''reached. The response does not say which limit.''"

definition pg_rationale_not_permitted :: string where
  "pg_rationale_not_permitted =
     ''The endpoint refused the connection on its host-based rules ''
     @ ''rather than on the credential, so the decision keyed on the role and the address this run ''
     @ ''connected from; those rules are the server's and PostgreSQL BASIC executes no SQL to read ''
     @ ''them.''"

definition pg_code_tls_declined :: finding_code where
  "pg_code_tls_declined =
     ''POSTGRES_TLS_DECLINED''"

definition pg_code_ssl_negotiation_failed :: finding_code where
  "pg_code_ssl_negotiation_failed =
     ''POSTGRES_SSL_NEGOTIATION_FAILED''"

definition pg_summary_tls_declined :: string where
  "pg_summary_tls_declined =
     ''The PostgreSQL endpoint declined the requested TLS upgrade''"

definition pg_detail_tls_declined :: string where
  "pg_detail_tls_declined =
     ''svcdoctor sent an SSLRequest because this run required an encrypted ''
     @ ''channel, and the endpoint answered that it would not encrypt this connection.'' @ newline
     @ ''Nothing was sent afterwards and no credential was presented.''"

definition pg_recommend_tls_declined :: string where
  "pg_recommend_tls_declined =
     ''Check whether this PostgreSQL endpoint is configured to accept ''
     @ ''encrypted connections, and whether anything between this vantage point and it ''
     @ ''answers the SSLRequest on its behalf''"

definition pg_summary_ssl_negotiation_failed :: string where
  "pg_summary_ssl_negotiation_failed =
     ''The PostgreSQL SSL negotiation did not complete at this ''
     @ ''endpoint''"

definition pg_detail_ssl_negotiation_failed :: string where
  "pg_detail_ssl_negotiation_failed =
     ''svcdoctor sent an SSLRequest because this run required an ''
     @ ''encrypted channel, and the exchange did not complete. What arrived instead '' @ em_dash @ '' an ''
     @ ''answer the protocol does not define, a peer that closed, or a reply that could not ''
     @ ''be decoded '' @ em_dash @ '' is recorded on the referenced evidence.'' @ newline
     @ ''This does not establish what is at this endpoint. A PostgreSQL server behind ''
     @ ''something that rewrites its answers and a service that speaks another protocol ''
     @ ''entirely can produce the same observation, and svcdoctor observed neither.'' @ newline
     @ ''The exchange stopped here: nothing was encrypted, and nothing was presented to ''
     @ ''this endpoint afterwards.''"

definition pg_recommend_ssl_negotiation_failed :: string where
  "pg_recommend_ssl_negotiation_failed =
     ''Check that this endpoint is the PostgreSQL service this ''
     @ ''run was meant to reach, and read the referenced evidence for what the exchange ''
     @ ''observed''"

definition pg_rationale_ssl_negotiation_failed :: string where
  "pg_rationale_ssl_negotiation_failed =
     ''The endpoint answered the socket and not the PostgreSQL ''
     @ ''SSL negotiation, so something is listening and what it is remains open; the ''
     @ ''referenced evidence records what the exchange observed and names no cause.''"

definition pg_rationale_tls_declined :: string where
  "pg_rationale_tls_declined =
     ''The endpoint declined encryption, which is a valid answer for a ''
     @ ''server configured to decline it and also what a middlebox answering on its behalf ''
     @ ''would send; whether this endpoint accepts encrypted connections at all is what ''
     @ ''separates the two.''"

definition pg_code_tls_upgrade_not_honored :: finding_code where
  "pg_code_tls_upgrade_not_honored =
     ''POSTGRES_TLS_UPGRADE_NOT_HONORED''"

definition pg_code_tls_identity_mismatch :: finding_code where
  "pg_code_tls_identity_mismatch =
     ''POSTGRES_TLS_IDENTITY_MISMATCH''"

definition pg_code_tls_chain_not_trusted :: finding_code where
  "pg_code_tls_chain_not_trusted =
     ''POSTGRES_TLS_CHAIN_NOT_TRUSTED''"

definition pg_code_tls_certificate_not_valid_now :: finding_code where
  "pg_code_tls_certificate_not_valid_now =
     ''POSTGRES_TLS_CERTIFICATE_NOT_VALID_NOW''"

definition pg_code_tls_handshake_failed :: finding_code where
  "pg_code_tls_handshake_failed =
     ''POSTGRES_TLS_HANDSHAKE_FAILED''"

definition pg_summary_tls_upgrade_not_honored :: string where
  "pg_summary_tls_upgrade_not_honored =
     ''The PostgreSQL endpoint agreed to encrypt this connection ''
     @ ''and then did not complete a TLS handshake''"

definition pg_detail_tls_upgrade_not_honored :: string where
  "pg_detail_tls_upgrade_not_honored =
     ''svcdoctor sent an SSLRequest, the endpoint answered that it ''
     @ ''would encrypt, and what answered next was not a TLS record.'' @ newline
     @ ''This does not establish what answered. A connection pooler, a plaintext listener and ''
     @ ''anything else that accepts the connection produce the same observation, and svcdoctor ''
     @ ''observed none of them.'' @ newline
     @ ''What responds on a given path can differ by network position.''"

definition pg_summary_tls_identity_mismatch :: string where
  "pg_summary_tls_identity_mismatch =
     ''The certificate presented for the PostgreSQL TLS upgrade ''
     @ ''does not match the identity this run verified''"

definition pg_detail_tls_identity_mismatch :: string where
  "pg_detail_tls_identity_mismatch =
     ''The endpoint agreed to encrypt and presented a certificate, ''
     @ ''and no name it carries matched the server identity this run asked for. The requested ''
     @ ''identity and the names the certificate carries are both recorded on the referenced ''
     @ ''evidence.'' @ newline
     @ ''This says nothing about whether the certificate is otherwise valid, nor about who ''
     @ ''issued it.'' @ newline
     @ ''What is presented on a given path can differ by network position.''"

definition pg_summary_tls_chain_not_trusted :: string where
  "pg_summary_tls_chain_not_trusted =
     ''The certificate chain presented for the PostgreSQL TLS ''
     @ ''upgrade did not verify against this run's trust context''"

definition pg_detail_tls_chain_not_trusted :: string where
  "pg_detail_tls_chain_not_trusted =
     ''The endpoint agreed to encrypt and presented a chain that did ''
     @ ''not verify against the trust material this run was given. Whether that material was ''
     @ ''the system store or supplied to this run is recorded on the referenced evidence.'' @ newline
     @ ''A chain that does not verify here may verify elsewhere: this is a statement about ''
     @ ''this run's trust context as much as about the chain.''"

definition pg_summary_tls_certificate_not_valid_now :: string where
  "pg_summary_tls_certificate_not_valid_now =
     ''The certificate presented for the PostgreSQL TLS ''
     @ ''upgrade is outside its validity window''"

definition pg_detail_tls_certificate_not_valid_now :: string where
  "pg_detail_tls_certificate_not_valid_now =
     ''The endpoint agreed to encrypt and presented a ''
     @ ''certificate whose validity window does not contain the moment this run measured it. ''
     @ ''The window is recorded on the referenced evidence, alongside the time the handshake ''
     @ ''started.'' @ newline
     @ ''The comparison was made against this host's clock, so a clock that is wrong here ''
     @ ''produces this outcome against a certificate that is valid.'' @ newline
     @ ''What is presented on a given path can differ by network position.''"

definition pg_summary_tls_handshake_failed :: string where
  "pg_summary_tls_handshake_failed =
     ''The PostgreSQL TLS handshake did not complete after the ''
     @ ''endpoint agreed to encrypt''"

definition pg_detail_tls_handshake_failed :: string where
  "pg_detail_tls_handshake_failed =
     ''The endpoint answered that it would encrypt this connection ''
     @ ''and the handshake that followed did not complete.'' @ newline
     @ ''svcdoctor could not attribute this outcome to a specific cause. Several unrelated ''
     @ ''conditions reach it, including a protocol version neither side would accept, which ''
     @ ''arrives in a form this tool declines to identify by its text.''"

definition pg_recommend_tls_upgrade_not_honored :: string where
  "pg_recommend_tls_upgrade_not_honored =
     ''Check what terminates connections at this endpoint after ''
     @ ''PostgreSQL SSL negotiation, and whether it is the component expected to serve TLS''"

definition pg_recommend_tls_identity_mismatch :: string where
  "pg_recommend_tls_identity_mismatch =
     ''Compare the certificate names recorded on the referenced ''
     @ ''evidence with the server identity this run was asked to verify''"

definition pg_recommend_tls_chain_not_trusted :: string where
  "pg_recommend_tls_chain_not_trusted =
     ''Check the trust material this run was given against the ''
     @ ''chain recorded on the referenced evidence''"

definition pg_recommend_tls_certificate_not_valid_now :: string where
  "pg_recommend_tls_certificate_not_valid_now =
     ''Compare the certificate validity window recorded on ''
     @ ''the referenced evidence with this host's clock''"

definition pg_recommend_tls_handshake_failed :: string where
  "pg_recommend_tls_handshake_failed =
     ''Read the referenced evidence for what the handshake ''
     @ ''recorded, and check whether the protocol versions this run offered are acceptable ''
     @ ''to this endpoint''"

definition pg_rationale_tls_upgrade_not_honored :: string where
  "pg_rationale_tls_upgrade_not_honored =
     ''The SSL negotiation was accepted and the handshake that ''
     @ ''should have followed was not served, so something terminates connections at this ''
     @ ''endpoint after negotiation; whether that is the component meant to serve TLS is not ''
     @ ''visible from the client side.''"

definition pg_rationale_tls_identity_mismatch :: string where
  "pg_rationale_tls_identity_mismatch =
     ''Trust and identity are separate and only identity failed, ''
     @ ''so the chain verified and the names did not match the identity this run was asked to ''
     @ ''verify; which of the two is wrong is what the comparison settles.''"

definition pg_rationale_tls_chain_not_trusted :: string where
  "pg_rationale_tls_chain_not_trusted =
     ''The chain the endpoint presented is recorded and the trust ''
     @ ''material this run was given is the other half of the same decision, so comparing them ''
     @ ''separates an unexpected chain from a run given the wrong roots.''"

definition pg_rationale_tls_certificate_not_valid_now :: string where
  "pg_rationale_tls_certificate_not_valid_now =
     ''Validity is a comparison between the certificate's ''
     @ ''window and a clock, and svcdoctor read only this host's; which of the two is the ''
     @ ''surprising half is the one thing the handshake cannot show.''"

definition pg_rationale_tls_handshake_failed :: string where
  "pg_rationale_tls_handshake_failed =
     ''The handshake recorded what it observed and asserts no ''
     @ ''cause, and what versions this endpoint accepts is not something a client learns from ''
     @ ''a handshake that did not complete.''"

definition pg_code_startup_failed :: finding_code where
  "pg_code_startup_failed =
     ''POSTGRES_STARTUP_FAILED''"

definition pg_summary_startup_failed :: string where
  "pg_summary_startup_failed =
     ''The PostgreSQL startup exchange did not complete at this endpoint, ''
     @ ''and no authentication was requested''"

definition pg_detail_startup_failed :: string where
  "pg_detail_startup_failed =
     ''The startup message reached this endpoint and the exchange ended ''
     @ ''without an authentication request.''"

definition pg_recommend_startup_failed :: string where
  "pg_recommend_startup_failed =
     ''Review this endpoint's connection-level logs for the role and ''
     @ ''database this run requested''"

definition pg_rationale_startup_failed :: string where
  "pg_rationale_startup_failed =
     ''The startup exchange did not complete for the role and ''
     @ ''database this run requested, and it named no reason this client can read; the endpoint's ''
     @ ''connection-level log is where an unanswered startup and a refused one differ.''"

definition pg_code_credentials_rejected :: finding_code where
  "pg_code_credentials_rejected =
     ''POSTGRES_CREDENTIALS_REJECTED''"

definition pg_code_peer_verification_failed :: finding_code where
  "pg_code_peer_verification_failed =
     ''POSTGRES_PEER_VERIFICATION_FAILED''"

definition pg_code_mechanism_unavailable :: finding_code where
  "pg_code_mechanism_unavailable =
     ''POSTGRES_AUTHENTICATION_MECHANISM_UNAVAILABLE''"

definition pg_code_unsupported_by_svcdoctor :: finding_code where
  "pg_code_unsupported_by_svcdoctor =
     ''POSTGRES_AUTHENTICATION_UNSUPPORTED_BY_SVCDOCTOR''"

definition pg_code_credential_withheld :: finding_code where
  "pg_code_credential_withheld =
     ''POSTGRES_CREDENTIAL_WITHHELD''"

definition pg_code_credential_not_configured :: finding_code where
  "pg_code_credential_not_configured =
     ''POSTGRES_CREDENTIAL_NOT_CONFIGURED''"

definition pg_code_authentication_failed :: finding_code where
  "pg_code_authentication_failed =
     ''POSTGRES_AUTHENTICATION_FAILED''"

definition pg_summary_credentials_rejected :: string where
  "pg_summary_credentials_rejected =
     ''The PostgreSQL endpoint rejected the authentication material ''
     @ ''svcdoctor presented''"

definition pg_detail_credentials_rejected :: string where
  "pg_detail_credentials_rejected =
     ''The endpoint answered svcdoctor's proof with its own refusal.'' @ newline
     @ ''That response is issued identically for a wrong secret, an unknown role, a corrupted ''
     @ ''proof and a correct secret that needed Unicode preparation '' @ em_dash @ '' deliberately, so that a ''
     @ ''client cannot determine which. svcdoctor reports the refusal and not a cause.''"

definition pg_recommend_credentials_rejected :: string where
  "pg_recommend_credentials_rejected =
     ''Verify the credential configured for this endpoint and the ''
     @ ''role it is meant to authenticate as; the endpoint's own log is the only place a wrong ''
     @ ''secret and an unknown role are distinguished''"

definition pg_summary_peer_verification_failed :: string where
  "pg_summary_peer_verification_failed =
     ''The PostgreSQL endpoint failed authentication proof verification''"

definition pg_detail_peer_verification_failed :: string where
  "pg_detail_peer_verification_failed =
     ''This authentication mechanism authenticates both parties. ''
     @ ''The endpoint accepted the material svcdoctor presented, and then presented a value of ''
     @ ''its own that did not verify against the configured credential.'' @ newline
     @ ''The observation does not say why: an endpoint that does not hold this credential, ''
     @ ''something answering in its place, and a defective implementation are indistinguishable ''
     @ ''from what was exchanged.''"

definition pg_recommend_peer_verification_failed :: string where
  "pg_recommend_peer_verification_failed =
     ''Verify the credential configured for this endpoint, and ''
     @ ''establish what this endpoint is before presenting the credential again''"

definition pg_summary_mechanism_unavailable :: string where
  "pg_summary_mechanism_unavailable =
     ''The PostgreSQL endpoint and svcdoctor have no authentication ''
     @ ''mechanism in common for this connection''"

definition pg_detail_mechanism_unavailable :: string where
  "pg_detail_mechanism_unavailable =
     ''No credential was presented, so nothing is known about it.'' @ newline
     @ ''What the endpoint demanded or advertised is recorded on the referenced startup node.''"

definition pg_recommend_mechanism_not_offered :: string where
  "pg_recommend_mechanism_not_offered =
     ''Check which authentication mechanisms this endpoint offers ''
     @ ''for the role this run used and from the address this run connected from''"

definition pg_recommend_mechanism_unsupported :: string where
  "pg_recommend_mechanism_unsupported =
     ''Diagnose this endpoint with a client that performs the ''
     @ ''authentication method it demands''"

definition pg_summary_unsupported_by_svcdoctor :: string where
  "pg_summary_unsupported_by_svcdoctor =
     ''svcdoctor could not complete the authentication this ''
     @ ''PostgreSQL endpoint required''"

definition pg_detail_unsupported_by_svcdoctor :: string where
  "pg_detail_unsupported_by_svcdoctor =
     ''svcdoctor performs SCRAM-SHA-256 over printable-ASCII ''
     @ ''passwords, a bounded iteration count and bounded SCRAM message sizes, and declines ''
     @ ''the rest. Those bounds are svcdoctor's own defensive limits rather than a protocol ''
     @ ''rule, so the endpoint's message may be entirely valid.'' @ newline
     @ ''The credential was neither accepted nor rejected.''"

definition pg_recommend_unsupported_by_svcdoctor :: string where
  "pg_recommend_unsupported_by_svcdoctor =
     ''Re-run this diagnosis against a role whose password is ''
     @ ''already printable ASCII, or diagnose this endpoint with a client that implements the ''
     @ ''full mechanism''"

definition pg_summary_credential_withheld :: string where
  "pg_summary_credential_withheld =
     ''svcdoctor withheld the credential because this connection did ''
     @ ''not meet the credential-transport policy''"

definition pg_detail_credential_withheld :: string where
  "pg_detail_credential_withheld =
     ''svcdoctor deliberately sent no credential material: the ''
     @ ''referenced blocking node records what this connection proved, and this run's policy ''
     @ ''requires a verified TLS channel before a password crosses it.'' @ newline
     @ ''Nothing was presented, so no refusal took place and nothing is known about the ''
     @ ''credential.''"

definition pg_recommend_credential_withheld :: string where
  "pg_recommend_credential_withheld =
     ''Use --tls require with a trusted certificate chain, or ''
     @ ''supply --tls-ca-file, so this endpoint's identity is verified before a password ''
     @ ''crosses to it''"

definition pg_summary_authentication_failed :: string where
  "pg_summary_authentication_failed =
     ''The PostgreSQL authentication exchange did not complete successfully''"

definition pg_detail_authentication_failed :: string where
  "pg_detail_authentication_failed =
     ''The exchange reached this endpoint and ended without a ''
     @ ''completed authentication.''"

definition pg_recommend_authentication_failed :: string where
  "pg_recommend_authentication_failed =
     ''Review this endpoint's authentication log for the role this ''
     @ ''run used''"

definition pg_summary_credential_not_configured :: string where
  "pg_summary_credential_not_configured =
     ''The PostgreSQL endpoint required authentication and ''
     @ ''this run had no credential to present''"

definition pg_detail_credential_not_configured :: string where
  "pg_detail_credential_not_configured =
     ''svcdoctor reached the authentication step, and the ''
     @ ''endpoint had asked for authentication material this run was not given. Nothing was ''
     @ ''sent: no authentication was attempted, so the endpoint neither accepted nor refused ''
     @ ''anything, and nothing here says whether a credential would have worked.'' @ newline
     @ ''The authentication this endpoint asked for is recorded on the referenced startup ''
     @ ''node. Which methods it asks for can depend on where the connection came from, so an ''
     @ ''endpoint that demands authentication here may not from elsewhere.''"

definition pg_recommend_credential_not_configured :: string where
  "pg_recommend_credential_not_configured =
     ''Supply a credential for this endpoint and the role ''
     @ ''this run used, or check whether this endpoint was expected to accept the connection ''
     @ ''without one''"

definition pg_rationale_credential_withheld :: string where
  "pg_rationale_credential_withheld =
     ''svcdoctor sent no credential material because this ''
     @ ''connection did not verify the endpoint's identity, so no refusal took place and ''
     @ ''nothing is known about the credential; what a verified channel would have produced ''
     @ ''is the observation this run did not take.''"

definition pg_rationale_unsupported_by_svcdoctor :: string where
  "pg_rationale_unsupported_by_svcdoctor =
     ''svcdoctor declined on its own defensive bounds rather ''
     @ ''than on anything the endpoint did, and the credential was neither accepted nor ''
     @ ''rejected; which role this run uses and which client performs the mechanism are both ''
     @ ''inputs this run was given.''"

definition pg_rationale_mechanism_unsupported :: string where
  "pg_rationale_mechanism_unsupported =
     ''The endpoint demanded an authentication method svcdoctor ''
     @ ''does not perform and no credential was presented, so this states the tool's coverage ''
     @ ''and nothing about the endpoint; what a client performing that method would observe ''
     @ ''is still open.''"

definition pg_rationale_credentials_rejected :: string where
  "pg_rationale_credentials_rejected =
     ''The endpoint rejected the credential and said nothing ''
     @ ''about which half was wrong, so a mistyped secret and a role the server does not know ''
     @ ''are the same observation here; the endpoint's own log is where they separate.''"

definition pg_rationale_peer_verification_failed :: string where
  "pg_rationale_peer_verification_failed =
     ''A credential was withheld from a peer this run could ''
     @ ''not identify, so what the endpoint is comes before what it would have said about the ''
     @ ''credential, and neither is established yet.''"

definition pg_rationale_authentication_failed :: string where
  "pg_rationale_authentication_failed =
     ''Authentication ended without the endpoint stating a ''
     @ ''reason this client can read, which is not the same as a rejection; the endpoint's ''
     @ ''authentication log for this role is the only place the two are told apart.''"

definition pg_rationale_credential_not_configured :: string where
  "pg_rationale_credential_not_configured =
     ''No credential was supplied, so authentication was ''
     @ ''never attempted and the endpoint took no position on one; whether this endpoint was ''
     @ ''meant to admit this role without one is an intent nobody declared to svcdoctor.''"

definition pg_rationale_mechanism_not_offered :: string where
  "pg_rationale_mechanism_not_offered =
     ''The endpoint offers mechanisms selected by its own ''
     @ ''host-based rules for the role and the address of this attempt, so the same endpoint ''
     @ ''can demand a different one of a client elsewhere; which mechanisms apply here is held ''
     @ ''on the server's side.''"

definition pg_code_database_not_found :: finding_code where
  "pg_code_database_not_found =
     ''POSTGRES_DATABASE_NOT_FOUND''"

definition pg_code_database_connect_denied :: finding_code where
  "pg_code_database_connect_denied =
     ''POSTGRES_DATABASE_CONNECT_DENIED''"

definition pg_code_connection_limit_reached :: finding_code where
  "pg_code_connection_limit_reached =
     ''POSTGRES_CONNECTION_LIMIT_REACHED''"

definition pg_code_session_establishment_failed :: finding_code where
  "pg_code_session_establishment_failed =
     ''POSTGRES_SESSION_ESTABLISHMENT_FAILED''"

definition pg_summary_database_not_found :: string where
  "pg_summary_database_not_found =
     ''PostgreSQL reported that the requested database is not available''"

definition pg_detail_database_not_found :: string where
  "pg_detail_database_not_found =
     ''This endpoint accepted the connection's authentication and then ''
     @ ''refused it with the code whose own meaning is an absent database.'' @ newline
     @ ''Several distinct conditions produce that code '' @ em_dash @ '' no catalog entry, an entry that ''
     @ ''disappeared during the lookup, and an entry whose files are missing '' @ em_dash @ '' so svcdoctor ''
     @ ''reports the absence and not its cause.''"

definition pg_recommend_database_not_found :: string where
  "pg_recommend_database_not_found =
     ''Verify that the database name this run requested exists and is ''
     @ ''available at this endpoint''"

definition pg_summary_database_connect_denied :: string where
  "pg_summary_database_connect_denied =
     ''The PostgreSQL endpoint denied this session CONNECT access ''
     @ ''to the requested database''"

definition pg_detail_database_connect_denied :: string where
  "pg_detail_database_connect_denied =
     ''This endpoint accepted the connection's authentication and ''
     @ ''then denied it access to the requested database.'' @ newline
     @ ''It says nothing about any other privilege: svcdoctor issues no statement, so no other ''
     @ ''privilege check can have run.''"

definition pg_recommend_database_connect_denied :: string where
  "pg_recommend_database_connect_denied =
     ''Review the CONNECT privilege on the requested database for ''
     @ ''the role this run used''"

definition pg_summary_connection_limit_reached :: string where
  "pg_summary_connection_limit_reached =
     ''The PostgreSQL endpoint refused this session with its ''
     @ ''too_many_connections condition''"

definition pg_detail_connection_limit_reached :: string where
  "pg_detail_connection_limit_reached =
     ''This endpoint accepted the connection's authentication ''
     @ ''and then refused the session, reporting its own too_many_connections condition: ''
     @ ''a connection limit that applied to this attempted session had been reached.'' @ newline
     @ ''The endpoint named that condition itself, in a field its protocol defines, so the ''
     @ ''refusal is what was observed rather than what svcdoctor inferred. It is a ''
     @ ''statement about this one attempt, at the moment it was made.'' @ newline
     @ ''Which limit was reached is not in the response. More than one connection limit can ''
     @ ''govern a single PostgreSQL session, and which one governs depends on the session's ''
     @ ''own context '' @ em_dash @ '' the role this run authenticated as, among others.'' @ newline
     @ ''The response also carries nothing about why that limit was reached, how long it had ''
     @ ''been reached, or where it is enforced: an element in the path may impose a ceiling ''
     @ ''of its own and report it under a different code entirely. A later attempt may ''
     @ ''succeed.''"

definition pg_recommend_connection_limit_reached :: string where
  "pg_recommend_connection_limit_reached =
     ''Identify the connection limits applicable to this ''
     @ ''attempted session and compare their current usage with their configured limits''"

definition pg_rationale_connection_limit_reached :: string where
  "pg_rationale_connection_limit_reached =
     ''The endpoint stated that a connection limit applying ''
     @ ''to this attempted session had been reached, and named neither the limit nor how ''
     @ ''much of it was in use; establishing which limits applied and comparing each one's ''
     @ ''usage with its configured value is what identifies the limit that was reached and ''
     @ ''whether it still is.''"

definition pg_summary_session_establishment_failed :: string where
  "pg_summary_session_establishment_failed =
     ''The PostgreSQL session did not reach ReadyForQuery ''
     @ ''after authentication completed''"

definition pg_detail_session_establishment_failed :: string where
  "pg_detail_session_establishment_failed =
     ''This endpoint accepted the connection's authentication ''
     @ ''and then ended the session before it was usable.''"

definition pg_recommend_session_establishment_failed :: string where
  "pg_recommend_session_establishment_failed =
     ''Review this endpoint's log for the session it ''
     @ ''accepted and then closed''"

definition pg_rationale_database_not_found :: string where
  "pg_rationale_database_not_found =
     ''The endpoint answered that the requested database is not ''
     @ ''there, which fixes the mismatch and not which half of it is wrong; the name this run ''
     @ ''asked for and the databases the endpoint serves are the two halves.''"

definition pg_rationale_database_connect_denied :: string where
  "pg_rationale_database_connect_denied =
     ''The endpoint admitted the role and refused it this ''
     @ ''database, so the credential is not in question and the CONNECT privilege is; that ''
     @ ''privilege is a server-side grant PostgreSQL BASIC executes no SQL to read.''"

definition pg_rationale_session_establishment_failed :: string where
  "pg_rationale_session_establishment_failed =
     ''The endpoint accepted the connection and then ''
     @ ''ended it before the session was usable, so the failure is after admission and before ''
     @ ''readiness; the endpoint's log for that connection is the only record of what closed ''
     @ ''it.''"

definition pg_code_admission_scope :: finding_code where
  "pg_code_admission_scope =
     ''POSTGRES_ADMISSION_SCOPE''"

definition pg_detail_admission_meaning :: string where
  "pg_detail_admission_meaning =
     ''This counts what was measured about each address the target ''
     @ ''resolved to, at the stage before any credential is presented. It attributes no ''
     @ ''cause, and it states nothing about why any address answered as it did.'' @ newline
     @ ''A refusal at this stage is a decision about the connecting role and the address it ''
     @ ''connected from, so it is relative to this vantage point: host-based access rules ''
     @ ''match on the source address, and the same role may be permitted from elsewhere.''"

definition pg_detail_admission_contrast :: string where
  "pg_detail_admission_contrast =
     newline @ ''The addresses did not answer alike. That is consistent with ''
     @ ''one endpoint whose admission rules select on the address reached, and equally ''
     @ ''consistent with the addresses being served by different endpoints; svcdoctor ''
     @ ''measured the difference and not its cause.''"

definition pg_detail_admission_uniform :: string where
  "pg_detail_admission_uniform =
     newline @ ''Every address this target resolved to was measured and every ''
     @ ''one refused, so the counts above account for the whole set.''"

definition pg_detail_admission_incomplete :: string where
  "pg_detail_admission_incomplete =
     newline @ ''Some addresses reached no admission decision, so nothing is ''
     @ ''claimed about them and no count here is a total. An address whose decision was not ''
     @ ''observed is not an address that was refused.''"

definition pg_recommend_admission_contrast :: string where
  "pg_recommend_admission_contrast =
     ''Compare this endpoint's host-based access rules for the ''
     @ ''addresses that refused the connection with the rules for the addresses that ''
     @ ''accepted it, for the role this run used''"

definition pg_rationale_admission_contrast :: string where
  "pg_rationale_admission_contrast =
     ''The role and the database this run used did not change ''
     @ ''between the addresses, so what differed is something only the endpoint's own ''
     @ ''admission rules and the addresses themselves can account for; which of the two it ''
     @ ''is decides whether this is one endpoint with a gap in its rules or two endpoints ''
     @ ''with different ones.''"

definition pg_recommend_admission_unmeasured :: string where
  "pg_recommend_admission_unmeasured =
     ''Re-run with a larger execution budget so the addresses ''
     @ ''that reached no admission decision are attempted''"

definition pg_rationale_admission_unmeasured :: string where
  "pg_rationale_admission_unmeasured =
     ''The counts above are partial while any address is ''
     @ ''undetermined, and a complete set is what would show how far the refusals reach ''
     @ ''across the addresses this target resolved to.''"

subsection \<open>The texts are accepted\<close>

lemma pg_code_texts:
  "finding_code_valid pg_code_connection_not_permitted"
  "finding_code_valid pg_code_tls_declined"
  "finding_code_valid pg_code_ssl_negotiation_failed"
  "finding_code_valid pg_code_tls_upgrade_not_honored"
  "finding_code_valid pg_code_tls_identity_mismatch"
  "finding_code_valid pg_code_tls_chain_not_trusted"
  "finding_code_valid pg_code_tls_certificate_not_valid_now"
  "finding_code_valid pg_code_tls_handshake_failed"
  "finding_code_valid pg_code_startup_failed"
  "finding_code_valid pg_code_credentials_rejected"
  "finding_code_valid pg_code_peer_verification_failed"
  "finding_code_valid pg_code_mechanism_unavailable"
  "finding_code_valid pg_code_unsupported_by_svcdoctor"
  "finding_code_valid pg_code_credential_withheld"
  "finding_code_valid pg_code_credential_not_configured"
  "finding_code_valid pg_code_authentication_failed"
  "finding_code_valid pg_code_database_not_found"
  "finding_code_valid pg_code_database_connect_denied"
  "finding_code_valid pg_code_connection_limit_reached"
  "finding_code_valid pg_code_session_establishment_failed"
  "finding_code_valid pg_code_admission_scope"
  unfolding pg_code_connection_not_permitted_def pg_code_tls_declined_def pg_code_ssl_negotiation_failed_def
    pg_code_tls_upgrade_not_honored_def pg_code_tls_identity_mismatch_def pg_code_tls_chain_not_trusted_def
    pg_code_tls_certificate_not_valid_now_def pg_code_tls_handshake_failed_def pg_code_startup_failed_def
    pg_code_credentials_rejected_def pg_code_peer_verification_failed_def pg_code_mechanism_unavailable_def
    pg_code_unsupported_by_svcdoctor_def pg_code_credential_withheld_def pg_code_credential_not_configured_def
    pg_code_authentication_failed_def pg_code_database_not_found_def pg_code_database_connect_denied_def
    pg_code_connection_limit_reached_def pg_code_session_establishment_failed_def pg_code_admission_scope_def
  by (simp_all add: finding_code_ok code_char_def is_upper_def is_digit_def cong: rule_congs)

lemma pg_summary_texts:
  "rule_line pg_summary_not_permitted"
  "rule_line pg_summary_tls_declined"
  "rule_line pg_summary_ssl_negotiation_failed"
  "rule_line pg_summary_tls_upgrade_not_honored"
  "rule_line pg_summary_tls_identity_mismatch"
  "rule_line pg_summary_tls_chain_not_trusted"
  "rule_line pg_summary_tls_certificate_not_valid_now"
  "rule_line pg_summary_tls_handshake_failed"
  "rule_line pg_summary_startup_failed"
  "rule_line pg_summary_credentials_rejected"
  "rule_line pg_summary_peer_verification_failed"
  "rule_line pg_summary_mechanism_unavailable"
  "rule_line pg_summary_unsupported_by_svcdoctor"
  "rule_line pg_summary_credential_withheld"
  "rule_line pg_summary_authentication_failed"
  "rule_line pg_summary_credential_not_configured"
  "rule_line pg_summary_database_not_found"
  "rule_line pg_summary_database_connect_denied"
  "rule_line pg_summary_connection_limit_reached"
  "rule_line pg_summary_session_establishment_failed"
  unfolding pg_summary_not_permitted_def pg_summary_tls_declined_def pg_summary_ssl_negotiation_failed_def
    pg_summary_tls_upgrade_not_honored_def pg_summary_tls_identity_mismatch_def
    pg_summary_tls_chain_not_trusted_def pg_summary_tls_certificate_not_valid_now_def
    pg_summary_tls_handshake_failed_def pg_summary_startup_failed_def pg_summary_credentials_rejected_def
    pg_summary_peer_verification_failed_def pg_summary_mechanism_unavailable_def
    pg_summary_unsupported_by_svcdoctor_def pg_summary_credential_withheld_def
    pg_summary_authentication_failed_def pg_summary_credential_not_configured_def
    pg_summary_database_not_found_def pg_summary_database_connect_denied_def
    pg_summary_connection_limit_reached_def pg_summary_session_establishment_failed_def
  by (simp_all add: eval_text_rules cong: rule_congs)

lemma pg_detail_texts:
  "rule_text pg_detail_not_permitted"
  "rule_text pg_detail_tls_declined"
  "rule_text pg_detail_ssl_negotiation_failed"
  "rule_text pg_detail_tls_upgrade_not_honored"
  "rule_text pg_detail_tls_identity_mismatch"
  "rule_text pg_detail_tls_chain_not_trusted"
  "rule_text pg_detail_tls_certificate_not_valid_now"
  "rule_text pg_detail_tls_handshake_failed"
  "rule_text pg_detail_startup_failed"
  "rule_text pg_detail_credentials_rejected"
  "rule_text pg_detail_peer_verification_failed"
  "rule_text pg_detail_mechanism_unavailable"
  "rule_text pg_detail_unsupported_by_svcdoctor"
  "rule_text pg_detail_credential_withheld"
  "rule_text pg_detail_authentication_failed"
  "rule_text pg_detail_credential_not_configured"
  "rule_text pg_detail_database_not_found"
  "rule_text pg_detail_database_connect_denied"
  "rule_text pg_detail_connection_limit_reached"
  "rule_text pg_detail_session_establishment_failed"
  "rule_text pg_detail_admission_meaning"
  unfolding pg_detail_not_permitted_def pg_detail_tls_declined_def pg_detail_ssl_negotiation_failed_def
    pg_detail_tls_upgrade_not_honored_def pg_detail_tls_identity_mismatch_def
    pg_detail_tls_chain_not_trusted_def pg_detail_tls_certificate_not_valid_now_def
    pg_detail_tls_handshake_failed_def pg_detail_startup_failed_def pg_detail_credentials_rejected_def
    pg_detail_peer_verification_failed_def pg_detail_mechanism_unavailable_def
    pg_detail_unsupported_by_svcdoctor_def pg_detail_credential_withheld_def
    pg_detail_authentication_failed_def pg_detail_credential_not_configured_def
    pg_detail_database_not_found_def pg_detail_database_connect_denied_def
    pg_detail_connection_limit_reached_def pg_detail_session_establishment_failed_def
    pg_detail_admission_meaning_def
  by (simp_all add: eval_text_rules cong: rule_congs)

lemma pg_recommend_texts:
  "plain_action pg_recommend_not_permitted"
  "plain_action pg_recommend_tls_declined"
  "plain_action pg_recommend_ssl_negotiation_failed"
  "plain_action pg_recommend_tls_upgrade_not_honored"
  "plain_action pg_recommend_tls_identity_mismatch"
  "plain_action pg_recommend_tls_chain_not_trusted"
  "plain_action pg_recommend_tls_certificate_not_valid_now"
  "plain_action pg_recommend_tls_handshake_failed"
  "plain_action pg_recommend_startup_failed"
  "plain_action pg_recommend_credentials_rejected"
  "plain_action pg_recommend_peer_verification_failed"
  "plain_action pg_recommend_mechanism_not_offered"
  "plain_action pg_recommend_mechanism_unsupported"
  "plain_action pg_recommend_unsupported_by_svcdoctor"
  "plain_action pg_recommend_credential_withheld"
  "plain_action pg_recommend_authentication_failed"
  "plain_action pg_recommend_credential_not_configured"
  "plain_action pg_recommend_database_not_found"
  "plain_action pg_recommend_database_connect_denied"
  "plain_action pg_recommend_connection_limit_reached"
  "plain_action pg_recommend_session_establishment_failed"
  "plain_action pg_recommend_admission_contrast"
  "plain_action pg_recommend_admission_unmeasured"
  unfolding pg_recommend_not_permitted_def pg_recommend_tls_declined_def
    pg_recommend_ssl_negotiation_failed_def pg_recommend_tls_upgrade_not_honored_def
    pg_recommend_tls_identity_mismatch_def pg_recommend_tls_chain_not_trusted_def
    pg_recommend_tls_certificate_not_valid_now_def pg_recommend_tls_handshake_failed_def
    pg_recommend_startup_failed_def pg_recommend_credentials_rejected_def
    pg_recommend_peer_verification_failed_def pg_recommend_mechanism_not_offered_def
    pg_recommend_mechanism_unsupported_def pg_recommend_unsupported_by_svcdoctor_def
    pg_recommend_credential_withheld_def pg_recommend_authentication_failed_def
    pg_recommend_credential_not_configured_def pg_recommend_database_not_found_def
    pg_recommend_database_connect_denied_def pg_recommend_connection_limit_reached_def
    pg_recommend_session_establishment_failed_def pg_recommend_admission_contrast_def
    pg_recommend_admission_unmeasured_def
  by (simp_all add: eval_action_rules eval_plain_word cong: rule_congs)

lemma pg_rationale_texts:
  "rule_line pg_rationale_not_permitted"
  "rule_line pg_rationale_ssl_negotiation_failed"
  "rule_line pg_rationale_tls_declined"
  "rule_line pg_rationale_tls_upgrade_not_honored"
  "rule_line pg_rationale_tls_identity_mismatch"
  "rule_line pg_rationale_tls_chain_not_trusted"
  "rule_line pg_rationale_tls_certificate_not_valid_now"
  "rule_line pg_rationale_tls_handshake_failed"
  "rule_line pg_rationale_startup_failed"
  "rule_line pg_rationale_credential_withheld"
  "rule_line pg_rationale_unsupported_by_svcdoctor"
  "rule_line pg_rationale_mechanism_unsupported"
  "rule_line pg_rationale_credentials_rejected"
  "rule_line pg_rationale_peer_verification_failed"
  "rule_line pg_rationale_authentication_failed"
  "rule_line pg_rationale_credential_not_configured"
  "rule_line pg_rationale_mechanism_not_offered"
  "rule_line pg_rationale_connection_limit_reached"
  "rule_line pg_rationale_database_not_found"
  "rule_line pg_rationale_database_connect_denied"
  "rule_line pg_rationale_session_establishment_failed"
  "rule_line pg_rationale_admission_contrast"
  "rule_line pg_rationale_admission_unmeasured"
  unfolding pg_rationale_not_permitted_def pg_rationale_ssl_negotiation_failed_def
    pg_rationale_tls_declined_def pg_rationale_tls_upgrade_not_honored_def
    pg_rationale_tls_identity_mismatch_def pg_rationale_tls_chain_not_trusted_def
    pg_rationale_tls_certificate_not_valid_now_def pg_rationale_tls_handshake_failed_def
    pg_rationale_startup_failed_def pg_rationale_credential_withheld_def
    pg_rationale_unsupported_by_svcdoctor_def pg_rationale_mechanism_unsupported_def
    pg_rationale_credentials_rejected_def pg_rationale_peer_verification_failed_def
    pg_rationale_authentication_failed_def pg_rationale_credential_not_configured_def
    pg_rationale_mechanism_not_offered_def pg_rationale_connection_limit_reached_def
    pg_rationale_database_not_found_def pg_rationale_database_connect_denied_def
    pg_rationale_session_establishment_failed_def pg_rationale_admission_contrast_def
    pg_rationale_admission_unmeasured_def
  by (simp_all add: eval_text_rules cong: rule_congs)

lemma pg_sentence_texts:
  "rule_text pg_sentence_unattributable"
  "rule_text pg_sentence_not_native"
  "rule_text pg_sentence_connection_limit_reached"
  unfolding pg_sentence_unattributable_def pg_sentence_not_native_def pg_sentence_connection_limit_reached_def
  by (simp_all add: eval_text_rules cong: rule_congs)

text \<open>What is appended to the meaning of an admission scope begins with a line break.\<close>

lemma pg_detail_tail_texts:
  "dashed text_char pg_detail_admission_contrast" "ends_clean pg_detail_admission_contrast"
  "dashed text_char pg_detail_admission_uniform" "ends_clean pg_detail_admission_uniform"
  "dashed text_char pg_detail_admission_incomplete" "ends_clean pg_detail_admission_incomplete"
  unfolding pg_detail_admission_contrast_def pg_detail_admission_uniform_def pg_detail_admission_incomplete_def
  by (simp_all add: eval_text_rules cong: rule_congs)

end
