(* ===== verification/PgRules.thy ===== *)
theory PgRules
  imports TransportRules PgRuleTexts PgSteps
begin

text \<open>
  Package \<open>internal/diagnosis/postgres\<close>: the rules over the evidence of the PostgreSQL steps. Each of
  \<open>sslrequest.go\<close>, \<open>tls.go\<close>, \<open>startup.go\<close>, \<open>authentication.go\<close> and \<open>session.go\<close> judges the nodes of one step;
  \<open>admission.go\<close> counts over the addresses of the target.
\<close>

subsection \<open>Shared (shared.go)\<close>

definition pg_build :: "finding_input \<Rightarrow> finding option" where
  "pg_build i = (case new_finding i of Inl _ \<Rightarrow> None | Inr f \<Rightarrow> Some f)"

definition advise :: "safety_class \<Rightarrow> string \<Rightarrow> string \<Rightarrow> recommendation list" where
  "advise safety action rationale =
     recommend (next_evidence safety action rationale False) FindingKindConfirmed ConfidenceHigh"

text \<open>A finding of the rules: CONFIRMED, of HIGH confidence, without a discriminator.\<close>

definition pg_finding :: "finding_code \<Rightarrow> severity \<Rightarrow> layer \<Rightarrow> subject \<Rightarrow> string \<Rightarrow> string \<Rightarrow>
    evidence_id list \<Rightarrow> recommendation list \<Rightarrow> bool \<Rightarrow> finding_input" where
  "pg_finding fc sev layer subject summary detail refs recs vantage = \<lparr>
     f_code = fc, f_kind = FindingKindConfirmed, f_severity = sev, f_confidence = ConfidenceHigh,
     f_layer = layer, f_subject = subject, f_summary = summary, f_detail = detail, f_refs = refs,
     f_recs = recs, f_vantage = vantage, f_discriminator = []\<rparr>"

definition not_permitted :: "evidence \<Rightarrow> layer \<Rightarrow> evidence_id list \<Rightarrow> finding option" where
  "not_permitted anchor layer refs =
     pg_build (pg_finding pg_code_connection_not_permitted SeverityError layer (ev_subject anchor)
       pg_summary_not_permitted pg_detail_not_permitted refs
       (advise SafetyObserve pg_recommend_not_permitted pg_rationale_not_permitted) True)"

fun parents_with_step :: "graph \<Rightarrow> step_name \<Rightarrow> evidence_id list \<Rightarrow> evidence list" where
  "parents_with_step g step [] = []"
| "parents_with_step g step (x # xs) =
     (case graph_node g x of
        None \<Rightarrow> parents_with_step g step xs
      | Some parent \<Rightarrow>
          if ev_step parent \<noteq> step then parents_with_step g step xs
          else parent # parents_with_step g step xs)"

definition parent_with_step :: "graph \<Rightarrow> evidence \<Rightarrow> step_name \<Rightarrow> evidence option" where
  "parent_with_step g node step =
     (case parents_with_step g step (graph_parents g (ev_id node)) of [parent] \<Rightarrow> Some parent | _ \<Rightarrow> None)"

definition node_string_attr :: "evidence \<Rightarrow> attribute_key \<Rightarrow> string \<times> bool" where
  "node_string_attr node key =
     (case evidence_attribute node key of (v, found) \<Rightarrow> if \<not> found then ([], False) else attr_get_str v)"

definition node_bool_attr :: "evidence \<Rightarrow> attribute_key \<Rightarrow> bool \<times> bool" where
  "node_bool_attr node key =
     (case evidence_attribute node key of (v, found) \<Rightarrow> if \<not> found then (False, False) else attr_get_bool v)"

definition named_condition :: "string \<Rightarrow> string" where
  "named_condition sqlstate = (if sqlstate = ''53300'' then pg_sentence_connection_limit_reached else [])"

definition sqlstate_sentence :: "string \<Rightarrow> string" where
  "sqlstate_sentence sqlstate = ''The endpoint reported SQLSTATE '' @ sqlstate @ ''.''"

definition reported_code :: "evidence \<Rightarrow> string" where
  "reported_code node = (case node_string_attr node attr_sqlstate of (sqlstate, ok) \<Rightarrow> if ok then sqlstate else [])"

definition not_native :: "evidence \<Rightarrow> bool" where
  "not_native node \<longleftrightarrow> (case node_bool_attr node attr_error_is_native of (native, ok) \<Rightarrow> ok \<and> \<not> native)"

definition observed_detail :: "string \<Rightarrow> evidence \<Rightarrow> string" where
  "observed_detail base node = join_with newline ([base]
     @ (if reported_code node \<noteq> [] then [sqlstate_sentence (reported_code node)] else [])
     @ (if not_native node then [pg_sentence_not_native] else []))"

definition floor_detail :: "string \<Rightarrow> evidence \<Rightarrow> string" where
  "floor_detail base node =
     (let named = (if reported_code node \<noteq> [] then named_condition (reported_code node) else []) in
      join_with newline ([base]
     @ (if reported_code node \<noteq> [] then [sqlstate_sentence (reported_code node)] else [])
     @ (if not_native node then [pg_sentence_not_native] else [])
     @ (if named \<noteq> [] then [named]
        else if ev_failure node = FailureProtocolUnexpectedResponse then [pg_sentence_unattributable]
        else [])))"

text \<open>A rule that judges the nodes of one step on their own.\<close>

definition judge_step :: "step_name \<Rightarrow> (evidence \<Rightarrow> finding option) \<Rightarrow> graph \<Rightarrow> finding list" where
  "judge_step step judge g = List.map_filter judge (filter (\<lambda>node. ev_step node = step) (graph_nodes g))"

subsection \<open>The SSL request (sslrequest.go)\<close>

definition negotiation_floor_classes :: "failure_class list" where
  "negotiation_floor_classes =
     [FailureProtocolUnexpectedResponse, FailureProtocolPeerClosed, FailureProtocolMalformedResponse]"

definition evaluate_ssl_request :: "evidence \<Rightarrow> finding option" where
  "evaluate_ssl_request node =
     (if ev_state node \<noteq> StateFail then None
      else if ev_failure node \<in> set negotiation_floor_classes then
        pg_build (pg_finding pg_code_ssl_negotiation_failed SeverityError LayerTLS (ev_subject node)
          pg_summary_ssl_negotiation_failed pg_detail_ssl_negotiation_failed [ev_id node]
          (advise SafetyVerify pg_recommend_ssl_negotiation_failed pg_rationale_ssl_negotiation_failed) True)
      else if ev_failure node \<noteq> FailureProtocolUnsupportedCapability then None
      else (case node_bool_attr node attr_ssl_offered of (offered, ok) \<Rightarrow>
        if \<not> ok \<or> offered then None
        else pg_build (pg_finding pg_code_tls_declined SeverityError LayerTLS (ev_subject node)
          pg_summary_tls_declined pg_detail_tls_declined [ev_id node]
          (advise SafetyObserve pg_recommend_tls_declined pg_rationale_tls_declined) False)))"

definition ssl_request_rule :: "rule_context \<Rightarrow> finding list" where
  "ssl_request_rule ctx = judge_step step_ssl_request evaluate_ssl_request (ctx_graph ctx)"

subsection \<open>The upgrade to TLS (tls.go)\<close>

definition pg_claim_not_valid_now :: tls_claim where
  "pg_claim_not_valid_now =
     \<lparr>tc_code = pg_code_tls_certificate_not_valid_now, tc_summary = pg_summary_tls_certificate_not_valid_now,
      tc_detail = pg_detail_tls_certificate_not_valid_now,
      tc_recommendation = pg_recommend_tls_certificate_not_valid_now,
      tc_safety = SafetyCompare, tc_rationale = pg_rationale_tls_certificate_not_valid_now\<rparr>"

fun pg_tls_claims :: "failure_class \<Rightarrow> tls_claim option" where
  "pg_tls_claims FailureTLSPeerNotTLS = Some
     \<lparr>tc_code = pg_code_tls_upgrade_not_honored, tc_summary = pg_summary_tls_upgrade_not_honored,
      tc_detail = pg_detail_tls_upgrade_not_honored, tc_recommendation = pg_recommend_tls_upgrade_not_honored,
      tc_safety = SafetyObserve, tc_rationale = pg_rationale_tls_upgrade_not_honored\<rparr>"
| "pg_tls_claims FailureTLSHostnameMismatch = Some
     \<lparr>tc_code = pg_code_tls_identity_mismatch, tc_summary = pg_summary_tls_identity_mismatch,
      tc_detail = pg_detail_tls_identity_mismatch, tc_recommendation = pg_recommend_tls_identity_mismatch,
      tc_safety = SafetyCompare, tc_rationale = pg_rationale_tls_identity_mismatch\<rparr>"
| "pg_tls_claims FailureTLSUnknownAuthority = Some
     \<lparr>tc_code = pg_code_tls_chain_not_trusted, tc_summary = pg_summary_tls_chain_not_trusted,
      tc_detail = pg_detail_tls_chain_not_trusted, tc_recommendation = pg_recommend_tls_chain_not_trusted,
      tc_safety = SafetyCompare, tc_rationale = pg_rationale_tls_chain_not_trusted\<rparr>"
| "pg_tls_claims FailureTLSCertificateExpired = Some pg_claim_not_valid_now"
| "pg_tls_claims FailureTLSCertificateNotYetValid = Some pg_claim_not_valid_now"
| "pg_tls_claims FailureTLSHandshakeFailure = Some
     \<lparr>tc_code = pg_code_tls_handshake_failed, tc_summary = pg_summary_tls_handshake_failed,
      tc_detail = pg_detail_tls_handshake_failed, tc_recommendation = pg_recommend_tls_handshake_failed,
      tc_safety = SafetyObserve, tc_rationale = pg_rationale_tls_handshake_failed\<rparr>"
| "pg_tls_claims _ = None"

definition sole_parent :: "graph \<Rightarrow> evidence \<Rightarrow> evidence option" where
  "sole_parent g node = (case graph_parents g (ev_id node) of [x] \<Rightarrow> graph_node g x | _ \<Rightarrow> None)"

definition pg_evaluate_tls :: "graph \<Rightarrow> evidence \<Rightarrow> finding option" where
  "pg_evaluate_tls g node =
     (if ev_layer node \<noteq> LayerTLS then None
      else if ev_state node \<noteq> StateFail then None
      else (case sole_parent g node of
          None \<Rightarrow> None
        | Some negotiation \<Rightarrow>
            if ev_step negotiation \<noteq> step_ssl_request then None
            else if ev_state negotiation \<noteq> StatePass then None
            else if ev_subject node \<noteq> ev_subject negotiation then None
            else (case pg_tls_claims (ev_failure node) of
                None \<Rightarrow> None
              | Some claim \<Rightarrow>
                  pg_build (pg_finding (tc_code claim) SeverityError LayerTLS (ev_subject node)
                    (tc_summary claim) (tc_detail claim) [ev_id negotiation, ev_id node]
                    (advise (tc_safety claim) (tc_recommendation claim) (tc_rationale claim)) True))))"

definition pg_tls_rule :: "rule_context \<Rightarrow> finding list" where
  "pg_tls_rule ctx = judge_step step_tls_handshake (pg_evaluate_tls (ctx_graph ctx)) (ctx_graph ctx)"

subsection \<open>The startup exchange (startup.go)\<close>

definition evaluate_startup :: "evidence \<Rightarrow> finding option" where
  "evaluate_startup node =
     (if ev_state node \<noteq> StateFail then None
      else if ev_failure node = FailureAuthzNotPermitted then not_permitted node LayerProtocol [ev_id node]
      else pg_build (pg_finding pg_code_startup_failed SeverityError LayerProtocol (ev_subject node)
        pg_summary_startup_failed (floor_detail pg_detail_startup_failed node) [ev_id node]
        (advise SafetyObserve pg_recommend_startup_failed pg_rationale_startup_failed) True))"

definition startup_rule :: "rule_context \<Rightarrow> finding list" where
  "startup_rule ctx = judge_step step_startup evaluate_startup (ctx_graph ctx)"

subsection \<open>Authentication (authentication.go)\<close>

definition credential_not_configured :: "evidence \<Rightarrow> evidence_id list \<Rightarrow> finding option" where
  "credential_not_configured node refs =
     pg_build (pg_finding pg_code_credential_not_configured SeverityWarn LayerAuth (ev_subject node)
       pg_summary_credential_not_configured pg_detail_credential_not_configured refs
       (advise SafetyObserve pg_recommend_credential_not_configured pg_rationale_credential_not_configured) True)"

definition mechanism_unavailable ::
    "evidence \<Rightarrow> severity \<Rightarrow> string \<Rightarrow> safety_class \<Rightarrow> string \<Rightarrow> evidence_id list \<Rightarrow> finding option" where
  "mechanism_unavailable node sev action safety rationale refs =
     pg_build (pg_finding pg_code_mechanism_unavailable sev LayerAuth (ev_subject node)
       pg_summary_mechanism_unavailable pg_detail_mechanism_unavailable refs
       (advise safety action rationale) True)"

definition failed_authentication :: "evidence \<Rightarrow> evidence_id list \<Rightarrow> finding option" where
  "failed_authentication node refs =
     (if ev_failure node = FailureAuthCredentialsRejected then
        pg_build (pg_finding pg_code_credentials_rejected SeverityError LayerAuth (ev_subject node)
          pg_summary_credentials_rejected pg_detail_credentials_rejected refs
          (advise SafetyVerify pg_recommend_credentials_rejected pg_rationale_credentials_rejected) False)
      else if ev_failure node = FailureAuthPeerVerificationFailed then
        pg_build (pg_finding pg_code_peer_verification_failed SeverityError LayerAuth (ev_subject node)
          pg_summary_peer_verification_failed pg_detail_peer_verification_failed refs
          (advise SafetyVerify pg_recommend_peer_verification_failed pg_rationale_peer_verification_failed) True)
      else if ev_failure node = FailureAuthzNotPermitted then not_permitted node LayerAuth refs
      else if ev_failure node = FailureAuthMechanismNotOffered then
        mechanism_unavailable node SeverityWarn pg_recommend_mechanism_not_offered SafetyObserve
          pg_rationale_mechanism_not_offered refs
      else pg_build (pg_finding pg_code_authentication_failed SeverityError LayerAuth (ev_subject node)
        pg_summary_authentication_failed (floor_detail pg_detail_authentication_failed node) refs
        (advise SafetyObserve pg_recommend_authentication_failed pg_rationale_authentication_failed) True))"

definition unknown_authentication :: "evidence \<Rightarrow> evidence_id list \<Rightarrow> finding option" where
  "unknown_authentication node refs =
     (if ev_failure node = FailureAuthMechanismUnsupported then
        mechanism_unavailable node SeverityInfo pg_recommend_mechanism_unsupported SafetyObserve
          pg_rationale_mechanism_unsupported refs
      else if ev_failure node = FailureExecUnsupportedBySvcdoctor then
        pg_build (pg_finding pg_code_unsupported_by_svcdoctor SeverityInfo LayerAuth (ev_subject node)
          pg_summary_unsupported_by_svcdoctor pg_detail_unsupported_by_svcdoctor refs
          (advise SafetyObserve pg_recommend_unsupported_by_svcdoctor pg_rationale_unsupported_by_svcdoctor) True)
      else None)"

definition skipped_authentication :: "graph \<Rightarrow> evidence \<Rightarrow> evidence_id list \<Rightarrow> finding option" where
  "skipped_authentication g node refs =
     (if ev_failure node = FailureExecRequiredInputMissing then credential_not_configured node refs
      else if ev_failure node \<noteq> FailureExecSkippedByPolicy then None
      else pg_build (pg_finding pg_code_credential_withheld SeverityWarn LayerAuth (ev_subject node)
        pg_summary_credential_withheld pg_detail_credential_withheld
        (refs @ filter (\<lambda>x. graph_node g x \<noteq> None) (graph_blocked_by g (ev_id node)))
        (advise SafetyObserve pg_recommend_credential_withheld pg_rationale_credential_withheld) False))"

definition evaluate_authentication :: "graph \<Rightarrow> evidence \<Rightarrow> finding option" where
  "evaluate_authentication g node =
     (let refs = [ev_id node] @ (case parent_with_step g node step_startup of
            None \<Rightarrow> [] | Some st \<Rightarrow> [ev_id st])
      in case ev_state node of
           StateFail \<Rightarrow> failed_authentication node refs
         | StateUnknown \<Rightarrow> unknown_authentication node refs
         | StateSkipped \<Rightarrow> skipped_authentication g node refs
         | _ \<Rightarrow> None)"

definition authentication_rule :: "rule_context \<Rightarrow> finding list" where
  "authentication_rule ctx =
     judge_step step_authentication (evaluate_authentication (ctx_graph ctx)) (ctx_graph ctx)"

subsection \<open>The session (session.go)\<close>

definition proves_authentication :: "evidence \<Rightarrow> bool" where
  "proves_authentication parent \<longleftrightarrow>
     (if ev_state parent \<noteq> StatePass then False
      else if ev_step parent = step_authentication then True
      else if ev_step parent = step_startup then
        (case node_string_attr parent attr_auth_method of (method, ok) \<Rightarrow> ok \<and> method = auth_method_none)
      else False)"

fun authentication_proofs :: "graph \<Rightarrow> evidence_id list \<Rightarrow> evidence list" where
  "authentication_proofs g [] = []"
| "authentication_proofs g (x # xs) =
     (case graph_node g x of
        None \<Rightarrow> authentication_proofs g xs
      | Some parent \<Rightarrow>
          if proves_authentication parent then parent # authentication_proofs g xs
          else authentication_proofs g xs)"

definition authentication_proof :: "graph \<Rightarrow> evidence \<Rightarrow> evidence option" where
  "authentication_proof g session =
     (case authentication_proofs g (graph_parents g (ev_id session)) of [x] \<Rightarrow> Some x | _ \<Rightarrow> None)"

definition startup_of :: "graph \<Rightarrow> evidence \<Rightarrow> evidence option" where
  "startup_of g proof_node =
     (if ev_step proof_node = step_startup then Some proof_node
      else parent_with_step g proof_node step_startup)"

definition evaluate_session :: "graph \<Rightarrow> evidence \<Rightarrow> finding option" where
  "evaluate_session g node =
     (if ev_state node \<noteq> StateFail then None
      else (case authentication_proof g node of
          None \<Rightarrow> None
        | Some proved \<Rightarrow>
            (let refs = [ev_id node, ev_id proved]
                   @ (case startup_of g proved of None \<Rightarrow> [] | Some st \<Rightarrow> [ev_id st])
             in if ev_failure node = FailureResourceNotFound then
                  pg_build (pg_finding pg_code_database_not_found SeverityError LayerAuth (ev_subject node)
                    pg_summary_database_not_found pg_detail_database_not_found refs
                    (advise SafetyVerify pg_recommend_database_not_found pg_rationale_database_not_found) False)
                else if ev_failure node = FailureResourceLimitReached then
                  pg_build (pg_finding pg_code_connection_limit_reached SeverityError LayerAuth (ev_subject node)
                    pg_summary_connection_limit_reached (observed_detail pg_detail_connection_limit_reached node) refs
                    (recommend (next_evidence SafetyCompare pg_recommend_connection_limit_reached
                       pg_rationale_connection_limit_reached False) FindingKindConfirmed ConfidenceHigh) False)
                else if ev_failure node = FailureAuthzDenied then
                  pg_build (pg_finding pg_code_database_connect_denied SeverityError LayerAuth (ev_subject node)
                    pg_summary_database_connect_denied pg_detail_database_connect_denied refs
                    (advise SafetyVerify pg_recommend_database_connect_denied pg_rationale_database_connect_denied)
                    False)
                else pg_build (pg_finding pg_code_session_establishment_failed SeverityError LayerAuth
                  (ev_subject node) pg_summary_session_establishment_failed
                  (floor_detail pg_detail_session_establishment_failed node) refs
                  (advise SafetyObserve pg_recommend_session_establishment_failed
                     pg_rationale_session_establishment_failed) True))))"

definition session_rule :: "rule_context \<Rightarrow> finding list" where
  "session_rule ctx = judge_step step_session (evaluate_session (ctx_graph ctx)) (ctx_graph ctx)"

subsection \<open>The scope of admission (admission.go)\<close>

datatype admission_verdict = AdmissionRefused | AdmissionAccepted | AdmissionUndetermined

record admission_scope =
  ad_anchor :: evidence
  ad_refused :: "evidence list"
  ad_accepted :: "evidence list"
  ad_undetermined :: "evidence list"
  ad_complete :: bool

definition classify_admission :: "evidence \<Rightarrow> admission_verdict" where
  "classify_admission node =
     (if ev_state node = StatePass then AdmissionAccepted
      else if ev_state node = StateFail \<and> ev_failure node = FailureAuthzNotPermitted then AdmissionRefused
      else AdmissionUndetermined)"

definition admission_total :: "admission_scope \<Rightarrow> nat" where
  "admission_total s = length (ad_refused s) + length (ad_accepted s) + length (ad_undetermined s)"

definition admission_scope_of :: "rule_context \<Rightarrow> admission_scope option" where
  "admission_scope_of ctx =
     (let g = ctx_graph ctx;
          startups = filter (\<lambda>node. ev_step node = step_startup) (graph_nodes g)
      in case filter (\<lambda>node. ev_step node = step_target_requested) (graph_nodes g) of
           [anchor] \<Rightarrow>
             if subject_is_zero (ev_subject anchor) then None
             else (let undetermined = filter (\<lambda>n. classify_admission n = AdmissionUndetermined) startups;
                       s = \<lparr>ad_anchor = anchor,
                         ad_refused = filter (\<lambda>n. classify_admission n = AdmissionRefused) startups,
                         ad_accepted = filter (\<lambda>n. classify_admission n = AdmissionAccepted) startups,
                         ad_undetermined = undetermined,
                         ad_complete = undetermined = [] \<and> \<not> ctx_incomplete ctx\<rparr>
                   in if admission_total s < 2 then None else Some s)
         | _ \<Rightarrow> None)"

definition summary_admission_all :: "nat \<Rightarrow> string" where
  "summary_admission_all n =
     ''This PostgreSQL endpoint refused the connection before evaluating ''
     @ ''any credential at all '' @ show_nat n @ '' addresses this target resolved to''"

definition summary_admission_some :: "nat \<Rightarrow> nat \<Rightarrow> nat \<Rightarrow> string" where
  "summary_admission_some refused n accepted =
     ''This PostgreSQL endpoint refused the connection before evaluating ''
     @ ''any credential at '' @ show_nat refused @ '' of the '' @ show_nat n
     @ '' addresses this target resolved to; the startup exchange completed at the other '' @ show_nat accepted"

definition summary_admission_incomplete :: "nat \<Rightarrow> nat \<Rightarrow> nat \<Rightarrow> nat \<Rightarrow> string" where
  "summary_admission_incomplete refused n accepted undetermined =
     ''This PostgreSQL endpoint refused the connection before ''
     @ ''evaluating any credential at '' @ show_nat refused @ '' of the '' @ show_nat n
     @ '' addresses this target resolved to; the startup exchange completed at '' @ show_nat accepted
     @ '' and no admission decision was observed at '' @ show_nat undetermined"

definition admission_prose :: "admission_scope \<Rightarrow> string \<times> string" where
  "admission_prose s =
     (if \<not> ad_complete s then
        (summary_admission_incomplete (length (ad_refused s)) (admission_total s) (length (ad_accepted s))
           (length (ad_undetermined s)),
         pg_detail_admission_meaning @ pg_detail_admission_incomplete)
      else if ad_accepted s = [] then
        (summary_admission_all (admission_total s), pg_detail_admission_meaning @ pg_detail_admission_uniform)
      else
        (summary_admission_some (length (ad_refused s)) (admission_total s) (length (ad_accepted s)),
         pg_detail_admission_meaning @ pg_detail_admission_contrast))"

definition admission_refs :: "admission_scope \<Rightarrow> evidence_id list" where
  "admission_refs s = ev_id (ad_anchor s) # map ev_id (ad_refused s @ ad_accepted s @ ad_undetermined s)"

definition admission_recommendations :: "admission_scope \<Rightarrow> recommendation list" where
  "admission_recommendations s =
     (if 0 < length (ad_accepted s)
      then recommend (next_evidence SafetyCompare pg_recommend_admission_contrast
        pg_rationale_admission_contrast False) FindingKindConfirmed ConfidenceHigh else [])
     @ (if \<not> ad_complete s
      then recommend (next_evidence SafetyObserve pg_recommend_admission_unmeasured
        pg_rationale_admission_unmeasured True) FindingKindConfirmed ConfidenceHigh else [])"

definition admission_finding :: "admission_scope \<Rightarrow> finding option" where
  "admission_finding s =
     (case admission_prose s of (summary, detail) \<Rightarrow>
        case new_finding (pg_finding pg_code_admission_scope SeverityInfo LayerProtocol
          (ev_subject (ad_anchor s)) summary detail (admission_refs s) (admission_recommendations s) True) of
        Inl _ \<Rightarrow> None | Inr f \<Rightarrow> Some f)"

definition admission_scope_rule :: "rule_context \<Rightarrow> finding list" where
  "admission_scope_rule ctx =
     (case admission_scope_of ctx of
        None \<Rightarrow> []
      | Some s \<Rightarrow>
          if ad_refused s = [] then []
          else (case admission_finding s of None \<Rightarrow> [] | Some f \<Rightarrow> [f]))"

end
