(* ===== verification/PgRuleProps.thy ===== *)
theory PgRuleProps
  imports PgRules
begin

text \<open>
  What the PostgreSQL rules promise: each only gives findings that the constructors made, that cite recorded
  evidence and that accuse only on a recorded failure, whatever the graph; and none of their texts and suggestions
  is ever refused.
\<close>

subsection \<open>Building\<close>

lemma pg_build_eq: "pg_build i = made_finding i"
  by (simp add: pg_build_def made_finding_def)

lemma pg_finding_fields [simp]:
  "f_refs (pg_finding fc sev l s a b refs recs v) = refs" "f_recs (pg_finding fc sev l s a b refs recs v) = recs"
  "f_severity (pg_finding fc sev l s a b refs recs v) = sev" "f_code (pg_finding fc sev l s a b refs recs v) = fc"
  "f_subject (pg_finding fc sev l s a b refs recs v) = s" "f_kind (pg_finding fc sev l s a b refs recs v) = FindingKindConfirmed"
  "f_confidence (pg_finding fc sev l s a b refs recs v) = ConfidenceHigh" "f_layer (pg_finding fc sev l s a b refs recs v) = l"
  "f_summary (pg_finding fc sev l s a b refs recs v) = a" "f_detail (pg_finding fc sev l s a b refs recs v) = b"
  "f_discriminator (pg_finding fc sev l s a b refs recs v) = []" "f_vantage (pg_finding fc sev l s a b refs recs v) = v"
  by (simp_all add: pg_finding_def)

lemma advise_wf: "r \<in> set (advise safety action rationale) \<Longrightarrow> rec_wf r"
  unfolding advise_def by (rule recommend_wf)

definition recorded :: "graph \<Rightarrow> evidence_id list \<Rightarrow> bool" where
  "recorded g refs \<longleftrightarrow> (\<forall>x\<in>set refs. \<exists>e. graph_node g x = Some e)"

lemma recorded_simps [simp]:
  "recorded g []" "recorded g (x # xs) \<longleftrightarrow> (\<exists>e. graph_node g x = Some e) \<and> recorded g xs"
  "recorded g (xs @ ys) \<longleftrightarrow> recorded g xs \<and> recorded g ys"
  by (auto simp: recorded_def)

lemma pg_build_grounded:
  assumes "pg_build (pg_finding fc sev l s a b refs recs v) = Some f" "graph_wf g" "recorded g refs"
    and "\<forall>r\<in>set recs. rec_wf r" "node \<in> set (graph_nodes g)" "ev_id node \<in> set refs"
    and "sev \<in> {SeverityError, SeverityCritical} \<longrightarrow> ev_state node = StateFail"
  shows "grounded g f"
  by (rule made_finding_grounded [OF assms(1) [unfolded pg_build_eq] assms(2), where e = node])
    (use assms(3-7) in \<open>auto simp: recorded_def is_problem_def\<close>)

lemma judge_step_grounded:
  assumes "f \<in> set (judge_step step judge g)"
    and "\<And>node. node \<in> set (graph_nodes g) \<Longrightarrow> judge node = Some f \<Longrightarrow> grounded g f"
  shows "grounded g f"
  using assms by (auto simp: judge_step_def set_map_filter_iff)

lemma parent_with_step_node:
  assumes "graph_wf g" "parent_with_step g node step = Some p"
  shows "p \<in> set (graph_nodes g)" "ev_step p = step"
proof -
  have "e \<in> set (graph_nodes g) \<and> ev_step e = step" if "e \<in> set (parents_with_step g step xs)" for e xs
    using that by (induction xs) (auto split: option.splits if_splits dest: node_of_id [OF assms(1)])
  moreover have "p \<in> set (parents_with_step g step (graph_parents g (ev_id node)))"
    using assms(2) by (auto simp: parent_with_step_def split: list.splits)
  ultimately show "p \<in> set (graph_nodes g)" "ev_step p = step" by blast+
qed

lemma recorded_node [simp]: "graph_wf g \<Longrightarrow> e \<in> set (graph_nodes g) \<Longrightarrow> \<exists>x. graph_node g (ev_id e) = Some x"
  using node_recorded(1) by blast

subsection \<open>The rules of one step\<close>

lemma not_permitted_grounded:
  assumes "graph_wf g" "not_permitted node l refs = Some f" "recorded g refs"
    "node \<in> set (graph_nodes g)" "ev_id node \<in> set refs" "ev_state node = StateFail"
  shows "grounded g f"
  using assms(2) unfolding not_permitted_def
  by (rule pg_build_grounded) (use assms advise_wf in auto)

lemma evaluate_ssl_request_grounded:
  assumes "graph_wf g" "node \<in> set (graph_nodes g)" "evaluate_ssl_request node = Some f"
  shows "grounded g f"
  using assms(3) unfolding evaluate_ssl_request_def
  by (auto split: if_splits prod.splits elim!: pg_build_grounded [OF _ assms(1) _ _ assms(2)] dest: advise_wf
      simp: assms)

lemma sole_parent_node: "graph_wf g \<Longrightarrow> sole_parent g node = Some p \<Longrightarrow> p \<in> set (graph_nodes g)"
  by (auto simp: sole_parent_def split: list.splits dest: node_of_id)

lemma pg_evaluate_tls_grounded:
  assumes "graph_wf g" "node \<in> set (graph_nodes g)" "pg_evaluate_tls g node = Some f"
  shows "grounded g f"
  using assms(3) unfolding pg_evaluate_tls_def
  by (auto split: if_splits option.splits elim!: pg_build_grounded [OF _ assms(1) _ _ assms(2)] dest: advise_wf
      simp: assms dest!: sole_parent_node [OF assms(1)])

lemma evaluate_startup_grounded:
  assumes "graph_wf g" "node \<in> set (graph_nodes g)" "evaluate_startup node = Some f"
  shows "grounded g f"
  using assms(3) unfolding evaluate_startup_def
  by (auto split: if_splits elim!: pg_build_grounded [OF _ assms(1) _ _ assms(2)] not_permitted_grounded [OF assms(1)]
      dest: advise_wf simp: assms)

lemma failed_authentication_grounded:
  assumes "graph_wf g" "node \<in> set (graph_nodes g)" "recorded g refs" "ev_id node \<in> set refs"
    "ev_state node = StateFail" "failed_authentication node refs = Some f"
  shows "grounded g f"
  using assms(6) unfolding failed_authentication_def mechanism_unavailable_def
  by (auto split: if_splits elim!: pg_build_grounded [OF _ assms(1) _ _ assms(2)] not_permitted_grounded [OF assms(1)]
      dest: advise_wf simp: assms)

lemma evaluate_authentication_grounded:
  assumes "graph_wf g" "node \<in> set (graph_nodes g)" "evaluate_authentication g node = Some f"
  shows "grounded g f"
proof -
  define refs where "refs = [ev_id node] @ (case parent_with_step g node step_startup of None \<Rightarrow> [] | Some st \<Rightarrow> [ev_id st])"
  have r: "recorded g refs" "ev_id node \<in> set refs"
    using assms(1,2) parent_with_step_node(1) [OF assms(1)] by (auto simp: refs_def split: option.splits)
  have b: "recorded g (filter (\<lambda>x. \<exists>y. graph_node g x = Some y) xs)" for xs
    by (auto simp: recorded_def)
  show ?thesis
    using assms(3) failed_authentication_grounded [OF assms(1,2) r]
    unfolding evaluate_authentication_def Let_def refs_def [symmetric]
    by (auto simp: unknown_authentication_def skipped_authentication_def mechanism_unavailable_def
        credential_not_configured_def r b split: state.splits if_splits
        elim!: pg_build_grounded [OF _ assms(1) _ _ assms(2)] dest: advise_wf)
qed

lemma authentication_proof_node:
  assumes "graph_wf g" "authentication_proof g node = Some p"
  shows "p \<in> set (graph_nodes g)" "proves_authentication p"
proof -
  have "e \<in> set (graph_nodes g) \<and> proves_authentication e" if "e \<in> set (authentication_proofs g xs)" for e xs
    using that by (induction xs) (auto split: option.splits if_splits dest: node_of_id [OF assms(1)])
  moreover have "p \<in> set (authentication_proofs g (graph_parents g (ev_id node)))"
    using assms(2) by (auto simp: authentication_proof_def split: list.splits)
  ultimately show "p \<in> set (graph_nodes g)" "proves_authentication p" by blast+
qed

lemma evaluate_session_grounded:
  assumes "graph_wf g" "node \<in> set (graph_nodes g)" "evaluate_session g node = Some f"
  shows "grounded g f"
proof -
  obtain p where p: "authentication_proof g node = Some p" "ev_state node = StateFail"
    using assms(3) by (auto simp: evaluate_session_def split: if_splits option.splits)
  define refs where "refs = [ev_id node, ev_id p] @ (case startup_of g p of None \<Rightarrow> [] | Some st \<Rightarrow> [ev_id st])"
  have "recorded g refs" "ev_id node \<in> set refs"
    using assms(1,2) authentication_proof_node(1) [OF assms(1) p(1)] parent_with_step_node(1) [OF assms(1)]
    by (auto simp: refs_def startup_of_def split: option.splits if_splits)
  then show ?thesis
    using assms(3) unfolding evaluate_session_def Let_def p(1) option.case refs_def [symmetric]
    by (auto split: if_splits elim!: pg_build_grounded [OF _ assms(1) _ _ assms(2)] dest: advise_wf recommend_wf)
qed

interpretation ssl: grounded_rule ssl_request_rule
  by unfold_locales (auto simp: ssl_request_rule_def elim!: judge_step_grounded intro: evaluate_ssl_request_grounded)

interpretation pg_tls: grounded_rule pg_tls_rule
  by unfold_locales (auto simp: pg_tls_rule_def elim!: judge_step_grounded intro: pg_evaluate_tls_grounded)

interpretation startup: grounded_rule startup_rule
  by unfold_locales (auto simp: startup_rule_def elim!: judge_step_grounded intro: evaluate_startup_grounded)

interpretation authentication: grounded_rule authentication_rule
  by unfold_locales (auto simp: authentication_rule_def elim!: judge_step_grounded intro: evaluate_authentication_grounded)

interpretation session: grounded_rule session_rule
  by unfold_locales (auto simp: session_rule_def elim!: judge_step_grounded intro: evaluate_session_grounded)

subsection \<open>The scope of admission\<close>

definition startups :: "graph \<Rightarrow> evidence list" where
  "startups g = filter (\<lambda>node. ev_step node = step_startup) (graph_nodes g)"

definition requested :: "graph \<Rightarrow> evidence list" where
  "requested g = filter (\<lambda>node. ev_step node = step_target_requested) (graph_nodes g)"

definition admitted_as :: "admission_verdict \<Rightarrow> graph \<Rightarrow> evidence list" where
  "admitted_as v g = filter (\<lambda>node. classify_admission node = v) (startups g)"

definition scope_of :: "rule_context \<Rightarrow> evidence \<Rightarrow> admission_scope" where
  "scope_of ctx anchor =
     \<lparr>ad_anchor = anchor, ad_refused = admitted_as AdmissionRefused (ctx_graph ctx),
      ad_accepted = admitted_as AdmissionAccepted (ctx_graph ctx),
      ad_undetermined = admitted_as AdmissionUndetermined (ctx_graph ctx),
      ad_complete = admitted_as AdmissionUndetermined (ctx_graph ctx) = [] \<and> \<not> ctx_incomplete ctx\<rparr>"

lemma scope_of_fields [simp]:
  "ad_anchor (scope_of ctx anchor) = anchor"
  "ad_refused (scope_of ctx anchor) = admitted_as AdmissionRefused (ctx_graph ctx)"
  "ad_accepted (scope_of ctx anchor) = admitted_as AdmissionAccepted (ctx_graph ctx)"
  "ad_undetermined (scope_of ctx anchor) = admitted_as AdmissionUndetermined (ctx_graph ctx)"
  "ad_complete (scope_of ctx anchor) \<longleftrightarrow>
     admitted_as AdmissionUndetermined (ctx_graph ctx) = [] \<and> \<not> ctx_incomplete ctx"
  by (simp_all add: scope_of_def)

lemma verdicts_partition:
  "length (filter (\<lambda>n. classify_admission n = AdmissionRefused) xs)
   + length (filter (\<lambda>n. classify_admission n = AdmissionAccepted) xs)
   + length (filter (\<lambda>n. classify_admission n = AdmissionUndetermined) xs) = length xs"
proof (induction xs)
  case (Cons x xs)
  then show ?case by (cases "classify_admission x") simp_all
qed simp

lemma admission_total_startups: "admission_total (scope_of ctx anchor) = length (startups (ctx_graph ctx))"
  using verdicts_partition [of "startups (ctx_graph ctx)"]
  by (simp add: admission_total_def scope_of_def admitted_as_def)

lemma admission_scope_of_eq:
  assumes "graph_wf (ctx_graph ctx)"
  shows "admission_scope_of ctx =
     (case requested (ctx_graph ctx) of
        [anchor] \<Rightarrow> if length (startups (ctx_graph ctx)) < 2 then None else Some (scope_of ctx anchor)
      | _ \<Rightarrow> None)"
proof (cases "requested (ctx_graph ctx)")
  case (Cons anchor rest)
  show ?thesis
  proof (cases rest)
    case Nil
    then have "anchor \<in> set (requested (ctx_graph ctx))" using Cons by simp
    then have "anchor \<in> set (graph_nodes (ctx_graph ctx))" by (simp add: requested_def)
    then have "\<not> subject_is_zero (ev_subject anchor)" using node_recorded(5) [OF assms] by blast
    then show ?thesis
      using Cons Nil admission_total_startups [of ctx anchor]
      by (simp add: admission_scope_of_def Let_def requested_def [symmetric] startups_def [symmetric]
          admitted_as_def [symmetric] scope_of_def [symmetric])
  qed (use Cons in \<open>simp add: admission_scope_of_def requested_def [symmetric] Let_def\<close>)
qed (simp add: admission_scope_of_def requested_def [symmetric] Let_def)

lemma show_nat_line: "dashed line_char (show_nat n)" "starts_clean (show_nat n)" "ends_clean (show_nat n)"
proof -
  have d: "list_all is_digit (show_nat n)" by (rule show_nat_digits)
  have digit: "is_digit c \<Longrightarrow> line_char c \<and> c \<noteq> CHR 0xE2 \<and> edge_char c" for c
    by (auto simp: is_digit_def line_char_def edge_char_def)
  have "list_all is_digit s \<Longrightarrow> dashed line_char s" for s
    by (induction s) (auto simp: dashed.simps(1) dashed_cons digit)
  then show "dashed line_char (show_nat n)" using d by blast
  have "show_nat n \<noteq> []" using show_nat_nonempty by blast
  then have "is_digit (hd (show_nat n))" "is_digit (last (show_nat n))" using d by (simp_all add: list_all_iff)
  then show "starts_clean (show_nat n)" "ends_clean (show_nat n)"
    using digit \<open>show_nat n \<noteq> []\<close> by (simp_all add: starts_clean_def ends_clean_def)
qed

lemma ends_clean_append: "ends_clean b \<Longrightarrow> ends_clean (a @ b)"
  by (simp add: ends_clean_def)

lemma dashed_numbered: "dashed line_char (show_nat n @ t) = dashed line_char t"
  using show_nat_line(1) dashed_line_append by blast

lemma summary_admission_lines:
  "rule_line (summary_admission_all n)" "rule_line (summary_admission_some a n b)"
  "rule_line (summary_admission_incomplete a n b c)"
  unfolding summary_admission_all_def summary_admission_some_def summary_admission_incomplete_def rule_line_iff
  by (intro conjI; (simp add: eval_text_rules dashed_numbered show_nat_line cong: rule_congs)?;
      (rule ends_clean_append)+; simp add: eval_text_rules show_nat_line cong: rule_congs)+

lemma rule_text_append:
  assumes "rule_text a" "dashed text_char b" "ends_clean b"
  shows "rule_text (a @ b)"
  using assms dashed_text_append [of a b]
  by (auto simp: rule_text_iff ends_clean_append starts_clean_def)

lemma pg_detail_meaning: "rule_text pg_detail_admission_meaning"
  by (rule pg_detail_texts)

lemma admission_prose_texts:
  assumes "admission_prose s = (summary, detail)"
  shows "rule_line summary" "rule_text detail"
  using assms summary_admission_lines rule_text_append [OF pg_detail_meaning] pg_detail_tail_texts
  by (auto simp: admission_prose_def split: if_splits)

lemma admission_recommendations_eq:
  "admission_recommendations s =
     (if ad_accepted s \<noteq> [] then [next_recommendation SafetyCompare pg_recommend_admission_contrast
        pg_rationale_admission_contrast False] else [])
     @ (if \<not> ad_complete s then [next_recommendation SafetyObserve pg_recommend_admission_unmeasured
        pg_rationale_admission_unmeasured True] else [])"
  by (simp add: admission_recommendations_def recommend_next_evidence pg_recommend_texts pg_rationale_texts)

lemma admission_recommendations_wf: "r \<in> set (admission_recommendations s) \<Longrightarrow> rec_wf r"
  by (auto simp: admission_recommendations_def split: if_splits dest: recommend_wf)

definition admission_claim :: "rule_context \<Rightarrow> evidence \<Rightarrow> finding" where
  "admission_claim ctx anchor =
     (let s = scope_of ctx anchor in
      pg_finding pg_code_admission_scope SeverityInfo LayerProtocol (ev_subject anchor)
        (fst (admission_prose s)) (snd (admission_prose s)) (sort (dedup (admission_refs s)))
        (admission_recommendations s) True)"

lemma scope_refs:
  "set (admission_refs (scope_of ctx anchor)) = insert (ev_id anchor) (ev_id ` set (startups (ctx_graph ctx)))"
proof -
  let ?g = "ctx_graph ctx"
  have "n \<in> set (admitted_as AdmissionRefused ?g) \<union> set (admitted_as AdmissionAccepted ?g)
      \<union> set (admitted_as AdmissionUndetermined ?g) \<longleftrightarrow> n \<in> set (startups ?g)" for n
    by (cases "classify_admission n") (auto simp: admitted_as_def)
  then have "set (admitted_as AdmissionRefused ?g) \<union> set (admitted_as AdmissionAccepted ?g)
      \<union> set (admitted_as AdmissionUndetermined ?g) = set (startups ?g)" by blast
  then have "ev_id ` set (startups ?g) = ev_id ` set (admitted_as AdmissionRefused ?g)
      \<union> ev_id ` set (admitted_as AdmissionAccepted ?g) \<union> ev_id ` set (admitted_as AdmissionUndetermined ?g)"
    by (metis image_Un)
  then show ?thesis by (auto simp: admission_refs_def)
qed

lemma admission_finding_made:
  assumes "graph_wf (ctx_graph ctx)" "anchor \<in> set (requested (ctx_graph ctx))"
  shows "admission_finding (scope_of ctx anchor) = Some (admission_claim ctx anchor)"
proof -
  let ?s = "scope_of ctx anchor" and ?g = "ctx_graph ctx"
  have node: "anchor \<in> set (graph_nodes ?g)" using assms(2) by (simp add: requested_def)
  have refs: "\<forall>x\<in>set (admission_refs ?s). is_ok (validate_identifier x)"
    using node_recorded(3) [OF assms(1)] node unfolding scope_refs by (auto simp: startups_def)
  obtain summary detail where prose: "admission_prose ?s = (summary, detail)" by force
  have "made_finding (pg_finding pg_code_admission_scope SeverityInfo LayerProtocol (ev_subject anchor) summary
      detail (admission_refs ?s) (admission_recommendations ?s) True)
    = Some ((pg_finding pg_code_admission_scope SeverityInfo LayerProtocol (ev_subject anchor) summary
      detail (admission_refs ?s) (admission_recommendations ?s) True)\<lparr>f_refs := sort (dedup (admission_refs ?s))\<rparr>)"
    using fixed_finding_made [of "pg_finding pg_code_admission_scope SeverityInfo LayerProtocol (ev_subject anchor)
        summary detail (admission_refs ?s) (admission_recommendations ?s) True"]
      admission_prose_texts [OF prose] refs node_recorded(2) [OF assms(1) node]
    by (simp add: pg_code_texts finding_kind_valid_def severity_valid_def confidence_valid_def layer_valid_def
        evidence_wf_def admission_recommendations_wf admission_refs_def [of ?s])
  then show ?thesis
    by (simp add: admission_finding_def prose made_finding_def admission_claim_def Let_def pg_finding_def
        split: sum.splits)
qed

lemma admission_scope_rule_eq:
  assumes "graph_wf (ctx_graph ctx)"
  shows "admission_scope_rule ctx =
     (case requested (ctx_graph ctx) of
        [anchor] \<Rightarrow> if length (startups (ctx_graph ctx)) < 2 \<or> admitted_as AdmissionRefused (ctx_graph ctx) = [] then []
          else [admission_claim ctx anchor]
      | _ \<Rightarrow> [])"
  using admission_finding_made [OF assms]
  by (auto simp: admission_scope_rule_def admission_scope_of_eq [OF assms] split: list.splits)

interpretation admission: grounded_rule admission_scope_rule
proof
  fix ctx f assume g: "graph_wf (ctx_graph ctx)" and f: "f \<in> set (admission_scope_rule ctx)"
  then have "\<exists>anchor. anchor \<in> set (requested (ctx_graph ctx)) \<and> f = admission_claim ctx anchor"
    by (cases "requested (ctx_graph ctx)") (auto simp: admission_scope_rule_eq split: list.splits if_splits)
  then obtain anchor where a: "anchor \<in> set (requested (ctx_graph ctx))" "f = admission_claim ctx anchor" by blast
  let ?s = "scope_of ctx anchor"
  have "made_finding (pg_finding pg_code_admission_scope SeverityInfo LayerProtocol (ev_subject anchor)
      (fst (admission_prose ?s)) (snd (admission_prose ?s)) (admission_refs ?s) (admission_recommendations ?s) True) = Some f"
    using admission_finding_made [OF g a(1)] a(2)
    by (simp add: admission_finding_def made_finding_def split: prod.splits)
  then show "grounded (ctx_graph ctx) f"
  proof (rule made_finding_grounded [OF _ g])
    have "anchor \<in> set (graph_nodes (ctx_graph ctx))" using a(1) by (simp add: requested_def)
    then show "\<forall>x\<in>set (f_refs (pg_finding pg_code_admission_scope SeverityInfo LayerProtocol (ev_subject anchor)
      (fst (admission_prose ?s)) (snd (admission_prose ?s)) (admission_refs ?s) (admission_recommendations ?s) True)).
        \<exists>e. graph_node (ctx_graph ctx) x = Some e"
      using node_recorded(1) [OF g] by (auto simp: scope_refs startups_def)
  qed (simp_all add: admission_recommendations_wf is_problem_def)
qed

subsection \<open>No failure is lost to its wording\<close>

text \<open>The texts that quote a SQLSTATE are accepted when it is one, and the adapter records no other.\<close>

definition code_quotable :: "evidence \<Rightarrow> bool" where
  "code_quotable node \<longleftrightarrow> reported_code node = [] \<or> valid_sqlstate (reported_code node)"

lemma sqlstate_sentence_text:
  assumes "valid_sqlstate s"
  shows "rule_text (sqlstate_sentence s)"
proof -
  have "list_all (\<lambda>c. is_digit c \<or> is_upper c \<or> is_lower c) s"
    using assms by (auto simp: valid_sqlstate_def split: if_splits)
  moreover have "(is_digit c \<or> is_upper c \<or> is_lower c) \<Longrightarrow> c \<noteq> CHR 0xE2 \<and> text_char c" for c
    by (auto simp: is_digit_def is_upper_def is_lower_def text_char_def line_char_def)
  ultimately have "dashed text_char s"
    by (induction s) (auto simp: dashed.simps(1) dashed_cons)
  then show ?thesis
    unfolding sqlstate_sentence_def rule_text_iff
    by (intro conjI ends_clean_append)
      (simp_all add: eval_text_rules dashed_text_append cong: rule_congs)
qed

lemma rule_text_join: "xs \<noteq> [] \<Longrightarrow> \<forall>x\<in>set xs. rule_text x \<Longrightarrow> rule_text (join_with newline xs)"
proof (induction newline xs rule: join_with.induct)
  case (3 x y ys)
  then have "rule_text x" "rule_text (join_with newline (y # ys))" by simp_all
  then show ?case
    using rule_text_append [of x "newline @ join_with newline (y # ys)"]
    by (simp add: rule_text_iff dashed_special ends_clean_append)
qed simp_all

lemma floor_detail_text:
  assumes "rule_text base" "code_quotable node"
  shows "rule_text (floor_detail base node)"
  unfolding floor_detail_def Let_def
  by (rule rule_text_join)
    (use assms in \<open>auto simp: code_quotable_def sqlstate_sentence_text pg_sentence_texts named_condition_def
      split: if_splits\<close>)

lemma observed_detail_text:
  assumes "rule_text base" "code_quotable node"
  shows "rule_text (observed_detail base node)"
  unfolding observed_detail_def
  by (rule rule_text_join)
    (use assms in \<open>auto simp: code_quotable_def sqlstate_sentence_text pg_sentence_texts split: if_splits\<close>)

text \<open>With accepted texts and recorded references a rule's finding is made as it stands.\<close>

lemma pg_build_made:
  assumes "finding_code_valid fc" "severity_valid sev" "layer_valid l" "evidence_wf node"
    "rule_line a" "rule_text b" "refs \<noteq> []" "\<forall>x\<in>set refs. is_ok (validate_identifier x)" "\<forall>r\<in>set recs. rec_wf r"
  shows "pg_build (pg_finding fc sev l (ev_subject node) a b refs recs v) =
     Some (pg_finding fc sev l (ev_subject node) a b (sort (dedup refs)) recs v)"
  using fixed_finding_made [of "pg_finding fc sev l (ev_subject node) a b refs recs v"] assms
  by (simp add: pg_build_eq finding_kind_valid_def confidence_valid_def evidence_wf_def pg_finding_def)

lemma problem_levels [simp]: "severity_valid SeverityError" "severity_valid SeverityWarn" "severity_valid SeverityInfo"
  "layer_valid LayerTLS" "layer_valid LayerAuth" "layer_valid LayerProtocol"
  by (simp_all add: severity_valid_def layer_valid_def)

definition judged :: "finding option \<Rightarrow> severity \<Rightarrow> evidence \<Rightarrow> bool" where
  "judged out sev node \<longleftrightarrow> (\<exists>f. out = Some f \<and> f_severity f = sev \<and> ev_id node \<in> set (f_refs f)
     \<and> f_subject f = ev_subject node)"

lemma judged_build:
  assumes "finding_code_valid fc" "severity_valid sev" "layer_valid l" "evidence_wf node"
    "rule_line a" "rule_text b" "ev_id node \<in> set refs" "\<forall>x\<in>set refs. is_ok (validate_identifier x)" "\<forall>r\<in>set recs. rec_wf r"
  shows "judged (pg_build (pg_finding fc sev l (ev_subject node) a b refs recs v)) sev node"
proof -
  have "refs \<noteq> []" using assms(7) by auto
  then show ?thesis using pg_build_made [OF assms(1-6) _ assms(8,9)] assms(7) by (simp add: judged_def)
qed

lemmas judged_texts = pg_code_texts pg_summary_texts pg_detail_texts floor_detail_text observed_detail_text

lemma evidence_id_ok [simp]: "evidence_wf node \<Longrightarrow> is_ok (validate_identifier (ev_id node))"
  by (simp add: evidence_wf_def)

lemma not_permitted_judged:
  "evidence_wf node \<Longrightarrow> layer_valid l \<Longrightarrow> ev_id node \<in> set refs \<Longrightarrow> \<forall>x\<in>set refs. is_ok (validate_identifier x) \<Longrightarrow>
     judged (not_permitted node l refs) SeverityError node"
  unfolding not_permitted_def by (rule judged_build) (auto simp: judged_texts dest: advise_wf)

lemma evaluate_startup_judged:
  assumes "evidence_wf node" "ev_state node = StateFail" "code_quotable node"
  shows "judged (evaluate_startup node) SeverityError node"
  using assms not_permitted_judged [of node LayerProtocol "[ev_id node]"]
  by (auto simp: evaluate_startup_def judged_texts dest: advise_wf intro!: judged_build)

lemma evaluate_ssl_request_judged:
  assumes "evidence_wf node" "ev_state node = StateFail"
    "ev_failure node \<in> set negotiation_floor_classes
     \<or> ev_failure node = FailureProtocolUnsupportedCapability \<and> node_bool_attr node attr_ssl_offered = (False, True)"
  shows "judged (evaluate_ssl_request node) SeverityError node"
  using assms
  by (auto simp: evaluate_ssl_request_def negotiation_floor_classes_def judged_texts dest: advise_wf intro!: judged_build)

lemma failed_authentication_judged:
  assumes "evidence_wf node" "ev_failure node \<noteq> FailureAuthMechanismNotOffered" "code_quotable node"
    "ev_id node \<in> set refs" "\<forall>x\<in>set refs. is_ok (validate_identifier x)"
  shows "judged (failed_authentication node refs) SeverityError node"
  using assms not_permitted_judged [of node LayerAuth refs]
  by (auto simp: failed_authentication_def judged_texts dest: advise_wf intro!: judged_build)

lemma evaluate_authentication_judged:
  assumes "graph_wf g" "node \<in> set (graph_nodes g)" "ev_state node = StateFail"
    "ev_failure node \<noteq> FailureAuthMechanismNotOffered" "code_quotable node"
  shows "judged (evaluate_authentication g node) SeverityError node"
  using assms failed_authentication_judged [OF node_recorded(2) [OF assms(1,2)] assms(4,5)]
    parent_with_step_node(1) [OF assms(1)] node_recorded(3) [OF assms(1)]
  by (auto simp: evaluate_authentication_def Let_def split: option.splits)

end
