(* ===== verification/Recorded.thy ===== *)
theory Recorded
  imports PgApp
begin

text \<open>
  What a run writes into the evidence graph. Whatever the probes and steps do to the builder is a sequence of
  successful calls of it with evidence that \<open>NewEvidence\<close> made out of an observation; so a run that started with
  a new builder can freeze it, what was recorded stays recorded, and every node of the graph says where it came
  from.
\<close>

subsection \<open>Calls of the builder\<close>

text \<open>Where a node of a run comes from: the requested target, an observation of a probe or of a step and its
  classification, a mechanism the run will not use, or a step that was not attempted.\<close>

inductive witnessed :: "pg_env \<Rightarrow> evidence \<Rightarrow> bool" for pe where
  target: "ev_step ev = step_target_requested \<Longrightarrow> ev_state ev = StatePass \<Longrightarrow> evidence_wf ev \<Longrightarrow> witnessed pe ev"
| skipped: "ev_state ev = StateSkipped \<Longrightarrow> evidence_wf ev \<Longrightarrow> witnessed pe ev"
| dns: "observe_dns (pv_env pe) host scope w = (ob, w') \<Longrightarrow> dns_evidence ob = Inr ev \<Longrightarrow> witnessed pe ev"
| tcp: "observe_tcp (pv_env pe) addr w = (ob, w') \<Longrightarrow> tcp_evidence ob endpoint scope = Inr ev \<Longrightarrow> witnessed pe ev"
| tls: "observe_tls (pv_env pe) conn p w = (ob, w') \<Longrightarrow> tls_evidence (pv_env pe) ob = Inr ev \<Longrightarrow> witnessed pe ev"
| ssl: "send_ssl_request arrived c = (outcome, c') \<Longrightarrow>
    classify_ssl_response outcome fault ctx1 ctx2 = (ev_state ev, ev_failure ev, offered) \<Longrightarrow>
    ev_step ev = step_ssl_request \<Longrightarrow>
    ev_attributes ev = (if is_ok outcome then [(attr_ssl_offered, bool_attr offered)] else []) \<Longrightarrow>
    evidence_wf ev \<Longrightarrow> witnessed pe ev"
| startup: "exchange_startup p c = (outcome, c') \<Longrightarrow>
    classify_startup outcome fault ctx1 ctx2 = (ev_state ev, ev_failure ev) \<Longrightarrow> ev_step ev = step_startup \<Longrightarrow>
    ev_attributes ev = startup_attributes p outcome \<Longrightarrow> evidence_wf ev \<Longrightarrow> witnessed pe ev"
| mechanism: "admissible_mechanism r = Some (ev_state ev, ev_failure ev) \<Longrightarrow> ev_step ev = step_authentication \<Longrightarrow>
    ev_attributes ev = [] \<Longrightarrow> evidence_wf ev \<Longrightarrow> witnessed pe ev"
| authentication: "observe_authentication pe conn secret w \<sigma> = (ob, w', \<sigma>') \<Longrightarrow> auth_evidence ob r = Inr ev \<Longrightarrow>
    witnessed pe ev"
| session: "observe_session pe conn w \<sigma> = (ob, w', \<sigma>') \<Longrightarrow> session_evidence ob s = Inr ev \<Longrightarrow> witnessed pe ev"

lemma make_evidence_Inr: "make_evidence i = Inr ev \<longleftrightarrow> ev = i \<and> evidence_wf i"
proof (cases "evidence_wf i")
  case True
  then have n: "new_evidence i = Inr i" by simp
  show ?thesis unfolding make_evidence_def n using True by auto
next
  case False
  then show ?thesis by (cases "new_evidence i") (auto simp: make_evidence_def)
qed

lemma witnessed_wf: "witnessed pe ev \<Longrightarrow> evidence_wf ev"
  by (induction rule: witnessed.induct)
    (auto simp: dns_evidence_def tcp_evidence_def tls_evidence_def auth_evidence_def session_evidence_def Let_def
      make_evidence_Inr split: sum.splits prod.splits)

text \<open>A successful call, that adds only such evidence.\<close>

inductive recorded_step :: "pg_env \<Rightarrow> builder \<Rightarrow> builder \<Rightarrow> bool" for pe where
  evidence: "witnessed pe ev \<Longrightarrow> add_evidence b ev = Inr b' \<Longrightarrow> recorded_step pe b b'"
| parent: "add_parent b child parent = Inr b' \<Longrightarrow> recorded_step pe b b'"
| blocked: "add_blocked_by b skipped blocker = Inr b' \<Longrightarrow> recorded_step pe b b'"

definition grown :: "pg_env \<Rightarrow> world \<Rightarrow> world \<Rightarrow> bool" where
  "grown pe w w' \<longleftrightarrow> wd_tick w \<le> wd_tick w' \<and> (recorded_step pe)\<^sup>*\<^sup>* (wd_builder w) (wd_builder w')"

lemma grown_refl [simp, intro]: "grown pe w w"
  by (simp add: grown_def)

lemma grown_same: "wd_builder w' = wd_builder w \<Longrightarrow> wd_tick w \<le> wd_tick w' \<Longrightarrow> grown pe w w'"
  by (simp add: grown_def)

lemma grown_trans [trans]: "grown pe w w1 \<Longrightarrow> grown pe w1 w2 \<Longrightarrow> grown pe w w2"
  by (auto simp: grown_def)

lemma grown_cong:
  "wd_builder w = wd_builder v \<Longrightarrow> wd_builder w' = wd_builder v' \<Longrightarrow> wd_tick w = wd_tick v \<Longrightarrow> wd_tick w' = wd_tick v' \<Longrightarrow>
     grown pe w w' = grown pe v v'"
  by (simp add: grown_def)

lemma ask_builder: "ask f w = (x, w') \<Longrightarrow> wd_builder w' = wd_builder w \<and> wd_tick w' = Suc (wd_tick w)"
  by (auto simp: ask_def)

lemma ask_grown: "ask f w = (x, w1) \<Longrightarrow> grown pe w1 w' \<Longrightarrow> grown pe w w'"
  using ask_builder [of f w x w1] by (simp add: grown_def)

lemma log_builder [simp]:
  "wd_builder (log_event x w) = wd_builder w"
  "wd_tick (log_event x w) = wd_tick w"
  by (simp_all add: log_event_def)

lemma close_conn_builder [simp]:
  "wd_builder (close_conn conn w) = wd_builder w"
  "wd_tick (close_conn conn w) = wd_tick w"
  by (cases conn; simp add: close_conn_def)+

lemma close_owned_builder [simp]:
  "wd_builder (snd (close_owned r w)) = wd_builder w"
  "wd_tick (snd (close_owned r w)) = wd_tick w"
  by (simp_all add: close_owned_def split: option.splits)

lemma close_all_builder [simp]:
  "wd_builder (close_all conts w) = wd_builder w"
  "wd_tick (close_all conts w) = wd_tick w"
  by (induction conts arbitrary: w) simp_all

lemma close_candidates_builder [simp]:
  "wd_builder (close_candidates i chosen cs w) = wd_builder w"
  "wd_tick (close_candidates i chosen cs w) = wd_tick w"
  by (induction cs arbitrary: i w) simp_all

lemma grown_builder [simp]:
  "grown pe w (log_event x w') = grown pe w w'" "grown pe w (close_conn conn w') = grown pe w w'"
  "grown pe w (snd (close_owned r w')) = grown pe w w'" "grown pe w (close_all conts w') = grown pe w w'"
  "grown pe w (close_candidates i chosen cs w') = grown pe w w'" "grown pe (log_event x w) w' = grown pe w w'"
  by (simp_all add: grown_def)

lemma recorded_step_builder: "recorded_step pe b b' \<Longrightarrow> builder_step b b'"
  by (erule recorded_step.cases) (metis builder_step.intros new_evidence_Inr witnessed_wf)+

lemma recorded_built: "(recorded_step pe)\<^sup>*\<^sup>* b b' \<Longrightarrow> built b \<Longrightarrow> built b'"
  by (induction rule: rtranclp_induct) (auto intro: built.step recorded_step_builder)

lemma grown_built: "grown pe w w' \<Longrightarrow> built (wd_builder w) \<Longrightarrow> built (wd_builder w')"
  by (auto simp: grown_def intro: recorded_built)

lemma recorded_step_nodes: "recorded_step pe b b' \<Longrightarrow> map_of (gb_nodes b) \<subseteq>\<^sub>m map_of (gb_nodes b')"
  by (erule recorded_step.cases) (auto simp: add_evidence_def add_parent_def add_blocked_by_def rbind_require_node
      map_le_def AList.update_conv' split: if_splits)

text \<open>What was recorded stays as it was.\<close>

lemma recorded_nodes: "(recorded_step pe)\<^sup>*\<^sup>* b b' \<Longrightarrow> map_of (gb_nodes b) \<subseteq>\<^sub>m map_of (gb_nodes b')"
  by (induction rule: rtranclp_induct) (auto dest: recorded_step_nodes map_le_trans)

lemma grown_nodes: "grown pe w w' \<Longrightarrow> map_of (gb_nodes (wd_builder w)) \<subseteq>\<^sub>m map_of (gb_nodes (wd_builder w'))"
  by (auto simp: grown_def intro: recorded_nodes)

text \<open>Every node says where it came from.\<close>

definition all_witnessed :: "pg_env \<Rightarrow> builder \<Rightarrow> bool" where
  "all_witnessed pe b \<longleftrightarrow> (\<forall>x ev. map_of (gb_nodes b) x = Some ev \<longrightarrow> witnessed pe ev)"

lemma recorded_step_witnessed: "recorded_step pe b b' \<Longrightarrow> all_witnessed pe b \<Longrightarrow> all_witnessed pe b'"
  by (erule recorded_step.cases) (auto simp: all_witnessed_def add_evidence_def add_parent_def add_blocked_by_def
      rbind_require_node AList.update_conv' split: if_splits)

lemma recorded_witnessed: "(recorded_step pe)\<^sup>*\<^sup>* b b' \<Longrightarrow> all_witnessed pe b \<Longrightarrow> all_witnessed pe b'"
  by (induction rule: rtranclp_induct) (auto intro: recorded_step_witnessed)

lemma grown_witnessed:
  "grown pe w w' \<Longrightarrow> wd_builder w = new_graph_builder \<Longrightarrow> freeze (wd_builder w') = Inr g \<Longrightarrow>
     graph_wf g \<and> (\<forall>ev\<in>set (graph_nodes g). witnessed pe ev)"
proof -
  assume g: "grown pe w w'" and n: "wd_builder w = new_graph_builder" and f: "freeze (wd_builder w') = Inr g"
  have b: "built (wd_builder w')" using grown_built [OF g] n built.start by simp
  have w: "graph_wf g" using b f by (auto simp: graph_wf_def)
  have "all_witnessed pe (wd_builder w')"
    using g n recorded_witnessed [of pe new_graph_builder "wd_builder w'"]
    by (simp add: grown_def all_witnessed_def new_graph_builder_def)
  moreover have "g = frozen (wd_builder w')" using f freeze_ok [OF built_wf [OF b]] by simp
  ultimately have "\<forall>x ev. graph_node g x = Some ev \<longrightarrow> witnessed pe ev"
    using frozen_reads(2) [OF built_wf [OF b]] by (simp add: all_witnessed_def)
  then show ?thesis using w graph_view.nodes_iff [OF w] by auto
qed

lemma grown_on_builder:
  assumes "on_builder f w = (r, w')" "\<And>b b'. f b = Inr b' \<Longrightarrow> recorded_step pe b b'"
  shows "grown pe w w'"
  using assms by (auto simp: on_builder_def grown_def split: sum.splits)

lemma grown_and_then:
  assumes "and_then x f = (r, w')" "grown pe w (snd x)" "\<And>v u r' u'. x = (Inr v, u) \<Longrightarrow> f v u = (r', u') \<Longrightarrow> grown pe u u'"
  shows "grown pe w w'"
proof -
  obtain y u where x: "x = (y, u)" by (cases x)
  show ?thesis
    using assms by (cases y) (auto simp: x intro: grown_trans)
qed

lemma snd_grown: "(\<And>r w'. x = (r, w') \<Longrightarrow> grown pe w w') \<Longrightarrow> grown pe w (snd x)"
  by (cases x) simp

lemma blocked_grown: "on_builder (\<lambda>b. add_blocked_by b x y) w = (r, w') \<Longrightarrow> grown pe w w'"
  by (erule grown_on_builder) (rule recorded_step.blocked)

lemma record_evidence_grown:
  assumes "record_evidence ev parent w = (r, w')" "witnessed pe ev"
  shows "grown pe w w'"
proof (rule grown_and_then [OF assms(1) [unfolded record_evidence_def]])
  show "grown pe w (snd (on_builder (\<lambda>b. add_evidence b ev) w))"
    using assms(2) by (intro snd_grown) (erule grown_on_builder, erule recorded_step.evidence)
next
  fix v u r' u'
  assume "(if parent = [] then (Inr (), u) else on_builder (\<lambda>b. add_parent b (ev_id ev) parent) u) = (r', u')"
  then show "grown pe u u'"
    by (auto split: if_splits elim: grown_on_builder intro: recorded_step.parent)
qed

lemma lift_probe_grown: "lift_probe x = (r, w') \<Longrightarrow> (\<And>r w'. x = (r, w') \<Longrightarrow> grown pe w w') \<Longrightarrow> grown pe w w'"
  by (auto simp: lift_probe_def split: prod.splits sum.splits)

lemma lift_record_grown: "lift_probe (record_evidence ev parent w) = (r, w') \<Longrightarrow> witnessed pe ev \<Longrightarrow> grown pe w w'"
  by (erule lift_probe_grown) (rule record_evidence_grown)

lemma lift_blocked_grown: "lift_probe (on_builder (\<lambda>b. add_blocked_by b x y) w) = (r, w') \<Longrightarrow> grown pe w w'"
  by (erule lift_probe_grown) (rule blocked_grown)

subsection \<open>The probes\<close>

lemma dns_lookup_grown: "dns_lookup (pv_env pe) host scope w = (r, w') \<Longrightarrow> grown pe w w'"
  by (auto simp: dns_lookup_def observe_dns_def Let_def ask_def grown_def split: sum.splits prod.splits)

lemma dns_lookup_made: "dns_lookup (pv_env pe) host scope w = (Inr ev, w') \<Longrightarrow> witnessed pe ev"
  by (auto simp: dns_lookup_def split: sum.splits prod.splits intro: witnessed.dns)

lemma observe_tcp_grown: "observe_tcp e addr w = (ob, w') \<Longrightarrow> grown pe w w'"
  by (auto simp: observe_tcp_def dial_def Let_def ask_def grown_def log_event_def split: prod.splits if_splits)

lemma tcp_connect_grown: "tcp_connect e endpoint addr scope w = (r, w') \<Longrightarrow> grown pe w w'"
  using observe_tcp_grown
  by (fastforce simp: tcp_connect_def new_tcp_result_def split: sum.splits prod.splits)

lemma tcp_connect_made:
  "tcp_connect (pv_env pe) endpoint addr scope w = (Inr c, w') \<Longrightarrow> witnessed pe (tr_evidence c)"
  by (auto simp: tcp_connect_def new_tcp_result_def split: sum.splits prod.splits intro: witnessed.tcp)

lemma observe_tls_grown: "observe_tls e conn p w = (ob, w') \<Longrightarrow> grown pe w w'"
  by (auto simp: observe_tls_def Let_def ask_def grown_def split: prod.splits)

lemma tls_handshake_grown: "tls_handshake e conn p w = (r, w') \<Longrightarrow> grown pe w w'"
  using observe_tls_grown
  by (fastforce simp: tls_handshake_def new_tls_result_def split: sum.splits prod.splits if_splits)

lemma tls_handshake_made: "tls_handshake (pv_env pe) conn p w = (Inr s, w') \<Longrightarrow> witnessed pe (sr_evidence s)"
  by (auto simp: tls_handshake_def new_tls_result_def split: sum.splits prod.splits if_splits intro: witnessed.tls)

subsection \<open>The chain\<close>

lemma skipped_evidence_grown:
  "skipped_evidence e step layer endpoint addr failure scope w = (r, w') \<Longrightarrow> grown pe w w'"
  and skipped_evidence_made:
  "skipped_evidence e step layer endpoint addr failure scope w = (Inr ev, w') \<Longrightarrow> witnessed pe ev"
  by (auto simp: skipped_evidence_def ask_def grown_def split: sum.splits intro: witnessed.skipped)

lemma record_skipped_tls_grown: "record_skipped_tls e p blocker addr w = (r, w') \<Longrightarrow> grown pe w w'"
  unfolding record_skipped_tls_def
  by (auto elim!: grown_and_then intro!: snd_grown intro: skipped_evidence_grown blocked_grown
      record_evidence_grown skipped_evidence_made)

lemma record_unattempted_grown: "record_unattempted e p parent addr failure w = (r, w') \<Longrightarrow> grown pe w w'"
  unfolding record_unattempted_def
  by (auto elim!: grown_and_then intro!: snd_grown intro: skipped_evidence_grown record_skipped_tls_grown
      record_evidence_grown skipped_evidence_made split: if_splits)

lemma chain_handshake_grown: "chain_handshake (pv_env pe) p t connection addr w = (r, w') \<Longrightarrow> grown pe w w'"
  unfolding chain_handshake_def
  by (auto split: option.splits prod.splits sum.splits elim!: grown_and_then intro!: snd_grown
      intro: tls_handshake_grown dest!: record_evidence_grown [OF _ tls_handshake_made])

lemma locate_grown: "locate (pv_env pe) p w = (r, w') \<Longrightarrow> grown pe w w'"
  unfolding locate_def
  by (auto split: option.splits elim!: grown_and_then intro!: snd_grown
      intro: dns_lookup_grown record_evidence_grown dns_lookup_made)

lemma sweep_address_grown: "sweep_address (pv_env pe) p parent addr w = (r, w') \<Longrightarrow> grown pe w w'"
proof -
  assume a: "sweep_address (pv_env pe) p parent addr w = (r, w')"
  obtain ctx w0 where ask: "ask (en_ctx (pv_env pe)) w = (ctx, w0)" by force
  have "grown pe w0 w'"
  proof (cases "ctx = CtxLive")
    case False
    then show ?thesis
      using a by (auto simp: sweep_address_def ask elim!: grown_and_then intro!: snd_grown
          intro: record_unattempted_grown)
  next
    case True
    note run = a [unfolded sweep_address_def ask prod.case True]
    show ?thesis
    proof (rule grown_and_then [of "tcp_connect (pv_env pe) (chain_endpoint p) addr (cp_scope p) w0" _ r w'])
      show "grown pe w0 (snd (tcp_connect (pv_env pe) (chain_endpoint p) addr (cp_scope p) w0))"
        by (intro snd_grown) (rule tcp_connect_grown)
    qed (use run in \<open>auto split: option.splits prod.splits sum.splits if_splits
          dest!: record_evidence_grown [OF _ tcp_connect_made] record_skipped_tls_grown chain_handshake_grown
          intro: grown_trans\<close>)
  qed
  then show ?thesis by (rule ask_grown [OF ask])
qed

lemma sweep_all_grown: "sweep_all (pv_env pe) p parent ips conts w = (r, w') \<Longrightarrow> grown pe w w'"
proof (induction ips arbitrary: conts w)
  case (Cons ip ips)
  obtain x w1 where s: "sweep_address (pv_env pe) p parent \<lparr>ap_addr = Some ip, ap_port = cp_port p\<rparr> w = (x, w1)" by force
  have "grown pe w1 w'" using Cons by (auto simp: s split: sum.splits option.splits)
  then show ?case using sweep_address_grown [OF s] grown_trans by blast
qed auto

lemma run_chain_grown: "run_chain (pv_env pe) p w = (r, w') \<Longrightarrow> grown pe w w'"
  unfolding run_chain_def
  by (auto split: sum.splits elim!: grown_and_then intro!: snd_grown intro: locate_grown sweep_all_grown)

subsection \<open>The PostgreSQL steps\<close>

text \<open>Questions to the environment leave the builder alone.\<close>

lemma skipped_made:
  "make_evidence \<lparr>ev_id = x, ev_subject = s, ev_layer = l, ev_step = st, ev_state = StateSkipped, ev_failure = f,
     ev_attributes = as, ev_started = at, ev_elapsed = el\<rparr> = Inr ev \<Longrightarrow> witnessed pe ev"
  by (auto simp: make_evidence_Inr intro: witnessed.skipped)

lemmas grown_steps = lift_record_grown lift_blocked_grown ask_grown skipped_made

lemma pg_record_skipped_tls_grown: "pg_record_skipped_tls pe t blocker w = (r, w') \<Longrightarrow> grown pe w w'"
  unfolding pg_record_skipped_tls_def
  by (auto split: sum.splits prod.splits elim!: ask_grown elim!: grown_and_then intro!: snd_grown intro: grown_steps)

lemma negotiate_skipped_grown: "negotiate_skipped pe conn t p w = (r, w') \<Longrightarrow> grown pe w w'"
  unfolding negotiate_skipped_def
  by (auto split: sum.splits prod.splits elim!: ask_grown dest!: lift_record_grown [OF _ skipped_made])

lemma pg_upgrade_grown: "pg_upgrade pe conn t p x w \<sigma> = (r, w', \<sigma>') \<Longrightarrow> grown pe w w'"
proof -
  assume a: "pg_upgrade pe conn t p x w \<sigma> = (r, w', \<sigma>')"
  obtain h w1 where h: "tls_handshake (pv_env pe) conn (pg_tls_params p t) w = (h, w1)" by force
  have "grown pe w1 w'"
    using a tls_handshake_made [of pe conn "pg_tls_params p t" w _ w1] h
    by (cases h) (auto simp: pg_upgrade_def h lift_probe_def [of "(x, w)" for x w] Let_def
        split: sum.splits prod.splits option.splits intro: lift_record_grown)
  then show ?thesis using tls_handshake_grown [OF h] grown_trans by blast
qed

lemma ssl_made:
  assumes "make_evidence \<lparr>ev_id = x, ev_subject = s, ev_layer = l, ev_step = step_ssl_request, ev_state = state,
      ev_failure = failure, ev_attributes = (if is_ok outcome then [(attr_ssl_offered, bool_attr offered)] else []),
      ev_started = at, ev_elapsed = el\<rparr> = Inr ev"
    and "send_ssl_request arrived c = (outcome, c')"
    and "classify_ssl_response outcome fault ctx1 ctx2 = (state, failure, offered)"
  shows "witnessed pe ev"
  using assms by (auto simp: make_evidence_Inr intro!: witnessed.ssl)

lemma negotiate_tls_grown: "negotiate_tls pe conn t p w \<sigma> = (r, w', \<sigma>') \<Longrightarrow> grown pe w w'"
proof -
  assume a: "negotiate_tls pe conn t p w \<sigma> = (r, w', \<sigma>')"
  obtain started w1 where a1: "ask (en_now (pv_env pe)) w = (started, w1)" by force
  obtain arrived w2 where a2: "ask (pv_arrived pe) w1 = (arrived, w2)" by force
  obtain outcome stream where ssl: "send_ssl_request arrived (\<sigma> conn) = (outcome, stream)" by force
  obtain fault w3 where a3: "ask (pv_fault pe) w2 = (fault, w3)" by force
  obtain ended w4 where a4: "ask (en_now (pv_env pe)) w3 = (ended, w4)" by force
  obtain ctx1 w5 where a5: "ask (en_ctx (pv_env pe)) w4 = (ctx1, w5)" by force
  obtain ctx2 w6 where a6: "ask (en_ctx (pv_env pe)) w5 = (ctx2, w6)" by force
  obtain state failure offered where cl: "classify_ssl_response outcome fault ctx1 ctx2 = (state, failure, offered)"
    by (metis surj_pair)
  note run = a [unfolded negotiate_tls_def a1 a2 ssl a3 a4 a5 a6 cl Let_def prod.case]
  have "grown pe w6 w'"
    using run
    by (auto split: sum.splits prod.splits if_splits dest!: lift_record_grown [OF _ ssl_made [OF _ ssl cl]]
        pg_record_skipped_tls_grown pg_upgrade_grown intro: grown_trans)
  then show ?thesis
    using ask_grown [OF a1] ask_grown [OF a2] ask_grown [OF a3] ask_grown [OF a4] ask_grown [OF a5] ask_grown [OF a6]
    by blast
qed

lemma negotiate_grown: "negotiate pe path p w \<sigma> = (r, w', \<sigma>') \<Longrightarrow> grown pe w w'"
  unfolding negotiate_def
  by (auto split: sum.splits prod.splits option.splits if_splits simp: Let_def
      dest!: negotiate_skipped_grown negotiate_tls_grown)

lemma record_skipped_startup_grown: "record_skipped_startup pe s blocker p w = (r, w') \<Longrightarrow> grown pe w w'"
  unfolding record_skipped_startup_def
  by (auto split: sum.splits prod.splits elim!: ask_grown elim!: grown_and_then intro!: snd_grown intro: grown_steps)

lemma startup_made:
  assumes "make_evidence \<lparr>ev_id = x, ev_subject = s, ev_layer = l, ev_step = step_startup, ev_state = state,
      ev_failure = failure, ev_attributes = startup_attributes p outcome, ev_started = at, ev_elapsed = el\<rparr> = Inr ev"
    and "exchange_startup p c = (outcome, c')" and "classify_startup outcome fault ctx1 ctx2 = (state, failure)"
  shows "witnessed pe ev"
  using assms by (auto simp: make_evidence_Inr intro!: witnessed.startup)

lemma startup_grown: "startup pe s p w \<sigma> = (r, w', \<sigma>') \<Longrightarrow> grown pe w w'"
  unfolding startup_def Let_def
  by (auto split: sum.splits prod.splits option.splits if_splits elim!: ask_grown
      dest!: lift_record_grown [OF _ startup_made] record_skipped_startup_grown)

lemma refusal_evidence_grown: "refusal_evidence pe r state failure m w = (x, w') \<Longrightarrow> grown pe w w'"
  by (auto simp: refusal_evidence_def split: prod.splits elim!: ask_grown)

lemma skip_refusal_made: "refusal_evidence pe r StateSkipped failure m w = (Inr ev, w') \<Longrightarrow> witnessed pe ev"
  by (auto simp: refusal_evidence_def split: prod.splits dest: skipped_made)

lemma mechanism_refusal_made:
  "refusal_evidence pe r state failure False w = (Inr ev, w') \<Longrightarrow> admissible_mechanism r = Some (state, failure) \<Longrightarrow>
     witnessed pe ev"
  by (auto simp: refusal_evidence_def make_evidence_Inr split: prod.splits intro!: witnessed.mechanism)

lemma record_refusal_grown:
  "admissible_mechanism r = Some (state, failure) \<Longrightarrow> record_mechanism_refusal pe r state failure w = (x, w') \<Longrightarrow> grown pe w w'"
  "record_missing_input pe r w = (x, w') \<Longrightarrow> grown pe w w'"
  "record_policy_refusal pe r w = (x, w') \<Longrightarrow> grown pe w w'"
  unfolding record_mechanism_refusal_def record_missing_input_def record_policy_refusal_def
  by (auto elim!: grown_and_then intro!: snd_grown intro: refusal_evidence_grown lift_record_grown
      mechanism_refusal_made skip_refusal_made lift_blocked_grown split: option.splits)

lemma observe_authentication_grown: "observe_authentication pe conn secret w \<sigma> = (ob, w', \<sigma>') \<Longrightarrow> grown pe w w'"
  by (auto simp: observe_authentication_def Let_def ask_def grown_def split: prod.splits)

lemma attempt_authentication_grown: "attempt_authentication pe conn r secret w \<sigma> = (x, w', \<sigma>') \<Longrightarrow> grown pe w w'"
proof -
  assume a: "attempt_authentication pe conn r secret w \<sigma> = (x, w', \<sigma>')"
  obtain ob w1 \<sigma>1 where ob: "observe_authentication pe conn secret w \<sigma> = (ob, w1, \<sigma>1)" by (metis surj_pair)
  have "grown pe w1 w'"
    using a by (auto simp: attempt_authentication_def ob split: sum.splits prod.splits if_splits
        dest!: lift_record_grown [OF _ witnessed.authentication [OF ob]])
  then show ?thesis using observe_authentication_grown [OF ob] grown_trans by blast
qed

lemma refuse_grown: "refuse conn x = (y, w') \<Longrightarrow> (\<And>r w1. x = (r, w1) \<Longrightarrow> grown pe w w1) \<Longrightarrow> grown pe w w'"
  by (auto simp: refuse_def split: prod.splits sum.splits)

lemma authenticate_grown: "authenticate pe r cred p w \<sigma> = (x, w', \<sigma>') \<Longrightarrow> grown pe w w'"
  unfolding authenticate_def
  by (auto split: sum.splits prod.splits option.splits if_splits elim!: refuse_grown
      dest!: attempt_authentication_grown intro: record_refusal_grown)

lemma observe_session_grown: "observe_session pe conn w \<sigma> = (ob, w', \<sigma>') \<Longrightarrow> grown pe w w'"
  by (auto simp: observe_session_def Let_def ask_def grown_def split: prod.splits)

lemma establish_session_grown: "establish_session pe s p w \<sigma> = (x, w', \<sigma>') \<Longrightarrow> grown pe w w'"
proof -
  assume a: "establish_session pe s p w \<sigma> = (x, w', \<sigma>')"
  have "grown pe w w'" if "observe_session pe conn w \<sigma> = (ob, w1, \<sigma>1)" "grown pe w1 w'" for conn ob w1 \<sigma>1
    using observe_session_grown [OF that(1)] that(2) grown_trans by blast
  then show ?thesis
    using a by (auto simp: establish_session_def split: sum.splits prod.splits option.splits if_splits
        dest: lift_record_grown [OF _ witnessed.session])
qed

subsection \<open>The run\<close>

lemma record_requested_target_grown: "record_requested_target t at w = (r, w') \<Longrightarrow> grown pe w w'"
  unfolding record_requested_target_def
  apply (auto split: sum.splits elim!: grown_and_then intro!: snd_grown)
  apply (erule lift_probe_grown, erule grown_on_builder, rule recorded_step.evidence)
   apply (auto simp: make_evidence_Inr intro: witnessed.target)
  done

lemma discover_grown: "discover pe p paths found w \<sigma> = (r, w', \<sigma>') \<Longrightarrow> grown pe w w'"
proof (induction paths arbitrary: found w \<sigma> r w' \<sigma>')
  case (Cons path paths)
  obtain ctx w0 where ask: "ask (en_ctx (pv_env pe)) w = (ctx, w0)" by force
  obtain n taken w1 \<sigma>1 where neg: "negotiate pe path (pg_negotiate_params p) w0 \<sigma> = ((n, taken), w1, \<sigma>1)"
    by (metis surj_pair)
  have g1: "grown pe w w1" using ask_grown [OF ask] negotiate_grown [OF neg] by blast
  have g0: "grown pe w w0" using ask_grown [OF ask] by blast
  show ?case
  proof (cases n)
    case (Inl err)
    then show ?thesis using Cons.prems g0 g1 by (auto simp: ask neg split: if_splits)
  next
    case (Inr session)
    obtain x taken' w2 \<sigma>2 where st: "startup pe session (pg_startup_params p) w1 \<sigma>1 = ((x, taken'), w2, \<sigma>2)"
      by (metis surj_pair)
    have g2: "grown pe w w2" using g1 startup_grown [OF st] grown_trans by blast
    have g3: "grown pe w (snd (close_owned taken' w2))" using g2 by simp
    show ?thesis
      using Cons.prems g0 g2 by (auto simp: ask neg Inr st Let_def split: if_splits sum.splits prod.splits
          dest!: Cons.IH intro: grown_trans [OF g3])
  qed
qed auto

lemma continue_path_grown: "continue_path pe p selected w \<sigma> = (r, w', \<sigma>') \<Longrightarrow> grown pe w w'"
  unfolding continue_path_def
  by (auto split: sum.splits prod.splits option.splits dest!: authenticate_grown establish_session_grown
      intro: grown_trans)

lemma measure_paths_grown: "measure_paths pe p paths w \<sigma> = (r, w', \<sigma>') \<Longrightarrow> grown pe w w'"
proof -
  assume a: "measure_paths pe p paths w \<sigma> = (r, w', \<sigma>')"
  obtain x paths' w1 \<sigma>1 where d: "discover pe p paths [] w \<sigma> = ((x, paths'), w1, \<sigma>1)" by (metis surj_pair)
  have "grown pe w1 w'"
    using a by (auto simp: measure_paths_def d Let_def grown_def split: sum.splits option.splits prod.splits if_splits
        dest!: ask_builder continue_path_grown)
  then show ?thesis using discover_grown [OF d] grown_trans by blast
qed

lemma measure_postgres_grown: "measure_postgres pe p t w \<sigma> = (r, w', \<sigma>') \<Longrightarrow> grown pe w w'"
  unfolding measure_postgres_def
  by (auto split: sum.splits prod.splits elim!: ask_grown dest!: record_requested_target_grown run_chain_grown
      measure_paths_grown intro: grown_trans)

end
