(* ===== verification/PgDiagnose.thy ===== *)
theory PgDiagnose
  imports PgRuleProps PgAppProps Recorded Pipeline
begin

text \<open>
  \<open>DiagnosePostgres\<close> of \<open>internal/app/postgres.go\<close>: one run from its parameters to its report, over the measurement
  of theory \<open>PgApp\<close>, the rules of theories \<open>Boundary\<close>, \<open>TransportRules\<close> and \<open>PgRules\<close>, the engine and the report
  constructor; and what holds of every such run.
\<close>

subsection \<open>The run\<close>

record pg_run_input = pg_run_params +
  pr_vantage :: vantage
  pr_version :: string

datatype app_error = ErrRunInput | ErrRunStep step_error | ErrRunDomain domain_error | ErrRunRules diag_error

definition validate_pg_run :: "pg_run_input \<Rightarrow> app_error + unit" where
  "validate_pg_run p =
     (if pr_host p = [] then Inl ErrRunInput
      else if pr_port p = 0 then Inl ErrRunInput
      else if pr_role p = [] then Inl ErrRunInput
      else if \<not> pr_resolver p then Inl ErrRunInput
      else if \<not> pr_dialer p then Inl ErrRunInput
      else if vantage_is_zero (pr_vantage p) then Inl ErrRunInput
      else if pr_version p = [] then Inl ErrRunInput
      else if pr_step_timeout p < 0 then Inl ErrRunInput
      else Inr ())"

definition report_target :: "logical_target \<Rightarrow> domain_error + target" where
  "report_target t = new_target (target_label t) []"

definition build_pg_report ::
    "graph \<Rightarrow> finding list \<Rightarrow> logical_target \<Rightarrow> pg_run_input \<Rightarrow> go_time \<Rightarrow> go_duration \<Rightarrow> domain_error + report" where
  "build_pg_report g findings t p started elapsed =
     rbind (new_service_id ''postgres'') (\<lambda>service.
     rbind (new_run_metadata (pr_version p) started elapsed service) (\<lambda>run.
     rbind (report_target t) (\<lambda>target.
     rbind (new_report_security OutputModeLocalFull (pr_tls p = TLSRequired \<and> ct_insecure (pr_options p)) False) (\<lambda>sec.
     new_report \<lparr>ri_run = run, ri_target = target, ri_vantage = pr_vantage p, ri_graph = g,
       ri_findings = findings, ri_security = sec\<rparr>))))"

text \<open>A rule of the registry: none of these rules can panic.\<close>

definition sound :: "(rule_context \<Rightarrow> finding list) \<Rightarrow> rule option" where
  "sound rule = Some (\<lambda>ctx. Some (rule ctx))"

definition pg_rule_calls :: "(string \<times> rule option) list" where
  "pg_rule_calls =
     [(''diag/failure-boundary'', sound failure_boundary),
      (''transport/dns'', sound dns_rule),
      (''transport/tcp'', sound tcp_rule),
      (''postgres/ssl-request'', sound ssl_request_rule),
      (''postgres/tls'', sound pg_tls_rule),
      (''postgres/startup'', sound startup_rule),
      (''postgres/authentication'', sound authentication_rule),
      (''postgres/session'', sound session_rule),
      (''postgres/admission-scope'', sound admission_scope_rule)]"

definition pg_registry :: "diag_error + registry" where
  "pg_registry = rule_set_freeze (add_all pg_rule_calls)"

text \<open>What follows the measurement: the graph is frozen, judged and reported. \<open>time.Now\<close> and \<open>ctx.Err\<close> are
  questions to the environment.\<close>

definition judge_postgres ::
    "pg_env \<Rightarrow> pg_run_input \<Rightarrow> logical_target \<Rightarrow> go_time \<Rightarrow> bool \<Rightarrow> world \<Rightarrow> (app_error + app_result) \<times> world" where
  "judge_postgres pe p t started established w =
     (case freeze (wd_builder w) of
        Inl err \<Rightarrow> (Inl (ErrRunDomain err), w)
      | Inr g \<Rightarrow>
          (case ask (en_ctx (pv_env pe)) w of (ctx, w1) \<Rightarrow>
             (let incomplete = incomplete_run ctx g established
              in case pg_registry of
                   Inl err \<Rightarrow> (Inl (ErrRunRules err), w1)
                 | Inr registry \<Rightarrow>
                     (let out = evaluate registry
                          \<lparr>ctx_graph = g, ctx_vantage = pr_vantage p, ctx_incomplete = incomplete\<rparr>
                      in case ask (en_now (pv_env pe)) w1 of (ended, w2) \<Rightarrow>
                           (case build_pg_report g (oc_findings out) t p started (ended - started) of
                              Inl err \<Rightarrow> (Inl (ErrRunDomain err), w2)
                            | Inr report \<Rightarrow>
                                (Inr \<lparr>ar_report = report, ar_incomplete = incomplete \<or> outcome_failed out\<rparr>, w2))))))"

definition diagnose_postgres ::
    "pg_env \<Rightarrow> bool \<Rightarrow> pg_run_input \<Rightarrow> world \<Rightarrow> streams \<Rightarrow> (app_error + app_result) \<times> world \<times> streams" where
  "diagnose_postgres pe has_ctx input w \<sigma> =
     (if \<not> has_ctx then (Inl ErrRunInput, w, \<sigma>)
      else case app_normalize_host (pr_host input) of
        Inl _ \<Rightarrow> (Inl ErrRunInput, w, \<sigma>)
      | Inr host \<Rightarrow>
          (let p = input\<lparr>pr_host := host\<rparr>
           in case validate_pg_run p of
                Inl err \<Rightarrow> (Inl err, w, \<sigma>)
              | Inr _ \<Rightarrow>
                  (case ask (en_now (pv_env pe)) w of (started, w0) \<Rightarrow>
                     (let t = \<lparr>lt_host = host, lt_port = pr_port p\<rparr>
                      in case measure_postgres pe (pg_run_params.truncate p) t (w0\<lparr>wd_builder := new_graph_builder\<rparr>) \<sigma> of
                           (Inl err, w1, \<sigma>1) \<Rightarrow> (Inl (ErrRunStep err), w1, \<sigma>1)
                         | (Inr established, w1, \<sigma>1) \<Rightarrow>
                             (case judge_postgres pe p t started established w1 of (r, w2) \<Rightarrow> (r, w2, \<sigma>1))))))"

subsection \<open>The registry\<close>

definition pg_rules :: registry where
  "pg_rules = map (\<lambda>(i, eval). \<lparr>rr_id = i, rr_eval = eval\<rparr>) pg_rule_calls"

lemma pg_rule_ids: "distinct (map fst pg_rule_calls)" "\<forall>c\<in>set pg_rule_calls. rule_id_valid (fst c) \<and> snd c \<noteq> None"
  by (simp_all add: pg_rule_calls_def sound_def rule_id_valid_def new_rule_id_def validate_rule_id_part_def
      max_rule_id_part_def is_lower_def is_digit_def)

lemma pg_registry_ok: "pg_registry = Inr pg_rules" "registry_wf pg_rules"
proof -
  have "add_all pg_rule_calls = \<lparr>rs_rules = pg_rules, rs_seen = rev (map fst pg_rule_calls), rs_err = None\<rparr>"
    using add_all_state [of pg_rule_calls] pg_rule_ids by (simp add: pg_rules_def)
  moreover show wf: "registry_wf pg_rules"
    using pg_rule_ids by (auto simp: registry_wf_def registry_ids_def pg_rules_def comp_def case_prod_beta)
  ultimately show "pg_registry = Inr pg_rules"
    by (simp add: pg_registry_def rule_set_freeze_def freeze_rules_Inr registry_ids_def)
qed

lemma pg_rule_output:
  assumes "r \<in> set pg_rules"
  shows "\<exists>rule. rr_eval r = sound rule \<and> output_of ctx r = rule ctx \<and> \<not> panicked ctx r \<and> grounded_rule rule"
proof -
  have "\<forall>c\<in>set pg_rule_calls. \<exists>rule. snd c = sound rule \<and> grounded_rule rule"
    by (auto simp: pg_rule_calls_def boundary.grounded_rule_axioms dns.grounded_rule_axioms tcp.grounded_rule_axioms
        ssl.grounded_rule_axioms pg_tls.grounded_rule_axioms startup.grounded_rule_axioms
        authentication.grounded_rule_axioms session.grounded_rule_axioms admission.grounded_rule_axioms)
  then obtain rule where "rr_eval r = sound rule" "grounded_rule rule"
    using assms by (auto simp: pg_rules_def)
  then show ?thesis
    by (auto simp: output_of_def evaluate_one_def sound_def panicked_def)
qed

lemma pg_rules_grounded:
  assumes "graph_wf (ctx_graph ctx)" "r \<in> set pg_rules" "f \<in> set (output_of ctx r)"
  shows "grounded (ctx_graph ctx) f"
  using pg_rule_output [OF assms(2), of ctx] grounded_rule.gives_grounded [OF _ assms(1)] assms(3) by auto

lemma pg_rules_sound: "graph_wf (ctx_graph ctx) \<Longrightarrow> rules_sound pg_rules ctx"
  using pg_rules_grounded by (auto simp: rules_sound_def grounded_def)

lemma pg_outcome:
  assumes "graph_wf (ctx_graph ctx)"
  shows "\<not> outcome_failed (evaluate pg_rules ctx)"
proof -
  have "filter (panicked ctx) pg_rules = []"
    using pg_rule_output by (auto simp: filter_empty_conv)
  then show ?thesis
    using evaluate_eq [OF pg_registry_ok(2) pg_rules_sound [OF assms]] by (auto simp: outcome_failed_def)
qed

text \<open>Merging keeps what grounds a finding.\<close>

lemma pg_findings_grounded:
  assumes "graph_wf (ctx_graph ctx)" "f \<in> set (oc_findings (evaluate pg_rules ctx))"
  shows "refs_recorded (ctx_graph ctx) f" "accuses_observed (ctx_graph ctx) f" "finding_made f"
proof -
  obtain parts where p: "oc_findings (evaluate pg_rules ctx) = sort_findings (map merge_of parts)"
    "\<And>p. p \<in> set parts \<Longrightarrow> made_from (merge_of p) (set p) \<and> finding_made (merge_of p)"
    "(\<Union>p\<in>set parts. set p) = (\<Union>r\<in>set pg_rules. set (output_of ctx r))"
    using evaluate_parts [OF pg_registry_ok(2) pg_rules_sound [OF assms(1)]] by blast
  obtain q where q: "q \<in> set parts" "f = merge_of q" using assms(2) by (auto simp: p(1) sort_findings_def)
  have m: "made_from f (set q)" "finding_made f" using p(2) [OF q(1)] q(2) by simp_all
  then show "finding_made f" by simp
  have each: "grounded (ctx_graph ctx) h" if "h \<in> set q" for h
    using p(3) q(1) that pg_rules_grounded [OF assms(1)] by blast
  show "refs_recorded (ctx_graph ctx) f"
    using each made_fromD(2) [OF m(1)] by (auto simp: grounded_def refs_recorded_def)
  obtain h where "h \<in> set q" "f_severity f = f_severity h" using made_fromD(3) [OF m(1)] by auto
  then show "accuses_observed (ctx_graph ctx) f"
    using each [of h] made_fromD(2) [OF m(1)]
    by (auto simp: grounded_def accuses_observed_def is_problem_def)
qed

subsection \<open>What a run can have seen\<close>

text \<open>The condition name a server reports is one, or there is none.\<close>

definition told_ok :: "error_fields \<Rightarrow> bool" where
  "told_ok f \<longleftrightarrow> ef_sqlstate f = [] \<or> valid_sqlstate (ef_sqlstate f)"

lemma told_ok_none [simp]: "told_ok no_fields"
  by (simp add: told_ok_def no_fields_def)

lemma take_error_field_told: "told_ok out \<Longrightarrow> told_ok (take_error_field key v out)"
  by (auto simp: told_ok_def take_error_field_def Let_def)

lemma decode_error_from_told: "decode_error_from body out = Inr f \<Longrightarrow> told_ok out \<Longrightarrow> told_ok f"
proof (induction body out rule: decode_error_from.induct)
  case (1 body out)
  then show ?case
    by (subst (asm) (2) decode_error_from.simps)
      (auto intro: take_error_field_told split: list.splits prod.splits if_splits)
qed

lemma decode_error_fields_told: "decode_error_fields body = Inr f \<Longrightarrow> told_ok f"
  unfolding decode_error_fields_def by (erule decode_error_from_told) simp

lemma read_startup_reply_told: "read_startup_reply k c = (Inl (err, f), c') \<Longrightarrow> told_ok f"
  by (induction k arbitrary: c) (auto dest: decode_error_fields_told split: sum.splits prod.splits if_splits)

lemma exchange_startup_told: "exchange_startup p c = (Inl (err, f), c') \<Longrightarrow> told_ok f"
  by (auto simp: exchange_startup_def simp del: read_startup_reply.simps dest: read_startup_reply_told split: sum.splits prod.splits)

lemma read_auth_step_told: "read_auth_step k c = (Inl (err, f), c') \<Longrightarrow> told_ok f"
  by (induction k arbitrary: c) (auto dest: decode_error_fields_told split: sum.splits prod.splits if_splits)

lemma and_then_Inl:
  "and_then x f = (Inl e, s') \<Longrightarrow> x = (Inl e, s') \<or> (\<exists>v s. x = (Inr v, s) \<and> f v s = (Inl e, s'))"
  by (cases x, cases "fst x") auto

lemma read_sasl_payload_told: "read_sasl_payload want c = (Inl (err, f), c') \<Longrightarrow> told_ok f"
  by (auto simp: read_sasl_payload_def simp del: read_auth_step.simps dest!: and_then_Inl read_auth_step_told
      split: sum.splits prod.splits if_splits)

lemma read_authentication_ok_told: "read_authentication_ok c = (Inl (err, f), c') \<Longrightarrow> told_ok f"
  by (auto simp: read_authentication_ok_def simp del: read_auth_step.simps dest!: and_then_Inl read_auth_step_told
      split: sum.splits prod.splits if_splits)

lemma finish_scram_told: "told_ok (ps_fields (fst (finish_scram n st c)))"
  by (auto simp: finish_scram_def pg_scram_zero_def Let_def dest: read_sasl_payload_told read_authentication_ok_told
      split: sum.splits prod.splits)

lemma authenticate_scram_told: "told_ok (ps_fields (fst (authenticate_scram pw nonces kdf c)))"
  using finish_scram_told
  by (auto simp: authenticate_scram_def pg_scram_zero_def Let_def dest: read_sasl_payload_told
      split: sum.splits prod.splits)

lemma observe_authentication_told:
  "observe_authentication pe conn secret w \<sigma> = (ob, w', \<sigma>') \<Longrightarrow> told_ok (ps_fields (ao_scram ob))"
  using authenticate_scram_told [of "reveal secret"]
  by (auto simp: observe_authentication_def Let_def split: prod.splits) (metis fst_conv)

lemmas pg_step_names = step_ssl_request_def step_startup_def step_authentication_def step_session_def
  step_target_requested_def step_dns_lookup_def step_tcp_connect_def step_tls_handshake_def

lemmas pg_attr_names = attr_sqlstate_def attr_error_severity_def attr_error_is_native_def attr_protocol_version_def
  attr_role_def attr_database_def attr_auth_method_def attr_sasl_mechanisms_def attr_sasl_mechanism_def
  attr_scram_iterations_def attr_ssl_offered_def

lemma error_attributes_sqlstate:
  "map_of (error_attributes f) attr_sqlstate =
     (if ef_sqlstate f = [] then None else Some (string_attr (ef_sqlstate f)))"
  by (simp add: error_attributes_def map_of_append pg_attr_names)

lemma attribute_code:
  assumes "map_of (ev_attributes ev) attr_sqlstate = None
    \<or> (\<exists>s. map_of (ev_attributes ev) attr_sqlstate = Some (string_attr s) \<and> valid_sqlstate s)"
  shows "code_quotable ev"
  using assms
  by (auto simp: code_quotable_def reported_code_def node_string_attr_def evidence_attribute_def attr_get_str_def
      string_attr_def)

lemma error_attributes_code:
  assumes "ev_attributes ev = pre @ error_attributes f" "told_ok f" "map_of pre attr_sqlstate = None"
  shows "code_quotable ev"
  by (rule attribute_code)
    (use assms in \<open>auto simp: map_of_append map_add_def error_attributes_sqlstate told_ok_def\<close>)

lemma startup_attributes_code:
  assumes "ev_attributes ev = startup_attributes p (Inl (err, f))" "told_ok f"
  shows "code_quotable ev"
proof (rule error_attributes_code [OF _ assms(2)])
  let ?pre = "[(attr_protocol_version, string_attr ''3.0''), (attr_role, identity_attr (su_user p))]
     @ (if su_database p \<noteq> [] then [(attr_database, identity_attr (su_database p))] else [])"
  show "ev_attributes ev = ?pre @ error_attributes f" by (simp add: assms(1) startup_attributes_def)
  show "map_of ?pre attr_sqlstate = None" by (simp add: pg_attr_names)
qed

lemma auth_attributes_code:
  assumes "ev_attributes ev = auth_attributes ob" "told_ok (ps_fields (ao_scram ob))"
  shows "code_quotable ev"
proof (rule error_attributes_code [OF _ assms(2)])
  let ?pre = "(attr_sasl_mechanism, string_attr mechanism_scram_sha256) # (if 0 < ps_iterations (ao_scram ob)
        then [(attr_scram_iterations, int_attr (int (ps_iterations (ao_scram ob))))] else [])"
  show "ev_attributes ev = ?pre @ error_attributes (ps_fields (ao_scram ob))"
    by (simp add: assms(1) auth_attributes_def)
  show "map_of ?pre attr_sqlstate = None" by (simp add: pg_attr_names)
qed

text \<open>A failure that was recorded for the SSL request, the startup or the authentication is one that the rules
  know.\<close>

lemma witnessed_ssl:
  assumes "witnessed pe ev" "ev_step ev = step_ssl_request" "ev_state ev = StateFail"
  shows "ev_failure ev \<in> set negotiation_floor_classes
    \<or> ev_failure ev = FailureProtocolUnsupportedCapability \<and> node_bool_attr ev attr_ssl_offered = (False, True)"
  using assms
  by (cases rule: witnessed.cases)
    (auto simp: pg_step_names make_evidence_Inr dns_evidence_def tcp_evidence_def tls_evidence_def auth_evidence_def
      session_evidence_def Let_def classify_ssl_response_def wire_failure_class_def negotiation_floor_classes_def
      node_bool_attr_def evidence_attribute_def attr_get_bool_def bool_attr_def
      split: sum.splits prod.splits ssl_response.splits if_splits pg_error.splits)

lemma witnessed_startup:
  assumes "witnessed pe ev" "ev_step ev = step_startup" "ev_state ev = StateFail"
  shows "code_quotable ev"
  using assms
  by (cases rule: witnessed.cases)
    (auto simp: pg_step_names make_evidence_Inr dns_evidence_def tcp_evidence_def tls_evidence_def auth_evidence_def
      session_evidence_def Let_def classify_startup_def intro: startup_attributes_code
      dest: exchange_startup_told split: sum.splits prod.splits)

lemma witnessed_authentication:
  assumes "witnessed pe ev" "ev_step ev = step_authentication" "ev_state ev = StateFail"
  shows "code_quotable ev"
  using assms
  by (cases rule: witnessed.cases)
    (auto simp: pg_step_names make_evidence_Inr dns_evidence_def tcp_evidence_def tls_evidence_def auth_evidence_def
      session_evidence_def Let_def intro: auth_attributes_code attribute_code
      dest: observe_authentication_told split: sum.splits prod.splits)

subsection \<open>From the run to the report\<close>

text \<open>What judging leaves: the frozen graph, the findings of the rules over it, and a report of both.\<close>

definition judged_run :: "pg_env \<Rightarrow> graph \<Rightarrow> ctx_state \<Rightarrow> bool \<Rightarrow> vantage \<Rightarrow> app_result \<Rightarrow> bool" where
  "judged_run pe g ctx established v res \<longleftrightarrow>
     (let incomplete = incomplete_run ctx g established;
          rctx = \<lparr>ctx_graph = g, ctx_vantage = v, ctx_incomplete = incomplete\<rparr>
      in graph_wf g \<and> (\<forall>e\<in>set (graph_nodes g). witnessed pe e) \<and> rp_graph (ar_report res) = g
         \<and> rp_findings (ar_report res) = oc_findings (evaluate pg_rules rctx) \<and> ar_incomplete res = incomplete
         \<and> made_report (ar_report res)
         \<and> (sm_status (rp_summary (ar_report res)) = SummaryStatusProblemsFound
             \<longleftrightarrow> (\<exists>r\<in>set pg_rules. \<exists>f\<in>set (output_of rctx r). is_problem f)))"

lemma new_report_security_made: "new_report_security mode off fwd = Inr sec \<Longrightarrow> mode \<noteq> OutputModeUnspecified \<Longrightarrow> \<not> security_is_zero sec"
  by (auto simp: new_report_security_def security_is_zero_def split: if_splits)

lemma build_pg_report_Inr:
  assumes "build_pg_report g (oc_findings (evaluate pg_rules rctx)) t p started elapsed = Inr rep"
    "graph_wf g" "ctx_graph rctx = g" "\<not> vantage_is_zero (pr_vantage p)"
  shows "rp_graph rep = g \<and> rp_findings rep = oc_findings (evaluate pg_rules rctx) \<and> made_report rep
    \<and> (sm_status (rp_summary rep) = SummaryStatusProblemsFound
        \<longleftrightarrow> (\<exists>r\<in>set pg_rules. \<exists>f\<in>set (output_of rctx r). is_problem f))"
proof -
  obtain run target sec where parts: "\<not> run_is_zero run" "\<not> target_is_zero target" "\<not> security_is_zero sec"
    and new: "new_report \<lparr>ri_run = run, ri_target = target, ri_vantage = pr_vantage p, ri_graph = ctx_graph rctx,
       ri_findings = oc_findings (evaluate pg_rules rctx), ri_security = sec\<rparr> = Inr rep"
    using assms(1,3) unfolding build_pg_report_def rbind_Inr_iff report_target_def
    by (metis new_report_security_made new_run_metadata_ok new_target_ok output_mode.distinct(1))
  have g: "graph_wf (ctx_graph rctx)" using assms(2,3) by simp
  have "\<forall>r\<in>set pg_rules. \<forall>f\<in>set (output_of rctx r). refs_recorded (ctx_graph rctx) f"
    using pg_rules_grounded [OF g] by (auto simp: grounded_def)
  from diagnosis_report [OF pg_registry_ok(2) pg_rules_sound [OF g] g this parts(1,2) assms(4) parts(3) refl] new
  show ?thesis by (auto simp: assms(3) new_report_eq split: if_splits)
qed

lemma judge_postgres_judged:
  assumes "judge_postgres pe p t started established w1 = (Inr res, w2)" "grown pe w w1"
    "wd_builder w = new_graph_builder" "\<not> vantage_is_zero (pr_vantage p)"
  shows "\<exists>g ctx. judged_run pe g ctx established (pr_vantage p) res"
proof -
  obtain g where g: "freeze (wd_builder w1) = Inr g"
    using assms(1) by (auto simp: judge_postgres_def split: sum.splits)
  note wf = grown_witnessed [OF assms(2,3) g]
  obtain ctx u where ask: "ask (en_ctx (pv_env pe)) w1 = (ctx, u)" by force
  obtain ended u2 where ended: "ask (en_now (pv_env pe)) u = (ended, u2)" by force
  let ?rctx = "\<lparr>ctx_graph = g, ctx_vantage = pr_vantage p, ctx_incomplete = incomplete_run ctx g established\<rparr>"
  have out: "\<not> outcome_failed (evaluate pg_rules ?rctx)" using pg_outcome [of ?rctx] wf by simp
  obtain rep where rep: "build_pg_report g (oc_findings (evaluate pg_rules ?rctx)) t p started (ended - started) = Inr rep"
    and res: "res = \<lparr>ar_report = rep, ar_incomplete = incomplete_run ctx g established\<rparr>"
    using assms(1) out by (auto simp: judge_postgres_def g ask ended pg_registry_ok(1) Let_def split: sum.splits)
  have "judged_run pe g ctx established (pr_vantage p) res"
    using build_pg_report_Inr [OF rep _ _ assms(4)] wf by (simp add: judged_run_def Let_def res)
  then show ?thesis by blast
qed

lemma diagnose_postgres_judged:
  assumes "diagnose_postgres pe has_ctx input w \<sigma> = (Inr res, w', \<sigma>')"
  shows "\<exists>g ctx established. judged_run pe g ctx established (pr_vantage input) res"
proof -
  obtain host where host: "app_normalize_host (pr_host input) = Inr host"
    using assms by (auto simp: diagnose_postgres_def split: if_splits sum.splits)
  let ?p = "input\<lparr>pr_host := host\<rparr>" and ?t = "\<lparr>lt_host = host, lt_port = pr_port input\<rparr>"
  have valid: "validate_pg_run ?p = Inr ()"
    using assms by (auto simp: diagnose_postgres_def host Let_def split: if_splits sum.splits)
  obtain started w0 where ask: "ask (en_now (pv_env pe)) w = (started, w0)" by force
  let ?w = "w0\<lparr>wd_builder := new_graph_builder\<rparr>"
  obtain established w1 \<sigma>1 where m:
    "measure_postgres pe (pg_run_params.truncate ?p) ?t ?w \<sigma> = (Inr established, w1, \<sigma>1)"
    using assms by (auto simp: diagnose_postgres_def host valid ask Let_def split: if_splits sum.splits prod.splits)
  obtain w2 where j: "judge_postgres pe ?p ?t started established w1 = (Inr res, w2)"
    using assms by (auto simp: diagnose_postgres_def host valid ask m Let_def split: if_splits prod.splits)
  have "\<not> vantage_is_zero (pr_vantage ?p)"
    using valid by (auto simp: validate_pg_run_def split: if_splits)
  from judge_postgres_judged [OF j measure_postgres_grown [OF m] _ this] show ?thesis by auto
qed

lemma judge_step_output: "node \<in> set (graph_nodes g) \<Longrightarrow> ev_step node = step \<Longrightarrow> judge node = Some f \<Longrightarrow>
    f \<in> set (judge_step step judge g)"
  by (auto simp: judge_step_def set_map_filter_iff)

text \<open>What PostgreSQL refused or broke off, as the graph has it. That no mechanism was offered which the run speaks
  is a warning: another client might do.\<close>

definition pg_refused :: "evidence \<Rightarrow> bool" where
  "pg_refused e \<longleftrightarrow> ev_state e = StateFail \<and> (ev_step e \<in> {step_ssl_request, step_startup}
     \<or> ev_step e = step_authentication \<and> ev_failure e \<noteq> FailureAuthMechanismNotOffered)"

lemma pg_rule_listed:
  "(''postgres/ssl-request'', sound ssl_request_rule) \<in> set pg_rule_calls"
  "(''postgres/startup'', sound startup_rule) \<in> set pg_rule_calls"
  "(''postgres/authentication'', sound authentication_rule) \<in> set pg_rule_calls"
  by (simp_all add: pg_rule_calls_def)

lemma listed_problem:
  assumes "(i, sound rule) \<in> set pg_rule_calls" "f \<in> set (rule ctx)" "f_severity f = SeverityError"
  shows "\<exists>r\<in>set pg_rules. \<exists>f\<in>set (output_of ctx r). is_problem f"
proof (intro bexI)
  show "\<lparr>rr_id = i, rr_eval = sound rule\<rparr> \<in> set pg_rules" using assms(1) by (force simp: pg_rules_def)
  show "f \<in> set (output_of ctx \<lparr>rr_id = i, rr_eval = sound rule\<rparr>)"
    using assms(2) by (simp add: output_of_def evaluate_one_def sound_def)
  show "is_problem f" using assms(3) by (simp add: is_problem_def)
qed

lemma judged_problem:
  assumes "(i, sound rule) \<in> set pg_rule_calls" "rule ctx = judge_step step judge (ctx_graph ctx)"
    "node \<in> set (graph_nodes (ctx_graph ctx))" "ev_step node = step" "judged (judge node) SeverityError node"
  shows "\<exists>r\<in>set pg_rules. \<exists>f\<in>set (output_of ctx r). is_problem f"
proof -
  obtain f where f: "judge node = Some f" "f_severity f = SeverityError" using assms(5) by (auto simp: judged_def)
  show ?thesis
    by (rule listed_problem [OF assms(1) _ f(2)]) (simp add: assms(2) judge_step_output [of node _ _ judge, OF assms(3,4) f(1)])
qed

lemma refused_is_judged:
  assumes g: "graph_wf (ctx_graph ctx)" and e: "e \<in> set (graph_nodes (ctx_graph ctx))" "witnessed pe e" "pg_refused e"
  shows "\<exists>r\<in>set pg_rules. \<exists>f\<in>set (output_of ctx r). is_problem f"
proof -
  have wf: "evidence_wf e" by (rule node_recorded(2) [OF g e(1)])
  have fail: "ev_state e = StateFail" using e(3) by (simp add: pg_refused_def)
  consider "ev_step e = step_ssl_request" | "ev_step e = step_startup"
    | "ev_step e = step_authentication" "ev_failure e \<noteq> FailureAuthMechanismNotOffered"
    using e(3) by (auto simp: pg_refused_def)
  then show ?thesis
  proof cases
    case 1
    from judged_problem [OF pg_rule_listed(1) ssl_request_rule_def e(1) this
        evaluate_ssl_request_judged [OF wf fail witnessed_ssl [OF e(2) this fail]]] show ?thesis .
  next
    case 2
    from judged_problem [OF pg_rule_listed(2) startup_rule_def e(1) this
        evaluate_startup_judged [OF wf fail witnessed_startup [OF e(2) this fail]]] show ?thesis .
  next
    case 3
    from judged_problem [OF pg_rule_listed(3) authentication_rule_def e(1) 3(1)
        evaluate_authentication_judged [OF g e(1) fail 3(2) witnessed_authentication [OF e(2) 3(1) fail]]]
    show ?thesis .
  qed
qed

lemma judged_run_findings:
  assumes "judged_run pe g ctx established v res" "f \<in> set (rp_findings (ar_report res))"
  shows "refs_recorded g f" "accuses_observed g f"
proof -
  let ?rctx = "\<lparr>ctx_graph = g, ctx_vantage = v, ctx_incomplete = incomplete_run ctx g established\<rparr>"
  have "graph_wf (ctx_graph ?rctx)" "f \<in> set (oc_findings (evaluate pg_rules ?rctx))"
    using assms by (simp_all add: judged_run_def Let_def)
  from pg_findings_grounded(1,2) [OF this] show "refs_recorded g f" "accuses_observed g f" by simp_all
qed

lemma judged_run_status:
  assumes "judged_run pe g ctx established v res"
  shows "exit_code res None = (if ar_incomplete res then exit_incomplete
     else if list_ex is_problem (rp_findings (ar_report res)) then exit_problems_found else exit_ok)"
proof -
  have "made_report (ar_report res)" using assms by (simp add: judged_run_def Let_def)
  from made_reportD(1,3) [OF this] show ?thesis by (simp add: exit_code_def derive_summary_eq)
qed

lemma judged_run_problems:
  assumes "judged_run pe g ctx established v res" "e \<in> set (graph_nodes g)" "pg_refused e"
  shows "exit_code res None = (if ar_incomplete res then exit_incomplete else exit_problems_found)"
proof -
  let ?rctx = "\<lparr>ctx_graph = g, ctx_vantage = v, ctx_incomplete = incomplete_run ctx g established\<rparr>"
  have "graph_wf (ctx_graph ?rctx)" "e \<in> set (graph_nodes (ctx_graph ?rctx))" "witnessed pe e"
    using assms by (simp_all add: judged_run_def Let_def)
  then have "\<exists>r\<in>set pg_rules. \<exists>f\<in>set (output_of ?rctx r). is_problem f" using assms(3) by (rule refused_is_judged)
  then have "sm_status (rp_summary (ar_report res)) = SummaryStatusProblemsFound"
    using assms(1) unfolding judged_run_def Let_def by blast
  then show ?thesis by (simp add: exit_code_def)
qed

text \<open>C2: Whatever the environment and the peers do, the report of a PostgreSQL run is true to what was seen: every
  node of its graph is the requested target, an observation of a probe or step with the classification of it, or a
  step that was skipped; every finding cites recorded evidence only; every ERROR or CRITICAL finding cites a node whose
  state is FAIL; and the exit code says incomplete, problems or ok by the result and these findings alone.\<close>

theorem diagnose_postgres_sound:
  "case diagnose_postgres pe has_ctx input w \<sigma> of
     (Inl err, _) \<Rightarrow> True
   | (Inr res, _) \<Rightarrow>
       (let g = rp_graph (ar_report res); findings = rp_findings (ar_report res)
        in graph_wf g \<and> list_all (witnessed pe) (graph_nodes g)
         \<and> list_all (\<lambda>f. refs_recorded g f \<and> accuses_observed g f) findings
         \<and> exit_code res None = (if ar_incomplete res then exit_incomplete
             else if list_ex is_problem findings then exit_problems_found else exit_ok))"
proof -
  have "graph_wf (rp_graph (ar_report res)) \<and> list_all (witnessed pe) (graph_nodes (rp_graph (ar_report res)))
      \<and> list_all (\<lambda>f. refs_recorded (rp_graph (ar_report res)) f \<and> accuses_observed (rp_graph (ar_report res)) f)
          (rp_findings (ar_report res))
      \<and> exit_code res None = (if ar_incomplete res then exit_incomplete
          else if list_ex is_problem (rp_findings (ar_report res)) then exit_problems_found else exit_ok)"
    if run: "diagnose_postgres pe has_ctx input w \<sigma> = (Inr res, v)" for res v
  proof -
    obtain g ctx established where j: "judged_run pe g ctx established (pr_vantage input) res"
      using diagnose_postgres_judged [of pe has_ctx input w \<sigma> res "fst v" "snd v"] run by auto
    then have "rp_graph (ar_report res) = g" by (simp add: judged_run_def Let_def)
    then show ?thesis
      using j judged_run_findings [OF j] judged_run_status [OF j] by (auto simp: judged_run_def Let_def list_all_iff)
  qed
  then show ?thesis by (auto simp: Let_def split: prod.split sum.split)
qed

text \<open>C1: A complete PostgreSQL run never exits ok past a refusal, with one exception. If the run completed and its
  graph has a failed SSL request, a failed startup or a failed authentication, it exits with the code for problems. The
  exception is an authentication that failed with \<open>FailureAuthMechanismNotOffered\<close>, because the server offered no
  mechanism this client speaks: it is reported at WARN and such a run may exit ok. A complete run exits with the code for
  problems only when something was seen to fail, and an incomplete run exits with the code for incomplete runs.\<close>

theorem diagnose_postgres_exit:
  "case diagnose_postgres pe has_ctx input w \<sigma> of
     (Inl err, _) \<Rightarrow> True
   | (Inr res, _) \<Rightarrow>
       (let nodes = graph_nodes (rp_graph (ar_report res))
        in exit_code res None \<in>
             (if ar_incomplete res then {exit_incomplete}
              else if list_ex pg_refused nodes then {exit_problems_found}
              else if list_ex (\<lambda>e. ev_state e = StateFail) nodes then {exit_ok, exit_problems_found}
              else {exit_ok}))"
proof -
  have "exit_code res None \<in>
      (if ar_incomplete res then {exit_incomplete}
       else if list_ex pg_refused (graph_nodes (rp_graph (ar_report res))) then {exit_problems_found}
       else if list_ex (\<lambda>e. ev_state e = StateFail) (graph_nodes (rp_graph (ar_report res))) then {exit_ok, exit_problems_found}
       else {exit_ok})"
    if run: "diagnose_postgres pe has_ctx input w \<sigma> = (Inr res, v)" for res v
  proof -
    obtain g ctx established where j: "judged_run pe g ctx established (pr_vantage input) res"
      using diagnose_postgres_judged [of pe has_ctx input w \<sigma> res "fst v" "snd v"] run by auto
    then have g: "rp_graph (ar_report res) = g" by (simp add: judged_run_def Let_def)
    show ?thesis
      using judged_run_status [OF j] judged_run_problems [OF j] judged_run_findings(2) [OF j]
      by (auto simp: g list_ex_iff accuses_observed_def)
  qed
  then show ?thesis by (auto simp: Let_def split: prod.split sum.split)
qed

subsection \<open>Every run ends in a report or in a named error\<close>

text \<open>The clock of the run: it does not go back and is never at the zero time.\<close>

definition clock_ok :: "pg_env \<Rightarrow> bool" where
  "clock_ok pe \<longleftrightarrow> mono (en_now (pv_env pe)) \<and> (\<forall>k. en_now (pv_env pe) k \<noteq> 0)"

lemma measured_label:
  assumes "measure_postgres pe p t w \<sigma> = (Inr established, w', \<sigma>')"
  shows "is_ok (validate_identifier (target_label t))"
  using assms
  by (auto simp: measure_postgres_def record_requested_target_def new_target_subject_def new_subject_def rbind_Inr_iff is_ok_def
      split: sum.splits prod.splits if_splits)

lemma judge_postgres_reports:
  assumes grown: "grown pe w w1" "wd_builder w = new_graph_builder" and v: "\<not> vantage_is_zero (pr_vantage p)"
    and ids: "is_ok (validate_identifier (pr_version p))" "is_ok (validate_identifier (target_label t))"
    and clock: "clock_ok pe" "started = en_now (pv_env pe) k" "k \<le> wd_tick w"
  shows "\<exists>res w2. judge_postgres pe p t started established w1 = (Inr res, w2)"
proof -
  obtain g where g: "freeze (wd_builder w1) = Inr g"
    using freeze_ok [OF built_wf] grown_built [OF grown(1)] grown(2) built.start by auto
  note wf = grown_witnessed [OF grown g]
  obtain ctx u where ask: "ask (en_ctx (pv_env pe)) w1 = (ctx, u)" by force
  obtain ended u2 where ended: "ask (en_now (pv_env pe)) u = (ended, u2)" by force
  have "ended = en_now (pv_env pe) (Suc (wd_tick w1))" using ask ended by (auto simp: ask_def)
  moreover have "k \<le> Suc (wd_tick w1)" using clock(3) grown(1) by (simp add: grown_def)
  ultimately have later: "started \<le> ended" using clock(1,2) by (simp add: clock_ok_def monoD)
  let ?rctx = "\<lparr>ctx_graph = g, ctx_vantage = pr_vantage p, ctx_incomplete = incomplete_run ctx g established\<rparr>"
  have g': "graph_wf (ctx_graph ?rctx)" using wf by simp
  let ?run = "\<lparr>rm_version = pr_version p, rm_started = started, rm_duration = ended - started, rm_service = ''postgres''\<rparr>"
  let ?target = "\<lparr>tg_requested = target_label t, tg_normalized = []\<rparr>"
  let ?sec = "\<lparr>rs_mode = OutputModeLocalFull, rs_tls_off = (pr_tls p = TLSRequired \<and> ct_insecure (pr_options p)),
      rs_forwarding = False, rs_redactions = zero_redactions\<rparr>"
  have service: "new_service_id ''postgres'' = Inr ''postgres''" "service_id_valid ''postgres''"
    by (simp_all add: new_service_id_def service_id_ok dotted_char_def is_lower_def)
  have run: "new_run_metadata (pr_version p) started (ended - started) ''postgres'' = Inr ?run"
    using ids(1) later clock(1,2) service by (auto simp: new_run_metadata_def rbind_validators clock_ok_def)
  have target: "report_target t = Inr ?target"
    using ids(2) by (auto simp: report_target_def new_target_def rbind_validators)
  have sec: "new_report_security OutputModeLocalFull (rs_tls_off ?sec) False = Inr ?sec"
    by (simp add: new_report_security_def output_mode_valid_def)
  have nonzero: "\<not> run_is_zero ?run" "\<not> target_is_zero ?target" "\<not> security_is_zero ?sec"
    using new_run_metadata_ok [OF run] new_target_ok target new_report_security_made [OF sec]
    by (auto simp: report_target_def)
  have "\<forall>r\<in>set pg_rules. \<forall>f\<in>set (output_of ?rctx r). refs_recorded (ctx_graph ?rctx) f"
    using pg_rules_grounded [OF g'] by (auto simp: grounded_def)
  from diagnosis_report [OF pg_registry_ok(2) pg_rules_sound [OF g'] g' this nonzero(1,2) v nonzero(3) refl]
  obtain rep where "build_pg_report g (oc_findings (evaluate pg_rules ?rctx)) t p started (ended - started) = Inr rep"
    using service run target sec by (auto simp: build_pg_report_def)
  then show ?thesis by (simp add: judge_postgres_def g ask ended pg_registry_ok(1) Let_def)
qed

lemma diagnose_postgres_ends:
  assumes "clock_ok pe" "is_ok (validate_identifier (pr_version input))"
    and run: "diagnose_postgres pe has_ctx input w \<sigma> = (Inl err, w', \<sigma>')"
  shows "err = ErrRunInput \<or> (\<exists>e. err = ErrRunStep e)"
proof (rule ccontr)
  assume no: "\<not> ?thesis"
  obtain host where host: "app_normalize_host (pr_host input) = Inr host"
    using run no by (auto simp: diagnose_postgres_def split: if_splits sum.splits)
  let ?p = "input\<lparr>pr_host := host\<rparr>" and ?t = "\<lparr>lt_host = host, lt_port = pr_port input\<rparr>"
  have valid: "validate_pg_run ?p = Inr ()"
    using run no by (auto simp: diagnose_postgres_def host validate_pg_run_def Let_def split: if_splits)
  obtain started w0 where ask: "ask (en_now (pv_env pe)) w = (started, w0)" by force
  let ?w = "w0\<lparr>wd_builder := new_graph_builder\<rparr>"
  obtain established w1 \<sigma>1 where m:
    "measure_postgres pe (pg_run_params.truncate ?p) ?t ?w \<sigma> = (Inr established, w1, \<sigma>1)"
    using run no by (auto simp: diagnose_postgres_def host valid ask Let_def split: if_splits sum.splits prod.splits)
  have v: "\<not> vantage_is_zero (pr_vantage ?p)"
    using valid by (auto simp: validate_pg_run_def split: if_splits)
  have "started = en_now (pv_env pe) (wd_tick w)" "wd_tick w \<le> wd_tick ?w"
    using ask by (auto simp: ask_def)
  from judge_postgres_reports [OF measure_postgres_grown [OF m] _ v _ measured_label [OF m] assms(1) this]
  obtain res w2 where "judge_postgres pe ?p ?t started established w1 = (Inr res, w2)"
    using assms(2) by auto blast
  then show False
    using run no by (auto simp: diagnose_postgres_def host valid ask m Let_def split: if_splits)
qed

text \<open>C4: A PostgreSQL run ends in a report, unless its input was not valid or a probe or step could not be recorded.
  With a clock that does not go back and a printable version, freezing the graph, registering the rules, judging,
  merging what they find and assembling the report cannot fail, for any peer and any environment.\<close>

theorem diagnose_postgres_reports:
  assumes "clock_ok pe" and "is_ok (validate_identifier (pr_version input))"
  shows "fst (diagnose_postgres pe has_ctx input w \<sigma>)
     \<in> {Inl ErrRunInput} \<union> range (\<lambda>e. Inl (ErrRunStep e)) \<union> range Inr"
proof -
  obtain r w' \<sigma>' where "diagnose_postgres pe has_ctx input w \<sigma> = (r, w', \<sigma>')" by (metis surj_pair)
  then show ?thesis using diagnose_postgres_ends [OF assms, of has_ctx w \<sigma>] by (cases r) auto
qed

subsection \<open>A run whose target does not resolve\<close>

definition demo_pg_input :: pg_run_input where
  "demo_pg_input = pg_run_params.extend (demo_pg_run\<lparr>pr_host := ''db''\<rparr>)
     \<lparr>pr_vantage = \<lparr>vt_source = VantageSourceLocalHost, vt_host = ''here''\<rparr>, pr_version = ''1.0''\<rparr>"

lemma demo_input_parts: "pr_host demo_pg_input = ''db''" "pr_port demo_pg_input = 5432" "pr_version demo_pg_input = ''1.0''"
  "pr_vantage demo_pg_input = \<lparr>vt_source = VantageSourceLocalHost, vt_host = ''here''\<rparr>"
  "pg_run_params.truncate demo_pg_input = demo_pg_run\<lparr>pr_host := ''db''\<rparr>"
  by (simp_all add: demo_pg_input_def demo_pg_run_def pg_run_params.defs)

lemma demo_clock: "clock_ok demo_pg_env"
  by (simp add: clock_ok_def demo_pg_env_def demo_env_def mono_def)

lemma demo_name: "app_normalize_host ''db'' = Inr ''db''" "parse_host ''db'' = Inr \<lparr>ho_name = ''db'', ho_addr = None\<rparr>"
  by (simp_all add: app_normalize_host_def parse_host_def parse_ip_def)

lemma demo_input_valid: "validate_pg_run demo_pg_input = Inr ()"
  by (simp add: validate_pg_run_def demo_pg_input_def demo_pg_run_def pg_run_params.defs vantage_is_zero_def)

definition demo_target_node :: evidence where
  "demo_target_node = \<lparr>ev_id = ''target.requested/db:5432'',
     ev_subject = \<lparr>subj_kind = SubjectKindTarget, subj_ref = ''db:5432''\<rparr>, ev_layer = LayerInput,
     ev_step = ''target.requested'', ev_state = StatePass, ev_failure = FailureNone, ev_attributes = [],
     ev_started = 2, ev_elapsed = unmeasured\<rparr>"

definition demo_lookup_node :: evidence where
  "demo_lookup_node = \<lparr>ev_id = ''dns.lookup/db'',
     ev_subject = \<lparr>subj_kind = SubjectKindEndpoint, subj_ref = ''db''\<rparr>, ev_layer = LayerDNS,
     ev_step = ''dns.lookup'', ev_state = StateFail, ev_failure = FailureDNSResolverFailure, ev_attributes = [],
     ev_started = 3, ev_elapsed = measured 2\<rparr>"

lemma demo_run_nodes_wf: "evidence_wf demo_target_node" "evidence_wf demo_lookup_node"
  by (simp_all add: demo_target_node_def demo_lookup_node_def eval_evidence eval_identifier unmeasured_def)

definition demo_requested_builder :: builder where
  "demo_requested_builder = \<lparr>gb_nodes = [(ev_id demo_target_node, demo_target_node)], gb_parents = [], gb_blocked = []\<rparr>"

lemma demo_requested:
  "record_requested_target \<lparr>lt_host = ''db'', lt_port = 5432\<rparr> 2 \<lparr>wd_tick = k, wd_builder = new_graph_builder, wd_log = []\<rparr> =
     (Inr (ev_id demo_target_node), \<lparr>wd_tick = k, wd_builder = demo_requested_builder, wd_log = []\<rparr>)"
proof -
  have id: "unscoped_evidence_id ''target.requested'' [''db:5432''] = ''target.requested/db:5432''"
    by (simp add: unscoped_evidence_id_def scoped_evidence_id_def scope_is_zero_def escape_def separator_def)
  have subject: "new_target_subject ''db:5432'' = Inr \<lparr>subj_kind = SubjectKindTarget, subj_ref = ''db:5432''\<rparr>"
    by (simp add: new_target_subject_def new_subject_def eval_identifier)
  have "make_evidence demo_target_node = Inr demo_target_node"
    using demo_run_nodes_wf(1) by (simp add: make_evidence_Inr)
  then show ?thesis
    by (simp add: record_requested_target_def target_label_def demo_port_string join_host_port_def subject
        target_evidence_id_def step_target_requested_def id demo_target_node_def lift_probe_def on_builder_def
        add_evidence_def new_graph_builder_def evidence_is_zero_def demo_requested_builder_def)
qed

lemma demo_lookup:
  "dns_lookup demo_env ''db'' [] \<lparr>wd_tick = 2, wd_builder = b, wd_log = []\<rparr> =
     (Inr demo_lookup_node, \<lparr>wd_tick = 6, wd_builder = b, wd_log = []\<rparr>)"
proof -
  have id: "scoped_evidence_id [] ''dns.lookup'' [''db''] = ''dns.lookup/db''"
    by (simp add: scoped_evidence_id_def scope_is_zero_def escape_def separator_def)
  have subject: "new_endpoint_subject ''db'' = Inr \<lparr>subj_kind = SubjectKindEndpoint, subj_ref = ''db''\<rparr>"
    by (simp add: new_endpoint_subject_def new_subject_def eval_identifier)
  have valid: "validate_host ''db'' = Inr ()"
    by (simp add: validate_host_def eval_identifier)
  have made: "new_evidence demo_lookup_node = Inr demo_lookup_node"
    using demo_run_nodes_wf(2) by simp
  show ?thesis
    by (simp add: made [unfolded demo_lookup_node_def] dns_lookup_def cancelled_locally_def out_of_time_locally_def valid observe_dns_def ask_def demo_env_def dns_evidence_def subject dns_answers_def
        classify_dns_def classify_resolver_error_def plain_error_def step_dns_lookup_def id demo_lookup_node_def Let_def
        del: new_evidence_Inr)
qed

definition demo_resolved_builder :: builder where
  "demo_resolved_builder = \<lparr>gb_nodes = [(ev_id demo_target_node, demo_target_node), (ev_id demo_lookup_node, demo_lookup_node)],
     gb_parents = [(ev_id demo_lookup_node, [ev_id demo_target_node])], gb_blocked = []\<rparr>"

lemma demo_record_lookup:
  "record_evidence demo_lookup_node (ev_id demo_target_node) \<lparr>wd_tick = k, wd_builder = demo_requested_builder, wd_log = []\<rparr> =
     (Inr (), \<lparr>wd_tick = k, wd_builder = demo_resolved_builder, wd_log = []\<rparr>)"
  by (simp add: record_evidence_def on_builder_def add_evidence_def demo_requested_builder_def demo_resolved_builder_def
      evidence_is_zero_def demo_target_node_def demo_lookup_node_def add_parent_def rbind_require_node reachable_id_def
      rel_get_def add_to_set_def)

lemma demo_dns_chain:
  "run_chain demo_env (pg_chain_params (demo_pg_run\<lparr>pr_host := ''db''\<rparr>) (ev_id demo_target_node))
     \<lparr>wd_tick = 2, wd_builder = demo_requested_builder, wd_log = []\<rparr> =
   (Inr [], \<lparr>wd_tick = 6, wd_builder = demo_resolved_builder, wd_log = []\<rparr>)"
proof -
  let ?p = "pg_chain_params (demo_pg_run\<lparr>pr_host := ''db''\<rparr>) (ev_id demo_target_node)"
  have parts: "cp_host ?p = ''db''" "cp_scope ?p = []" "cp_parent ?p = ev_id demo_target_node" "cp_port ?p = 5432"
    by (simp_all add: pg_chain_params_def demo_pg_run_def)
  have valid: "validate_chain ?p = Inr ()"
    by (simp add: validate_chain_def parts demo_name) (simp add: pg_chain_params_def demo_pg_run_def)
  have none: "resolved_addresses demo_lookup_node = []"
    by (simp add: resolved_addresses_def evidence_attribute_def demo_lookup_node_def)
  show ?thesis
    by (simp add: run_chain_def valid locate_def chain_host_def parts demo_name demo_lookup demo_record_lookup none)
qed

lemma demo_measured:
  "measure_postgres demo_pg_env (demo_pg_run\<lparr>pr_host := ''db''\<rparr>) \<lparr>lt_host = ''db'', lt_port = 5432\<rparr>
     \<lparr>wd_tick = 1, wd_builder = new_graph_builder, wd_log = []\<rparr> \<sigma> =
   (Inr False, \<lparr>wd_tick = 6, wd_builder = demo_resolved_builder, wd_log = []\<rparr>, \<sigma>)"
proof -
  have pe: "pv_env demo_pg_env = demo_env" by (simp add: demo_pg_env_def)
  have "ask (en_now demo_env) \<lparr>wd_tick = 1, wd_builder = new_graph_builder, wd_log = []\<rparr> =
      (2, \<lparr>wd_tick = 2, wd_builder = new_graph_builder, wd_log = []\<rparr>)"
    by (simp add: ask_def demo_env_def)
  then show ?thesis
    by (simp add: measure_postgres_def pe demo_requested demo_dns_chain measure_paths_def select_path_def
        canonical_first_def canonical_minimum_def)
qed

lemma demo_diagnosed:
  "\<exists>res w'. diagnose_postgres demo_pg_env True demo_pg_input SweepProps.demo_world demo_streams = (Inr res, w', demo_streams)"
proof -
  have start: "ask (en_now (pv_env demo_pg_env)) SweepProps.demo_world =
      (1, \<lparr>wd_tick = 1, wd_builder = new_graph_builder, wd_log = []\<rparr>)"
    by (simp add: ask_def demo_pg_env_def demo_env_def SweepProps.demo_world_def)
  have host: "demo_pg_input\<lparr>pr_host := ''db''\<rparr> = demo_pg_input"
    by (simp add: demo_pg_input_def demo_pg_run_def pg_run_params.defs)
  have parts: "\<not> vantage_is_zero (pr_vantage demo_pg_input)" "is_ok (validate_identifier (pr_version demo_pg_input))"
    by (simp_all add: demo_input_parts vantage_is_zero_def eval_identifier)
  let ?w = "\<lparr>wd_tick = 1, wd_builder = new_graph_builder, wd_log = []\<rparr>"
  obtain res w2 where "judge_postgres demo_pg_env demo_pg_input \<lparr>lt_host = ''db'', lt_port = 5432\<rparr> 1 False
      \<lparr>wd_tick = 6, wd_builder = demo_resolved_builder, wd_log = []\<rparr> = (Inr res, w2)"
    using judge_postgres_reports [OF measure_postgres_grown [OF demo_measured] _ parts(1,2)
        measured_label [OF demo_measured] demo_clock, of 1 0 False]
    by (auto simp: demo_pg_env_def demo_env_def)
  then show ?thesis
    by (simp add: diagnose_postgres_def demo_input_parts demo_name host demo_input_valid start Let_def demo_measured [unfolded One_nat_def])
qed

theorem diagnose_postgres_reports_witness:
  "clock_ok demo_pg_env \<and> is_ok (validate_identifier (pr_version demo_pg_input))
   \<and> (\<exists>res. fst (diagnose_postgres demo_pg_env True demo_pg_input SweepProps.demo_world demo_streams) = Inr res)
   \<and> fst (diagnose_postgres demo_pg_env False demo_pg_input SweepProps.demo_world demo_streams)
       \<in> {Inl ErrRunInput} \<union> range (\<lambda>e. Inl (ErrRunStep e)) \<union> range Inr"
proof -
  have version: "is_ok (validate_identifier (pr_version demo_pg_input))"
    by (simp add: demo_input_parts eval_identifier)
  show ?thesis
    using demo_clock version demo_diagnosed diagnose_postgres_reports [OF demo_clock version] by (metis fst_conv)
qed

end
