(* ===== verification/PgScope.thy ===== *)
theory PgScope
  imports PgRuleProps PgApp
begin

text \<open>
  What the finding \<open>POSTGRES_ADMISSION_SCOPE\<close> of \<open>internal/diagnosis/postgres/admission.go\<close> counts: the startup
  exchanges of the graph, exactly, and nothing else - so not the resolved addresses that no startup exchange was
  begun with.
\<close>

subsection \<open>A target with three addresses, of which one cannot be reached\<close>

text \<open>What a run with TLS disabled records for the role \<open>reader\<close> and the name \<open>db\<close> with three addresses: the target,
  the lookup, a TCP connect for each address, and for each address that was reached an SSLRequest skipped by policy
  and the startup exchange. The third address refuses the connection; the other two refuse the role.\<close>

definition scope_endpoint :: "string \<Rightarrow> subject" where
  "scope_endpoint ref = \<lparr>subj_kind = SubjectKindEndpoint, subj_ref = ref\<rparr>"

definition scope_target :: evidence where
  "scope_target = \<lparr>ev_id = ''target.requested/db:5432'',
     ev_subject = \<lparr>subj_kind = SubjectKindTarget, subj_ref = ''db:5432''\<rparr>, ev_layer = LayerInput,
     ev_step = ''target.requested'', ev_state = StatePass, ev_failure = FailureNone, ev_attributes = [],
     ev_started = 2, ev_elapsed = unmeasured\<rparr>"

definition scope_lookup :: evidence where
  "scope_lookup = \<lparr>ev_id = ''dns.lookup/db'', ev_subject = scope_endpoint ''db'', ev_layer = LayerDNS,
     ev_step = ''dns.lookup'', ev_state = StatePass, ev_failure = FailureNone,
     ev_attributes = [(attr_dns_answers, host_list_attr [''10.0.0.1'', ''10.0.0.2'', ''10.0.0.3''])],
     ev_started = 3, ev_elapsed = measured 2\<rparr>"

definition scope_tcp :: "string \<Rightarrow> state \<Rightarrow> failure_class \<Rightarrow> go_time \<Rightarrow> evidence" where
  "scope_tcp ip st fl at = \<lparr>ev_id = ''tcp.connect/db:5432/'' @ ip, ev_subject = scope_endpoint (ip @ '':5432''),
     ev_layer = LayerTCP, ev_step = ''tcp.connect'', ev_state = st, ev_failure = fl, ev_attributes = [],
     ev_started = at, ev_elapsed = measured 2\<rparr>"

definition scope_ssl :: "string \<Rightarrow> go_time \<Rightarrow> evidence" where
  "scope_ssl ip at = \<lparr>ev_id = ''postgres.ssl_request/db:5432/'' @ ip, ev_subject = scope_endpoint (ip @ '':5432''),
     ev_layer = LayerTLS, ev_step = ''postgres.ssl_request'', ev_state = StateSkipped,
     ev_failure = FailureExecSkippedByPolicy, ev_attributes = [(attr_tls_plan, string_attr (tls_plan_string TLSDisabled))],
     ev_started = at, ev_elapsed = unmeasured\<rparr>"

definition scope_refusal :: error_fields where
  "scope_refusal = \<lparr>ef_sqlstate = ''28000'', ef_severity = ''FATAL'', ef_native = True\<rparr>"

definition scope_startup :: "string \<Rightarrow> go_time \<Rightarrow> evidence" where
  "scope_startup ip at = \<lparr>ev_id = ''postgres.startup/db:5432/'' @ ip, ev_subject = scope_endpoint (ip @ '':5432''),
     ev_layer = LayerProtocol, ev_step = ''postgres.startup'', ev_state = StateFail, ev_failure = FailureAuthzNotPermitted,
     ev_attributes = [(attr_protocol_version, string_attr ''3.0''), (attr_role, identity_attr ''reader'')]
       @ error_attributes scope_refusal,
     ev_started = at, ev_elapsed = measured 2\<rparr>"

text \<open>The nodes and the edges in the order of the graph.\<close>

definition scope_startups :: "evidence list" where
  "scope_startups = [scope_startup ''10.0.0.1'' 17, scope_startup ''10.0.0.2'' 22]"

definition scope_nodes :: "evidence list" where
  "scope_nodes =
     [scope_lookup, scope_ssl ''10.0.0.1'' 15, scope_ssl ''10.0.0.2'' 20] @ scope_startups @
     [scope_target, scope_tcp ''10.0.0.1'' StatePass FailureNone 6, scope_tcp ''10.0.0.2'' StatePass FailureNone 9,
      scope_tcp ''10.0.0.3'' StateFail FailureTCPConnectionRefused 12]"

definition scope_edges :: "(evidence_id \<times> evidence_id) list" where
  "scope_edges =
     [(''dns.lookup/db'', ''target.requested/db:5432''),
      (''tcp.connect/db:5432/10.0.0.1'', ''dns.lookup/db''),
      (''tcp.connect/db:5432/10.0.0.2'', ''dns.lookup/db''),
      (''tcp.connect/db:5432/10.0.0.3'', ''dns.lookup/db''),
      (''postgres.ssl_request/db:5432/10.0.0.1'', ''tcp.connect/db:5432/10.0.0.1''),
      (''postgres.startup/db:5432/10.0.0.1'', ''postgres.ssl_request/db:5432/10.0.0.1''),
      (''postgres.ssl_request/db:5432/10.0.0.2'', ''tcp.connect/db:5432/10.0.0.2''),
      (''postgres.startup/db:5432/10.0.0.2'', ''postgres.ssl_request/db:5432/10.0.0.2'')]"

fun add_nodes :: "evidence list \<Rightarrow> builder \<Rightarrow> domain_error + builder" where
  "add_nodes [] b = Inr b"
| "add_nodes (e # es) b = rbind (add_evidence b e) (add_nodes es)"

fun add_edges :: "(evidence_id \<times> evidence_id) list \<Rightarrow> builder \<Rightarrow> domain_error + builder" where
  "add_edges [] b = Inr b"
| "add_edges ((child, parent) # es) b = rbind (add_parent b child parent) (add_edges es)"

lemma add_nodes_built: "built b \<Longrightarrow> \<forall>e\<in>set es. evidence_wf e \<Longrightarrow> add_nodes es b = Inr b' \<Longrightarrow> built b'"
  by (induction es arbitrary: b)
    (auto simp: rbind_Inr_iff, metis built.step builder_step.evidence new_evidence_Inr)

lemma add_edges_built: "built b \<Longrightarrow> add_edges es b = Inr b' \<Longrightarrow> built b'"
  by (induction es b rule: add_edges.induct)
    (auto simp: rbind_Inr_iff, metis built.step builder_step.parent)

lemma update_absent: "k \<notin> fst ` set al \<Longrightarrow> AList.update k v al = al @ [(k, v)]"
  by (induction al) auto

lemma add_nodes_eq:
  "distinct (map fst (gb_nodes b) @ map ev_id es) \<Longrightarrow> \<forall>e\<in>set es. evidence_wf e \<Longrightarrow>
     add_nodes es b = Inr (b\<lparr>gb_nodes := gb_nodes b @ map (\<lambda>e. (ev_id e, e)) es\<rparr>)"
proof (induction es arbitrary: b)
  case (Cons e es)
  have new: "map_of (gb_nodes b) (ev_id e) = None" using Cons.prems(1) by (simp add: map_of_eq_None_iff)
  have "\<not> evidence_is_zero e" using Cons.prems(2) by (auto simp: evidence_is_zero_def evidence_wf_def)
  moreover have "AList.update (ev_id e) e (gb_nodes b) = gb_nodes b @ [(ev_id e, e)]"
    using Cons.prems(1) by (intro update_absent) auto
  ultimately have "add_evidence b e = Inr (b\<lparr>gb_nodes := gb_nodes b @ [(ev_id e, e)]\<rparr>)"
    using new by (simp add: add_evidence_def)
  then show ?case using Cons by simp
qed simp

lemmas eval_scope = scope_nodes_def scope_startups_def scope_target_def scope_lookup_def scope_tcp_def scope_ssl_def
  scope_startup_def scope_endpoint_def

definition plain_text :: "string \<Rightarrow> bool" where
  "plain_text s \<longleftrightarrow> list_all (\<lambda>c. 33 \<le> code c \<and> code c < 127) s"

lemma plain_text_append: "plain_text (s @ t) \<longleftrightarrow> plain_text s \<and> plain_text t"
  by (simp add: plain_text_def)

lemma plain_identifier: "s \<noteq> [] \<Longrightarrow> plain_text s \<Longrightarrow> is_ok (validate_identifier s)"
  unfolding plain_text_def by (rule identifier_ascii)

lemma scope_ids_ok:
  assumes "plain_text ip"
  shows "is_ok (validate_identifier (''tcp.connect/db:5432/'' @ ip))"
    and "is_ok (validate_identifier (''postgres.ssl_request/db:5432/'' @ ip))"
    and "is_ok (validate_identifier (''postgres.startup/db:5432/'' @ ip))"
    and "is_ok (validate_identifier ''target.requested/db:5432'')"
    and "is_ok (validate_identifier ''dns.lookup/db'')"
proof -
  have p: "plain_text ''tcp.connect/db:5432/''" "plain_text ''postgres.ssl_request/db:5432/''"
    "plain_text ''postgres.startup/db:5432/''" "plain_text ''target.requested/db:5432''" "plain_text ''dns.lookup/db''"
    by (simp_all add: plain_text_def)
  show "is_ok (validate_identifier (''tcp.connect/db:5432/'' @ ip))"
    by (rule plain_identifier) (use assms p(1) in \<open>simp_all only: plain_text_append, simp_all\<close>)
  show "is_ok (validate_identifier (''postgres.ssl_request/db:5432/'' @ ip))"
    by (rule plain_identifier) (use assms p(2) in \<open>simp_all only: plain_text_append, simp_all\<close>)
  show "is_ok (validate_identifier (''postgres.startup/db:5432/'' @ ip))"
    by (rule plain_identifier) (use assms p(3) in \<open>simp_all only: plain_text_append, simp_all\<close>)
  show "is_ok (validate_identifier ''target.requested/db:5432'')" "is_ok (validate_identifier ''dns.lookup/db'')"
    by (rule plain_identifier, simp, rule p)+
qed

lemmas eval_node = subject_is_zero_def zero_subject_def subject_kind_valid_def layer_valid_def state_valid_def
  failure_class_valid_def attribute_key_valid_def attr_valid_def attr_kind_valid_def step_valid_def measured_def
  unmeasured_def zero_attr_def eval_dotted

lemma scope_attributes_wf:
  "\<forall>(key, value)\<in>set ([(attr_protocol_version, string_attr ''3.0''), (attr_role, identity_attr ''reader'')]
      @ error_attributes scope_refusal). attribute_key_valid key \<and> attr_valid value"
  "\<forall>(key, value)\<in>set [(attr_tls_plan, string_attr (tls_plan_string TLSDisabled))]. attribute_key_valid key \<and> attr_valid value"
  by (simp_all add: error_attributes_def scope_refusal_def error_fields_zero_def eval_node string_attr_def identity_attr_def
      bool_attr_def attr_protocol_version_def attr_role_def attr_sqlstate_def attr_error_severity_def
      attr_error_is_native_def attr_tls_plan_def)

lemma scope_node_wf:
  assumes "plain_text ip" "0 < at"
  shows "evidence_wf (scope_tcp ip StatePass FailureNone at)"
    and "evidence_wf (scope_tcp ip StateFail FailureTCPConnectionRefused at)"
    and "evidence_wf (scope_ssl ip at)" and "evidence_wf (scope_startup ip at)"
    and "evidence_wf scope_target" and "evidence_wf scope_lookup"
  unfolding evidence_wf_def
  using assms scope_ids_ok [OF assms(1)] scope_attributes_wf
  by (simp_all add: scope_tcp_def scope_ssl_def scope_startup_def scope_target_def scope_lookup_def scope_endpoint_def)
    (simp_all add: eval_node attr_dns_answers_def host_list_attr_def)

lemma scope_nodes_wf: "\<forall>e\<in>set scope_nodes. evidence_wf e"
proof -
  have "plain_text ''10.0.0.1''" "plain_text ''10.0.0.2''" "plain_text ''10.0.0.3''" by (simp_all add: plain_text_def)
  then show ?thesis
    using scope_node_wf(5,6) [of "''10.0.0.1''" 1] by (simp add: scope_nodes_def scope_startups_def scope_node_wf(1-4))
qed

text \<open>The identifiers are those the steps give.\<close>

lemma scope_step_ids:
  assumes "ip \<in> {''10.0.0.1'', ''10.0.0.2'', ''10.0.0.3''}"
  shows "ev_id (scope_tcp ip st fl at) = scoped_evidence_id [] step_tcp_connect [''db:5432'', ip]"
    and "ev_id (scope_ssl ip at) = scoped_evidence_id [] step_ssl_request [''db:5432'', ip]"
    and "ev_id (scope_startup ip at) = scoped_evidence_id [] step_startup [''db:5432'', ip]"
  using assms
  by (auto simp: eval_scope scoped_evidence_id_def scope_is_zero_def escape_def separator_def step_tcp_connect_def
      step_ssl_request_def step_startup_def)

definition scope_builder :: builder where
  "scope_builder = \<lparr>gb_nodes = map (\<lambda>e. (ev_id e, e)) scope_nodes,
     gb_parents = map (\<lambda>(c, p). (c, [p])) scope_edges, gb_blocked = []\<rparr>"

lemma scope_ids:
  "map ev_id scope_nodes = [''dns.lookup/db'', ''postgres.ssl_request/db:5432/10.0.0.1'', ''postgres.ssl_request/db:5432/10.0.0.2'',
     ''postgres.startup/db:5432/10.0.0.1'', ''postgres.startup/db:5432/10.0.0.2'', ''target.requested/db:5432'',
     ''tcp.connect/db:5432/10.0.0.1'', ''tcp.connect/db:5432/10.0.0.2'', ''tcp.connect/db:5432/10.0.0.3'']"
  by (simp add: eval_scope)

lemma scope_edges_added:
  assumes "dom (map_of ns) = set (map ev_id scope_nodes)"
  shows "add_edges scope_edges \<lparr>gb_nodes = ns, gb_parents = [], gb_blocked = []\<rparr> =
    Inr \<lparr>gb_nodes = ns, gb_parents = map (\<lambda>(c, p). (c, [p])) scope_edges, gb_blocked = []\<rparr>"
  by (simp add: scope_edges_def add_parent_def rbind_require_node assms [unfolded scope_ids] reachable_id_def
      rel_get_def add_to_set_def)

lemma scope_built: "built scope_builder"
proof -
  let ?ns = "map (\<lambda>e. (ev_id e, e)) scope_nodes"
  have "add_nodes scope_nodes new_graph_builder = Inr \<lparr>gb_nodes = ?ns, gb_parents = [], gb_blocked = []\<rparr>"
    using add_nodes_eq [OF _ scope_nodes_wf, of new_graph_builder] by (simp add: new_graph_builder_def scope_ids)
  then have "built \<lparr>gb_nodes = ?ns, gb_parents = [], gb_blocked = []\<rparr>"
    by (rule add_nodes_built [OF built.start scope_nodes_wf])
  moreover have "dom (map_of ?ns) = set (map ev_id scope_nodes)" by (simp add: dom_map_of_conv_image_fst image_image)
  ultimately show ?thesis
    using add_edges_built [OF _ scope_edges_added [of ?ns]] by (simp add: scope_builder_def)
qed

definition scope_graph :: graph where
  "scope_graph = frozen scope_builder"

lemma scope_graph_wf: "graph_wf scope_graph"
  using freeze_ok [OF built_wf [OF scope_built]] scope_built by (auto simp: graph_wf_def scope_graph_def)

lemma scope_graph_nodes: "graph_nodes scope_graph = scope_nodes"
proof -
  have "sort (map fst (gb_nodes scope_builder)) = map ev_id scope_nodes"
    by (simp add: scope_builder_def comp_def) (simp add: scope_ids)
  moreover have "g_nodes scope_graph = map (\<lambda>e. (ev_id e, e)) scope_nodes"
    by (simp add: scope_graph_def frozen_def Let_def scope_builder_def)
  moreover have "map_of (map (\<lambda>e. (ev_id e, e)) scope_nodes) (ev_id e) = Some e" if "e \<in> set scope_nodes" for e
    using that by (intro map_of_is_SomeI) (auto simp: comp_def scope_ids)
  ultimately show ?thesis
    using frozen_reads(1) [OF built_wf [OF scope_built]]
    by (simp add: graph_nodes_def scope_graph_def [symmetric] comp_def cong: map_cong)
qed

definition scope_vantage :: vantage where
  "scope_vantage = \<lparr>vt_source = VantageSourceLocalHost, vt_host = ''here''\<rparr>"

lemma scope_graph_parts:
  "requested scope_graph = [scope_target]" "startups scope_graph = scope_startups"
  "admitted_as AdmissionRefused scope_graph = scope_startups" "admitted_as AdmissionAccepted scope_graph = []"
  "admitted_as AdmissionUndetermined scope_graph = []" "\<not> incomplete_run CtxLive scope_graph established"
proof -
  show r: "requested scope_graph = [scope_target]" and s: "startups scope_graph = scope_startups"
    by (simp_all add: requested_def startups_def scope_graph_nodes eval_scope step_target_requested_def step_startup_def)
  show "admitted_as AdmissionRefused scope_graph = scope_startups" "admitted_as AdmissionAccepted scope_graph = []"
    "admitted_as AdmissionUndetermined scope_graph = []"
    by (simp_all add: admitted_as_def s classify_admission_def eval_scope)
  show "\<not> incomplete_run CtxLive scope_graph established"
    by (simp add: incomplete_run_def scope_graph_nodes ran_out_of_time_def eval_scope)
qed

subsection \<open>What the finding counts\<close>

text \<open>What that finding says of the addresses the target resolved to is not what it counts. The name of the example
  resolves to three addresses; the run is complete by its own definition, and the finding says the endpoint refused at
  all 2 addresses this target resolved to, and that these counts account for the whole set.\<close>

lemma scope_counts_startups:
  "evidence_attribute scope_lookup attr_dns_answers = (host_list_attr [''10.0.0.1'', ''10.0.0.2'', ''10.0.0.3''], True)
   \<and> (\<exists>f. admission_scope_rule \<lparr>ctx_graph = scope_graph, ctx_vantage = v,
            ctx_incomplete = incomplete_run CtxLive scope_graph established\<rparr> = [f]
        \<and> f_summary f = summary_admission_all 2
        \<and> f_detail f = pg_detail_admission_meaning @ pg_detail_admission_uniform)"
proof -
  let ?ctx = "\<lparr>ctx_graph = scope_graph, ctx_vantage = v, ctx_incomplete = incomplete_run CtxLive scope_graph established\<rparr>"
  have two: "length scope_startups = 2" "scope_startups \<noteq> []" by (simp_all add: scope_startups_def)
  have "admission_scope_rule ?ctx = [admission_claim ?ctx scope_target]"
    using admission_scope_rule_eq [of ?ctx] scope_graph_wf by (simp add: scope_graph_parts two)
  moreover have "admission_prose (scope_of ?ctx scope_target) =
      (summary_admission_all 2, pg_detail_admission_meaning @ pg_detail_admission_uniform)"
    by (simp add: admission_prose_def scope_graph_parts admission_total_startups two)
  ultimately have "\<exists>f. admission_scope_rule ?ctx = [f] \<and> f_summary f = summary_admission_all 2
      \<and> f_detail f = pg_detail_admission_meaning @ pg_detail_admission_uniform"
    by (simp add: admission_claim_def Let_def pg_finding_def)
  then show ?thesis by (simp add: scope_lookup_def evidence_attribute_def)
qed

subsection \<open>Properties\<close>

text \<open>C29: The finding on the scope of admission is given exactly when the run had one requested target, at least two
  startup exchanges and a refusal of the role among them; it is that one finding, on the target, at INFO, and it cites
  the target and every startup exchange of the graph and no other evidence.\<close>

theorem admission_scope_exact:
  assumes "graph_wf (ctx_graph ctx)"
  shows "(case requested (ctx_graph ctx) of
      [anchor] \<Rightarrow>
        if length (startups (ctx_graph ctx)) < 2 \<or> admitted_as AdmissionRefused (ctx_graph ctx) = []
        then admission_scope_rule ctx = []
        else \<exists>f. admission_scope_rule ctx = [f] \<and> f_severity f = SeverityInfo \<and> f_subject f = ev_subject anchor
          \<and> set (f_refs f) = insert (ev_id anchor) (ev_id ` set (startups (ctx_graph ctx)))
          \<and> (f_summary f, f_detail f) = admission_prose (scope_of ctx anchor)
    | _ \<Rightarrow> admission_scope_rule ctx = [])"
  using scope_refs [of ctx] by (auto simp: admission_scope_rule_eq [OF assms] admission_claim_def Let_def pg_finding_def
    split: list.splits)

theorem admission_scope_exact_witness:
  "graph_wf scope_graph
   \<and> (\<exists>f. admission_scope_rule \<lparr>ctx_graph = scope_graph, ctx_vantage = scope_vantage, ctx_incomplete = False\<rparr> = [f]
        \<and> set (f_refs f) =
          {''target.requested/db:5432'', ''postgres.startup/db:5432/10.0.0.1'', ''postgres.startup/db:5432/10.0.0.2''})"
proof -
  let ?ctx = "\<lparr>ctx_graph = scope_graph, ctx_vantage = scope_vantage, ctx_incomplete = False\<rparr>"
  have g: "graph_wf (ctx_graph ?ctx)" using scope_graph_wf by simp
  have ids: "ev_id scope_target = ''target.requested/db:5432''"
    "ev_id ` set scope_startups = {''postgres.startup/db:5432/10.0.0.1'', ''postgres.startup/db:5432/10.0.0.2''}"
    "length scope_startups = 2" "scope_startups \<noteq> []"
    by (simp_all add: eval_scope)
  have "\<exists>f. admission_scope_rule ?ctx = [f] \<and> set (f_refs f) = insert (ev_id scope_target) (ev_id ` set scope_startups)"
    using admission_scope_exact [OF g] by (auto simp: scope_graph_parts ids(3,4))
  then show ?thesis using scope_graph_wf unfolding ids by simp
qed

end
