(* ===== verification/Spec2Isabelle.thy ===== *)
theory Spec2Isabelle
  imports Engine Basis PgAppProps PgProtocol RedisWire ScramExchange AmqpConn Advice Pipeline PgDiagnose PgScope
begin

text \<open>
  A verification library for svcdoctor, a command that diagnoses why a client cannot use a service. It measures the
  path to an endpoint step by step, records every observation as a node of an evidence graph, lets rules draw findings
  from the graph, and reports the graph and the findings, if asked in a redacted form. Its exit code tells a script
  what the report tells a person. Paths are relative to \<open>src/\<close>;
  definitions keep the names of the Go functions and types they translate, in snake case.

  \<^bold>\<open>The program and its parts.\<close> A PostgreSQL run (\<open>internal/app/postgres.go\<close>) uses the parts below but
  for the codecs of Redis and AMQP;
  a run over many targets (\<open>internal/fleet/run\<close>) calls such runs as its runners:

    \<^item> \<open>internal/domain\<close>: the values everything else exchanges. Theories \<open>Names\<close> and \<open>Prose\<close> (validators of texts),
      \<open>Enums\<close> (sixteen \<open>uint8\<close> enumerations with their string and JSON forms), \<open>Evidence\<close> (one observation), \<open>Graph\<close>
      (\<open>graphbuilder.go\<close>, \<open>graph.go\<close>), \<open>Finding\<close>, \<open>Report\<close>, \<open>ReportJson\<close> and \<open>RunReport\<close>.
    \<^item> \<open>internal/security\<close>: \<open>Credential\<close> (channels, policies, endpoints, bound credentials), \<open>Redact\<close> and \<open>RedactRun\<close>
      (\<open>redaction/redact.go\<close>, \<open>pseudonym.go\<close>, \<open>run.go\<close>).
    \<^item> \<open>internal/probe\<close>: \<open>Probe\<close> (evidence ids, hosts), \<open>Measure\<close> (DNS, TCP and TLS probes), \<open>Sweep\<close> (\<open>transport/run.go\<close>,
      the chain over the addresses of a name).
    \<^item> \<open>internal/adapter\<close>: \<open>PgWire\<close> and \<open>PgSteps\<close> (PostgreSQL), \<open>Resp\<close> and \<open>RedisWire\<close> (the RESP2 codec), \<open>AmqpTable\<close> and
      \<open>AmqpConn\<close> (the AMQP 0-9-1 codec); \<open>internal/sasl/scram\<close> is \<open>Scram\<close>.
    \<^item> \<open>internal/diagnosis\<close>: \<open>GraphQuery\<close>, \<open>Boundary\<close>, \<open>Registry\<close>, \<open>Converge\<close> with \<open>ConvergePlan\<close>, \<open>Engine\<close>, \<open>Basis\<close>
      (confidence), \<open>Advice\<close>; the rules are \<open>TransportRules\<close> and \<open>PgRules\<close> over \<open>RuleBase\<close>, with their prose in \<open>RuleText\<close>
      and \<open>PgRuleTexts\<close>.
    \<^item> \<open>internal/app\<close>: \<open>PgApp\<close> (the measuring half of \<open>DiagnosePostgres\<close>, \<open>select.go\<close>, \<open>target.go\<close>) and \<open>PgDiagnose\<close> (the
      whole run, from its parameters to its report).
    \<^item> \<open>internal/fleet/run\<close>: \<open>Fleet\<close>, the worker pool over many targets; \<open>internal/cli/exit.go\<close>: \<open>ExitCode\<close>.

  \<open>Pipeline\<close> composes engine, report, redaction, pool and exit code.

  \<^bold>\<open>State and effects.\<close> Go values are records and datatypes with the fields and constructors of the source. A Go string
  is a list of bytes, an \<open>int\<close> an integer with the wrap-around of 64 bits written out where it can be reached (\<open>GoInt\<close>,
  \<open>Resp\<close>), the fields of AMQP frames and the words of SHA-256 are words of their width. A function with an error result
  gives a sum, the error on the left; a panic is a value of its own (\<open>Resp\<close>) or \<open>None\<close> (a rule in \<open>Engine\<close>). The builder
  of the graph is a record of association lists that every step returns updated, and \<open>built\<close> says that a builder came
  from calls of it. The probes and steps pass a \<open>world\<close>: the number of questions asked so far, the builder, and a log of
  the connections opened and closed; PostgreSQL steps also pass the byte stream of every connection. Ownership of a
  connection is a record with the fields \<open>conn\<close>, \<open>taken\<close> and \<open>closed\<close> of the source. The pool of \<open>Fleet\<close> is three
  inductive step relations (dispatcher, worker, contexts) over one state, so every interleaving is a run of the model.

  \<^bold>\<open>What the surroundings are.\<close> Clock, contexts, resolver, dialer, \<open>crypto/tls\<close>, what an I/O error is found to be, random
  nonces and PBKDF2 are functions of the records \<open>env\<close> and \<open>pg_env\<close>; each is asked with the number of the question, so it
  may answer differently each time. They are arguments of the definitions and the theorems hold for all of them, but for
  \<open>clock_ok\<close>, which says that the clock does not go back and is not at the zero time. Runners and resolvers of the pool are
  relations of a \<open>fleet_world\<close>; \<open>makes_reports\<close> says that a report they give came from the constructor, \<open>answers\<close> that they
  answer. The order in which an unstable sort leaves ties in the pseudonym table is the argument \<open>order\<close> of \<open>redact\<close>, and
  nothing is assumed of it. Deadlines show as what a context and a read answer.

  \<^bold>\<open>Interfaces.\<close> \<open>comparator\<close> (\<open>Prelude\<close>) is the contract of Go's comparison functions, under which \<open>slices.SortFunc\<close> gives
  one result; ids, subjects, findings, nodes, addresses and the keys of convergence interpret it. \<open>go_enum\<close> and its
  extension \<open>json_enum\<close> (\<open>Enums\<close>) are the contract of an enumeration. \<open>evidence_view\<close> (\<open>Graph\<close>) is what readers may rely
  on in a frozen graph: listed nodes are the recorded ones, in order, children invert parents, both relations are acyclic,
  only SKIPPED evidence is blocked; the frozen graph interprets it and the queries rest on it. \<open>grounded_rule\<close> (\<open>RuleBase\<close>)
  is what the engine may rely on in a rule: its findings are constructed, cite recorded evidence and accuse only on a
  recorded failure; every rule of the PostgreSQL registry interprets it.

  \<^bold>\<open>What is shown.\<close> Each group of lemmas goes with its component:

    \<^item> graph: adding an edge succeeds exactly when it keeps the relation acyclic, the cycle search terminates and is
      correct, freezing what was built succeeds and lists nodes and relations in the order of the ids (\<open>Graph\<close>); the
      boundary of a subject is its first failure and the last success below it (\<open>Boundary\<close>);
    \<^item> convergence and engine: nothing is lost or invented, the result does not depend on the order or the names of the
      rules, and a rule that panics costs its own findings only (\<open>ConvergePlan\<close>, \<open>Engine\<close>); HIGH confidence needs direct
      authority or a complete contrast (\<open>Basis\<close>); advice is admitted exactly by its filter and gate (\<open>Advice\<close>);
    \<^item> report and redaction: exact refusal of the constructor (\<open>Report\<close>); no identifying value of a report or of any
      target of a run is left in a string of the shareable document, and the diagnosis is kept under one injective
      renaming of the ids (\<open>RedactSound\<close>, \<open>RedactRun\<close>);
    \<^item> codecs: readers accept exactly the grammar of their protocol and consume exactly its bytes (\<open>RespGrammar\<close>,
      \<open>RedisWire\<close>, \<open>PgProtocol\<close>, \<open>AmqpTable\<close>, \<open>AmqpConn\<close>), with the one overflow of the RESP2 reader characterised; SCRAM
      succeeds only after the server's signature verified, and with an honest server always (\<open>ScramExchange\<close>);
    \<^item> probes and run: evidence ids are injective (\<open>Probe\<close>); a path's channel is what the handshake established
      (\<open>SweepProps\<close>); every opened connection is closed once in a run without error, the secret does not influence a run
      whose policy or binding forbids it, our own limits are never blamed on the peer (\<open>PgAppProps\<close>); what is recorded was
      observed (\<open>Recorded\<close>); the report of a run is sound, its exit code follows from what was seen, and every valid run
      ends in a report or a named error (\<open>PgDiagnose\<close>); the finding on the scope of admission (\<open>PgScope\<close>);
    \<^item> pool: every execution ends within a bound, without deadlock, and reports each declared target in its slot; the
      exit code of the run is tied to the answers of resolver and runners (\<open>Fleet\<close>, \<open>Pipeline\<close>).

  \<^bold>\<open>Bounds and fuel.\<close> Recursion is structural or has a termination proof. Three loops take a number instead. The cycle
  search of \<open>Graph\<close> takes one more than the number of ids with targets, enough by \<open>find_cycle_total\<close>. The readers that skip
  notices take the code's own bound: at most 32 notices before the message that ends the wait, so 33 messages, in
  \<open>PgWire\<close> and \<open>PgSteps\<close>; the session read takes the code's 256 frames. The RESP2 reader recurses to the code's depth of 4
  under its budget of 65536 bytes and 16384 elements. Other limits are the code's constants too: messages of 1048576 bytes
  (PostgreSQL), 1048576 SCRAM iterations, AMQP frames of 8192 bytes, sixteen workers. The pool ends within five steps
  for each target, one for each worker and three more (\<open>fleet_run_ends\<close>).

  \<^bold>\<open>What is not modelled.\<close> The Kafka and Kubernetes adapters encode and decode through franz-go and client-go, the
  configuration through yaml.v3, none of which is in the repository. The steps, rules and runs of Redis, RabbitMQ,
  Kafka and Kubernetes are not modelled; of Redis and RabbitMQ the codecs are. Flags, terminal, files, environment and the
  layout of the rendered text are left out; the JSON values of the documents are modelled, their encoding by
  \<open>encoding/json\<close> is not. Nil arguments of the probes and steps are left out. Memory shared between goroutines is the state
  of the pool only, as in the code. None of the rules of the PostgreSQL registry contains an operation that panics, so
  they are total functions there (\<open>sound\<close>); the engine's recovery is modelled and used with rules that do panic.
\<close>

end
